(* ===== verification/Go_Prelude.thy ===== *)
theory Go_Prelude
  imports Main "HOL-Library.Sublist" "HOL-Library.AList" "HOL-Library.List_Lexorder"
    "HOL-Library.Char_ord" "HOL-Library.Word"
begin

text \<open>
  The vocabulary the components share: Go strings, Go maps, error results, and the parts of
  the standard packages \<open>strings\<close>, \<open>strconv\<close> and \<open>slices\<close> the sources call.

  \<^item> A Go string is a sequence of bytes, here a \<^typ>\<open>string\<close>; \<open><\<close> on strings is Go's bytewise
    order (\<open>List_Lexorder\<close> over \<open>Char_ord\<close>), so \<open>slices.Sort\<close> is \<^term>\<open>sort\<close>.
  \<^item> A Go map is an association list with distinct keys.  The order of the list stands for
    the order in which the runtime iterates over the map; theorems hold for every order, and
    where the code sorts, the order independence is itself a theorem.
  \<^item> A pair \<open>(value, err)\<close> is a sum: \<open>Inl\<close> the error, \<open>Inr\<close> the value.
\<close>

section \<open>Collections of facts\<close>

named_theorems res_iff \<open>when a result is a value\<close>
named_theorems go_map_simps \<open>looking up after an update\<close>

section \<open>Error results\<close>

definition res_bind :: "'e + 'a \<Rightarrow> ('a \<Rightarrow> 'e + 'b) \<Rightarrow> 'e + 'b" where
  "res_bind m f = (case m of Inl e \<Rightarrow> Inl e | Inr a \<Rightarrow> f a)"

definition res_guard :: "bool \<Rightarrow> 'e \<Rightarrow> 'e + unit" where
  "res_guard b e = (if b then Inr () else Inl e)"

text \<open>A loop that appends one result per element and returns on the first error.\<close>

fun res_map :: "('a \<Rightarrow> 'e + 'b) \<Rightarrow> 'a list \<Rightarrow> 'e + 'b list" where
  "res_map f [] = Inr []"
| "res_map f (x # xs) =
     res_bind (f x) (\<lambda>y. res_bind (res_map f xs) (\<lambda>ys. Inr (y # ys)))"

text \<open>A loop that updates a state and returns on the first error.\<close>

fun res_fold :: "('s \<Rightarrow> 'a \<Rightarrow> 'e + 's) \<Rightarrow> 's \<Rightarrow> 'a list \<Rightarrow> 'e + 's" where
  "res_fold f s [] = Inr s"
| "res_fold f s (x # xs) = res_bind (f s x) (\<lambda>s'. res_fold f s' xs)"

lemma res_bind_simps [simp]:
  "res_bind (Inl e) f = Inl e" "res_bind (Inr a) f = f a"
  by (simp_all add: res_bind_def)

lemma res_bind_Inr_iff [res_iff]:
  "res_bind m f = Inr b \<longleftrightarrow> (\<exists>a. m = Inr a \<and> f a = Inr b)"
  by (cases m) auto

lemma res_bind_Inl_iff:
  "res_bind m f = Inl e \<longleftrightarrow> m = Inl e \<or> (\<exists>a. m = Inr a \<and> f a = Inl e)"
  by (cases m) auto

lemma res_guard_Inr_iff [res_iff]: "res_guard b e = Inr u \<longleftrightarrow> b"
  by (simp add: res_guard_def)

lemma res_guard_simps [simp]: "res_guard True e = Inr ()" "res_guard False e = Inl e"
  by (simp_all add: res_guard_def)

lemma res_map_Inr_iff [res_iff]:
  "res_map f xs = Inr ys \<longleftrightarrow> list_all2 (\<lambda>x y. f x = Inr y) xs ys"
  by (induction xs arbitrary: ys) (auto simp: res_iff list_all2_Cons1)

text \<open>Every result of a loop comes from an element.\<close>

lemma res_map_mem:
  "res_map f xs = Inr ys \<Longrightarrow> y \<in> set ys \<Longrightarrow> \<exists>x \<in> set xs. f x = Inr y"
  by (induction xs arbitrary: ys) (auto simp: res_bind_Inr_iff)

lemma res_map_length: "res_map f xs = Inr ys \<Longrightarrow> length ys = length xs"
  by (simp add: res_map_Inr_iff list_all2_lengthD)

lemma res_fold_append:
  "res_fold f s (xs @ ys) = res_bind (res_fold f s xs) (\<lambda>s'. res_fold f s' ys)"
proof (induction xs arbitrary: s)
  case Nil
  then show ?case by simp
next
  case (Cons x xs)
  then show ?case by (cases "f s x") simp_all
qed

text \<open>An invariant of the loop body is an invariant of the loop.\<close>

lemma res_fold_invariant:
  assumes "res_fold f s xs = Inr t" and "P s"
    and "\<And>s x s'. x \<in> set xs \<Longrightarrow> P s \<Longrightarrow> f s x = Inr s' \<Longrightarrow> P s'"
  shows "P t"
  using assms
proof (induction xs arbitrary: s)
  case Nil
  then show ?case by simp
next
  case (Cons x xs)
  from Cons.prems(1) obtain s' where s': "f s x = Inr s'" and rest: "res_fold f s' xs = Inr t"
    by (auto simp: res_iff)
  have "P s'" using Cons.prems(3)[OF _ Cons.prems(2) s'] by simp
  then show ?case by (rule Cons.IH[OF rest]) (use Cons.prems(3) in auto)
qed

lemma fold_invariant:
  assumes "P s" and "\<And>s x. x \<in> set xs \<Longrightarrow> P s \<Longrightarrow> P (f x s)"
  shows "P (fold f xs s)"
  using assms by (induction xs arbitrary: s) auto

section \<open>Go maps\<close>

type_synonym ('k, 'v) gomap = "('k \<times> 'v) list"

definition wf_map :: "('k, 'v) gomap \<Rightarrow> bool" where
  "wf_map m \<longleftrightarrow> distinct (map fst m)"

abbreviation mget :: "('k, 'v) gomap \<Rightarrow> 'k \<Rightarrow> 'v option" where
  "mget m k \<equiv> map_of m k"

abbreviation mput :: "'k \<Rightarrow> 'v \<Rightarrow> ('k, 'v) gomap \<Rightarrow> ('k, 'v) gomap" where
  "mput k v m \<equiv> AList.update k v m"

definition mkeys :: "('k, 'v) gomap \<Rightarrow> 'k list" where
  "mkeys m = map fst m"

text \<open>Indexing a map yields the zero value of the element type for a missing key.\<close>

definition mget_or :: "'v \<Rightarrow> ('k, 'v) gomap \<Rightarrow> 'k \<Rightarrow> 'v" where
  "mget_or z m k = (case mget m k of None \<Rightarrow> z | Some v \<Rightarrow> v)"

text \<open>A pointer read out of a map by one of its own keys is never nil.\<close>

definition mget_at :: "('k, 'v) gomap \<Rightarrow> 'k \<Rightarrow> 'v" where
  "mget_at m k = the (mget m k)"

lemma mget_mput [go_map_simps, simp]:
  "mget (mput k v m) k' = (if k' = k then Some v else mget m k')"
  by (simp add: update_conv)

lemma dom_mput [simp]: "dom (map_of (mput k v m)) = insert k (dom (map_of m))"
  by (auto split: if_splits)

lemma mget_or_mput [go_map_simps, simp]:
  "mget_or z (mput k v m) k' = (if k' = k then v else mget_or z m k')"
  by (simp add: mget_or_def)

lemma mget_or_Nil [simp]: "mget_or z [] k = z"
  by (simp add: mget_or_def)

lemma wf_map_Nil [simp]: "wf_map []"
  by (simp add: wf_map_def)

lemma wf_map_mput [simp, intro]: "wf_map m \<Longrightarrow> wf_map (mput k v m)"
  by (simp add: wf_map_def distinct_update)

lemma set_mkeys: "set (mkeys m) = dom (map_of m)"
  by (simp add: mkeys_def dom_map_of_conv_image_fst)

lemma set_mkeys_mput [simp]: "set (mkeys (mput k v m)) = insert k (set (mkeys m))"
  by (auto simp: set_mkeys split: if_splits)

lemma distinct_mkeys: "wf_map m \<Longrightarrow> distinct (mkeys m)"
  by (simp add: wf_map_def mkeys_def)

lemma wf_map_get: "wf_map m \<Longrightarrow> (k, v) \<in> set m \<longleftrightarrow> mget m k = Some v"
  by (simp add: wf_map_def)

text \<open>\<open>MergeMap\<close>: copying the entries of one map into another, as a \<open>range\<close> loop does.\<close>

definition map_copy :: "('k, 'v) gomap \<Rightarrow> ('k, 'v) gomap \<Rightarrow> ('k, 'v) gomap" where
  "map_copy add existing = fold (\<lambda>(k, v) m. mput k v m) add existing"

lemma wf_map_copy [simp, intro]: "wf_map existing \<Longrightarrow> wf_map (map_copy add existing)"
  unfolding map_copy_def by (rule fold_invariant) auto

lemma mget_map_copy [go_map_simps]:
  "wf_map add \<Longrightarrow>
   mget (map_copy add existing) k = (case mget add k of None \<Rightarrow> mget existing k | Some v \<Rightarrow> Some v)"
proof (induction add arbitrary: existing)
  case Nil
  then show ?case by (simp add: map_copy_def)
next
  case (Cons kv add)
  obtain k0 v0 where kv: "kv = (k0, v0)" by fastforce
  from Cons.prems have "wf_map add" and "k0 \<notin> set (map fst add)"
    by (auto simp: wf_map_def kv)
  then have none: "mget add k0 = None"
    by (simp add: map_of_eq_None_iff)
  show ?case
    using Cons.IH[OF \<open>wf_map add\<close>, of "mput k0 v0 existing"] none
    by (auto simp: kv map_copy_def split: option.splits)
qed

text \<open>\<open>slices.Sorted(maps.Keys(m))\<close>.\<close>

definition sorted_keys :: "('k::linorder, 'v) gomap \<Rightarrow> 'k list" where
  "sorted_keys m = sort (mkeys m)"

lemma set_sorted_keys [simp]: "set (sorted_keys m) = set (mkeys m)"
  by (simp add: sorted_keys_def)

lemma sorted_sorted_keys [simp]: "sorted (sorted_keys m)"
  by (simp add: sorted_keys_def)

text \<open>The sorted keys do not depend on the iteration order.\<close>

lemma sorted_keys_cong:
  assumes "wf_map m" and "wf_map m'" and "map_of m = map_of m'"
  shows "sorted_keys m = sorted_keys m'"
proof -
  have "set (mkeys m) = set (mkeys m')" using assms(3) by (simp add: set_mkeys)
  then show ?thesis
    using assms(1,2) unfolding sorted_keys_def
    by (intro sorted_distinct_set_unique) (simp_all add: distinct_mkeys)
qed

text \<open>A set built as a \<open>map[T]bool\<close> or \<open>map[T]struct\{\}\<close> and read back sorted.\<close>

definition sorted_set :: "'a::linorder list \<Rightarrow> 'a list" where
  "sorted_set xs = sort (remdups xs)"

lemma sorted_set_props [simp]:
  "set (sorted_set xs) = set xs" "sorted (sorted_set xs)" "distinct (sorted_set xs)"
  by (simp_all add: sorted_set_def)

lemma sorted_set_cong: "set xs = set ys \<Longrightarrow> sorted_set xs = sorted_set ys"
  unfolding sorted_set_def by (rule sorted_distinct_set_unique) simp_all

lemma sorted_set_unique:
  "sorted ys \<Longrightarrow> distinct ys \<Longrightarrow> set ys = set xs \<Longrightarrow> ys = sorted_set xs"
  unfolding sorted_set_def by (rule sorted_distinct_set_unique) simp_all

end
