(* ===== verification/Go_Strings.thy ===== *)
theory Go_Strings
  imports Go_Prelude
begin

text \<open>
  The functions of Go's packages \<open>strings\<close>, \<open>strconv\<close> and \<open>path\<close> that the sources call, on
  byte strings.  Unicode white space is trimmed by its UTF-8 encodings; letter case is the
  ASCII one.
\<close>

section \<open>Prefixes, suffixes, substrings\<close>

definition go_has_prefix :: "string \<Rightarrow> string \<Rightarrow> bool" where
  "go_has_prefix s p = prefix p s"

definition go_has_suffix :: "string \<Rightarrow> string \<Rightarrow> bool" where
  "go_has_suffix s p = suffix p s"

definition go_contains :: "string \<Rightarrow> string \<Rightarrow> bool" where
  "go_contains s sub = list_ex (prefix sub) (suffixes s)"

definition go_trim_prefix :: "string \<Rightarrow> string \<Rightarrow> string" where
  "go_trim_prefix s p = (if go_has_prefix s p then drop (length p) s else s)"

definition go_trim_suffix :: "string \<Rightarrow> string \<Rightarrow> string" where
  "go_trim_suffix s p = (if go_has_suffix s p then take (length s - length p) s else s)"

lemma go_has_prefix_append [simp]: "go_has_prefix (p @ s) p"
  by (simp add: go_has_prefix_def)

lemma go_has_suffix_append [simp]: "go_has_suffix (s @ p) p"
  by (auto simp: go_has_suffix_def suffix_def)

lemma go_has_prefix_iff: "go_has_prefix s p \<longleftrightarrow> (\<exists>r. s = p @ r)"
  by (auto simp: go_has_prefix_def prefix_def)

lemma go_has_suffix_iff: "go_has_suffix s p \<longleftrightarrow> (\<exists>r. s = r @ p)"
  by (auto simp: go_has_suffix_def suffix_def)

lemma go_contains_iff: "go_contains s sub \<longleftrightarrow> (\<exists>a b. s = a @ sub @ b)"
proof
  assume "go_contains s sub"
  then obtain x where "suffix x s" and "prefix sub x"
    by (auto simp: go_contains_def list_ex_iff)
  then show "\<exists>a b. s = a @ sub @ b"
    unfolding suffix_def prefix_def by blast
next
  assume "\<exists>a b. s = a @ sub @ b"
  then obtain a b where s: "s = a @ sub @ b" by blast
  then have "suffix (sub @ b) s" by (simp add: suffix_def)
  then show "go_contains s sub"
    unfolding go_contains_def list_ex_iff by (intro bexI[of _ "sub @ b"]) simp_all
qed

lemma go_trim_prefix_append [simp]: "go_trim_prefix (p @ s) p = s"
  by (simp add: go_trim_prefix_def)

lemma go_trim_suffix_append [simp]: "go_trim_suffix (s @ p) p = s"
  by (simp add: go_trim_suffix_def)

section \<open>Searching and splitting at a byte\<close>

fun go_index_byte :: "string \<Rightarrow> char \<Rightarrow> nat option" where
  "go_index_byte [] c = None"
| "go_index_byte (x # xs) c = (if x = c then Some 0 else map_option Suc (go_index_byte xs c))"

definition go_last_index_byte :: "string \<Rightarrow> char \<Rightarrow> nat option" where
  "go_last_index_byte s c = map_option (\<lambda>i. length s - Suc i) (go_index_byte (rev s) c)"

fun go_split :: "char \<Rightarrow> string \<Rightarrow> string list" where
  "go_split c [] = [[]]"
| "go_split c (x # xs) =
     (if x = c then [] # go_split c xs
      else (case go_split c xs of [] \<Rightarrow> [[x]] | y # ys \<Rightarrow> (x # y) # ys))"

fun go_join :: "string \<Rightarrow> string list \<Rightarrow> string" where
  "go_join sep [] = []"
| "go_join sep [x] = x"
| "go_join sep (x # y # ys) = x @ sep @ go_join sep (y # ys)"

text \<open>\<open>strings.Cut\<close> at a byte: before, after, found.\<close>

definition go_cut :: "string \<Rightarrow> char \<Rightarrow> string \<times> string \<times> bool" where
  "go_cut s c = (case go_index_byte s c of
     None \<Rightarrow> (s, [], False) | Some i \<Rightarrow> (take i s, drop (Suc i) s, True))"

definition go_replace_byte :: "char \<Rightarrow> string \<Rightarrow> string \<Rightarrow> string" where
  "go_replace_byte c new s = concat (map (\<lambda>x. if x = c then new else [x]) s)"

lemma go_index_byte_None_iff: "go_index_byte s c = None \<longleftrightarrow> c \<notin> set s"
  by (induction s) auto

lemma go_index_byte_Some_iff:
  "go_index_byte s c = Some i \<longleftrightarrow> i < length s \<and> s ! i = c \<and> c \<notin> set (take i s)"
proof (induction s arbitrary: i)
  case Nil
  then show ?case by simp
next
  case (Cons x xs)
  then show ?case by (cases i) auto
qed

lemma go_index_byte_append:
  "c \<notin> set a \<Longrightarrow> go_index_byte (a @ c # b) c = Some (length a)"
  by (induction a) auto

lemma go_last_index_byte_None_iff: "go_last_index_byte s c = None \<longleftrightarrow> c \<notin> set s"
  by (simp add: go_last_index_byte_def go_index_byte_None_iff)

lemma go_last_index_byte_append:
  "c \<notin> set b \<Longrightarrow> go_last_index_byte (a @ c # b) c = Some (length a)"
  by (simp add: go_last_index_byte_def go_index_byte_append)

lemma go_last_index_byte_SomeD:
  assumes "go_last_index_byte s c = Some i"
  shows "s = take i s @ c # drop (Suc i) s \<and> c \<notin> set (drop (Suc i) s)"
proof -
  have "c \<in> set s" using assms go_last_index_byte_None_iff[of s c] by auto
  then obtain a b where s: "s = a @ c # b" and "c \<notin> set b"
    by (meson split_list_last)
  then have "i = length a" using assms go_last_index_byte_append by fastforce
  then show ?thesis using s \<open>c \<notin> set b\<close> by simp
qed

lemma go_split_ne [simp]: "go_split c s \<noteq> []"
  by (induction s) (auto split: list.split)

lemma go_split_no_sep: "x \<in> set (go_split c s) \<Longrightarrow> c \<notin> set x"
proof (induction s arbitrary: x)
  case Nil
  then show ?case by simp
next
  case (Cons y ys)
  then show ?case by (cases "go_split c ys") (auto split: if_splits)
qed

lemma go_join_split [simp]: "go_join [c] (go_split c s) = s"
proof (induction s)
  case Nil
  then show ?case by simp
next
  case (Cons x xs)
  then show ?case
    by (cases "go_split c xs"; cases "tl (go_split c xs)") (auto split: if_splits)
qed

lemma go_split_single: "c \<notin> set s \<Longrightarrow> go_split c s = [s]"
  by (induction s) auto

lemma go_split_append: "c \<notin> set a \<Longrightarrow> go_split c (a @ c # b) = a # go_split c b"
  by (induction a) auto

lemma go_split_join:
  "xs \<noteq> [] \<Longrightarrow> (\<And>x. x \<in> set xs \<Longrightarrow> c \<notin> set x) \<Longrightarrow> go_split c (go_join [c] xs) = xs"
  by (induction "[c]" xs rule: go_join.induct) (auto simp: go_split_single go_split_append)

section \<open>White space\<close>

text \<open>The UTF-8 encodings of the code points \<open>unicode.IsSpace\<close> accepts.\<close>

definition go_spaces :: "string list" where
  "go_spaces =
     [[CHR 0x09], [CHR 0x0A], [CHR 0x0B], [CHR 0x0C], [CHR 0x0D], [CHR 0x20],
      [CHR 0xC2, CHR 0x85], [CHR 0xC2, CHR 0xA0], [CHR 0xE1, CHR 0x9A, CHR 0x80],
      [CHR 0xE2, CHR 0x80, CHR 0x80], [CHR 0xE2, CHR 0x80, CHR 0x81],
      [CHR 0xE2, CHR 0x80, CHR 0x82], [CHR 0xE2, CHR 0x80, CHR 0x83],
      [CHR 0xE2, CHR 0x80, CHR 0x84], [CHR 0xE2, CHR 0x80, CHR 0x85],
      [CHR 0xE2, CHR 0x80, CHR 0x86], [CHR 0xE2, CHR 0x80, CHR 0x87],
      [CHR 0xE2, CHR 0x80, CHR 0x88], [CHR 0xE2, CHR 0x80, CHR 0x89],
      [CHR 0xE2, CHR 0x80, CHR 0x8A], [CHR 0xE2, CHR 0x80, CHR 0xA8],
      [CHR 0xE2, CHR 0x80, CHR 0xA9], [CHR 0xE2, CHR 0x80, CHR 0xAF],
      [CHR 0xE2, CHR 0x81, CHR 0x9F], [CHR 0xE3, CHR 0x80, CHR 0x80]]"

fun strip_front :: "string list \<Rightarrow> nat \<Rightarrow> string \<Rightarrow> string" where
  "strip_front encs 0 s = s"
| "strip_front encs (Suc n) s =
     (case find (\<lambda>e. prefix e s) encs of None \<Rightarrow> s | Some e \<Rightarrow> strip_front encs n (drop (length e) s))"

definition go_trim_left :: "string \<Rightarrow> string" where
  "go_trim_left s = strip_front go_spaces (length s) s"

definition go_trim_right :: "string \<Rightarrow> string" where
  "go_trim_right s = rev (strip_front (map rev go_spaces) (length s) (rev s))"

text \<open>\<open>strings.TrimSpace\<close>.\<close>

definition go_trim_space :: "string \<Rightarrow> string" where
  "go_trim_space s = go_trim_right (go_trim_left s)"

definition space_free_ends :: "string \<Rightarrow> bool" where
  "space_free_ends s \<longleftrightarrow>
     list_all (\<lambda>e. \<not> prefix e s) go_spaces \<and> list_all (\<lambda>e. \<not> suffix e s) go_spaces"

lemma strip_front_id: "list_all (\<lambda>e. \<not> prefix e s) encs \<Longrightarrow> strip_front encs n s = s"
proof (cases n)
  case (Suc k)
  assume "list_all (\<lambda>e. \<not> prefix e s) encs"
  then have "find (\<lambda>e. prefix e s) encs = None"
    by (auto simp: find_None_iff list_all_iff)
  then show ?thesis by (simp add: Suc)
qed simp

lemma go_trim_space_id: "space_free_ends s \<Longrightarrow> go_trim_space s = s"
proof -
  assume a: "space_free_ends s"
  then have "list_all (\<lambda>e. \<not> prefix e (rev s)) (map rev go_spaces)"
    by (simp add: space_free_ends_def list_all_iff suffix_to_prefix)
  then show ?thesis
    using a by (simp add: go_trim_space_def go_trim_left_def go_trim_right_def
        space_free_ends_def strip_front_id)
qed

lemma go_spaces_ne: "e \<in> set go_spaces \<Longrightarrow> e \<noteq> []"
  by (auto simp: go_spaces_def)

text \<open>The fuel \<open>length s\<close> is enough: what is left does not start with white space.\<close>

lemma strip_front_done:
  assumes "\<And>e. e \<in> set encs \<Longrightarrow> e \<noteq> []" and "length s \<le> n"
  shows "list_all (\<lambda>e. \<not> prefix e (strip_front encs n s)) encs"
  using assms(2)
proof (induction n arbitrary: s)
  case 0
  then show ?case using assms(1) by (auto simp: list_all_iff)
next
  case (Suc n)
  show ?case
  proof (cases "find (\<lambda>e. prefix e s) encs")
    case None
    then have "\<forall>e \<in> set encs. \<not> prefix e s" by (auto simp: find_None_iff)
    with None show ?thesis by (simp add: list_all_iff)
  next
    case (Some e)
    then have "e \<in> set encs" and "prefix e s"
      by (auto simp: find_Some_iff)
    with assms(1) Suc.prems have "length (drop (length e) s) \<le> n"
      by (cases e) auto
    then show ?thesis using Suc.IH Some by simp
  qed
qed

lemma go_trim_left_done: "e \<in> set go_spaces \<Longrightarrow> \<not> prefix e (go_trim_left s)"
  using strip_front_done[of go_spaces s "length s"] go_spaces_ne
  by (auto simp: go_trim_left_def list_all_iff)

end
