(* ===== verification/Go_Regexp.thy ===== *)
theory Go_Regexp
  imports Go_Strings
begin

text \<open>
  The part of package \<open>regexp\<close> the sources use: leftmost-first matching with submatches, as
  a backtracking matcher in continuation style.  A position is the byte before it (none at
  the start of the text) and the rest of the text, so that \<open>^\<close> and \<open>$\<close> can be assertions on
  positions.  The patterns of the sources use ASCII classes and their complements only; on
  those, matching bytes and matching UTF-8 sequences agree.
\<close>

type_synonym rx_pos = "char option \<times> string"

datatype rx =
    RxChar "char \<Rightarrow> bool"
  | RxAssert "rx_pos \<Rightarrow> bool"
  | RxEps
  | RxSeq rx rx
  | RxAlt rx rx
  | RxStar rx
  | RxGroup nat rx

text \<open>The submatches: group number to text, \<open>[]\<close> for a group that did not take part.\<close>

type_synonym rx_caps = "nat \<Rightarrow> string"

function rx_match :: "rx \<Rightarrow> rx_pos \<Rightarrow> rx_caps \<Rightarrow> (rx_pos \<Rightarrow> rx_caps \<Rightarrow> 'r option) \<Rightarrow> 'r option" where
  "rx_match (RxChar P) p c k =
     (case snd p of [] \<Rightarrow> None | x # r \<Rightarrow> if P x then k (Some x, r) c else None)"
| "rx_match (RxAssert A) p c k = (if A p then k p c else None)"
| "rx_match RxEps p c k = k p c"
| "rx_match (RxSeq a b) p c k = rx_match a p c (\<lambda>q c'. rx_match b q c' k)"
| "rx_match (RxAlt a b) p c k =
     (case rx_match a p c k of None \<Rightarrow> rx_match b p c k | Some r \<Rightarrow> Some r)"
| "rx_match (RxStar a) p c k =
     (case rx_match a p c (\<lambda>q c'. if length (snd q) < length (snd p)
                                  then rx_match (RxStar a) q c' k else None) of
        None \<Rightarrow> k p c | Some r \<Rightarrow> Some r)"
| "rx_match (RxGroup n a) p c k =
     rx_match a p c (\<lambda>q c'. k q (c'(n := take (length (snd p) - length (snd q)) (snd p))))"
  by pat_completeness auto
termination
  by (relation "measures [\<lambda>(r, p, c, k). size r, \<lambda>(r, p, c, k). length (snd p)]") auto

section \<open>Derived operators\<close>

definition rx_plus :: "rx \<Rightarrow> rx" where "rx_plus a = RxSeq a (RxStar a)"
definition rx_opt :: "rx \<Rightarrow> rx" where "rx_opt a = RxAlt a RxEps"

fun rx_seqs :: "rx list \<Rightarrow> rx" where
  "rx_seqs [] = RxEps"
| "rx_seqs [a] = a"
| "rx_seqs (a # b # as) = RxSeq a (rx_seqs (b # as))"

fun rx_upto :: "nat \<Rightarrow> rx \<Rightarrow> rx" where
  "rx_upto 0 a = RxEps"
| "rx_upto (Suc n) a = rx_opt (RxSeq a (rx_upto n a))"

definition rx_lit :: "string \<Rightarrow> rx" where
  "rx_lit s = rx_seqs (map (\<lambda>x. RxChar (\<lambda>y. y = x)) s)"

definition rx_begin :: rx where "rx_begin = RxAssert (\<lambda>(pv, s). pv = None)"
definition rx_end :: rx where "rx_end = RxAssert (\<lambda>(pv, s). s = [])"

text \<open>Under the flag \<open>m\<close>, \<open>^\<close> and \<open>$\<close> match at line boundaries too.\<close>

definition newline :: char where "newline = CHR 0x0A"

definition rx_begin_line :: rx where
  "rx_begin_line = RxAssert (\<lambda>(pv, s). pv = None \<or> pv = Some newline)"
definition rx_end_line :: rx where
  "rx_end_line = RxAssert (\<lambda>(pv, s). case s of [] \<Rightarrow> True | x # _ \<Rightarrow> x = newline)"

definition is_digit :: "char \<Rightarrow> bool" where
  "is_digit x \<longleftrightarrow> x \<in> set ''0123456789''"

definition is_rx_space :: "char \<Rightarrow> bool" where
  "is_rx_space x \<longleftrightarrow> x \<in> {CHR 0x09, CHR 0x0A, CHR 0x0C, CHR 0x0D, CHR 0x20}"

definition is_lower :: "char \<Rightarrow> bool" where
  "is_lower x \<longleftrightarrow> x \<in> set ''abcdefghijklmnopqrstuvwxyz''"

definition is_upper :: "char \<Rightarrow> bool" where
  "is_upper x \<longleftrightarrow> x \<in> set ''ABCDEFGHIJKLMNOPQRSTUVWXYZ''"

definition is_alnum :: "char \<Rightarrow> bool" where
  "is_alnum x \<longleftrightarrow> is_lower x \<or> is_upper x \<or> is_digit x"

definition go_lower_byte :: "char \<Rightarrow> char" where
  "go_lower_byte x = (if is_upper x then char_of (of_char x + 32 :: nat) else x)"

definition go_upper_byte :: "char \<Rightarrow> char" where
  "go_upper_byte x = (if is_lower x then char_of (of_char x - 32 :: nat) else x)"

text \<open>A literal under the flag \<open>i\<close>.\<close>

definition rx_lit_ci :: "string \<Rightarrow> rx" where
  "rx_lit_ci s = rx_seqs (map (\<lambda>x. RxChar (\<lambda>y. go_lower_byte y = go_lower_byte x)) s)"

text \<open>The entry points: a search tries every position from the left.\<close>

fun rx_search :: "rx \<Rightarrow> rx_pos \<Rightarrow> rx_caps option" where
  "rx_search r (pv, []) = rx_match r (pv, []) (\<lambda>_. []) (\<lambda>q c. Some c)"
| "rx_search r (pv, x # s) =
     (case rx_match r (pv, x # s) (\<lambda>_. []) (\<lambda>q c. Some c) of
        None \<Rightarrow> rx_search r (Some x, s) | Some c \<Rightarrow> Some c)"

definition find_submatch :: "rx \<Rightarrow> string \<Rightarrow> rx_caps option" where
  "find_submatch r s = rx_search r (None, s)"

definition match_string :: "rx \<Rightarrow> string \<Rightarrow> bool" where
  "match_string r s \<longleftrightarrow> find_submatch r s \<noteq> None"

section \<open>Evaluation and determinism\<close>

lemmas rx_star_unfold = rx_match.simps(6)

declare rx_match.simps(6) [simp del]

lemma rx_match_opt [simp]:
  "rx_match (rx_opt a) p c k = (case rx_match a p c k of None \<Rightarrow> k p c | Some r \<Rightarrow> Some r)"
  by (simp add: rx_opt_def split: option.split)

lemma rx_match_seqs [simp]:
  "rx_match (rx_seqs (a # as)) p c k = rx_match a p c (\<lambda>q c'. rx_match (rx_seqs as) q c' k)"
  by (cases as) simp_all

lemma rx_match_end [simp]: "rx_match rx_end p c k = (if snd p = [] then k p c else None)"
  by (cases p) (simp add: rx_end_def)

lemma rx_match_begin [simp]: "rx_match rx_begin p c k = (if fst p = None then k p c else None)"
  by (cases p) (simp add: rx_begin_def)

text \<open>An anchored pattern matches at the start or nowhere.\<close>

lemma rx_search_anchored_late:
  "rx_search (RxSeq rx_begin r) (Some x, s) = None"
  by (induction s arbitrary: x) simp_all

lemma find_submatch_anchored:
  "find_submatch (RxSeq rx_begin r) s = rx_match r (None, s) (\<lambda>_. []) (\<lambda>q c. Some c)"
  by (cases s) (simp_all add: find_submatch_def rx_search_anchored_late split: option.split)

text \<open>
  The greedy star of a byte class, when nothing that follows can start with a byte of the
  class: it takes the longest run, and no shorter one is worth trying.
\<close>

fun rx_adv :: "(char \<Rightarrow> bool) \<Rightarrow> rx_pos \<Rightarrow> rx_pos" where
  "rx_adv P (pv, []) = (pv, [])"
| "rx_adv P (pv, x # s) = (if P x then rx_adv P (Some x, s) else (pv, x # s))"

lemma snd_rx_adv [simp]: "snd (rx_adv P p) = dropWhile P (snd p)"
  by (induction P p rule: rx_adv.induct) auto

definition blocks :: "(rx_pos \<Rightarrow> rx_caps \<Rightarrow> 'r option) \<Rightarrow> (char \<Rightarrow> bool) \<Rightarrow> bool" where
  "blocks k P \<longleftrightarrow> (\<forall>pv x s c. P x \<longrightarrow> k (pv, x # s) c = None)"

lemma blocksD: "blocks k P \<Longrightarrow> P x \<Longrightarrow> k (pv, x # s) c = None"
  by (simp add: blocks_def)

lemma rx_match_star_class:
  assumes "blocks k P"
  shows "rx_match (RxStar (RxChar P)) p c k = k (rx_adv P p) c"
proof -
  have "rx_match (RxStar (RxChar P)) (pv, s) c k = k (rx_adv P (pv, s)) c" for pv s
  proof (induction s arbitrary: pv)
    case Nil
    then show ?case by (simp add: rx_star_unfold)
  next
    case (Cons x s)
    show ?case
    proof (cases "P x")
      case True
      then show ?thesis using Cons.IH blocksD[OF assms True]
        by (simp add: rx_star_unfold[of _ "(pv, x # s)"] split: option.split)
    next
      case False
      then show ?thesis by (simp add: rx_star_unfold)
    qed
  qed
  then show ?thesis by (cases p) simp
qed

lemma rx_match_plus_class:
  assumes "blocks k P"
  shows "rx_match (rx_plus (RxChar P)) p c k =
    (case snd p of [] \<Rightarrow> None | x # s \<Rightarrow> if P x then k (rx_adv P p) c else None)"
  by (cases p; cases "snd p") (auto simp: rx_plus_def rx_match_star_class[OF assms])

text \<open>The text consumed between a position and a later one.\<close>

lemma take_diff_dropWhile:
  "take (length s - length (dropWhile P s)) s = takeWhile P s"
  by (metis add_diff_cancel_right' append_eq_conv_conj length_append takeWhile_dropWhile_id)

section \<open>More shapes\<close>

text \<open>When everything after the star accepts, the star takes the longest run.\<close>

lemma rx_match_star_accept:
  assumes "\<And>q c. k q c \<noteq> None"
  shows "rx_match (RxStar (RxChar P)) p c k = k (rx_adv P p) c"
proof -
  have "rx_match (RxStar (RxChar P)) (pv, s) c k = k (rx_adv P (pv, s)) c" for pv s
  proof (induction s arbitrary: pv)
    case Nil
    then show ?case by (simp add: rx_star_unfold)
  next
    case (Cons x s)
    show ?case
    proof (cases "P x")
      case True
      obtain r where "k (rx_adv P (Some x, s)) c = Some r" using assms by blast
      with True show ?thesis using Cons.IH by (simp add: rx_star_unfold[of _ "(pv, x # s)"])
    next
      case False
      then show ?thesis by (simp add: rx_star_unfold)
    qed
  qed
  then show ?thesis by (cases p) simp
qed

lemma rx_match_plus_accept:
  assumes "\<And>q c. k q c \<noteq> None"
  shows "rx_match (rx_plus (RxChar P)) p c k =
    (case snd p of [] \<Rightarrow> None | x # s \<Rightarrow> if P x then k (rx_adv P p) c else None)"
  by (cases p; cases "snd p") (auto simp: rx_plus_def rx_match_star_accept[OF assms])

text \<open>Literals.\<close>

fun ci_prefix :: "string \<Rightarrow> string \<Rightarrow> bool" where
  "ci_prefix [] t = True"
| "ci_prefix (x # xs) [] = False"
| "ci_prefix (x # xs) (y # ys) \<longleftrightarrow> go_lower_byte y = go_lower_byte x \<and> ci_prefix xs ys"

fun rx_skip :: "nat \<Rightarrow> rx_pos \<Rightarrow> rx_pos" where
  "rx_skip (Suc n) (pv, x # s) = rx_skip n (Some x, s)"
| "rx_skip _ p = p"

lemma snd_rx_skip [simp]: "snd (rx_skip n p) = drop n (snd p)"
  by (induction n p rule: rx_skip.induct) (auto split: nat.split simp: drop_Cons')

lemma rx_match_lit_ci:
  "rx_match (rx_lit_ci s) p c k =
     (if ci_prefix s (snd p) then k (rx_skip (length s) p) c else None)"
proof -
  have "rx_match (rx_lit_ci s) (pv, t) c k =
     (if ci_prefix s t then k (rx_skip (length s) (pv, t)) c else None)" for pv t
    by (induction s t arbitrary: pv rule: ci_prefix.induct) (auto simp: rx_lit_ci_def)
  then show ?thesis by (cases p) simp
qed

lemma ci_prefix_iff:
  "ci_prefix s t \<longleftrightarrow> (\<exists>a b. t = a @ b \<and> map go_lower_byte a = map go_lower_byte s)"
proof
  assume "ci_prefix s t"
  then show "\<exists>a b. t = a @ b \<and> map go_lower_byte a = map go_lower_byte s"
  proof (induction s t rule: ci_prefix.induct)
    case (3 x xs y ys)
    then obtain a b where "ys = a @ b" "map go_lower_byte a = map go_lower_byte xs" by auto
    then show ?case using 3(2) by (intro exI[of _ "y # a"] exI[of _ b]) simp
  qed auto
next
  assume "\<exists>a b. t = a @ b \<and> map go_lower_byte a = map go_lower_byte s"
  then obtain a b where "t = a @ b" "map go_lower_byte a = map go_lower_byte s" by blast
  then show "ci_prefix s t"
    by (induction s t arbitrary: a rule: ci_prefix.induct) (auto simp: Cons_eq_append_conv)
qed

end
