(* ===== verification/Go_Numbers.thy ===== *)
theory Go_Numbers
  imports Go_Strings
begin

text \<open>
  Decimal text of integers: \<open>fmt.Sprintf("%d")\<close>, \<open>strconv.Itoa\<close> and \<open>strconv.Atoi\<close>.  Go's
  \<open>int\<close> has 64 bits; \<open>Atoi\<close> returns its error together with a value, 0 on a syntax error
  and the nearest bound when out of range, and some callers drop the error.
\<close>

definition digit_char :: "nat \<Rightarrow> char" where
  "digit_char d = char_of (48 + d)"

definition digit_val :: "char \<Rightarrow> nat option" where
  "digit_val x = (let n = of_char x :: nat in if 48 \<le> n \<and> n \<le> 57 then Some (n - 48) else None)"

fun go_itoa :: "nat \<Rightarrow> string" where
  "go_itoa n = (if n < 10 then [digit_char n] else go_itoa (n div 10) @ [digit_char (n mod 10)])"

declare go_itoa.simps [simp del]

fun digits_val :: "nat \<Rightarrow> string \<Rightarrow> nat option" where
  "digits_val acc [] = Some acc"
| "digits_val acc (x # xs) =
     (case digit_val x of None \<Rightarrow> None | Some d \<Rightarrow> digits_val (10 * acc + d) xs)"

definition max_int :: int where "max_int = 2 ^ 63 - 1"
definition min_int :: int where "min_int = - (2 ^ 63)"

text \<open>\<open>strconv.Atoi\<close>: the value, and whether the error is nil.\<close>

definition go_atoi :: "string \<Rightarrow> int \<times> bool" where
  "go_atoi s =
     (let neg = (case s of x # _ \<Rightarrow> x = CHR ''-'' | [] \<Rightarrow> False);
          body = (case s of x # r \<Rightarrow> if x = CHR ''-'' \<or> x = CHR ''+'' then r else s | [] \<Rightarrow> s) in
      if body = [] then (0, False)
      else case digits_val 0 body of
        None \<Rightarrow> (0, False)
      | Some n \<Rightarrow>
          if neg then (if - int n < min_int then (min_int, False) else (- int n, True))
          else (if int n > max_int then (max_int, False) else (int n, True)))"

lemma digit_val_char [simp]: "d < 10 \<Longrightarrow> digit_val (digit_char d) = Some d"
  by (simp add: digit_val_def digit_char_def)

lemma digits_val_append:
  "digits_val acc (xs @ ys) =
     (case digits_val acc xs of None \<Rightarrow> None | Some n \<Rightarrow> digits_val n ys)"
  by (induction xs arbitrary: acc) (auto split: option.split)

lemma go_itoa_ne [simp]: "go_itoa n \<noteq> []"
  by (subst go_itoa.simps) simp

lemma digits_val_itoa: "digits_val 0 (go_itoa n) = Some n"
proof (induction n rule: go_itoa.induct)
  case (1 n)
  show ?case
  proof (cases "n < 10")
    case True
    then show ?thesis by (subst go_itoa.simps) simp
  next
    case False
    with 1 have "digits_val 0 (go_itoa (n div 10)) = Some (n div 10)" by simp
    with False show ?thesis by (subst go_itoa.simps) (simp add: digits_val_append)
  qed
qed

lemma go_itoa_inj: "go_itoa m = go_itoa n \<longleftrightarrow> m = n"
  by (metis digits_val_itoa option.inject)

lemma digit_chars: "map digit_char [0..<10] = ''0123456789''"
  by code_simp

lemma digit_char_range: "d < 10 \<Longrightarrow> digit_char d \<in> set ''0123456789''"
  by (simp flip: digit_chars)

lemma set_go_itoa: "set (go_itoa n) \<subseteq> set ''0123456789''"
proof (induction n rule: go_itoa.induct)
  case (1 n)
  show ?case
  proof (cases "n < 10")
    case True
    then show ?thesis using digit_char_range[of n] by (subst go_itoa.simps) simp
  next
    case False
    with 1 digit_char_range[of "n mod 10"] show ?thesis
      by (subst go_itoa.simps) auto
  qed
qed

text \<open>Text that \<open>Itoa\<close> wrote is read back by \<open>Atoi\<close>, up to the width of \<open>int\<close>.\<close>

lemma go_atoi_itoa: "int n \<le> max_int \<Longrightarrow> go_atoi (go_itoa n) = (int n, True)"
proof -
  assume n: "int n \<le> max_int"
  obtain x r where xr: "go_itoa n = x # r" by (cases "go_itoa n") auto
  then have "x \<in> set ''0123456789''" using set_go_itoa[of n] by auto
  then have x: "x \<noteq> CHR ''-''" "x \<noteq> CHR ''+''" by auto
  have "digits_val 0 (x # r) = Some n" using digits_val_itoa[of n] xr by simp
  then show ?thesis using n x by (simp add: go_atoi_def xr del: digits_val.simps)
qed

lemma go_atoi_range: "min_int \<le> fst (go_atoi s) \<and> fst (go_atoi s) \<le> max_int"
  by (auto simp: go_atoi_def Let_def min_int_def max_int_def split: option.split list.split)

end
