(* ===== verification/Version_Order.thy ===== *)
theory Version_Order
  imports Go_Prelude
begin

text \<open>
  The interface between an order on versions and the code that picks, sorts and groups
  versions by it: a three-way comparison with the laws of a total preorder.  Tags of an image
  (\<open>semantic_tags\<close>) provide it, alias resolution and tag ranges use it.
\<close>

section \<open>The interface\<close>

locale version_order =
  fixes cmp :: "'v \<Rightarrow> 'v \<Rightarrow> int"
  assumes cmp_flip: "cmp b a = - cmp a b"
    and cmp_trans: "cmp a b \<le> 0 \<Longrightarrow> cmp b c \<le> 0 \<Longrightarrow> cmp a c \<le> 0"

text \<open>Picking the first of the highest elements, as the scans for the latest tag do.\<close>

fun highest_from :: "('v \<Rightarrow> 'v \<Rightarrow> int) \<Rightarrow> ('v \<times> 'a) option \<Rightarrow> ('v \<times> 'a) list \<Rightarrow> ('v \<times> 'a) option" where
  "highest_from cmp best [] = best"
| "highest_from cmp best ((v, x) # rest) =
     highest_from cmp
       (case best of None \<Rightarrow> Some (v, x) | Some (w, y) \<Rightarrow> if cmp v w > 0 then Some (v, x) else best)
       rest"

lemma highest_from_mem:
  "highest_from cmp best xs = Some p \<Longrightarrow> p \<in> set xs \<or> best = Some p"
  by (induction cmp best xs rule: highest_from.induct)
    (auto split: option.splits if_splits prod.splits)

lemma highest_from_None_iff: "highest_from cmp best xs = None \<longleftrightarrow> best = None \<and> xs = []"
  by (induction cmp best xs rule: highest_from.induct) (auto split: option.splits)

context version_order
begin

lemma cmp_refl [simp]: "cmp a a = 0"
  using cmp_flip[of a a] by simp

lemma cmp_neg_iff: "cmp a b < 0 \<longleftrightarrow> cmp b a > 0"
  using cmp_flip[of a b] by auto

lemma cmp_eq_sym: "cmp a b = 0 \<longleftrightarrow> cmp b a = 0"
  using cmp_flip[of a b] by auto

lemma cmp_le_iff: "cmp a b \<le> 0 \<longleftrightarrow> cmp b a \<ge> 0"
  using cmp_flip[of a b] by auto

lemma cmp_eq_trans: "cmp a b = 0 \<Longrightarrow> cmp b c = 0 \<Longrightarrow> cmp a c = 0"
proof -
  assume "cmp a b = 0" and "cmp b c = 0"
  moreover from this have "cmp b a = 0" and "cmp c b = 0" by (simp_all add: cmp_eq_sym)
  ultimately have "cmp a c \<le> 0" and "cmp c a \<le> 0"
    using cmp_trans[of a b c] cmp_trans[of c b a] by simp_all
  then show ?thesis using cmp_flip[of a c] by simp
qed

lemma cmp_lt_le_trans: "cmp a b < 0 \<Longrightarrow> cmp b c \<le> 0 \<Longrightarrow> cmp a c < 0"
proof (rule ccontr)
  assume ab: "cmp a b < 0" and bc: "cmp b c \<le> 0" and "\<not> cmp a c < 0"
  then have "cmp c a \<le> 0" by (simp add: cmp_le_iff)
  with bc have "cmp b a \<le> 0" by (rule cmp_trans)
  with ab show False using cmp_neg_iff by fastforce
qed

text \<open>The element picked is at least as high as all others, and strictly higher than those before it.\<close>

lemma highest_from_max:
  assumes "highest_from cmp best xs = Some (v, x)"
    and "(w, y) \<in> set xs \<or> best = Some (w, y)"
  shows "cmp w v \<le> 0"
  using assms
proof (induction xs arbitrary: best w y)
  case Nil
  then show ?case by auto
next
  case (Cons uz rest)
  obtain u z where uz: "uz = (u, z)" by fastforce
  define best' where "best' = (case best of None \<Rightarrow> Some (u, z)
    | Some (w, y) \<Rightarrow> if cmp u w > 0 then Some (u, z) else best)"
  have res: "highest_from cmp best' rest = Some (v, x)"
    using Cons.prems(1) by (simp add: uz best'_def)
  have "cmp w w' \<le> 0 \<and> best' = Some (w', y') \<Longrightarrow> cmp w v \<le> 0" for w' y'
    using Cons.IH[OF res, of w' y'] cmp_trans by blast
  moreover have "\<exists>w' y'. cmp w w' \<le> 0 \<and> best' = Some (w', y')" if "(w, y) \<notin> set rest"
  proof (cases best)
    case None
    then show ?thesis using that Cons.prems(2) by (simp add: uz best'_def)
  next
    case (Some p)
    obtain a d where p: "p = (a, d)" by fastforce
    show ?thesis
    proof (cases "cmp u a > 0")
      case True
      then have "cmp a u \<le> 0" using cmp_neg_iff[of a u] by simp
      then show ?thesis using that Cons.prems(2) True by (auto simp: uz best'_def Some p)
    next
      case False
      then show ?thesis using that Cons.prems(2) by (auto simp: uz best'_def Some p)
    qed
  qed
  ultimately show ?case using Cons.IH[OF res, of w y] by blast
qed

text \<open>Ties go to the earlier element: what precedes the winner is strictly lower.\<close>

lemma highest_from_first:
  assumes "highest_from cmp best xs = Some (v, x)" and "best = Some (v0, x0)" and "cmp v v0 = 0"
  shows "highest_from cmp best xs = best"
  using assms
proof (induction xs arbitrary: best v0 x0)
  case Nil
  then show ?case by simp
next
  case (Cons uz rest)
  obtain u z where uz: "uz = (u, z)" by fastforce
  have "cmp u v \<le> 0" by (rule highest_from_max[OF Cons.prems(1), of u z]) (simp add: uz)
  then have "\<not> cmp u v0 > 0"
    using cmp_trans[of u v v0] Cons.prems(3) by auto
  then show ?case using Cons.prems Cons.IH[of best v0 x0] by (simp add: uz)
qed

end

section \<open>Building orders from orders\<close>

definition cmp_of :: "'a::linorder \<Rightarrow> 'a \<Rightarrow> int" where
  "cmp_of a b = (if a < b then -1 else if a > b then 1 else 0)"

definition cmp_lex :: "('v \<Rightarrow> 'v \<Rightarrow> int) \<Rightarrow> ('v \<Rightarrow> 'v \<Rightarrow> int) \<Rightarrow> 'v \<Rightarrow> 'v \<Rightarrow> int" where
  "cmp_lex c d a b = (let r = c a b in if r \<noteq> 0 then r else d a b)"

lemma version_order_cmp_of: "version_order (\<lambda>a b. cmp_of (f a) (f b))"
  by unfold_locales (auto simp: cmp_of_def split: if_splits)

lemma version_order_lex:
  assumes "version_order c" and "version_order d"
  shows "version_order (cmp_lex c d)"
proof
  fix a b e
  show "cmp_lex c d b a = - cmp_lex c d a b"
    using version_order.cmp_flip[OF assms(1), of b a] version_order.cmp_flip[OF assms(2), of b a]
    by (auto simp: cmp_lex_def Let_def)
  assume ab: "cmp_lex c d a b \<le> 0" and be: "cmp_lex c d b e \<le> 0"
  from ab be have c: "c a b \<le> 0" "c b e \<le> 0"
    by (auto simp: cmp_lex_def Let_def split: if_splits)
  show "cmp_lex c d a e \<le> 0"
  proof (cases "c a e = 0")
    case True
    then have "c e a = 0" using version_order.cmp_eq_sym[OF assms(1)] by blast
    then have "c a b = 0 \<and> c b e = 0"
      using c version_order.cmp_trans[OF assms(1), of b e a] version_order.cmp_trans[OF assms(1), of e a b]
        version_order.cmp_flip[OF assms(1), of a b] version_order.cmp_flip[OF assms(1), of b e] by simp
    with ab be True show ?thesis
      using version_order.cmp_trans[OF assms(2), of a b e] by (simp add: cmp_lex_def)
  next
    case False
    then show ?thesis using version_order.cmp_trans[OF assms(1) c] by (simp add: cmp_lex_def)
  qed
qed

end
