(* ===== verification/Semantic_Tags.thy ===== *)
theory Semantic_Tags
  imports Go_Regexp Go_Numbers Version_Order
begin

text \<open>
  \<open>internal/semantic_tags/main.go\<close>: parsing a tag as a version with prefix, suffix and build
  metadata, its coarser variants, its order and its text.  The pattern is the source's
  regular expression; a scanner that never backtracks is proved equal to it and carries the
  other proofs.
\<close>

section \<open>The model\<close>

record SemanticTagVersion =
  Prefix :: string
  Major :: string
  Minor :: string
  Patch :: string
  Build :: string
  Suffix :: string

datatype version_error = EmptyTag | InvalidVersion string | MissingMajor string

definition dot_number :: "nat \<Rightarrow> rx" where
  "dot_number n = rx_opt (RxSeq (RxChar (\<lambda>x. x = CHR ''.'')) (RxGroup n (rx_plus (RxChar is_digit))))"

definition is_suffix_char :: "char \<Rightarrow> bool" where
  "is_suffix_char x \<longleftrightarrow> is_alnum x \<or> x = CHR ''.'' \<or> x = CHR ''-''"

definition versionPattern :: rx where
  "versionPattern = RxSeq rx_begin (rx_seqs
     [RxGroup 1 (RxStar (RxChar (\<lambda>x. \<not> is_digit x))),
      RxGroup 2 (rx_plus (RxChar is_digit)),
      dot_number 3, dot_number 4, dot_number 5,
      rx_opt (RxSeq (RxChar (\<lambda>x. x = CHR ''-''))
                (RxGroup 6 (RxSeq (RxChar is_alnum) (RxStar (RxChar is_suffix_char))))),
      rx_opt (RxSeq (RxChar (\<lambda>x. x = CHR ''+'')) (RxGroup 7 (rx_plus (RxChar (\<lambda>x. \<not> is_rx_space x))))),
      rx_end])"

definition NewSemanticVersion :: "string \<Rightarrow> version_error + SemanticTagVersion" where
  "NewSemanticVersion tag0 =
     (let tag = go_trim_space tag0 in
      if tag = [] then Inl EmptyTag
      else case find_submatch versionPattern tag of
        None \<Rightarrow> Inl (InvalidVersion tag)
      | Some matches \<Rightarrow>
          (let prefix' = matches 1; major = matches 2; minor = matches 3; patch = matches 4;
               build = matches 5; suffix' = matches 6; metadata = matches 7 in
           if major = [] then Inl (MissingMajor tag)
           else
             let finalBuild = (if metadata = [] then build else metadata) in
             Inr \<lparr>Prefix = prefix', Major = major, Minor = minor, Patch = patch,
                  Build = finalBuild, Suffix = suffix'\<rparr>))"

definition GetLowerVariants :: "SemanticTagVersion \<Rightarrow> string list" where
  "GetLowerVariants v =
     (let sfx = (if Suffix v \<noteq> [] then ''-'' @ Suffix v else []);
          buildVariant = (\<lambda>parts. Prefix v @ go_join ''.'' parts @ sfx) in
      if Build v \<noteq> [] then
        [buildVariant [Major v, Minor v, Patch v], buildVariant [Major v, Minor v],
         buildVariant [Major v]]
      else if Patch v \<noteq> [] then
        [buildVariant [Major v, Minor v], buildVariant [Major v]]
      else if Minor v \<noteq> [] then [buildVariant [Major v]]
      else [])"

definition compareNumeric :: "string \<Rightarrow> string \<Rightarrow> int" where
  "compareNumeric a b =
     (if a = [] \<and> b \<noteq> [] then -1
      else if a \<noteq> [] \<and> b = [] then 1
      else if a \<noteq> [] \<and> b \<noteq> [] then
        (let num1 = fst (go_atoi a); num2 = fst (go_atoi b) in
         if num1 < num2 then -1 else if num1 > num2 then 1 else 0)
      else 0)"

definition Compare :: "SemanticTagVersion \<Rightarrow> SemanticTagVersion \<Rightarrow> int" where
  "Compare v other =
     (let r1 = compareNumeric (Major v) (Major other) in if r1 \<noteq> 0 then r1 else
      let r2 = compareNumeric (Minor v) (Minor other) in if r2 \<noteq> 0 then r2 else
      let r3 = compareNumeric (Patch v) (Patch other) in if r3 \<noteq> 0 then r3 else
      if Build v = [] \<and> Build other \<noteq> [] then -1
      else if Build v \<noteq> [] \<and> Build other = [] then 1
      else if Build v < Build other then -1
      else if Build v > Build other then 1
      else 0)"

definition Less :: "SemanticTagVersion \<Rightarrow> SemanticTagVersion \<Rightarrow> bool" where
  "Less v other \<longleftrightarrow> Compare v other < 0"

definition Greater :: "SemanticTagVersion \<Rightarrow> SemanticTagVersion \<Rightarrow> bool" where
  "Greater v other \<longleftrightarrow> Compare v other > 0"

definition Equal :: "SemanticTagVersion \<Rightarrow> SemanticTagVersion \<Rightarrow> bool" where
  "Equal v other \<longleftrightarrow> Compare v other = 0"

definition version_String :: "SemanticTagVersion \<Rightarrow> string" where
  "version_String v =
     Prefix v @ Major v
     @ (if Minor v \<noteq> [] then ''.'' @ Minor v else [])
     @ (if Patch v \<noteq> [] then ''.'' @ Patch v else [])
     @ (if Build v \<noteq> [] then ''.'' @ Build v else [])
     @ (if Suffix v \<noteq> [] then ''-'' @ Suffix v else [])"

section \<open>The scanner and its equality with the pattern\<close>

type_synonym scan = "string \<Rightarrow> rx_caps \<Rightarrow> rx_caps option"

definition scan_meta :: scan where
  "scan_meta s c = (case s of [] \<Rightarrow> Some c
     | x # r \<Rightarrow> if x = CHR ''+'' \<and> r \<noteq> [] \<and> list_all (\<lambda>x. \<not> is_rx_space x) r
               then Some (c(7 := r)) else None)"

definition scan_suffix :: scan where
  "scan_suffix s c = (case s of x # y # r \<Rightarrow>
       if x = CHR ''-'' \<and> is_alnum y
       then scan_meta (dropWhile is_suffix_char r) (c(6 := y # takeWhile is_suffix_char r))
       else scan_meta s c
     | _ \<Rightarrow> scan_meta s c)"

definition scan_dot :: "nat \<Rightarrow> scan \<Rightarrow> scan" where
  "scan_dot n k s c = (case s of x # y # r \<Rightarrow>
       if x = CHR ''.'' \<and> is_digit y
       then k (dropWhile is_digit r) (c(n := y # takeWhile is_digit r))
       else k s c
     | _ \<Rightarrow> k s c)"

definition scan_tail :: scan where
  "scan_tail = scan_dot 3 (scan_dot 4 (scan_dot 5 scan_suffix))"

definition scan_version :: "string \<Rightarrow> rx_caps option" where
  "scan_version s =
     (let r = dropWhile (\<lambda>x. \<not> is_digit x) s in
      if r = [] then None
      else scan_tail (dropWhile is_digit r)
             ((\<lambda>_. [])(1 := takeWhile (\<lambda>x. \<not> is_digit x) s, 2 := takeWhile is_digit r)))"

definition scan_of :: "(rx_pos \<Rightarrow> rx_caps \<Rightarrow> rx_caps option) \<Rightarrow> scan \<Rightarrow> bool" where
  "scan_of k f \<longleftrightarrow> (\<forall>p c. k p c = f (snd p) c)"

definition stops :: "scan \<Rightarrow> (char \<Rightarrow> bool) \<Rightarrow> bool" where
  "stops f P \<longleftrightarrow> (\<forall>x s c. P x \<longrightarrow> f (x # s) c = None)"

lemma scan_ofD: "scan_of k f \<Longrightarrow> k = (\<lambda>p c. f (snd p) c)"
  by (intro ext) (simp add: scan_of_def del: split_paired_All)

lemma blocks_scan: "stops f P \<Longrightarrow> blocks (\<lambda>q c'. f (snd q) (g q c')) P"
  by (auto simp: blocks_def stops_def)

lemma match_group_plus:
  assumes "scan_of k f" and "stops f P"
  shows "rx_match (RxGroup n (rx_plus (RxChar P))) p c k =
    (case snd p of [] \<Rightarrow> None
     | x # r \<Rightarrow> if P x then f (dropWhile P r) (c(n := x # takeWhile P r)) else None)"
  using take_diff_dropWhile[of "snd p" P]
  by (auto simp: scan_ofD[OF assms(1)] rx_match_plus_class[OF blocks_scan[OF assms(2)]]
      split: list.split)

lemma match_group_star:
  assumes "scan_of k f" and "stops f P"
  shows "rx_match (RxGroup n (RxStar (RxChar P))) p c k =
    f (dropWhile P (snd p)) (c(n := takeWhile P (snd p)))"
  by (simp add: scan_ofD[OF assms(1)] rx_match_star_class[OF blocks_scan[OF assms(2)]]
      take_diff_dropWhile)

lemma scan_end: "scan_of (\<lambda>q c. rx_match rx_end q c (\<lambda>q c. Some c))
    (\<lambda>s c. if s = [] then Some c else None)"
  by (simp add: scan_of_def)

lemma scan_of_meta:
  "scan_of (\<lambda>p c. rx_match
      (rx_opt (RxSeq (RxChar (\<lambda>x. x = CHR ''+'')) (RxGroup 7 (rx_plus (RxChar (\<lambda>x. \<not> is_rx_space x))))))
      p c (\<lambda>q c. rx_match rx_end q c (\<lambda>q c. Some c))) scan_meta"
proof -
  have "stops (\<lambda>s c. if s = [] then Some c else None) P" for P by (simp add: stops_def)
  from match_group_plus[OF scan_end this] show ?thesis
    unfolding scan_of_def
    by (auto simp del: rx_match.simps(7) rx_match_end
        simp: scan_meta_def list_all_iff rx_match_end[of "(_, _)"]
        split: list.split option.split)
qed

lemma take_diff_Cons:
  "take (Suc (length r) - length (dropWhile P r)) (y # r) = y # takeWhile P r"
  using take_diff_dropWhile[of r P] length_dropWhile_le[of P r] by (simp add: Suc_diff_le)

lemma not_suffix_char: "\<not> is_suffix_char CHR ''+''"
  by (simp add: is_suffix_char_def is_alnum_def is_lower_def is_upper_def is_digit_def)

lemma not_digit_marks: "\<not> is_digit CHR ''.''" "\<not> is_digit CHR ''-''" "\<not> is_digit CHR ''+''"
  by (simp_all add: is_digit_def)

lemma stops_scan_meta: "stops scan_meta is_suffix_char" "stops scan_meta is_digit"
  using not_suffix_char not_digit_marks by (auto simp: stops_def scan_meta_def)

lemma scan_of_suffix:
  assumes "scan_of k scan_meta"
  shows "scan_of (\<lambda>p c. rx_match
    (rx_opt (RxSeq (RxChar (\<lambda>x. x = CHR ''-''))
       (RxGroup 6 (RxSeq (RxChar is_alnum) (RxStar (RxChar is_suffix_char)))))) p c k) scan_suffix"
proof -
  have grp: "rx_match (RxGroup 6 (RxSeq (RxChar is_alnum) (RxStar (RxChar is_suffix_char)))) p c
      (\<lambda>p c. scan_meta (snd p) c)
    = (case snd p of [] \<Rightarrow> None
       | y # r \<Rightarrow> if is_alnum y
           then scan_meta (dropWhile is_suffix_char r) (c(6 := y # takeWhile is_suffix_char r))
           else None)" for p c
    by (auto simp: rx_match_star_class[OF blocks_scan[OF stops_scan_meta(1)]] take_diff_Cons
        split: list.split)
  have minus: "scan_meta (CHR ''-'' # r) c = None" for r c
    by (simp add: scan_meta_def)
  show ?thesis
    unfolding scan_of_def scan_ofD[OF assms]
    by (auto simp: scan_suffix_def grp minus simp del: rx_match.simps(7)
        split: list.split option.split)
qed

text \<open>
  Whether a scan fails does not depend on the submatches found so far, and an optional
  dotted number that leads nowhere is not worth skipping.
\<close>

definition capless :: "scan \<Rightarrow> bool" where
  "capless f \<longleftrightarrow> (\<forall>s c c'. f s c = None \<longrightarrow> f s c' = None)"

definition no_retry :: "scan \<Rightarrow> bool" where
  "no_retry f \<longleftrightarrow> (\<forall>y r c c'. is_digit y \<longrightarrow>
     f (dropWhile is_digit r) c' = None \<longrightarrow> f (CHR ''.'' # y # r) c = None)"

lemma scan_dot_cases:
  obtains (dot) y r where "s = CHR ''.'' # y # r" and "is_digit y"
      and "\<And>c. scan_dot n f s c = f (dropWhile is_digit r) (c(n := y # takeWhile is_digit r))"
    | (skip) "\<And>c. scan_dot n f s c = f s c"
proof (cases "\<exists>y r. s = CHR ''.'' # y # r \<and> is_digit y")
  case True
  then show ?thesis using dot by (auto simp: scan_dot_def)
next
  case False
  then have "scan_dot n f s c = f s c" for c
    by (auto simp: scan_dot_def split: list.split)
  then show ?thesis by (rule skip)
qed

lemma caplessD: "capless f \<Longrightarrow> f s c = None \<Longrightarrow> f s c' = None"
  by (auto simp: capless_def)

lemma capless_scan: "capless scan_meta" "capless scan_suffix" "capless f \<Longrightarrow> capless (scan_dot n f)"
proof -
  show "capless scan_meta" "capless scan_suffix"
    by (auto simp: capless_def scan_meta_def scan_suffix_def split: list.split if_splits)
  assume f: "capless f"
  show "capless (scan_dot n f)"
    unfolding capless_def
  proof (intro allI impI)
    fix s c c'
    assume "scan_dot n f s c = None"
    then show "scan_dot n f s c' = None"
      by (cases rule: scan_dot_cases[of s n f]) (auto intro: caplessD[OF f])
  qed
qed

lemma stops_scan: "stops scan_suffix is_digit" "stops f is_digit \<Longrightarrow> stops (scan_dot n f) is_digit"
  using stops_scan_meta(2) not_digit_marks
  by (auto simp: stops_def scan_suffix_def scan_dot_def split: list.split)

lemma no_retry_suffix: "no_retry scan_suffix"
  by (simp add: no_retry_def scan_suffix_def scan_meta_def)

lemma no_retry_dot:
  assumes "no_retry f" and "capless f"
  shows "no_retry (scan_dot n f)"
proof -
  have "f s c'' = None" if "scan_dot n f s c' = None" for s c' c''
  proof (cases rule: scan_dot_cases[of s n f])
    case (dot y r)
    with that assms(1) show ?thesis by (auto simp: no_retry_def)
  next
    case skip
    with that show ?thesis by (auto intro: caplessD[OF assms(2)])
  qed
  then show ?thesis by (auto simp: no_retry_def scan_dot_def intro: caplessD[OF assms(2)])
qed

lemma scan_of_dot:
  assumes "scan_of k f" and "stops f is_digit" and "no_retry f"
  shows "scan_of (\<lambda>p c. rx_match (dot_number n) p c k) (scan_dot n f)"
  using assms(3) unfolding scan_of_def scan_ofD[OF assms(1)]
  by (auto simp: dot_number_def match_group_plus[OF assms(1,2), unfolded scan_ofD[OF assms(1)]]
      scan_dot_def no_retry_def simp del: rx_match.simps(7) split: list.split option.split)

lemma scan_of_tail:
  assumes "scan_of k scan_suffix"
  shows "scan_of (\<lambda>p c. rx_match (dot_number 3) p c (\<lambda>p c. rx_match (dot_number 4) p c
           (\<lambda>p c. rx_match (dot_number 5) p c k))) scan_tail"
  unfolding scan_tail_def
  by (intro scan_of_dot assms stops_scan no_retry_dot no_retry_suffix capless_scan)

text \<open>The pattern and the scanner agree on every tag.\<close>

lemma find_versionPattern: "find_submatch versionPattern s = scan_version s"
proof -
  note tail = scan_of_tail[OF scan_of_suffix[OF scan_of_meta]]
  have st: "stops scan_tail is_digit"
    unfolding scan_tail_def by (intro stops_scan)
  define major where "major = (\<lambda>s c. case s of [] \<Rightarrow> None
     | x # r \<Rightarrow> if is_digit x then scan_tail (dropWhile is_digit r) (c(2 := x # takeWhile is_digit r))
               else None)"
  note plus = match_group_plus[OF tail st, where n = 2]
  have maj: "scan_of (\<lambda>p c. rx_match (RxGroup 2 (rx_plus (RxChar is_digit))) p c
      (\<lambda>p c. rx_match (dot_number 3) p c (\<lambda>p c. rx_match (dot_number 4) p c
        (\<lambda>p c. rx_match (dot_number 5) p c (\<lambda>p c. rx_match
          (rx_opt (RxSeq (RxChar (\<lambda>x. x = CHR ''-''))
            (RxGroup 6 (RxSeq (RxChar is_alnum) (RxStar (RxChar is_suffix_char)))))) p c
          (\<lambda>p c. rx_match
            (rx_opt (RxSeq (RxChar (\<lambda>x. x = CHR ''+''))
               (RxGroup 7 (rx_plus (RxChar (\<lambda>x. \<not> is_rx_space x))))))
            p c (\<lambda>q c. rx_match rx_end q c (\<lambda>q c. Some c)))))))) major"
    unfolding scan_of_def major_def by (intro allI) (rule plus)
  have "stops major (\<lambda>x. \<not> is_digit x)" by (simp add: stops_def major_def)
  from match_group_star[OF maj this, where n = 1 and p = "(None, s)" and c = "\<lambda>_. []"]
  have "find_submatch versionPattern s = major (dropWhile (\<lambda>x. \<not> is_digit x) s)
      ((\<lambda>_. [])(1 := takeWhile (\<lambda>x. \<not> is_digit x) s))"
    unfolding versionPattern_def find_submatch_anchored rx_seqs.simps rx_match.simps(4) snd_conv .
  also have "\<dots> = scan_version s"
  proof (cases "dropWhile (\<lambda>x. \<not> is_digit x) s")
    case Nil
    then show ?thesis by (simp add: scan_version_def major_def del: dropWhile_eq_Nil_conv)
  next
    case (Cons x r)
    then have "is_digit x" by (simp add: dropWhile_eq_Cons_conv)
    with Cons show ?thesis by (simp add: scan_version_def major_def del: dropWhile_eq_Nil_conv)
  qed
  finally show ?thesis .
qed

section \<open>Printing and parsing\<close>

text \<open>What the scanner took apart, put together again.\<close>

definition put_meta :: "rx_caps \<Rightarrow> string" where
  "put_meta c = (if c 7 \<noteq> [] then ''+'' @ c 7 else [])"

definition put_suffix :: "rx_caps \<Rightarrow> string" where
  "put_suffix c = (if c 6 \<noteq> [] then ''-'' @ c 6 else []) @ put_meta c"

definition put_dot :: "nat \<Rightarrow> (rx_caps \<Rightarrow> string) \<Rightarrow> rx_caps \<Rightarrow> string" where
  "put_dot n k c = (if c n \<noteq> [] then ''.'' @ c n else []) @ k c"

definition takes_apart :: "scan \<Rightarrow> (rx_caps \<Rightarrow> string) \<Rightarrow> nat \<Rightarrow> bool" where
  "takes_apart f k n \<longleftrightarrow> (\<forall>s c c'. f s c = Some c' \<longrightarrow> (\<forall>i\<ge>n. c i = []) \<longrightarrow>
     s = k c' \<and> (\<forall>i<n. c' i = c i))"

lemma takes_apartD:
  "takes_apart f k n \<Longrightarrow> f s c = Some c' \<Longrightarrow> (\<And>i. n \<le> i \<Longrightarrow> c i = []) \<Longrightarrow> s = k c' \<and> (\<forall>i<n. c' i = c i)"
  by (simp add: takes_apart_def)

lemma takes_apart_meta: "takes_apart scan_meta put_meta 7"
  by (auto simp: takes_apart_def scan_meta_def put_meta_def split: list.splits if_splits)

lemma takes_apart_suffix: "takes_apart scan_suffix put_suffix 6"
  unfolding takes_apart_def
proof (intro allI impI)
  fix s c c'
  assume f: "scan_suffix s c = Some c'" and c: "\<forall>i\<ge>6. c i = []"
  show "s = put_suffix c' \<and> (\<forall>i<6. c' i = c i)"
  proof (cases "\<exists>y r. s = CHR ''-'' # y # r \<and> is_alnum y")
    case True
    then obtain y r where s: "s = CHR ''-'' # y # r" and "is_alnum y" by blast
    then have "scan_meta (dropWhile is_suffix_char r) (c(6 := y # takeWhile is_suffix_char r)) = Some c'"
      using f by (simp add: scan_suffix_def)
    from takes_apartD[OF takes_apart_meta this] c s show ?thesis
      by (simp add: put_suffix_def) (metis takeWhile_dropWhile_id)
  next
    case False
    then have "scan_meta s c = Some c'" using f by (auto simp: scan_suffix_def split: list.splits)
    from takes_apartD[OF takes_apart_meta this] c show ?thesis
      by (simp add: put_suffix_def)
  qed
qed

lemma takes_apart_dot:
  assumes "takes_apart f k (Suc n)"
  shows "takes_apart (scan_dot n f) (put_dot n k) n"
  unfolding takes_apart_def
proof (intro allI impI)
  fix s c c'
  assume fs: "scan_dot n f s c = Some c'" and c: "\<forall>i\<ge>n. c i = []"
  show "s = put_dot n k c' \<and> (\<forall>i<n. c' i = c i)"
  proof (cases rule: scan_dot_cases[of s n f])
    case (dot y r)
    then have "f (dropWhile is_digit r) (c(n := y # takeWhile is_digit r)) = Some c'"
      using fs by simp
    from takes_apartD[OF assms this] c dot show ?thesis
      by (simp add: put_dot_def) (metis takeWhile_dropWhile_id)
  next
    case skip
    then have "f s c = Some c'" using fs by simp
    from takes_apartD[OF assms this] c show ?thesis
      by (simp add: put_dot_def)
  qed
qed

lemma scan_version_SomeD:
  assumes "scan_version s = Some c"
  shows "s = c 1 @ c 2 @ put_dot 3 (put_dot 4 (put_dot 5 put_suffix)) c"
proof -
  define r where "r = dropWhile (\<lambda>x. \<not> is_digit x) s"
  have "takes_apart scan_tail (put_dot 3 (put_dot 4 (put_dot 5 put_suffix))) 3"
    unfolding scan_tail_def
    using takes_apart_dot[of _ _ 3] takes_apart_dot[of _ _ 4] takes_apart_dot[of _ _ 5]
      takes_apart_suffix by simp
  from takes_apartD[OF this, of "dropWhile is_digit r" _ c] assms show ?thesis
    by (auto simp: scan_version_def Let_def r_def simp del: dropWhile_eq_Nil_conv split: if_splits)
qed

text \<open>The versions the printer and the parser agree on.\<close>

definition wf_version :: "SemanticTagVersion \<Rightarrow> bool" where
  "wf_version v \<longleftrightarrow>
     list_all (\<lambda>x. \<not> is_digit x) (Prefix v)
     \<and> Major v \<noteq> [] \<and> list_all is_digit (Major v) \<and> list_all is_digit (Minor v)
     \<and> list_all is_digit (Patch v) \<and> list_all is_digit (Build v)
     \<and> (Minor v = [] \<longrightarrow> Patch v = []) \<and> (Patch v = [] \<longrightarrow> Build v = [])
     \<and> (case Suffix v of [] \<Rightarrow> True | x # r \<Rightarrow> is_alnum x \<and> list_all is_suffix_char r)"

definition starts :: "(char \<Rightarrow> bool) \<Rightarrow> string \<Rightarrow> bool" where
  "starts P s = (case s of [] \<Rightarrow> False | x # _ \<Rightarrow> P x)"

lemma starts_simps [simp]: "\<not> starts P []" "starts P (x # s) = P x"
  by (simp_all add: starts_def)

lemma takeWhile_run:
  "list_all P a \<Longrightarrow> \<not> starts P b \<Longrightarrow> takeWhile P (a @ b) = a \<and> dropWhile P (a @ b) = b"
  by (cases b) (auto simp: list_all_iff takeWhile_append2 dropWhile_append2 starts_def)

lemma While_all: "list_all P a \<Longrightarrow> takeWhile P a = a" "list_all P a \<Longrightarrow> dropWhile P a = []"
  by (induction a) auto

lemma scan_dot_hit:
  assumes "list_all is_digit d" and "d \<noteq> []" and "\<not> starts is_digit rest"
  shows "scan_dot n f (CHR ''.'' # d @ rest) c = f rest (c(n := d))"
  using assms takeWhile_run[of is_digit "tl d" rest]
  by (cases d) (simp_all add: scan_dot_def)

lemma scan_dot_miss: "\<not> starts (\<lambda>x. x = CHR ''.'') s \<Longrightarrow> scan_dot n f s c = f s c"
  by (cases s rule: scan_dot_cases[of _ n f]) auto

lemma scan_suffix_print:
  assumes "case sf of [] \<Rightarrow> True | x # r \<Rightarrow> is_alnum x \<and> list_all is_suffix_char r"
  shows "scan_suffix (if sf \<noteq> [] then ''-'' @ sf else []) c = Some (if sf \<noteq> [] then c(6 := sf) else c)"
  using assms by (cases sf)
    (auto simp: scan_suffix_def scan_meta_def While_all)

lemma scan_tail_print:
  assumes "wf_version v"
  shows "\<exists>c'. scan_tail ((if Minor v \<noteq> [] then ''.'' @ Minor v else [])
     @ (if Patch v \<noteq> [] then ''.'' @ Patch v else [])
     @ (if Build v \<noteq> [] then ''.'' @ Build v else [])
     @ (if Suffix v \<noteq> [] then ''-'' @ Suffix v else [])) ((\<lambda>_. [])(1 := p, 2 := m)) = Some c'
   \<and> c' 1 = p \<and> c' 2 = m \<and> c' 3 = Minor v \<and> c' 4 = Patch v \<and> c' 5 = Build v
   \<and> c' 6 = Suffix v \<and> c' 7 = []"
proof -
  define sf where "sf = (if Suffix v \<noteq> [] then ''-'' @ Suffix v else [])"
  have nd: "\<not> starts is_digit sf" "\<not> starts (\<lambda>x. x = CHR ''.'') sf"
    by (simp_all add: sf_def is_digit_def)
  have sp: "scan_suffix sf c = Some (if Suffix v \<noteq> [] then c(6 := Suffix v) else c)" for c
    unfolding sf_def by (rule scan_suffix_print) (use assms in \<open>simp add: wf_version_def\<close>)
  show ?thesis
    using assms unfolding wf_version_def scan_tail_def sf_def[symmetric]
    by (cases "Minor v = []"; cases "Patch v = []"; cases "Build v = []")
       (auto simp: scan_dot_hit scan_dot_miss nd not_digit_marks sp)
qed

lemma scan_version_print:
  assumes "wf_version v"
  shows "\<exists>c. scan_version (version_String v) = Some c \<and> c 1 = Prefix v \<and> c 2 = Major v
    \<and> c 3 = Minor v \<and> c 4 = Patch v \<and> c 5 = Build v \<and> c 6 = Suffix v \<and> c 7 = []"
proof -
  define rest where "rest = (if Minor v \<noteq> [] then ''.'' @ Minor v else [])
     @ (if Patch v \<noteq> [] then ''.'' @ Patch v else [])
     @ (if Build v \<noteq> [] then ''.'' @ Build v else [])
     @ (if Suffix v \<noteq> [] then ''-'' @ Suffix v else [])"
  have s: "version_String v = Prefix v @ Major v @ rest"
    by (simp add: version_String_def rest_def)
  from assms have wf: "list_all (\<lambda>x. \<not> is_digit x) (Prefix v)" "list_all is_digit (Major v)" "Major v \<noteq> []"
    by (simp_all add: wf_version_def)
  have nr: "\<not> starts is_digit rest"
    by (simp add: rest_def is_digit_def)
  have "\<not> starts (\<lambda>x. \<not> is_digit x) (Major v @ rest)"
    using wf by (cases "Major v") auto
  note run = takeWhile_run[OF wf(1) this] takeWhile_run[OF wf(2) nr]
  show ?thesis
    unfolding s scan_version_def
    using run scan_tail_print[OF assms, of "Prefix v" "Major v"] wf
    by (simp add: Let_def rest_def del: dropWhile_eq_Nil_conv)
qed

section \<open>White space around tags\<close>

definition trim_safe :: "string \<Rightarrow> bool" where
  "trim_safe p \<longleftrightarrow> list_all (\<lambda>e. \<not> prefix e p) go_spaces"

lemma go_spaces_chars:
  "list_all (\<lambda>e. e \<noteq> [] \<and> \<not> is_suffix_char (last e) \<and> list_all (\<lambda>x. \<not> is_digit x) e) go_spaces"
  by code_simp

lemma digit_suffix_char: "is_digit x \<Longrightarrow> is_suffix_char x" "is_alnum x \<Longrightarrow> is_suffix_char x"
  by (simp_all add: is_suffix_char_def is_alnum_def)

lemma last_version_String:
  assumes "wf_version v"
  shows "version_String v \<noteq> [] \<and> is_suffix_char (last (version_String v))"
proof -
  have dig: "is_suffix_char (last d)" if "list_all is_digit d" "d \<noteq> []" for d
    using that by (auto simp: list_all_iff intro: digit_suffix_char)
  have suf: "is_suffix_char (last (Suffix v))" if "Suffix v \<noteq> []"
    using assms that digit_suffix_char
    by (cases "Suffix v") (auto simp: wf_version_def list_all_iff split: if_splits)
  show ?thesis
    using assms dig suf by (auto simp: version_String_def wf_version_def)
qed

lemma prefix_before_digit:
  assumes "prefix e (p @ s)" and "list_all (\<lambda>x. \<not> is_digit x) e" and "starts is_digit s"
  shows "prefix e p"
proof (rule ccontr)
  assume "\<not> prefix e p"
  with assms(1) obtain r where r: "e = p @ r" "prefix r s" "r \<noteq> []"
    by (metis append_Nil2 prefix_append prefix_order.refl)
  then have "hd r = hd s" by (cases s; cases r) auto
  with r assms(2,3) show False by (cases s; cases r) (auto simp: starts_def)
qed

lemma trim_version_String:
  assumes "wf_version v" and "trim_safe (Prefix v)"
  shows "go_trim_space (version_String v) = version_String v"
proof (rule go_trim_space_id)
  have maj: "starts is_digit (Major v @ rest)" for rest
    using assms(1) by (cases "Major v") (auto simp: wf_version_def)
  have "\<not> prefix e (version_String v)" if "e \<in> set go_spaces" for e
  proof
    assume p: "prefix e (version_String v)"
    obtain rest where s: "version_String v = Prefix v @ (Major v @ rest)"
      by (simp add: version_String_def)
    have "prefix e (Prefix v)"
      by (rule prefix_before_digit[of e _ "Major v @ rest"])
        (use p s that go_spaces_chars maj in \<open>auto simp: list_all_iff\<close>)
    then show False using assms(2) that by (simp add: trim_safe_def list_all_iff)
  qed
  moreover have "\<not> suffix e (version_String v)" if "e \<in> set go_spaces" for e
    using that go_spaces_chars last_version_String[OF assms(1)]
    by (fastforce simp: suffix_def list_all_iff)
  ultimately show "space_free_ends (version_String v)"
    by (auto simp: space_free_ends_def list_all_iff)
qed

lemma NewSemanticVersion_eq:
  "NewSemanticVersion tag =
     (let t = go_trim_space tag in
      if t = [] then Inl EmptyTag
      else case scan_version t of None \<Rightarrow> Inl (InvalidVersion t)
      | Some m \<Rightarrow> if m 2 = [] then Inl (MissingMajor t) else
          Inr \<lparr>Prefix = m 1, Major = m 2, Minor = m 3, Patch = m 4,
               Build = (if m 7 = [] then m 5 else m 7), Suffix = m 6\<rparr>)"
  by (simp add: NewSemanticVersion_def Let_def find_versionPattern split: option.split)

text \<open>Evaluation goes through the scanner.\<close>

declare NewSemanticVersion_eq [code]

lemma NewSemanticVersion_String:
  assumes "wf_version v" and "trim_safe (Prefix v)"
  shows "NewSemanticVersion (version_String v) = Inr v"
proof -
  obtain c where "scan_version (version_String v) = Some c" "c 1 = Prefix v" "c 2 = Major v"
    "c 3 = Minor v" "c 4 = Patch v" "c 5 = Build v" "c 6 = Suffix v" "c 7 = []"
    using scan_version_print[OF assms(1)] by blast
  then show ?thesis
    using trim_version_String[OF assms] last_version_String[OF assms(1)] assms(1)
    by (simp add: NewSemanticVersion_eq Let_def wf_version_def)
qed

section \<open>The coarser variants\<close>

definition lower_versions :: "SemanticTagVersion \<Rightarrow> SemanticTagVersion list" where
  "lower_versions v =
     (if Build v \<noteq> [] then [v\<lparr>Build := []\<rparr>] else [])
     @ (if Patch v \<noteq> [] then [v\<lparr>Patch := [], Build := []\<rparr>] else [])
     @ (if Minor v \<noteq> [] then [v\<lparr>Minor := [], Patch := [], Build := []\<rparr>] else [])"

lemma GetLowerVariants_eq:
  "wf_version v \<Longrightarrow> GetLowerVariants v = map version_String (lower_versions v)"
  by (auto simp: GetLowerVariants_def lower_versions_def version_String_def wf_version_def Let_def)

lemma lower_versions_wf:
  "wf_version v \<Longrightarrow> w \<in> set (lower_versions v) \<Longrightarrow> wf_version w \<and> Prefix w = Prefix v"
  by (auto simp: lower_versions_def wf_version_def split: if_splits)

section \<open>The order\<close>

definition numeric_rank :: "string \<Rightarrow> int" where
  "numeric_rank a = (if a = [] then min_int - 1 else fst (go_atoi a))"

lemma compareNumeric_rank: "compareNumeric a b = cmp_of (numeric_rank a) (numeric_rank b)"
  using go_atoi_range[of a] go_atoi_range[of b]
  by (auto simp: compareNumeric_def numeric_rank_def cmp_of_def Let_def)

lemma Compare_lex:
  "Compare = cmp_lex (\<lambda>v w. cmp_of (numeric_rank (Major v)) (numeric_rank (Major w)))
     (cmp_lex (\<lambda>v w. cmp_of (numeric_rank (Minor v)) (numeric_rank (Minor w)))
       (cmp_lex (\<lambda>v w. cmp_of (numeric_rank (Patch v)) (numeric_rank (Patch w)))
          (\<lambda>v w. cmp_of (Build v) (Build w))))"
proof (intro ext)
  fix v w :: SemanticTagVersion
  have "(if Build v = [] \<and> Build w \<noteq> [] then -1
      else if Build v \<noteq> [] \<and> Build w = [] then 1
      else if Build v < Build w then -1 else if Build v > Build w then 1 else 0)
    = cmp_of (Build v) (Build w)"
    by (cases "Build v"; cases "Build w") (auto simp: cmp_of_def)
  then show "Compare v w = cmp_lex (\<lambda>v w. cmp_of (numeric_rank (Major v)) (numeric_rank (Major w)))
     (cmp_lex (\<lambda>v w. cmp_of (numeric_rank (Minor v)) (numeric_rank (Minor w)))
       (cmp_lex (\<lambda>v w. cmp_of (numeric_rank (Patch v)) (numeric_rank (Patch w)))
          (\<lambda>v w. cmp_of (Build v) (Build w)))) v w"
    by (simp add: Compare_def cmp_lex_def compareNumeric_rank Let_def)
qed

interpretation tag_order: version_order Compare
  unfolding Compare_lex by (intro version_order_lex version_order_cmp_of)

lemma lower_versions_less:
  assumes "w \<in> set (lower_versions v)"
  shows "Less w v"
proof -
  have lt: "cmp_of (numeric_rank []) (numeric_rank d) = -1" if "d \<noteq> []" for d
    using that go_atoi_range[of d] by (simp add: numeric_rank_def cmp_of_def)
  have "cmp_of [] b = -1" if "b \<noteq> []" for b :: string
    using that by (cases b) (simp_all add: cmp_of_def)
  moreover have "cmp_of a a = 0" for a :: int by (simp add: cmp_of_def)
  ultimately show ?thesis
    using assms lt
    by (auto simp: lower_versions_def Less_def Compare_lex cmp_lex_def split: if_splits)
qed

section \<open>Properties\<close>

text \<open>
  The regular expression of the source and a single left-to-right scan agree on every text,
  submatches included: the pattern never backtracks into a different reading.
\<close>

lemma version_pattern_is_scan: "find_submatch versionPattern s = scan_version s"
  by (rule find_versionPattern)

text \<open>
  C13. Printing then parsing: a well-formed version (digits where the grammar wants digits, no gap
  between its components, no white space at its start) is read back unchanged.
\<close>

theorem parse_print:
  assumes "wf_version v" and "trim_safe (Prefix v)"
  shows "NewSemanticVersion (version_String v) = Inr v"
  by (rule NewSemanticVersion_String[OF assms])

definition v_1_2_3_alpine :: SemanticTagVersion where
  "v_1_2_3_alpine = \<lparr>Prefix = ''v'', Major = ''1'', Minor = ''2'', Patch = ''3'', Build = ''4'',
     Suffix = ''alpine3.20''\<rparr>"

lemma v_1_2_3_alpine_ok: "wf_version v_1_2_3_alpine" "trim_safe (Prefix v_1_2_3_alpine)"
  by code_simp+

theorem parse_print_witness:
  "NewSemanticVersion ''v1.2.3.4-alpine3.20'' = Inr v_1_2_3_alpine"
  using parse_print[OF v_1_2_3_alpine_ok]
  by (simp add: version_String_def v_1_2_3_alpine_def)

text \<open>
  Parsing then printing: a tag that parses without build metadata is printed as it was, but
  for the white space around it.
\<close>

lemma print_parse:
  assumes "NewSemanticVersion tag = Inr v"
    and "find_submatch versionPattern (go_trim_space tag) = Some m" and "m 7 = []"
  shows "version_String v = go_trim_space tag"
proof -
  from assms(2) have m: "scan_version (go_trim_space tag) = Some m"
    by (simp add: find_versionPattern)
  then have "v = \<lparr>Prefix = m 1, Major = m 2, Minor = m 3, Patch = m 4, Build = m 5, Suffix = m 6\<rparr>"
    using assms(1,3) by (auto simp: NewSemanticVersion_eq Let_def split: if_splits)
  then show ?thesis
    using scan_version_SomeD[OF m] assms(3)
    by (simp add: version_String_def put_dot_def put_suffix_def put_meta_def)
qed

lemma print_parse_witness:
  "\<exists>v. NewSemanticVersion '' 2.0-rc1 '' = Inr v \<and> version_String v = go_trim_space '' 2.0-rc1 ''"
proof -
  define v where "v = \<lparr>Prefix = [], Major = ''2'', Minor = ''0'', Patch = [], Build = [], Suffix = ''rc1''\<rparr>"
  have v: "NewSemanticVersion '' 2.0-rc1 '' = Inr v" unfolding v_def by code_simp
  have "go_trim_space '' 2.0-rc1 '' = ''2.0-rc1''" by code_simp
  moreover obtain m where "scan_version ''2.0-rc1'' = Some m \<and> m 7 = []"
    using scan_version_print[of v] by (auto simp: v_def wf_version_def version_String_def
        is_digit_def is_alnum_def is_lower_def is_suffix_char_def)
  ultimately show ?thesis
    using print_parse[OF v, of m] v by (simp add: find_versionPattern)
qed

text \<open>
  The coarser variants of a well-formed version are versions themselves: each parses, is
  strictly less than the version, and keeps its prefix, major and suffix.
\<close>

lemma lower_variants_parse:
  assumes "wf_version v" and "trim_safe (Prefix v)" and "a \<in> set (GetLowerVariants v)"
  shows "\<exists>w. NewSemanticVersion a = Inr w \<and> Less w v \<and> Prefix w = Prefix v
     \<and> Major w = Major v \<and> Suffix w = Suffix v"
proof -
  obtain w where w: "w \<in> set (lower_versions v)" and a: "a = version_String w"
    using assms by (auto simp: GetLowerVariants_eq)
  have "NewSemanticVersion a = Inr w"
    using NewSemanticVersion_String lower_versions_wf[OF assms(1) w] assms(2) by (simp add: a)
  moreover have "Major w = Major v \<and> Suffix w = Suffix v \<and> Prefix w = Prefix v"
    using w by (auto simp: lower_versions_def split: if_splits)
  ultimately show ?thesis using lower_versions_less[OF w] by blast
qed

lemma lower_variants_parse_witness:
  "\<exists>w. NewSemanticVersion ''v1.2-alpine3.20'' = Inr w \<and> Less w v_1_2_3_alpine
     \<and> Prefix w = Prefix v_1_2_3_alpine \<and> Major w = Major v_1_2_3_alpine
     \<and> Suffix w = Suffix v_1_2_3_alpine"
  by (rule lower_variants_parse[OF v_1_2_3_alpine_ok])
    (simp add: GetLowerVariants_def v_1_2_3_alpine_def Let_def)

text \<open>
  \<open>Compare\<close> is a total preorder, and two versions it calls equal differ at most in prefix,
  suffix and the spelling of their numbers.
\<close>

lemma Compare_total_preorder:
  "Compare w v = - Compare v w
   \<and> (Compare u v \<le> 0 \<and> Compare v w \<le> 0 \<longrightarrow> Compare u w \<le> 0)
   \<and> (Equal v w \<longleftrightarrow> numeric_rank (Major v) = numeric_rank (Major w)
        \<and> numeric_rank (Minor v) = numeric_rank (Minor w)
        \<and> numeric_rank (Patch v) = numeric_rank (Patch w) \<and> Build v = Build w)"
proof -
  have "Equal v w \<longleftrightarrow> numeric_rank (Major v) = numeric_rank (Major w)
        \<and> numeric_rank (Minor v) = numeric_rank (Minor w)
        \<and> numeric_rank (Patch v) = numeric_rank (Patch w) \<and> Build v = Build w"
    by (auto simp: Equal_def Compare_lex cmp_lex_def cmp_of_def Let_def split: if_splits)
  then show ?thesis
    using tag_order.cmp_flip[of w v] tag_order.cmp_trans[of u v w] by simp
qed

lemma Compare_total_preorder_witness:
  "Compare v_1_2_3_alpine (v_1_2_3_alpine\<lparr>Minor := ''10''\<rparr>)
     = - Compare (v_1_2_3_alpine\<lparr>Minor := ''10''\<rparr>) v_1_2_3_alpine"
  using Compare_total_preorder[of v_1_2_3_alpine "v_1_2_3_alpine\<lparr>Minor := ''10''\<rparr>"] by blast

text \<open>
  Build metadata without a patch number leaves gaps: \<open>1+b\<close> is a version whose first coarser
  variant is \<open>1..\<close>, which is not a version.
\<close>

lemma metadata_leaves_gaps:
  "\<exists>v. NewSemanticVersion ''1+b'' = Inr v \<and> GetLowerVariants v = [''1..'', ''1.'', ''1'']
     \<and> NewSemanticVersion ''1..'' = Inl (InvalidVersion ''1..'')"
proof -
  define v where "v = \<lparr>Prefix = [], Major = ''1'', Minor = [], Patch = [], Build = ''b'', Suffix = []\<rparr>"
  have "NewSemanticVersion ''1+b'' = Inr v" unfolding v_def by code_simp
  moreover have "GetLowerVariants v = [''1..'', ''1.'', ''1'']"
    by (simp add: GetLowerVariants_def v_def)
  moreover have "NewSemanticVersion ''1..'' = Inl (InvalidVersion ''1..'')" by code_simp
  ultimately show ?thesis by blast
qed

end
