(* ===== verification/Model.thy ===== *)
theory Model
  imports Go_Strings Go_Numbers
begin

text \<open>
  The data model of \<open>pkg/model\<close>: the structs of a loaded project and of its configuration as
  records with the fields of the source (prefixed by the struct they belong to), pointers that
  may be nil as options, and the decoding and validation code the package itself holds.
  A \<open>[]string\<close> is a list; it is an option only where the code tells nil from empty.
\<close>

section \<open>Configuration (\<open>config.go\<close>)\<close>

type_synonym Versions = "(string, string) gomap"
type_synonym BuildArgs = "(string, string) gomap"
type_synonym Labels = "(string, string) gomap"

definition DistDirName :: string where "DistDirName = ''dist''"
definition HiveParentPlaceholder :: string where "HiveParentPlaceholder = ''__hive_parent__''"

definition BuildBackendAuto :: string where "BuildBackendAuto = []"
definition BuildBackendDockerfile :: string where "BuildBackendDockerfile = ''dockerfile''"
definition BuildBackendNix :: string where "BuildBackendNix = ''nix''"
definition BuildBackendChisel :: string where "BuildBackendChisel = ''chisel''"
definition FlakeFileName :: string where "FlakeFileName = ''flake.nix''"
definition ChiselFileName :: string where "ChiselFileName = ''chisel.yaml''"

record Secret =
  sec_SourceType :: string
  sec_Value :: string

record LatestAliasConfig =
  la_Tag :: string
  la_OnMissing :: string

record NixConfig =
  nix_BuilderImage :: string
  nix_ExtraArgs :: "string list"
  nix_Parent :: string
  nix_StoreCache :: "bool option"

definition StoreCacheEnabled :: "NixConfig \<Rightarrow> bool" where
  "StoreCacheEnabled c \<longleftrightarrow> (case nix_StoreCache c of None \<Rightarrow> False | Some b \<Rightarrow> b)"

record ChiselConfig =
  ch_BuilderImage :: string
  ch_ChiselVersion :: string
  ch_ExtraArgs :: "string list"
  ch_Parent :: string
  ch_Cache :: "bool option"

definition CacheEnabled :: "ChiselConfig \<Rightarrow> bool" where
  "CacheEnabled c \<longleftrightarrow> (case ch_Cache c of None \<Rightarrow> True | Some b \<Rightarrow> b)"

record ImageRunConfig =
  rc_Entrypoint :: "string list option"
  rc_Cmd :: "string list option"
  rc_Env :: "(string, string) gomap"
  rc_User :: string
  rc_WorkingDir :: string

record RegistryConfig =
  rg_Address :: string
  rg_DockerMediaTypes :: "bool option"

record CacheConfig =
  cc_Type :: string
  cc_Endpoint :: string
  cc_Bucket :: string
  cc_Region :: string
  cc_AccessKeyId :: string
  cc_SecretAccessKey :: string
  cc_UsePathStyle :: bool
  cc_Ref :: string
  cc_Insecure :: bool

record LabelsConfig =
  lb_Vendor :: string
  lb_Authors :: string
  lb_Url :: string
  lb_Documentation :: string
  lb_Custom :: Labels

record LintConfig =
  li_Ignored :: "string list"
  li_TrustedRegistries :: "string list"
  li_LabelSchema :: "(string, string) gomap"
  li_StrictLabels :: "bool option"
  li_FailureThreshold :: string

record ChangeDetectionConfig =
  cd_Exclude :: "string list option"
  cd_TreatAsGlobal :: "string list option"

definition DefaultChangeDetectionExclude :: "string list" where
  "DefaultChangeDetectionExclude =
     [''renovate.json'', ''renovate.json5'', ''.renovaterc'', ''.renovaterc.json'',
      ''.github/renovate.json'', ''.github/renovate.json5'', ''README.md'', ''CONTRIBUTING.md'',
      ''mkdocs.yml'', ''styles/**'', ''.gitignore'', ''.gitattributes'']"

definition DefaultChangeDetectionTreatAsGlobal :: "string list" where
  "DefaultChangeDetectionTreatAsGlobal =
     [''.pre-commit-config.yaml'', ''hive.yml'', ''hive.yaml'', ''container-hive.yml'',
      ''container-hive.yaml'']"

definition ExcludePatterns :: "ChangeDetectionConfig option \<Rightarrow> string list" where
  "ExcludePatterns c = (case c of None \<Rightarrow> DefaultChangeDetectionExclude
     | Some cfg \<Rightarrow> (case cd_Exclude cfg of None \<Rightarrow> DefaultChangeDetectionExclude | Some xs \<Rightarrow> xs))"

definition TreatAsGlobalPatterns :: "ChangeDetectionConfig option \<Rightarrow> string list" where
  "TreatAsGlobalPatterns c = (case c of None \<Rightarrow> DefaultChangeDetectionTreatAsGlobal
     | Some cfg \<Rightarrow> (case cd_TreatAsGlobal cfg of None \<Rightarrow> DefaultChangeDetectionTreatAsGlobal | Some xs \<Rightarrow> xs))"

record HiveProjectConfig =
  hc_BuildKitAddress :: "string option"
  hc_Cache :: "CacheConfig option"
  hc_Registry :: "RegistryConfig option"
  hc_Platforms :: "string list"
  hc_TemplateOptions :: "(string, string) gomap"
  hc_Labels :: "LabelsConfig option"
  hc_Lint :: "LintConfig option"
  hc_StyleSheet :: string
  hc_ChangeDetection :: "ChangeDetectionConfig option"
  hc_CacheDir :: string
  hc_VersionCacheTTL :: string

section \<open>Tag ranges (\<open>tag_range.go\<close>)\<close>

record SourceConfig =
  sc_Type :: string
  sc_URL :: string
  sc_Transform :: string
  sc_Headers :: "(string, string) gomap"
  sc_Image :: string
  sc_Repo :: string
  sc_Kind :: string
  sc_TokenEnv :: string
  sc_TTL :: string

record LevelSelect =
  ls_Last :: int
  ls_All :: bool

record SelectConfig =
  sel_Major :: "LevelSelect option"
  sel_Minor :: "LevelSelect option"
  sel_Patch :: "LevelSelect option"

record FilterConfig =
  fc_ExcludePrerelease :: "bool option"
  fc_ExcludeSuffixes :: "string list"
  fc_MinVersion :: string
  fc_MaxVersion :: string
  fc_MaxMajorIncrement :: int

record TagRange =
  tr_TagName :: string
  tr_Source :: "SourceConfig option"
  tr_Generator :: string
  tr_Params :: "(string, string) gomap"
  tr_Select :: "SelectConfig option"
  tr_Filter :: "FilterConfig option"
  tr_MaxTags :: int
  tr_Versions :: Versions
  tr_BuildArgs :: BuildArgs
  tr_Labels :: Labels

text \<open>
  A node of a parsed YAML document, with the fields of \<open>yaml.Node\<close> the decoders read.
\<close>

datatype yaml_kind = ScalarNode | MappingNode | SequenceNode | AliasNode | DocumentNode

datatype yaml_node =
  YamlNode (yn_Kind: yaml_kind) (yn_Tag: string) (yn_Value: string) (yn_Content: "yaml_node list")

datatype select_error =
    BadSelectKind yaml_kind | BadSelectScalar string | BadSelectLast string | BadSelectAll string
  | UnknownSelectField string | LastAndAllExclusive

definition go_parse_bool :: "string \<Rightarrow> bool option" where
  "go_parse_bool s =
     (if s \<in> {''1'', ''t'', ''T'', ''true'', ''TRUE'', ''True''} then Some True
      else if s \<in> {''0'', ''f'', ''F'', ''false'', ''FALSE'', ''False''} then Some False
      else None)"

definition unmarshalScalar :: "LevelSelect \<Rightarrow> string \<Rightarrow> select_error + LevelSelect" where
  "unmarshalScalar l value =
     (if value = ''latest'' then Inr (l\<lparr>ls_Last := 1\<rparr>)
      else if value = ''all'' then Inr (l\<lparr>ls_All := True\<rparr>)
      else let (n, ok) = go_atoi value in
        if \<not> ok \<or> n < 1 then Inl (BadSelectScalar value) else Inr (l\<lparr>ls_Last := n\<rparr>))"

fun unmarshalMapping_loop :: "LevelSelect \<Rightarrow> yaml_node list \<Rightarrow> select_error + LevelSelect" where
  "unmarshalMapping_loop l (knode # vnode # rest) =
     (let key = yn_Value knode; v = yn_Value vnode in
      if key = ''last'' then
        (let (n, ok) = go_atoi v in
         if \<not> ok \<or> n < 1 then Inl (BadSelectLast v)
         else unmarshalMapping_loop (l\<lparr>ls_Last := n\<rparr>) rest)
      else if key = ''all'' then
        (case go_parse_bool v of None \<Rightarrow> Inl (BadSelectAll v)
         | Some b \<Rightarrow> unmarshalMapping_loop (l\<lparr>ls_All := b\<rparr>) rest)
      else Inl (UnknownSelectField key))"
| "unmarshalMapping_loop l _ = Inr l"

definition unmarshalMapping :: "LevelSelect \<Rightarrow> yaml_node list \<Rightarrow> select_error + LevelSelect" where
  "unmarshalMapping l content =
     res_bind (unmarshalMapping_loop l content)
       (\<lambda>l'. if ls_Last l' > 0 \<and> ls_All l' then Inl LastAndAllExclusive else Inr l')"

definition UnmarshalYAML :: "LevelSelect \<Rightarrow> yaml_node \<Rightarrow> select_error + LevelSelect" where
  "UnmarshalYAML l node =
     (case yn_Kind node of
        ScalarNode \<Rightarrow> unmarshalScalar l (yn_Value node)
      | MappingNode \<Rightarrow> unmarshalMapping l (yn_Content node)
      | k \<Rightarrow> Inl (BadSelectKind k))"

lemma go_parse_bool_iff: "go_parse_bool s = Some b \<longleftrightarrow>
   (if b then s \<in> {''1'', ''t'', ''T'', ''true'', ''TRUE'', ''True''}
    else s \<in> {''0'', ''f'', ''F'', ''false'', ''FALSE'', ''False''})"
  by (auto simp: go_parse_bool_def)

definition select_ok :: "LevelSelect \<Rightarrow> bool" where
  "select_ok l \<longleftrightarrow> ls_Last l \<ge> 0 \<and> \<not> (ls_Last l > 0 \<and> ls_All l)"

lemma unmarshalScalar_ok:
  "unmarshalScalar l v = Inr l' \<Longrightarrow> ls_Last l = 0 \<Longrightarrow> \<not> ls_All l \<Longrightarrow>
   select_ok l' \<and> (ls_Last l' > 0 \<or> ls_All l')"
  by (auto simp: unmarshalScalar_def select_ok_def Let_def split: if_splits prod.splits)

lemma unmarshalMapping_loop_Last:
  "unmarshalMapping_loop l c = Inr l' \<Longrightarrow> ls_Last l \<ge> 0 \<Longrightarrow> ls_Last l' \<ge> 0"
proof (induction l c rule: unmarshalMapping_loop.induct)
  case (1 l knode vnode rest)
  then show ?case
    by (cases "go_atoi (yn_Value vnode)")
      (auto simp: Let_def split: if_splits option.splits)
qed simp_all

lemma unmarshalMapping_ok:
  "unmarshalMapping l c = Inr l' \<Longrightarrow> ls_Last l \<ge> 0 \<Longrightarrow> select_ok l'"
  by (auto simp: unmarshalMapping_def select_ok_def res_iff
      intro: unmarshalMapping_loop_Last split: if_splits)

text \<open>A mapping is accepted only if each key is \<open>last\<close> or \<open>all\<close>.\<close>

lemma unmarshalMapping_loop_keys:
  "unmarshalMapping_loop l c = Inr l' \<Longrightarrow> 2 * i + 1 < length c \<Longrightarrow>
   yn_Value (c ! (2 * i)) = ''last'' \<or> yn_Value (c ! (2 * i)) = ''all''"
proof (induction l c arbitrary: i rule: unmarshalMapping_loop.induct)
  case (1 l knode vnode rest)
  then show ?case
    by (cases i; cases "go_atoi (yn_Value vnode)")
      (auto simp: Let_def split: if_splits option.splits)
qed simp_all

section \<open>Chisel cut specs (\<open>chisel.go\<close>)\<close>

record ChiselReleaseRef =
  crr_Name :: string
  crr_Git :: string
  crr_GitRef :: string

record ChiselCutSpec =
  ccs_Release :: ChiselReleaseRef
  ccs_Slices :: "string list"
  ccs_Ignore :: "string list"

datatype chisel_error =
    ReleaseRequired | BadReleaseKind yaml_kind | BadReleaseGit string | BadReleaseRef string
  | UnknownReleaseField string | NameAndGit | SlicesRequired | EmptySlice | UnknownIgnore string
  | InvalidYaml

text \<open>
  \<open>val.Decode(&string)\<close> of the YAML library: a parameter that gives the string of a node, or
  none when the node does not decode to one.
\<close>

type_synonym decode_string = "yaml_node \<Rightarrow> string option"

fun unmarshalRelease :: "decode_string \<Rightarrow> ChiselReleaseRef \<Rightarrow> yaml_node list \<Rightarrow> chisel_error + ChiselReleaseRef" where
  "unmarshalRelease dec r (knode # vnode # rest) =
     (let key = yn_Value knode in
      if key = ''git'' then
        (case dec vnode of None \<Rightarrow> Inl (BadReleaseGit (yn_Tag vnode))
         | Some g \<Rightarrow> unmarshalRelease dec (r\<lparr>crr_Git := g\<rparr>) rest)
      else if key = ''ref'' then
        (case dec vnode of None \<Rightarrow> Inl (BadReleaseRef (yn_Tag vnode))
         | Some g \<Rightarrow> unmarshalRelease dec (r\<lparr>crr_GitRef := g\<rparr>) rest)
      else Inl (UnknownReleaseField key))"
| "unmarshalRelease dec r _ = Inr r"

definition UnmarshalRelease :: "decode_string \<Rightarrow> ChiselReleaseRef \<Rightarrow> yaml_node \<Rightarrow> chisel_error + ChiselReleaseRef" where
  "UnmarshalRelease dec r node =
     (case yn_Kind node of
        ScalarNode \<Rightarrow>
          if yn_Tag node = ''!!null'' then Inl ReleaseRequired
          else Inr (r\<lparr>crr_Name := yn_Value node\<rparr>)
      | MappingNode \<Rightarrow> unmarshalRelease dec r (yn_Content node)
      | k \<Rightarrow> Inl (BadReleaseKind k))"

definition IsGit :: "ChiselReleaseRef \<Rightarrow> bool" where
  "IsGit r \<longleftrightarrow> crr_Git r \<noteq> []"

definition ValidateRelease :: "ChiselReleaseRef \<Rightarrow> chisel_error + unit" where
  "ValidateRelease r =
     (if crr_Name r \<noteq> [] \<and> crr_Git r \<noteq> [] then Inl NameAndGit
      else if crr_Name r = [] \<and> crr_Git r = [] then Inl ReleaseRequired
      else Inr ())"

definition ValidateCutSpec :: "ChiselCutSpec \<Rightarrow> chisel_error + unit" where
  "ValidateCutSpec s =
     res_bind (ValidateRelease (ccs_Release s)) (\<lambda>_.
       if ccs_Slices s = [] then Inl SlicesRequired
       else res_bind (res_guard (list_all (\<lambda>slice. slice \<noteq> []) (ccs_Slices s)) EmptySlice) (\<lambda>_.
         res_fold (\<lambda>_ cond. if cond = ''unstable'' \<or> cond = ''unmaintained'' then Inr ()
                          else Inl (UnknownIgnore cond)) () (ccs_Ignore s)))"

definition ParseChiselCutSpec ::
  "(string \<Rightarrow> ChiselCutSpec option) \<Rightarrow> string \<Rightarrow> chisel_error + ChiselCutSpec" where
  "ParseChiselCutSpec decode data =
     (case decode data of None \<Rightarrow> Inl InvalidYaml
      | Some spec \<Rightarrow> res_bind (ValidateCutSpec spec) (\<lambda>_. Inr spec))"

lemma ignore_loop_iff:
  "res_fold (\<lambda>_ cond. if cond = ''unstable'' \<or> cond = ''unmaintained'' then Inr ()
     else Inl (UnknownIgnore cond)) () xs = Inr u \<longleftrightarrow> set xs \<subseteq> {''unstable'', ''unmaintained''}"
  by (induction xs) (auto simp: res_iff)

lemma ValidateCutSpec_iff:
  "ValidateCutSpec s = Inr u \<longleftrightarrow>
     (crr_Name (ccs_Release s) = [] \<longleftrightarrow> IsGit (ccs_Release s))
     \<and> ccs_Slices s \<noteq> [] \<and> [] \<notin> set (ccs_Slices s)
     \<and> set (ccs_Ignore s) \<subseteq> {''unstable'', ''unmaintained''}"
  by (auto simp: ValidateCutSpec_def ValidateRelease_def IsGit_def res_iff ignore_loop_iff
      list_all_iff split: if_splits)

section \<open>Images and projects (\<open>main.go\<close>)\<close>

record Tag =
  tag_Name :: string
  tag_Versions :: Versions
  tag_BuildArgs :: BuildArgs
  tag_Labels :: Labels
  tag_IsPrerelease :: bool
  tag_GeneratedFrom :: string

record ImageVariant =
  var_Name :: string
  var_BuildEntryPointPath :: string
  var_BuildBackend :: string
  var_Nix :: "NixConfig option"
  var_Chisel :: "ChiselConfig option"
  var_RunConfig :: "ImageRunConfig option"
  var_ReadmePath :: string
  var_RootDir :: string
  var_RootFSDir :: string
  var_TagSuffix :: string
  var_TestConfigFilePath :: string
  var_Versions :: Versions
  var_BuildArgs :: BuildArgs
  var_Platforms :: "string list"
  var_ReportIcon :: string
  var_Labels :: Labels

record Image =
  img_Identifier :: string
  img_Name :: string
  img_Description :: string
  img_RootDir :: string
  img_RootFSDir :: string
  img_TestConfigFilePath :: string
  img_DefinitionFilePath :: string
  img_BuildEntryPointPath :: string
  img_BuildBackend :: string
  img_Nix :: NixConfig
  img_Chisel :: ChiselConfig
  img_RunConfig :: "ImageRunConfig option"
  img_ReadmePath :: string
  img_Versions :: Versions
  img_BuildArgs :: BuildArgs
  img_Secrets :: "(string, Secret) gomap"
  img_Tags :: "(string, Tag) gomap"
  img_TagRanges :: "TagRange list"
  img_Variants :: "(string, ImageVariant) gomap"
  img_DependsOn :: "string list"
  img_Platforms :: "string list"
  img_LatestAlias :: "LatestAliasConfig option"
  img_ReportIcon :: string
  img_Labels :: Labels

record ContainerHiveProject =
  pr_RootDir :: string
  pr_ConfigFilePath :: string
  pr_Config :: HiveProjectConfig
  pr_ImagesByIdentifier :: "(string, Image) gomap"
  pr_ImagesByName :: "(string, Image list) gomap"

section \<open>Zero values\<close>

text \<open>The composite literals \<open>NixConfig{}\<close>, \<open>Image{}\<close>, ...: every field its zero value.\<close>

definition zero_NixConfig :: NixConfig where
  "zero_NixConfig = \<lparr>nix_BuilderImage = [], nix_ExtraArgs = [], nix_Parent = [], nix_StoreCache = None\<rparr>"

definition zero_ChiselConfig :: ChiselConfig where
  "zero_ChiselConfig = \<lparr>ch_BuilderImage = [], ch_ChiselVersion = [], ch_ExtraArgs = [],
     ch_Parent = [], ch_Cache = None\<rparr>"

definition zero_Tag :: Tag where
  "zero_Tag = \<lparr>tag_Name = [], tag_Versions = [], tag_BuildArgs = [], tag_Labels = [],
     tag_IsPrerelease = False, tag_GeneratedFrom = []\<rparr>"

definition zero_ImageVariant :: ImageVariant where
  "zero_ImageVariant = \<lparr>var_Name = [], var_BuildEntryPointPath = [], var_BuildBackend = [],
     var_Nix = None, var_Chisel = None, var_RunConfig = None, var_ReadmePath = [],
     var_RootDir = [], var_RootFSDir = [], var_TagSuffix = [], var_TestConfigFilePath = [],
     var_Versions = [], var_BuildArgs = [], var_Platforms = [], var_ReportIcon = [], var_Labels = []\<rparr>"

definition zero_Image :: Image where
  "zero_Image = \<lparr>img_Identifier = [], img_Name = [], img_Description = [], img_RootDir = [],
     img_RootFSDir = [], img_TestConfigFilePath = [], img_DefinitionFilePath = [],
     img_BuildEntryPointPath = [], img_BuildBackend = [], img_Nix = zero_NixConfig,
     img_Chisel = zero_ChiselConfig, img_RunConfig = None, img_ReadmePath = [], img_Versions = [],
     img_BuildArgs = [], img_Secrets = [], img_Tags = [], img_TagRanges = [], img_Variants = [],
     img_DependsOn = [], img_Platforms = [], img_LatestAlias = None, img_ReportIcon = [],
     img_Labels = []\<rparr>"

definition zero_HiveProjectConfig :: HiveProjectConfig where
  "zero_HiveProjectConfig = \<lparr>hc_BuildKitAddress = None, hc_Cache = None, hc_Registry = None,
     hc_Platforms = [], hc_TemplateOptions = [], hc_Labels = None, hc_Lint = None,
     hc_StyleSheet = [], hc_ChangeDetection = None, hc_CacheDir = [], hc_VersionCacheTTL = []\<rparr>"

definition project_of :: "(string, Image list) gomap \<Rightarrow> ContainerHiveProject" where
  "project_of byName = \<lparr>pr_RootDir = ''/p'', pr_ConfigFilePath = ''/p/hive.yml'',
     pr_Config = zero_HiveProjectConfig, pr_ImagesByIdentifier = [], pr_ImagesByName = byName\<rparr>"

end
