(* ===== verification/Image_Aliases.thy ===== *)
theory Image_Aliases
  imports Model Semantic_Tags
begin

text \<open>
  Alias resolution, \<open>pkg/rendering/main.go\<close> and \<open>image_aliases.go\<close>: which tag the series aliases
  (\<open>1.2\<close>, \<open>1\<close>) and the latest alias of an image point at.
\<close>

section \<open>The model\<close>

datatype AliasCandidate = AliasCandidate (ac_Name: string) (ac_IsPrerelease: bool)

datatype alias_error = NoSemanticTags string

definition candidatesFromTags :: "string list \<Rightarrow> AliasCandidate list" where
  "candidatesFromTags tags = map (\<lambda>tag. AliasCandidate tag False) tags"

definition AliasCandidatesFor :: "Image \<Rightarrow> AliasCandidate list" where
  "AliasCandidatesFor img =
     concat (map (\<lambda>tagName.
       let tag = mget_at (img_Tags img) tagName in
       AliasCandidate tagName (tag_IsPrerelease tag)
       # map (\<lambda>variantName.
            AliasCandidate (tagName @ var_TagSuffix (mget_at (img_Variants img) variantName))
              (tag_IsPrerelease tag))
          (sorted_keys (img_Variants img)))
     (sorted_keys (img_Tags img)))"

text \<open>The loop of \<open>ResolveLatestAliasFor\<close>, over \<open>highest\<close> and \<open>highestTag\<close>.\<close>

fun latest_loop ::
  "SemanticTagVersion option \<times> string \<Rightarrow> AliasCandidate list \<Rightarrow> SemanticTagVersion option \<times> string" where
  "latest_loop s [] = s"
| "latest_loop (highest, highestTag) (c # cs) =
     (if ac_IsPrerelease c then latest_loop (highest, highestTag) cs
      else case NewSemanticVersion (ac_Name c) of
        Inl _ \<Rightarrow> latest_loop (highest, highestTag) cs
      | Inr ver \<Rightarrow>
          if highest = None \<or> Greater ver (the highest)
          then latest_loop (Some ver, ac_Name c) cs
          else latest_loop (highest, highestTag) cs)"

definition ResolveLatestAliasFor :: "AliasCandidate list \<Rightarrow> string \<Rightarrow> alias_error + string" where
  "ResolveLatestAliasFor candidates latestAlias =
     (if latestAlias = [] then Inr []
      else let (_, highestTag) = latest_loop (None, []) candidates in
        if highestTag = [] then Inl (NoSemanticTags latestAlias) else Inr highestTag)"

definition ResolveLatestAlias :: "string list \<Rightarrow> string \<Rightarrow> alias_error + string" where
  "ResolveLatestAlias tags latestAlias = ResolveLatestAliasFor (candidatesFromTags tags) latestAlias"

text \<open>
  \<open>ResolveAliasesFor\<close> keeps two maps with the same keys, the alias's target and the version
  it was chosen for.
\<close>

type_synonym alias_state = "(string, string) gomap \<times> (string, SemanticTagVersion) gomap"

definition claim_alias :: "string \<Rightarrow> SemanticTagVersion \<Rightarrow> string \<Rightarrow> alias_state \<Rightarrow> alias_state" where
  "claim_alias name ver alias s =
     (let (aliases, versions) = s in
      case mget versions alias of
        None \<Rightarrow> (mput alias name aliases, mput alias ver versions)
      | Some existing \<Rightarrow>
          if Greater ver existing then (mput alias name aliases, mput alias ver versions) else s)"

definition alias_step :: "AliasCandidate \<Rightarrow> alias_state \<Rightarrow> alias_state" where
  "alias_step c s =
     (if ac_IsPrerelease c then s
      else case NewSemanticVersion (ac_Name c) of
        Inl _ \<Rightarrow> s
      | Inr ver \<Rightarrow> fold (claim_alias (ac_Name c) ver) (GetLowerVariants ver) s)"

definition ResolveAliasesFor :: "AliasCandidate list \<Rightarrow> (string, string) gomap" where
  "ResolveAliasesFor candidates = fst (fold alias_step candidates ([], []))"

definition ResolveAliases :: "string list \<Rightarrow> (string, string) gomap" where
  "ResolveAliases tags = ResolveAliasesFor (candidatesFromTags tags)"

definition ResolveImageAliases :: "Image \<Rightarrow> (string, string) gomap" where
  "ResolveImageAliases img = ResolveAliasesFor (AliasCandidatesFor img)"

definition baseAliasCandidates :: "Image \<Rightarrow> AliasCandidate list" where
  "baseAliasCandidates img =
     map (\<lambda>tagName. AliasCandidate tagName (tag_IsPrerelease (mget_at (img_Tags img) tagName)))
       (sorted_keys (img_Tags img))"

text \<open>What \<open>ResolveAllAliases\<close> does with one resolution, per \<open>on_missing\<close>.\<close>

definition record_latest ::
  "LatestAliasConfig \<Rightarrow> string \<Rightarrow> alias_error + string \<Rightarrow> (string, string) gomap
   \<Rightarrow> alias_error + (string, string) gomap" where
  "record_latest cfg suffix' target aliases =
     (case target of
        Inl err \<Rightarrow>
          if la_OnMissing cfg = ''silent'' then Inr aliases
          else if la_OnMissing cfg = ''warning'' then Inr aliases
          else Inl err
      | Inr t \<Rightarrow> Inr (mput (la_Tag cfg @ suffix') t aliases))"

definition variant_candidates :: "Image \<Rightarrow> ImageVariant \<Rightarrow> AliasCandidate list" where
  "variant_candidates img variantDef =
     map (\<lambda>tagName. AliasCandidate (tagName @ var_TagSuffix variantDef)
              (tag_IsPrerelease (mget_at (img_Tags img) tagName)))
       (sorted_keys (img_Tags img))"

definition ResolveAllAliases :: "Image \<Rightarrow> alias_error + (string, string) gomap" where
  "ResolveAllAliases img =
     (let aliases = ResolveImageAliases img in
      case img_LatestAlias img of
        None \<Rightarrow> Inr aliases
      | Some cfg \<Rightarrow>
          res_bind (record_latest cfg [] (ResolveLatestAliasFor (baseAliasCandidates img) (la_Tag cfg)) aliases)
            (\<lambda>aliases.
              res_fold (\<lambda>aliases variantName.
                  let variantDef = mget_at (img_Variants img) variantName in
                  record_latest cfg (var_TagSuffix variantDef)
                    (ResolveLatestAliasFor (variant_candidates img variantDef) (la_Tag cfg)) aliases)
                aliases (sorted_keys (img_Variants img))))"

section \<open>The latest alias is the highest version\<close>

definition eligible :: "AliasCandidate list \<Rightarrow> (SemanticTagVersion \<times> string) list" where
  "eligible cs = concat (map (\<lambda>c. if ac_IsPrerelease c then []
     else case NewSemanticVersion (ac_Name c) of Inl _ \<Rightarrow> [] | Inr v \<Rightarrow> [(v, ac_Name c)]) cs)"

lemma eligible_simps [simp]:
  "eligible [] = []"
  "eligible (c # cs) = (if ac_IsPrerelease c then []
     else case NewSemanticVersion (ac_Name c) of Inl _ \<Rightarrow> [] | Inr v \<Rightarrow> [(v, ac_Name c)]) @ eligible cs"
  by (simp_all add: eligible_def)

lemma set_eligible:
  "(v, n) \<in> set (eligible cs) \<longleftrightarrow>
     AliasCandidate n False \<in> set cs \<and> NewSemanticVersion n = Inr v"
proof (induction cs)
  case (Cons c cs)
  then show ?case by (cases c) (auto split: sum.splits)
qed simp

lemma latest_loop_highest:
  "latest_loop (hd', t) cs =
     (case highest_from Compare (map_option (\<lambda>v. (v, t)) hd') (eligible cs) of
        None \<Rightarrow> (None, t) | Some (v, n) \<Rightarrow> (Some v, n))"
proof (induction cs arbitrary: hd' t)
  case Nil
  then show ?case by (cases hd') simp_all
next
  case (Cons c cs)
  then show ?case
    by (cases hd') (auto simp: Greater_def highest_from_None_iff split: sum.splits option.split)
qed

lemma NewSemanticVersion_ne: "NewSemanticVersion n = Inr v \<Longrightarrow> n \<noteq> []"
  by (auto simp: NewSemanticVersion_def go_trim_space_def go_trim_left_def go_trim_right_def)

lemma ResolveLatestAliasFor_eq:
  "latestAlias \<noteq> [] \<Longrightarrow> ResolveLatestAliasFor cs latestAlias =
     (case highest_from Compare None (eligible cs) of
        None \<Rightarrow> Inl (NoSemanticTags latestAlias) | Some (v, n) \<Rightarrow> Inr n)"
  using set_eligible NewSemanticVersion_ne highest_from_mem[of Compare None "eligible cs"]
  by (fastforce simp: ResolveLatestAliasFor_def latest_loop_highest split: option.splits)

text \<open>
  The tag chosen is eligible, no eligible tag is higher, and the resolution fails exactly when
  no tag is eligible.
\<close>

lemma ResolveLatestAliasFor_max:
  assumes "latestAlias \<noteq> []" and "ResolveLatestAliasFor cs latestAlias = Inr n"
  shows "\<exists>v. (v, n) \<in> set (eligible cs) \<and> (\<forall>(w, m) \<in> set (eligible cs). \<not> Greater w v)"
proof -
  obtain v where h: "highest_from Compare None (eligible cs) = Some (v, n)"
    using assms by (auto simp: ResolveLatestAliasFor_eq split: option.splits)
  then have "(v, n) \<in> set (eligible cs)" using highest_from_mem[OF h] by simp
  moreover have "Compare w v \<le> 0" if "(w, m) \<in> set (eligible cs)" for w m
    using tag_order.highest_from_max[OF h, of w m] that by simp
  ultimately show ?thesis by (fastforce simp: Greater_def)
qed

lemma ResolveLatestAliasFor_error:
  assumes "latestAlias \<noteq> []"
  shows "ResolveLatestAliasFor cs latestAlias = Inl e \<longleftrightarrow>
    e = NoSemanticTags latestAlias \<and> eligible cs = []"
  using assms highest_from_None_iff[of Compare None "eligible cs"]
  by (auto simp: ResolveLatestAliasFor_eq split: option.split)

section \<open>Every series alias points at the highest version that claims it\<close>

definition claims :: "string \<Rightarrow> AliasCandidate list \<Rightarrow> (SemanticTagVersion \<times> string) list" where
  "claims a cs = concat (map (\<lambda>(v, n). map (\<lambda>_. (v, n)) (filter (\<lambda>b. b = a) (GetLowerVariants v)))
     (eligible cs))"

lemma set_claims: "(v, n) \<in> set (claims a cs) \<longleftrightarrow> (v, n) \<in> set (eligible cs) \<and> a \<in> set (GetLowerVariants v)"
  by (auto simp: claims_def)

definition view :: "alias_state \<Rightarrow> string \<Rightarrow> (SemanticTagVersion \<times> string) option" where
  "view s a = (case mget (snd s) a of None \<Rightarrow> None | Some v \<Rightarrow> map_option (Pair v) (mget (fst s) a))"

definition in_step :: "alias_state \<Rightarrow> bool" where
  "in_step s \<longleftrightarrow> dom (map_of (fst s)) = dom (map_of (snd s))"

lemma highest_from_append:
  "highest_from cmp best (xs @ ys) = highest_from cmp (highest_from cmp best xs) ys"
  by (induction cmp best xs rule: highest_from.induct) auto

lemma in_step_None: "in_step s \<Longrightarrow> mget (fst s) a = None \<longleftrightarrow> mget (snd s) a = None"
  unfolding in_step_def by (metis domIff)

lemma claim_alias_in_step: "in_step s \<Longrightarrow> in_step (claim_alias n v b s)"
  by (cases s) (simp add: claim_alias_def in_step_def split: option.split)

lemma view_claim_alias:
  assumes "in_step s"
  shows "view (claim_alias n v b s) a =
    (if b = a then highest_from Compare (view s a) [(v, n)] else view s a)"
  using in_step_None[OF assms, of a]
  by (cases s) (auto simp: claim_alias_def view_def Greater_def split: option.split)

lemma fold_claim_alias:
  "in_step s \<Longrightarrow> in_step (fold (claim_alias n v) bs s)
   \<and> view (fold (claim_alias n v) bs s) a =
     highest_from Compare (view s a) (map (\<lambda>_. (v, n)) (filter (\<lambda>b. b = a) bs))"
proof (induction bs arbitrary: s)
  case Nil
  then show ?case by simp
next
  case (Cons b bs)
  note IH = Cons.IH[OF claim_alias_in_step[OF Cons.prems], of n v b]
  show ?case
    using IH view_claim_alias[OF Cons.prems, of n v b a]
      highest_from_append[of Compare "view s a" "[(v, n)]" "map (\<lambda>_. (v, n)) (filter (\<lambda>b. b = a) bs)"]
    by (cases "b = a") (simp_all del: highest_from.simps)
qed

lemma fold_alias_step:
  "in_step s \<Longrightarrow> in_step (fold alias_step cs s)
   \<and> view (fold alias_step cs s) a = highest_from Compare (view s a) (claims a cs)"
proof (induction cs arbitrary: s)
  case Nil
  then show ?case by (simp add: claims_def)
next
  case (Cons c cs)
  have "in_step (alias_step c s)
    \<and> view (alias_step c s) a = highest_from Compare (view s a) (claims a [c])"
    using Cons.prems fold_claim_alias[OF Cons.prems]
    by (auto simp: alias_step_def claims_def split: sum.split)
  moreover have "claims a (c # cs) = claims a [c] @ claims a cs"
    by (simp add: claims_def)
  ultimately show ?case using Cons.IH by (simp add: highest_from_append)
qed

lemma ResolveAliasesFor_view:
  "mget (ResolveAliasesFor cs) a = map_option snd (highest_from Compare None (claims a cs))"
proof -
  define s where "s = fold alias_step cs ([], [])"
  have "in_step s" and v: "highest_from Compare None (claims a cs) = view s a"
    using fold_alias_step[of "([], [])" cs a] by (simp_all add: s_def in_step_def view_def)
  then show ?thesis
    unfolding v ResolveAliasesFor_def s_def[symmetric] using in_step_None[of s a]
    by (cases "mget (fst s) a"; cases "mget (snd s) a") (auto simp: view_def)
qed

section \<open>Properties\<close>


definition example_candidates :: "AliasCandidate list" where
  "example_candidates =
     [AliasCandidate ''1.2.3'' False, AliasCandidate ''1.10'' False, AliasCandidate ''edge'' False,
      AliasCandidate ''2.0'' True]"


text \<open>
  Series aliases: an alias is in the map exactly when some candidate that is not a prerelease
  has it among its coarser versions, and it then points at such a candidate with no greater
  version among those that claim the same alias.
\<close>

lemma series_alias_is_highest:
  assumes "AliasCandidate k False \<in> set cs" and "NewSemanticVersion k = Inr u"
    and "a \<in> set (GetLowerVariants u)"
  shows "\<exists>n v. mget (ResolveAliasesFor cs) a = Some n
     \<and> AliasCandidate n False \<in> set cs \<and> NewSemanticVersion n = Inr v
     \<and> a \<in> set (GetLowerVariants v)
     \<and> (\<forall>m w. AliasCandidate m False \<in> set cs \<and> NewSemanticVersion m = Inr w
           \<and> a \<in> set (GetLowerVariants w) \<longrightarrow> \<not> Greater w v)"
proof -
  have "(u, k) \<in> set (claims a cs)" using assms by (simp add: set_claims set_eligible)
  then have "claims a cs \<noteq> []" by auto
  then obtain v n where h: "highest_from Compare None (claims a cs) = Some (v, n)"
    using highest_from_None_iff[of Compare None "claims a cs"] by fastforce
  then have "(v, n) \<in> set (claims a cs)" using highest_from_mem[OF h] by simp
  moreover have "\<not> Greater w v" if "(w, m) \<in> set (claims a cs)" for w m
    using tag_order.highest_from_max[OF h, of w m] that by (simp add: Greater_def)
  ultimately show ?thesis
    using h by (auto simp: ResolveAliasesFor_view set_claims set_eligible)
qed

lemma series_alias_is_highest_witness:
  "\<exists>n v. mget (ResolveAliasesFor example_candidates) ''1'' = Some n
     \<and> AliasCandidate n False \<in> set example_candidates \<and> NewSemanticVersion n = Inr v
     \<and> ''1'' \<in> set (GetLowerVariants v)
     \<and> (\<forall>m w. AliasCandidate m False \<in> set example_candidates \<and> NewSemanticVersion m = Inr w
           \<and> ''1'' \<in> set (GetLowerVariants w) \<longrightarrow> \<not> Greater w v)"
proof -
  have v: "NewSemanticVersion ''1.10'' =
      Inr \<lparr>Prefix = [], Major = ''1'', Minor = ''10'', Patch = [], Build = [], Suffix = []\<rparr>"
    by code_simp
  have "AliasCandidate ''1.10'' False \<in> set example_candidates"
    by (simp add: example_candidates_def)
  from series_alias_is_highest[OF this v, of "''1''"] show ?thesis
    by (simp add: GetLowerVariants_def)
qed

text \<open>
  No alias without a claim: an alias the map holds is among the coarser versions of a
  candidate that is not a prerelease, and a prerelease never gets one.
\<close>

lemma series_alias_claimed:
  assumes "mget (ResolveAliasesFor cs) a = Some n"
  shows "\<exists>v. AliasCandidate n False \<in> set cs \<and> NewSemanticVersion n = Inr v
     \<and> a \<in> set (GetLowerVariants v)"
  using assms highest_from_mem[of Compare None "claims a cs"]
  by (fastforce simp: ResolveAliasesFor_view set_claims set_eligible)

lemma series_alias_claimed_witness:
  "\<exists>v. AliasCandidate ''1.10'' False \<in> set example_candidates
     \<and> NewSemanticVersion ''1.10'' = Inr v \<and> ''1'' \<in> set (GetLowerVariants v)"
proof (rule series_alias_claimed)
  show "mget (ResolveAliasesFor example_candidates) ''1'' = Some ''1.10''" by code_simp
qed

end
