(* ===== verification/Dep_Graph.thy ===== *)
theory Dep_Graph
  imports Go_Prelude "HOL-Library.Multiset"
begin

text \<open>
  \<open>internal/dependency/graph.go\<close>: the dependency graph of images and its build order by Kahn's
  algorithm.  The loop is the source's, over its maps \<open>inDegree\<close> and \<open>dependents\<close> and its
  sorted queue; a reference that repeatedly takes the least image whose dependencies are
  built is proved equal to it, whatever order the runtime iterates its maps in.
\<close>

section \<open>The model\<close>

record Graph =
  nodes :: "(string, bool) gomap"
  edges :: "(string, string list) gomap"

definition NewGraph :: Graph where
  "NewGraph = \<lparr>nodes = [], edges = []\<rparr>"

definition AddImage :: "string \<Rightarrow> Graph \<Rightarrow> Graph" where
  "AddImage name g = g\<lparr>nodes := mput name True (nodes g)\<rparr>"

definition AddDependency :: "string \<Rightarrow> string \<Rightarrow> Graph \<Rightarrow> Graph" where
  "AddDependency from' to g =
     (if to \<in> set (mget_or [] (edges g) from') then g
      else g\<lparr>edges := mput from' (mget_or [] (edges g) from' @ [to]) (edges g)\<rparr>)"

definition Nodes :: "Graph \<Rightarrow> string list" where
  "Nodes g = sort (mkeys (nodes g))"

definition Edges :: "Graph \<Rightarrow> (string, string list) gomap" where
  "Edges g = map (\<lambda>(from', deps). (from', sort deps)) (edges g)"

definition Dependencies :: "Graph \<Rightarrow> string \<Rightarrow> string list" where
  "Dependencies g name = mget_or [] (edges g) name"

definition Dependents :: "Graph \<Rightarrow> string \<Rightarrow> string list" where
  "Dependents g name = map fst (filter (\<lambda>(from', deps). name \<in> set deps) (edges g))"

definition HasDependencies :: "Graph \<Rightarrow> bool" where
  "HasDependencies g \<longleftrightarrow> list_ex (\<lambda>(from', deps). length deps > 0) (edges g)"

text \<open>The maps \<open>TopologicalSort\<close> computes first.\<close>

type_synonym degrees = "(string, int) gomap"
type_synonym adjacency = "(string, string list) gomap"

definition count_edges :: "Graph \<Rightarrow> degrees \<times> adjacency" where
  "count_edges g =
     (let inDegree = fold (\<lambda>node m. mput node 0 m) (mkeys (nodes g)) [] in
      fold (\<lambda>(from', deps) (inDegree, dependents).
          (mput from' (mget_or 0 inDegree from' + int (length deps)) inDegree,
           fold (\<lambda>to d. mput to (mget_or [] d to @ [from']) d) deps dependents))
        (edges g) (inDegree, []))"

text \<open>The body of the inner loop: one dependent of the node just taken.\<close>

definition release :: "string \<Rightarrow> degrees \<times> string list \<Rightarrow> degrees \<times> string list" where
  "release dependent s =
     (let (inDegree, queue) = s;
          inDegree = mput dependent (mget_or 0 inDegree dependent - 1) inDegree in
      if mget_or 0 inDegree dependent = 0 then (inDegree, sort (queue @ [dependent]))
      else (inDegree, queue))"

text \<open>
  Termination: an image enters the queue when its degree drops from 1 to 0, and degrees only
  drop, so the positive degrees and the queue together shrink with every image taken.
\<close>

definition pending :: "adjacency \<Rightarrow> degrees \<Rightarrow> nat" where
  "pending dependents inDegree =
     card {d \<in> set (concat (map snd dependents)). mget_or 0 inDegree d > 0}"

lemma release_pending:
  assumes "d \<in> set (concat (map snd dpt))"
  shows "pending dpt (fst (release d (ind, q))) + length (snd (release d (ind, q)))
    \<le> pending dpt ind + length q"
proof -
  let ?U = "set (concat (map snd dpt))"
  let ?ind = "mput d (mget_or 0 ind d - 1) ind"
  let ?P = "{e \<in> ?U. mget_or 0 ind e > 0}" and ?Q = "{e \<in> ?U. mget_or 0 ?ind e > 0}"
  have sub: "?Q \<subseteq> ?P" by auto
  show ?thesis
  proof (cases "mget_or 0 ind d = 1")
    case True
    then have "d \<in> ?P" and "d \<notin> ?Q" using assms by (simp_all del: set_concat)
    with sub have "?Q \<subset> ?P" by blast
    then have "card ?Q < card ?P" by (intro psubset_card_mono) simp_all
    with True show ?thesis by (simp add: release_def pending_def del: set_concat)
  next
    case False
    have "card ?Q \<le> card ?P" using sub by (intro card_mono) simp_all
    with False show ?thesis by (simp add: release_def pending_def del: set_concat)
  qed
qed

lemma fold_release_pending:
  "set ds \<subseteq> set (concat (map snd dpt)) \<Longrightarrow>
   pending dpt (fst (fold release ds (ind, q))) + length (snd (fold release ds (ind, q)))
    \<le> pending dpt ind + length q"
proof (induction ds arbitrary: ind q)
  case Nil
  then show ?case by simp
next
  case (Cons d ds)
  obtain ind' q' where r: "release d (ind, q) = (ind', q')" by fastforce
  show ?case
    using Cons.IH[of ind' q'] Cons.prems release_pending[of d dpt ind q] by (simp add: r)
qed

lemma mget_or_in_values: "set (mget_or [] dpt n) \<subseteq> set (concat (map snd dpt))"
proof (cases "mget dpt n")
  case (Some ds)
  then have "(n, ds) \<in> set dpt" by (rule map_of_SomeD)
  then show ?thesis by (auto simp: mget_or_def Some intro!: bexI[of _ "(n, ds)"])
qed (simp add: mget_or_def)

function kahn_loop :: "adjacency \<Rightarrow> degrees \<Rightarrow> string list \<Rightarrow> string list \<Rightarrow> string list" where
  "kahn_loop dependents inDegree [] order = order"
| "kahn_loop dependents inDegree (node # queue) order =
     (let (inDegree', queue') = fold release (mget_or [] dependents node) (inDegree, queue) in
      kahn_loop dependents inDegree' queue' (order @ [node]))"
  by pat_completeness auto
termination
proof (relation "measure (\<lambda>(dpt, ind, q, ord). pending dpt ind + length q)", goal_cases)
  case (2 dpt ind n q ord x ind' q')
  then have "fold release (mget_or [] dpt n) (ind, q) = (ind', q')" by simp
  then show ?case
    using fold_release_pending[OF mget_or_in_values, of dpt n ind q] by simp
qed simp

datatype sort_error = CycleDetected nat nat

definition TopologicalSort :: "Graph \<Rightarrow> sort_error + string list" where
  "TopologicalSort g =
     (let (inDegree, dependents) = count_edges g;
          queue = sort (filter (\<lambda>node. mget_or 0 inDegree node = 0) (mkeys (nodes g)));
          order = kahn_loop dependents inDegree queue [] in
      if length order \<noteq> length (nodes g) then Inl (CycleDetected (length order) (length (nodes g)))
      else Inr order)"

section \<open>Well-formed graphs\<close>

definition node_set :: "Graph \<Rightarrow> string set" where
  "node_set g = set (mkeys (nodes g))"

definition deps_of :: "Graph \<Rightarrow> string \<Rightarrow> string set" where
  "deps_of g n = set (mget_or [] (edges g) n)"

text \<open>
  What every builder of the package keeps: keys are distinct, no dependency is listed twice, and
  only registered images have dependencies.  A dependency itself need not be registered.
\<close>

definition wf_graph :: "Graph \<Rightarrow> bool" where
  "wf_graph g \<longleftrightarrow> wf_map (nodes g) \<and> wf_map (edges g)
     \<and> (\<forall>n. distinct (mget_or [] (edges g) n)) \<and> (\<forall>n. deps_of g n \<noteq> {} \<longrightarrow> n \<in> node_set g)"

lemma wf_NewGraph [simp]: "wf_graph NewGraph"
  by (simp add: wf_graph_def NewGraph_def deps_of_def)

lemma node_set_NewGraph [simp]: "node_set NewGraph = {}"
  by (simp add: node_set_def NewGraph_def mkeys_def)

lemma node_set_AddImage [simp]: "node_set (AddImage n g) = insert n (node_set g)"
  by (simp add: node_set_def AddImage_def)

lemma deps_of_AddImage [simp]: "deps_of (AddImage n g) m = deps_of g m"
  by (simp add: deps_of_def AddImage_def)

lemma node_set_AddDependency [simp]: "node_set (AddDependency a b g) = node_set g"
  by (simp add: node_set_def AddDependency_def)

lemma deps_of_AddDependency [simp]:
  "deps_of (AddDependency a b g) n = (if n = a then insert b (deps_of g n) else deps_of g n)"
  by (auto simp: deps_of_def AddDependency_def)

lemma deps_of_NewGraph [simp]: "deps_of NewGraph n = {}"
  by (simp add: deps_of_def NewGraph_def)

lemma wf_AddImage [simp, intro]: "wf_graph g \<Longrightarrow> wf_graph (AddImage n g)"
  unfolding wf_graph_def node_set_AddImage deps_of_AddImage by (auto simp: AddImage_def)

lemma wf_AddDependency [intro]: "wf_graph g \<Longrightarrow> a \<in> node_set g \<Longrightarrow> wf_graph (AddDependency a b g)"
  unfolding wf_graph_def node_set_AddDependency deps_of_AddDependency by (auto simp: AddDependency_def)

lemma finite_node_set [simp]: "finite (node_set g)"
  by (simp add: node_set_def)

lemma card_node_set: "wf_graph g \<Longrightarrow> card (node_set g) = length (nodes g)"
  by (metis distinct_card distinct_mkeys length_map mkeys_def node_set_def wf_graph_def)

lemma finite_deps_of [simp]: "finite (deps_of g n)"
  by (simp add: deps_of_def)

section \<open>The maps computed first\<close>

lemma fold_zero: "mget_or 0 (fold (\<lambda>node m. mput node (0::int) m) ns []) n = 0"
proof -
  have "\<forall>n. mget_or 0 (fold (\<lambda>node m. mput node (0::int) m) ns []) n = 0"
    by (rule fold_invariant) (simp_all add: mget_or_def)
  then show ?thesis by blast
qed

lemma fold_dependents:
  "distinct ds \<Longrightarrow>
   mget_or [] (fold (\<lambda>to d. mput to (mget_or [] d to @ [f]) d) ds dpt) n =
     mget_or [] dpt n @ (if n \<in> set ds then [f] else [])"
  by (induction ds arbitrary: dpt) auto

lemma count_edges_fold:
  assumes "wf_map es" and "\<forall>(f, ds) \<in> set es. distinct ds"
    and "fold (\<lambda>(f, deps) (ind, dpt). (mput f (mget_or 0 ind f + int (length deps)) ind,
        fold (\<lambda>to d. mput to (mget_or [] d to @ [f]) d) deps dpt)) es (ind, dpt) = (ind', dpt')"
  shows "mget_or 0 ind' n = mget_or 0 ind n + int (length (mget_or [] es n))
    \<and> mget_or [] dpt' n = mget_or [] dpt n @ map fst (filter (\<lambda>(f, ds). n \<in> set ds) es)"
  using assms
proof (induction es arbitrary: ind dpt)
  case Nil
  then show ?case by simp
next
  case (Cons e es)
  obtain f ds where e: "e = (f, ds)" by fastforce
  have wf: "wf_map es" and new: "f \<notin> set (map fst es)"
    using Cons.prems(1) by (simp_all add: e wf_map_def)
  have none: "mget_or [] es f = []"
    using new by (simp add: mget_or_def map_of_eq_None_iff[symmetric])
  have dist: "distinct ds" and rest: "\<forall>(f, ds) \<in> set es. distinct ds"
    using Cons.prems(2) by (simp_all add: e)
  have cons: "mget_or [] ((f, ds) # es) n = (if n = f then ds else mget_or [] es n)"
    by (simp add: mget_or_def)
  show ?case
    using Cons.IH[OF wf rest Cons.prems(3)[unfolded e fold_simps o_apply prod.case]] none
    unfolding e cons fold_dependents[OF dist] by auto
qed

lemma count_edges_values:
  assumes "wf_graph g" and "count_edges g = (ind, dpt)"
  shows "mget_or 0 ind n = int (card (deps_of g n))" and "mget_or [] dpt n = Dependents g n"
proof -
  have wf: "wf_map (edges g)" and dist: "distinct (mget_or [] (edges g) m)" for m
    using assms(1) by (simp_all add: wf_graph_def)
  have "distinct ds" if "(f, ds) \<in> set (edges g)" for f ds
    using dist[of f] wf_map_get[OF wf, of f ds] that by (simp add: mget_or_def)
  then have all: "\<forall>(f, ds) \<in> set (edges g). distinct ds" by blast
  note c = count_edges_fold[OF wf all assms(2)[unfolded count_edges_def Let_def], of n]
  show "mget_or 0 ind n = int (card (deps_of g n))"
    using c dist[of n] by (simp add: fold_zero deps_of_def distinct_card)
  show "mget_or [] dpt n = Dependents g n"
    using c by (simp add: Dependents_def)
qed

lemma set_Dependents: "wf_graph g \<Longrightarrow> set (Dependents g n) = {m. n \<in> deps_of g m}"
proof -
  assume "wf_graph g"
  then have wf: "wf_map (edges g)" by (simp add: wf_graph_def)
  show ?thesis
    by (force simp: Dependents_def deps_of_def mget_or_def wf_map_get[OF wf] image_iff
        split: option.splits)
qed

lemma distinct_Dependents: "wf_graph g \<Longrightarrow> distinct (Dependents g n)"
  by (simp add: Dependents_def wf_graph_def wf_map_def distinct_map_filter)

section \<open>The reference order\<close>

text \<open>The images that can be built next, once those in \<open>built\<close> are.\<close>

definition ready :: "Graph \<Rightarrow> string set \<Rightarrow> string set" where
  "ready g built = {n \<in> node_set g. n \<notin> built \<and> deps_of g n \<subseteq> built}"

text \<open>
  \<open>greedy g built order\<close>: starting from \<open>built\<close>, the list takes the least buildable image at
  every step and ends when there is none.
\<close>

fun greedy :: "Graph \<Rightarrow> string set \<Rightarrow> string list \<Rightarrow> bool" where
  "greedy g built [] \<longleftrightarrow> ready g built = {}"
| "greedy g built (n # ns) \<longleftrightarrow>
     ready g built \<noteq> {} \<and> n = Min (ready g built) \<and> greedy g (insert n built) ns"

lemma finite_ready [simp]: "finite (ready g built)"
  by (simp add: ready_def)

lemma greedy_unique: "greedy g built xs \<Longrightarrow> greedy g built ys \<Longrightarrow> xs = ys"
proof (induction xs arbitrary: built ys)
  case Nil
  then show ?case by (cases ys) auto
next
  case (Cons x xs)
  then show ?case by (cases ys) auto
qed

text \<open>A greedy order is a build order of the images it takes.\<close>

lemma greedy_props:
  "greedy g built order \<Longrightarrow> distinct order \<and> set order \<subseteq> node_set g - built
   \<and> (\<forall>i < length order. deps_of g (order ! i) \<subseteq> built \<union> set (take i order))"
proof (induction order arbitrary: built)
  case Nil
  then show ?case by simp
next
  case (Cons n ns)
  have "n \<in> ready g built" using Cons.prems Min_in[of "ready g built"] by auto
  moreover have "greedy g (insert n built) ns" using Cons.prems unfolding greedy.simps by blast
  note IH = Cons.IH[OF this]
  have "deps_of g ((n # ns) ! i) \<subseteq> built \<union> set (take i (n # ns))"
    if "i < length (n # ns)" for i
  proof (cases i)
    case 0
    then show ?thesis using \<open>n \<in> ready g built\<close> by (simp add: ready_def)
  next
    case (Suc j)
    then show ?thesis using IH that by auto
  qed
  ultimately show ?case using IH unfolding ready_def by auto
qed

lemma greedy_end: "greedy g built order \<Longrightarrow> ready g (built \<union> set order) = {}"
proof (induction order arbitrary: built)
  case Nil
  then show ?case by simp
next
  case (Cons n ns)
  have "greedy g (insert n built) ns" using Cons.prems unfolding greedy.simps by blast
  from Cons.IH[OF this] show ?case by simp
qed

section \<open>The loop computes the reference order\<close>

text \<open>The state at the head of the outer loop, once \<open>built\<close> has been emitted.\<close>

definition kahn_state :: "Graph \<Rightarrow> string set \<Rightarrow> degrees \<Rightarrow> string list \<Rightarrow> bool" where
  "kahn_state g built ind queue \<longleftrightarrow>
     (\<forall>n. mget_or 0 ind n = int (card (deps_of g n - built)))
     \<and> (\<forall>n \<in> built. deps_of g n \<subseteq> built)
     \<and> sorted queue \<and> distinct queue \<and> set queue = ready g built"

text \<open>The inner loop over distinct dependents decrements each and queues those that reach 0.\<close>

lemma fold_release:
  assumes "distinct ds" and "sorted q" and "fold release ds (ind, q) = (ind', q')"
  shows "(\<forall>n. mget_or 0 ind' n = mget_or 0 ind n - (if n \<in> set ds then 1 else 0))
    \<and> q' = sort (q @ filter (\<lambda>d. mget_or 0 ind d = 1) ds)"
  using assms
proof (induction ds arbitrary: ind q)
  case Nil
  then show ?case by (auto simp: sort_key_id_if_sorted)
next
  case (Cons d ds)
  obtain ind1 q1 where r: "release d (ind, q) = (ind1, q1)" by fastforce
  have i1: "mget_or 0 ind1 n = mget_or 0 ind n - (if n = d then 1 else 0)" for n
    using r by (auto simp: release_def Let_def split: if_splits)
  have q1: "q1 = sort (q @ (if mget_or 0 ind d = 1 then [d] else []))"
    using r Cons.prems(2) by (auto simp: release_def sort_key_id_if_sorted split: if_splits)
  have fl: "filter (\<lambda>e. mget_or 0 ind1 e = 1) ds = filter (\<lambda>e. mget_or 0 ind e = 1) ds"
    using Cons.prems(1) by (intro filter_cong) (auto simp: i1)
  have "q' = sort (q1 @ filter (\<lambda>e. mget_or 0 ind1 e = 1) ds)"
    using Cons.IH[of q1 ind1] Cons.prems r q1 by simp
  then have "q' = sort (q @ filter (\<lambda>d. mget_or 0 ind d = 1) (d # ds))"
    unfolding fl q1 by (auto intro: properties_for_sort)
  then show ?case
    using Cons.IH[of q1 ind1] Cons.prems r q1 i1 by auto
qed

lemma ready_insert:
  assumes "wf_graph g" and "n \<in> ready g built" and "\<forall>m \<in> built. deps_of g m \<subseteq> built"
  shows "ready g (insert n built) =
    (ready g built - {n}) \<union> {m. n \<in> deps_of g m \<and> card (deps_of g m - built) = 1}"
proof -
  have n: "n \<notin> built" "deps_of g n \<subseteq> built" using assms(2) by (auto simp: ready_def)
  have reg: "m \<in> node_set g" if "n \<in> deps_of g m" for m
    using assms(1) that by (auto simp: wf_graph_def)
  have one: "card (deps_of g m - built) = 1 \<longleftrightarrow> deps_of g m \<subseteq> insert n built"
    if "n \<in> deps_of g m" for m
  proof
    assume "card (deps_of g m - built) = 1"
    then obtain x where x: "deps_of g m - built = {x}" by (auto simp: card_1_singleton_iff)
    have "n \<in> deps_of g m - built" using that n(1) by simp
    then have "x = n" unfolding x by simp
    with x show "deps_of g m \<subseteq> insert n built" by blast
  next
    assume "deps_of g m \<subseteq> insert n built"
    then have "deps_of g m - built = {n}" using that n by blast
    then show "card (deps_of g m - built) = 1" by simp
  qed
  have "m \<in> ready g (insert n built) \<longleftrightarrow>
      m \<in> (ready g built - {n}) \<union> {m. n \<in> deps_of g m \<and> card (deps_of g m - built) = 1}" for m
  proof (cases "n \<in> deps_of g m")
    case True
    then have "m \<notin> built" "m \<noteq> n" using n assms(3) by blast+
    with True one[OF True] reg[OF True] n(1) show ?thesis by (auto simp: ready_def)
  next
    case False
    then show ?thesis by (auto simp: ready_def)
  qed
  then show ?thesis by blast
qed

lemma kahn_step:
  assumes "wf_graph g" and "kahn_state g built ind (n # q)"
    and "fold release (Dependents g n) (ind, q) = (ind', q')"
  shows "n = Min (ready g built)" and "kahn_state g (insert n built) ind' q'"
proof -
  have sq: "sorted (n # q)" "distinct (n # q)" and set: "set (n # q) = ready g built"
    and deg: "\<And>m. mget_or 0 ind m = int (card (deps_of g m - built))"
    and closed: "\<forall>m \<in> built. deps_of g m \<subseteq> built"
    using assms(2) by (simp_all add: kahn_state_def)
  show "n = Min (ready g built)"
    unfolding set[symmetric] using sq(1) by (auto intro!: Min_eqI[symmetric])
  have n: "n \<in> ready g built" using set by auto
  then have out: "n \<notin> built" by (simp add: ready_def)
  have sq': "sorted q" using sq by simp
  let ?new = "filter (\<lambda>d. mget_or 0 ind d = 1) (Dependents g n)"
  note f = fold_release[OF distinct_Dependents[OF assms(1)] sq' assms(3)]
  then have ind': "mget_or 0 ind' m = mget_or 0 ind m - (if m \<in> set (Dependents g n) then 1 else 0)" for m
    by blast
  have q': "q' = sort (q @ ?new)" using f by blast
  have "mget_or 0 ind m = 1 \<longleftrightarrow> card (deps_of g m - built) = 1" for m
    using deg[of m] by simp
  then have new: "set ?new = {m. n \<in> deps_of g m \<and> card (deps_of g m - built) = 1}"
    using set_Dependents[OF assms(1), of n] by simp
  have disj: "set q \<inter> set ?new = {}"
    using set unfolding new by (auto simp: ready_def)
  have "mget_or 0 ind' m = int (card (deps_of g m - insert n built))" for m
  proof (cases "n \<in> deps_of g m")
    case True
    then have eq: "deps_of g m - built = insert n (deps_of g m - insert n built)" using out by blast
    have "card (deps_of g m - built) = Suc (card (deps_of g m - insert n built))"
      unfolding eq by (rule card_insert_disjoint) simp_all
    with True show ?thesis by (simp add: ind' deg set_Dependents[OF assms(1)])
  next
    case False
    then have "deps_of g m - insert n built = deps_of g m - built" by blast
    with False show ?thesis by (simp add: ind' deg set_Dependents[OF assms(1)])
  qed
  moreover have "set q' = ready g (insert n built)"
    unfolding q' ready_insert[OF assms(1) n closed] new[symmetric] using set sq(2) by auto
  moreover have "distinct q'"
    using disj sq(2) distinct_Dependents[OF assms(1), of n] unfolding q' by auto
  moreover have "\<forall>m \<in> insert n built. deps_of g m \<subseteq> insert n built"
    using n closed by (auto simp: ready_def)
  ultimately show "kahn_state g (insert n built) ind' q'"
    by (simp add: kahn_state_def q')
qed

lemma kahn_loop_greedy:
  assumes "wf_graph g" and "\<And>n. mget_or [] dpt n = Dependents g n"
    and "kahn_state g (set order) ind queue"
  shows "\<exists>rest. kahn_loop dpt ind queue order = order @ rest \<and> greedy g (set order) rest"
  using assms
proof (induction dpt ind queue order rule: kahn_loop.induct)
  case (1 dpt ind order)
  then show ?case by (simp add: kahn_state_def)
next
  case (2 dpt ind n q order)
  obtain ind' q' where r: "fold release (mget_or [] dpt n) (ind, q) = (ind', q')" by fastforce
  note step = kahn_step[OF 2(2,4) r[unfolded 2(3)]]
  have "n \<in> ready g (set order)" using 2(4) by (auto simp: kahn_state_def)
  then have ne: "ready g (set order) \<noteq> {}" by blast
  obtain rest where "kahn_loop dpt ind' q' (order @ [n]) = (order @ [n]) @ rest"
    and "greedy g (set (order @ [n])) rest"
    using 2(1)[OF r[symmetric] refl 2(2) 2(3)] step(2) by auto
  then have "kahn_loop dpt ind (n # q) order = order @ n # rest"
    and "greedy g (insert n (set order)) rest"
    using r by simp_all
  then have "greedy g (set order) (n # rest)"
    using ne step(1) unfolding greedy.simps(2)[of g "set order" n rest] by blast
  with \<open>kahn_loop dpt ind (n # q) order = order @ n # rest\<close> show ?case by blast
qed

text \<open>The whole of \<open>TopologicalSort\<close> in terms of the reference.\<close>

lemma TopologicalSort_greedy:
  assumes "wf_graph g"
  obtains order where "greedy g {} order"
    and "TopologicalSort g = (if length order = card (node_set g) then Inr order
      else Inl (CycleDetected (length order) (card (node_set g))))"
proof -
  obtain ind dpt where c: "count_edges g = (ind, dpt)" by fastforce
  note v = count_edges_values[OF assms c]
  let ?q = "sort (filter (\<lambda>node. mget_or 0 ind node = 0) (mkeys (nodes g)))"
  have "set ?q = ready g {}"
    by (auto simp: ready_def node_set_def v(1))
  moreover have "distinct ?q"
    using assms by (simp add: wf_graph_def distinct_mkeys)
  ultimately have "kahn_state g (set []) ind ?q"
    by (simp add: kahn_state_def v(1))
  from kahn_loop_greedy[OF assms v(2) this]
  obtain order where order: "kahn_loop dpt ind ?q [] = order" "greedy g {} order" by auto
  show ?thesis
    by (rule that[OF order(2)])
       (simp add: TopologicalSort_def c order(1) card_node_set[OF assms])
qed

section \<open>When an order exists\<close>

definition registered :: "Graph \<Rightarrow> bool" where
  "registered g \<longleftrightarrow> (\<forall>n. deps_of g n \<subseteq> node_set g)"

definition dep_rel :: "Graph \<Rightarrow> (string \<times> string) set" where
  "dep_rel g = {(to, from'). to \<in> deps_of g from'}"

text \<open>A list that can be built from left to right, every image after its dependencies.\<close>

definition is_build_order :: "Graph \<Rightarrow> string list \<Rightarrow> bool" where
  "is_build_order g order \<longleftrightarrow> distinct order \<and> set order = node_set g
     \<and> (\<forall>i < length order. deps_of g (order ! i) \<subseteq> set (take i order))"

lemma greedy_is_build_order:
  assumes "greedy g {} order" and "length order = card (node_set g)"
  shows "is_build_order g order"
proof -
  have p: "distinct order" "set order \<subseteq> node_set g"
      "\<forall>i < length order. deps_of g (order ! i) \<subseteq> set (take i order)"
    using greedy_props[OF assms(1)] by auto
  have "set order = node_set g"
    using p(1,2) assms(2) by (intro card_subset_eq) (simp_all add: distinct_card)
  with p show ?thesis by (simp add: is_build_order_def)
qed

lemma acyclic_all_built:
  assumes "registered g" and "acyclic (dep_rel g)" and "wf_graph g" and "ready g built = {}"
  shows "node_set g \<subseteq> built"
proof (rule ccontr)
  assume "\<not> ?thesis"
  then have ne: "node_set g - built \<noteq> {}" by blast
  have "dep_rel g \<subseteq> node_set g \<times> node_set g"
    using assms(1,3) by (auto simp: dep_rel_def registered_def wf_graph_def)
  then have "finite (dep_rel g)" by (rule finite_subset) simp
  then have wf: "wf (dep_rel g)" using assms(2) by (rule finite_acyclic_wf)
  from ne obtain y where "y \<in> node_set g - built" by blast
  from wfE_min[OF wf this] obtain z where z: "z \<in> node_set g - built"
      and least: "\<And>y. (y, z) \<in> dep_rel g \<Longrightarrow> y \<notin> node_set g - built"
    by blast
  have "deps_of g z \<subseteq> built"
    using least assms(1) by (fastforce simp: dep_rel_def registered_def)
  with z have "z \<in> ready g built" by (simp add: ready_def)
  with assms(4) show False by simp
qed

lemma build_order_acyclic:
  assumes "is_build_order g order" and "wf_graph g"
  shows "registered g" and "acyclic (dep_rel g)"
proof -
  have d: "distinct order" and s: "set order = node_set g"
    and before: "\<And>i. i < length order \<Longrightarrow> deps_of g (order ! i) \<subseteq> set (take i order)"
    using assms(1) by (simp_all add: is_build_order_def)
  have none: "deps_of g n = {}" if "n \<notin> node_set g" for n
    using assms(2) that by (auto simp: wf_graph_def)
  show "registered g"
    unfolding registered_def
  proof
    fix n
    show "deps_of g n \<subseteq> node_set g"
    proof (cases "n \<in> node_set g")
      case True
      then obtain i where "i < length order" "n = order ! i" using s by (metis in_set_conv_nth)
      then show ?thesis using before[of i] s set_take_subset[of i order] by auto
    qed (simp add: none)
  qed
  define pos where "pos n = (THE i. i < length order \<and> order ! i = n)" for n
  have pos: "pos (order ! i) = i" if "i < length order" for i
    unfolding pos_def using that d by (auto simp: nth_eq_iff_index_eq)
  have "pos a < pos b" if "(a, b) \<in> dep_rel g" for a b
  proof -
    have ab: "a \<in> deps_of g b" using that by (simp add: dep_rel_def)
    then have "b \<in> node_set g" using none by blast
    then obtain i where i: "i < length order" "b = order ! i" using s by (metis in_set_conv_nth)
    then have "a \<in> set (take i order)" using before[of i] ab by blast
    then obtain j where "j < i" "order ! j = a"
      by (metis in_set_conv_nth length_take min_less_iff_conj nth_take)
    then show ?thesis using pos i by (metis less_trans)
  qed
  then have "dep_rel g \<subseteq> measure pos" by auto
  then have "wf (dep_rel g)" by (rule wf_subset[OF wf_measure])
  then show "acyclic (dep_rel g)" by (rule wf_acyclic)
qed

lemma TopologicalSort_Inr:
  assumes "wf_graph g" and "TopologicalSort g = Inr order"
  shows "greedy g {} order" and "is_build_order g order"
proof -
  from TopologicalSort_greedy[OF assms(1)] obtain ord where "greedy g {} ord"
    and "TopologicalSort g = (if length ord = card (node_set g) then Inr ord
      else Inl (CycleDetected (length ord) (card (node_set g))))" by blast
  moreover from this assms(2) have "ord = order" "length ord = card (node_set g)"
    by (auto split: if_splits)
  ultimately show "greedy g {} order" "is_build_order g order"
    using greedy_is_build_order by blast+
qed

section \<open>Properties\<close>

text \<open>C1. A build order returned by \<open>TopologicalSort\<close> lists every registered image exactly
  once, each after all the images it depends on; of all such lists it is the one that takes the
  alphabetically least buildable image at every step.\<close>

theorem topological_sort_order:
  assumes "wf_graph g" and "TopologicalSort g = Inr order"
  shows "distinct order \<and> set order = node_set g
    \<and> (\<forall>i < length order. deps_of g (order ! i) \<subseteq> set (take i order)
         \<and> order ! i = Min {n \<in> node_set g. n \<notin> set (take i order)
                              \<and> deps_of g n \<subseteq> set (take i order)})"
proof -
  have least: "order ! i = Min (ready g (built \<union> set (take i order)))"
    if "greedy g built order" "i < length order" for i built order
    using that
  proof (induction order arbitrary: built i)
    case (Cons n ns)
    have "greedy g (insert n built) ns" and n: "n = Min (ready g built)"
      using Cons.prems(1) unfolding greedy.simps by blast+
    from Cons.IH[OF this(1)] Cons.prems(2) n show ?case by (cases i) simp_all
  qed simp
  show ?thesis
    using TopologicalSort_Inr[OF assms] least[of "{}"]
    by (simp add: is_build_order_def ready_def)
qed

definition chain_graph :: Graph where
  "chain_graph = AddDependency ''a'' ''c'' (AddDependency ''b'' ''c''
     (AddImage ''c'' (AddImage ''b'' (AddImage ''a'' NewGraph))))"

lemma wf_chain_graph [simp]: "wf_graph chain_graph"
  unfolding chain_graph_def by (intro wf_AddDependency wf_AddImage wf_NewGraph) simp_all

lemma TopologicalSort_chain: "TopologicalSort chain_graph = Inr [''c'', ''a'', ''b'']"
  by code_simp

theorem topological_sort_order_witness:
  "distinct [''c'', ''a'', ''b''] \<and> set [''c'', ''a'', ''b''] = node_set chain_graph"
  using topological_sort_order[OF wf_chain_graph TopologicalSort_chain] by blast

text \<open>C2. \<open>TopologicalSort\<close> returns an order if and only if the dependencies have no cycle and
  every one of them is a registered image.\<close>

theorem topological_sort_exists:
  assumes "wf_graph g"
  shows "(\<exists>order. TopologicalSort g = Inr order) \<longleftrightarrow>
    acyclic {(to, from'). to \<in> deps_of g from'} \<and> (\<forall>n. deps_of g n \<subseteq> node_set g)"
proof
  assume "\<exists>order. TopologicalSort g = Inr order"
  then show "acyclic {(to, from'). to \<in> deps_of g from'} \<and> (\<forall>n. deps_of g n \<subseteq> node_set g)"
    using TopologicalSort_Inr[OF assms] build_order_acyclic[OF _ assms]
    unfolding dep_rel_def registered_def by blast
next
  assume "acyclic {(to, from'). to \<in> deps_of g from'} \<and> (\<forall>n. deps_of g n \<subseteq> node_set g)"
  then have reg: "registered g" and ac: "acyclic (dep_rel g)"
    by (simp_all add: dep_rel_def registered_def)
  from TopologicalSort_greedy[OF assms] obtain ord where ord: "greedy g {} ord"
    and t: "TopologicalSort g = (if length ord = card (node_set g) then Inr ord
      else Inl (CycleDetected (length ord) (card (node_set g))))" by blast
  have "node_set g \<subseteq> set ord"
    using acyclic_all_built[OF reg ac assms] greedy_end[OF ord] by simp
  then have "set ord = node_set g" using greedy_props[OF ord] by blast
  then have "length ord = card (node_set g)"
    using greedy_props[OF ord] distinct_card by metis
  with t show "\<exists>order. TopologicalSort g = Inr order" by simp
qed

theorem topological_sort_exists_witness:
  "acyclic {(to, from'). to \<in> deps_of chain_graph from'}"
  using topological_sort_exists[OF wf_chain_graph] TopologicalSort_chain by blast

text \<open>C12. The order (or the counts in the error) depends only on which images are registered
  and which depend on which: the iteration order of the Go maps and the order in which the
  dependencies were recorded have no influence.\<close>

theorem topological_sort_deterministic:
  assumes "wf_graph g" and "wf_graph h"
    and "node_set g = node_set h" and "\<And>n. deps_of g n = deps_of h n"
  shows "TopologicalSort g = TopologicalSort h"
proof -
  have "ready g = ready h" using assms(3,4) by (simp add: ready_def fun_eq_iff)
  then have same: "greedy g built xs \<longleftrightarrow> greedy h built xs" for built xs
    by (induction xs arbitrary: built) (simp_all only: greedy.simps)
  from TopologicalSort_greedy[OF assms(1)] obtain og where g: "greedy g {} og"
    "TopologicalSort g = (if length og = card (node_set g) then Inr og
      else Inl (CycleDetected (length og) (card (node_set g))))" by blast
  from TopologicalSort_greedy[OF assms(2)] obtain oh where h: "greedy h {} oh"
    "TopologicalSort h = (if length oh = card (node_set h) then Inr oh
      else Inl (CycleDetected (length oh) (card (node_set h))))" by blast
  have "og = oh" using g(1) h(1) greedy_unique same by blast
  with g(2) h(2) assms(3) show ?thesis by simp
qed

definition chain_graph' :: Graph where
  "chain_graph' = AddImage ''b'' (AddDependency ''a'' ''c''
     (AddImage ''a'' (AddDependency ''b'' ''c'' (AddImage ''b'' (AddImage ''c'' NewGraph)))))"

theorem topological_sort_deterministic_witness:
  "nodes chain_graph' \<noteq> nodes chain_graph \<and> TopologicalSort chain_graph = TopologicalSort chain_graph'"
proof
  show "nodes chain_graph' \<noteq> nodes chain_graph" by code_simp
  show "TopologicalSort chain_graph = TopologicalSort chain_graph'"
  proof (rule topological_sort_deterministic)
    show "wf_graph chain_graph'"
      unfolding chain_graph'_def by (intro wf_AddDependency wf_AddImage wf_NewGraph) simp_all
    show "node_set chain_graph = node_set chain_graph'"
      by (auto simp: chain_graph_def chain_graph'_def)
    show "deps_of chain_graph n = deps_of chain_graph' n" for n
      by (auto simp: chain_graph_def chain_graph'_def)
  qed (rule wf_chain_graph)
qed

text \<open>An image depending on a name that is not registered fails the sort with the same
  cycle error, although the dependencies have no cycle.\<close>

lemma missing_dependency_is_reported_as_cycle:
  "TopologicalSort (AddDependency ''a'' ''x'' (AddImage ''a'' NewGraph)) = Inl (CycleDetected 0 1)
   \<and> acyclic {(to, from'). to \<in> deps_of (AddDependency ''a'' ''x'' (AddImage ''a'' NewGraph)) from'}"
proof
  let ?g = "AddDependency ''a'' ''x'' (AddImage ''a'' NewGraph)"
  show "TopologicalSort ?g = Inl (CycleDetected 0 1)" by code_simp
  have "{(to, from'). to \<in> deps_of ?g from'} = {(''x'', ''a'')}" by (auto split: if_splits)
  then show "acyclic {(to, from'). to \<in> deps_of ?g from'}" by (simp add: acyclic_insert wf_acyclic)
qed

end
