(* ===== verification/Dep_Scan.thy ===== *)
theory Dep_Scan
  imports Dep_Graph Model Go_Regexp
begin

text \<open>
  Where the dependency graph comes from: \<open>internal/dependency/scanner.go\<close>, \<open>parent.go\<close>,
  \<open>resolve.go\<close> and \<open>variant_graph.go\<close>.  The file system is a parameter: what reading a file
  and listing a directory yield.  Loops over Go maps follow the order of the association list.
\<close>

section \<open>References in a Dockerfile\<close>

definition HivePrefix :: string where "HivePrefix = ''__hive__/''"

text \<open>\<open>(?i)^FROM\s+__hive__/([^:\s]+):([^\s]+)\<close>\<close>

definition is_name_char :: "char \<Rightarrow> bool" where
  "is_name_char x \<longleftrightarrow> x \<noteq> CHR '':'' \<and> \<not> is_rx_space x"

definition hiveFromPattern :: rx where
  "hiveFromPattern = rx_seqs
     [rx_begin, rx_lit_ci ''FROM'', rx_plus (RxChar is_rx_space), rx_lit_ci HivePrefix,
      RxGroup 1 (rx_plus (RxChar is_name_char)),
      RxChar (\<lambda>x. x = CHR '':''),
      RxGroup 2 (rx_plus (RxChar (\<lambda>x. \<not> is_rx_space x)))]"

text \<open>\<open>(?im)^\s*FROM\s+(?:--\S+\s+)*__hive_parent__(\s|$)\<close>\<close>

definition hiveParentFromPattern :: rx where
  "hiveParentFromPattern = rx_seqs
     [rx_begin_line, RxStar (RxChar is_rx_space), rx_lit_ci ''FROM'', rx_plus (RxChar is_rx_space),
      RxStar (rx_seqs [rx_lit ''--'', rx_plus (RxChar (\<lambda>x. \<not> is_rx_space x)),
                       rx_plus (RxChar is_rx_space)]),
      rx_lit_ci HiveParentPlaceholder,
      RxGroup 1 (RxAlt (RxChar is_rx_space) rx_end_line)]"

record HiveRef =
  ref_ImageName :: string
  ref_Tag :: string

record files =
  read_file :: "string \<Rightarrow> string option"
  stat_ok :: "string \<Rightarrow> bool"
  read_dir :: "string \<Rightarrow> (string \<times> bool) list option"

definition line_ref :: "string \<Rightarrow> HiveRef option" where
  "line_ref line = map_option (\<lambda>m. \<lparr>ref_ImageName = m 1, ref_Tag = m 2\<rparr>)
     (find_submatch hiveFromPattern (go_trim_space line))"

definition ScanDockerfileForHiveRefs :: "files \<Rightarrow> string \<Rightarrow> HiveRef list option" where
  "ScanDockerfileForHiveRefs fs dockerfilePath =
     map_option (\<lambda>content. List.map_filter line_ref (go_split newline content))
       (read_file fs dockerfilePath)"

definition usesHiveParent :: "files \<Rightarrow> string \<Rightarrow> bool" where
  "usesHiveParent fs dockerfilePath =
     (case read_file fs dockerfilePath of None \<Rightarrow> False
      | Some content \<Rightarrow> match_string hiveParentFromPattern content)"

section \<open>Backend parents (\<open>parent.go\<close>)\<close>

definition imageParentRef :: "Image \<Rightarrow> string" where
  "imageParentRef img =
     (if img_BuildBackend img = BuildBackendNix then nix_Parent (img_Nix img)
      else if img_BuildBackend img = BuildBackendChisel then ch_Parent (img_Chisel img)
      else [])"

definition variantParentRef :: "Image \<Rightarrow> ImageVariant \<Rightarrow> string" where
  "variantParentRef img variant =
     (let backend = (if var_BuildBackend variant = [] then img_BuildBackend img
                     else var_BuildBackend variant) in
      if backend = BuildBackendNix then
        (case var_Nix variant of Some c \<Rightarrow> nix_Parent c | None \<Rightarrow> nix_Parent (img_Nix img))
      else if backend = BuildBackendChisel then
        (case var_Chisel variant of Some c \<Rightarrow> ch_Parent c | None \<Rightarrow> ch_Parent (img_Chisel img))
      else [])"

definition backendParentRefs :: "Image \<Rightarrow> string list" where
  "backendParentRefs img =
     (let refs = (let parent = imageParentRef img in if parent \<noteq> [] then [parent] else []) in
      fold (\<lambda>(_, variant) refs.
          let parent = variantParentRef img variant in
          if parent \<noteq> [] then refs @ [parent] else refs)
        (img_Variants img) refs)"

section \<open>Scanning the project source (\<open>scanner.go\<close>)\<close>

definition scanEntryPoint :: "files \<Rightarrow> string \<Rightarrow> string \<Rightarrow> Graph \<Rightarrow> Graph" where
  "scanEntryPoint fs imageName entryPointPath graph =
     (if entryPointPath = [] then graph
      else case ScanDockerfileForHiveRefs fs entryPointPath of
        None \<Rightarrow> graph
      | Some refs \<Rightarrow>
          fold (\<lambda>ref graph. if ref_ImageName ref \<noteq> imageName
                            then AddDependency imageName (ref_ImageName ref) graph else graph)
            refs graph)"

definition has_node :: "Graph \<Rightarrow> string \<Rightarrow> bool" where
  "has_node graph name = mget_or False (nodes graph) name"

definition dependOnBackendParent :: "string \<Rightarrow> string \<Rightarrow> Graph \<Rightarrow> Graph" where
  "dependOnBackendParent from' parent graph =
     (if parent = [] \<or> parent = HiveParentPlaceholder \<or> \<not> go_has_prefix parent HivePrefix then graph
      else let rest = go_trim_prefix parent HivePrefix in
      case go_last_index_byte rest (CHR '':'') of
        None \<Rightarrow> graph
      | Some idx \<Rightarrow>
          if idx < 1 then graph
          else let name = take idx rest in
            if \<not> has_node graph name \<or> name = from' then graph else AddDependency from' name graph)"

definition ScanProjectSource :: "files \<Rightarrow> ContainerHiveProject \<Rightarrow> Graph" where
  "ScanProjectSource fs project =
     (let graph = fold AddImage (mkeys (pr_ImagesByName project)) NewGraph;
          graph = fold (\<lambda>(name, images). fold (\<lambda>img graph.
              fold (\<lambda>(_, variant). scanEntryPoint fs name (var_BuildEntryPointPath variant))
                (img_Variants img)
                (scanEntryPoint fs name (img_BuildEntryPointPath img) graph)) images)
            (pr_ImagesByName project) graph in
      fold (\<lambda>(name, images). fold (\<lambda>img.
          fold (dependOnBackendParent name) (backendParentRefs img)) images)
        (pr_ImagesByName project) graph)"

text \<open>\<open>ScanRenderedProject\<close> walks \<open>dist/<image>/<tag>/Dockerfile\<close>; \<open>/\<close> joins paths.\<close>

datatype scan_error = ReadDist | ReadImageDir string | ScanFile string

definition path_join2 :: "string \<Rightarrow> string \<Rightarrow> string" where
  "path_join2 a b = a @ ''/'' @ b"

definition scan_rendered_file :: "files \<Rightarrow> string \<Rightarrow> string \<Rightarrow> Graph \<Rightarrow> scan_error + Graph" where
  "scan_rendered_file fs imageName dfPath graph =
     (if \<not> stat_ok fs dfPath then Inr graph
      else case ScanDockerfileForHiveRefs fs dfPath of
        None \<Rightarrow> Inl (ScanFile dfPath)
      | Some refs \<Rightarrow>
          Inr (fold (\<lambda>ref graph. if ref_ImageName ref \<noteq> imageName
                                then AddDependency imageName (ref_ImageName ref) graph else graph)
                 refs graph))"

definition scan_rendered_tag ::
  "files \<Rightarrow> string \<Rightarrow> string \<Rightarrow> Graph \<Rightarrow> string \<times> bool \<Rightarrow> scan_error + Graph" where
  "scan_rendered_tag fs imageName imageDir graph tagEntry =
     (let (tagName, isDir) = tagEntry in
      if \<not> isDir then Inr graph
      else let tagDir = path_join2 imageDir tagName in
        res_fold (\<lambda>graph dfName. scan_rendered_file fs imageName (path_join2 tagDir dfName) graph)
          graph [''Dockerfile'', ''Dockerfile.gotpl''])"

definition scan_rendered_image :: "files \<Rightarrow> string \<Rightarrow> string \<times> bool \<Rightarrow> Graph \<Rightarrow> scan_error + Graph" where
  "scan_rendered_image fs distPath entry graph =
     (let (imageName, isDir) = entry in
      if \<not> isDir \<or> go_has_prefix imageName ''.'' then Inr graph
      else let imageDir = path_join2 distPath imageName in
      case read_dir fs imageDir of
        None \<Rightarrow> Inl (ReadImageDir imageName)
      | Some tagEntries \<Rightarrow>
          res_fold (scan_rendered_tag fs imageName imageDir) graph tagEntries)"

definition ScanRenderedProject :: "files \<Rightarrow> string \<Rightarrow> scan_error + Graph" where
  "ScanRenderedProject fs distPath =
     (case read_dir fs distPath of
        None \<Rightarrow> Inl ReadDist
      | Some entries \<Rightarrow>
          let graph = fold (\<lambda>(name, isDir) graph.
              if \<not> isDir \<or> go_has_prefix name ''.'' then graph else AddImage name graph) entries NewGraph in
          res_fold (\<lambda>graph entry. scan_rendered_image fs distPath entry graph) graph entries)"

section \<open>Merging with the declared dependencies (\<open>resolve.go\<close>)\<close>

datatype resolve_error =
    UnknownDependsOn string string | BadParent string string | UnknownParent string string

abbreviation known :: "ContainerHiveProject \<Rightarrow> string \<Rightarrow> bool" where
  "known project name \<equiv> mget (pr_ImagesByName project) name \<noteq> None"

definition split_parent :: "string \<Rightarrow> string \<times> string" where
  "split_parent parent =
     (let rest = go_trim_prefix parent HivePrefix in
      if rest \<noteq> [] then
        (case go_last_index_byte rest (CHR '':'') of
           None \<Rightarrow> (parent, [])
         | Some idx \<Rightarrow> (take idx rest, drop (Suc idx) rest))
      else (parent, []))"

definition addParentDependency ::
  "ContainerHiveProject \<Rightarrow> string \<Rightarrow> string \<Rightarrow> Graph \<Rightarrow> resolve_error + Graph" where
  "addParentDependency project from' parent graph =
     (if parent = [] \<or> parent = HiveParentPlaceholder then Inr graph
      else if \<not> go_has_prefix parent HivePrefix then Inr graph
      else let (name, tag) = split_parent parent in
      if name = [] \<or> tag = [] then Inl (BadParent from' parent)
      else if \<not> known project name then Inl (UnknownParent from' parent)
      else Inr (if name \<noteq> from' then AddDependency from' name graph else graph))"

definition merge_image :: "ContainerHiveProject \<Rightarrow> string \<Rightarrow> Graph \<Rightarrow> Image \<Rightarrow> resolve_error + Graph" where
  "merge_image project name graph img =
     res_bind
       (res_fold (\<lambda>graph dep.
            if \<not> known project dep then Inl (UnknownDependsOn name dep)
            else Inr (AddDependency name dep graph)) graph (img_DependsOn img))
       (\<lambda>graph. res_fold (\<lambda>graph parent. addParentDependency project name parent graph)
                  graph (backendParentRefs img))"

definition copy_graph :: "Graph \<Rightarrow> Graph" where
  "copy_graph scanned =
     fold (\<lambda>(from', deps). fold (AddDependency from') deps) (edges scanned)
       (fold AddImage (mkeys (nodes scanned)) NewGraph)"

definition BuildDependencyGraph :: "Graph \<Rightarrow> ContainerHiveProject \<Rightarrow> resolve_error + Graph" where
  "BuildDependencyGraph scanned project =
     res_fold (\<lambda>graph (name, images). res_fold (merge_image project name) (AddImage name graph) images)
       (copy_graph scanned) (pr_ImagesByName project)"

section \<open>The reference pattern as a scan\<close>

fun scan_tag :: "string \<Rightarrow> string \<Rightarrow> HiveRef option" where
  "scan_tag name (x # r) =
     (if x = CHR '':'' \<and> takeWhile (\<lambda>x. \<not> is_rx_space x) r \<noteq> []
      then Some \<lparr>ref_ImageName = name, ref_Tag = takeWhile (\<lambda>x. \<not> is_rx_space x) r\<rparr> else None)"
| "scan_tag name [] = None"

definition scan_name :: "string \<Rightarrow> HiveRef option" where
  "scan_name r =
     (let name = takeWhile is_name_char r in
      if name = [] then None else scan_tag name (drop (length name) r))"

definition scan_line :: "string \<Rightarrow> HiveRef option" where
  "scan_line s =
     (if \<not> ci_prefix ''FROM'' s then None
      else let r = drop 4 s; r' = dropWhile is_rx_space r in
      if r = r' \<or> \<not> ci_prefix HivePrefix r' then None else scan_name (drop 9 r'))"

lemma dropWhile_eq_self_Cons: "x # s = dropWhile P (x # s) \<longleftrightarrow> \<not> P x"
proof
  assume eq: "x # s = dropWhile P (x # s)"
  show "\<not> P x"
  proof
    assume "P x"
    then have "length (dropWhile P (x # s)) \<le> length s" by (simp add: length_dropWhile_le)
    with eq show False by (metis Suc_n_not_le_n length_Cons)
  qed
qed simp

lemma colon_not_space [simp]: "\<not> is_rx_space CHR '':''"
  by (simp add: is_rx_space_def)

lemma go_lower_space: "is_rx_space x \<Longrightarrow> go_lower_byte x = x"
  by (auto simp: is_rx_space_def go_lower_byte_def is_upper_def)

lemma blocks_prefix:
  "blocks (\<lambda>q c'. if ci_prefix HivePrefix (snd q) then K q c' else None) is_rx_space"
  by (auto simp: blocks_def HivePrefix_def is_rx_space_def go_lower_byte_def is_upper_def)

lemma find_hiveFromPattern:
  "map_option (\<lambda>m. \<lparr>ref_ImageName = m 1, ref_Tag = m 2\<rparr>) (find_submatch hiveFromPattern s) = scan_line s"
proof -
  define k3 :: "rx_pos \<Rightarrow> rx_caps \<Rightarrow> rx_caps option" where
    "k3 = (\<lambda>q c'. rx_match (RxGroup 2 (rx_plus (RxChar (\<lambda>x. \<not> is_rx_space x)))) q c' (\<lambda>q c. Some c))"
  define k2 where "k2 = (\<lambda>q c'. rx_match (RxChar (\<lambda>x. x = CHR '':'')) q c' k3)"
  define k1 where "k1 = (\<lambda>q c'. rx_match (RxGroup 1 (rx_plus (RxChar is_name_char))) q c' k2)"
  have b2: "blocks (\<lambda>q c'. k2 q (F q c')) is_name_char" for F
    by (simp add: blocks_def k2_def is_name_char_def)
  have tag: "map_option (\<lambda>m. \<lparr>ref_ImageName = m 1, ref_Tag = m 2\<rparr>) (k2 q (c(1 := name))) =
      scan_tag name (snd q)" for q c name
  proof (cases "snd q")
    case (Cons x r)
    then show ?thesis
      by (cases r) (auto simp: k2_def k3_def rx_match_plus_accept take_diff_dropWhile Suc_diff_le
          length_dropWhile_le)
  qed (simp add: k2_def)
  have name: "map_option (\<lambda>m. \<lparr>ref_ImageName = m 1, ref_Tag = m 2\<rparr>) (k1 q c) = scan_name (snd q)"
    for q c
  proof (cases "snd q")
    case (Cons x r)
    have "drop (length (takeWhile is_name_char (x # r))) (x # r) = dropWhile is_name_char (x # r)"
      by (simp add: dropWhile_eq_drop)
    moreover have "take (length (x # r) - length (dropWhile is_name_char (x # r))) (x # r) = takeWhile is_name_char (x # r)"
      by (rule take_diff_dropWhile)
    ultimately show ?thesis
      using tag[of "rx_adv is_name_char q" c "takeWhile is_name_char (x # r)"] Cons
      by (simp add: k1_def rx_match_plus_class[OF b2] scan_name_def split: if_splits)
  qed (simp add: k1_def rx_match_plus_class[OF b2] scan_name_def)
  have len: "length ''FROM'' = 4" "length HivePrefix = 9" by (simp_all add: HivePrefix_def)
  have "find_submatch hiveFromPattern s =
    rx_match (rx_lit_ci ''FROM'') (None, s) (\<lambda>_. []) (\<lambda>q c. rx_match (rx_plus (RxChar is_rx_space)) q c
      (\<lambda>q c. rx_match (rx_lit_ci HivePrefix) q c k1))"
    unfolding hiveFromPattern_def rx_seqs.simps find_submatch_anchored
    by (simp add: k1_def k2_def k3_def)
  then have fm: "find_submatch hiveFromPattern s =
    (if \<not> ci_prefix ''FROM'' s then None
     else case drop 4 s of [] \<Rightarrow> None | x # _ \<Rightarrow>
       if \<not> is_rx_space x \<or> \<not> ci_prefix HivePrefix (dropWhile is_rx_space (drop 4 s)) then None
       else k1 (rx_skip 9 (rx_adv is_rx_space (rx_skip 4 (None, s)))) (\<lambda>_. []))"
    unfolding rx_match_lit_ci rx_match_plus_class[OF blocks_prefix] len
    unfolding snd_rx_skip snd_rx_adv snd_conv
    by (cases "ci_prefix ''FROM'' s"; cases "drop 4 s";
        cases "ci_prefix HivePrefix (dropWhile is_rx_space (drop 4 s))") (simp_all only: if_True if_False
        list.case simp_thms split: if_split, auto)
  show ?thesis
  proof (cases "drop 4 s")
    case Nil
    then show ?thesis unfolding fm scan_line_def Let_def by (simp only: Nil) simp
  next
    case (Cons x r)
    show ?thesis
      unfolding fm scan_line_def Let_def Cons list.case dropWhile_eq_self_Cons
      using name[of "rx_skip 9 (rx_adv is_rx_space (rx_skip 4 (None, s)))" "\<lambda>_. []"]
      unfolding snd_rx_skip snd_rx_adv snd_conv Cons by simp
  qed
qed

lemma line_ref_scan: "line_ref line = scan_line (go_trim_space line)"
  unfolding line_ref_def by (rule find_hiveFromPattern)

text \<open>What the scan accepts.\<close>

lemma takeWhile_unique:
  "list_all P a \<Longrightarrow> b = [] \<or> \<not> P (hd b) \<Longrightarrow> takeWhile P (a @ b) = a \<and> dropWhile P (a @ b) = b"
  by (cases b) (auto simp: takeWhile_append dropWhile_append list_all_iff takeWhile_eq_all_conv)

lemma scan_tag_iff:
  "scan_tag name r = Some ref \<longleftrightarrow> ref_ImageName ref = name \<and> ref_Tag ref \<noteq> []
    \<and> (\<exists>rest. r = CHR '':'' # ref_Tag ref @ rest \<and> list_all (\<lambda>x. \<not> is_rx_space x) (ref_Tag ref)
         \<and> (rest = [] \<or> is_rx_space (hd rest)))"
proof (cases r)
  case (Cons x s)
  let ?t = "takeWhile (\<lambda>x. \<not> is_rx_space x) s" and ?d = "dropWhile (\<lambda>x. \<not> is_rx_space x) s"
  have d: "?d = [] \<or> is_rx_space (hd ?d)" using hd_dropWhile by blast
  have all: "list_all (\<lambda>x. \<not> is_rx_space x) ?t" by (auto simp: list_all_iff dest: set_takeWhileD)
  have uniq: "t = ?t" if "s = t @ rest" "list_all (\<lambda>x. \<not> is_rx_space x) t"
      "rest = [] \<or> is_rx_space (hd rest)" for t rest
    using takeWhile_unique[OF that(2), of rest] that(1,3) by simp
  show ?thesis
  proof
    assume "scan_tag name r = Some ref"
    then have "x = CHR '':''" "ref = \<lparr>ref_ImageName = name, ref_Tag = ?t\<rparr>" "?t \<noteq> []"
      by (auto simp: Cons split: if_splits)
    then show "ref_ImageName ref = name \<and> ref_Tag ref \<noteq> [] \<and> (\<exists>rest. r = CHR '':'' # ref_Tag ref @ rest
        \<and> list_all (\<lambda>x. \<not> is_rx_space x) (ref_Tag ref) \<and> (rest = [] \<or> is_rx_space (hd rest)))"
      using d all by (intro conjI exI[of _ ?d]) (simp_all add: Cons)
  next
    assume "ref_ImageName ref = name \<and> ref_Tag ref \<noteq> [] \<and> (\<exists>rest. r = CHR '':'' # ref_Tag ref @ rest
        \<and> list_all (\<lambda>x. \<not> is_rx_space x) (ref_Tag ref) \<and> (rest = [] \<or> is_rx_space (hd rest)))"
    then obtain rest where n: "ref_ImageName ref = name" "ref_Tag ref \<noteq> []"
      and r: "x = CHR '':''" "s = ref_Tag ref @ rest" "list_all (\<lambda>x. \<not> is_rx_space x) (ref_Tag ref)"
        "rest = [] \<or> is_rx_space (hd rest)"
      by (auto simp: Cons)
    have "ref_Tag ref = ?t" by (rule uniq[OF r(2-4)])
    then show "scan_tag name r = Some ref" using n r(1) by (cases ref) (simp add: Cons)
  qed
qed simp

lemma scan_name_iff:
  "scan_name r = Some ref \<longleftrightarrow> ref_ImageName ref \<noteq> [] \<and> ref_Tag ref \<noteq> []
    \<and> (\<exists>rest. r = ref_ImageName ref @ CHR '':'' # ref_Tag ref @ rest
         \<and> list_all is_name_char (ref_ImageName ref)
         \<and> list_all (\<lambda>x. \<not> is_rx_space x) (ref_Tag ref)
         \<and> (rest = [] \<or> is_rx_space (hd rest)))"
proof -
  have n: "scan_name r = (if takeWhile is_name_char r = [] then None else scan_tag (takeWhile is_name_char r) (dropWhile is_name_char r))"
    by (simp add: scan_name_def Let_def dropWhile_eq_drop)
  have all: "list_all is_name_char (takeWhile is_name_char r)"
    by (auto simp: list_all_iff dest: set_takeWhileD)
  show ?thesis
  proof
    assume "scan_name r = Some ref"
    then have "scan_tag (takeWhile is_name_char r) (dropWhile is_name_char r) = Some ref" "takeWhile is_name_char r \<noteq> []"
      by (simp_all add: n split: if_splits)
    then show "ref_ImageName ref \<noteq> [] \<and> ref_Tag ref \<noteq> []
      \<and> (\<exists>rest. r = ref_ImageName ref @ CHR '':'' # ref_Tag ref @ rest
         \<and> list_all is_name_char (ref_ImageName ref)
         \<and> list_all (\<lambda>x. \<not> is_rx_space x) (ref_Tag ref) \<and> (rest = [] \<or> is_rx_space (hd rest)))"
      using all takeWhile_dropWhile_id[of is_name_char r] unfolding scan_tag_iff by metis
  next
    assume "ref_ImageName ref \<noteq> [] \<and> ref_Tag ref \<noteq> []
      \<and> (\<exists>rest. r = ref_ImageName ref @ CHR '':'' # ref_Tag ref @ rest
         \<and> list_all is_name_char (ref_ImageName ref)
         \<and> list_all (\<lambda>x. \<not> is_rx_space x) (ref_Tag ref) \<and> (rest = [] \<or> is_rx_space (hd rest)))"
    then obtain rest where r: "r = ref_ImageName ref @ CHR '':'' # ref_Tag ref @ rest"
      and ne: "ref_ImageName ref \<noteq> []" "ref_Tag ref \<noteq> []"
      and N: "list_all is_name_char (ref_ImageName ref)"
      and T: "list_all (\<lambda>x. \<not> is_rx_space x) (ref_Tag ref)" "rest = [] \<or> is_rx_space (hd rest)"
      by auto
    have "takeWhile is_name_char r = ref_ImageName ref" "dropWhile is_name_char r = CHR '':'' # ref_Tag ref @ rest"
      using takeWhile_unique[OF N, of "CHR '':'' # ref_Tag ref @ rest"] by (simp_all add: r is_name_char_def)
    then show "scan_name r = Some ref"
      using ne T unfolding n by (simp only: scan_tag_iff if_False) blast
  qed
qed

lemma ci_prefix_drop:
  "ci_prefix s t \<longleftrightarrow> (\<exists>a. t = a @ drop (length s) t \<and> map go_lower_byte a = map go_lower_byte s)"
proof
  assume "ci_prefix s t"
  then obtain a b where t: "t = a @ b" "map go_lower_byte a = map go_lower_byte s"
    by (auto simp: ci_prefix_iff)
  then have "length a = length s" by (metis length_map)
  with t show "\<exists>a. t = a @ drop (length s) t \<and> map go_lower_byte a = map go_lower_byte s" by auto
next
  assume "\<exists>a. t = a @ drop (length s) t \<and> map go_lower_byte a = map go_lower_byte s"
  then show "ci_prefix s t" unfolding ci_prefix_iff by metis
qed

lemma scan_line_parts:
  "scan_line s = Some ref \<longleftrightarrow> ci_prefix ''FROM'' s \<and> drop 4 s \<noteq> dropWhile is_rx_space (drop 4 s)
    \<and> ci_prefix HivePrefix (dropWhile is_rx_space (drop 4 s))
    \<and> scan_name (drop 9 (dropWhile is_rx_space (drop 4 s))) = Some ref"
proof -
  have "(if \<not> a then None else if b \<or> \<not> c then None else x) = Some ref
      \<longleftrightarrow> a \<and> \<not> b \<and> c \<and> x = Some ref" for a b c x by simp
  then show ?thesis unfolding scan_line_def Let_def .
qed

lemma scan_line_iff:
  "scan_line s = Some ref \<longleftrightarrow> ref_ImageName ref \<noteq> [] \<and> ref_Tag ref \<noteq> []
    \<and> list_all is_name_char (ref_ImageName ref) \<and> list_all (\<lambda>x. \<not> is_rx_space x) (ref_Tag ref)
    \<and> (\<exists>from' space hive rest.
         s = from' @ space @ hive @ ref_ImageName ref @ '':'' @ ref_Tag ref @ rest
         \<and> map go_lower_byte from' = ''from'' \<and> space \<noteq> [] \<and> list_all is_rx_space space
         \<and> map go_lower_byte hive = ''__hive__/'' \<and> (rest = [] \<or> is_rx_space (hd rest)))"
  (is "?L = ?R")
proof -
  have low: "map go_lower_byte ''FROM'' = ''from''" "map go_lower_byte HivePrefix = ''__hive__/''"
    by (code_simp, simp add: HivePrefix_def, code_simp)
  have len: "length ''FROM'' = 4" "length HivePrefix = 9" by (simp_all add: HivePrefix_def)
  note cp = ci_prefix_drop[of "''FROM''", unfolded low len] ci_prefix_drop[of HivePrefix, unfolded low len]
  show ?thesis
  proof
    assume L: ?L
    let ?r = "drop 4 s" and ?r' = "dropWhile is_rx_space (drop 4 s)"
    from L have f: "ci_prefix ''FROM'' s" and h: "?r \<noteq> ?r'" "ci_prefix HivePrefix ?r'"
      and n: "scan_name (drop 9 ?r') = Some ref" unfolding scan_line_parts by blast+
    from iffD1[OF cp(1) f] obtain a where a: "s = a @ ?r" "map go_lower_byte a = ''from''"
      by (elim exE conjE)
    from iffD1[OF cp(2) h(2)] obtain b where b: "?r' = b @ drop 9 ?r'" "map go_lower_byte b = ''__hive__/''"
      by (elim exE conjE)
    let ?sp = "takeWhile is_rx_space ?r"
    have sp: "?r = ?sp @ ?r'" by simp
    with h(1) have ne: "?sp \<noteq> []" by (metis append_Nil)
    have all: "list_all is_rx_space ?sp" by (auto simp: list_all_iff dest: set_takeWhileD)
    from n[unfolded scan_name_iff] obtain rest where r: "drop 9 ?r' = ref_ImageName ref @ CHR '':'' # ref_Tag ref @ rest"
      and others: "ref_ImageName ref \<noteq> []" "ref_Tag ref \<noteq> []" "list_all is_name_char (ref_ImageName ref)"
        "list_all (\<lambda>x. \<not> is_rx_space x) (ref_Tag ref)" "rest = [] \<or> is_rx_space (hd rest)" by blast
    have "s = a @ (?sp @ (b @ drop 9 ?r'))"
      unfolding b(1)[symmetric] sp[symmetric] by (rule a(1))
    then have "s = a @ ?sp @ b @ ref_ImageName ref @ '':'' @ ref_Tag ref @ rest"
      unfolding r by simp
    with others a(2) b(2) ne all show ?R
      by (intro conjI exI[of _ a] exI[of _ ?sp] exI[of _ b] exI[of _ rest])
  next
    assume ?R
    then obtain a sp b rest where s: "s = a @ sp @ b @ ref_ImageName ref @ '':'' @ ref_Tag ref @ rest"
      and low': "map go_lower_byte a = ''from''" "map go_lower_byte b = ''__hive__/''"
      and sp: "sp \<noteq> []" "list_all is_rx_space sp" and rest: "rest = [] \<or> is_rx_space (hd rest)"
      and others: "ref_ImageName ref \<noteq> []" "ref_Tag ref \<noteq> []" "list_all is_name_char (ref_ImageName ref)"
        "list_all (\<lambda>x. \<not> is_rx_space x) (ref_Tag ref)" by (elim exE conjE)
    have la: "length a = 4" "length b = 9"
      using arg_cong[OF low'(1), of length] arg_cong[OF low'(2), of length] by simp_all
    let ?t = "b @ ref_ImageName ref @ '':'' @ ref_Tag ref @ rest"
    have d4: "drop 4 s = sp @ ?t" using la by (simp add: s)
    obtain b1 b' where b1: "b = b1 # b'" using la(2) by (cases b) auto
    then have "go_lower_byte b1 = CHR ''_''" using low'(2) by simp
    then have "\<not> is_rx_space b1" using go_lower_space[of b1] by (auto simp: is_rx_space_def)
    then have dw: "dropWhile is_rx_space (sp @ ?t) = ?t"
      using takeWhile_unique[OF sp(2), of ?t] b1 by simp
    have "ci_prefix ''FROM'' s" unfolding cp(1) using d4 low'(1) s by (intro exI[of _ a]) simp
    moreover have "ci_prefix HivePrefix ?t"
      unfolding cp(2) using low'(2) la by (intro exI[of _ b]) simp
    moreover have "scan_name (drop 9 ?t) = Some ref"
      unfolding scan_name_iff using others rest la by auto
    ultimately show ?L
      using sp(1) unfolding scan_line_parts d4 dw by simp
  qed
qed

section \<open>What the builders add to a graph\<close>

text \<open>\<open>grows g F h\<close>: from \<open>g\<close> to \<open>h\<close> exactly the dependencies \<open>F n\<close> of each \<open>n\<close> were added.\<close>

definition grows :: "Graph \<Rightarrow> (string \<Rightarrow> string set) \<Rightarrow> Graph \<Rightarrow> bool" where
  "grows g F h \<longleftrightarrow> wf_graph h \<and> node_set h = node_set g \<and> (\<forall>n. deps_of h n = deps_of g n \<union> F n)"

definition only :: "string \<Rightarrow> string set \<Rightarrow> string \<Rightarrow> string set" where
  "only name D n = (if n = name then D else {})"

lemma grows_refl: "wf_graph g \<Longrightarrow> (\<And>n. F n = {}) \<Longrightarrow> grows g F g"
  by (simp add: grows_def)

lemma grows_AddDependency:
  "wf_graph g \<Longrightarrow> name \<in> node_set g \<Longrightarrow> grows g (only name {dep}) (AddDependency name dep g)"
  unfolding grows_def only_def by (auto intro: wf_AddDependency)

lemma grows_none [simp]: "wf_graph g \<Longrightarrow> grows g (only name {}) g"
  by (simp add: grows_def only_def)

lemma only_Un: "(\<Union>x \<in> A. only name (D x) n) = only name (\<Union>x \<in> A. D x) n"
  by (simp add: only_def)

lemma res_fold_grows:
  assumes "res_fold f g xs = Inr h" and "wf_graph g" and "node_set g = N"
    and "\<And>g x h. x \<in> set xs \<Longrightarrow> f g x = Inr h \<Longrightarrow> wf_graph g \<Longrightarrow> node_set g = N \<Longrightarrow> grows g (F x) h"
  shows "grows g (\<lambda>n. \<Union>x \<in> set xs. F x n) h"
  using assms
proof (induction xs arbitrary: g)
  case Nil
  then show ?case by (simp add: grows_refl)
next
  case (Cons x xs)
  then obtain k where k: "f g x = Inr k" and rest: "res_fold f k xs = Inr h" by (auto simp: res_iff)
  have gx: "grows g (F x) k" using Cons.prems k by simp
  then have "wf_graph k" "node_set k = N" using Cons.prems(3) by (simp_all add: grows_def)
  then have "grows k (\<lambda>n. \<Union>x \<in> set xs. F x n) h"
    using Cons.IH[OF rest] Cons.prems(4) by simp
  with gx show ?case by (auto simp: grows_def)
qed

lemma fold_as_res_fold: "res_fold (\<lambda>g x. Inr (f x g)) g xs = Inr (fold f xs g)"
  by (induction xs arbitrary: g) simp_all

lemma fold_grows:
  assumes "wf_graph g" and "node_set g = N"
    and "\<And>g x. x \<in> set xs \<Longrightarrow> wf_graph g \<Longrightarrow> node_set g = N \<Longrightarrow> grows g (F x) (f x g)"
  shows "grows g (\<lambda>n. \<Union>x \<in> set xs. F x n) (fold f xs g)"
  by (rule res_fold_grows[OF fold_as_res_fold assms(1,2)]) (use assms(3) in auto)

lemma grows_cong: "grows g F h \<Longrightarrow> (\<And>n. F n = F' n) \<Longrightarrow> grows g F' h"
  by (simp add: grows_def)

definition ref_deps :: "string \<Rightarrow> HiveRef list \<Rightarrow> string set" where
  "ref_deps name refs = ref_ImageName ` set refs - {name}"

lemma refs_grow:
  assumes "wf_graph g" and "name \<in> node_set g"
  shows "grows g (only name (ref_deps name refs))
    (fold (\<lambda>ref graph. if ref_ImageName ref \<noteq> name then AddDependency name (ref_ImageName ref) graph
                       else graph) refs g)"
proof (rule grows_cong[OF fold_grows[OF assms(1) refl]])
  show "grows h (only name ({ref_ImageName ref} - {name}))
      (if ref_ImageName ref \<noteq> name then AddDependency name (ref_ImageName ref) h else h)"
    if "wf_graph h" "node_set h = node_set g" for h ref
    using that assms(2) by (auto intro: grows_AddDependency)
  show "(\<Union>ref \<in> set refs. only name ({ref_ImageName ref} - {name}) n) = only name (ref_deps name refs) n" for n
    by (auto simp: only_Un ref_deps_def only_def)
qed

lemma fold_AddImage:
  "wf_graph g \<Longrightarrow> wf_graph (fold AddImage ns g) \<and> node_set (fold AddImage ns g) = set ns \<union> node_set g
   \<and> (\<forall>n. deps_of (fold AddImage ns g) n = deps_of g n)"
  by (induction ns arbitrary: g) auto

section \<open>The rendered project\<close>

text \<open>The Dockerfiles of an image in the dist directory, and what they refer to.\<close>

definition rendered_file :: "files \<Rightarrow> string \<Rightarrow> string \<Rightarrow> string \<Rightarrow> bool" where
  "rendered_file fs distPath name path \<longleftrightarrow>
     (\<exists>tagEntries tagName dfName.
        read_dir fs (path_join2 distPath name) = Some tagEntries \<and> (tagName, True) \<in> set tagEntries
        \<and> dfName \<in> {''Dockerfile'', ''Dockerfile.gotpl''}
        \<and> path = path_join2 (path_join2 (path_join2 distPath name) tagName) dfName \<and> stat_ok fs path)"

definition rendered_image :: "files \<Rightarrow> string \<Rightarrow> string \<Rightarrow> bool" where
  "rendered_image fs distPath name \<longleftrightarrow>
     (\<exists>entries. read_dir fs distPath = Some entries \<and> (name, True) \<in> set entries
        \<and> \<not> go_has_prefix name ''.'')"

definition rendered_deps :: "files \<Rightarrow> string \<Rightarrow> string \<Rightarrow> string set" where
  "rendered_deps fs distPath name =
     (\<Union>path \<in> {p. rendered_file fs distPath name p}.
        case ScanDockerfileForHiveRefs fs path of None \<Rightarrow> {} | Some refs \<Rightarrow> ref_deps name refs)"

definition file_deps :: "files \<Rightarrow> string \<Rightarrow> string \<Rightarrow> string set" where
  "file_deps fs name path = (if \<not> stat_ok fs path then {} else
     case ScanDockerfileForHiveRefs fs path of None \<Rightarrow> {} | Some refs \<Rightarrow> ref_deps name refs)"

lemma scan_rendered_file_grows:
  assumes "scan_rendered_file fs name path g = Inr h" and "wf_graph g" and "name \<in> node_set g"
  shows "grows g (only name (file_deps fs name path)) h"
  using assms refs_grow[OF assms(2,3)]
  by (auto simp: scan_rendered_file_def file_deps_def split: if_splits option.splits)

definition tag_deps :: "files \<Rightarrow> string \<Rightarrow> string \<Rightarrow> string \<times> bool \<Rightarrow> string set" where
  "tag_deps fs name imageDir tagEntry =
     (if snd tagEntry then (\<Union>d \<in> {''Dockerfile'', ''Dockerfile.gotpl''}.
        file_deps fs name (path_join2 (path_join2 imageDir (fst tagEntry)) d)) else {})"

lemma scan_rendered_tag_grows:
  assumes "scan_rendered_tag fs name imageDir g te = Inr h" and "wf_graph g" and "name \<in> node_set g"
  shows "grows g (only name (tag_deps fs name imageDir te)) h"
proof (cases "snd te")
  case True
  let ?path = "\<lambda>d. path_join2 (path_join2 imageDir (fst te)) d"
  have f: "res_fold (\<lambda>graph d. scan_rendered_file fs name (?path d) graph)
      g [''Dockerfile'', ''Dockerfile.gotpl''] = Inr h"
    using assms(1) True unfolding scan_rendered_tag_def Let_def by (cases te) simp
  have "grows g (\<lambda>n. \<Union>d \<in> set [''Dockerfile'', ''Dockerfile.gotpl''].
      only name (file_deps fs name (?path d)) n) h"
    by (rule res_fold_grows[OF f assms(2) refl]) (use assms(3) scan_rendered_file_grows in auto)
  then show ?thesis by (rule grows_cong) (simp add: tag_deps_def True only_def)
next
  case False
  then show ?thesis using assms(1,2) by (cases te) (auto simp: scan_rendered_tag_def tag_deps_def)
qed

lemma rendered_deps_tags:
  assumes es: "read_dir fs (path_join2 distPath name) = Some es"
  shows "(\<Union>x \<in> set es. tag_deps fs name (path_join2 distPath name) x) = rendered_deps fs distPath name"
proof -
  let ?D = "\<lambda>t d. file_deps fs name (path_join2 (path_join2 (path_join2 distPath name) t) d)"
  have "x \<in> rendered_deps fs distPath name \<longleftrightarrow> (\<exists>t d. (t, True) \<in> set es
      \<and> d \<in> {''Dockerfile'', ''Dockerfile.gotpl''} \<and> x \<in> ?D t d)" for x
    unfolding rendered_deps_def rendered_file_def file_deps_def es by auto
  moreover have "x \<in> (\<Union>x \<in> set es. tag_deps fs name (path_join2 distPath name) x) \<longleftrightarrow>
      (\<exists>t d. (t, True) \<in> set es \<and> d \<in> {''Dockerfile'', ''Dockerfile.gotpl''} \<and> x \<in> ?D t d)" for x
  proof -
    have "x \<in> tag_deps fs name (path_join2 distPath name) te \<longleftrightarrow> snd te
        \<and> (\<exists>d \<in> {''Dockerfile'', ''Dockerfile.gotpl''}. x \<in> ?D (fst te) d)" for te
      by (simp add: tag_deps_def)
    moreover have "(\<exists>te \<in> set es. snd te \<and> (\<exists>d \<in> K. P (fst te) d)) \<longleftrightarrow>
        (\<exists>t d. (t, True) \<in> set es \<and> d \<in> K \<and> P t d)" for P and K :: "string set"
      by force
    ultimately show ?thesis unfolding UN_iff by (simp only:)
  qed
  ultimately show ?thesis by blast
qed

definition entry_image :: "string \<times> bool \<Rightarrow> bool" where
  "entry_image e \<longleftrightarrow> snd e \<and> \<not> go_has_prefix (fst e) ''.''"

lemma scan_rendered_image_grows:
  assumes "scan_rendered_image fs distPath e g = Inr h" and "wf_graph g"
    and "entry_image e \<longrightarrow> fst e \<in> node_set g"
  shows "grows g (only (fst e) (if entry_image e then rendered_deps fs distPath (fst e) else {})) h"
proof (cases "entry_image e")
  case True
  let ?dir = "path_join2 distPath (fst e)"
  from True obtain es where es: "read_dir fs ?dir = Some es"
    and f: "res_fold (scan_rendered_tag fs (fst e) ?dir) g es = Inr h"
    using assms(1) by (cases e) (auto simp: scan_rendered_image_def entry_image_def Let_def split: option.splits)
  have "grows g (\<lambda>n. \<Union>x \<in> set es. only (fst e) (tag_deps fs (fst e) ?dir x) n) h"
    by (rule res_fold_grows[OF f assms(2) refl]) (use assms(3) True scan_rendered_tag_grows in auto)
  then show ?thesis by (rule grows_cong) (simp add: only_Un rendered_deps_tags[OF es] True)
next
  case False
  then show ?thesis using assms(1,2) by (cases e) (auto simp: scan_rendered_image_def entry_image_def)
qed

lemma scan_rendered_project:
  assumes "ScanRenderedProject fs distPath = Inr g"
  shows "wf_graph g" and "node_set g = {n. rendered_image fs distPath n}"
    and "deps_of g n = (if rendered_image fs distPath n then rendered_deps fs distPath n else {})"
proof -
  from assms obtain es where es: "read_dir fs distPath = Some es"
    by (auto simp: ScanRenderedProject_def split: option.splits)
  let ?g0 = "fold AddImage (map fst (filter entry_image es)) NewGraph"
  have "fold (\<lambda>(name, isDir) graph. if \<not> isDir \<or> go_has_prefix name ''.'' then graph
      else AddImage name graph) es g = fold AddImage (map fst (filter entry_image es)) g" for g
    by (induction es arbitrary: g) (auto simp: entry_image_def)
  then have f: "res_fold (\<lambda>graph entry. scan_rendered_image fs distPath entry graph) ?g0 es = Inr g"
    using assms by (simp add: ScanRenderedProject_def es)
  have img: "rendered_image fs distPath n \<longleftrightarrow> (n, True) \<in> set es \<and> entry_image (n, True)" for n
    by (simp add: rendered_image_def es entry_image_def)
  have w: "wf_graph ?g0" and none: "\<And>n. deps_of ?g0 n = {}"
    and N: "node_set ?g0 = {n. rendered_image fs distPath n}"
    using fold_AddImage[OF wf_NewGraph, of "map fst (filter entry_image es)"]
    by (auto simp: img entry_image_def image_iff)
  have gr: "grows ?g0 (\<lambda>n. \<Union>e \<in> set es.
      only (fst e) (if entry_image e then rendered_deps fs distPath (fst e) else {}) n) g"
    by (rule res_fold_grows[OF f w N], rule scan_rendered_image_grows) (auto simp: img entry_image_def)
  then show "wf_graph g" "node_set g = {n. rendered_image fs distPath n}"
    using N by (simp_all add: grows_def)
  show "deps_of g n = (if rendered_image fs distPath n then rendered_deps fs distPath n else {})"
    using gr by (auto simp: grows_def none img entry_image_def only_def split: if_splits)
qed

section \<open>The merged graph\<close>

text \<open>The image a backend parent refers to: a hive reference carries a name and a tag.\<close>

definition parent_target :: "string \<Rightarrow> string option" where
  "parent_target parent =
     (if go_has_prefix parent HivePrefix then Some (fst (split_parent parent)) else None)"

definition parent_deps :: "string \<Rightarrow> string \<Rightarrow> string set" where
  "parent_deps name parent =
     (case parent_target parent of None \<Rightarrow> {} | Some t \<Rightarrow> {t} - {name})"

definition declared_deps :: "string \<Rightarrow> Image \<Rightarrow> string set" where
  "declared_deps name img =
     set (img_DependsOn img) \<union> (\<Union>parent \<in> set (backendParentRefs img). parent_deps name parent)"

lemma placeholder_no_prefix [simp]:
  "\<not> go_has_prefix HiveParentPlaceholder HivePrefix" "\<not> go_has_prefix [] HivePrefix"
  by (simp_all add: go_has_prefix_def HiveParentPlaceholder_def HivePrefix_def)

lemma addParentDependency_grows:
  assumes "addParentDependency project name parent g = Inr h" and "wf_graph g" and "name \<in> node_set g"
  shows "grows g (only name (parent_deps name parent)) h"
proof (cases "go_has_prefix parent HivePrefix")
  case True
  then have "parent \<noteq> []" "parent \<noteq> HiveParentPlaceholder" by auto
  then have "h = (if fst (split_parent parent) \<noteq> name
      then AddDependency name (fst (split_parent parent)) g else g)"
    using assms(1) True
    by (simp add: addParentDependency_def split: prod.splits if_splits)
  then show ?thesis
    using assms(2,3) grows_AddDependency by (auto simp: parent_deps_def parent_target_def True)
next
  case False
  then show ?thesis using assms
    by (simp add: addParentDependency_def parent_deps_def parent_target_def split: if_splits)
qed

lemma merge_image_grows:
  assumes "merge_image project name g img = Inr h" and "wf_graph g" and "name \<in> node_set g"
  shows "grows g (only name (declared_deps name img)) h"
proof -
  from assms(1) obtain k where
    k: "res_fold (\<lambda>graph dep. if \<not> known project dep then Inl (UnknownDependsOn name dep)
            else Inr (AddDependency name dep graph)) g (img_DependsOn img) = Inr k"
    and h: "res_fold (\<lambda>graph parent. addParentDependency project name parent graph) k
              (backendParentRefs img) = Inr h"
    unfolding merge_image_def res_bind_Inr_iff by blast
  have gk: "grows g (\<lambda>n. \<Union>dep \<in> set (img_DependsOn img). only name {dep} n) k"
    by (rule res_fold_grows[OF k assms(2) refl])
       (use assms(3) grows_AddDependency in \<open>auto split: if_splits\<close>)
  then have "wf_graph k" and nk: "node_set k = node_set g" by (simp_all add: grows_def)
  have "grows k (\<lambda>n. \<Union>p \<in> set (backendParentRefs img). only name (parent_deps name p) n) h"
    by (rule res_fold_grows[OF h \<open>wf_graph k\<close> refl])
       (use assms(3) nk addParentDependency_grows in auto)
  with gk show ?thesis
    by (auto simp: grows_def declared_deps_def only_def)
qed

text \<open>Extending a graph by images as well.\<close>

definition extends :: "Graph \<Rightarrow> string set \<Rightarrow> (string \<Rightarrow> string set) \<Rightarrow> Graph \<Rightarrow> bool" where
  "extends g N F h \<longleftrightarrow>
     wf_graph h \<and> node_set h = node_set g \<union> N \<and> (\<forall>n. deps_of h n = deps_of g n \<union> F n)"

lemma res_fold_extends:
  assumes "res_fold f g xs = Inr h" and "wf_graph g"
    and "\<And>g x h. x \<in> set xs \<Longrightarrow> f g x = Inr h \<Longrightarrow> wf_graph g \<Longrightarrow> extends g (N x) (F x) h"
  shows "extends g (\<Union>x \<in> set xs. N x) (\<lambda>n. \<Union>x \<in> set xs. F x n) h"
  using assms
proof (induction xs arbitrary: g)
  case Nil
  then show ?case by (simp add: extends_def)
next
  case (Cons x xs)
  then obtain k where k: "f g x = Inr k" and rest: "res_fold f k xs = Inr h" by (auto simp: res_iff)
  have gx: "extends g (N x) (F x) k" using Cons.prems k by simp
  then have "wf_graph k" by (simp add: extends_def)
  then have "extends k (\<Union>x \<in> set xs. N x) (\<lambda>n. \<Union>x \<in> set xs. F x n) h"
    using Cons.IH[OF rest] Cons.prems(3) by simp
  with gx show ?case by (auto simp: extends_def)
qed

text \<open>Collecting what the entry of one key contributes, over all entries of a map.\<close>

lemma collect_entries:
  assumes "wf_map m"
  shows "(\<Union>e \<in> set m. only (fst e) (D (fst e) (snd e)) n) =
    (case mget m n of None \<Rightarrow> {} | Some v \<Rightarrow> D n v)"
proof (cases "mget m n")
  case None
  then have "n \<notin> fst ` set m" by (simp add: map_of_eq_None_iff)
  then show ?thesis by (auto simp: only_def None split: if_splits)
next
  case (Some v)
  then have in_m: "(n, v) \<in> set m" using wf_map_get[OF assms] by simp
  have u: "e = (n, v)" if "e \<in> set m" "fst e = n" for e
  proof -
    have "(n, snd e) \<in> set m" using that by (metis prod.collapse)
    then have "mget m n = Some (snd e)" using wf_map_get[OF assms] by simp
    with Some that(2) show ?thesis by (simp add: prod_eq_iff)
  qed
  show ?thesis
  proof (rule set_eqI)
    fix x
    have "x \<in> (\<Union>e \<in> set m. only (fst e) (D (fst e) (snd e)) n) \<longleftrightarrow>
        (\<exists>e \<in> set m. fst e = n \<and> x \<in> D (fst e) (snd e))"
      by (auto simp: only_def split: if_splits)
    also have "\<dots> \<longleftrightarrow> x \<in> D n v"
      using in_m u by (metis fst_conv snd_conv)
    finally show "x \<in> (\<Union>e \<in> set m. only (fst e) (D (fst e) (snd e)) n) \<longleftrightarrow>
        x \<in> (case mget m n of None \<Rightarrow> {} | Some v \<Rightarrow> D n v)" by (simp add: Some)
  qed
qed

lemma copy_graph_same:
  assumes "wf_graph g"
  shows "wf_graph (copy_graph g)" and "node_set (copy_graph g) = node_set g"
    and "deps_of (copy_graph g) n = deps_of g n"
proof -
  let ?g0 = "fold AddImage (mkeys (nodes g)) NewGraph"
  have w: "wf_graph ?g0" and N: "node_set ?g0 = node_set g" and none: "\<And>n. deps_of ?g0 n = {}"
    using fold_AddImage[OF wf_NewGraph, of "mkeys (nodes g)"] by (simp_all add: node_set_def[of g])
  have wfe: "wf_map (edges g)" using assms by (simp add: wf_graph_def)
  have dep: "deps_of g f = set ds" if "(f, ds) \<in> set (edges g)" for f ds
    using that wf_map_get[OF wfe, of f ds] by (simp add: deps_of_def mget_or_def)
  have reg: "f \<in> node_set g" if "(f, ds) \<in> set (edges g)" "d \<in> set ds" for f ds d
    using dep[OF that(1)] that(2) assms by (auto simp: wf_graph_def)
  have "grows h (only (fst e) (set (snd e))) ((\<lambda>(f, ds). fold (AddDependency f) ds) e h)"
    if e: "e \<in> set (edges g)" and h: "wf_graph h" "node_set h = node_set g" for e h
  proof -
    have "grows h (\<lambda>n. \<Union>d \<in> set (snd e). only (fst e) {d} n) (fold (AddDependency (fst e)) (snd e) h)"
    proof (rule fold_grows[OF h])
      fix k d
      assume "d \<in> set (snd e)" and k: "wf_graph k" "node_set k = node_set g"
      then have "fst e \<in> node_set k" using reg[of "fst e" "snd e" d] e by simp
      then show "grows k (only (fst e) {d}) (AddDependency (fst e) d k)"
        by (rule grows_AddDependency[OF k(1)])
    qed
    then show ?thesis by (cases e) (auto simp: grows_def only_def)
  qed
  note step = this
  have gr: "grows ?g0 (\<lambda>n. \<Union>e \<in> set (edges g). only (fst e) (set (snd e)) n) (copy_graph g)"
    unfolding copy_graph_def by (rule fold_grows[OF w N step])
  then show "wf_graph (copy_graph g)" "node_set (copy_graph g) = node_set g"
    using N by (simp_all add: grows_def)
  have "(\<Union>e \<in> set (edges g). only (fst e) (set (snd e)) n) = deps_of g n"
    unfolding collect_entries[OF wfe, of "\<lambda>_. set"]
    by (simp add: deps_of_def mget_or_def split: option.split)
  with gr show "deps_of (copy_graph g) n = deps_of g n" by (simp add: grows_def none)
qed

definition project_deps :: "ContainerHiveProject \<Rightarrow> string \<Rightarrow> string set" where
  "project_deps project name =
     (\<Union>img \<in> set (mget_or [] (pr_ImagesByName project) name). declared_deps name img)"

lemma build_graph_extends:
  assumes "BuildDependencyGraph scanned project = Inr g" and "wf_graph scanned"
    and "wf_map (pr_ImagesByName project)"
  shows "wf_graph g" and "node_set g = node_set scanned \<union> set (mkeys (pr_ImagesByName project))"
    and "deps_of g n = deps_of scanned n \<union> project_deps project n"
proof -
  let ?P = "pr_ImagesByName project"
  let ?F = "\<lambda>e. only (fst e) (\<Union>img \<in> set (snd e). declared_deps (fst e) img)"
  have step: "extends h {fst e} (?F e) k"
    if e: "(\<lambda>(name, images). res_fold (merge_image project name) (AddImage name h) images) e = Inr k"
      and h: "wf_graph h" for e h k
  proof -
    have r: "res_fold (merge_image project (fst e)) (AddImage (fst e) h) (snd e) = Inr k"
      using e by (cases e) simp
    have "grows (AddImage (fst e) h) (\<lambda>n. \<Union>img \<in> set (snd e). only (fst e) (declared_deps (fst e) img) n) k"
      by (rule res_fold_grows[OF r wf_AddImage[OF h] refl]) (use merge_image_grows in auto)
    then show ?thesis by (auto simp: grows_def extends_def only_def)
  qed
  note c = copy_graph_same[OF assms(2)]
  have ex: "extends (copy_graph scanned) (\<Union>e \<in> set ?P. {fst e}) (\<lambda>n. \<Union>e \<in> set ?P. ?F e n) g"
    by (rule res_fold_extends[OF assms(1)[unfolded BuildDependencyGraph_def] c(1) step])
  then show "wf_graph g" "node_set g = node_set scanned \<union> set (mkeys ?P)"
    using c(2) by (auto simp: extends_def mkeys_def)
  have "(\<Union>e \<in> set ?P. ?F e n) = project_deps project n"
    unfolding collect_entries[OF assms(3), of "\<lambda>name images. \<Union>img \<in> set images. declared_deps name img"]
    by (simp add: project_deps_def mget_or_def split: option.split)
  with ex show "deps_of g n = deps_of scanned n \<union> project_deps project n"
    using c(3) by (simp add: extends_def)
qed

section \<open>The scan of the source is well formed\<close>

definition over :: "string set \<Rightarrow> Graph \<Rightarrow> bool" where
  "over N g \<longleftrightarrow> wf_graph g \<and> node_set g = N"

lemma over_AddDependency: "over N g \<Longrightarrow> a \<in> N \<Longrightarrow> over N (AddDependency a b g)"
  by (auto simp: over_def)

lemma over_scanEntryPoint: "over N g \<Longrightarrow> name \<in> N \<Longrightarrow> over N (scanEntryPoint fs name path g)"
  unfolding scanEntryPoint_def
  by (auto split: option.split intro!: fold_invariant[where P = "over N"] over_AddDependency)

lemma over_dependOnBackendParent: "over N g \<Longrightarrow> name \<in> N \<Longrightarrow> over N (dependOnBackendParent name parent g)"
  by (auto simp: dependOnBackendParent_def Let_def split: option.split intro: over_AddDependency)

lemma ScanProjectSource_over:
  "over (set (mkeys (pr_ImagesByName project))) (ScanProjectSource fs project)"
proof -
  let ?P = "pr_ImagesByName project" and ?N = "set (mkeys (pr_ImagesByName project))"
  have base: "over ?N (fold AddImage (mkeys ?P) NewGraph)"
    using fold_AddImage[OF wf_NewGraph, of "mkeys ?P"] by (simp add: over_def)
  have name: "fst e \<in> ?N" if "e \<in> set ?P" for e using that by (simp add: mkeys_def)
  have variants: "over ?N (fold (\<lambda>(_, variant). scanEntryPoint fs name (var_BuildEntryPointPath variant)) vs g)"
    if "over ?N g" "name \<in> ?N" for vs :: "(string, ImageVariant) gomap" and g name
    by (rule fold_invariant[where P = "over ?N", OF that(1)])
       (auto simp: case_prod_unfold intro: over_scanEntryPoint that(2))
  have images: "over ?N (fold (\<lambda>img graph. fold (\<lambda>(_, variant). scanEntryPoint fs name (var_BuildEntryPointPath variant))
      (img_Variants img) (scanEntryPoint fs name (img_BuildEntryPointPath img) graph)) imgs g)"
    if "over ?N g" "name \<in> ?N" for imgs g name
    by (rule fold_invariant[where P = "over ?N", OF that(1)]) (intro variants over_scanEntryPoint that(2))
  have parents: "over ?N (fold (\<lambda>img. fold (dependOnBackendParent name) (backendParentRefs img)) imgs g)"
    if "over ?N g" "name \<in> ?N" for imgs g name
    by (rule fold_invariant[where P = "over ?N", OF that(1)])
       (rule fold_invariant[where P = "over ?N"], assumption, rule over_dependOnBackendParent[OF _ that(2)])
  have one: "over ?N (fold (\<lambda>(name, images). fold (\<lambda>img graph.
      fold (\<lambda>(_, variant). scanEntryPoint fs name (var_BuildEntryPointPath variant)) (img_Variants img)
        (scanEntryPoint fs name (img_BuildEntryPointPath img) graph)) images) ?P
      (fold AddImage (mkeys ?P) NewGraph))"
  proof (rule fold_invariant[where P = "over ?N", OF base])
    fix g e
    assume e: "e \<in> set ?P" and g: "over ?N g"
    show "over ?N ((\<lambda>(name, images). fold (\<lambda>img graph.
      fold (\<lambda>(_, variant). scanEntryPoint fs name (var_BuildEntryPointPath variant)) (img_Variants img)
        (scanEntryPoint fs name (img_BuildEntryPointPath img) graph)) images) e g)"
      using images[OF g name[OF e], of "snd e"] by (simp only: case_prod_unfold)
  qed
  show ?thesis
    unfolding ScanProjectSource_def Let_def
  proof (rule fold_invariant[where P = "over ?N", OF one])
    fix g e
    assume e: "e \<in> set ?P" and g: "over ?N g"
    show "over ?N ((\<lambda>(name, images). fold (\<lambda>img. fold (dependOnBackendParent name) (backendParentRefs img)) images) e g)"
      using parents[OF g name[OF e], of "snd e"] by (simp only: case_prod_unfold)
  qed
qed

section \<open>Properties\<close>

text \<open>A line of a Dockerfile is a reference to another image exactly if it reads, white space
  around it removed, \<open>FROM __hive__/<name>:<tag>\<close> (keyword and prefix in any case, any white
  space between them): the name runs to the first colon, the tag to the next white space.\<close>

lemma hive_reference_lines:
  "line_ref line = Some ref \<longleftrightarrow> ref_ImageName ref \<noteq> [] \<and> ref_Tag ref \<noteq> []
    \<and> list_all (\<lambda>x. x \<noteq> CHR '':'' \<and> \<not> is_rx_space x) (ref_ImageName ref)
    \<and> list_all (\<lambda>x. \<not> is_rx_space x) (ref_Tag ref)
    \<and> (\<exists>from' space hive rest.
         go_trim_space line = from' @ space @ hive @ ref_ImageName ref @ '':'' @ ref_Tag ref @ rest
         \<and> map go_lower_byte from' = ''from'' \<and> space \<noteq> [] \<and> list_all is_rx_space space
         \<and> map go_lower_byte hive = ''__hive__/'' \<and> (rest = [] \<or> is_rx_space (hd rest)))"
  using scan_line_iff[of "go_trim_space line" ref] by (simp add: line_ref_scan is_name_char_def[abs_def])

end
