(* ===== verification/Variant_Graph.thy ===== *)
theory Variant_Graph
  imports Dep_Scan
begin

text \<open>
  \<open>internal/dependency/variant_graph.go\<close> and \<open>pkg/deps\<close>: the graph on image and variant level
  and its renderings, and \<open>ResolveOrder\<close>, which puts scanning, merging and sorting together.
\<close>

section \<open>The variant graph\<close>

definition VariantNodeID :: "string \<Rightarrow> string \<Rightarrow> string" where
  "VariantNodeID imageName variantName = imageName @ ''/'' @ variantName"

text \<open>One variant of the loop of \<open>resolveVariantTarget\<close>, over \<open>target\<close> and \<open>longest\<close>.\<close>

definition target_step :: "string \<Rightarrow> string \<Rightarrow> string \<times> ImageVariant \<Rightarrow> string \<times> nat \<Rightarrow> string \<times> nat" where
  "target_step imageName tag e s =
     (let (variantName, variant) = e; (target, longest) = s; suffix' = var_TagSuffix variant in
      if length suffix' \<le> longest \<or> \<not> go_has_suffix tag suffix' then (target, longest)
      else (VariantNodeID imageName variantName, length suffix'))"

definition resolveVariantTarget :: "string \<Rightarrow> Image list \<Rightarrow> string \<Rightarrow> string" where
  "resolveVariantTarget imageName images tag =
     fst (fold (\<lambda>img. fold (target_step imageName tag) (img_Variants img)) images (imageName, 0))"

definition addVariantEdge :: "string \<Rightarrow> string \<Rightarrow> Graph \<Rightarrow> Graph" where
  "addVariantEdge from' to graph =
     (if from' = to \<or> \<not> has_node graph to then graph else AddDependency from' to graph)"

definition addTaggedEdge ::
  "ContainerHiveProject \<Rightarrow> string \<Rightarrow> string \<Rightarrow> string \<Rightarrow> string \<Rightarrow> Graph \<Rightarrow> Graph" where
  "addTaggedEdge project imageName node targetImage tag graph =
     (if targetImage = imageName then graph
      else case mget (pr_ImagesByName project) targetImage of
        None \<Rightarrow> graph
      | Some images \<Rightarrow> addVariantEdge node (resolveVariantTarget targetImage images tag) graph)"

definition add_parent_ref ::
  "ContainerHiveProject \<Rightarrow> string \<Rightarrow> string \<Rightarrow> string \<Rightarrow> Graph \<Rightarrow> Graph" where
  "add_parent_ref project imageName node parent graph =
     (if parent = [] \<or> parent = HiveParentPlaceholder \<or> \<not> go_has_prefix parent HivePrefix then graph
      else let rest = go_trim_prefix parent HivePrefix in
      case go_last_index_byte rest (CHR '':'') of
        None \<Rightarrow> graph
      | Some idx \<Rightarrow>
          if idx < 1 then graph
          else addTaggedEdge project imageName node (take idx rest) (drop (Suc idx) rest) graph)"

definition scanVariantNode ::
  "files \<Rightarrow> ContainerHiveProject \<Rightarrow> string \<Rightarrow> string \<Rightarrow> string \<Rightarrow> string \<Rightarrow> string \<Rightarrow> Graph \<Rightarrow> Graph" where
  "scanVariantNode fs project imageName node baseNode entryPointPath parent graph =
     (let graph =
        (if entryPointPath = [] then graph
         else
           let graph = (case ScanDockerfileForHiveRefs fs entryPointPath of
               None \<Rightarrow> graph
             | Some refs \<Rightarrow>
                 fold (\<lambda>ref. addTaggedEdge project imageName node (ref_ImageName ref) (ref_Tag ref)) refs graph) in
           if baseNode \<noteq> [] \<and> usesHiveParent fs entryPointPath then addVariantEdge node baseNode graph
           else graph);
        graph = (if baseNode \<noteq> [] \<and> parent = HiveParentPlaceholder then addVariantEdge node baseNode graph
                 else graph) in
      add_parent_ref project imageName node parent graph)"

definition add_variant_nodes :: "ContainerHiveProject \<Rightarrow> Graph" where
  "add_variant_nodes project =
     fold (\<lambda>(name, images) graph.
         fold (\<lambda>img. fold (\<lambda>(variantName, _). AddImage (VariantNodeID name variantName)) (img_Variants img))
           images (AddImage name graph))
       (pr_ImagesByName project) NewGraph"

definition scan_variant ::
  "files \<Rightarrow> ContainerHiveProject \<Rightarrow> string \<Rightarrow> Image \<Rightarrow> string \<times> ImageVariant \<Rightarrow> Graph \<Rightarrow> Graph" where
  "scan_variant fs project name img e graph =
     (let (variantName, variant) = e; node = VariantNodeID name variantName;
          graph = scanVariantNode fs project name node name (var_BuildEntryPointPath variant)
                    (variantParentRef img variant) graph in
      fold (addVariantEdge node) (img_DependsOn img) graph)"

definition scan_image_nodes :: "files \<Rightarrow> ContainerHiveProject \<Rightarrow> string \<Rightarrow> Image \<Rightarrow> Graph \<Rightarrow> Graph" where
  "scan_image_nodes fs project name img graph =
     (let graph = scanVariantNode fs project name name [] (img_BuildEntryPointPath img) (imageParentRef img) graph;
          graph = fold (addVariantEdge name) (img_DependsOn img) graph in
      fold (scan_variant fs project name img) (img_Variants img) graph)"

definition ScanProjectVariants :: "files \<Rightarrow> ContainerHiveProject \<Rightarrow> Graph" where
  "ScanProjectVariants fs project =
     fold (\<lambda>(name, images). fold (scan_image_nodes fs project name) images)
       (pr_ImagesByName project) (add_variant_nodes project)"

section \<open>The graph of a project and its renderings (\<open>pkg/deps/graph.go\<close>)\<close>

record DepsGraph =
  dg_nodes :: "string list"
  dg_edges :: "(string, string list) gomap"
  dg_nodeImages :: "(string, string) gomap"

definition ProjectGraph :: "files \<Rightarrow> ContainerHiveProject \<Rightarrow> DepsGraph" where
  "ProjectGraph fs project =
     (let graph = ScanProjectVariants fs project;
          nodeImages = fold (\<lambda>(imageName, images) m.
              fold (\<lambda>img. fold (\<lambda>(variantName, _). mput (VariantNodeID imageName variantName) imageName)
                              (img_Variants img))
                images (mput imageName imageName m))
            (pr_ImagesByName project) [] in
      \<lparr>dg_nodes = Nodes graph, dg_edges = Edges graph, dg_nodeImages = nodeImages\<rparr>)"

definition imageOf :: "DepsGraph \<Rightarrow> string \<Rightarrow> string" where
  "imageOf g node =
     (case mget (dg_nodeImages g) node of
        Some img \<Rightarrow> img
      | None \<Rightarrow> let (img, _, _) = go_cut node (CHR ''/'') in img)"

definition groups_step ::
  "DepsGraph \<Rightarrow> string \<Rightarrow> string list \<times> (string, string list) gomap
   \<Rightarrow> string list \<times> (string, string list) gomap" where
  "groups_step g node s =
     (let (images, members) = s; img = imageOf g node;
          images = (if mget members img = None then images @ [img] else images) in
      (images, mput img (mget_or [] members img @ [node]) members))"

definition groups :: "DepsGraph \<Rightarrow> string list \<times> (string, string list) gomap" where
  "groups g = fold (groups_step g) (dg_nodes g) ([], [])"

definition sortedSources :: "DepsGraph \<Rightarrow> string list" where
  "sortedSources g = sort (mkeys (dg_edges g))"

text \<open>
  The verb \<open>%q\<close> on printable text: quotes and backslashes are escaped, control bytes written
  as Go escapes; bytes of valid printable UTF-8 stand for themselves.
\<close>

definition hex_char :: "nat \<Rightarrow> char" where
  "hex_char n = ''0123456789abcdef'' ! n"

definition go_quote_byte :: "char \<Rightarrow> string" where
  "go_quote_byte c =
     (if c = CHR 0x22 then [CHR 0x5C, CHR 0x22]
      else if c = CHR 0x5C then [CHR 0x5C, CHR 0x5C]
      else if c = CHR 0x07 then CHR 0x5C # ''a''
      else if c = CHR 0x08 then CHR 0x5C # ''b''
      else if c = CHR 0x0C then CHR 0x5C # ''f''
      else if c = CHR 0x0A then CHR 0x5C # ''n''
      else if c = CHR 0x0D then CHR 0x5C # ''r''
      else if c = CHR 0x09 then CHR 0x5C # ''t''
      else if c = CHR 0x0B then CHR 0x5C # ''v''
      else if c < CHR 0x20 \<or> c = CHR 0x7F then
        CHR 0x5C # CHR ''x'' # [hex_char (of_char c div 16), hex_char (of_char c mod 16)]
      else [c])"

definition go_quote :: "string \<Rightarrow> string" where
  "go_quote s = CHR 0x22 # concat (map go_quote_byte s) @ [CHR 0x22]"

definition nl :: string where "nl = [newline]"

definition node_ids :: "DepsGraph \<Rightarrow> (string, string) gomap" where
  "node_ids g = fold (\<lambda>(i, node). mput node (CHR ''n'' # go_itoa i)) (enumerate 0 (dg_nodes g)) []"

definition Mermaid :: "DepsGraph \<Rightarrow> string" where
  "Mermaid g =
     (let ids = node_ids g; id_of = mget_or [] ids; (images, members) = groups g in
      ''graph LR'' @ nl
      @ concat (map (\<lambda>img.
          let nodes = mget_or [] members img in
          if length nodes = 1 then ''  '' @ id_of (hd nodes) @ ''['' @ go_quote (hd nodes) @ '']'' @ nl
          else ''  subgraph '' @ id_of (hd nodes) @ ''_group['' @ go_quote img @ '']'' @ nl
             @ concat (map (\<lambda>node. ''    '' @ id_of node @ ''['' @ go_quote node @ '']'' @ nl) nodes)
             @ ''  end'' @ nl) images)
      @ concat (map (\<lambda>from'. concat (map (\<lambda>to. ''  '' @ id_of from' @ '' --> '' @ id_of to @ nl)
          (mget_or [] (dg_edges g) from'))) (sortedSources g)))"

definition Dot :: "DepsGraph \<Rightarrow> string" where
  "Dot g =
     (let (images, members) = groups g in
      ''digraph containerhive {'' @ nl @ ''  rankdir=LR;'' @ nl
      @ concat (map (\<lambda>img.
          let nodes = mget_or [] members img in
          if length nodes = 1 then ''  '' @ go_quote (hd nodes) @ '';'' @ nl
          else ''  subgraph '' @ go_quote (''cluster_'' @ img) @ '' {'' @ nl
             @ ''    label='' @ go_quote img @ '';'' @ nl
             @ concat (map (\<lambda>node. ''    '' @ go_quote node @ '';'' @ nl) nodes)
             @ ''  }'' @ nl) images)
      @ concat (map (\<lambda>from'. concat (map (\<lambda>to.
            ''  '' @ go_quote from' @ '' -> '' @ go_quote to @ '';'' @ nl)
          (mget_or [] (dg_edges g) from'))) (sortedSources g))
      @ ''}'' @ nl)"

section \<open>Resolving a build order (\<open>pkg/deps/deps.go\<close>)\<close>

record BuildOrder =
  bo_graph :: Graph
  bo_order :: "string list"

datatype order_error = ScanFailed scan_error | MergeFailed resolve_error | SortFailed sort_error

definition ResolveOrder :: "files \<Rightarrow> string \<Rightarrow> ContainerHiveProject \<Rightarrow> order_error + BuildOrder" where
  "ResolveOrder fs distPath project =
     (case ScanRenderedProject fs distPath of
        Inl err \<Rightarrow> Inl (ScanFailed err)
      | Inr scannedGraph \<Rightarrow>
          (case BuildDependencyGraph scannedGraph project of
             Inl err \<Rightarrow> Inl (MergeFailed err)
           | Inr graph \<Rightarrow>
               (case TopologicalSort graph of
                  Inl err \<Rightarrow> Inl (SortFailed err)
                | Inr order \<Rightarrow> Inr \<lparr>bo_graph = graph, bo_order = order\<rparr>)))"

section \<open>Edges of the variant graph\<close>

text \<open>The invariant of the scan over the nodes \<open>N\<close>: edges join two different nodes.\<close>

definition edges_ok :: "string set \<Rightarrow> Graph \<Rightarrow> bool" where
  "edges_ok N g \<longleftrightarrow> wf_graph g \<and> node_set g = N \<and> (\<forall>n \<in> N. has_node g n)
     \<and> (\<forall>n. deps_of g n \<subseteq> N - {n})"

text \<open>Edges are only ever added.\<close>

definition edge_in :: "string \<Rightarrow> string \<Rightarrow> string set \<Rightarrow> Graph \<Rightarrow> bool" where
  "edge_in a b N g \<longleftrightarrow> edges_ok N g \<and> b \<in> deps_of g a"

lemma has_node_node_set: "has_node g n \<Longrightarrow> n \<in> node_set g"
  by (cases "mget (nodes g) n") (auto simp: has_node_def mget_or_def node_set_def set_mkeys)

lemma has_node_AddDependency [simp]: "has_node (AddDependency a b g) n = has_node g n"
  by (simp add: has_node_def AddDependency_def)

lemma has_node_AddImage [simp]: "has_node (AddImage a g) n \<longleftrightarrow> n = a \<or> has_node g n"
  by (simp add: has_node_def AddImage_def)

lemma edges_ok_addVariantEdge:
  "edges_ok N g \<Longrightarrow> a \<in> N \<Longrightarrow> edges_ok N (addVariantEdge a b g)"
  using has_node_node_set[of g b]
  by (auto simp: edges_ok_def addVariantEdge_def intro!: wf_AddDependency split: if_splits)

lemma deps_addVariantEdge: "deps_of g n \<subseteq> deps_of (addVariantEdge a b g) n"
  by (auto simp: addVariantEdge_def)

lemma addVariantEdge_adds: "a \<noteq> b \<Longrightarrow> has_node g b \<Longrightarrow> b \<in> deps_of (addVariantEdge a b g) a"
  by (simp add: addVariantEdge_def)

lemma addTaggedEdge_cases:
  obtains "addTaggedEdge project i n t tag g = g"
  | b where "addTaggedEdge project i n t tag g = addVariantEdge n b g"
proof (cases "t = i")
  case True
  then show ?thesis using that(1) by (simp add: addTaggedEdge_def)
next
  case False
  then show ?thesis using that
    by (cases "mget (pr_ImagesByName project) t") (simp_all add: addTaggedEdge_def)
qed

text \<open>
  Whatever adding an edge to \<open>node\<close> keeps is kept by the scan of the node: the shared
  induction principle for the invariants.
\<close>

definition edge_closed :: "string \<Rightarrow> (Graph \<Rightarrow> bool) \<Rightarrow> bool" where
  "edge_closed node P \<longleftrightarrow> (\<forall>g b. P g \<longrightarrow> P (addVariantEdge node b g))"

lemma edge_closed_tagged:
  "edge_closed node P \<Longrightarrow> P g \<Longrightarrow> P (addTaggedEdge project i node t tag g)"
  by (rule addTaggedEdge_cases[of project i node t tag g]) (simp_all add: edge_closed_def)

lemma edge_closed_edges: "edge_closed node P \<Longrightarrow> P g \<Longrightarrow> P (fold (addVariantEdge node) ds g)"
  by (rule fold_invariant) (simp_all add: edge_closed_def)

lemma edge_closed_parent:
  "edge_closed node P \<Longrightarrow> P g \<Longrightarrow> P (add_parent_ref project i node parent g)"
  using edge_closed_tagged[of node P g] by (simp add: add_parent_ref_def Let_def split: option.split)

lemma edge_closed_scan:
  assumes "edge_closed node P" and "P g"
  shows "P (scanVariantNode fs project i node base path parent g)"
proof -
  note c = assms(1)[unfolded edge_closed_def, rule_format]
  note t = edge_closed_tagged[OF assms(1)]
  have f: "P (fold (\<lambda>ref. addTaggedEdge project i node (ref_ImageName ref) (ref_Tag ref)) refs h)" if "P h" for refs h
    by (rule fold_invariant[where P = P, OF that]) (rule t)
  show ?thesis
    unfolding scanVariantNode_def Let_def
    using assms(2) by (intro edge_closed_parent[where P = P, OF assms(1)])
      (auto split: option.split intro!: c f)
qed

lemma edge_closed_ok: "node \<in> N \<Longrightarrow> edge_closed node (edges_ok N)"
  by (simp add: edge_closed_def edges_ok_addVariantEdge)

lemma edge_closed_edge_in: "node \<in> N \<Longrightarrow> edge_closed node (edge_in a b N)"
proof -
  assume n: "node \<in> N"
  have "edge_in a b N (addVariantEdge node c g)" if "edge_in a b N g" for g c
    using that edges_ok_addVariantEdge[OF _ n] deps_addVariantEdge[of g a node c]
    unfolding edge_in_def by auto
  then show ?thesis by (simp add: edge_closed_def)
qed

text \<open>The nodes: images and their variants.\<close>

definition variant_nodes :: "ContainerHiveProject \<Rightarrow> string set" where
  "variant_nodes project =
     (\<Union>(name, images) \<in> set (pr_ImagesByName project).
        insert name (\<Union>img \<in> set images. VariantNodeID name ` set (mkeys (img_Variants img))))"

lemma no_edges_AddImage: "edges_ok N g \<Longrightarrow> edges_ok (insert n N) (AddImage n g)"
  by (auto simp: edges_ok_def)

lemma add_images_ok:
  "edges_ok N g \<Longrightarrow> edges_ok (N \<union> f ` set xs) (fold (\<lambda>x. AddImage (f x)) xs g)"
proof (induction xs arbitrary: N g)
  case (Cons x xs)
  then show ?case using Cons.IH[OF no_edges_AddImage[OF Cons.prems], of "f x"] by simp
qed simp

lemma add_variants_ok:
  "edges_ok N g \<Longrightarrow> edges_ok (N \<union> (\<Union>img \<in> set images. VariantNodeID name ` set (mkeys (img_Variants img))))
     (fold (\<lambda>img. fold (\<lambda>(variantName, _). AddImage (VariantNodeID name variantName)) (img_Variants img)) images g)"
proof (induction images arbitrary: N g)
  case (Cons img images)
  have "fold (\<lambda>(v, _). AddImage (VariantNodeID name v)) vs h =
      fold (\<lambda>v. AddImage (VariantNodeID name v)) (mkeys vs) h" for vs :: "(string, ImageVariant) gomap" and h
    by (induction vs arbitrary: h) (auto simp: mkeys_def)
  then show ?case
    using Cons.IH[OF add_images_ok[OF Cons.prems], of "VariantNodeID name" "mkeys (img_Variants img)"]
    by (simp add: Un_assoc)
qed simp

lemma add_variant_nodes_ok: "edges_ok (variant_nodes project) (add_variant_nodes project)"
proof -
  let ?N = "\<lambda>(name, images). insert name (\<Union>img \<in> set images. VariantNodeID name ` set (mkeys (img_Variants img)))"
  have "edges_ok (M \<union> (\<Union>e \<in> set es. ?N e)) (fold (\<lambda>(name, images) graph.
         fold (\<lambda>img. fold (\<lambda>(variantName, _). AddImage (VariantNodeID name variantName)) (img_Variants img))
           images (AddImage name graph)) es g)" if "edges_ok M g" for M g es
    using that
  proof (induction es arbitrary: M g)
    case (Cons e es)
    obtain name images where e: "e = (name, images)" by fastforce
    show ?case
      using Cons.IH[OF add_variants_ok[OF no_edges_AddImage[OF Cons.prems, of name], where images = images]]
      by (simp add: e Un_assoc)
  qed simp
  from this[of "{}" NewGraph] show ?thesis
    by (simp add: add_variant_nodes_def variant_nodes_def edges_ok_def)
qed

lemma edge_closed_variant:
  assumes "edge_closed (VariantNodeID name (fst e)) P" and "P g"
  shows "P (scan_variant fs project name img e g)"
  unfolding scan_variant_def case_prod_unfold Let_def
  by (rule edge_closed_edges[where P = P, OF assms(1) edge_closed_scan[where P = P, OF assms]])

lemma edge_closed_image:
  assumes "\<And>node. node \<in> N \<Longrightarrow> edge_closed node P" and "P g" and "name \<in> N"
    and "VariantNodeID name ` set (mkeys (img_Variants img)) \<subseteq> N"
  shows "P (scan_image_nodes fs project name img g)"
  unfolding scan_image_nodes_def Let_def
proof (rule fold_invariant[where P = P])
  show "P (fold (addVariantEdge name) (img_DependsOn img)
      (scanVariantNode fs project name name [] (img_BuildEntryPointPath img) (imageParentRef img) g))"
    by (rule edge_closed_edges[where P = P, OF assms(1)[OF assms(3)]
          edge_closed_scan[where P = P, OF assms(1)[OF assms(3)] assms(2)]])
  fix h and e :: "string \<times> ImageVariant"
  assume e: "e \<in> set (img_Variants img)" and h: "P h"
  from e have n: "VariantNodeID name (fst e) \<in> N" using assms(4) by (auto simp: mkeys_def)
  show "P (scan_variant fs project name img e h)"
    by (rule edge_closed_variant[where P = P, OF assms(1)[OF n] h])
qed

lemma variant_nodes_of:
  assumes "(name, images) \<in> set (pr_ImagesByName project)"
  shows "name \<in> variant_nodes project"
    and "img \<in> set images \<Longrightarrow> VariantNodeID name ` set (mkeys (img_Variants img)) \<subseteq> variant_nodes project"
proof -
  have "insert name (\<Union>img \<in> set images. VariantNodeID name ` set (mkeys (img_Variants img)))
      \<subseteq> variant_nodes project"
    unfolding variant_nodes_def using assms by (intro UN_upper[of "(name, images)", THEN order_trans[rotated]]) simp_all
  then show "name \<in> variant_nodes project"
    and "img \<in> set images \<Longrightarrow> VariantNodeID name ` set (mkeys (img_Variants img)) \<subseteq> variant_nodes project"
    by blast+
qed

lemma edge_closed_images:
  assumes "\<And>node. node \<in> variant_nodes project \<Longrightarrow> edge_closed node P" and "P g"
    and "(name, images) \<in> set (pr_ImagesByName project)" and "set imgs \<subseteq> set images"
  shows "P (fold (scan_image_nodes fs project name) imgs g)"
proof (rule fold_invariant[where P = P, OF assms(2)])
  fix h img
  assume i: "img \<in> set imgs" and h: "P h"
  have "img \<in> set images" using i assms(4) by blast
  note v = variant_nodes_of(1)[OF assms(3)] variant_nodes_of(2)[OF assms(3) this]
  show "P (scan_image_nodes fs project name img h)"
    by (rule edge_closed_image[where P = P and N = "variant_nodes project", OF assms(1) h v])
qed

lemma edge_closed_project:
  assumes "\<And>node. node \<in> variant_nodes project \<Longrightarrow> edge_closed node P" and "P g"
    and "set es \<subseteq> set (pr_ImagesByName project)"
  shows "P (fold (\<lambda>(name, images). fold (scan_image_nodes fs project name) images) es g)"
proof (rule fold_invariant[where P = P, OF assms(2)])
  fix h and e :: "string \<times> Image list"
  assume e: "e \<in> set es" and h: "P h"
  have "(fst e, snd e) \<in> set (pr_ImagesByName project)" using e assms(3) by auto
  have "P (fold (scan_image_nodes fs project (fst e)) (snd e) h)"
  proof (rule edge_closed_images[where P = P and images = "snd e"])
    show "edge_closed node P" if "node \<in> variant_nodes project" for node using that by (rule assms(1))
  qed (fact h, fact, simp)
  then show "P ((\<lambda>(name, images). fold (scan_image_nodes fs project name) images) e h)"
    by (simp add: case_prod_unfold)
qed

lemma ScanProjectVariants_ok: "edges_ok (variant_nodes project) (ScanProjectVariants fs project)"
  unfolding ScanProjectVariants_def
proof (rule edge_closed_project[where P = "edges_ok (variant_nodes project)"])
  show "edge_closed node (edges_ok (variant_nodes project))" if "node \<in> variant_nodes project" for node
    using that by (rule edge_closed_ok)
qed (simp_all add: add_variant_nodes_ok)

text \<open>What one step of a scan adds, the scan has at the end.\<close>

lemma fold_reaches:
  assumes "x \<in> set xs" and "P s"
    and "\<And>s y. y \<in> set xs \<Longrightarrow> P s \<Longrightarrow> P (f y s)" and "\<And>s. P s \<Longrightarrow> Q (f x s)"
    and "\<And>s y. y \<in> set xs \<Longrightarrow> Q s \<Longrightarrow> Q (f y s)"
  shows "Q (fold f xs s)"
proof -
  from assms(1) obtain a b where xs: "xs = a @ x # b" by (meson split_list)
  have "P (fold f a s)" by (rule fold_invariant[where P = P, OF assms(2)]) (simp add: assms(3) xs)
  then have "Q (f x (fold f a s))" by (rule assms(4))
  then have "Q (fold f b (f x (fold f a s)))"
    by (rule fold_invariant[where P = Q]) (simp add: assms(5) xs)
  then show ?thesis by (simp add: xs)
qed

definition builds_on_base :: "files \<Rightarrow> Image \<Rightarrow> ImageVariant \<Rightarrow> bool" where
  "builds_on_base fs img variant \<longleftrightarrow>
     variantParentRef img variant = HiveParentPlaceholder
     \<or> var_BuildEntryPointPath variant \<noteq> [] \<and> usesHiveParent fs (var_BuildEntryPointPath variant)"

lemma addVariantEdge_edge_in:
  "edges_ok N g \<Longrightarrow> a \<in> N \<Longrightarrow> b \<in> N \<Longrightarrow> a \<noteq> b \<Longrightarrow> edge_in a b N (addVariantEdge a b g)"
  using addVariantEdge_adds[of a b g] edges_ok_addVariantEdge[of N g a b]
  by (auto simp: edge_in_def edges_ok_def)

lemma scanVariantNode_base:
  assumes "edges_ok N g" and "node \<in> N" and "base \<in> N" and "base \<noteq> []" and "node \<noteq> base"
    and "parent = HiveParentPlaceholder \<or> path \<noteq> [] \<and> usesHiveParent fs path"
  shows "edge_in node base N (scanVariantNode fs project i node base path parent g)"
proof -
  let ?refs = "case ScanDockerfileForHiveRefs fs path of None \<Rightarrow> g
     | Some refs \<Rightarrow> fold (\<lambda>ref. addTaggedEdge project i node (ref_ImageName ref) (ref_Tag ref)) refs g"
  let ?g1 = "if path = [] then g else
     if base \<noteq> [] \<and> usesHiveParent fs path then addVariantEdge node base ?refs else ?refs"
  let ?g2 = "if base \<noteq> [] \<and> parent = HiveParentPlaceholder then addVariantEdge node base ?g1 else ?g1"
  note ec = edge_closed_ok[OF assms(2)] and ei = edge_closed_edge_in[OF assms(2), of node base]
  have r: "edges_ok N ?refs"
    by (auto split: option.split intro!: assms(1)
        fold_invariant[where P = "edges_ok N"] edge_closed_tagged[where P = "edges_ok N", OF ec])
  have g1: "edges_ok N ?g1" using r assms(1) edges_ok_addVariantEdge[OF r assms(2)] by simp
  have "edge_in node base N ?g2"
  proof (cases "parent = HiveParentPlaceholder")
    case True
    then show ?thesis using addVariantEdge_edge_in[OF g1 assms(2,3,5)] assms(4) by simp
  next
    case False
    with assms(6) have "path \<noteq> []" "usesHiveParent fs path" by simp_all
    then show ?thesis using addVariantEdge_edge_in[OF r assms(2,3,5)] assms(4) False by simp
  qed
  then show ?thesis
    unfolding scanVariantNode_def Let_def
    by (rule edge_closed_parent[where P = "edge_in node base N", OF ei])
qed

lemma VariantNodeID_ne [simp]: "VariantNodeID name v \<noteq> name"
  by (simp add: VariantNodeID_def)

lemma scan_variant_base:
  assumes "edges_ok N g" and "VariantNodeID name v \<in> N" and "name \<in> N" and "name \<noteq> []"
    and "builds_on_base fs img variant"
  shows "edge_in (VariantNodeID name v) name N (scan_variant fs project name img (v, variant) g)"
  unfolding scan_variant_def Let_def prod.case
  using assms(5) unfolding builds_on_base_def
  by (intro edge_closed_edges[where P = "edge_in (VariantNodeID name v) name N"]
      edge_closed_edge_in assms scanVariantNode_base) simp_all

lemma edge_closed_variant_any:
  "\<lbrakk>\<And>node. node \<in> N \<Longrightarrow> edge_closed node P; P g; VariantNodeID name (fst e) \<in> N\<rbrakk>
   \<Longrightarrow> P (scan_variant fs project name img e g)"
  by (rule edge_closed_variant[where P = P]) simp_all

lemma scan_image_base:
  assumes "edges_ok N g" and "name \<in> N" and "VariantNodeID name ` set (mkeys (img_Variants img)) \<subseteq> N"
    and "(v, variant) \<in> set (img_Variants img)" and "name \<noteq> []" and "builds_on_base fs img variant"
  shows "edge_in (VariantNodeID name v) name N (scan_image_nodes fs project name img g)"
proof -
  have vn: "VariantNodeID name (fst e) \<in> N" if "e \<in> set (img_Variants img)" for e
    using assms(3) that by (auto simp: mkeys_def)
  have vN: "VariantNodeID name v \<in> N" using vn[OF assms(4)] by simp
  let ?Q = "edge_in (VariantNodeID name v) name N"
  have base: "edges_ok N (fold (addVariantEdge name) (img_DependsOn img)
      (scanVariantNode fs project name name [] (img_BuildEntryPointPath img) (imageParentRef img) g))"
    by (rule edge_closed_edges[where P = "edges_ok N", OF edge_closed_ok[OF assms(2)]
          edge_closed_scan[where P = "edges_ok N", OF edge_closed_ok[OF assms(2)] assms(1)]])
  show ?thesis
    unfolding scan_image_nodes_def Let_def
  proof (rule fold_reaches[where P = "edges_ok N" and Q = ?Q, OF assms(4) base])
    fix h e
    assume e: "e \<in> set (img_Variants img)"
    show "edges_ok N h \<Longrightarrow> edges_ok N (scan_variant fs project name img e h)"
      by (rule edge_closed_variant_any[where P = "edges_ok N", OF edge_closed_ok _ vn[OF e]])
    show "?Q h \<Longrightarrow> ?Q (scan_variant fs project name img e h)"
      by (rule edge_closed_variant_any[where P = ?Q, OF edge_closed_edge_in _ vn[OF e]])
  next
    fix h
    assume "edges_ok N h"
    then show "?Q (scan_variant fs project name img (v, variant) h)"
      using vN assms(2,5,6) by (intro scan_variant_base)
  qed
qed

section \<open>Properties\<close>

text \<open>The nodes of the variant graph are the image names and the variants of each image, and
  every edge joins two different nodes: a reference to something that does not exist, or to
  itself, leaves no edge.\<close>

lemma variant_graph_edges:
  "node_set (ScanProjectVariants fs project) =
     (\<Union>(name, images) \<in> set (pr_ImagesByName project).
        insert name (\<Union>img \<in> set images. VariantNodeID name ` set (mkeys (img_Variants img))))
   \<and> deps_of (ScanProjectVariants fs project) n \<subseteq> node_set (ScanProjectVariants fs project) - {n}"
  using ScanProjectVariants_ok[of project fs] by (simp add: edges_ok_def variant_nodes_def)

text \<open>A variant that is built from \<open>__hive_parent__\<close>, in its Dockerfile or as the parent of
  its backend, depends on the base image in the variant graph.\<close>

lemma variant_depends_on_base:
  assumes "(name, images) \<in> set (pr_ImagesByName project)" and "img \<in> set images"
    and "(v, variant) \<in> set (img_Variants img)" and "name \<noteq> []"
    and "variantParentRef img variant = HiveParentPlaceholder
      \<or> var_BuildEntryPointPath variant \<noteq> [] \<and> usesHiveParent fs (var_BuildEntryPointPath variant)"
  shows "name \<in> deps_of (ScanProjectVariants fs project) (VariantNodeID name v)"
proof -
  let ?N = "variant_nodes project"
  let ?Q = "edge_in (VariantNodeID name v) name ?N"
  note nodes = variant_nodes_of(1)[OF assms(1)] variant_nodes_of(2)[OF assms(1)]
  have vN: "VariantNodeID name v \<in> ?N" using nodes(2)[OF assms(2)] assms(3) by (force simp: mkeys_def)
  note cl = edge_closed_edge_in[of _ ?N "VariantNodeID name v" name]
  have on_base: "builds_on_base fs img variant" using assms(5) by (simp add: builds_on_base_def)
  have "?Q (fold (scan_image_nodes fs project name) images h)" if ok: "edges_ok ?N h" for h
  proof (rule fold_reaches[where P = "edges_ok ?N" and Q = ?Q, OF assms(2) ok])
    fix k i
    assume i: "i \<in> set images"
    show "edges_ok ?N k \<Longrightarrow> edges_ok ?N (scan_image_nodes fs project name i k)"
      by (rule edge_closed_image[where P = "edges_ok ?N", OF edge_closed_ok _ nodes(1) nodes(2)[OF i]])
    show "?Q k \<Longrightarrow> ?Q (scan_image_nodes fs project name i k)"
      by (rule edge_closed_image[where P = ?Q, OF cl _ nodes(1) nodes(2)[OF i]])
  next
    fix k
    assume "edges_ok ?N k"
    then show "?Q (scan_image_nodes fs project name img k)"
      by (rule scan_image_base[OF _ nodes(1) nodes(2)[OF assms(2)] assms(3,4) on_base])
  qed
  then have step: "?Q ((\<lambda>(name, images). fold (scan_image_nodes fs project name) images) (name, images) h)"
    if "edges_ok ?N h" for h using that by simp
  have "?Q (ScanProjectVariants fs project)"
    unfolding ScanProjectVariants_def
  proof (rule fold_reaches[where P = "edges_ok ?N" and Q = ?Q, OF assms(1) add_variant_nodes_ok])
    fix h e
    assume e: "e \<in> set (pr_ImagesByName project)"
    let ?f = "\<lambda>(name, images). fold (scan_image_nodes fs project name) images"
    have eq: "?f e h = fold ?f [e] h" by simp
    have sub: "set [e] \<subseteq> set (pr_ImagesByName project)" using e by simp
    show "edges_ok ?N h \<Longrightarrow> edges_ok ?N (?f e h)"
      unfolding eq by (rule edge_closed_project[where P = "edges_ok ?N", OF edge_closed_ok _ sub])
    show "?Q h \<Longrightarrow> ?Q (?f e h)"
      unfolding eq by (rule edge_closed_project[where P = ?Q, OF cl _ sub])
  qed (rule step)
  then show ?thesis by (simp add: edge_in_def)
qed

definition slim_variant :: ImageVariant where
  "slim_variant = zero_ImageVariant\<lparr>var_TagSuffix := ''-slim'',
     var_Nix := Some (zero_NixConfig\<lparr>nix_Parent := HiveParentPlaceholder\<rparr>)\<rparr>"

definition slim_image :: Image where
  "slim_image = zero_Image\<lparr>img_BuildBackend := ''nix'', img_Variants := [(''slim'', slim_variant)]\<rparr>"

definition slim_project :: ContainerHiveProject where
  "slim_project = project_of [(''app'', [slim_image]), (''base'', [zero_Image])]"

definition no_files :: files where
  "no_files = \<lparr>read_file = (\<lambda>_. None), stat_ok = (\<lambda>_. False), read_dir = (\<lambda>_. None)\<rparr>"

lemma variant_depends_on_base_witness:
  "''app'' \<in> deps_of (ScanProjectVariants no_files slim_project) (VariantNodeID ''app'' ''slim'')"
proof (rule variant_depends_on_base[of _ "[slim_image]" _ slim_image _ slim_variant])
  show "variantParentRef slim_image slim_variant = HiveParentPlaceholder \<or>
    var_BuildEntryPointPath slim_variant \<noteq> [] \<and> usesHiveParent no_files (var_BuildEntryPointPath slim_variant)"
    by code_simp
qed (simp_all add: slim_project_def project_of_def slim_image_def zero_Image_def)

text \<open>The variants a tag can mean: those with a tag suffix the tag ends with.\<close>

definition suffix_match :: "string \<Rightarrow> string \<times> ImageVariant \<Rightarrow> bool" where
  "suffix_match tag e \<longleftrightarrow> var_TagSuffix (snd e) \<noteq> [] \<and> go_has_suffix tag (var_TagSuffix (snd e))"

abbreviation suffix_len :: "string \<times> ImageVariant \<Rightarrow> nat" where
  "suffix_len e \<equiv> length (var_TagSuffix (snd e))"

definition is_target :: "string \<Rightarrow> string \<Rightarrow> (string \<times> ImageVariant) list \<Rightarrow> string \<times> nat \<Rightarrow> bool" where
  "is_target imageName tag vs s \<longleftrightarrow>
     (let ms = filter (suffix_match tag) vs in
      if ms = [] then s = (imageName, 0)
      else (\<exists>m. m \<in> set ms \<and> s = (VariantNodeID imageName (fst m), suffix_len m)
             \<and> (\<forall>m' \<in> set ms. suffix_len m' \<le> suffix_len m)))"

lemma target_step_match:
  "target_step i tag e s = (if suffix_match tag e \<and> snd s < suffix_len e
     then (VariantNodeID i (fst e), suffix_len e) else s)"
  by (cases e; cases s) (auto simp: target_step_def suffix_match_def Let_def)

lemma target_step_ok:
  assumes "is_target i tag vs s"
  shows "is_target i tag (vs @ [e]) (target_step i tag e s)"
proof (cases "suffix_match tag e")
  case False
  with assms show ?thesis by (simp add: is_target_def target_step_match)
next
  case True
  then have pos: "0 < suffix_len e" by (simp add: suffix_match_def)
  show ?thesis
  proof (cases "filter (suffix_match tag) vs = []")
    case empty: True
    then have "s = (i, 0)" using assms by (simp add: is_target_def)
    then show ?thesis using True empty pos by (simp add: is_target_def target_step_match)
  next
    case False
    then obtain m where m: "m \<in> set (filter (suffix_match tag) vs)"
        "s = (VariantNodeID i (fst m), suffix_len m)"
        "\<And>m'. m' \<in> set (filter (suffix_match tag) vs) \<Longrightarrow> suffix_len m' \<le> suffix_len m"
      using assms unfolding is_target_def Let_def by auto
    let ?m = "if suffix_len m < suffix_len e then e else m"
    have mem: "?m \<in> set (filter (suffix_match tag) (vs @ [e]))" using m(1) True by auto
    have le: "suffix_len m' \<le> suffix_len ?m" if "m' \<in> set (filter (suffix_match tag) (vs @ [e]))" for m'
    proof (cases "m' = e")
      case False
      then have "suffix_len m' \<le> suffix_len m" using that m(3)[of m'] by (auto split: if_splits)
      then show ?thesis by auto
    qed auto
    have eq: "target_step i tag e s = (VariantNodeID i (fst ?m), suffix_len ?m)"
      using True m(2) by (simp add: target_step_match)
    have "filter (suffix_match tag) (vs @ [e]) \<noteq> []" using True by simp
    then show ?thesis
      unfolding is_target_def Let_def by (simp only: if_False) (intro exI[of _ ?m] conjI ballI mem eq le)
  qed
qed

lemma target_fold_ok:
  "is_target i tag ws s \<Longrightarrow> is_target i tag (ws @ vs) (fold (target_step i tag) vs s)"
proof (induction vs arbitrary: ws s)
  case (Cons e vs)
  from Cons.IH[OF target_step_ok[OF Cons.prems, of e]] show ?case by simp
qed simp

lemma resolveVariantTarget_fold:
  "fold (\<lambda>img. fold (target_step i tag) (img_Variants img)) images s =
   fold (target_step i tag) (concat (map img_Variants images)) s"
  by (induction images arbitrary: s) simp_all

text \<open>A tag of an image resolves to the base image when it ends with no variant's tag suffix,
  and otherwise to a variant whose suffix it ends with and none is longer.\<close>

lemma resolve_variant_target:
  "let ms = filter (\<lambda>e. var_TagSuffix (snd e) \<noteq> [] \<and> go_has_suffix tag (var_TagSuffix (snd e)))
              (concat (map img_Variants images)) in
   if ms = [] then resolveVariantTarget imageName images tag = imageName
   else \<exists>m. m \<in> set ms \<and> resolveVariantTarget imageName images tag = VariantNodeID imageName (fst m)
      \<and> length (var_TagSuffix (snd m)) = Max (set (map (\<lambda>m. length (var_TagSuffix (snd m))) ms))"
proof -
  let ?ms = "filter (suffix_match tag) (concat (map img_Variants images))"
  let ?s = "fold (target_step imageName tag) (concat (map img_Variants images)) (imageName, 0)"
  have r: "resolveVariantTarget imageName images tag = fst ?s"
    by (simp add: resolveVariantTarget_def resolveVariantTarget_fold)
  have "is_target imageName tag [] (imageName, 0)" by (simp add: is_target_def)
  from target_fold_ok[OF this, of "concat (map img_Variants images)"]
  have t: "is_target imageName tag (concat (map img_Variants images)) ?s" by simp
  have ms: "filter (\<lambda>e. var_TagSuffix (snd e) \<noteq> [] \<and> go_has_suffix tag (var_TagSuffix (snd e)))
      (concat (map img_Variants images)) = ?ms" by (simp add: suffix_match_def[abs_def])
  show ?thesis
  proof (cases "?ms = []")
    case True
    then show ?thesis using t unfolding ms Let_def r is_target_def by simp
  next
    case False
    then obtain m where m: "m \<in> set ?ms" "?s = (VariantNodeID imageName (fst m), suffix_len m)"
        "\<forall>m' \<in> set ?ms. suffix_len m' \<le> suffix_len m"
      using t unfolding is_target_def Let_def by (simp only: if_False) (elim exE conjE, rule that)
    have "suffix_len m = Max (set (map suffix_len ?ms))"
    proof (rule Max_eqI[symmetric])
      fix y
      assume "y \<in> set (map suffix_len ?ms)"
      then obtain m' where "m' \<in> set ?ms" "y = suffix_len m'" unfolding set_map by blast
      then show "y \<le> suffix_len m" using bspec[OF m(3)] by (simp only:)
    next
      show "suffix_len m \<in> set (map suffix_len ?ms)" unfolding set_map using m(1) by (rule imageI)
    qed simp
    then show ?thesis
      unfolding ms Let_def r m(2) fst_conv by (simp only: False if_False) (intro exI[of _ m] conjI m(1) refl)
  qed
qed

section \<open>The build order of a project\<close>

lemma ResolveOrder_deps_first:
  assumes "ResolveOrder fs distPath project = Inr bo" and "wf_map (pr_ImagesByName project)"
  shows "distinct (bo_order bo)
    \<and> set (bo_order bo) = {n. rendered_image fs distPath n} \<union> set (mkeys (pr_ImagesByName project))
    \<and> (\<forall>i < length (bo_order bo).
         (if rendered_image fs distPath (bo_order bo ! i) then rendered_deps fs distPath (bo_order bo ! i) else {})
         \<union> (\<Union>img \<in> set (mget_or [] (pr_ImagesByName project) (bo_order bo ! i)). declared_deps (bo_order bo ! i) img)
         \<subseteq> set (take i (bo_order bo)))"
proof -
  from assms(1) obtain sg g order where sg: "ScanRenderedProject fs distPath = Inr sg"
    and g: "BuildDependencyGraph sg project = Inr g" and t: "TopologicalSort g = Inr order"
    and bo: "bo_order bo = order"
    by (auto simp: ResolveOrder_def split: sum.splits)
  note s = scan_rendered_project[OF sg]
  note e = build_graph_extends[OF g s(1) assms(2)]
  show ?thesis
    using TopologicalSort_Inr(2)[OF e(1) t] e(2,3) s(2,3)
    unfolding is_build_order_def bo project_deps_def by simp
qed

text \<open>C3. A resolved build order lists every rendered image and every image of the project once,
  each after the images its rendered Dockerfiles refer to, those it declares in \<open>depends_on\<close>
  and those its backend parents name.\<close>

theorem resolve_order_builds_dependencies_first:
  assumes "ResolveOrder fs distPath project = Inr bo" and "wf_map (pr_ImagesByName project)"
  shows "distinct (bo_order bo)
    \<and> set (bo_order bo) = {n. rendered_image fs distPath n} \<union> set (mkeys (pr_ImagesByName project))
    \<and> (\<forall>i < length (bo_order bo).
         (if rendered_image fs distPath (bo_order bo ! i) then rendered_deps fs distPath (bo_order bo ! i) else {})
         \<union> (\<Union>img \<in> set (mget_or [] (pr_ImagesByName project) (bo_order bo ! i)). declared_deps (bo_order bo ! i) img)
         \<subseteq> set (take i (bo_order bo)))"
  by (rule ResolveOrder_deps_first[OF assms])

definition two_images :: files where
  "two_images = \<lparr>read_file = (\<lambda>p. if p = ''dist/app/1.0/Dockerfile'' then Some ''FROM __hive__/base:1.0'' else None),
     stat_ok = (\<lambda>p. p = ''dist/app/1.0/Dockerfile''),
     read_dir = (\<lambda>p. if p = ''dist'' then Some [(''app'', True), (''base'', True)]
                   else if p = ''dist/app'' then Some [(''1.0'', True)]
                   else if p = ''dist/base'' then Some [] else None)\<rparr>"

lemma ResolveOrder_two_images:
  "map_sum id bo_order (ResolveOrder two_images ''dist'' (project_of [(''app'', [zero_Image]), (''base'', [zero_Image])]))
   = Inr [''base'', ''app'']"
  by code_simp

theorem resolve_order_builds_dependencies_first_witness:
  "set [''base'', ''app''] = {n. rendered_image two_images ''dist'' n} \<union> {''app'', ''base''}"
proof -
  obtain bo where bo: "ResolveOrder two_images ''dist'' (project_of [(''app'', [zero_Image]), (''base'', [zero_Image])]) = Inr bo"
    and o: "bo_order bo = [''base'', ''app'']"
    using ResolveOrder_two_images
    by (cases "ResolveOrder two_images ''dist'' (project_of [(''app'', [zero_Image]), (''base'', [zero_Image])])") auto
  from resolve_order_builds_dependencies_first[OF bo] o show ?thesis
    by (simp add: project_of_def wf_map_def mkeys_def)
qed

section \<open>The renderings\<close>

text \<open>Both renderings list every node exactly once, grouped by image: the image names of
  \<open>groups\<close> are distinct and their members are the nodes, each under its own image.\<close>

lemma groups_partition_nodes:
  "let (images, members) = groups g in
   distinct images \<and> mset (concat (map (mget_or [] members) images)) = mset (dg_nodes g)
   \<and> (\<forall>img. mget_or [] members img = filter (\<lambda>n. imageOf g n = img) (dg_nodes g))"
proof -
  define ok where "ok ns s \<longleftrightarrow> distinct (fst s) \<and> set (fst s) = imageOf g ` set ns
      \<and> (\<forall>img. (mget (snd s) img = None) = (img \<notin> set (fst s)))
      \<and> (\<forall>img. mget_or [] (snd s) img = filter (\<lambda>n. imageOf g n = img) ns)"
    for ns and s :: "string list \<times> (string, string list) gomap"
  have step: "ok (ns @ [n]) (groups_step g n s)" if "ok ns s" for ns n s
    using that by (cases s) (auto simp: ok_def groups_step_def Let_def)
  have fold_ok: "ok ws s \<Longrightarrow> ok (ws @ ns) (fold (groups_step g) ns s)" for ws ns s
  proof (induction ns arbitrary: ws s)
    case (Cons n ns)
    from Cons.IH[OF step[OF Cons.prems, of n]] show ?case by simp
  qed simp
  have "ok [] ([], [])" by (simp add: ok_def)
  from fold_ok[OF this, of "dg_nodes g"] have ok: "ok (dg_nodes g) (groups g)" by (simp add: groups_def)
  obtain images members where gr: "groups g = (images, members)" by fastforce
  have "mset (concat (map (\<lambda>i. filter (\<lambda>n. imageOf g n = i) ns) ims)) = mset ns"
    if "distinct ims" "imageOf g ` set ns \<subseteq> set ims" for ns ims
    using that(2)
  proof (induction ns)
    case (Cons n ns)
    have one: "mset (concat (map (\<lambda>i. if imageOf g n = i then n # f i else f i) ims)) =
        (if imageOf g n \<in> set ims then {#n#} else {#}) + mset (concat (map f ims))" for f
      using that(1) by (induction ims) auto
    show ?case using Cons one[of "\<lambda>i. filter (\<lambda>n. imageOf g n = i) ns"] by simp
  qed simp
  note all = this
  have "mget_or [] members = (\<lambda>i. filter (\<lambda>n. imageOf g n = i) (dg_nodes g))"
    using ok by (simp add: gr ok_def fun_eq_iff)
  then show ?thesis using ok all[of images "dg_nodes g"] by (simp add: gr ok_def)
qed

end
