(* ===== verification/Shard.thy ===== *)
theory Shard
  imports Model "HOL-Library.Multiset" "HOL-Library.Product_Lexorder"
begin

text \<open>
  \<open>pkg/shard\<close>: the partition of a project's tags over CI shards.  A shard owns a tag by its
  32-bit FNV-1a hash modulo the number of shards.  The locale \<open>slots\<close> is the contract the rest
  relies on, an assignment of units to slots below a bound; the hash provides it.
\<close>

section \<open>Partitioning by slots\<close>

locale slots =
  fixes slot :: "nat \<Rightarrow> 'u \<Rightarrow> nat"
  assumes slot_less: "0 < n \<Longrightarrow> slot n u < n"
begin

lemma exactly_one: "0 < n \<Longrightarrow> \<exists>!k. k < n \<and> slot n u = k"
  using slot_less by blast

lemma parts_permutation:
  assumes "0 < n"
  shows "mset (concat (map (\<lambda>k. filter (\<lambda>u. slot n u = k) us) [0..<n])) = mset us"
proof (induction us)
  case (Cons u us)
  have "mset (concat (map (\<lambda>k. if slot n u = k then u # f k else f k) ks)) =
      (if slot n u \<in> set ks then {#u#} else {#}) + mset (concat (map f ks))"
    if "distinct ks" for ks and f :: "nat \<Rightarrow> 'u list"
    using that by (induction ks) auto
  from this[of "[0..<n]"] Cons slot_less[OF assms, of u] show ?case by simp
qed simp

end

section \<open>The model\<close>

record Shard =
  Current :: int
  MaxShards :: int

datatype TagRef = TagRef (tr_Identifier: string) (tr_TagNameOf: string)

text \<open>The order of \<open>sort.Slice\<close> in \<open>TagIndex\<close>, as the type's linear order.\<close>

instantiation TagRef :: linorder
begin

definition less_eq_TagRef :: "TagRef \<Rightarrow> TagRef \<Rightarrow> bool" where
  "less_eq_TagRef a b \<longleftrightarrow>
     (if tr_Identifier a \<noteq> tr_Identifier b then tr_Identifier a < tr_Identifier b
      else tr_TagNameOf a \<le> tr_TagNameOf b)"

definition less_TagRef :: "TagRef \<Rightarrow> TagRef \<Rightarrow> bool" where
  "less_TagRef a b \<longleftrightarrow>
     (if tr_Identifier a \<noteq> tr_Identifier b then tr_Identifier a < tr_Identifier b
      else tr_TagNameOf a < tr_TagNameOf b)"

instance
  by standard (auto simp: less_eq_TagRef_def less_TagRef_def split: if_splits intro: TagRef.expand)

end

definition Enabled :: "Shard \<Rightarrow> bool" where
  "Enabled s \<longleftrightarrow> MaxShards s > 1"

text \<open>\<open>hash/fnv\<close>'s \<open>New32a\<close>: fold a byte by exclusive or, multiply by the prime.\<close>

definition fnv_offset :: "32 word" where "fnv_offset = 2166136261"
definition fnv_prime :: "32 word" where "fnv_prime = 16777619"

definition fnv_byte :: "char \<Rightarrow> 32 word \<Rightarrow> 32 word" where
  "fnv_byte b h = (Bit_Operations.xor h (word_of_nat (of_char b))) * fnv_prime"

definition fnv_write :: "string \<Rightarrow> 32 word \<Rightarrow> 32 word" where
  "fnv_write bs h = fold fnv_byte bs h"

definition ref_hash :: "TagRef \<Rightarrow> 32 word" where
  "ref_hash ref = fnv_write (tr_TagNameOf ref) (fnv_write [CHR 0x00] (fnv_write (tr_Identifier ref) fnv_offset))"

text \<open>
  \<open>h.Sum32() % uint32(s.Max)\<close>: the conversion keeps the low 32 bits of \<open>Max\<close>, and dividing by
  a zero result panics, here \<open>None\<close>.
\<close>

definition Owns :: "Shard \<Rightarrow> TagRef \<Rightarrow> bool option" where
  "Owns s ref =
     (if \<not> Enabled s then Some True
      else let m = word_of_int (MaxShards s) :: 32 word in
        if m = 0 then None else Some (uint (ref_hash ref mod m) = Current s - 1))"

datatype shard_error = MaxTooSmall int | CurrentOutOfRange int int

definition ValidateShard :: "Shard \<Rightarrow> shard_error + unit" where
  "ValidateShard s =
     (if MaxShards s < 1 then Inl (MaxTooSmall (MaxShards s))
      else if Current s < 1 \<or> Current s > MaxShards s then Inl (CurrentOutOfRange (MaxShards s) (Current s))
      else Inr ())"

definition image_refs :: "Image \<Rightarrow> TagRef list" where
  "image_refs img =
     concat (map (\<lambda>tagName.
        TagRef (img_Identifier img) tagName
        # map (\<lambda>(_, variantDef). TagRef (img_Identifier img) (tagName @ var_TagSuffix variantDef))
            (img_Variants img))
       (mkeys (img_Tags img)))"

definition TagIndex :: "ContainerHiveProject \<Rightarrow> TagRef list" where
  "TagIndex project =
     sort (remdups (concat (map (\<lambda>(_, img). image_refs img) (pr_ImagesByIdentifier project))))"

definition tagSet :: "TagRef list \<Rightarrow> TagRef set" where
  "tagSet refs = set refs"

definition owns_valid :: "TagRef set \<Rightarrow> Shard \<Rightarrow> string \<Rightarrow> string \<Rightarrow> bool option" where
  "owns_valid valid s identifier tagName =
     (let ref = TagRef identifier tagName in if ref \<notin> valid then Some False else Owns s ref)"

definition NewTagSharder :: "ContainerHiveProject \<Rightarrow> Shard \<Rightarrow> string \<Rightarrow> string \<Rightarrow> bool option" where
  "NewTagSharder project s =
     (if \<not> Enabled s then (\<lambda>_ _. Some True) else owns_valid (tagSet (TagIndex project)) s)"

definition variantsOf :: "ContainerHiveProject \<Rightarrow> (string, (string, string list) gomap) gomap" where
  "variantsOf project =
     fold (\<lambda>(_, img) m.
         if img_Variants img = [] then m
         else
           let perBase = fold (\<lambda>tagName p. fold (\<lambda>(_, variantDef) p.
                 mput tagName (mget_or [] p tagName @ [tagName @ var_TagSuffix variantDef]) p)
               (img_Variants img) p) (mkeys (img_Tags img)) [] in
           mput (img_Identifier img) perBase m)
       (pr_ImagesByIdentifier project) []"

text \<open>A loop that returns true at the first hit, over a test that may panic.\<close>

fun any_opt :: "('a \<Rightarrow> bool option) \<Rightarrow> 'a list \<Rightarrow> bool option" where
  "any_opt f [] = Some False"
| "any_opt f (x # xs) =
     (case f x of None \<Rightarrow> None | Some True \<Rightarrow> Some True | Some False \<Rightarrow> any_opt f xs)"

definition NewBaseTagSharder :: "ContainerHiveProject \<Rightarrow> Shard \<Rightarrow> string \<Rightarrow> string \<Rightarrow> bool option" where
  "NewBaseTagSharder project s =
     (if \<not> Enabled s then (\<lambda>_ _. Some True)
      else let valid = tagSet (TagIndex project); vs = variantsOf project in
        (\<lambda>identifier baseTagName.
           any_opt (owns_valid valid s identifier)
             (baseTagName # mget_or [] (mget_or [] vs identifier) baseTagName)))"

definition UnitCountByName :: "ContainerHiveProject \<Rightarrow> (string, int) gomap" where
  "UnitCountByName project =
     fold (\<lambda>(name, images) counts. fold (\<lambda>img counts.
         mput name (mget_or 0 counts name
           + int (length (img_Tags img)) * (1 + int (length (img_Variants img)))) counts) images counts)
       (pr_ImagesByName project) []"

fun filter_opt :: "('a \<Rightarrow> bool option) \<Rightarrow> 'a list \<Rightarrow> 'a list option" where
  "filter_opt f [] = Some []"
| "filter_opt f (x # xs) =
     (case f x of None \<Rightarrow> None
      | Some b \<Rightarrow> map_option (\<lambda>ys. if b then x # ys else ys) (filter_opt f xs))"

definition OwnedUnits :: "ContainerHiveProject \<Rightarrow> Shard \<Rightarrow> TagRef list option" where
  "OwnedUnits project s =
     (let refs = TagIndex project in if \<not> Enabled s then Some refs else filter_opt (Owns s) refs)"

section \<open>The hash is an assignment to slots\<close>

definition hash_slot :: "nat \<Rightarrow> TagRef \<Rightarrow> nat" where
  "hash_slot n ref = unat (ref_hash ref mod word_of_nat n)"

interpretation shards: slots hash_slot
proof
  fix n u
  assume n: "0 < (n :: nat)"
  show "hash_slot n u < n"
  proof (cases "word_of_nat n = (0 :: 32 word)")
    case True
    then have "2 ^ 32 dvd n" by (simp add: word_of_nat_eq_0_iff)
    then have "2 ^ 32 \<le> n" using n by (rule dvd_imp_le)
    then show ?thesis
      using unsigned_less[of "ref_hash u", where ?'a = nat] True by (simp add: hash_slot_def)
  next
    case False
    have "unat (word_of_nat n :: 32 word) \<le> n" by (simp add: unat_of_nat)
    moreover have "unat (word_of_nat n :: 32 word) > 0" using False by (simp add: unat_gt_0)
    ultimately show ?thesis
      unfolding hash_slot_def unat_mod
      by (meson less_le_trans mod_less_divisor)
  qed
qed

lemma Owns_slot:
  assumes "1 < n" and "n < 2 ^ 32"
  shows "Owns \<lparr>Current = int k + 1, MaxShards = int n\<rparr> ref = Some (hash_slot n ref = k)"
proof -
  have nz: "(word_of_nat n :: 32 word) \<noteq> 0"
    using assms by (auto simp: word_of_nat_eq_0_iff dest: dvd_imp_le)
  have "unat w = k \<longleftrightarrow> uint w = int k + 1 - 1" for w :: "32 word"
    by (metis add_diff_cancel_right' nat_int of_nat_unat)
  with nz show ?thesis
    using assms(1) unfolding Owns_def Enabled_def hash_slot_def Let_def by simp
qed

lemma filter_opt_total: "(\<And>x. f x = Some (P x)) \<Longrightarrow> filter_opt f xs = Some (filter P xs)"
  by (induction xs) auto

lemma TagIndex_props: "sorted (TagIndex project)" "distinct (TagIndex project)"
  by (simp_all add: TagIndex_def)

lemma OwnedUnits_slot:
  assumes "1 < n" and "n < 2 ^ 32"
  shows "OwnedUnits project \<lparr>Current = int k + 1, MaxShards = int n\<rparr>
    = Some (filter (\<lambda>ref. hash_slot n ref = k) (TagIndex project))"
  using assms by (simp add: OwnedUnits_def Enabled_def filter_opt_total[OF Owns_slot[OF assms]])

text \<open>The order of iteration over the image map does not matter.\<close>

lemma TagIndex_cong:
  assumes "set (pr_ImagesByIdentifier p) = set (pr_ImagesByIdentifier q)"
  shows "TagIndex p = TagIndex q"
  unfolding TagIndex_def by (rule sorted_distinct_set_unique) (simp_all add: assms)

lemma image_refs_base: "tag \<in> set (mkeys (img_Tags img)) \<Longrightarrow> TagRef (img_Identifier img) tag \<in> set (image_refs img)"
  by (auto simp: image_refs_def)

lemma image_refs_variant:
  assumes "tag \<in> set (mkeys (img_Tags img))" and "(v, variant) \<in> set (img_Variants img)"
  shows "TagRef (img_Identifier img) (tag @ var_TagSuffix variant) \<in> set (image_refs img)"
proof -
  have "TagRef (img_Identifier img) (tag @ var_TagSuffix variant)
      \<in> set (map (\<lambda>(_, variantDef). TagRef (img_Identifier img) (tag @ var_TagSuffix variantDef)) (img_Variants img))"
    using assms(2) by force
  then have "TagRef (img_Identifier img) (tag @ var_TagSuffix variant)
      \<in> set (TagRef (img_Identifier img) tag # map (\<lambda>(_, variantDef). TagRef (img_Identifier img) (tag @ var_TagSuffix variantDef)) (img_Variants img))"
    by simp
  then show ?thesis using assms(1) unfolding image_refs_def set_concat set_map image_image by (rule UN_I[rotated])
qed

lemma in_TagIndex:
  "(i, img) \<in> set (pr_ImagesByIdentifier project) \<Longrightarrow> ref \<in> set (image_refs img) \<Longrightarrow> ref \<in> set (TagIndex project)"
  by (force simp: TagIndex_def)

section \<open>The base tags a shard builds\<close>

text \<open>What \<open>NewBaseTagSharder\<close> looks up, as a relation on the project.\<close>

lemma perBase_get:
  "mget_or [] (fold (\<lambda>(_, variantDef) p.
       mput tagName (mget_or [] p tagName @ [tagName @ var_TagSuffix variantDef]) p) vs p) t =
   (if t = tagName then mget_or [] p t @ map (\<lambda>(_, variantDef). tagName @ var_TagSuffix variantDef) vs
    else mget_or [] p t)"
  by (induction vs arbitrary: p) auto

lemma perBase_tags:
  "distinct tags \<Longrightarrow> mget_or [] (fold (\<lambda>tagName p. fold (\<lambda>(_, variantDef) p.
       mput tagName (mget_or [] p tagName @ [tagName @ var_TagSuffix variantDef]) p) vs p) tags p) t =
   mget_or [] p t @ (if t \<in> set tags then map (\<lambda>(_, variantDef). t @ var_TagSuffix variantDef) vs else [])"
  by (induction tags arbitrary: p) (auto simp: perBase_get)

lemma variantsOf_get:
  assumes "(img_Identifier img, img) \<in> set (pr_ImagesByIdentifier project)"
    and "wf_map (pr_ImagesByIdentifier project)"
    and "\<And>i img. (i, img) \<in> set (pr_ImagesByIdentifier project) \<Longrightarrow> img_Identifier img = i"
    and "wf_map (img_Tags img)" and "tag \<in> set (mkeys (img_Tags img))"
  shows "mget_or [] (mget_or [] (variantsOf project) (img_Identifier img)) tag =
    map (\<lambda>(_, variantDef). tag @ var_TagSuffix variantDef) (img_Variants img)"
proof -
  define per where "per img = fold (\<lambda>tagName p. fold (\<lambda>(_, variantDef) p.
       mput tagName (mget_or [] p tagName @ [tagName @ var_TagSuffix variantDef]) p)
       (img_Variants img) p) (mkeys (img_Tags img)) []" for img :: Image
  define f where "f = (\<lambda>(_ :: string, img) m. if img_Variants img = [] then m else mput (img_Identifier img) (per img) m)"
  have later: "mget_or [] (fold f es m) (img_Identifier img) = mget_or [] m (img_Identifier img)"
    if "\<And>e. e \<in> set es \<Longrightarrow> img_Identifier (snd e) \<noteq> img_Identifier img" for es m
    using that
  proof (induction es arbitrary: m)
    case (Cons e es)
    have "mget_or [] (f e m) (img_Identifier img) = mget_or [] m (img_Identifier img)"
      using Cons.prems[of e] by (cases e) (simp add: f_def)
    then show ?case using Cons.IH[of "f e m"] Cons.prems by simp
  qed simp
  have at: "mget_or [] (fold f es m) (img_Identifier img) =
      (if img_Variants img = [] then mget_or [] m (img_Identifier img) else per img)"
    if "(img_Identifier img, img) \<in> set es" "wf_map es"
      "\<And>i img. (i, img) \<in> set es \<Longrightarrow> img_Identifier img = i" for es m
    using that
  proof (induction es arbitrary: m)
    case (Cons e es)
    show ?case
    proof (cases "e = (img_Identifier img, img)")
      case True
      then have new: "img_Identifier img \<notin> fst ` set es" using Cons.prems(2) by (simp add: wf_map_def)
      have "img_Identifier (snd e') \<noteq> img_Identifier img" if e': "e' \<in> set es" for e'
      proof -
        have "img_Identifier (snd e') = fst e'" using Cons.prems(3)[of "fst e'" "snd e'"] e' by simp
        then show ?thesis using new e' by (metis imageI)
      qed
      then show ?thesis using later[of es] True by (simp add: f_def)
    next
      case False
      then have in_es: "(img_Identifier img, img) \<in> set es" using Cons.prems(1) by auto
      then have "fst e \<noteq> img_Identifier img" using Cons.prems(2) by (auto simp: wf_map_def image_iff)
      moreover have "img_Identifier (snd e) = fst e" using Cons.prems(3)[of "fst e" "snd e"] by simp
      ultimately have "img_Identifier (snd e) \<noteq> img_Identifier img" by simp
      then have "mget_or [] (f e m) (img_Identifier img) = mget_or [] m (img_Identifier img)"
        by (cases e) (simp add: f_def)
      moreover have "wf_map es" using Cons.prems(2) by (simp add: wf_map_def)
      ultimately show ?thesis using Cons.IH[OF in_es, of "f e m"] Cons.prems(3) by simp
    qed
  qed simp
  have "variantsOf project = fold f (pr_ImagesByIdentifier project) []"
    unfolding variantsOf_def f_def per_def Let_def ..
  moreover have "distinct (mkeys (img_Tags img))" using assms(4) by (rule distinct_mkeys)
  ultimately show ?thesis
    using at[OF assms(1,2,3), of "[]"] assms(5) perBase_tags[of "mkeys (img_Tags img)" "img_Variants img" "[]" tag]
    by (simp add: per_def)
qed

lemma any_opt_hit:
  "x \<in> set xs \<Longrightarrow> f x = Some True \<Longrightarrow> (\<And>y. f y \<noteq> None) \<Longrightarrow> any_opt f xs = Some True"
  by (induction xs) (auto split: option.split bool.split)

section \<open>Properties\<close>

text \<open>C15. The shards \<open>1..n\<close> partition the project's tags: taken together, the units they own are
  exactly the units of the index, each owned by one shard only.\<close>

theorem shards_partition_units:
  assumes "0 < n" and "n < 2 ^ 32"
  shows "mset (concat (map (\<lambda>k. the (OwnedUnits project \<lparr>Current = int k + 1, MaxShards = int n\<rparr>)) [0..<n]))
      = mset (TagIndex project)
    \<and> (\<forall>k. OwnedUnits project \<lparr>Current = int k + 1, MaxShards = int n\<rparr> \<noteq> None)"
proof (cases "n = 1")
  case True
  then show ?thesis by (simp add: OwnedUnits_def Enabled_def)
next
  case False
  then have "1 < n" using assms(1) by simp
  then show ?thesis
    using shards.parts_permutation[OF assms(1), of "TagIndex project"]
    by (simp add: OwnedUnits_slot[OF _ assms(2)])
qed

definition tagged_project :: ContainerHiveProject where
  "tagged_project = (project_of [])\<lparr>pr_ImagesByIdentifier :=
     [(''app'', zero_Image\<lparr>img_Identifier := ''app'',
        img_Tags := [(''1.0'', zero_Tag), (''2.0'', zero_Tag)],
        img_Variants := [(''slim'', zero_ImageVariant\<lparr>var_TagSuffix := ''-slim''\<rparr>)]\<rparr>)]\<rparr>"

theorem shards_partition_units_witness:
  "mset (concat (map (\<lambda>k. the (OwnedUnits tagged_project \<lparr>Current = int k + 1, MaxShards = int 3\<rparr>)) [0..<3]))
   = mset (TagIndex tagged_project) \<and> length (TagIndex tagged_project) = 4"
proof
  show "mset (concat (map (\<lambda>k. the (OwnedUnits tagged_project \<lparr>Current = int k + 1, MaxShards = int 3\<rparr>)) [0..<3]))
    = mset (TagIndex tagged_project)"
    using shards_partition_units[of 3 tagged_project] by simp
  show "length (TagIndex tagged_project) = 4" by code_simp
qed

text \<open>A shard that owns a variant's tag also builds the base tag the variant is made from.\<close>

lemma variant_owner_builds_base:
  assumes "(img_Identifier img, img) \<in> set (pr_ImagesByIdentifier project)"
    and "wf_map (pr_ImagesByIdentifier project)"
    and "\<And>i img. (i, img) \<in> set (pr_ImagesByIdentifier project) \<Longrightarrow> img_Identifier img = i"
    and "wf_map (img_Tags img)" and "tag \<in> set (mkeys (img_Tags img))"
    and "(v, variant) \<in> set (img_Variants img)"
    and "NewTagSharder project s (img_Identifier img) (tag @ var_TagSuffix variant) = Some True"
  shows "NewBaseTagSharder project s (img_Identifier img) tag = Some True"
proof (cases "Enabled s")
  case True
  let ?o = "owns_valid (tagSet (TagIndex project)) s (img_Identifier img)"
  have hit: "?o (tag @ var_TagSuffix variant) = Some True"
    using assms(7) True by (simp add: NewTagSharder_def)
  then have "(word_of_int (MaxShards s) :: 32 word) \<noteq> 0"
    by (auto simp: owns_valid_def Owns_def True Let_def split: if_splits)
  then have "?o t \<noteq> None" for t
    unfolding owns_valid_def Owns_def Let_def using True
    by (cases "TagRef (img_Identifier img) t \<in> tagSet (TagIndex project)") (simp_all del: not_None_eq)
  moreover have "tag @ var_TagSuffix variant \<in> set (tag # mget_or [] (mget_or [] (variantsOf project) (img_Identifier img)) tag)"
    using assms(6) variantsOf_get[OF assms(1-5)] by force
  ultimately have "any_opt ?o (tag # mget_or [] (mget_or [] (variantsOf project) (img_Identifier img)) tag) = Some True"
    using hit by (intro any_opt_hit)
  then show ?thesis using True by (simp add: NewBaseTagSharder_def Let_def)
next
  case False
  then show ?thesis by (simp add: NewBaseTagSharder_def)
qed

lemma variant_owner_builds_base_witness:
  "NewTagSharder tagged_project \<lparr>Current = 1, MaxShards = 3\<rparr> ''app'' ''1.0-slim'' = Some True
   \<and> NewBaseTagSharder tagged_project \<lparr>Current = 1, MaxShards = 3\<rparr> ''app'' ''1.0'' = Some True"
proof
  let ?img = "zero_Image\<lparr>img_Identifier := ''app'', img_Tags := [(''1.0'', zero_Tag), (''2.0'', zero_Tag)],
      img_Variants := [(''slim'', zero_ImageVariant\<lparr>var_TagSuffix := ''-slim''\<rparr>)]\<rparr>"
  show own: "NewTagSharder tagged_project \<lparr>Current = 1, MaxShards = 3\<rparr> ''app'' ''1.0-slim'' = Some True"
    by code_simp
  have "NewBaseTagSharder tagged_project \<lparr>Current = 1, MaxShards = 3\<rparr> (img_Identifier ?img) ''1.0'' = Some True"
    by (rule variant_owner_builds_base[where v = "''slim''" and variant = "zero_ImageVariant\<lparr>var_TagSuffix := ''-slim''\<rparr>"])
      (use own in \<open>auto simp: tagged_project_def project_of_def wf_map_def mkeys_def zero_Image_def zero_ImageVariant_def\<close>)
  then show "NewBaseTagSharder tagged_project \<lparr>Current = 1, MaxShards = 3\<rparr> ''app'' ''1.0'' = Some True"
    by simp
qed

definition clashing_project :: ContainerHiveProject where
  "clashing_project =
     (let img = zero_Image\<lparr>img_Identifier := ''app'', img_Name := ''app'',
        img_Tags := [(''1.0'', zero_Tag), (''1.0-slim'', zero_Tag)],
        img_Variants := [(''slim'', zero_ImageVariant\<lparr>var_TagSuffix := ''-slim''\<rparr>)]\<rparr> in
      (project_of [(''app'', [img])])\<lparr>pr_ImagesByIdentifier := [(''app'', img)]\<rparr>)"

text \<open>The count of units per name is not the number of units in the index when two tags
  coincide: a static tag that reads like another tag with a variant's suffix is counted twice.\<close>

lemma unit_count_exceeds_index:
  "mget (UnitCountByName clashing_project) ''app'' = Some 4 \<and> length (TagIndex clashing_project) = 3"
  by code_simp

end
