(* ===== verification/Go_Paths.thy ===== *)
theory Go_Paths
  imports Go_Strings
begin

text \<open>
  The functions of Go's packages \<open>path\<close> and \<open>path/filepath\<close> the sources call, on slash
  separated paths: \<open>Clean\<close>, \<open>Join\<close>, \<open>Base\<close>, \<open>Dir\<close>, \<open>Ext\<close> and \<open>Rel\<close>, by their documented rules.
\<close>

definition slash :: char where "slash = CHR ''/''"

definition is_abs :: "string \<Rightarrow> bool" where
  "is_abs p \<longleftrightarrow> go_has_prefix p ''/''"

text \<open>The elements left of a path: empty and \<open>.\<close> elements go, \<open>..\<close> cancels the one before.\<close>

definition clean_step :: "bool \<Rightarrow> string list \<Rightarrow> string \<Rightarrow> string list" where
  "clean_step rooted out e =
     (if e = [] \<or> e = ''.'' then out
      else if e = ''..'' then
        (if out \<noteq> [] \<and> last out \<noteq> ''..'' then butlast out
         else if rooted then out else out @ [''..''])
      else out @ [e])"

definition clean_elems :: "string \<Rightarrow> string list" where
  "clean_elems p = foldl (clean_step (is_abs p)) [] (go_split slash p)"

definition path_of :: "bool \<Rightarrow> string list \<Rightarrow> string" where
  "path_of rooted es =
     (if rooted then ''/'' @ go_join ''/'' es else if es = [] then ''.'' else go_join ''/'' es)"

definition go_clean :: "string \<Rightarrow> string" where
  "go_clean p = path_of (is_abs p) (clean_elems p)"

definition go_path_join :: "string list \<Rightarrow> string" where
  "go_path_join ps =
     (let ne = filter (\<lambda>p. p \<noteq> []) ps in if ne = [] then [] else go_clean (go_join ''/'' ne))"

fun drop_common :: "string list \<Rightarrow> string list \<Rightarrow> string list \<times> string list" where
  "drop_common (x # xs) (y # ys) = (if x = y then drop_common xs ys else (x # xs, y # ys))"
| "drop_common xs ys = (xs, ys)"

text \<open>\<open>filepath.Rel\<close>; \<open>None\<close> when the target cannot be made relative to the base.\<close>

definition go_rel :: "string \<Rightarrow> string \<Rightarrow> string option" where
  "go_rel base targ =
     (if go_clean base = go_clean targ then Some ''.''
      else if is_abs base \<noteq> is_abs targ then None
      else let (b, t) = drop_common (clean_elems base) (clean_elems targ) in
        if b \<noteq> [] \<and> hd b = ''..'' then None
        else Some (path_of False (replicate (length b) ''..'' @ t)))"

definition strip_slashes :: "string \<Rightarrow> string" where
  "strip_slashes p = rev (dropWhile (\<lambda>c. c = slash) (rev p))"

definition go_base :: "string \<Rightarrow> string" where
  "go_base p =
     (if p = [] then ''.''
      else let q = strip_slashes p in
        if q = [] then ''/'' else last (go_split slash q))"

definition go_dir :: "string \<Rightarrow> string" where
  "go_dir p =
     (case go_last_index_byte p slash of None \<Rightarrow> ''.'' | Some i \<Rightarrow> go_clean (take (Suc i) p))"

definition go_ext :: "string \<Rightarrow> string" where
  "go_ext p =
     (let l = last (go_split slash p) in
      case go_last_index_byte l (CHR ''.'') of None \<Rightarrow> [] | Some i \<Rightarrow> drop i l)"

section \<open>Clean paths\<close>

lemma clean_step_elems:
  "e \<in> set (clean_step r out x) \<Longrightarrow> e \<in> set out \<or> e = x \<and> e \<noteq> [] \<and> e \<noteq> ''.''"
  by (auto simp: clean_step_def dest: in_set_butlastD split: if_splits)

lemma clean_elems_ok:
  assumes "e \<in> set (clean_elems p)"
  shows "e \<noteq> []" and "e \<noteq> ''.''" and "slash \<notin> set e"
proof -
  have "e \<in> set (foldl (clean_step r) out xs) \<Longrightarrow>
      e \<in> set out \<or> e \<in> set xs \<and> e \<noteq> [] \<and> e \<noteq> ''.''" for r out xs
  proof (induction xs arbitrary: out)
    case (Cons x xs)
    then show ?case using clean_step_elems[of e r out x] by auto
  qed simp
  from this[of "is_abs p" "[]" "go_split slash p"] assms
  have "e \<in> set (go_split slash p)" "e \<noteq> []" "e \<noteq> ''.''" by (auto simp: clean_elems_def)
  then show "e \<noteq> []" "e \<noteq> ''.''" "slash \<notin> set e" using go_split_no_sep by blast+
qed

section \<open>Joining plain names\<close>

definition plain_name :: "string \<Rightarrow> bool" where
  "plain_name x \<longleftrightarrow> x \<noteq> [] \<and> x \<noteq> ''.'' \<and> x \<noteq> ''..'' \<and> slash \<notin> set x"

lemma go_split_app: "go_split c (a @ c # b) = go_split c a @ go_split c b"
proof (induction a)
  case (Cons x a)
  then show ?case by (cases "go_split c a") (auto simp: neq_Nil_conv)
qed simp

lemma clean_plain: "list_all plain_name es \<Longrightarrow> foldl (clean_step r) out es = out @ es"
  by (induction es arbitrary: out) (auto simp: clean_step_def plain_name_def)

lemma join_ne: "es \<noteq> [] \<Longrightarrow> list_all plain_name es \<Longrightarrow> go_join ''/'' es \<noteq> [] \<and> \<not> is_abs (go_join ''/'' es)"
  by (cases es rule: list.exhaust; cases "hd es"; cases "tl es")
     (auto simp: plain_name_def is_abs_def go_has_prefix_def slash_def)

lemma path_join_plain:
  assumes "es \<noteq> []" and "list_all plain_name es"
  shows "go_path_join (d # es) = path_of (is_abs d) (clean_elems d @ es)"
proof -
  have ne: "filter (\<lambda>p. p \<noteq> []) es = es"
    using assms(2) by (auto simp: list_all_iff plain_name_def intro: filter_True)
  have split: "go_split slash (go_join ''/'' es) = es"
    using go_split_join[of es slash] assms by (simp add: list_all_iff plain_name_def slash_def)
  show ?thesis
  proof (cases "d = []")
    case True
    then show ?thesis
      using assms join_ne split ne
      by (simp add: go_path_join_def go_clean_def clean_elems_def clean_plain is_abs_def go_has_prefix_def
          clean_step_def)
  next
    case False
    have j: "go_join ''/'' (d # es) = d @ slash # go_join ''/'' es"
      using assms(1) by (cases es) (simp_all add: slash_def)
    have a: "is_abs (d @ slash # go_join ''/'' es) = is_abs d"
      using False by (cases d) (simp_all add: is_abs_def go_has_prefix_def)
    have "go_path_join (d # es) = go_clean (d @ slash # go_join ''/'' es)"
      unfolding go_path_join_def Let_def filter.simps using False ne j by simp
    then show ?thesis
      unfolding go_clean_def clean_elems_def a go_split_app split foldl_append
      by (simp add: clean_plain assms(2))
  qed
qed

lemma path_of_inject:
  assumes "path_of r xs = path_of r ys" and "xs \<noteq> []" and "ys \<noteq> []"
    and "\<And>e. e \<in> set xs \<union> set ys \<Longrightarrow> slash \<notin> set e"
  shows "xs = ys"
proof -
  have "go_join [slash] xs = go_join [slash] ys"
    using assms(1-3) by (simp add: path_of_def slash_def split: if_splits)
  then show ?thesis
    using go_split_join[of xs slash] go_split_join[of ys slash] assms(2-4) by (metis UnCI)
qed

lemma path_of_snoc: "xs \<noteq> [] \<Longrightarrow> \<exists>p. path_of r (xs @ [x]) = p @ x"
proof -
  assume "xs \<noteq> []"
  then have "\<exists>p. go_join ''/'' (xs @ [x]) = p @ x"
    by (induction xs rule: induct_list012) auto
  then show ?thesis by (auto simp: path_of_def)
qed

section \<open>The last element\<close>

definition dir_part :: "string \<Rightarrow> bool" where
  "dir_part pre \<longleftrightarrow> pre = [] \<or> last pre = slash"

lemma path_of_dir_part: "\<exists>pre. dir_part pre \<and> path_of r (es @ [c]) = pre @ c"
proof -
  have "\<exists>pre. dir_part pre \<and> go_join ''/'' (es @ [c]) = pre @ c"
  proof (induction es rule: induct_list012)
    case 1
    then show ?case by (intro exI[of _ "[]"]) (simp add: dir_part_def)
  next
    case (2 x)
    then show ?case by (intro exI[of _ "x @ ''/''"]) (simp add: dir_part_def slash_def)
  next
    case (3 x y zs)
    then obtain pre where "dir_part pre" "go_join ''/'' ((y # zs) @ [c]) = pre @ c" by blast
    then show ?case by (intro exI[of _ "x @ ''/'' @ pre"]) (auto simp: dir_part_def slash_def)
  qed
  then obtain pre where "dir_part pre" "go_join ''/'' (es @ [c]) = pre @ c" by blast
  then show ?thesis
    by (intro exI[of _ "if r then ''/'' @ pre else pre"]) (auto simp: path_of_def dir_part_def slash_def)
qed

lemma last_split_dir_part:
  assumes "dir_part pre" and "slash \<notin> set c"
  shows "last (go_split slash (pre @ c)) = c"
proof (cases "pre = []")
  case False
  then have "pre @ c = butlast pre @ slash # c"
    using assms(1) append_butlast_last_id[of pre] by (simp add: dir_part_def)
  then show ?thesis using go_split_app[of slash "butlast pre" c] go_split_single[OF assms(2)] by (simp only: last_snoc)
qed (simp add: go_split_single assms(2))

lemma base_dir_part:
  assumes "dir_part pre" and "slash \<notin> set c" and "c \<noteq> []"
  shows "go_base (pre @ c) = c"
proof -
  have "strip_slashes (pre @ c) = pre @ c"
    using assms(2,3) by (cases c rule: rev_cases) (auto simp: strip_slashes_def)
  then show ?thesis using last_split_dir_part[OF assms(1,2)] assms(3) by (simp add: go_base_def)
qed

end
