(* ===== verification/Changes.thy ===== *)
theory Changes
  imports Dep_Scan Go_Paths
begin

text \<open>
  Change detection, \<open>internal/changes\<close> and \<open>pkg/changes\<close>: which images a set of changed files
  affects, and which directories trigger an image.  The glob library is a parameter, and so are
  the git library and the file system with its symbolic links.
\<close>

section \<open>Closure (\<open>closure.go\<close>)\<close>

text \<open>The loop ends only if finitely many names are reachable; \<open>None\<close> is a loop that does not.\<close>

partial_function (option) expand_loop ::
  "(string \<Rightarrow> string list) \<Rightarrow> (string, bool) gomap \<Rightarrow> string list \<Rightarrow> (string, bool) gomap option" where
  "expand_loop next' seen queue =
     (case queue of [] \<Rightarrow> Some seen
      | name # queue \<Rightarrow>
          if mget_or False seen name then expand_loop next' seen queue
          else expand_loop next' (mput name True seen) (queue @ next' name))"

declare expand_loop.simps [code]

definition Expand :: "string list \<Rightarrow> (string \<Rightarrow> string list) \<Rightarrow> string list option" where
  "Expand start next' = map_option sorted_keys (expand_loop next' [] start)"

section \<open>Classification (\<open>classify.go\<close>)\<close>

definition UnmatchedAll :: string where "UnmatchedAll = ''all''"
definition UnmatchedIgnore :: string where "UnmatchedIgnore = ''ignore''"

datatype change_error =
    UnknownUnmatched string | InvalidPattern string | GraphFailed resolve_error
  | GitFailed string | RelFailed | OutsideRepository string string

definition ParseUnmatched :: "string \<Rightarrow> change_error + string" where
  "ParseUnmatched value =
     (if value = UnmatchedAll \<or> value = UnmatchedIgnore then Inr value else Inl (UnknownUnmatched value))"

record Rules =
  ru_Exclude :: "string list"
  ru_TreatAsGlobal :: "string list"
  ru_ImageDirs :: "(string, string list) gomap"
  ru_Unmatched :: string

record Classification =
  cl_Global :: bool
  cl_GlobalFile :: string
  cl_Changed :: "string list"

text \<open>The functions of the glob library: is a pattern valid, does it match.\<close>

record glob =
  glob_valid :: "string \<Rightarrow> bool"
  glob_match :: "string \<Rightarrow> string \<Rightarrow> bool"

definition ValidatePatterns :: "glob \<Rightarrow> string list \<Rightarrow> change_error + unit" where
  "ValidatePatterns gl patterns =
     res_fold (\<lambda>_ p. if glob_valid gl p then Inr () else Inl (InvalidPattern p)) () patterns"

definition normalize :: "string \<Rightarrow> string" where
  "normalize file =
     (let file = go_trim_space file in if file = [] then [] else go_trim_prefix (go_clean file) ''./'')"

definition matchAny :: "glob \<Rightarrow> string list \<Rightarrow> string \<Rightarrow> bool" where
  "matchAny gl patterns file = list_ex (\<lambda>pattern. glob_match gl pattern file) patterns"

definition in_dir :: "string \<Rightarrow> string \<Rightarrow> bool" where
  "in_dir file dir \<longleftrightarrow> file = dir \<or> go_has_prefix file (dir @ ''/'')"

definition imagesOwning :: "(string, string list) gomap \<Rightarrow> string \<Rightarrow> string list" where
  "imagesOwning imageDirs file =
     map fst (filter (\<lambda>(name, dirs). list_ex (in_dir file) dirs) imageDirs)"

definition markGlobal :: "string \<Rightarrow> Classification \<Rightarrow> Classification" where
  "markGlobal file c = (if cl_Global c then c else c\<lparr>cl_Global := True, cl_GlobalFile := file\<rparr>)"

type_synonym classify_state = "Classification \<times> (string, bool) gomap"

definition classify_file :: "glob \<Rightarrow> Rules \<Rightarrow> string \<Rightarrow> classify_state \<Rightarrow> classify_state" where
  "classify_file gl rules file s =
     (let (result, changed) = s; file = normalize file in
      if file = [] then s
      else if matchAny gl (ru_TreatAsGlobal rules) file then (markGlobal file result, changed)
      else if matchAny gl (ru_Exclude rules) file then s
      else let names = imagesOwning (ru_ImageDirs rules) file in
      if names \<noteq> [] then (result, fold (\<lambda>name. mput name True) names changed)
      else if file = ''..'' \<or> go_has_prefix file ''../'' then s
      else if ru_Unmatched rules \<noteq> UnmatchedIgnore then (markGlobal file result, changed)
      else s)"

definition Classify :: "glob \<Rightarrow> string list \<Rightarrow> Rules \<Rightarrow> change_error + Classification" where
  "Classify gl files rules =
     res_bind (ValidatePatterns gl (ru_Exclude rules)) (\<lambda>_.
     res_bind (ValidatePatterns gl (ru_TreatAsGlobal rules)) (\<lambda>_.
       let (result, changed) = fold (classify_file gl rules) files
             (\<lparr>cl_Global = False, cl_GlobalFile = [], cl_Changed = []\<rparr>, []) in
       Inr (result\<lparr>cl_Changed := sort (mkeys changed)\<rparr>)))"

section \<open>Detection (\<open>pkg/changes\<close>)\<close>

record ChangeSet =
  cs_Base :: string
  cs_Global :: bool
  cs_Reason :: string
  cs_Changed :: "string list"
  cs_Affected :: "string list"

definition IsAffected :: "ChangeSet option \<Rightarrow> string \<Rightarrow> bool" where
  "IsAffected s name \<longleftrightarrow> (case s of None \<Rightarrow> True | Some set' \<Rightarrow> name \<in> set (cs_Affected set'))"

record ChangeOptions =
  co_Unmatched :: string
  co_Strict :: bool

text \<open>The file system with its symbolic links: \<open>EvalSymlinks\<close> and the mode \<open>Lstat\<close> reports.\<close>

record os =
  os_files :: files
  eval_symlinks :: "string \<Rightarrow> string option"
  is_symlink :: "string \<Rightarrow> bool option"

definition resolvedRoot :: "os \<Rightarrow> string \<Rightarrow> string" where
  "resolvedRoot env dir =
     (if dir = [] then [] else case eval_symlinks env dir of Some r \<Rightarrow> r | None \<Rightarrow> dir)"

definition imageDir :: "os \<Rightarrow> string \<Rightarrow> Image \<Rightarrow> string" where
  "imageDir env projectRoot img =
     (let fallback = ''images/'' @ img_Identifier img in
      if projectRoot \<noteq> [] \<and> img_RootDir img \<noteq> [] then
        (case go_rel projectRoot (resolvedRoot env (img_RootDir img)) of Some rel \<Rightarrow> rel | None \<Rightarrow> fallback)
      else fallback)"

definition ImageDirs :: "os \<Rightarrow> ContainerHiveProject \<Rightarrow> (string, string list) gomap" where
  "ImageDirs env project =
     (let projectRoot = resolvedRoot env (pr_RootDir project) in
      fold (\<lambda>(name, images) dirs.
          let dirs = fold (\<lambda>img dirs. mput name (mget_or [] dirs name @ [imageDir env projectRoot img]) dirs)
                       images dirs in
          case mget dirs name of None \<Rightarrow> dirs | Some ds \<Rightarrow> mput name (sort ds) dirs)
        (pr_ImagesByName project) [])"

definition imageNames :: "ContainerHiveProject \<Rightarrow> string list" where
  "imageNames project = sort (mkeys (pr_ImagesByName project))"

definition imageGraph :: "os \<Rightarrow> ContainerHiveProject \<Rightarrow> change_error + Graph" where
  "imageGraph env project =
     (case BuildDependencyGraph (ScanProjectSource (os_files env) project) project of
        Inl err \<Rightarrow> Inl (GraphFailed err) | Inr graph \<Rightarrow> Inr graph)"

definition ImagesLink :: "os \<Rightarrow> ContainerHiveProject \<Rightarrow> string" where
  "ImagesLink env project =
     (if pr_RootDir project = [] then []
      else if is_symlink env (go_path_join [pr_RootDir project, ''images'']) = Some True then ''images''
      else [])"

text \<open>\<open>Detect\<close>; \<open>None\<close> only if the closure does not end.\<close>

definition detect_rules :: "os \<Rightarrow> ContainerHiveProject \<Rightarrow> string \<Rightarrow> Rules" where
  "detect_rules env project unmatched =
     (let cfg = hc_ChangeDetection (pr_Config project);
          link = ImagesLink env project in
      \<lparr>ru_Exclude = ExcludePatterns cfg,
       ru_TreatAsGlobal = TreatAsGlobalPatterns cfg @ (if link \<noteq> [] then [link] else []),
       ru_ImageDirs = ImageDirs env project, ru_Unmatched = unmatched\<rparr>)"

definition Detect ::
  "glob \<Rightarrow> os \<Rightarrow> ContainerHiveProject \<Rightarrow> string list \<Rightarrow> ChangeOptions \<Rightarrow> (change_error + ChangeSet) option" where
  "Detect gl env project files opts =
     (case (if co_Unmatched opts \<noteq> [] then ParseUnmatched (co_Unmatched opts) else Inr UnmatchedAll) of
        Inl err \<Rightarrow> Some (Inl err)
      | Inr unmatched \<Rightarrow>
     (case imageGraph env project of
        Inl err \<Rightarrow> Some (Inl err)
      | Inr graph \<Rightarrow>
     (case Classify gl files (detect_rules env project unmatched) of
        Inl err \<Rightarrow> Some (Inl err)
      | Inr result \<Rightarrow>
          let set' = \<lparr>cs_Base = [], cs_Global = False, cs_Reason = [], cs_Changed = cl_Changed result,
                      cs_Affected = []\<rparr> in
          if cl_Global result then
            Some (Inr (set'\<lparr>cs_Global := True,
                cs_Reason := cl_GlobalFile result @ '' rebuilds all images'',
                cs_Affected := imageNames project\<rparr>))
          else map_option (\<lambda>affected. Inr (set'\<lparr>cs_Affected := affected\<rparr>))
                 (Expand (cl_Changed result) (Dependents graph)))))"

definition everything :: "ContainerHiveProject \<Rightarrow> string \<Rightarrow> string \<Rightarrow> ChangeSet" where
  "everything project base reason =
     \<lparr>cs_Base = base, cs_Global = True, cs_Reason = reason, cs_Changed = [],
      cs_Affected = imageNames project\<rparr>"

definition relativeDir :: "os \<Rightarrow> string \<Rightarrow> string \<Rightarrow> change_error + string" where
  "relativeDir env base target =
     (case eval_symlinks env base of None \<Rightarrow> Inl RelFailed | Some resolvedBase \<Rightarrow>
      case eval_symlinks env target of None \<Rightarrow> Inl RelFailed | Some resolvedTarget \<Rightarrow>
      case go_rel resolvedBase resolvedTarget of None \<Rightarrow> Inl RelFailed | Some rel \<Rightarrow>
        if rel = ''.'' then Inr []
        else if rel = ''..'' \<or> go_has_prefix rel ''../'' then Inl (OutsideRepository target base)
        else Inr rel)"

definition projectRelative :: "os \<Rightarrow> string \<Rightarrow> string \<Rightarrow> string list \<Rightarrow> change_error + string list" where
  "projectRelative env repoRoot projectRoot files =
     res_bind (relativeDir env repoRoot projectRoot) (\<lambda>prefix'.
       if prefix' = [] then Inr files
       else res_map (\<lambda>file. case go_rel prefix' file of None \<Rightarrow> Inl RelFailed | Some rel \<Rightarrow> Inr rel) files)"

text \<open>The git library: repository root and changed files between the merge base and \<open>HEAD\<close>.\<close>

type_synonym git = "string \<Rightarrow> string \<Rightarrow> string + (string \<times> string list)"

definition DetectFromGit ::
  "glob \<Rightarrow> os \<Rightarrow> git \<Rightarrow> ContainerHiveProject \<Rightarrow> string \<Rightarrow> ChangeOptions \<Rightarrow> (change_error + ChangeSet) option" where
  "DetectFromGit gl env git project base opts =
     (case git (pr_RootDir project) base of
        Inl err \<Rightarrow>
          if co_Strict opts then Some (Inl (GitFailed err))
          else Some (Inr (everything project base (''changed files unknown: '' @ err)))
      | Inr (repoRoot, diffFiles) \<Rightarrow>
          (case projectRelative env repoRoot (pr_RootDir project) diffFiles of
             Inl err \<Rightarrow> Some (Inl err)
           | Inr files \<Rightarrow>
               map_option (map_sum id (\<lambda>set'. set'\<lparr>cs_Base := base\<rparr>)) (Detect gl env project files opts)))"

text \<open>\<open>slices.Compact\<close> on a sorted list.\<close>

definition trigger_dirs ::
  "(string, string list) gomap \<Rightarrow> Graph \<Rightarrow> string \<Rightarrow> string list option" where
  "trigger_dirs imageDirs graph name =
     map_option (\<lambda>deps. remdups_adj (sort (concat (map (\<lambda>dep. mget_or [] imageDirs dep) deps))))
       (Expand [name] (Dependencies graph))"

fun all_dirs :: "(string, string list) gomap \<Rightarrow> Graph \<Rightarrow> string list \<Rightarrow> (string, string list) gomap option" where
  "all_dirs imageDirs graph [] = Some []"
| "all_dirs imageDirs graph (name # names) =
     (case trigger_dirs imageDirs graph name of None \<Rightarrow> None
      | Some dirs \<Rightarrow> map_option (mput name dirs) (all_dirs imageDirs graph names))"

definition TriggerDirs ::
  "os \<Rightarrow> ContainerHiveProject \<Rightarrow> (change_error + (string, string list) gomap) option" where
  "TriggerDirs env project =
     (case imageGraph env project of
        Inl err \<Rightarrow> Some (Inl err)
      | Inr graph \<Rightarrow>
          let imageDirs = ImageDirs env project in
          map_option Inr (all_dirs imageDirs graph (mkeys imageDirs)))"

section \<open>The closure is reachability\<close>

definition reachable :: "(string \<Rightarrow> string list) \<Rightarrow> string set \<Rightarrow> string set" where
  "reachable next' A = {(a, b). b \<in> set (next' a)}\<^sup>* `` A"

lemma reachable_refl: "A \<subseteq> reachable next' A"
  by (auto simp: reachable_def)

lemma reachable_next: "a \<in> reachable next' A \<Longrightarrow> b \<in> set (next' a) \<Longrightarrow> b \<in> reachable next' A"
  by (auto simp: reachable_def intro: rtrancl_into_rtrancl)

lemma reachable_least:
  assumes "A \<subseteq> S" and "\<And>a. a \<in> S \<Longrightarrow> set (next' a) \<subseteq> S"
  shows "reachable next' A \<subseteq> S"
proof -
  have "y \<in> S" if "(x, y) \<in> {(a, b). b \<in> set (next' a)}\<^sup>*" "x \<in> S" for x y
    using that by (induction rule: rtrancl_induct) (use assms(2) in auto)
  then show ?thesis using assms(1) by (auto simp: reachable_def)
qed

definition seen_set :: "(string, bool) gomap \<Rightarrow> string set" where
  "seen_set seen = set (mkeys seen)"

definition all_true :: "(string, bool) gomap \<Rightarrow> bool" where
  "all_true seen \<longleftrightarrow> wf_map seen \<and> (\<forall>n. mget_or False seen n \<longleftrightarrow> n \<in> set (mkeys seen))"

lemma all_true_Nil [simp]: "all_true []"
  by (simp add: all_true_def mkeys_def)

lemma all_true_mput [simp]: "all_true seen \<Longrightarrow> all_true (mput n True seen)"
  by (auto simp: all_true_def)

lemma expand_loop_total:
  assumes "finite R" and "all_true seen" and "set (mkeys seen) \<union> set queue \<subseteq> R"
    and "\<And>a b. a \<in> R \<Longrightarrow> b \<in> set (next' a) \<Longrightarrow> b \<in> R"
    and "\<And>a. a \<in> set (mkeys seen) \<Longrightarrow> set (next' a) \<subseteq> set (mkeys seen) \<union> set queue"
  shows "\<exists>t. expand_loop next' seen queue = Some t \<and> all_true t \<and> set (mkeys t) \<subseteq> R
    \<and> set (mkeys seen) \<union> set queue \<subseteq> set (mkeys t)
    \<and> (\<forall>a \<in> set (mkeys t). set (next' a) \<subseteq> set (mkeys t))"
  using assms(2,3,5)
proof (induction "(card (R - set (mkeys seen)), length queue)" arbitrary: seen queue
    rule: wf_induct_rule[OF wf_lex_prod[OF wf_less_than wf_less_than]])
  case 1
  note IH = 1(1) and tr = 1(2) and sub = 1(3) and cl = 1(4)
  show ?case
  proof (cases queue)
    case Nil
    then show ?thesis using tr sub cl by (subst expand_loop.simps) auto
  next
    case (Cons name q)
    show ?thesis
    proof (cases "mget_or False seen name")
      case True
      then have "name \<in> set (mkeys seen)" using tr by (simp add: all_true_def)
      moreover from this have "set (next' a) \<subseteq> set (mkeys seen) \<union> set q" if "a \<in> set (mkeys seen)" for a
        using cl[OF that] Cons by auto
      ultimately obtain t where "expand_loop next' seen q = Some t" "all_true t" "set (mkeys t) \<subseteq> R"
          "set (mkeys seen) \<union> set q \<subseteq> set (mkeys t)" "\<forall>a \<in> set (mkeys t). set (next' a) \<subseteq> set (mkeys t)"
        using IH[of seen q] tr sub Cons by auto
      then show ?thesis
        using \<open>name \<in> set (mkeys seen)\<close> True Cons by (subst expand_loop.simps) auto
    next
      case False
      let ?seen = "mput name True seen"
      have new: "name \<notin> set (mkeys seen)" and inR: "name \<in> R"
        using False tr sub Cons by (auto simp: all_true_def)
      have "R - set (mkeys ?seen) \<subset> R - set (mkeys seen)" using new inR by auto
      then have dec: "card (R - set (mkeys ?seen)) < card (R - set (mkeys seen))"
        using assms(1) by (intro psubset_card_mono) auto
      have "set (mkeys ?seen) \<union> set (q @ next' name) \<subseteq> R"
        using sub inR assms(4)[OF inR] Cons by auto
      moreover have "set (next' a) \<subseteq> set (mkeys ?seen) \<union> set (q @ next' name)"
        if "a \<in> set (mkeys ?seen)" for a
        using that cl[of a] Cons by auto
      ultimately obtain t where t: "expand_loop next' ?seen (q @ next' name) = Some t" "all_true t"
          "set (mkeys t) \<subseteq> R" "set (mkeys ?seen) \<union> set (q @ next' name) \<subseteq> set (mkeys t)"
          "\<forall>a \<in> set (mkeys t). set (next' a) \<subseteq> set (mkeys t)"
        using IH[of ?seen "q @ next' name"] dec tr by auto
      then show ?thesis
        using False Cons by (subst expand_loop.simps) auto
    qed
  qed
qed

lemma Expand_reachable:
  assumes "finite (reachable next' (set start))"
  shows "Expand start next' = Some (sorted_list_of_set (reachable next' (set start)))"
proof -
  let ?R = "reachable next' (set start)"
  obtain t where t: "expand_loop next' [] start = Some t" "all_true t" "set (mkeys t) \<subseteq> ?R"
      "set start \<subseteq> set (mkeys t)" "\<forall>a \<in> set (mkeys t). set (next' a) \<subseteq> set (mkeys t)"
    using expand_loop_total[OF assms, of "[]" start next'] reachable_refl reachable_next
    by (auto simp: mkeys_def)
  then have "?R \<subseteq> set (mkeys t)" by (intro reachable_least) auto
  with t(3) have eq: "set (mkeys t) = ?R" by blast
  have "sorted_keys t = sorted_list_of_set ?R"
    unfolding sorted_keys_def
    by (rule sorted_distinct_set_unique)
       (use t(2) assms in \<open>simp_all add: distinct_mkeys all_true_def eq\<close>)
  with t(1) show ?thesis by (simp add: Expand_def)
qed

section \<open>The image graph\<close>

lemma imageGraph_wf:
  assumes "imageGraph env project = Inr g" and "wf_map (pr_ImagesByName project)"
  shows "wf_graph g" and "node_set g = set (mkeys (pr_ImagesByName project))"
proof -
  have b: "BuildDependencyGraph (ScanProjectSource (os_files env) project) project = Inr g"
    using assms(1) by (auto simp: imageGraph_def split: sum.splits)
  note o = ScanProjectSource_over[of project "os_files env", unfolded over_def]
  show "wf_graph g" "node_set g = set (mkeys (pr_ImagesByName project))"
    using build_graph_extends(1,2)[OF b _ assms(2)] o by simp_all
qed

lemma finite_dependents:
  assumes "wf_graph g"
  shows "finite (reachable (Dependents g) (set start))"
proof -
  have "reachable (Dependents g) (set start) \<subseteq> set start \<union> node_set g"
    by (rule reachable_least) (use assms in \<open>auto simp: set_Dependents wf_graph_def\<close>)
  then show ?thesis by (rule finite_subset) simp
qed

lemma finite_dependencies:
  assumes "wf_graph g"
  shows "finite (reachable (Dependencies g) (set start))"
proof -
  have "reachable (Dependencies g) (set start) \<subseteq> set start \<union> (\<Union>n \<in> node_set g. deps_of g n)"
  proof (rule reachable_least)
    fix a
    have "a \<in> node_set g \<or> deps_of g a = {}" using assms by (auto simp: wf_graph_def)
    moreover have "set (Dependencies g a) = deps_of g a" by (simp add: Dependencies_def deps_of_def)
    ultimately show "set (Dependencies g a) \<subseteq> set start \<union> (\<Union>n \<in> node_set g. deps_of g n)" by auto
  qed blast
  then show ?thesis by (rule finite_subset) simp
qed

text \<open>Dependents and dependencies are converse.\<close>

lemma dependents_converse:
  assumes "wf_graph g" and "b \<in> reachable (Dependencies g) {a}"
  shows "a \<in> reachable (Dependents g) {b}"
proof -
  have "{(a, b). b \<in> set (Dependents g a)} = {(a, b). b \<in> set (Dependencies g a)}\<inverse>"
    by (auto simp: set_Dependents[OF assms(1)] deps_of_def Dependencies_def)
  then show ?thesis
    using assms(2) by (simp add: reachable_def rtrancl_converse)
qed

section \<open>What a classification says\<close>

text \<open>A file counts for the whole project, or for the images whose directories hold it.\<close>

definition global_file :: "glob \<Rightarrow> Rules \<Rightarrow> string \<Rightarrow> bool" where
  "global_file gl rules f \<longleftrightarrow> f \<noteq> [] \<and> (matchAny gl (ru_TreatAsGlobal rules) f
     \<or> \<not> matchAny gl (ru_Exclude rules) f \<and> imagesOwning (ru_ImageDirs rules) f = []
        \<and> f \<noteq> ''..'' \<and> \<not> go_has_prefix f ''../'' \<and> ru_Unmatched rules \<noteq> UnmatchedIgnore)"

definition image_file :: "glob \<Rightarrow> Rules \<Rightarrow> string \<Rightarrow> bool" where
  "image_file gl rules f \<longleftrightarrow> f \<noteq> [] \<and> \<not> matchAny gl (ru_TreatAsGlobal rules) f
     \<and> \<not> matchAny gl (ru_Exclude rules) f"

definition classified :: "glob \<Rightarrow> Rules \<Rightarrow> string list \<Rightarrow> classify_state \<Rightarrow> bool" where
  "classified gl rules files s \<longleftrightarrow> wf_map (snd s)
     \<and> cl_Global (fst s) = (\<exists>f. f \<in> normalize ` set files \<and> global_file gl rules f)
     \<and> set (mkeys (snd s)) = (\<Union>f \<in> normalize ` set files.
          if image_file gl rules f then set (imagesOwning (ru_ImageDirs rules) f) else {})"

lemma fold_mput_True: "wf_map m \<Longrightarrow> wf_map (fold (\<lambda>n. mput n True) ns m)
   \<and> set (mkeys (fold (\<lambda>n. mput n True) ns m)) = set ns \<union> set (mkeys m)"
  by (induction ns arbitrary: m) auto

lemma markGlobal_Global [simp]: "cl_Global (markGlobal f c)"
  by (simp add: markGlobal_def)

lemma classify_file_step:
  assumes "classified gl rules files s"
  shows "classified gl rules (files @ [f]) (classify_file gl rules f s)"
proof -
  obtain c m where s: "s = (c, m)" by fastforce
  have wf: "wf_map m" using assms by (simp add: classified_def s)
  define nf where "nf = normalize f"
  have step: "classify_file gl rules f s =
      (if global_file gl rules nf then markGlobal nf c else c,
       if image_file gl rules nf then fold (\<lambda>name. mput name True) (imagesOwning (ru_ImageDirs rules) nf) m else m)"
    by (auto simp: classify_file_def s nf_def Let_def global_file_def image_file_def)
  show ?thesis
    using assms fold_mput_True[OF wf, of "imagesOwning (ru_ImageDirs rules) nf"]
    unfolding classified_def s step[unfolded s] fst_conv snd_conv set_append image_Un
    by (auto simp: nf_def[symmetric])
qed

lemma classify_fold:
  "classified gl rules ws s \<Longrightarrow> classified gl rules (ws @ files) (fold (classify_file gl rules) files s)"
proof (induction files arbitrary: ws s)
  case (Cons f files)
  from Cons.IH[OF classify_file_step[OF Cons.prems, of f]] show ?case by simp
qed simp

lemma Classify_props:
  assumes "Classify gl files rules = Inr c"
  shows "cl_Global c \<longleftrightarrow> (\<exists>f. f \<in> normalize ` set files \<and> global_file gl rules f)"
    and "set (cl_Changed c) = (\<Union>f \<in> normalize ` set files.
          if image_file gl rules f then set (imagesOwning (ru_ImageDirs rules) f) else {})"
    and "sorted (cl_Changed c)" and "distinct (cl_Changed c)"
proof -
  let ?s = "fold (classify_file gl rules) files (\<lparr>cl_Global = False, cl_GlobalFile = [], cl_Changed = []\<rparr>, [])"
  have "classified gl rules [] (\<lparr>cl_Global = False, cl_GlobalFile = [], cl_Changed = []\<rparr>, [])"
    by (simp add: classified_def mkeys_def)
  from classify_fold[OF this, of files] have cl: "classified gl rules files ?s" by simp
  have c: "c = (fst ?s)\<lparr>cl_Changed := sort (mkeys (snd ?s))\<rparr>"
    using assms by (auto simp: Classify_def res_iff split: prod.splits)
  show "cl_Global c \<longleftrightarrow> (\<exists>f. f \<in> normalize ` set files \<and> global_file gl rules f)"
    using cl by (simp add: c classified_def)
  show "set (cl_Changed c) = (\<Union>f \<in> normalize ` set files.
      if image_file gl rules f then set (imagesOwning (ru_ImageDirs rules) f) else {})"
    using cl by (simp add: c classified_def)
  show "sorted (cl_Changed c)" by (simp add: c)
  show "distinct (cl_Changed c)" using cl by (simp add: c classified_def distinct_mkeys)
qed

section \<open>The image directories\<close>

lemma ImageDirs_keys: "set (mkeys (ImageDirs env project)) \<subseteq> set (mkeys (pr_ImagesByName project))"
  and wf_ImageDirs: "wf_map (ImageDirs env project)"
proof -
  let ?K = "set (mkeys (pr_ImagesByName project))"
  define P where "P m \<longleftrightarrow> wf_map m \<and> set (mkeys m) \<subseteq> ?K" for m :: "(string, string list) gomap"
  let ?root = "resolvedRoot env (pr_RootDir project)"
  have inner: "P (fold (\<lambda>img dirs. mput name (mget_or [] dirs name @ [imageDir env ?root img]) dirs) images m)"
    if "P m" "name \<in> ?K" for name images m
    by (rule fold_invariant[where P = P, OF that(1)]) (use that(2) in \<open>auto simp: P_def\<close>)
  have "P (ImageDirs env project)"
    unfolding ImageDirs_def Let_def
  proof (rule fold_invariant[where P = P])
    show "P []" by (simp add: P_def mkeys_def)
    fix m e
    assume e: "e \<in> set (pr_ImagesByName project)" and m: "P m"
    then have "fst e \<in> ?K" by (simp add: mkeys_def)
    with inner[OF m this, of "snd e"] show "P ((\<lambda>(name, images) dirs.
          case mget (fold (\<lambda>img dirs. mput name (mget_or [] dirs name @ [imageDir env ?root img]) dirs) images dirs) name of
            None \<Rightarrow> fold (\<lambda>img dirs. mput name (mget_or [] dirs name @ [imageDir env ?root img]) dirs) images dirs
          | Some ds \<Rightarrow> mput name (sort ds) (fold (\<lambda>img dirs. mput name (mget_or [] dirs name @ [imageDir env ?root img]) dirs) images dirs)) e m)"
      unfolding case_prod_unfold by (auto simp: P_def split: option.split)
  qed
  then show "set (mkeys (ImageDirs env project)) \<subseteq> ?K" "wf_map (ImageDirs env project)"
    by (simp_all add: P_def)
qed

lemma imagesOwningI:
  assumes "d \<in> set (mget_or [] dirs name)" and "in_dir file d"
  shows "name \<in> set (imagesOwning dirs file)"
proof -
  obtain ds where ds: "mget dirs name = Some ds" "d \<in> set ds"
    using assms(1) by (cases "mget dirs name") (auto simp: mget_or_def)
  then have "(name, ds) \<in> set dirs" by (auto dest: map_of_SomeD)
  moreover have "list_ex (in_dir file) ds" using ds(2) assms(2) by (auto simp: list_ex_iff)
  ultimately show ?thesis unfolding imagesOwning_def by force
qed

lemma all_dirs_get:
  "all_dirs dirs g names = Some r \<Longrightarrow> mget r name = Some ds \<Longrightarrow> name \<in> set names \<and> trigger_dirs dirs g name = Some ds"
proof (induction names arbitrary: r)
  case (Cons n names)
  then show ?case by (auto split: option.splits if_splits)
qed simp

section \<open>Properties\<close>

lemma Detect_cases:
  assumes "Detect gl env project files opts = Some (Inr s)"
  obtains unmatched g c where "imageGraph env project = Inr g"
    and "Classify gl files (detect_rules env project unmatched) = Inr c"
    and "cs_Global s = cl_Global c" and "cs_Changed s = cl_Changed c"
    and "cl_Global c \<Longrightarrow> cs_Affected s = imageNames project"
    and "\<not> cl_Global c \<Longrightarrow> Expand (cl_Changed c) (Dependents g) = Some (cs_Affected s)"
  using assms that unfolding Detect_def Let_def
  by (auto split: if_splits sum.splits)

text \<open>C5. Detection always ends, and on success the affected images are: every image after a global
  change, otherwise exactly the changed images and everything that depends on one of them, directly
  or not.\<close>

theorem detect_affected:
  assumes "wf_map (pr_ImagesByName project)" and "imageGraph env project = Inr g"
  shows "Detect gl env project files opts \<noteq> None
    \<and> (Detect gl env project files opts = Some (Inr s) \<longrightarrow>
        cs_Affected s = (if cs_Global s then imageNames project
          else sorted_list_of_set ({(a, b). a \<in> deps_of g b}\<^sup>* `` set (cs_Changed s))))"
proof
  note wf = imageGraph_wf[OF assms(2,1)]
  have ex: "Expand start (Dependents g) = Some (sorted_list_of_set (reachable (Dependents g) (set start)))" for start
    by (rule Expand_reachable[OF finite_dependents[OF wf(1)]])
  show "Detect gl env project files opts \<noteq> None"
    unfolding Detect_def assms(2) Let_def by (auto simp: ex split: sum.split)
  have rel: "{(a, b). b \<in> set (Dependents g a)} = {(a, b). a \<in> deps_of g b}"
    by (auto simp: set_Dependents[OF wf(1)])
  show "Detect gl env project files opts = Some (Inr s) \<longrightarrow>
        cs_Affected s = (if cs_Global s then imageNames project
          else sorted_list_of_set ({(a, b). a \<in> deps_of g b}\<^sup>* `` set (cs_Changed s)))"
  proof
    assume "Detect gl env project files opts = Some (Inr s)"
    then show "cs_Affected s = (if cs_Global s then imageNames project
          else sorted_list_of_set ({(a, b). a \<in> deps_of g b}\<^sup>* `` set (cs_Changed s)))"
      by (rule Detect_cases) (auto simp: assms(2) ex reachable_def rel)
  qed
qed

definition any_glob :: glob where
  "any_glob = \<lparr>glob_valid = (\<lambda>_. True), glob_match = (=)\<rparr>"

definition plain_os :: os where
  "plain_os = \<lparr>os_files = \<lparr>read_file = (\<lambda>_. None), stat_ok = (\<lambda>_. False), read_dir = (\<lambda>_. None)\<rparr>,
     eval_symlinks = Some, is_symlink = (\<lambda>_. Some False)\<rparr>"

definition base_and_app :: ContainerHiveProject where
  "base_and_app = project_of
     [(''app'', [zero_Image\<lparr>img_Identifier := ''app'', img_DependsOn := [''base'']\<rparr>]),
      (''base'', [zero_Image\<lparr>img_Identifier := ''base''\<rparr>])]"

definition default_options :: ChangeOptions where
  "default_options = \<lparr>co_Unmatched = [], co_Strict = False\<rparr>"

lemma Detect_example:
  "map_option (map_sum id cs_Affected)
     (Detect any_glob plain_os base_and_app [''images/base/image.yml''] default_options)
   = Some (Inr [''app'', ''base''])"
  by code_simp

lemma imageGraph_example: "\<exists>g. imageGraph plain_os base_and_app = Inr g"
proof -
  have "(case imageGraph plain_os base_and_app of Inl _ \<Rightarrow> False | Inr _ \<Rightarrow> True)" by code_simp
  then show ?thesis by (cases "imageGraph plain_os base_and_app") auto
qed

lemma wf_base_and_app: "wf_map (pr_ImagesByName base_and_app)"
  by (simp add: base_and_app_def project_of_def wf_map_def)

theorem detect_affected_witness:
  "Detect any_glob plain_os base_and_app [''images/base/image.yml''] default_options \<noteq> None
   \<and> (\<exists>g. imageGraph plain_os base_and_app = Inr g)"
  using detect_affected[OF wf_base_and_app, of plain_os] imageGraph_example by blast

text \<open>Classification: the result is global if and only if some file matches a global pattern,
  or matches nothing, lies inside the project and unmatched files count; the changed images are
  those with a directory holding a file that matches neither a global nor an exclude pattern.\<close>

lemma classify_spec:
  assumes "Classify gl files rules = Inr c"
  shows "(cl_Global c \<longleftrightarrow> (\<exists>f. f \<in> normalize ` set files \<and> f \<noteq> [] \<and>
        (matchAny gl (ru_TreatAsGlobal rules) f
         \<or> \<not> matchAny gl (ru_Exclude rules) f \<and> imagesOwning (ru_ImageDirs rules) f = []
            \<and> f \<noteq> ''..'' \<and> \<not> go_has_prefix f ''../'' \<and> ru_Unmatched rules \<noteq> UnmatchedIgnore)))
    \<and> set (cl_Changed c) = {name. \<exists>f dirs. f \<in> normalize ` set files \<and> f \<noteq> []
        \<and> \<not> matchAny gl (ru_TreatAsGlobal rules) f \<and> \<not> matchAny gl (ru_Exclude rules) f
        \<and> (name, dirs) \<in> set (ru_ImageDirs rules) \<and> (\<exists>d. d \<in> set dirs \<and> (f = d \<or> go_has_prefix f (d @ ''/'')))}
    \<and> sorted (cl_Changed c) \<and> distinct (cl_Changed c)"
proof -
  have own: "name \<in> set (imagesOwning dirs f) \<longleftrightarrow>
      (\<exists>ds. (name, ds) \<in> set dirs \<and> (\<exists>d. d \<in> set ds \<and> (f = d \<or> go_has_prefix f (d @ ''/''))))" for name dirs f
    by (force simp: imagesOwning_def list_ex_iff in_dir_def)
  have mem: "name \<in> set (cl_Changed c) \<longleftrightarrow> (\<exists>f. f \<in> normalize ` set files \<and> image_file gl rules f
      \<and> name \<in> set (imagesOwning (ru_ImageDirs rules) f))" for name
    unfolding Classify_props(2)[OF assms] by (auto split: if_splits)
  have "set (cl_Changed c) = {name. \<exists>f dirs. f \<in> normalize ` set files \<and> f \<noteq> []
        \<and> \<not> matchAny gl (ru_TreatAsGlobal rules) f \<and> \<not> matchAny gl (ru_Exclude rules) f
        \<and> (name, dirs) \<in> set (ru_ImageDirs rules) \<and> (\<exists>d. d \<in> set dirs \<and> (f = d \<or> go_has_prefix f (d @ ''/'')))}"
    unfolding set_eq_iff mem own image_file_def mem_Collect_eq by blast
  then show ?thesis
    using Classify_props(1,3,4)[OF assms] unfolding global_file_def by (intro conjI)
qed

lemma classify_spec_witness:
  "\<exists>c. Classify any_glob [''images/base/Dockerfile'', ''README.md'', ''hive.yml''] (detect_rules plain_os base_and_app UnmatchedAll)
       = Inr c \<and> cl_Global c"
proof -
  let ?r = "Classify any_glob [''images/base/Dockerfile'', ''README.md'', ''hive.yml''] (detect_rules plain_os base_and_app UnmatchedAll)"
  have "(case ?r of Inl _ \<Rightarrow> False | Inr _ \<Rightarrow> True)" by code_simp
  then obtain c where c: "?r = Inr c" by (cases ?r) auto
  have "normalize ''hive.yml'' = ''hive.yml''" by code_simp
  moreover have "matchAny any_glob (ru_TreatAsGlobal (detect_rules plain_os base_and_app UnmatchedAll)) ''hive.yml''"
    by code_simp
  ultimately have "cl_Global c"
    using classify_spec[OF c] by (metis (no_types, lifting) image_eqI list.discI list.set_intros)
  with c show ?thesis by blast
qed

text \<open>The directories that trigger an image agree with detection: after a change to a file below
  one of them that no exclude pattern drops, the image is affected.\<close>

lemma trigger_dirs_detected:
  assumes "wf_map (pr_ImagesByName project)"
    and "TriggerDirs env project = Some (Inr dirs)" and "d \<in> set (mget_or [] dirs name)"
    and "f \<in> set files" and "normalize f \<noteq> []"
    and "normalize f = d \<or> go_has_prefix (normalize f) (d @ ''/'')"
    and "\<not> matchAny gl (ExcludePatterns (hc_ChangeDetection (pr_Config project))) (normalize f)"
    and "Detect gl env project files opts = Some (Inr s)"
  shows "IsAffected (Some s) name"
proof -
  obtain g where g: "imageGraph env project = Inr g"
    and ad: "all_dirs (ImageDirs env project) g (mkeys (ImageDirs env project)) = Some dirs"
    using assms(2) by (auto simp: TriggerDirs_def Let_def split: sum.splits)
  note wf = imageGraph_wf[OF g assms(1)]
  obtain ds where ds: "mget dirs name = Some ds" "d \<in> set ds"
    using assms(3) by (cases "mget dirs name") (auto simp: mget_or_def)
  from all_dirs_get[OF ad ds(1)] have nm: "name \<in> set (mkeys (ImageDirs env project))"
    and td: "trigger_dirs (ImageDirs env project) g name = Some ds" by simp_all
  have ex: "Expand start (Dependencies g) = Some (sorted_list_of_set (reachable (Dependencies g) (set start)))" for start
    by (rule Expand_reachable[OF finite_dependencies[OF wf(1)]])
  have ex': "Expand start (Dependents g) = Some (sorted_list_of_set (reachable (Dependents g) (set start)))" for start
    by (rule Expand_reachable[OF finite_dependents[OF wf(1)]])
  have "finite (reachable (Dependencies g) {name})" using finite_dependencies[OF wf(1), of "[name]"] by simp
  then obtain dep where dep: "dep \<in> reachable (Dependencies g) {name}" "d \<in> set (mget_or [] (ImageDirs env project) dep)"
    using td ds(2) ex[of "[name]"] by (auto simp: trigger_dirs_def)
  from assms(8) show ?thesis
  proof (rule Detect_cases)
    fix unmatched h c
    assume h: "imageGraph env project = Inr h"
      and c: "Classify gl files (detect_rules env project unmatched) = Inr c"
      and all: "cl_Global c \<Longrightarrow> cs_Affected s = imageNames project"
      and some: "\<not> cl_Global c \<Longrightarrow> Expand (cl_Changed c) (Dependents h) = Some (cs_Affected s)"
    have hg: "h = g" using g h by simp
    show ?thesis
    proof (cases "cl_Global c")
      case True
      then show ?thesis using all nm ImageDirs_keys[of env project] by (auto simp: IsAffected_def imageNames_def)
    next
      case False
      let ?rules = "detect_rules env project unmatched"
      have "\<not> global_file gl ?rules (normalize f)" using False Classify_props(1)[OF c] assms(4) by blast
      then have "image_file gl ?rules (normalize f)"
        using assms(5,7) by (simp add: global_file_def image_file_def detect_rules_def Let_def)
      moreover have "dep \<in> set (imagesOwning (ImageDirs env project) (normalize f))"
        using dep(2) assms(6) by (intro imagesOwningI) (simp_all add: in_dir_def)
      ultimately have "dep \<in> set (cl_Changed c)"
        unfolding Classify_props(2)[OF c] using assms(4) by (auto simp: detect_rules_def Let_def)
      then have "name \<in> reachable (Dependents g) (set (cl_Changed c))"
        using dependents_converse[OF wf(1) dep(1)] by (auto simp: reachable_def)
      moreover have "cs_Affected s = sorted_list_of_set (reachable (Dependents g) (set (cl_Changed c)))"
        using some[OF False] hg ex' by simp
      ultimately show ?thesis using finite_dependents[OF wf(1)] by (simp add: IsAffected_def)
    qed
  qed
qed

lemma TriggerDirs_example:
  "map_option (map_sum id (\<lambda>m. mget_or [] m ''app'')) (TriggerDirs plain_os base_and_app)
   = Some (Inr [''images/app'', ''images/base''])"
  by code_simp

lemma trigger_dirs_detected_witness:
  "\<exists>s. Detect any_glob plain_os base_and_app [''images/base/image.yml''] default_options = Some (Inr s)
       \<and> IsAffected (Some s) ''app''"
proof -
  let ?d = "Detect any_glob plain_os base_and_app [''images/base/image.yml''] default_options"
  obtain s where s: "?d = Some (Inr s)" using Detect_example
    by (cases ?d; cases "the ?d") auto
  obtain dirs where dirs: "TriggerDirs plain_os base_and_app = Some (Inr dirs)"
    and app: "mget_or [] dirs ''app'' = [''images/app'', ''images/base'']"
    using TriggerDirs_example
    by (cases "TriggerDirs plain_os base_and_app"; cases "the (TriggerDirs plain_os base_and_app)") auto
  have n: "normalize ''images/base/image.yml'' = ''images/base/image.yml''" by code_simp
  have x: "\<not> matchAny any_glob (ExcludePatterns (hc_ChangeDetection (pr_Config base_and_app))) ''images/base/image.yml''"
    by code_simp
  have "IsAffected (Some s) ''app''"
    by (rule trigger_dirs_detected[OF wf_base_and_app dirs _ _ _ _ _ s, where d = "''images/base''"
          and f = "''images/base/image.yml''"]) (simp_all add: app n x go_has_prefix_def)
  with s show ?thesis by blast
qed

end
