(* ===== verification/Tag_Ranges.thy ===== *)
theory Tag_Ranges
  imports Model Go_Regexp Version_Order "HOL-Library.Multiset"
begin

text \<open>
  \<open>internal/tagrange\<close> without its cache: from the versions a source reports to the tags of an
  image.  Parsing, filtering (\<open>filter.go\<close>), ordering (\<open>candidate.go\<close>), selection (\<open>dsl.go\<close>),
  rendering (\<open>template.go\<close>), the pipeline (\<open>generator.go\<close>) and the generators
  (\<open>semver_matrix.go\<close>, \<open>resolve.go\<close>).  The semantic version library and the template engine
  are parameters.
\<close>

section \<open>Parameters\<close>

text \<open>The version library: a type of versions with the methods the sources call.\<close>

record 'v semver_lib =
  sv_parse :: "string \<Rightarrow> 'v option"
  sv_compare :: "'v \<Rightarrow> 'v \<Rightarrow> int"
  sv_major :: "'v \<Rightarrow> 64 word"
  sv_minor :: "'v \<Rightarrow> 64 word"
  sv_patch :: "'v \<Rightarrow> 64 word"
  sv_prerelease :: "'v \<Rightarrow> string"
  sv_string :: "'v \<Rightarrow> string"

text \<open>The value of a template variable, and the engine: a template and its data to text.\<close>

datatype tval = TStr string | TMap "(string, string) gomap"

type_synonym template_data = "(string, tval) gomap"
type_synonym render = "string \<Rightarrow> template_data \<Rightarrow> string option"

section \<open>Candidates\<close>

record RawVersion =
  rv_Raw :: string
  rv_Prerelease :: bool
  rv_Extra :: "(string, string) gomap"

record 'v candidate =
  c_ver :: 'v
  c_raw :: string
  c_prerelease :: bool
  c_extra :: "(string, string) gomap"

text \<open>\<open>sort.SliceStable\<close>: insertion from the right keeps the order of equal elements.\<close>

fun insert_by :: "('a \<Rightarrow> 'a \<Rightarrow> bool) \<Rightarrow> 'a \<Rightarrow> 'a list \<Rightarrow> 'a list" where
  "insert_by lt x [] = [x]"
| "insert_by lt x (y # ys) = (if lt y x then y # insert_by lt x ys else x # y # ys)"

definition stable_sort :: "('a \<Rightarrow> 'a \<Rightarrow> bool) \<Rightarrow> 'a list \<Rightarrow> 'a list" where
  "stable_sort lt xs = foldr (insert_by lt) xs []"

definition before :: "'v semver_lib \<Rightarrow> 'v candidate \<Rightarrow> 'v candidate \<Rightarrow> bool" where
  "before lib a b \<longleftrightarrow>
     (let c = sv_compare lib (c_ver a) (c_ver b) in if c \<noteq> 0 then c > 0 else c_raw a > c_raw b)"

definition sortDescending :: "'v semver_lib \<Rightarrow> 'v candidate list \<Rightarrow> 'v candidate list" where
  "sortDescending lib cs = stable_sort (before lib) cs"

datatype range_error =
    TagNameRequired | NothingParsed nat "string list" | InvalidMin string | InvalidMax string
  | NoCandidates nat | TagTemplate string | InvalidTag string string | ValueTemplate string string
  | MissingExtra string string | TooManyTags nat int
  | UnknownGenerator string | UnknownParam string | SourceRequired | BadParam string string
  | SourceAndGenerator | SourceOrGenerator | SelectRequired
  | SourceFailed string | FetchFailed string | InRange string range_error

section \<open>Filters\<close>

definition hasAnySuffix :: "string \<Rightarrow> string list \<Rightarrow> bool" where
  "hasAnySuffix raw suffixes' = list_ex (\<lambda>s. go_contains raw s) suffixes'"

definition distinctMajorsAscending :: "'v semver_lib \<Rightarrow> 'v candidate list \<Rightarrow> 64 word list" where
  "distinctMajorsAscending lib cs = sort_key sint (remdups (map (\<lambda>c. sv_major lib (c_ver c)) cs))"

text \<open>The loop looking for the first gap; \<open>-1\<close> when there is none.\<close>

fun find_cutoff :: "int \<Rightarrow> 64 word list \<Rightarrow> int" where
  "find_cutoff m (a # b # ms) = (if sint (b - a) > m then sint b else find_cutoff m (b # ms))"
| "find_cutoff m _ = -1"

definition applyMaxMajorIncrement :: "'v semver_lib \<Rightarrow> 'v candidate list \<Rightarrow> int \<Rightarrow> 'v candidate list" where
  "applyMaxMajorIncrement lib cs m =
     (if m \<le> 0 \<or> cs = [] then cs
      else let cutoff = find_cutoff m (distinctMajorsAscending lib cs) in
        if cutoff < 0 then cs
        else filter (\<lambda>c. sint (sv_major lib (c_ver c)) < cutoff) cs)"

definition filter_bound ::
  "'v semver_lib \<Rightarrow> (string \<Rightarrow> range_error) \<Rightarrow> string \<Rightarrow> range_error + 'v option" where
  "filter_bound lib err text =
     (if text = [] then Inr None
      else case sv_parse lib text of None \<Rightarrow> Inl (err text) | Some v \<Rightarrow> Inr (Some v))"

definition keep_candidate ::
  "'v semver_lib \<Rightarrow> bool \<Rightarrow> string list \<Rightarrow> 'v option \<Rightarrow> 'v option \<Rightarrow> 'v candidate \<Rightarrow> bool" where
  "keep_candidate lib excludePrerelease suffixes' minVersion maxVersion c \<longleftrightarrow>
     \<not> (excludePrerelease \<and> c_prerelease c) \<and> \<not> hasAnySuffix (c_raw c) suffixes'
     \<and> (case minVersion of None \<Rightarrow> True | Some v \<Rightarrow> \<not> sv_compare lib (c_ver c) v < 0)
     \<and> (case maxVersion of None \<Rightarrow> True | Some v \<Rightarrow> \<not> sv_compare lib (c_ver c) v > 0)"

definition applyFilters ::
  "'v semver_lib \<Rightarrow> 'v candidate list \<Rightarrow> FilterConfig option \<Rightarrow> range_error + 'v candidate list" where
  "applyFilters lib cs filter' =
     (let (excl, suf, minT, maxT, inc) =
        (case filter' of
           None \<Rightarrow> (True, [], [], [], 0)
         | Some f \<Rightarrow> ((case fc_ExcludePrerelease f of None \<Rightarrow> True | Some b \<Rightarrow> b),
                      fc_ExcludeSuffixes f, fc_MinVersion f, fc_MaxVersion f, fc_MaxMajorIncrement f)) in
      res_bind (filter_bound lib InvalidMin minT) (\<lambda>minVersion.
      res_bind (filter_bound lib InvalidMax maxT) (\<lambda>maxVersion.
        let filtered = applyMaxMajorIncrement lib
              (filter (keep_candidate lib excl suf minVersion maxVersion) cs) inc in
        if filtered = [] then Inl (NoCandidates (length cs)) else Inr filtered)))"

section \<open>Selection\<close>

definition latestOnly :: LevelSelect where
  "latestOnly = \<lparr>ls_Last = 1, ls_All = False\<rparr>"

text \<open>One element of the loop of \<open>groupByLevel\<close>: extend the last run or open a new one.\<close>

definition group_step :: "('a \<Rightarrow> 'k) \<Rightarrow> 'a \<Rightarrow> 'a list list \<times> 'k list \<Rightarrow> 'a list list \<times> 'k list" where
  "group_step key c s =
     (let (groups, groupKeys) = s; k = key c in
      if length groups > 0 \<and> groupKeys ! (length groups - 1) = k
      then (groups[length groups - 1 := groups ! (length groups - 1) @ [c]], groupKeys)
      else (groups @ [[c]], groupKeys @ [k]))"

definition keepLevel :: "'a list \<Rightarrow> LevelSelect \<Rightarrow> 'a list" where
  "keepLevel xs sel =
     (if ls_All sel then xs
      else let last' = (if ls_Last sel \<le> 0 then 1 else ls_Last sel);
               last' = (if last' > int (length xs) then int (length xs) else last') in
        take (nat last') xs)"

definition groupByLevel :: "'a list \<Rightarrow> ('a \<Rightarrow> 'k) \<Rightarrow> LevelSelect \<Rightarrow> 'a list list" where
  "groupByLevel xs key sel =
     (let (groups, _) = fold (group_step key) xs ([], []) in
      if ls_All sel then groups
      else let last' = (if ls_Last sel \<le> 0 then 1 else ls_Last sel);
               last' = (if last' > int (length groups) then int (length groups) else last') in
        take (nat last') groups)"

definition level_of :: "SelectConfig option \<Rightarrow> (SelectConfig \<Rightarrow> LevelSelect option) \<Rightarrow> LevelSelect" where
  "level_of sel f =
     (case sel of None \<Rightarrow> latestOnly | Some s \<Rightarrow> (case f s of None \<Rightarrow> latestOnly | Some l \<Rightarrow> l))"

definition selectVersions :: "'v semver_lib \<Rightarrow> 'v candidate list \<Rightarrow> SelectConfig option \<Rightarrow> 'v candidate list" where
  "selectVersions lib xs sel =
     (let majorSel = level_of sel sel_Major; minorSel = level_of sel sel_Minor;
          patchSel = level_of sel sel_Patch in
      concat (map (\<lambda>majorGroup.
        concat (map (\<lambda>minorGroup. keepLevel minorGroup patchSel)
          (groupByLevel majorGroup (\<lambda>c. sv_minor lib (c_ver c)) minorSel)))
        (groupByLevel xs (\<lambda>c. sv_major lib (c_ver c)) majorSel)))"

section \<open>Rendering\<close>

definition is_tag_first :: "char \<Rightarrow> bool" where
  "is_tag_first x \<longleftrightarrow> is_alnum x \<or> x = CHR ''_''"

definition is_tag_char :: "char \<Rightarrow> bool" where
  "is_tag_char x \<longleftrightarrow> is_alnum x \<or> x \<in> set ''._-''"

text \<open>\<open>^[A-Za-z0-9_][A-Za-z0-9._-]{0,127}$\<close>\<close>

definition ociTagPattern :: rx where
  "ociTagPattern = rx_seqs [rx_begin, RxChar is_tag_first, rx_upto 127 (RxChar is_tag_char), rx_end]"

definition uint_string :: "64 word \<Rightarrow> string" where
  "uint_string w = go_itoa (unat w)"

definition templateData :: "'v semver_lib \<Rightarrow> 'v candidate \<Rightarrow> template_data" where
  "templateData lib c =
     [(''major'', TStr (uint_string (sv_major lib (c_ver c)))),
      (''minor'', TStr (uint_string (sv_minor lib (c_ver c)))),
      (''patch'', TStr (uint_string (sv_patch lib (c_ver c)))),
      (''full'', TStr (sv_string lib (c_ver c))),
      (''raw'', TStr (c_raw c)),
      (''prerelease'', TStr (sv_prerelease lib (c_ver c))),
      (''extra'', TMap (c_extra c))]"

definition renderTagName :: "'v semver_lib \<Rightarrow> render \<Rightarrow> string \<Rightarrow> 'v candidate \<Rightarrow> range_error + string" where
  "renderTagName lib render tmpl c =
     (case render tmpl (templateData lib c) of
        None \<Rightarrow> Inl (TagTemplate (c_raw c))
      | Some name \<Rightarrow>
          if \<not> match_string ociTagPattern name then Inl (InvalidTag name (c_raw c)) else Inr name)"

definition missingMapKey :: string where "missingMapKey = ''<no value>''"

definition render_value ::
  "'v semver_lib \<Rightarrow> render \<Rightarrow> 'v candidate \<Rightarrow> (string, string) gomap \<Rightarrow> string \<times> string
   \<Rightarrow> range_error + (string, string) gomap" where
  "render_value lib render c result kt =
     (let (key, tmpl) = kt in
      case render tmpl (templateData lib c) of
        None \<Rightarrow> Inl (ValueTemplate key (c_raw c))
      | Some rendered \<Rightarrow>
          if go_contains rendered missingMapKey \<and> go_contains tmpl ''.extra.''
          then Inl (MissingExtra key (c_raw c))
          else Inr (mput key rendered result))"

definition renderValues ::
  "'v semver_lib \<Rightarrow> render \<Rightarrow> (string, string) gomap \<Rightarrow> 'v candidate \<Rightarrow> range_error + (string, string) gomap" where
  "renderValues lib render templates c =
     (if templates = [] then Inr [] else res_fold (render_value lib render c) [] templates)"

record GeneratedTag =
  gt_Name :: string
  gt_Versions :: Versions
  gt_BuildArgs :: BuildArgs
  gt_Labels :: Labels
  gt_IsPrerelease :: bool
  gt_Range :: string

fun render_loop ::
  "'v semver_lib \<Rightarrow> render \<Rightarrow> string \<Rightarrow> TagRange \<Rightarrow> string list \<Rightarrow> 'v candidate list
   \<Rightarrow> range_error + GeneratedTag list" where
  "render_loop lib render label tr seen [] = Inr []"
| "render_loop lib render label tr seen (c # cs) =
     res_bind (renderTagName lib render (tr_TagName tr) c) (\<lambda>name.
       if name \<in> set seen then render_loop lib render label tr seen cs
       else res_bind (renderValues lib render (tr_Versions tr) c) (\<lambda>versions.
            res_bind (renderValues lib render (tr_BuildArgs tr) c) (\<lambda>buildArgs.
            res_bind (renderValues lib render (tr_Labels tr) c) (\<lambda>labels.
            res_bind (render_loop lib render label tr (name # seen) cs) (\<lambda>tags.
              Inr (\<lparr>gt_Name = name, gt_Versions = versions, gt_BuildArgs = buildArgs,
                    gt_Labels = labels, gt_IsPrerelease = c_prerelease c, gt_Range = label\<rparr> # tags))))))"

definition renderTags ::
  "'v semver_lib \<Rightarrow> render \<Rightarrow> string \<Rightarrow> TagRange \<Rightarrow> 'v candidate list \<Rightarrow> range_error + GeneratedTag list" where
  "renderTags lib render label tr selected = render_loop lib render label tr [] selected"

section \<open>The pipeline\<close>

definition defaultMaxTags :: int where "defaultMaxTags = 50"

definition parse_candidate :: "'v semver_lib \<Rightarrow> RawVersion \<Rightarrow> 'v candidate option" where
  "parse_candidate lib v =
     (case sv_parse lib (rv_Raw v) of
        None \<Rightarrow> None
      | Some ver \<Rightarrow> Some \<lparr>c_ver = ver, c_raw = rv_Raw v,
          c_prerelease = (rv_Prerelease v \<or> sv_prerelease lib ver \<noteq> []), c_extra = rv_Extra v\<rparr>)"

definition parseCandidates :: "'v semver_lib \<Rightarrow> RawVersion list \<Rightarrow> 'v candidate list \<times> string list" where
  "parseCandidates lib raw =
     (List.map_filter (parse_candidate lib) raw,
      map rv_Raw (filter (\<lambda>v. sv_parse lib (rv_Raw v) = None) raw))"

definition firstN :: "string list \<Rightarrow> nat \<Rightarrow> string list" where
  "firstN s n = (if length s \<le> n then s else take n s)"

definition GenerateTags ::
  "'v semver_lib \<Rightarrow> render \<Rightarrow> string \<Rightarrow> TagRange \<Rightarrow> RawVersion list \<Rightarrow> range_error + GeneratedTag list" where
  "GenerateTags lib render label tr raw =
     (if tr_TagName tr = [] then Inl TagNameRequired
      else let (candidates, unparsed) = parseCandidates lib raw in
      if candidates = [] then Inl (NothingParsed (length raw) (firstN unparsed 5))
      else res_bind (applyFilters lib candidates (tr_Filter tr)) (\<lambda>filtered.
        let selected = selectVersions lib (sortDescending lib filtered) (tr_Select tr) in
        res_bind (renderTags lib render label tr selected) (\<lambda>tags.
          let maxTags = (if tr_MaxTags tr \<le> 0 then defaultMaxTags else tr_MaxTags tr) in
          if int (length tags) > maxTags then Inl (TooManyTags (length tags) maxTags) else Inr tags)))"

section \<open>Generators (\<open>semver_matrix.go\<close>, \<open>resolve.go\<close>)\<close>

definition semverMatrixParams :: "string list" where
  "semverMatrixParams = [''source'', ''image'', ''repo'', ''url'', ''transform'', ''majors'', ''minors'', ''patches'']"

definition positiveIntParam :: "(string, string) gomap \<Rightarrow> string \<Rightarrow> int \<Rightarrow> range_error + int" where
  "positiveIntParam params key def =
     (case mget params key of
        None \<Rightarrow> Inr def
      | Some v \<Rightarrow>
          if v = [] then Inr def
          else let (n, ok) = go_atoi v in
            if \<not> ok \<or> n < 1 then Inl (BadParam key v) else Inr n)"

type_synonym expanded = "SourceConfig \<times> SelectConfig option \<times> FilterConfig option"

definition semverMatrixGenerator :: "(string, string) gomap \<Rightarrow> range_error + expanded" where
  "semverMatrixGenerator params =
     res_bind (res_fold (\<lambda>_ key. if key \<in> set semverMatrixParams then Inr () else Inl (UnknownParam key)) ()
                (mkeys params)) (\<lambda>_.
     let sourceType = mget_or [] params ''source'' in
     if sourceType = [] then Inl SourceRequired
     else res_bind (positiveIntParam params ''majors'' 1) (\<lambda>majors.
          res_bind (positiveIntParam params ''minors'' 1) (\<lambda>minors.
          res_bind (positiveIntParam params ''patches'' 1) (\<lambda>patches.
            Inr (\<lparr>sc_Type = sourceType, sc_URL = mget_or [] params ''url'',
                   sc_Transform = mget_or [] params ''transform'', sc_Headers = [],
                   sc_Image = mget_or [] params ''image'', sc_Repo = mget_or [] params ''repo'',
                   sc_Kind = [], sc_TokenEnv = [], sc_TTL = []\<rparr>,
                 Some \<lparr>sel_Major = Some \<lparr>ls_Last = majors, ls_All = False\<rparr>,
                        sel_Minor = Some \<lparr>ls_Last = minors, ls_All = False\<rparr>,
                        sel_Patch = Some \<lparr>ls_Last = patches, ls_All = False\<rparr>\<rparr>,
                 Some \<lparr>fc_ExcludePrerelease = Some True, fc_ExcludeSuffixes = [], fc_MinVersion = [],
                        fc_MaxVersion = [], fc_MaxMajorIncrement = 0\<rparr>)))))"

definition expandGenerator :: "string \<Rightarrow> (string, string) gomap \<Rightarrow> range_error + expanded" where
  "expandGenerator name params =
     (if name = ''semver-matrix'' then semverMatrixGenerator params else Inl (UnknownGenerator name))"

definition effectiveConfig :: "TagRange \<Rightarrow> range_error + expanded" where
  "effectiveConfig tr =
     (let hasSource = (tr_Source tr \<noteq> None); hasGenerator = (tr_Generator tr \<noteq> []) in
      if hasSource \<and> hasGenerator then Inl SourceAndGenerator
      else if \<not> hasSource \<and> \<not> hasGenerator then Inl SourceOrGenerator
      else if hasGenerator then
        res_bind (expandGenerator (tr_Generator tr) (tr_Params tr)) (\<lambda>(cfg, sel, filter').
          Inr (cfg, (if tr_Select tr \<noteq> None then tr_Select tr else sel),
                    (if tr_Filter tr \<noteq> None then tr_Filter tr else filter')))
      else if tr_Select tr = None then Inl SelectRequired
      else Inr (the (tr_Source tr), tr_Select tr, tr_Filter tr))"

section \<open>Valid tags\<close>

lemma rx_upto_end:
  "rx_match (rx_upto n (RxChar P)) (pv, s) c (\<lambda>q c. if snd q = [] then Some c else None) =
   (if length s \<le> n \<and> list_all P s then Some c else None)"
proof (induction n arbitrary: pv s)
  case (Suc n)
  then show ?case by (cases s) auto
qed simp

lemma ociTagPattern_iff:
  "match_string ociTagPattern name \<longleftrightarrow>
     (case name of [] \<Rightarrow> False | x # r \<Rightarrow> is_tag_first x \<and> length r \<le> 127 \<and> list_all is_tag_char r)"
proof (cases name)
  case Nil
  then show ?thesis
    by (simp add: match_string_def ociTagPattern_def find_submatch_anchored del: rx_upto.simps)
next
  case (Cons x r)
  have "rx_match rx_end q c (\<lambda>q c. Some c) = (if snd q = [] then Some c else None)" for q :: rx_pos and c :: rx_caps
    by simp
  then show ?thesis
    by (simp add: Cons match_string_def ociTagPattern_def find_submatch_anchored rx_upto_end del: rx_upto.simps)
qed

section \<open>Sorting\<close>

lemma mset_insert_by [simp]: "mset (insert_by lt x xs) = add_mset x (mset xs)"
  by (induction xs) auto

lemma mset_stable_sort [simp]: "mset (stable_sort lt xs) = mset xs"
  unfolding stable_sort_def by (induction xs) auto

lemma set_stable_sort [simp]: "set (stable_sort lt xs) = set xs"
  by (metis mset_stable_sort set_mset_mset)

lemma sorted_insert_by:
  assumes "\<And>a b c. \<not> lt b a \<Longrightarrow> \<not> lt c b \<Longrightarrow> \<not> lt c a" and "\<And>a b. lt a b \<Longrightarrow> \<not> lt b a"
    and "sorted_wrt (\<lambda>a b. \<not> lt b a) xs"
  shows "sorted_wrt (\<lambda>a b. \<not> lt b a) (insert_by lt x xs)"
  using assms(3)
proof (induction xs)
  case (Cons y ys)
  have set: "set (insert_by lt x ys) = insert x (set ys)"
    by (metis mset_insert_by set_mset_add_mset_insert set_mset_mset)
  show ?case
  proof (cases "lt y x")
    case True
    then show ?thesis using Cons assms(2)[of y x] set by auto
  next
    case False
    then show ?thesis using Cons.prems assms(1)[of y x] by auto
  qed
qed simp

lemma sorted_stable_sort:
  assumes "\<And>a b c. \<not> lt b a \<Longrightarrow> \<not> lt c b \<Longrightarrow> \<not> lt c a" and "\<And>a b. lt a b \<Longrightarrow> \<not> lt b a"
  shows "sorted_wrt (\<lambda>a b. \<not> lt b a) (stable_sort lt xs)"
  unfolding stable_sort_def by (induction xs) (simp_all add: sorted_insert_by[OF assms])

section \<open>Groups\<close>

lemma remdups_adj_snoc:
  "remdups_adj (xs @ [x]) = (if xs \<noteq> [] \<and> last xs = x then remdups_adj xs else remdups_adj xs @ [x])"
  by (induction xs rule: remdups_adj.induct) auto

text \<open>The runs found so far: together the elements read, each of one key, neighbours apart.\<close>

definition runs :: "('a \<Rightarrow> 'k) \<Rightarrow> 'a list list \<Rightarrow> 'k list \<Rightarrow> bool" where
  "runs key gs ks \<longleftrightarrow> list_all2 (\<lambda>g k. g \<noteq> [] \<and> (\<forall>c \<in> set g. key c = k)) gs ks"

definition run_state :: "('a \<Rightarrow> 'k) \<Rightarrow> 'a list \<Rightarrow> 'a list list \<times> 'k list \<Rightarrow> bool" where
  "run_state key ws s \<longleftrightarrow>
     runs key (fst s) (snd s) \<and> concat (fst s) = ws \<and> snd s = remdups_adj (map key ws)"

lemma group_step_runs:
  assumes "run_state key ws s"
  shows "run_state key (ws @ [c]) (group_step key c s)"
proof -
  obtain gs ks where s: "s = (gs, ks)" by fastforce
  have st: "runs key gs ks" "concat gs = ws" "ks = remdups_adj (map key ws)"
    using assms unfolding run_state_def s fst_conv snd_conv by blast+
  have len: "length gs = length ks" using st(1) by (simp add: runs_def list_all2_lengthD)
  show ?thesis
  proof (cases gs rule: rev_cases)
    case Nil
    then show ?thesis using st len by (auto simp: run_state_def group_step_def runs_def s)
  next
    case (snoc gs' g)
    then obtain ks' k where ks: "ks = ks' @ [k]" using len by (cases ks rule: rev_cases) auto
    have len': "length gs' = length ks'" using len snoc ks by simp
    have r: "runs key gs' ks'" "g \<noteq> []" "\<forall>c \<in> set g. key c = k"
      using st(1) len' by (simp_all add: runs_def list_all2_append snoc ks)
    have ws: "ws = concat gs' @ g" using st(2) snoc by simp
    then have last: "last (map key ws) = k" using r(2,3) by (simp add: last_map)
    have ne: "map key ws \<noteq> []" using ws r(2) by simp
    have at: "gs ! (length gs - 1) = g" "ks ! (length gs - 1) = k"
      using snoc ks len' by (simp_all add: nth_append)
    show ?thesis
    proof (cases "key c = k")
      case True
      have "group_step key c s = (gs' @ [g @ [c]], ks)"
        using True at snoc unfolding group_step_def s by (simp add: Let_def)
      moreover have "remdups_adj (map key (ws @ [c])) = ks"
        using remdups_adj_snoc[of "map key ws" "key c"] last ne True st(3) by simp
      moreover have "runs key (gs' @ [g @ [c]]) ks"
        using r True len' by (simp add: runs_def list_all2_append ks)
      ultimately show ?thesis by (simp add: run_state_def ws)
    next
      case False
      have "group_step key c s = (gs @ [[c]], ks @ [key c])"
        using False at snoc unfolding group_step_def s by (simp add: Let_def)
      moreover have "remdups_adj (map key (ws @ [c])) = ks @ [key c]"
        using remdups_adj_snoc[of "map key ws" "key c"] last False st(3) by auto
      moreover have "runs key (gs @ [[c]]) (ks @ [key c])"
        using st(1) len by (simp add: runs_def list_all2_append)
      ultimately show ?thesis using st(2) by (simp add: run_state_def)
    qed
  qed
qed

lemma group_fold_runs:
  "run_state key ws s \<Longrightarrow> run_state key (ws @ xs) (fold (group_step key) xs s)"
proof (induction xs arbitrary: s ws)
  case (Cons x xs)
  from Cons.IH[OF group_step_runs[OF Cons.prems, of x]] show ?case by simp
qed simp

lemma keepLevel_take: "keepLevel xs sel = take (if ls_All sel then length xs else nat (max 1 (ls_Last sel))) xs"
  by (auto simp: keepLevel_def Let_def max_def min_def)

lemma groupByLevel_runs:
  obtains gs where "groupByLevel xs key sel = keepLevel gs sel" and "concat gs = xs"
    and "runs key gs (remdups_adj (map key xs))"
proof -
  have "run_state key [] ([], [])" by (simp add: run_state_def runs_def)
  from group_fold_runs[OF this, of xs]
  have "run_state key xs (fold (group_step key) xs ([], []))" by simp
  then have "runs key (fst (fold (group_step key) xs ([], []))) (remdups_adj (map key xs))"
    and "concat (fst (fold (group_step key) xs ([], []))) = xs" unfolding run_state_def by metis+
  moreover have "groupByLevel xs key sel = keepLevel (fst (fold (group_step key) xs ([], []))) sel"
    unfolding groupByLevel_def keepLevel_def Let_def case_prod_unfold ..
  ultimately show ?thesis using that by blast
qed

lemma keepLevel_sub: "set (keepLevel xs sel) \<subseteq> set xs"
  by (simp add: keepLevel_take set_take_subset)

lemma keepLevel_ne [simp]: "keepLevel xs sel = [] \<longleftrightarrow> xs = []"
  by (auto simp: keepLevel_take)

lemma groupByLevel_sub: "g \<in> set (groupByLevel xs key sel) \<Longrightarrow> set g \<subseteq> set xs"
proof -
  assume g: "g \<in> set (groupByLevel xs key sel)"
  obtain gs where gs: "groupByLevel xs key sel = keepLevel gs sel" "concat gs = xs"
    using groupByLevel_runs[of xs key sel] by blast
  have "g \<in> set gs" using g gs(1) keepLevel_sub[of gs sel] by auto
  then show ?thesis using gs(2) by auto
qed

lemma in_concat_map: "x \<in> set (concat (map f xs)) \<longleftrightarrow> (\<exists>y \<in> set xs. x \<in> set (f y))"
  by auto

lemma selectVersions_sub: "set (selectVersions lib xs sel) \<subseteq> set xs"
proof
  fix c
  assume "c \<in> set (selectVersions lib xs sel)"
  then obtain g h where g: "g \<in> set (groupByLevel xs (\<lambda>c. sv_major lib (c_ver c)) (level_of sel sel_Major))"
    and h: "h \<in> set (groupByLevel g (\<lambda>c. sv_minor lib (c_ver c)) (level_of sel sel_Minor))"
    and c: "c \<in> set (keepLevel h (level_of sel sel_Patch))"
    unfolding selectVersions_def Let_def in_concat_map by blast
  show "c \<in> set xs"
    using subsetD[OF groupByLevel_sub[OF g] subsetD[OF groupByLevel_sub[OF h] subsetD[OF keepLevel_sub c]]] .
qed

text \<open>Keys of the runs that are kept.\<close>

lemma runs_map_adj:
  assumes "runs key gs ks" and "\<And>g. g \<in> set gs \<Longrightarrow> g \<noteq> [] \<Longrightarrow> f g \<noteq> [] \<and> set (f g) \<subseteq> set g"
    and "remdups_adj ks = ks"
  shows "remdups_adj (map key (concat (map f gs))) = ks"
  using assms
proof (induction gs arbitrary: ks)
  case Nil
  then show ?case by (simp add: runs_def)
next
  case (Cons g gs)
  then obtain k ks' where ks: "ks = k # ks'" and g: "g \<noteq> []" "\<forall>c \<in> set g. key c = k"
    and r: "runs key gs ks'" by (auto simp: runs_def list_all2_Cons1)
  have "distinct_adj (k # ks')" using Cons.prems(3) by (simp add: distinct_adj_altdef ks)
  then have "distinct_adj ks'" and hd: "ks' = [] \<or> k \<noteq> hd ks'"
    by (auto simp: distinct_adj_Cons)
  then have adj: "remdups_adj ks' = ks'" by (simp add: distinct_adj_altdef)
  let ?ys = "map key (concat (map f gs))"
  have IH: "remdups_adj ?ys = ks'"
    using Cons.IH[OF r _ adj] Cons.prems(2) by simp
  have fg: "f g \<noteq> []" "\<And>c. c \<in> set (f g) \<Longrightarrow> key c = k" using Cons.prems(2)[of g] g by auto
  then have const: "map key (f g) = replicate (length (f g)) k" by (induction "f g") (metis map_replicate_const map_cong)+
  have "?ys = [] \<or> k \<noteq> hd ?ys"
    using hd IH by (metis hd_remdups_adj remdups_adj_Nil_iff)
  then have "remdups_adj (map key (f g) @ ?ys) = remdups_adj (map key (f g)) @ ks'"
    unfolding IH[symmetric] by (intro remdups_adj_append') (use fg(1) const in auto)
  then show ?case using fg(1) by (simp add: ks const remdups_adj_replicate)
qed

lemma distinct_adj_take: "remdups_adj ks = ks \<Longrightarrow> remdups_adj (take n ks) = take n ks"
  by (metis append_take_drop_id distinct_adj_altdef distinct_adj_appendD1)

lemma concat_map_ne: "xs \<noteq> [] \<Longrightarrow> (\<And>x. x \<in> set xs \<Longrightarrow> f x \<noteq> []) \<Longrightarrow> concat (map f xs) \<noteq> []"
  by (cases xs) auto

lemma groupByLevel_nonempty:
  assumes "xs \<noteq> []"
  shows "groupByLevel xs key sel \<noteq> []" and "g \<in> set (groupByLevel xs key sel) \<Longrightarrow> g \<noteq> []"
proof -
  obtain gs where gs: "groupByLevel xs key sel = keepLevel gs sel" "concat gs = xs"
    and r: "runs key gs (remdups_adj (map key xs))"
    using groupByLevel_runs[of xs key sel] by blast
  show "groupByLevel xs key sel \<noteq> []" using gs assms by auto
  have ne: "h \<noteq> []" if "h \<in> set gs" for h
    using r that unfolding runs_def list_all2_conv_all_nth by (metis in_set_conv_nth)
  show "g \<in> set (groupByLevel xs key sel) \<Longrightarrow> g \<noteq> []"
    using ne keepLevel_sub[of gs sel] gs(1) by auto
qed

definition pick_minors :: "'v semver_lib \<Rightarrow> SelectConfig option \<Rightarrow> 'v candidate list \<Rightarrow> 'v candidate list" where
  "pick_minors lib sel majorGroup =
     concat (map (\<lambda>minorGroup. keepLevel minorGroup (level_of sel sel_Patch))
       (groupByLevel majorGroup (\<lambda>c. sv_minor lib (c_ver c)) (level_of sel sel_Minor)))"

lemma pick_minors_props: "g \<noteq> [] \<Longrightarrow> pick_minors lib sel g \<noteq> [] \<and> set (pick_minors lib sel g) \<subseteq> set g"
proof
  assume g: "g \<noteq> []"
  show "pick_minors lib sel g \<noteq> []"
    unfolding pick_minors_def using groupByLevel_nonempty[OF g] by (intro concat_map_ne) simp_all
  show "set (pick_minors lib sel g) \<subseteq> set g"
  proof
    fix c
    assume "c \<in> set (pick_minors lib sel g)"
    then obtain h where h: "h \<in> set (groupByLevel g (\<lambda>c. sv_minor lib (c_ver c)) (level_of sel sel_Minor))"
      and c: "c \<in> set (keepLevel h (level_of sel sel_Patch))"
      unfolding pick_minors_def in_concat_map by blast
    show "c \<in> set g" using subsetD[OF groupByLevel_sub[OF h] subsetD[OF keepLevel_sub c]] .
  qed
qed

lemma selectVersions_ne: "xs \<noteq> [] \<Longrightarrow> selectVersions lib xs sel \<noteq> []"
  unfolding selectVersions_def Let_def pick_minors_def[symmetric]
  using groupByLevel_nonempty[of xs] pick_minors_props by (intro concat_map_ne) blast+

section \<open>Properties\<close>

text \<open>Selection keeps majors by the configured number: read from the top, the majors of the
  selected versions are the first so many of the majors of the list (one when the level is not
  configured), in the same order; every selected version is one of the list.\<close>

lemma select_keeps_first_majors:
  "remdups_adj (map (\<lambda>c. sv_major lib (c_ver c)) (selectVersions lib xs sel)) =
     (let l = (case sel of None \<Rightarrow> latestOnly | Some s \<Rightarrow> (case sel_Major s of None \<Rightarrow> latestOnly | Some l \<Rightarrow> l));
          majors = remdups_adj (map (\<lambda>c. sv_major lib (c_ver c)) xs) in
      take (if ls_All l then length majors else nat (max 1 (ls_Last l))) majors)
   \<and> set (selectVersions lib xs sel) \<subseteq> set xs"
proof
  let ?key = "\<lambda>c. sv_major lib (c_ver c)" and ?l = "level_of sel sel_Major"
  obtain gs where gs: "groupByLevel xs ?key ?l = keepLevel gs ?l" "concat gs = xs"
    and r: "runs ?key gs (remdups_adj (map ?key xs))"
    using groupByLevel_runs[of xs ?key ?l] by blast
  let ?ks = "remdups_adj (map ?key xs)"
  have len: "length gs = length ?ks" using r by (simp add: runs_def list_all2_lengthD)
  define n where "n = (if ls_All ?l then length ?ks else nat (max 1 (ls_Last ?l)))"
  have keep: "keepLevel gs ?l = take n gs" by (simp add: keepLevel_take n_def len)
  have r': "runs ?key (take n gs) (take n ?ks)"
    using r unfolding runs_def by (rule list_all2_takeI)
  have adj: "remdups_adj (take n ?ks) = take n ?ks"
    by (rule distinct_adj_take) (simp add: distinct_adj_altdef[symmetric])
  have "remdups_adj (map ?key (concat (map (pick_minors lib sel) (take n gs)))) = take n ?ks"
    by (rule runs_map_adj[OF r' _ adj]) (rule pick_minors_props)
  moreover have "selectVersions lib xs sel = concat (map (pick_minors lib sel) (take n gs))"
    unfolding selectVersions_def Let_def gs keep pick_minors_def ..
  ultimately show "remdups_adj (map ?key (selectVersions lib xs sel)) =
     (let l = (case sel of None \<Rightarrow> latestOnly | Some s \<Rightarrow> (case sel_Major s of None \<Rightarrow> latestOnly | Some l \<Rightarrow> l));
          majors = ?ks in
      take (if ls_All l then length majors else nat (max 1 (ls_Last l))) majors)"
    unfolding Let_def by (simp only: n_def level_of_def)
  show "set (selectVersions lib xs sel) \<subseteq> set xs" by (rule selectVersions_sub)
qed

lemma applyMaxMajorIncrement_sub: "set (applyMaxMajorIncrement lib cs m) \<subseteq> set cs"
  by (auto simp: applyMaxMajorIncrement_def Let_def)

lemma applyFilters_kept:
  assumes "applyFilters lib cs f = Inr filtered" and "c \<in> set filtered"
  shows "c \<in> set cs" and "c_prerelease c \<Longrightarrow> \<exists>g. f = Some g \<and> fc_ExcludePrerelease g = Some False"
    and "f = Some g \<Longrightarrow> s \<in> set (fc_ExcludeSuffixes g) \<Longrightarrow> \<not> go_contains (c_raw c) s"
    and "f = Some g \<Longrightarrow> fc_MinVersion g \<noteq> [] \<Longrightarrow>
      \<exists>v. sv_parse lib (fc_MinVersion g) = Some v \<and> sv_compare lib (c_ver c) v \<ge> 0"
    and "f = Some g \<Longrightarrow> fc_MaxVersion g \<noteq> [] \<Longrightarrow>
      \<exists>v. sv_parse lib (fc_MaxVersion g) = Some v \<and> sv_compare lib (c_ver c) v \<le> 0"
proof -
  define cfg where "cfg = (case f of None \<Rightarrow> (True, [], [], [], 0)
         | Some f \<Rightarrow> ((case fc_ExcludePrerelease f of None \<Rightarrow> True | Some b \<Rightarrow> b),
                      fc_ExcludeSuffixes f, fc_MinVersion f, fc_MaxVersion f, fc_MaxMajorIncrement f))"
  obtain excl suf minT maxT inc where d: "cfg = (excl, suf, minT, maxT, inc)" by (cases cfg) auto
  from assms(1) obtain mn mx where mn: "filter_bound lib InvalidMin minT = Inr mn"
    and mx: "filter_bound lib InvalidMax maxT = Inr mx"
    and fl: "filtered = applyMaxMajorIncrement lib (filter (keep_candidate lib excl suf mn mx) cs) inc"
    unfolding applyFilters_def cfg_def[symmetric] d by (auto simp: res_iff Let_def split: if_splits)
  have c: "c \<in> set cs" "keep_candidate lib excl suf mn mx c"
    using assms(2) applyMaxMajorIncrement_sub[of lib "filter (keep_candidate lib excl suf mn mx) cs" inc] fl
    by auto
  show "c \<in> set cs" by fact
  show "c_prerelease c \<Longrightarrow> \<exists>g. f = Some g \<and> fc_ExcludePrerelease g = Some False"
    using c(2) d by (auto simp: keep_candidate_def cfg_def split: option.splits)
  show "f = Some g \<Longrightarrow> s \<in> set (fc_ExcludeSuffixes g) \<Longrightarrow> \<not> go_contains (c_raw c) s"
    using c(2) d by (auto simp: keep_candidate_def cfg_def hasAnySuffix_def list_ex_iff)
  show "f = Some g \<Longrightarrow> fc_MinVersion g \<noteq> [] \<Longrightarrow>
      \<exists>v. sv_parse lib (fc_MinVersion g) = Some v \<and> sv_compare lib (c_ver c) v \<ge> 0"
    using c(2) d mn by (auto simp: keep_candidate_def cfg_def filter_bound_def split: option.splits)
  show "f = Some g \<Longrightarrow> fc_MaxVersion g \<noteq> [] \<Longrightarrow>
      \<exists>v. sv_parse lib (fc_MaxVersion g) = Some v \<and> sv_compare lib (c_ver c) v \<le> 0"
    using c(2) d mx by (auto simp: keep_candidate_def cfg_def filter_bound_def split: option.splits)
qed

text \<open>The rendered tags: distinct names not seen before, each from the first candidate giving it.\<close>

definition rendered_first ::
  "'v semver_lib \<Rightarrow> render \<Rightarrow> string \<Rightarrow> TagRange \<Rightarrow> 'v candidate list \<Rightarrow> GeneratedTag \<Rightarrow> bool" where
  "rendered_first lib render label tr cs t \<longleftrightarrow>
     (\<exists>xs c ys. cs = xs @ c # ys \<and> renderTagName lib render (tr_TagName tr) c = Inr (gt_Name t)
      \<and> (\<forall>x. x \<in> set xs \<longrightarrow> renderTagName lib render (tr_TagName tr) x \<noteq> Inr (gt_Name t))
      \<and> renderValues lib render (tr_Versions tr) c = Inr (gt_Versions t)
      \<and> gt_IsPrerelease t = c_prerelease c \<and> gt_Range t = label)"

lemma rendered_first_Cons:
  assumes "rendered_first lib render label tr cs t" and "renderTagName lib render (tr_TagName tr) c = Inr name"
    and "gt_Name t \<noteq> name"
  shows "rendered_first lib render label tr (c # cs) t"
proof -
  from assms(1) obtain xs c' ys where "cs = xs @ c' # ys" "renderTagName lib render (tr_TagName tr) c' = Inr (gt_Name t)"
    and xs: "\<forall>x. x \<in> set xs \<longrightarrow> renderTagName lib render (tr_TagName tr) x \<noteq> Inr (gt_Name t)"
    and "renderValues lib render (tr_Versions tr) c' = Inr (gt_Versions t)"
    "gt_IsPrerelease t = c_prerelease c'" "gt_Range t = label"
    unfolding rendered_first_def by (elim exE conjE)
  moreover have "\<forall>x. x \<in> set (c # xs) \<longrightarrow> renderTagName lib render (tr_TagName tr) x \<noteq> Inr (gt_Name t)"
    using xs assms(2,3) by auto
  ultimately show ?thesis
    unfolding rendered_first_def by (intro exI[of _ "c # xs"] exI[of _ c'] exI[of _ ys]) simp
qed

lemma render_loop_props:
  "render_loop lib render label tr seen cs = Inr tags \<Longrightarrow>
   distinct (map gt_Name tags) \<and> set (map gt_Name tags) \<inter> set seen = {}
   \<and> list_all (rendered_first lib render label tr cs) tags \<and> (cs \<noteq> [] \<longrightarrow> seen = [] \<longrightarrow> tags \<noteq> [])"
proof (induction cs arbitrary: seen tags)
  case (Cons c cs)
  from Cons.prems obtain name where name: "renderTagName lib render (tr_TagName tr) c = Inr name"
    by (auto simp: res_iff)
  note lift = rendered_first_Cons[OF _ name]
  show ?case
  proof (cases "name \<in> set seen")
    case True
    then have "render_loop lib render label tr seen cs = Inr tags" using Cons.prems name by simp
    note IH = Cons.IH[OF this]
    then have "gt_Name t \<noteq> name" if "t \<in> set tags" for t using that True by auto
    then have "list_all (rendered_first lib render label tr (c # cs)) tags"
      using IH lift by (simp add: list_all_iff)
    then show ?thesis using IH True by auto
  next
    case False
    with Cons.prems name obtain vs bs ls rest where vs: "renderValues lib render (tr_Versions tr) c = Inr vs"
      and r: "render_loop lib render label tr (name # seen) cs = Inr rest"
      and tags: "tags = \<lparr>gt_Name = name, gt_Versions = vs, gt_BuildArgs = bs, gt_Labels = ls,
          gt_IsPrerelease = c_prerelease c, gt_Range = label\<rparr> # rest"
      by (auto simp: res_iff)
    note IH = Cons.IH[OF r]
    have first: "rendered_first lib render label tr (c # cs) (hd tags)"
      unfolding rendered_first_def using name vs
      by (intro exI[of _ "[]"] exI[of _ c] exI[of _ cs]) (simp add: tags)
    have "gt_Name t \<noteq> name" if "t \<in> set rest" for t using that IH by auto
    then have "list_all (rendered_first lib render label tr (c # cs)) rest"
      using IH lift by (simp add: list_all_iff)
    with first IH False show ?thesis by (auto simp: tags)
  qed
qed simp

lemma GenerateTags_stages:
  assumes "GenerateTags lib render label tr raw = Inr tags"
  obtains filtered where
    "applyFilters lib (fst (parseCandidates lib raw)) (tr_Filter tr) = Inr filtered" and "filtered \<noteq> []"
    and "render_loop lib render label tr [] (selectVersions lib (sortDescending lib filtered) (tr_Select tr)) = Inr tags"
    and "int (length tags) \<le> (if tr_MaxTags tr \<le> 0 then defaultMaxTags else tr_MaxTags tr)"
proof -
  obtain cs un where p: "parseCandidates lib raw = (cs, un)" by fastforce
  from assms obtain filtered where f: "applyFilters lib cs (tr_Filter tr) = Inr filtered"
    and r: "renderTags lib render label tr (selectVersions lib (sortDescending lib filtered) (tr_Select tr)) = Inr tags"
    and m: "int (length tags) \<le> (if tr_MaxTags tr \<le> 0 then defaultMaxTags else tr_MaxTags tr)"
    by (auto simp: GenerateTags_def p res_iff Let_def not_less split: if_splits)
  have "filtered \<noteq> []" using f unfolding applyFilters_def
    by (auto simp: res_iff Let_def split: prod.splits if_splits)
  with that[of filtered] f r m p show ?thesis by (simp add: renderTags_def)
qed

lemma parseCandidates_mem:
  "c \<in> set (fst (parseCandidates lib raw)) \<Longrightarrow> \<exists>v \<in> set raw. parse_candidate lib v = Some c"
  by (auto simp: parseCandidates_def List.map_filter_def)

lemma set_sortDescending [simp]: "set (sortDescending lib cs) = set cs"
  by (simp add: sortDescending_def)


text \<open>An instance of the parameters for the examples: versions are numbers, templates the data's raw text.\<close>

definition nat_lib :: "nat semver_lib" where
  "nat_lib = \<lparr>sv_parse = (\<lambda>s. if s \<noteq> [] \<and> list_all is_digit s then Some (nat (fst (go_atoi s))) else None),
     sv_compare = (\<lambda>a b. int a - int b), sv_major = word_of_nat, sv_minor = (\<lambda>_. 0), sv_patch = (\<lambda>_. 0),
     sv_prerelease = (\<lambda>_. []), sv_string = go_itoa\<rparr>"

definition raw_render :: render where
  "raw_render tmpl data = (case mget data ''raw'' of Some (TStr s) \<Rightarrow> Some s | _ \<Rightarrow> None)"

definition some_range :: TagRange where
  "some_range = \<lparr>tr_TagName = ''t'', tr_Source = None, tr_Generator = [], tr_Params = [],
     tr_Select = Some \<lparr>sel_Major = Some \<lparr>ls_Last = 2, ls_All = False\<rparr>, sel_Minor = None, sel_Patch = None\<rparr>,
     tr_Filter = None, tr_MaxTags = 0, tr_Versions = [], tr_BuildArgs = [], tr_Labels = []\<rparr>"

definition some_versions :: "RawVersion list" where
  "some_versions = map (\<lambda>s. \<lparr>rv_Raw = s, rv_Prerelease = False, rv_Extra = []\<rparr>) [''3'', ''latest'', ''12'', ''7'']"

lemma GenerateTags_example:
  "map_sum id (map gt_Name) (GenerateTags nat_lib raw_render ''app'' some_range some_versions) = Inr [''12'', ''7'']"
  by code_simp

lemma GenerateTags_exampleE:
  obtains tags where "GenerateTags nat_lib raw_render ''app'' some_range some_versions = Inr tags"
    and "map gt_Name tags = [''12'', ''7'']"
  using GenerateTags_example
  by (cases "GenerateTags nat_lib raw_render ''app'' some_range some_versions") auto


text \<open>Selection keeps the order of the list.\<close>

lemma subseq_take: "subseq (take n xs) xs"
  by (metis append_take_drop_id list_emb_append2 subseq_order.refl subseq_rev_drop_many)

lemma subseq_concat_map: "(\<And>x. x \<in> set xs \<Longrightarrow> subseq (f x) (g x)) \<Longrightarrow> subseq (concat (map f xs)) (concat (map g xs))"
  by (induction xs) (auto intro: list_emb_append_mono)

lemma subseq_groups: "subseq (concat (groupByLevel xs key sel)) xs"
proof -
  obtain gs where gs: "groupByLevel xs key sel = keepLevel gs sel" "concat gs = xs"
    using groupByLevel_runs[of xs key sel] by blast
  have "subseq (concat (take n gs)) (concat gs)" for n
    by (metis append_take_drop_id concat_append list_emb_append2 subseq_order.refl subseq_rev_drop_many)
  then show ?thesis by (simp add: gs keepLevel_take)
qed

lemma subseq_pick_minors: "subseq (pick_minors lib sel g) g"
proof -
  have "subseq (pick_minors lib sel g)
      (concat (map (\<lambda>h. h) (groupByLevel g (\<lambda>c. sv_minor lib (c_ver c)) (level_of sel sel_Minor))))"
    unfolding pick_minors_def by (rule subseq_concat_map) (simp add: keepLevel_take subseq_take)
  also have "subseq \<dots> g" using subseq_groups by simp
  finally show ?thesis .
qed

lemma subseq_selectVersions: "subseq (selectVersions lib xs sel) xs"
proof -
  have "subseq (selectVersions lib xs sel)
      (concat (map (\<lambda>g. g) (groupByLevel xs (\<lambda>c. sv_major lib (c_ver c)) (level_of sel sel_Major))))"
    unfolding selectVersions_def Let_def pick_minors_def[symmetric]
    by (rule subseq_concat_map) (rule subseq_pick_minors)
  also have "subseq \<dots> xs" using subseq_groups by simp
  finally show ?thesis .
qed

lemma sorted_wrt_subseq': "subseq xs ys \<Longrightarrow> sorted_wrt P ys \<Longrightarrow> sorted_wrt P xs"
  by (induction rule: list_emb.induct) (auto dest: list_emb_set)

lemma sorted_sortDescending:
  assumes "version_order (sv_compare lib)"
  shows "sorted_wrt (\<lambda>a b. sv_compare lib (c_ver b) (c_ver a) \<le> 0) (sortDescending lib cs)"
proof -
  note vo = assms(1)
  note cmp_trans = version_order.cmp_trans[OF vo] and cmp_flip = version_order.cmp_flip[OF vo]
    and cmp_eq_sym = version_order.cmp_eq_sym[OF vo] and cmp_eq_trans = version_order.cmp_eq_trans[OF vo]
    and cmp_refl = version_order.cmp_refl[OF vo]
  have "sorted_wrt (\<lambda>a b. \<not> before lib b a) (sortDescending lib cs)"
    unfolding sortDescending_def
  proof (rule sorted_stable_sort)
    fix a b c
    assume ab: "\<not> before lib b a" and bc: "\<not> before lib c b"
    then have le: "sv_compare lib (c_ver b) (c_ver a) \<le> 0" "sv_compare lib (c_ver c) (c_ver b) \<le> 0"
      by (auto simp: before_def Let_def split: if_splits)
    then have ca: "sv_compare lib (c_ver c) (c_ver a) \<le> 0" using cmp_trans by blast
    show "\<not> before lib c a"
    proof (cases "sv_compare lib (c_ver c) (c_ver a) = 0")
      case True
      then have "sv_compare lib (c_ver a) (c_ver c) = 0" using cmp_eq_sym by blast
      then have "sv_compare lib (c_ver a) (c_ver b) \<le> 0" using le(2) cmp_trans by (metis order_refl)
      then have "sv_compare lib (c_ver b) (c_ver a) = 0" using le(1) cmp_flip[of "c_ver a" "c_ver b"] by simp
      moreover have "sv_compare lib (c_ver c) (c_ver b) = 0"
        using True \<open>sv_compare lib (c_ver b) (c_ver a) = 0\<close> cmp_eq_trans cmp_eq_sym by blast
      ultimately show ?thesis using True ab bc by (auto simp: before_def)
    qed (use ca in \<open>auto simp: before_def\<close>)
  next
    fix a b
    show "before lib a b \<Longrightarrow> \<not> before lib b a"
      using cmp_flip[of "c_ver a" "c_ver b"] by (auto simp: before_def Let_def split: if_splits)
  qed
  then show ?thesis
    by (rule sorted_wrt_mono_rel[rotated]) (auto simp: before_def Let_def split: if_splits)
qed

text \<open>When versions are ordered, the highest selected version wins a name: a generated tag
  carries the values rendered from a selected version that no other selected version with the
  same rendered name exceeds.\<close>

lemma highest_version_wins_name:
  assumes "version_order (sv_compare lib)"
    and "GenerateTags lib render label tr raw = Inr tags" and "t \<in> set tags"
  shows "\<exists>filtered c. applyFilters lib (fst (parseCandidates lib raw)) (tr_Filter tr) = Inr filtered
    \<and> c \<in> set (selectVersions lib (sortDescending lib filtered) (tr_Select tr))
    \<and> renderTagName lib render (tr_TagName tr) c = Inr (gt_Name t)
    \<and> renderValues lib render (tr_Versions tr) c = Inr (gt_Versions t)
    \<and> (\<forall>d. d \<in> set (selectVersions lib (sortDescending lib filtered) (tr_Select tr))
         \<longrightarrow> renderTagName lib render (tr_TagName tr) d = Inr (gt_Name t)
         \<longrightarrow> sv_compare lib (c_ver d) (c_ver c) \<le> 0)"
proof -
  note vo = assms(1)
  note cmp_trans = version_order.cmp_trans[OF vo] and cmp_flip = version_order.cmp_flip[OF vo]
    and cmp_eq_sym = version_order.cmp_eq_sym[OF vo] and cmp_eq_trans = version_order.cmp_eq_trans[OF vo]
    and cmp_refl = version_order.cmp_refl[OF vo]
  from GenerateTags_stages[OF assms(2)] obtain filtered where
    f: "applyFilters lib (fst (parseCandidates lib raw)) (tr_Filter tr) = Inr filtered"
    and r: "render_loop lib render label tr [] (selectVersions lib (sortDescending lib filtered) (tr_Select tr)) = Inr tags" by blast
  let ?sel = "selectVersions lib (sortDescending lib filtered) (tr_Select tr)"
  have sorted: "sorted_wrt (\<lambda>a b. sv_compare lib (c_ver b) (c_ver a) \<le> 0) ?sel"
    by (rule sorted_wrt_subseq'[OF subseq_selectVersions sorted_sortDescending[OF assms(1)]])
  have "rendered_first lib render label tr ?sel t" using render_loop_props[OF r] assms(3) by (simp add: list_all_iff)
  then obtain xs c ys where sel: "?sel = xs @ c # ys"
    and c: "renderTagName lib render (tr_TagName tr) c = Inr (gt_Name t)"
    and xs: "\<forall>x. x \<in> set xs \<longrightarrow> renderTagName lib render (tr_TagName tr) x \<noteq> Inr (gt_Name t)"
    and v: "renderValues lib render (tr_Versions tr) c = Inr (gt_Versions t)"
    unfolding rendered_first_def by (elim exE conjE)
  have "sv_compare lib (c_ver d) (c_ver c) \<le> 0"
    if "d \<in> set ?sel" "renderTagName lib render (tr_TagName tr) d = Inr (gt_Name t)" for d
  proof -
    have "d = c \<or> d \<in> set ys" using that xs unfolding sel by auto
    then show ?thesis using sorted cmp_refl unfolding sel sorted_wrt_append by auto
  qed
  moreover have "c \<in> set ?sel" unfolding sel by simp
  ultimately show ?thesis using f c v by (intro exI[of _ filtered] exI[of _ c]) simp
qed

lemma highest_version_wins_name_witness:
  "\<exists>filtered. applyFilters nat_lib (fst (parseCandidates nat_lib some_versions)) None = Inr filtered"
proof -
  obtain tags where tags: "GenerateTags nat_lib raw_render ''app'' some_range some_versions = Inr tags"
    "map gt_Name tags = [''12'', ''7'']" by (rule GenerateTags_exampleE)
  then obtain t where t: "t \<in> set tags" by (cases tags) auto
  have "version_order (sv_compare nat_lib)" by unfold_locales (simp_all add: nat_lib_def)
  from highest_version_wins_name[OF this tags(1) t] show ?thesis
    by (simp add: some_range_def) blast
qed

end
