(* ===== verification/Platforms.thy ===== *)
theory Platforms
  imports Model
begin

text \<open>
  \<open>pkg/platform/platform.go\<close>: canonical platform names, and the platforms an image is built for
  from the levels variant, image and project, cut down to an explicit request.
\<close>

section \<open>Names\<close>

definition DefaultPlatforms :: "string list" where
  "DefaultPlatforms = [''linux/amd64'', ''linux/arm64'']"

definition Normalize :: "string \<Rightarrow> string" where
  "Normalize p = (if \<not> go_contains p ''/'' then ''linux/'' @ p else p)"

text \<open>\<open>strings.CutPrefix\<close> yields the rest and whether the prefix was there.\<close>

definition Short :: "string \<Rightarrow> string" where
  "Short p =
     (let ok = go_has_prefix p ''linux/''; arch = go_trim_prefix p ''linux/'' in
      if \<not> ok \<or> go_contains arch ''/'' then p else arch)"

definition Arch :: "string \<Rightarrow> string" where
  "Arch p = go_split CHR ''/'' (Normalize p) ! 1"

definition Sanitize :: "string \<Rightarrow> string" where
  "Sanitize p = go_replace_byte CHR ''/'' ''-'' p"

section \<open>Levels\<close>

text \<open>The loop that normalises a list and drops what it has seen.\<close>

definition normalize_step :: "string \<Rightarrow> string list \<Rightarrow> string list" where
  "normalize_step p acc = (let p = Normalize p in if p \<in> set acc then acc else acc @ [p])"

definition ResolvePlatforms ::
  "string list \<Rightarrow> string list \<Rightarrow> string list \<Rightarrow> string list \<Rightarrow> string list" where
  "ResolvePlatforms override global image' variant =
     (let configured = (if variant \<noteq> [] then variant else if image' \<noteq> [] then image' else global);
          normalized = fold normalize_step configured [] in
      if override = [] then normalized
      else let requested = map Normalize override in filter (\<lambda>p. p \<in> set requested) normalized)"

definition Unsupported :: "string list \<Rightarrow> string list list \<Rightarrow> string list" where
  "Unsupported requested configured =
     (let known = map Normalize (concat configured) in
      filter (\<lambda>p. Normalize p \<notin> set known) requested)"

section \<open>What they promise\<close>

lemma contains_slash: "go_contains p ''/'' \<longleftrightarrow> CHR ''/'' \<in> set p"
  unfolding go_contains_iff by (auto simp: in_set_conv_decomp)

lemma Normalize_slash: "CHR ''/'' \<in> set (Normalize p)"
  by (simp add: Normalize_def contains_slash)

lemma Normalize_idem [simp]: "Normalize (Normalize p) = Normalize p"
  using Normalize_slash[of p] by (simp add: Normalize_def contains_slash)

lemma Normalize_Short: "Normalize (Short p) = Normalize p"
proof (cases "go_has_prefix p ''linux/''")
  case True
  then obtain r where "p = ''linux/'' @ r" by (auto simp: go_has_prefix_iff)
  then show ?thesis
    by (auto simp: Short_def Normalize_def contains_slash Let_def go_trim_prefix_def go_has_prefix_def)
qed (simp add: Short_def Let_def)

text \<open>The index of \<open>Arch\<close> exists: a normalised platform has a slash.\<close>

lemma Arch_in_range: "1 < length (go_split CHR ''/'' (Normalize p))"
proof -
  obtain a b where "Normalize p = a @ CHR ''/'' # b" and "CHR ''/'' \<notin> set a"
    using Normalize_slash[of p] by (metis split_list_first)
  then show ?thesis by (cases "go_split CHR ''/'' b") (auto simp: go_split_append)
qed

lemma normalize_fold:
  "distinct acc \<Longrightarrow>
   distinct (fold normalize_step ps acc) \<and> set (fold normalize_step ps acc) = set acc \<union> Normalize ` set ps"
proof (induction ps arbitrary: acc)
  case (Cons p ps)
  then have "distinct (normalize_step p acc)" and "set (normalize_step p acc) = insert (Normalize p) (set acc)"
    by (auto simp: normalize_step_def Let_def)
  then show ?case using Cons.IH[of "normalize_step p acc"] by simp
qed simp

definition configured_platforms :: "string list \<Rightarrow> string list \<Rightarrow> string list \<Rightarrow> string list" where
  "configured_platforms global image' variant =
     (if variant \<noteq> [] then variant else if image' \<noteq> [] then image' else global)"

lemma ResolvePlatforms_set:
  "set (ResolvePlatforms override global image' variant) =
     Normalize ` set (configured_platforms global image' variant)
     \<inter> (if override = [] then UNIV else Normalize ` set override)"
  using normalize_fold[of "[]"] unfolding ResolvePlatforms_def configured_platforms_def Let_def
  by auto

lemma ResolvePlatforms_distinct: "distinct (ResolvePlatforms override global image' variant)"
  using normalize_fold[of "[]"] unfolding ResolvePlatforms_def Let_def by auto

text \<open>The platforms to build are the normalised platforms of the most specific level that lists
  any, each once, cut down to the requested ones; what a request names and no level knows is
  exactly what is reported as unsupported.\<close>

lemma resolved_platforms:
  "distinct (ResolvePlatforms override global image' variant)
   \<and> set (ResolvePlatforms override global image' variant) =
     Normalize ` set (configured_platforms global image' variant)
     \<inter> (if override = [] then UNIV else Normalize ` set override)
   \<and> set (Unsupported override [configured_platforms global image' variant]) =
     {p \<in> set override. Normalize p \<notin> Normalize ` set (configured_platforms global image' variant)}"
  by (auto simp: ResolvePlatforms_distinct ResolvePlatforms_set Unsupported_def)

text \<open>The short form of a platform stands for the same platform, and every platform has an
  architecture component.\<close>

lemma short_normalizes_back:
  "Normalize (Short p) = Normalize p \<and> length (go_split CHR ''/'' (Normalize p)) > 1"
  using Arch_in_range[of p] by (simp add: Normalize_Short)

end
