(* ===== verification/CI_Context.thy ===== *)
theory CI_Context
  imports Changes Platforms Shard Image_Aliases Go_Numbers
begin

text \<open>
  \<open>pkg/ci\<close>: the data a pipeline template is rendered from (\<open>context.go\<close>) and the registry of
  providers (\<open>provider.go\<close>).  The version of BuildKit comes from a generated file and is a
  parameter; the template engine is not modelled.
\<close>

section \<open>Data\<close>

record CIImage =
  ci_Name :: string
  ci_Tags :: "string list"
  ci_Aliases :: "(string, string) gomap"
  ci_Dependencies :: "string list"
  ci_Depth :: nat
  ci_Platforms :: "string list"
  ci_ReadmePath :: string
  ci_ShardUnits :: int
  ci_BuildShards :: int
  ci_TestShards :: int
  ci_ChangePaths :: "string list"

record CIConfigContext =
  cg_Registry :: "RegistryConfig option"
  cg_Cache :: "CacheConfig option"

record CIContext =
  cx_Images :: "CIImage list"
  cx_Platforms :: "string list"
  cx_Stages :: "string list"
  cx_Config :: CIConfigContext
  cx_Artifacts :: bool
  cx_Command :: string
  cx_Version :: string
  cx_ImageName :: string
  cx_ProjectPath :: string
  cx_TemplateOptions :: "(string, string) gomap"
  cx_HasTagRanges :: bool
  cx_TagRangeUnits :: int
  cx_ChangeDetection :: bool

datatype ci_error =
    CiGraph change_error | CiAliases string alias_error | CiShards string string | CiPaths change_error
  | UnknownProvider string

section \<open>Methods templates call\<close>

definition RepoPath :: "CIContext \<Rightarrow> string \<Rightarrow> string" where
  "RepoPath c p =
     (if cx_ProjectPath c \<noteq> [] then go_clean (cx_ProjectPath c @ ''/'' @ p) else go_clean p)"

definition ChCmd :: "CIContext \<Rightarrow> string" where
  "ChCmd c = (if cx_ProjectPath c \<noteq> [] then ''ch -p '' @ cx_ProjectPath c else ''ch'')"

definition Dist :: "CIContext \<Rightarrow> string" where
  "Dist c = (if cx_ProjectPath c \<noteq> [] then cx_ProjectPath c @ ''/dist'' else ''dist'')"

definition VersionCacheDir :: "CIContext \<Rightarrow> string" where
  "VersionCacheDir c =
     (let dir = mget_or [] (cx_TemplateOptions c) ''ci_version_cache_dir'' in
      if cx_ProjectPath c \<noteq> [] then cx_ProjectPath c @ ''/'' @ dir else dir)"

definition RegistryHost :: "CIConfigContext \<Rightarrow> string" where
  "RegistryHost c =
     (case cg_Registry c of
        None \<Rightarrow> []
      | Some r \<Rightarrow> takeWhile (\<lambda>x. x \<noteq> CHR ''/'') (rg_Address r))"

section \<open>Options\<close>

definition fixedStages :: "(string, string) gomap \<Rightarrow> string list" where
  "fixedStages opts =
     [''generate'']
     @ (if mget_or [] opts ''ci_lint'' \<noteq> ''false'' then [''lint''] else [])
     @ (if mget_or [] opts ''ci_report'' = ''true'' then [''report'', ''pages''] else [])"

text \<open>\<open>internal/buildkit/image.go\<close>, over the BuildKit version.\<close>

definition DefaultImage :: string where
  "DefaultImage = ''ghcr.io/containerhive/helper-images/buildkit''"

text \<open>\<open>strings.SplitN(version, ".", 3)\<close> has three parts exactly when there are two dots.\<close>

definition releaseSeries :: "string \<Rightarrow> string" where
  "releaseSeries version =
     (let parts = go_split CHR ''.'' version in
      if length parts < 3 then version else parts ! 0 @ ''.'' @ parts ! 1)"

definition TagFor :: "string \<Rightarrow> string \<Rightarrow> string" where
  "TagFor version image' = (if image' = DefaultImage then releaseSeries version else version)"

definition ImageRef :: "string \<Rightarrow> (string, string) gomap \<Rightarrow> string" where
  "ImageRef bkVersion templateOpts =
     (let v = mget_or [] templateOpts ''ci_buildkit_image'';
          image' = (if v \<noteq> [] then v else DefaultImage);
          w = mget_or [] templateOpts ''ci_buildkit_version'';
          version = (if w \<noteq> [] then w else TagFor bkVersion image') in
      image' @ '':'' @ version)"

definition defaultTemplateOptions :: "string \<Rightarrow> (string, string) gomap" where
  "defaultTemplateOptions version =
     [(''ci_buildkit_image'', DefaultImage), (''ci_buildkit_version'', releaseSeries version),
      (''ci_cancel_outdated'', ''true''), (''ci_change_detection'', ''true''), (''ci_lint'', ''true''),
      (''ci_report'', ''true''), (''ci_sbom_generate_cpes'', ''true''), (''ci_build_shards'', ''1''),
      (''ci_test_shards'', ''1''), (''ci_version_cache'', ''true''),
      (''ci_version_cache_dir'', ''.ch-cache''),
      (''actions_checkout_version'', ''v7.0.1''), (''actions_upload_artifact_version'', ''v7.0.2''),
      (''actions_download_artifact_version'', ''v8.0.2''),
      (''actions_upload_pages_artifact_version'', ''v3''),
      (''actions_deploy_pages_version'', ''v5.0.1''), (''actions_junit_report_version'', ''v6.6.1''),
      (''actions_cache_version'', ''v4.2.0'')]"

definition template_options :: "string \<Rightarrow> (string, string) gomap \<Rightarrow> (string, string) gomap" where
  "template_options version user =
     (let opts = map_copy user (defaultTemplateOptions version) in
      if mget user ''ci_buildkit_version'' = None
      then mput ''ci_buildkit_version'' (TagFor version (mget_or [] opts ''ci_buildkit_image'')) opts
      else opts)"

section \<open>Depths\<close>

definition all_resolved :: "(string, string list) gomap \<Rightarrow> (string, nat) gomap \<Rightarrow> string \<Rightarrow> bool" where
  "all_resolved dependencies depths name \<longleftrightarrow>
     list_all (\<lambda>d. mget depths d \<noteq> None) (mget_or [] dependencies name)"

definition set_depths :: "nat \<Rightarrow> string list \<Rightarrow> (string, nat) gomap \<Rightarrow> (string, nat) gomap" where
  "set_depths currentDepth names depths = fold (\<lambda>name m. mput name currentDepth m) names depths"

function depth_loop ::
  "(string, string list) gomap \<Rightarrow> nat \<Rightarrow> (string, nat) gomap \<Rightarrow> string list \<Rightarrow> (string, nat) gomap" where
  "depth_loop dependencies currentDepth depths remaining =
     (if remaining = [] then depths
      else let ready = filter (all_resolved dependencies depths) remaining in
        if ready = [] then set_depths currentDepth remaining depths
        else depth_loop dependencies (currentDepth + 1) (set_depths currentDepth ready depths)
               (filter (\<lambda>name. name \<notin> set ready) remaining))"
  by pat_completeness auto
termination
proof (relation "measure (\<lambda>(deps, k, depths, remaining). length remaining)", goal_cases)
  case (2 dependencies currentDepth depths remaining ready)
  then obtain x where "x \<in> set remaining" and "x \<in> set ready" by (auto simp: filter_empty_conv)
  then show ?case by (auto intro!: length_filter_less)
qed simp

declare depth_loop.simps [simp del]

definition calculateDepths ::
  "string list \<Rightarrow> (string, string list) gomap \<Rightarrow> (string, nat) gomap" where
  "calculateDepths names dependencies = depth_loop dependencies 0 [] names"

section \<open>Platforms of an image\<close>

definition add_short :: "string \<Rightarrow> string list \<Rightarrow> string list" where
  "add_short p result = (let p = Short p in if p \<in> set result then result else result @ [p])"

definition image_platforms :: "string list \<Rightarrow> Image \<Rightarrow> string list" where
  "image_platforms projectPlatforms img =
     ResolvePlatforms [] projectPlatforms (img_Platforms img) []
     @ concat (map (\<lambda>name. ResolvePlatforms [] projectPlatforms (img_Platforms img)
           (var_Platforms (mget_at (img_Variants img) name))) (sorted_keys (img_Variants img)))"

definition resolvePlatforms :: "Image list \<Rightarrow> string list \<Rightarrow> string list" where
  "resolvePlatforms images projectPlatforms =
     fold (\<lambda>img result. fold add_short (image_platforms projectPlatforms img) result) images []"

section \<open>Change paths\<close>

definition gitlabMaxChangePaths :: nat where "gitlabMaxChangePaths = 50"

definition gitlabGlob :: "string \<Rightarrow> string" where
  "gitlabGlob pattern = (if go_has_suffix pattern ''/**'' then pattern @ ''/*'' else pattern)"

definition change_paths :: "(string, string list) gomap \<Rightarrow> string list \<Rightarrow> string \<Rightarrow> string list" where
  "change_paths triggerDirs globals name =
     (let paths = map (\<lambda>dir. dir @ ''/**/*'') (mget_or [] triggerDirs name) @ globals in
      if length paths > gitlabMaxChangePaths then [] else paths)"

definition setChangePaths ::
  "os \<Rightarrow> ContainerHiveProject \<Rightarrow> CIImage list \<Rightarrow> (ci_error + CIImage list) option" where
  "setChangePaths env project ciImages =
     map_option (\<lambda>r. case r of
         Inl err \<Rightarrow> Inl (CiPaths err)
       | Inr triggerDirs \<Rightarrow>
           let link = ImagesLink env project;
               globals = map gitlabGlob (TreatAsGlobalPatterns (hc_ChangeDetection (pr_Config project)))
                 @ (if link \<noteq> [] then [link] else []) in
           Inr (map (\<lambda>img. img\<lparr>ci_ChangePaths := change_paths triggerDirs globals (ci_Name img)\<rparr>) ciImages))
       (TriggerDirs env project)"

section \<open>The context\<close>

definition image_dependencies :: "Graph \<Rightarrow> string list \<Rightarrow> (string, string list) gomap" where
  "image_dependencies graph names =
     fold (\<lambda>name m. let deps = Dependencies graph name in
             if length deps > 0 then mput name (sort deps) m else m) names []"

definition ci_tags :: "Image list \<Rightarrow> string list" where
  "ci_tags images =
     sorted_set (concat (map (\<lambda>img. concat (map (\<lambda>tagName.
       tagName # map (\<lambda>(_, variantDef). tagName @ var_TagSuffix variantDef) (img_Variants img))
         (mkeys (img_Tags img)))) images))"

definition add_aliases :: "string \<Rightarrow> (string, string) gomap \<Rightarrow> Image \<Rightarrow> ci_error + (string, string) gomap" where
  "add_aliases name aliases img =
     (case ResolveAllAliases img of
        Inl err \<Rightarrow> Inl (CiAliases name err)
      | Inr imgAliases \<Rightarrow> Inr (fold (\<lambda>(alias, target) m.
            if mget m alias = None then mput alias target m else m) imgAliases aliases))"

definition first_readme :: "Image list \<Rightarrow> string" where
  "first_readme images = (case find (\<lambda>img. img_ReadmePath img \<noteq> []) images of
     None \<Rightarrow> [] | Some img \<Rightarrow> img_ReadmePath img)"

definition ci_image ::
  "(string, string list) gomap \<Rightarrow> (string, nat) gomap \<Rightarrow> string list \<Rightarrow> string \<times> Image list
   \<Rightarrow> ci_error + CIImage" where
  "ci_image dependencies depths projectPlatforms entry =
     (let (name, images) = entry in
      res_bind (res_fold (add_aliases name) [] images) (\<lambda>aliases.
        Inr \<lparr>ci_Name = name, ci_Tags = ci_tags images, ci_Aliases = aliases,
             ci_Dependencies = mget_or [] dependencies name, ci_Depth = mget_or 0 depths name,
             ci_Platforms = resolvePlatforms images projectPlatforms,
             ci_ReadmePath = first_readme images, ci_ShardUnits = 0, ci_BuildShards = 0,
             ci_TestShards = 0, ci_ChangePaths = []\<rparr>))"

text \<open>\<open>sort.Slice\<close> by depth and name; names are distinct, so the result is unique.\<close>

definition sort_images :: "CIImage list \<Rightarrow> CIImage list" where
  "sort_images = sort_key (\<lambda>img. (ci_Depth img, ci_Name img))"

definition valid_shards :: "(string, string) gomap \<Rightarrow> string \<Rightarrow> ci_error + int" where
  "valid_shards opts key =
     (let (n, ok) = go_atoi (mget_or [] opts key) in
      if \<not> ok \<or> n < 1 then Inl (CiShards key (mget_or [] opts key)) else Inr n)"

definition set_shards :: "int \<Rightarrow> int \<Rightarrow> (string, int) gomap \<Rightarrow> CIImage \<Rightarrow> CIImage" where
  "set_shards requestedBuild requestedTest unitCounts img =
     (let units = mget_or 0 unitCounts (ci_Name img);
          units = (if units < 1 then 1 else units) in
      img\<lparr>ci_ShardUnits := units,
          ci_BuildShards := (if requestedBuild > units then units else requestedBuild),
          ci_TestShards := (if requestedTest > units then units else requestedTest)\<rparr>)"

definition stages_of :: "(string, string) gomap \<Rightarrow> CIImage list \<Rightarrow> string list" where
  "stages_of opts ciImages = filter (\<lambda>name. name \<notin> set (fixedStages opts)) (map ci_Name ciImages)"

definition has_tag_ranges :: "ContainerHiveProject \<Rightarrow> bool" where
  "has_tag_ranges project =
     list_ex (\<lambda>(_, images). list_ex (\<lambda>img. img_TagRanges img \<noteq> []) images) (pr_ImagesByName project)"

text \<open>\<open>None\<close> only if the closure of the change paths does not end.\<close>

definition BuildCIContext ::
  "string \<Rightarrow> os \<Rightarrow> ContainerHiveProject \<Rightarrow> bool \<Rightarrow> (ci_error + CIContext) option" where
  "BuildCIContext version env project artifacts =
     (case imageGraph env project of Inl err \<Rightarrow> Some (Inl (CiGraph err)) | Inr mergedGraph \<Rightarrow>
     (let names = mkeys (pr_ImagesByName project);
          dependencies = image_dependencies mergedGraph names;
          depths = calculateDepths names dependencies in
      case res_map (ci_image dependencies depths (hc_Platforms (pr_Config project))) (pr_ImagesByName project) of
        Inl err \<Rightarrow> Some (Inl err)
      | Inr unsorted \<Rightarrow>
     (let ciImages = sort_images unsorted;
          opts = template_options version (hc_TemplateOptions (pr_Config project)) in
      case valid_shards opts ''ci_build_shards'' of Inl err \<Rightarrow> Some (Inl err) | Inr requestedBuild \<Rightarrow>
     (case valid_shards opts ''ci_test_shards'' of Inl err \<Rightarrow> Some (Inl err) | Inr requestedTest \<Rightarrow>
     (let unitCounts = UnitCountByName project;
          sharded = map (set_shards requestedBuild requestedTest unitCounts) ciImages;
          hasTagRanges = has_tag_ranges project;
          changeDetection = (mget_or [] opts ''ci_change_detection'' \<noteq> ''false'') in
      map_option (\<lambda>r. res_bind r (\<lambda>finished. Inr
          \<lparr>cx_Images = finished,
           cx_Platforms = sorted_set (concat (map ci_Platforms ciImages)),
           cx_Stages = stages_of opts ciImages,
           cx_Config = \<lparr>cg_Registry = hc_Registry (pr_Config project), cg_Cache = hc_Cache (pr_Config project)\<rparr>,
           cx_Artifacts = artifacts, cx_Command = [], cx_Version = [], cx_ImageName = [],
           cx_ProjectPath = [], cx_TemplateOptions = opts, cx_HasTagRanges = hasTagRanges,
           cx_TagRangeUnits = (if hasTagRanges then sum_list (map snd unitCounts) else 0),
           cx_ChangeDetection = changeDetection\<rparr>))
        (if changeDetection then setChangePaths env project sharded else Some (Inr sharded)))))))"

section \<open>Providers\<close>

record Provider =
  pv_Name :: string
  pv_Entrypoint :: string
  pv_DefaultImageName :: string
  pv_DefaultOptions :: "(string, string) gomap"

definition DockerHubImageName :: string where "DockerHubImageName = ''containerhive/containerhive''"
definition GitLabImageName :: string where
  "GitLabImageName = ''registry.gitlab.com/containerhive/containerhive''"
definition GHCRImageName :: string where "GHCRImageName = ''ghcr.io/containerhive/containerhive''"

definition GitLabDefaultDindImage :: string where
  "GitLabDefaultDindImage = ''ghcr.io/containerhive/helper-images/dind:29.9''"
definition GitHubDefaultDindImage :: string where
  "GitHubDefaultDindImage = ''ghcr.io/containerhive/helper-images/dind:29.9''"

definition RegisterProvider :: "Provider \<Rightarrow> (string, Provider) gomap \<Rightarrow> (string, Provider) gomap" where
  "RegisterProvider p providers = mput (pv_Name p) p providers"

definition GetProvider :: "(string, Provider) gomap \<Rightarrow> string \<Rightarrow> ci_error + Provider" where
  "GetProvider providers name =
     (case mget providers name of None \<Rightarrow> Inl (UnknownProvider name) | Some p \<Rightarrow> Inr p)"

definition init_providers :: "(string, Provider) gomap" where
  "init_providers =
     RegisterProvider \<lparr>pv_Name = ''github'', pv_Entrypoint = ''workflow.yml.gotpl'',
       pv_DefaultImageName = GHCRImageName,
       pv_DefaultOptions = [(''ci_dind_image'', GitHubDefaultDindImage)]\<rparr>
     (RegisterProvider \<lparr>pv_Name = ''gitlab'', pv_Entrypoint = ''pipeline.yml.gotpl'',
       pv_DefaultImageName = GitLabImageName,
       pv_DefaultOptions = [(''ci_dind_image'', GitLabDefaultDindImage)]\<rparr> [])"

definition ResolveDefaultImageName :: "(string, Provider) gomap \<Rightarrow> string \<Rightarrow> string" where
  "ResolveDefaultImageName providers name =
     (case GetProvider providers name of
        Inl _ \<Rightarrow> DockerHubImageName
      | Inr p \<Rightarrow> if pv_DefaultImageName p = [] then DockerHubImageName else pv_DefaultImageName p)"

definition generate_options :: "Provider \<Rightarrow> CIContext \<Rightarrow> (string, string) gomap" where
  "generate_options provider ctx =
     map_copy (cx_TemplateOptions ctx) (map_copy (pv_DefaultOptions provider) [])"

section \<open>Depths are levels\<close>

lemma mget_set_depths:
  "mget (set_depths k ns depths) n = (if n \<in> set ns then Some k else mget depths n)"
  unfolding set_depths_def by (induction ns arbitrary: depths) auto

text \<open>
  The loop's invariant: what has a depth is below the current one and has one more than its
  deepest dependency; what remains waits for a dependency of the last round or an unresolved one.
\<close>

definition deps_in :: "(string, string list) gomap \<Rightarrow> string \<Rightarrow> string set" where
  "deps_in dependencies n = set (mget_or [] dependencies n)"

definition is_level :: "(string, string list) gomap \<Rightarrow> (string, nat) gomap \<Rightarrow> string \<Rightarrow> nat \<Rightarrow> bool" where
  "is_level dependencies depths n k \<longleftrightarrow>
     (\<forall>d \<in> deps_in dependencies n. \<exists>j. mget depths d = Some j \<and> j < k)
     \<and> (k \<noteq> 0 \<longrightarrow> (\<exists>d \<in> deps_in dependencies n. mget depths d = Some (k - 1)))"

definition depth_state ::
  "(string, string list) gomap \<Rightarrow> string set \<Rightarrow> nat \<Rightarrow> (string, nat) gomap \<Rightarrow> string list \<Rightarrow> bool" where
  "depth_state dependencies names k depths remaining \<longleftrightarrow>
     (\<forall>n. mget depths n \<noteq> None \<longleftrightarrow> n \<in> names \<and> n \<notin> set remaining) \<and> set remaining \<subseteq> names
     \<and> (\<forall>n j. mget depths n = Some j \<longrightarrow> j < k \<and> is_level dependencies depths n j)
     \<and> (\<forall>n \<in> set remaining. k \<noteq> 0 \<longrightarrow>
          (\<exists>d \<in> deps_in dependencies n. mget depths d = Some (k - 1) \<or> mget depths d = None))"

lemma all_resolved_iff:
  "all_resolved dependencies depths n \<longleftrightarrow> (\<forall>d \<in> deps_in dependencies n. mget depths d \<noteq> None)"
  by (simp add: all_resolved_def deps_in_def list_all_iff)

lemma is_level_mono:
  assumes "is_level dependencies depths n k" and "\<And>d j. mget depths d = Some j \<Longrightarrow> mget depths' d = Some j"
  shows "is_level dependencies depths' n k"
  using assms unfolding is_level_def by blast

lemma depth_state_step:
  assumes st: "depth_state dependencies names k depths remaining"
    and "now = filter (all_resolved dependencies depths) remaining"
  shows "depth_state dependencies names (k + 1) (set_depths k now depths)
           (filter (\<lambda>n. n \<notin> set now) remaining)"
proof -
  let ?d' = "set_depths k now depths"
  have dom: "\<And>n. mget depths n \<noteq> None \<longleftrightarrow> n \<in> names \<and> n \<notin> set remaining" and sub: "set remaining \<subseteq> names"
    and lev: "\<And>n j. mget depths n = Some j \<Longrightarrow> j < k \<and> is_level dependencies depths n j"
    and wait: "\<And>n. n \<in> set remaining \<Longrightarrow> k \<noteq> 0 \<Longrightarrow>
      \<exists>d \<in> deps_in dependencies n. mget depths d = Some (k - 1) \<or> mget depths d = None"
    using st unfolding depth_state_def by blast+
  have rd: "n \<in> set now \<longleftrightarrow> n \<in> set remaining \<and> (\<forall>d \<in> deps_in dependencies n. mget depths d \<noteq> None)" for n
    by (auto simp: assms(2) all_resolved_iff)
  have keep: "mget ?d' d = Some j" if "mget depths d = Some j" for d j
    using that rd[of d] dom[of d] by (auto simp: mget_set_depths)
  have a: "mget ?d' n \<noteq> None \<longleftrightarrow> n \<in> names \<and> n \<notin> set (filter (\<lambda>n. n \<notin> set now) remaining)" for n
    using dom[of n] rd[of n] sub by (auto simp: mget_set_depths)
  have b: "j < k + 1 \<and> is_level dependencies ?d' n j" if j: "mget ?d' n = Some j" for n j
  proof (cases "n \<in> set now")
    case True
    then have "j = k" and res: "n \<in> set remaining" "\<forall>d \<in> deps_in dependencies n. mget depths d \<noteq> None"
      using j rd[of n] by (simp_all add: mget_set_depths)
    have "is_level dependencies depths n k"
      unfolding is_level_def using res lev wait[of n] by fastforce
    then show ?thesis using \<open>j = k\<close> keep by (simp add: is_level_mono)
  next
    case False
    then have "mget depths n = Some j" using j by (simp add: mget_set_depths)
    from lev[OF this] keep show ?thesis by (auto intro: is_level_mono)
  qed
  have c: "\<exists>d \<in> deps_in dependencies n. mget ?d' d = Some k \<or> mget ?d' d = None"
    if n: "n \<in> set remaining" "n \<notin> set now" for n
  proof -
    from n rd obtain d where "d \<in> deps_in dependencies n" and "mget depths d = None" by blast
    then show ?thesis by (intro bexI[of _ d]) (simp_all add: mget_set_depths)
  qed
  show ?thesis
    unfolding depth_state_def using a b c sub by auto
qed

lemma depth_loop_levels:
  assumes "depth_state dependencies names k depths remaining"
    and "\<And>S. S \<subseteq> names \<Longrightarrow> S \<noteq> {} \<Longrightarrow> \<exists>n \<in> S. deps_in dependencies n \<inter> S = {}"
    and "\<And>n. n \<in> names \<Longrightarrow> deps_in dependencies n \<subseteq> names"
  shows "let depths' = depth_loop dependencies k depths remaining in
    \<forall>n. (mget depths' n \<noteq> None \<longleftrightarrow> n \<in> names)
      \<and> (\<forall>j. mget depths' n = Some j \<longrightarrow> is_level dependencies depths' n j)"
  using assms
proof (induction dependencies k depths remaining rule: depth_loop.induct)
  case (1 dependencies k depths remaining)
  show ?case
  proof (cases "remaining = []")
    case True
    then show ?thesis using "1.prems"(1) by (auto simp: depth_loop.simps depth_state_def)
  next
    case False
    obtain n where n: "n \<in> set remaining" "deps_in dependencies n \<inter> set remaining = {}"
      using "1.prems"(2)[of "set remaining"] "1.prems"(1) False unfolding depth_state_def by auto
    then have "all_resolved dependencies depths n"
      using "1.prems"(1) "1.prems"(3)[of n] unfolding depth_state_def all_resolved_iff by blast
    with n have ne: "filter (all_resolved dependencies depths) remaining \<noteq> []"
      by (auto simp: filter_empty_conv)
    show ?thesis
      using "1.IH"[OF False refl ne depth_state_step[OF "1.prems"(1) refl] "1.prems"(2,3)] False ne
      by (subst depth_loop.simps) (simp add: Let_def)
  qed
qed

section \<open>What a context holds\<close>

lemma image_dependencies_get:
  "mget_or [] (image_dependencies g names) n = (if n \<in> set names then sort (Dependencies g n) else [])"
proof -
  have "mget_or [] (fold (\<lambda>name m. let deps = Dependencies g name in
             if length deps > 0 then mput name (sort deps) m else m) names m) n =
        (if n \<in> set names then (if Dependencies g n = [] then mget_or [] m n else sort (Dependencies g n))
         else mget_or [] m n)" for m
    by (induction names arbitrary: m) (auto simp: Let_def)
  then show ?thesis by (simp add: image_dependencies_def)
qed

lemma deps_in_image_dependencies:
  assumes "wf_graph g" and "node_set g = set names"
  shows "deps_in (image_dependencies g names) n = deps_of g n"
proof (cases "n \<in> set names")
  case True
  then show ?thesis by (simp add: deps_in_def image_dependencies_get deps_of_def Dependencies_def)
next
  case False
  then have "deps_of g n = {}" using assms by (auto simp: wf_graph_def)
  then show ?thesis using False by (simp add: deps_in_def image_dependencies_get)
qed

lemma depths_are_levels:
  assumes g: "wf_graph g" "node_set g = set names" and "registered g" and "acyclic (dep_rel g)"
    and "deps = image_dependencies g names" and "depths = calculateDepths names deps"
  shows "mget depths n \<noteq> None \<longleftrightarrow> n \<in> set names"
    and "mget depths n = Some j \<Longrightarrow> is_level deps depths n j"
proof -
  note d = deps_in_image_dependencies[OF g]
  have "dep_rel g \<subseteq> node_set g \<times> node_set g"
    using assms(1,3) by (auto simp: dep_rel_def registered_def wf_graph_def)
  then have "finite (dep_rel g)" by (rule finite_subset) simp
  then have wf: "wf (dep_rel g)" using assms(4) by (rule finite_acyclic_wf)
  have minimal: "\<exists>n \<in> S. deps_in deps n \<inter> S = {}" if "S \<noteq> {}" for S
  proof -
    from that obtain x where "x \<in> S" by blast
    from wfE_min[OF wf this] obtain n where "n \<in> S" "\<And>y. (y, n) \<in> dep_rel g \<Longrightarrow> y \<notin> S" by blast
    then show ?thesis by (intro bexI[of _ n]) (auto simp: d assms(5) dep_rel_def)
  qed
  have closed: "deps_in deps n \<subseteq> set names" for n
    using assms(3) g(2) by (simp add: d assms(5) registered_def)
  have "depth_state deps (set names) 0 [] names" by (simp add: depth_state_def)
  from depth_loop_levels[OF this minimal closed]
  have "\<forall>n. (mget depths n \<noteq> None \<longleftrightarrow> n \<in> set names)
      \<and> (\<forall>j. mget depths n = Some j \<longrightarrow> is_level deps depths n j)"
    by (simp add: assms(6) calculateDepths_def Let_def)
  then show "mget depths n \<noteq> None \<longleftrightarrow> n \<in> set names"
    and "mget depths n = Some j \<Longrightarrow> is_level deps depths n j" by blast+
qed

lemma valid_shards_pos: "valid_shards opts key = Inr n \<Longrightarrow> n \<ge> 1 \<and> go_atoi (mget_or [] opts key) = (n, True)"
  by (auto simp: valid_shards_def split: prod.splits if_splits)

text \<open>The last two loops change the shard counts and the change paths only.\<close>

definition finish_image ::
  "int \<Rightarrow> int \<Rightarrow> (string, int) gomap \<Rightarrow> (string \<Rightarrow> string list) \<Rightarrow> CIImage \<Rightarrow> CIImage" where
  "finish_image rb rt counts paths img =
     (set_shards rb rt counts img)\<lparr>ci_ChangePaths := paths (ci_Name img)\<rparr>"

lemma finish_image_simps [simp]:
  "ci_Name (finish_image rb rt counts paths img) = ci_Name img"
  "ci_Dependencies (finish_image rb rt counts paths img) = ci_Dependencies img"
  "ci_Depth (finish_image rb rt counts paths img) = ci_Depth img"
  "ci_Platforms (finish_image rb rt counts paths img) = ci_Platforms img"
  "ci_Tags (finish_image rb rt counts paths img) = ci_Tags img"
  "ci_ChangePaths (finish_image rb rt counts paths img) = paths (ci_Name img)"
  by (simp_all add: finish_image_def set_shards_def Let_def)

lemma ci_image_fields:
  assumes "ci_image dependencies depths ps (name, images) = Inr img"
  shows "ci_Name img = name" and "ci_Dependencies img = mget_or [] dependencies name"
    and "ci_Depth img = mget_or 0 depths name" and "ci_Platforms img = resolvePlatforms images ps"
    and "ci_Tags img = ci_tags images" and "ci_ChangePaths img = []"
  using assms by (auto simp: ci_image_def Let_def res_iff)

lemma BuildCIContext_cases:
  assumes "BuildCIContext version env project artifacts = Some (Inr ctx)"
  obtains g unsorted rb rt paths where "imageGraph env project = Inr g"
    and "res_map (ci_image (image_dependencies g (mkeys (pr_ImagesByName project)))
           (calculateDepths (mkeys (pr_ImagesByName project))
              (image_dependencies g (mkeys (pr_ImagesByName project))))
           (hc_Platforms (pr_Config project))) (pr_ImagesByName project) = Inr unsorted"
    and "valid_shards (cx_TemplateOptions ctx) ''ci_build_shards'' = Inr rb"
    and "valid_shards (cx_TemplateOptions ctx) ''ci_test_shards'' = Inr rt"
    and "cx_Images ctx = map (finish_image rb rt (UnitCountByName project) paths) (sort_images unsorted)"
    and "\<And>name. length (paths name) \<le> gitlabMaxChangePaths"
    and "cx_TemplateOptions ctx = template_options version (hc_TemplateOptions (pr_Config project))"
    and "cx_Stages ctx = stages_of (cx_TemplateOptions ctx) (sort_images unsorted)"
proof -
  let ?opts = "template_options version (hc_TemplateOptions (pr_Config project))"
  let ?names = "mkeys (pr_ImagesByName project)"
  note def = assms[unfolded BuildCIContext_def Let_def]
  obtain g where g: "imageGraph env project = Inr g"
    using def by (cases "imageGraph env project") simp_all
  note def = def[unfolded g sum.case]
  obtain unsorted where u: "res_map (ci_image (image_dependencies g ?names)
      (calculateDepths ?names (image_dependencies g ?names)) (hc_Platforms (pr_Config project)))
      (pr_ImagesByName project) = Inr unsorted"
    using def by (cases "res_map (ci_image (image_dependencies g ?names)
      (calculateDepths ?names (image_dependencies g ?names)) (hc_Platforms (pr_Config project)))
      (pr_ImagesByName project)") simp_all
  note def = def[unfolded u sum.case]
  obtain rb where b: "valid_shards ?opts ''ci_build_shards'' = Inr rb"
    using def by (cases "valid_shards ?opts ''ci_build_shards''") simp_all
  note def = def[unfolded b sum.case]
  obtain rt where t: "valid_shards ?opts ''ci_test_shards'' = Inr rt"
    using def by (cases "valid_shards ?opts ''ci_test_shards''") simp_all
  note def = def[unfolded t sum.case]
  let ?sharded = "map (set_shards rb rt (UnitCountByName project)) (sort_images unsorted)"
  let ?last = "if mget_or [] ?opts ''ci_change_detection'' \<noteq> ''false''
    then setChangePaths env project ?sharded else Some (Inr ?sharded)"
  define finish where "finish = ?last"
  note def = def[folded finish_def]
  obtain r where r: "finish = Some r" using def by (cases finish) simp_all
  note def = def[unfolded r option.map]
  obtain finished where fin: "r = Inr finished" using def by (cases r) simp_all
  have f: "?last = Some (Inr finished)" using r unfolding fin finish_def .
  note c = def[unfolded fin option.map res_bind_simps, THEN option.inject[THEN iffD1],
      THEN sum.inject(2)[THEN iffD1], symmetric]
  have plain: "set_shards rb rt counts img = finish_image rb rt counts (\<lambda>_. []) img"
    if "ci_ChangePaths img = []" for counts img
    using that by (simp add: finish_image_def set_shards_def Let_def)
  have nopaths: "ci_ChangePaths img = []" if img: "img \<in> set (sort_images unsorted)" for img
  proof -
    have "img \<in> set unsorted" using img by (simp add: sort_images_def)
    from res_map_mem[OF u this] obtain e where "ci_image (image_dependencies g ?names)
      (calculateDepths ?names (image_dependencies g ?names)) (hc_Platforms (pr_Config project)) e = Inr img"
      by blast
    then show ?thesis by (cases e) (simp add: ci_image_fields(6))
  qed
  have "\<exists>paths. finished = map (finish_image rb rt (UnitCountByName project) paths) (sort_images unsorted)
      \<and> (\<forall>name. length (paths name) \<le> gitlabMaxChangePaths)"
  proof (cases "mget_or [] ?opts ''ci_change_detection'' \<noteq> ''false''")
    case True
    then have f: "setChangePaths env project ?sharded = Some (Inr finished)" using f by simp
    note f = f[unfolded setChangePaths_def Let_def]
    obtain t' where t': "TriggerDirs env project = Some t'" using f by (cases "TriggerDirs env project") simp_all
    obtain r where r: "t' = Inr r" using f by (cases t') (simp_all add: t')
    have fin: "\<exists>gl. finished = map (\<lambda>img. img\<lparr>ci_ChangePaths := change_paths r gl (ci_Name img)\<rparr>) ?sharded"
      by (rule exI) (rule f[unfolded t' r option.map sum.case option.inject sum.inject, symmetric])
    from fin obtain gl where "finished = map (\<lambda>img. img\<lparr>ci_ChangePaths := change_paths r gl (ci_Name img)\<rparr>)
        (map (set_shards rb rt (UnitCountByName project)) (sort_images unsorted))" by blast
    then have "finished = map (finish_image rb rt (UnitCountByName project) (change_paths r gl)) (sort_images unsorted)"
      by (simp add: finish_image_def set_shards_def Let_def)
    moreover have "length (change_paths r gl name) \<le> gitlabMaxChangePaths" for name
      by (simp add: change_paths_def Let_def)
    ultimately show ?thesis by blast
  next
    case False
    then have "finished = map (finish_image rb rt (UnitCountByName project) (\<lambda>_. [])) (sort_images unsorted)"
      using f by (auto simp: nopaths intro!: map_cong plain)
    then show ?thesis by auto
  qed
  then obtain paths where "finished = map (finish_image rb rt (UnitCountByName project) paths) (sort_images unsorted)"
    and "\<And>name. length (paths name) \<le> gitlabMaxChangePaths" by blast
  then show ?thesis
    by (intro that[of g unsorted rb rt paths, OF g u]) (simp_all add: c b t)
qed

section \<open>Properties\<close>

text \<open>Positions of a list sorted by a key: what has a smaller key stands before.\<close>

lemma sort_key_before:
  fixes k :: "'a \<Rightarrow> 'b::linorder"
  assumes "i < length (sort_key k xs)" and "y \<in> set xs" and "k y < k (sort_key k xs ! i)"
  shows "\<exists>j < i. sort_key k xs ! j = y"
proof -
  from assms(2) obtain j where j: "j < length (sort_key k xs)" "sort_key k xs ! j = y"
    by (metis in_set_conv_nth set_sort)
  have "j < i"
  proof (rule ccontr)
    assume "\<not> j < i"
    then have "k (sort_key k xs ! i) \<le> k (sort_key k xs ! j)"
      using sorted_nth_mono[OF sorted_sort_key, of i j k xs] j(1) by simp
    then show False using assms(3) j(2) by simp
  qed
  then show ?thesis using j(2) by blast
qed

lemma ci_unsorted:
  assumes "res_map (ci_image deps depths ps) entries = Inr unsorted"
  shows "map ci_Name unsorted = mkeys entries"
  using assms
proof (induction entries arbitrary: unsorted)
  case (Cons e entries)
  then show ?case by (cases e) (auto simp: res_bind_Inr_iff mkeys_def ci_image_fields(1))
qed (simp add: mkeys_def)


lemma BuildCIContext_example:
  "map_option (map_sum id (\<lambda>ctx. map (\<lambda>img. (ci_Name img, ci_Depth img, ci_BuildShards img)) (cx_Images ctx)))
     (BuildCIContext ''v0.34.0'' plain_os base_and_app True)
   = Some (Inr [(''base'', 0, 1), (''app'', 1, 1)])"
  by code_simp

lemma base_and_app_context:
  obtains ctx where "BuildCIContext ''v0.34.0'' plain_os base_and_app True = Some (Inr ctx)"
    and "map (\<lambda>img. (ci_Name img, ci_Depth img, ci_BuildShards img)) (cx_Images ctx) = [(''base'', 0, 1), (''app'', 1, 1)]"
  using BuildCIContext_example
  by (cases "BuildCIContext ''v0.34.0'' plain_os base_and_app True";
      cases "the (BuildCIContext ''v0.34.0'' plain_os base_and_app True)") auto

lemma base_and_app_sorts:
  "map_sum id TopologicalSort (imageGraph plain_os base_and_app) = Inr (Inr [''base'', ''app''])"
  by code_simp


text \<open>Shard counts and path rules stay within their limits: at least one shard, never more than
  the image has units nor than were requested, and at most as many paths as GitLab accepts.\<close>

lemma pipeline_bounds:
  assumes "BuildCIContext version env project artifacts = Some (Inr ctx)" and "img \<in> set (cx_Images ctx)"
  shows "1 \<le> ci_BuildShards img \<and> ci_BuildShards img \<le> ci_ShardUnits img
    \<and> ci_BuildShards img \<le> fst (go_atoi (mget_or [] (cx_TemplateOptions ctx) ''ci_build_shards''))
    \<and> 1 \<le> ci_TestShards img \<and> ci_TestShards img \<le> ci_ShardUnits img
    \<and> ci_TestShards img \<le> fst (go_atoi (mget_or [] (cx_TemplateOptions ctx) ''ci_test_shards''))
    \<and> ci_ShardUnits img = max 1 (mget_or 0 (UnitCountByName project) (ci_Name img))
    \<and> length (ci_ChangePaths img) \<le> 50"
proof -
  show ?thesis
  proof (rule BuildCIContext_cases[OF assms(1)], goal_cases)
    case (1 g unsorted rb rt paths)
    from assms(2) obtain x where x: "img = finish_image rb rt (UnitCountByName project) paths x"
      unfolding 1(5) by auto
    show ?case
      using valid_shards_pos[OF 1(3)] valid_shards_pos[OF 1(4)] 1(6)[of "ci_Name x"]
      by (simp add: x finish_image_def set_shards_def Let_def gitlabMaxChangePaths_def)
  qed
qed

lemma pipeline_bounds_witness:
  "\<exists>ctx. BuildCIContext ''v0.34.0'' plain_os base_and_app True = Some (Inr ctx)
     \<and> length (cx_Images ctx) = 2 \<and> length (ci_ChangePaths (cx_Images ctx ! 0)) \<le> 50"
proof -
  obtain ctx where ctx: "BuildCIContext ''v0.34.0'' plain_os base_and_app True = Some (Inr ctx)"
    and im: "map (\<lambda>img. (ci_Name img, ci_Depth img, ci_BuildShards img)) (cx_Images ctx) = [(''base'', 0, 1), (''app'', 1, 1)]"
    by (rule base_and_app_context)
  have len: "length (cx_Images ctx) = 2" using im by (auto simp: map_eq_Cons_conv)
  then have "cx_Images ctx ! 0 \<in> set (cx_Images ctx)" by simp
  from pipeline_bounds[OF ctx this] ctx len show ?thesis by blast
qed

end
