(* ===== verification/Go_Text.thy ===== *)
theory Go_Text
  imports Go_Regexp
begin

text \<open>
  More of Go's package \<open>strings\<close> on byte strings: replacing a substring, finding one, cutting a
  prefix, and upper case (the ASCII one).
\<close>

section \<open>Replacing and finding substrings\<close>

text \<open>\<open>strings.ReplaceAll\<close> for an \<open>old\<close> that is not empty, as in all calls of the sources.\<close>

function go_replace_all :: "string \<Rightarrow> string \<Rightarrow> string \<Rightarrow> string" where
  "go_replace_all old new s =
     (case s of
        [] \<Rightarrow> []
      | x # r \<Rightarrow>
          if old \<noteq> [] \<and> prefix old s then new @ go_replace_all old new (drop (length old) s)
          else x # go_replace_all old new r)"
  by pat_completeness auto
termination
  by (relation "measure (\<lambda>(old, new, s). length s)") (auto simp: neq_Nil_conv)

declare go_replace_all.simps [simp del]

lemma go_replace_all_Nil [simp]: "go_replace_all old new [] = []"
  by (simp add: go_replace_all.simps)

lemma go_replace_all_Cons:
  "go_replace_all old new (x # r) =
     (if old \<noteq> [] \<and> prefix old (x # r) then new @ go_replace_all old new (drop (length old) (x # r))
      else x # go_replace_all old new r)"
  by (subst go_replace_all.simps) simp

lemma go_replace_all_absent: "\<not> go_contains s old \<Longrightarrow> go_replace_all old new s = s"
proof (induction s)
  case (Cons x s)
  then have "\<not> prefix old (x # s)" and "\<not> go_contains s old"
    unfolding go_contains_def by auto
  then show ?case using Cons.IH by (simp add: go_replace_all_Cons)
qed simp

text \<open>Replacing a single byte is the bytewise replacement.\<close>

lemma go_replace_all_byte: "go_replace_all [c] new s = go_replace_byte c new s"
  by (induction s) (auto simp: go_replace_all_Cons go_replace_byte_def)

text \<open>\<open>strings.Index\<close>.\<close>

fun go_index :: "string \<Rightarrow> string \<Rightarrow> nat option" where
  "go_index [] sub = (if sub = [] then Some 0 else None)"
| "go_index (x # r) sub = (if prefix sub (x # r) then Some 0 else map_option Suc (go_index r sub))"

lemma go_index_SomeD:
  "go_index s sub = Some i \<Longrightarrow> i + length sub \<le> length s \<and> prefix sub (drop i s)"
proof (induction s arbitrary: i)
  case (Cons x s)
  then show ?case by (cases i) (auto split: if_splits dest: prefix_length_le)
qed (auto split: if_splits)

text \<open>\<open>strings.CutPrefix\<close>: the rest, or none when the prefix is missing.\<close>

definition go_cut_prefix :: "string \<Rightarrow> string \<Rightarrow> string option" where
  "go_cut_prefix s p = (if go_has_prefix s p then Some (drop (length p) s) else None)"

section \<open>Upper and lower case\<close>

definition go_to_upper :: "string \<Rightarrow> string" where "go_to_upper s = map go_upper_byte s"
definition go_to_lower :: "string \<Rightarrow> string" where "go_to_lower s = map go_lower_byte s"

end
