(* ===== verification/Build_Config.thy ===== *)
theory Build_Config
  imports Model Go_Text Platforms Go_Paths
begin

text \<open>
  What a single build gets: secrets (\<open>internal/secrets\<close>), build arguments and versions over the levels
  image, tag and variant (\<open>internal/buildconfig_resolver\<close>, \<open>pkg/build/config.go\<close>), labels
  (\<open>pkg/build/oci_labels.go\<close>), and the names of its outputs (\<open>pkg/build/context.go\<close>).  The
  environment, the Vault client, the clock and git are parameters.
\<close>

section \<open>Secrets\<close>

definition is_env_first :: "char \<Rightarrow> bool" where
  "is_env_first x \<longleftrightarrow> is_upper x \<or> (97 \<le> (of_char x :: nat) \<and> (of_char x :: nat) \<le> 122) \<or> x = CHR ''_''"

definition is_env_char :: "char \<Rightarrow> bool" where
  "is_env_char x \<longleftrightarrow> is_env_first x \<or> is_digit x"

text \<open>\<open>^\$\{?([A-Za-z_][A-Za-z0-9_]*)\}?$\<close>\<close>

definition envVarRegex :: rx where
  "envVarRegex = rx_seqs [rx_begin, rx_lit ''$'', rx_opt (rx_lit ''{''),
     RxGroup 1 (RxSeq (RxChar is_env_first) (RxStar (RxChar is_env_char))), rx_opt (rx_lit ''}''), rx_end]"

datatype secret_error =
    UnknownSecretType string | EnvNotFound string | MalformedVaultSpec string | VaultError string
  | Unhandled string string

text \<open>The outside world: \<open>LookupEnv\<close> and the Vault client.\<close>

record secret_env =
  lookup_env :: "string \<Rightarrow> string option"
  vault_get :: "string \<Rightarrow> string \<Rightarrow> string + string"

definition EnvVarResolve :: "secret_env \<Rightarrow> string \<Rightarrow> secret_error + string" where
  "EnvVarResolve env value =
     (case find_submatch envVarRegex value of
        None \<Rightarrow> Inr []
      | Some m \<Rightarrow>
          (case lookup_env env (m 1) of None \<Rightarrow> Inl (EnvNotFound (m 1)) | Some v \<Rightarrow> Inr v))"

definition PlainTextResolve :: "secret_env \<Rightarrow> string \<Rightarrow> secret_error + string" where
  "PlainTextResolve env value = Inr value"

definition VaultResolve :: "secret_env \<Rightarrow> string \<Rightarrow> secret_error + string" where
  "VaultResolve env value =
     (if \<not> go_has_prefix value ''vault://'' then Inr []
      else let spec = drop 8 value in
        if spec = [] then Inl (MalformedVaultSpec value)
        else let (p, f, found) = go_cut spec CHR ''#'' in
          if \<not> found then Inl (MalformedVaultSpec value)
          else let path = go_trim_space p; field = go_trim_space f in
            if path = [] then Inl (MalformedVaultSpec value)
            else if field = [] then Inl (MalformedVaultSpec value)
            else (case vault_get env path field of Inl e \<Rightarrow> Inl (VaultError e) | Inr v \<Rightarrow> Inr v))"

definition resolvers :: "(string, secret_env \<Rightarrow> string \<Rightarrow> secret_error + string) gomap" where
  "resolvers = [(''plain'', PlainTextResolve), (''env'', EnvVarResolve), (''vault'', VaultResolve)]"

definition resolverOrder :: "string list" where
  "resolverOrder = [''env'', ''plain'', ''vault'']"

fun try_resolvers :: "secret_env \<Rightarrow> string \<Rightarrow> string list \<Rightarrow> secret_error + string" where
  "try_resolvers env value [] = Inl (Unhandled [] value)"
| "try_resolvers env value (rtype # rest) =
     (case mget_at resolvers rtype env value of
        Inr resolved \<Rightarrow> if resolved \<noteq> [] then Inr resolved else try_resolvers env value rest
      | Inl err \<Rightarrow> Inl err)"

definition ResolveSecret :: "secret_env \<Rightarrow> string \<Rightarrow> string \<Rightarrow> secret_error + string" where
  "ResolveSecret env secretType value =
     (if secretType \<noteq> [] then
        (case mget resolvers secretType of
           None \<Rightarrow> Inl (UnknownSecretType secretType) | Some resolver \<Rightarrow> resolver env value)
      else try_resolvers env value resolverOrder)"

section \<open>Build values\<close>

definition MergeMap :: "(string, string) gomap \<Rightarrow> (string, string) gomap \<Rightarrow> (string, string) gomap" where
  "MergeMap existing add = map_copy add existing"

definition MergeMapWithPrefix ::
  "string \<Rightarrow> (string, string) gomap \<Rightarrow> (string, string) gomap \<Rightarrow> (string, string) gomap" where
  "MergeMapWithPrefix prefix' existing add = fold (\<lambda>(k, v) m. mput (prefix' @ k) v m) add existing"

record ResolvedBuildValues =
  rb_BuildArgs :: BuildArgs
  rb_Versions :: Versions
  rb_Secrets :: "(string, string) gomap"

definition resolve_secret ::
  "secret_env \<Rightarrow> (string, string) gomap \<Rightarrow> string \<times> Secret \<Rightarrow> (string \<times> secret_error) + (string, string) gomap" where
  "resolve_secret env resolved ks =
     (case ResolveSecret env (sec_SourceType (snd ks)) (sec_Value (snd ks)) of
        Inl err \<Rightarrow> Inl (fst ks, err) | Inr v \<Rightarrow> Inr (mput (fst ks) v resolved))"

definition ForTag :: "secret_env \<Rightarrow> Image \<Rightarrow> Tag \<Rightarrow> (string \<times> secret_error) + ResolvedBuildValues" where
  "ForTag env image' tag =
     (let versions = map_copy (tag_Versions tag) (map_copy (img_Versions image') []);
          buildArgs = map_copy (img_BuildArgs image') (map_copy (tag_BuildArgs tag) []) in
      res_bind (res_fold (resolve_secret env) [] (img_Secrets image')) (\<lambda>secrets.
        Inr \<lparr>rb_BuildArgs = buildArgs, rb_Versions = versions, rb_Secrets = secrets\<rparr>))"

definition ForTagVariant ::
  "secret_env \<Rightarrow> Image \<Rightarrow> ImageVariant \<Rightarrow> Tag \<Rightarrow> (string \<times> secret_error) + ResolvedBuildValues" where
  "ForTagVariant env image' variant tag =
     res_bind (ForTag env image' tag) (\<lambda>resolved.
       Inr (resolved\<lparr>rb_Versions := map_copy (var_Versions variant) (rb_Versions resolved),
                     rb_BuildArgs := map_copy (var_BuildArgs variant) (rb_BuildArgs resolved)\<rparr>))"

definition normalizeKey :: "string \<Rightarrow> string" where
  "normalizeKey k = go_to_upper (map (\<lambda>c. if c = CHR ''-'' then CHR ''_'' else c) k)"

definition ToBuildArgs :: "ResolvedBuildValues \<Rightarrow> BuildArgs" where
  "ToBuildArgs r =
     fold (\<lambda>(k, v) m. mput (normalizeKey k @ ''_VERSION'') v m) (rb_Versions r)
       (fold (\<lambda>(k, v) m. mput (normalizeKey k) v m) (rb_BuildArgs r) [])"

record ResolvedConfig =
  rcf_BuildArgs :: "(string, string) gomap"
  rcf_Secrets :: "(string, string) gomap"

definition config_of :: "ResolvedBuildValues \<Rightarrow> ResolvedConfig" where
  "config_of resolved = \<lparr>rcf_BuildArgs = ToBuildArgs resolved, rcf_Secrets = rb_Secrets resolved\<rparr>"

definition ResolveTagConfig :: "secret_env \<Rightarrow> Image \<Rightarrow> Tag \<Rightarrow> (string \<times> secret_error) + ResolvedConfig" where
  "ResolveTagConfig env image' tag = res_bind (ForTag env image' tag) (\<lambda>r. Inr (config_of r))"

definition ResolveVariantConfig ::
  "secret_env \<Rightarrow> Image \<Rightarrow> ImageVariant \<Rightarrow> Tag \<Rightarrow> (string \<times> secret_error) + ResolvedConfig" where
  "ResolveVariantConfig env image' variant tag =
     res_bind (ForTagVariant env image' variant tag) (\<lambda>r. Inr (config_of r))"

section \<open>Names of outputs\<close>

definition TarFilePath :: "string \<Rightarrow> string \<Rightarrow> string \<Rightarrow> string \<Rightarrow> string" where
  "TarFilePath distPath name tag platformStr =
     go_path_join [distPath, name, tag, Sanitize platformStr, ''image.tar'']"

definition buildIDSeparator :: string where "buildIDSeparator = ''-build.''"

definition WithBuildID :: "string \<Rightarrow> string \<Rightarrow> string" where
  "WithBuildID tag buildID = (if buildID = [] then tag else tag @ buildIDSeparator @ buildID)"

definition PushTag :: "string \<Rightarrow> string \<Rightarrow> string \<Rightarrow> string" where
  "PushTag tagName platformStr buildID = WithBuildID (tagName @ ''.'' @ Sanitize platformStr) buildID"

section \<open>Labels\<close>

record OCILabelArgs =
  la_ImageName :: string
  la_ImageTag :: string
  la_Description :: string
  la_ProjectRoot :: string
  la_Project :: "LabelsConfig option"
  la_ImageLabels :: Labels
  la_TagLabels :: Labels
  la_VariantLabels :: Labels

definition oci_label :: "string \<Rightarrow> string" where
  "oci_label name = ''org.opencontainers.image.'' @ name"

definition applyLabelPlaceholders :: "string \<Rightarrow> string \<Rightarrow> string \<Rightarrow> string" where
  "applyLabelPlaceholders s image' tag =
     go_replace_all ''%tag%'' tag (go_replace_all ''%image%'' image' s)"

definition put_unless_empty :: "string \<Rightarrow> string \<Rightarrow> Labels \<Rightarrow> Labels" where
  "put_unless_empty name v labels = (if v \<noteq> [] then mput (oci_label name) v labels else labels)"

definition custom_labels :: "OCILabelArgs \<Rightarrow> Labels" where
  "custom_labels a =
     map_copy (la_VariantLabels a) (map_copy (la_TagLabels a) (map_copy (la_ImageLabels a)
       (case la_Project a of None \<Rightarrow> [] | Some p \<Rightarrow> map_copy (lb_Custom p) [])))"

definition project_labels :: "OCILabelArgs \<Rightarrow> Labels \<Rightarrow> Labels" where
  "project_labels a labels =
     (case la_Project a of
        None \<Rightarrow> labels
      | Some p \<Rightarrow>
          put_unless_empty ''documentation''
            (if lb_Documentation p = [] then [] else applyLabelPlaceholders (lb_Documentation p) (la_ImageName a) (la_ImageTag a))
          (put_unless_empty ''url''
            (if lb_Url p = [] then [] else applyLabelPlaceholders (lb_Url p) (la_ImageName a) (la_ImageTag a))
          (put_unless_empty ''authors'' (lb_Authors p) (put_unless_empty ''vendor'' (lb_Vendor p) labels))))"

text \<open>\<open>git root\<close> is the revision and the origin of the repository; \<open>now\<close> the formatted time.\<close>

definition BuildOCILabels :: "(string \<Rightarrow> string \<times> string) \<Rightarrow> string \<Rightarrow> OCILabelArgs \<Rightarrow> Labels" where
  "BuildOCILabels git now a =
     (let labels = custom_labels a;
          labels = mput (oci_label ''title'') (la_ImageName a) labels;
          labels = mput (oci_label ''ref.name'') (la_ImageName a) labels;
          labels = mput (oci_label ''version'') (la_ImageTag a) labels;
          labels = mput (oci_label ''created'') now labels;
          labels = put_unless_empty ''description'' (la_Description a) labels;
          labels = project_labels a labels;
          (revision, source) = (if la_ProjectRoot a = [] then ([], []) else git (la_ProjectRoot a)) in
      put_unless_empty ''source'' source (put_unless_empty ''revision'' revision labels))"


section \<open>Levels of configuration\<close>

text \<open>The value of the first map of a list that has the key.\<close>

fun first_level :: "('k, 'v) gomap list \<Rightarrow> 'k \<Rightarrow> 'v option" where
  "first_level [] k = None"
| "first_level (m # ms) k = (case mget m k of Some v \<Rightarrow> Some v | None \<Rightarrow> first_level ms k)"

definition wf_levels :: "('k, 'v) gomap list \<Rightarrow> bool" where
  "wf_levels ms \<longleftrightarrow> (\<forall>m \<in> set ms. wf_map m)"

lemma wf_levels_simps [simp]:
  "wf_levels []" "wf_levels (m # ms) \<longleftrightarrow> wf_map m \<and> wf_levels ms"
  by (simp_all add: wf_levels_def)

lemma mget_copies:
  "wf_map m1 \<Longrightarrow> wf_map m2 \<Longrightarrow> wf_map m3 \<Longrightarrow>
   mget (map_copy m1 (map_copy m2 (map_copy m3 []))) k = first_level [m1, m2, m3] k"
  by (auto simp: mget_map_copy split: option.splits)

text \<open>Copying under rewritten keys: a key whose image no other key has is found there.\<close>

lemma mget_fold_renamed_other:
  "K \<notin> f ` dom (map_of m) \<Longrightarrow> mget (fold (\<lambda>(k, v) m. mput (f k) v m) m e) K = mget e K"
proof (induction m arbitrary: e)
  case (Cons kv m)
  obtain k v where "kv = (k, v)" by fastforce
  moreover from this have "dom (map_of (kv # m)) = insert k (dom (map_of m))"
    by (simp add: dom_fun_upd fun_upd_def[symmetric])
  ultimately have "K \<noteq> f k" and "K \<notin> f ` dom (map_of m)" using Cons.prems by (simp_all del: map_of.simps)
  then show ?case using \<open>kv = (k, v)\<close> Cons.IH[of "mput (f k) v e"] by simp
qed simp

lemma mget_fold_renamed:
  assumes "wf_map m" and "mget m k = Some v" and "\<And>k'. mget m k' \<noteq> None \<Longrightarrow> f k' = f k \<Longrightarrow> k' = k"
  shows "mget (fold (\<lambda>(k, v) m. mput (f k) v m) m e) (f k) = Some v"
  using assms
proof (induction m arbitrary: e)
  case (Cons kv m)
  obtain k0 v0 where kv: "kv = (k0, v0)" by fastforce
  have wf: "wf_map m" and none: "mget m k0 = None"
    using Cons.prems(1) by (auto simp: wf_map_def kv map_of_eq_None_iff)
  show ?case
  proof (cases "k0 = k")
    case True
    have "f k \<notin> f ` dom (map_of m)"
    proof
      assume "f k \<in> f ` dom (map_of m)"
      then obtain k' where k': "mget m k' \<noteq> None" "f k' = f k" by (metis domIff image_iff)
      have "k' \<noteq> k" using k'(1) none True by auto
      moreover have "k' = k" using k' Cons.prems(3)[of k'] by (simp add: kv split: if_splits)
      ultimately show False by contradiction
    qed
    then show ?thesis using Cons.prems(2) True by (simp add: kv mget_fold_renamed_other)
  next
    case False
    have "mget m k = Some v" using Cons.prems(2) False by (simp add: kv)
    moreover have "k' = k" if "mget m k' \<noteq> None" "f k' = f k" for k'
      using Cons.prems(3)[of k'] that by (simp add: kv split: if_splits)
    ultimately show ?thesis using Cons.IH[OF wf] by (simp add: kv)
  qed
qed simp

lemma wf_fold_renamed: "wf_map e \<Longrightarrow> wf_map (fold (\<lambda>(k, v) m. mput (f k) v m) m e)"
  by (rule fold_invariant) auto

section \<open>What a build gets\<close>

lemma ForTag_cases:
  assumes "ForTag env img tag = Inr r"
  obtains s where "res_fold (resolve_secret env) [] (img_Secrets img) = Inr s"
    and "rb_Secrets r = s"
    and "rb_Versions r = map_copy (tag_Versions tag) (map_copy (img_Versions img) [])"
    and "rb_BuildArgs r = map_copy (img_BuildArgs img) (map_copy (tag_BuildArgs tag) [])"
  using assms by (auto simp: ForTag_def Let_def res_iff)

lemma ForTagVariant_cases:
  assumes "ForTagVariant env img var tag = Inr r"
  obtains s where "res_fold (resolve_secret env) [] (img_Secrets img) = Inr s"
    and "rb_Secrets r = s"
    and "rb_Versions r = map_copy (var_Versions var) (map_copy (tag_Versions tag) (map_copy (img_Versions img) []))"
    and "rb_BuildArgs r = map_copy (var_BuildArgs var) (map_copy (img_BuildArgs img) (map_copy (tag_BuildArgs tag) []))"
proof -
  from assms obtain r0 where r0: "ForTag env img tag = Inr r0"
    and r: "r = r0\<lparr>rb_Versions := map_copy (var_Versions var) (rb_Versions r0),
                   rb_BuildArgs := map_copy (var_BuildArgs var) (rb_BuildArgs r0)\<rparr>"
    by (auto simp: ForTagVariant_def res_iff)
  from r0 show thesis by (rule ForTag_cases) (simp add: that r)
qed

lemma resolve_secret_Inr:
  "resolve_secret env m ks = Inr m' \<longleftrightarrow>
   (\<exists>v. ResolveSecret env (sec_SourceType (snd ks)) (sec_Value (snd ks)) = Inr v \<and> m' = mput (fst ks) v m)"
  by (auto simp: resolve_secret_def split: sum.splits)

text \<open>Every declared secret is resolved, by its own source, and nothing else is.\<close>

lemma resolved_secrets:
  assumes "res_fold (resolve_secret env) e ss = Inr s" and "wf_map ss"
  shows "mget s k = (case mget ss k of
      None \<Rightarrow> mget e k
    | Some sec \<Rightarrow> Some (projr (ResolveSecret env (sec_SourceType sec) (sec_Value sec))))
    \<and> (\<forall>sec. mget ss k = Some sec \<longrightarrow> (\<exists>v. ResolveSecret env (sec_SourceType sec) (sec_Value sec) = Inr v))"
  using assms
proof (induction ss arbitrary: e)
  case (Cons ks ss)
  obtain k0 sec0 where ks: "ks = (k0, sec0)" by fastforce
  from Cons.prems(1) obtain v where v: "ResolveSecret env (sec_SourceType sec0) (sec_Value sec0) = Inr v"
    and rest: "res_fold (resolve_secret env) (mput k0 v e) ss = Inr s"
    by (auto simp: res_iff resolve_secret_Inr ks)
  have wf: "wf_map ss" and none: "mget ss k0 = None"
    using Cons.prems(2) by (auto simp: wf_map_def ks map_of_eq_None_iff)
  show ?case using Cons.IH[OF rest wf] v none by (auto simp: ks split: option.splits)
qed simp

lemma version_arg:
  assumes "wf_map (rb_Versions r)" and "mget (rb_Versions r) k = Some v"
    and "\<And>k'. mget (rb_Versions r) k' \<noteq> None \<Longrightarrow> normalizeKey k' = normalizeKey k \<Longrightarrow> k' = k"
  shows "mget (ToBuildArgs r) (normalizeKey k @ ''_VERSION'') = Some v"
  unfolding ToBuildArgs_def
  using mget_fold_renamed[OF assms(1,2), of "\<lambda>k. normalizeKey k @ ''_VERSION''"] assms(3) by simp

lemma plain_arg:
  assumes "wf_map (rb_BuildArgs r)" and "mget (rb_BuildArgs r) k = Some v"
    and "\<And>k'. mget (rb_BuildArgs r) k' \<noteq> None \<Longrightarrow> normalizeKey k' = normalizeKey k \<Longrightarrow> k' = k"
    and "normalizeKey k \<notin> (\<lambda>k. normalizeKey k @ ''_VERSION'') ` dom (map_of (rb_Versions r))"
  shows "mget (ToBuildArgs r) (normalizeKey k) = Some v"
  unfolding ToBuildArgs_def
  using mget_fold_renamed[OF assms(1,2), of normalizeKey] assms(3,4) by (simp add: mget_fold_renamed_other)

text \<open>The levels of a variant's build, the strongest first: the code puts the image's build arguments
  over those of the tag.\<close>

definition version_levels :: "Image \<Rightarrow> ImageVariant \<Rightarrow> Tag \<Rightarrow> (string, string) gomap list" where
  "version_levels img var tag = [var_Versions var, tag_Versions tag, img_Versions img]"

definition arg_levels :: "Image \<Rightarrow> ImageVariant \<Rightarrow> Tag \<Rightarrow> (string, string) gomap list" where
  "arg_levels img var tag = [var_BuildArgs var, img_BuildArgs img, tag_BuildArgs tag]"

definition lone_key :: "(string, 'v) gomap list \<Rightarrow> string \<Rightarrow> bool" where
  "lone_key ms k \<longleftrightarrow> (\<forall>k'. first_level ms k' \<noteq> None \<and> normalizeKey k' = normalizeKey k \<longrightarrow> k' = k)"


text \<open>An argument set by the image and by the tag: the build gets the value of the image.\<close>

definition node_image :: Image where
  "node_image = zero_Image\<lparr>img_Versions := [(''node'', ''20'')], img_BuildArgs := [(''app-env'', ''image'')],
     img_Secrets := [(''token'', \<lparr>sec_SourceType = ''plain'', sec_Value = ''t0''\<rparr>)]\<rparr>"

definition node_tag :: Tag where
  "node_tag = zero_Tag\<lparr>tag_Versions := [(''node'', ''22'')], tag_BuildArgs := [(''app-env'', ''tag'')]\<rparr>"

definition no_env :: secret_env where
  "no_env = \<lparr>lookup_env = (\<lambda>_. None), vault_get = (\<lambda>_ _. Inl [])\<rparr>"

definition node_config :: ResolvedConfig where
  "node_config = \<lparr>rcf_BuildArgs = [(''APP_ENV'', ''image''), (''NODE_VERSION'', ''22'')],
     rcf_Secrets = [(''token'', ''t0'')]\<rparr>"

lemma node_config_resolved: "ResolveVariantConfig no_env node_image zero_ImageVariant node_tag = Inr node_config"
  by code_simp

lemma node_levels:
  "version_levels node_image zero_ImageVariant node_tag = [[], [(''node'', ''22'')], [(''node'', ''20'')]]"
  "arg_levels node_image zero_ImageVariant node_tag = [[], [(''app-env'', ''image'')], [(''app-env'', ''tag'')]]"
  by (simp_all add: version_levels_def arg_levels_def node_image_def node_tag_def zero_ImageVariant_def)


section \<open>Labels of an image\<close>

lemma mget_put_unless_empty:
  "mget (put_unless_empty name v labels) k = (if v \<noteq> [] \<and> k = oci_label name then Some v else mget labels k)"
  by (simp add: put_unless_empty_def)

lemma oci_label_eq [simp]: "oci_label x = oci_label y \<longleftrightarrow> x = y"
  by (simp add: oci_label_def)

lemma project_labels_other:
  "k \<noteq> oci_label ''documentation'' \<Longrightarrow> k \<noteq> oci_label ''url'' \<Longrightarrow> k \<noteq> oci_label ''authors'' \<Longrightarrow>
   k \<noteq> oci_label ''vendor'' \<Longrightarrow> mget (project_labels a labels) k = mget labels k"
  by (auto simp: project_labels_def mget_put_unless_empty split: option.split)

definition project_custom :: "OCILabelArgs \<Rightarrow> Labels" where
  "project_custom a = (case la_Project a of None \<Rightarrow> [] | Some p \<Rightarrow> lb_Custom p)"

lemma mget_custom_labels:
  assumes "wf_levels [la_VariantLabels a, la_TagLabels a, la_ImageLabels a, project_custom a]"
  shows "mget (custom_labels a) k =
     first_level [la_VariantLabels a, la_TagLabels a, la_ImageLabels a, project_custom a] k"
  using assms
  by (auto simp: custom_labels_def project_custom_def mget_map_copy split: option.splits)

text \<open>
  The labels of an image.  Its title and reference name are the image's name, its version the tag, its time of
  creation the clock's, whatever labels the configuration declares; a label that is not one of
  the standard ones is the one of the variant, else of the tag, else of the image, else of the project.
\<close>

lemma image_labels:
  assumes "wf_levels [la_VariantLabels a, la_TagLabels a, la_ImageLabels a, project_custom a]"
  shows "mget (BuildOCILabels git now a) (oci_label ''title'') = Some (la_ImageName a)
    \<and> mget (BuildOCILabels git now a) (oci_label ''ref.name'') = Some (la_ImageName a)
    \<and> mget (BuildOCILabels git now a) (oci_label ''version'') = Some (la_ImageTag a)
    \<and> mget (BuildOCILabels git now a) (oci_label ''created'') = Some now
    \<and> (\<forall>k. (\<forall>x. k \<noteq> oci_label x) \<longrightarrow> mget (BuildOCILabels git now a) k =
          first_level [la_VariantLabels a, la_TagLabels a, la_ImageLabels a, project_custom a] k)"
proof -
  obtain r s where g: "(if la_ProjectRoot a = [] then ([], []) else git (la_ProjectRoot a)) = (r, s)" by fastforce
  have l: "mget (BuildOCILabels git now a) k = mget (custom_labels a) k" if "\<forall>x. k \<noteq> oci_label x" for k
    unfolding BuildOCILabels_def Let_def g using that by (simp add: mget_put_unless_empty project_labels_other)
  have c: "\<forall>k. (\<forall>x. k \<noteq> oci_label x) \<longrightarrow> mget (BuildOCILabels git now a) k =
          first_level [la_VariantLabels a, la_TagLabels a, la_ImageLabels a, project_custom a] k"
    using mget_custom_labels[OF assms] l by simp
  show ?thesis
    by (intro conjI c; unfold BuildOCILabels_def Let_def g) (simp_all add: mget_put_unless_empty project_labels_other)
qed

definition app_labels :: OCILabelArgs where
  "app_labels = \<lparr>la_ImageName = ''app'', la_ImageTag = ''1.0'', la_Description = [], la_ProjectRoot = [],
     la_Project = None, la_ImageLabels = [(''team'', ''a''), (oci_label ''title'', ''other'')],
     la_TagLabels = [(''team'', ''b'')], la_VariantLabels = []\<rparr>"

lemma image_labels_witness:
  "mget (BuildOCILabels (\<lambda>_. ([], [])) ''now'' app_labels) (oci_label ''title'') = Some ''app''
   \<and> mget (BuildOCILabels (\<lambda>_. ([], [])) ''now'' app_labels) ''team'' = Some ''b''"
proof -
  have "wf_levels [la_VariantLabels app_labels, la_TagLabels app_labels, la_ImageLabels app_labels, project_custom app_labels]"
    by (simp add: app_labels_def project_custom_def wf_map_def oci_label_def)
  note i = image_labels[OF this, of "\<lambda>_. ([], [])" "''now''"]
  have "\<forall>x. ''team'' \<noteq> oci_label x" by (simp add: oci_label_def)
  then show ?thesis using i by (simp add: app_labels_def)
qed

end
