(* ===== verification/Build_Scripts.thy ===== *)
theory Build_Scripts
  imports Model Go_Text Platforms
begin

text \<open>
  The backends without a Dockerfile (\<open>internal/buildkit/build_context\<close>): the shell scripts and the build
  graphs of Chisel and Nix builds, and the configuration of the exported image.

  \<^item> What the source asks of BuildKit's \<open>llb\<close> package is recorded as a term of \<open>llb\<close>: one constructor per call.
  \<^item> The gateway client, the image reference parser, the platform parser, the JSON codec and SHA-1 are
    parameters.
\<close>

section \<open>Shell text\<close>

definition nl :: string where "nl = [CHR 0x0A]"

definition go_lines :: "string list \<Rightarrow> string" where
  "go_lines ls = concat (map (\<lambda>l. l @ nl) ls)"

definition shellQuote :: "string \<Rightarrow> string" where
  "shellQuote arg =
     [CHR 0x27] @ go_replace_all [CHR 0x27] [CHR 0x27, CHR 0x5C, CHR 0x27, CHR 0x27] arg @ [CHR 0x27]"

text \<open>\<open>strings.NewReplacer(old, new, ...).Replace\<close> for old strings that are not empty: at each position the first pair that matches.\<close>

function go_replacer :: "(string \<times> string) list \<Rightarrow> string \<Rightarrow> string" where
  "go_replacer pairs s =
     (case s of
        [] \<Rightarrow> []
      | x # r \<Rightarrow>
          (case find (\<lambda>(old, new). old \<noteq> [] \<and> prefix old s) pairs of
             Some (old, new) \<Rightarrow> new @ go_replacer pairs (drop (length old) s)
           | None \<Rightarrow> x # go_replacer pairs r))"
  by pat_completeness auto
termination
  by (relation "measure (\<lambda>(pairs, s). length s)") (auto simp: find_Some_iff neq_Nil_conv)

declare go_replacer.simps [simp del]

definition srcMountPath :: string where "srcMountPath = ''/src''"
definition outMountPath :: string where "outMountPath = ''/out''"
definition parentMountPath :: string where "parentMountPath = ''/parent''"

definition overlay_template :: string where
  \<open>overlay_template = go_lines
    [''if [ -d PARENT/nix/store ]; then'',
     ''  mkdir -p OUT/nix/store'',
     ''  cp -a PARENT/nix/store/. OUT/nix/store/'',
     ''fi'',
     ''for entry in PARENT/* PARENT/.[!.]* PARENT/..?*; do'',
     ''  [ "$entry" = PARENT/nix ] && continue'',
     ''  [ -e "$entry" ] || [ -L "$entry" ] || continue'',
     ''  cp -a "$entry" OUT/'',
     ''done'',
     ''for entry in ROOTFS/* ROOTFS/.[!.]* ROOTFS/..?*; do'',
     ''  [ -e "$entry" ] || [ -L "$entry" ] || continue'',
     ''  name="${entry##*/}"'',
     ''  if [ -d "$entry" ] && [ -L "OUT/$name" ]; then'',
     ''    link="$(readlink "OUT/$name")"'',
     ''    case "$link" in'',
     ''      /*) dest="OUT$link" ;;'',
     ''      *) dest="OUT/$link" ;;'',
     ''    esac'',
     ''    mkdir -p "$dest"'',
     ''    CP_RULE "$entry/." "$dest/"'',
     ''    continue'',
     ''  fi'',
     ''  CP_RULE "$entry" OUT/'',
     ''done'']\<close>

definition parentOverlayScript :: "string \<Rightarrow> string \<Rightarrow> string \<Rightarrow> bool \<Rightarrow> string" where
  "parentOverlayScript parent rootfs out dereferenceRootfs =
     (let rootfsCopy = (if dereferenceRootfs then ''cp -RL --preserve=links'' else ''cp -a'');
          script = go_replace_all ''CP_RULE'' rootfsCopy overlay_template in
      go_replacer [(''PARENT'', parent), (''ROOTFS'', rootfs), (''OUT'', out)] script)"

section \<open>Build inputs\<close>

record ParentImage =
  pi_OCIStoreID :: string
  pi_OCIDigestRef :: string
  pi_RegistryRef :: string

record runConfig =
  run_Entrypoint :: "string list option"
  run_Cmd :: "string list option"
  run_Env :: "(string, string) gomap"
  run_User :: string
  run_WorkingDir :: string

record ChiselRelease =
  cr_Name :: string
  cr_Git :: string
  cr_GitRef :: string

record ChiselBuildContext =
  cb_Root :: string
  cb_Release :: ChiselRelease
  cb_Slices :: "string list"
  cb_Ignore :: "string list"
  cb_BuilderImage :: string
  cb_ChiselVersion :: string
  cb_ExtraArgs :: "string list"
  cb_Parent :: "ParentImage option"
  cb_Cache :: bool
  cb_run :: runConfig

record NixBuildContext =
  nb_Root :: string
  nb_BuilderImage :: string
  nb_ExtraArgs :: "string list"
  nb_BuilderEnv :: "(string, string) gomap"
  nb_run :: runConfig
  nb_Parent :: "ParentImage option"
  nb_StoreCache :: bool

datatype context_error =
    NeedsRelease | BothReleases | NeedsSlices | EmptySliceEntry
  | NotLinux string string | NoToolBinary386 | NoToolchain string string | NoPackageArch string string
  | NoNixSystem string string | InvalidPlatform string | InvalidReference string
  | ResolveFailed string string | BadConfig string | SolveFailed string

definition Validate :: "ChiselBuildContext \<Rightarrow> context_error + unit" where
  "Validate d =
     (if cr_Name (cb_Release d) = [] \<and> cr_Git (cb_Release d) = [] then Inl NeedsRelease
      else if cr_Name (cb_Release d) \<noteq> [] \<and> cr_Git (cb_Release d) \<noteq> [] then Inl BothReleases
      else if cb_Slices d = [] then Inl NeedsSlices
      else res_guard (list_all (\<lambda>slice. slice \<noteq> []) (cb_Slices d)) EmptySliceEntry)"

section \<open>Chisel\<close>

definition chiselFileName :: string where "chiselFileName = ''chisel.yaml''"

definition DefaultChiselBuilderImage :: string where
  "DefaultChiselBuilderImage = ''ghcr.io/containerhive/helper-images/chisel:1.5''"

definition DefaultChiselVersion :: string where "DefaultChiselVersion = ''v1.5.1''"
definition chiselVersionLabel :: string where "chiselVersionLabel = ''chisel.version''"

definition chiselReleaseURL :: "string \<Rightarrow> string \<Rightarrow> string" where
  "chiselReleaseURL version arch = ''https://github.com/canonical/chisel/releases/download/'' @ version
     @ ''/chisel_'' @ version @ ''_linux_'' @ arch @ ''.tar.gz''"

definition CanonicalChiselReleasesRepo :: string where
  "CanonicalChiselReleasesRepo = ''https://github.com/canonical/chisel-releases''"

definition chiselContextKey :: string where "chiselContextKey = ''context''"
definition chiselContextSharedKeyHint :: string where "chiselContextSharedKeyHint = ''hive-chisel-context''"
definition chiselCachePath :: string where "chiselCachePath = ''/chisel-cache''"
definition chiselCacheKey :: string where "chiselCacheKey = ''hive-chisel-cache''"
definition chiselReleaseCheckoutDirName :: string where "chiselReleaseCheckoutDirName = ''releases-git''"
definition chiselRootfsPath :: string where "chiselRootfsPath = ''/tmp/hive-rootfs''"

definition toolchainScript :: "bool \<Rightarrow> string" where
  \<open>toolchainScript download =
     ''missing='' @ [CHR 0x27, CHR 0x27] @ nl @ go_lines
       [''command -v git >/dev/null 2>&1 || missing="$missing git"'',
        ''[ -e /etc/ssl/certs/ca-certificates.crt ] || missing="$missing ca-certificates"'',
        ''if [ -n "$missing" ]; then'',
        ''  apt-get update && apt-get install -y --no-install-recommends $missing'',
        ''fi'']
     @ (if download then go_lines [''tar -xzf /tmp/chisel/chisel.tar.gz -C /usr/local/bin/''] else [])\<close>

definition needsChiselDownload :: "ChiselBuildContext \<Rightarrow> (string, string) gomap \<Rightarrow> bool" where
  "needsChiselDownload d labels =
     (let shipped = go_trim_prefix (go_trim_space (mget_or [] labels chiselVersionLabel)) ''v'' in
      if shipped = [] then True
      else let pinned = go_trim_prefix (go_trim_space (cb_ChiselVersion d)) ''v'' in
        pinned \<noteq> [] \<and> pinned \<noteq> shipped)"

definition chisel_version :: "ChiselBuildContext \<Rightarrow> string" where
  "chisel_version d =
     (let version = go_trim_space (cb_ChiselVersion d);
          version = (if version = [] then DefaultChiselVersion else version) in
      ''v'' @ go_trim_prefix version ''v'')"

definition releaseRepo :: "ChiselBuildContext \<Rightarrow> string" where
  "releaseRepo d = (if cr_Git (cb_Release d) \<noteq> [] then cr_Git (cb_Release d) else CanonicalChiselReleasesRepo)"

definition releaseRef :: "ChiselBuildContext \<Rightarrow> string" where
  "releaseRef d = (if cr_Git (cb_Release d) \<noteq> [] then cr_GitRef (cb_Release d) else cr_Name (cb_Release d))"

text \<open>\<open>sha1_hex\<close> is the hexadecimal SHA-1 digest.\<close>

definition checkoutDir :: "(string \<Rightarrow> string) \<Rightarrow> ChiselBuildContext \<Rightarrow> string" where
  "checkoutDir sha1_hex d = take 12 (sha1_hex (releaseRepo d @ ''@'' @ releaseRef d))"

definition writeExtraArgs :: "string list \<Rightarrow> string" where
  "writeExtraArgs args = concat (map (\<lambda>arg. '' '' @ shellQuote arg) args)"

text \<open>The script in its parts: environment, checkout, custom slices, the cut, assembly.\<close>

definition cut_environment :: "ChiselBuildContext \<Rightarrow> string" where
  "cut_environment d =
     (if cb_Cache d then go_lines [''export XDG_CACHE_HOME='' @ chiselCachePath, ''export GIT_TERMINAL_PROMPT=0''] else [])"

definition clone_line :: "ChiselBuildContext \<Rightarrow> string" where
  \<open>clone_line d = ''git clone '' @ shellQuote (releaseRepo d) @ '' "$release_dir"''\<close>

definition checkout_line :: "string \<Rightarrow> string" where
  \<open>checkout_line ref = ''git -C "$release_dir" checkout --force --detach '' @ shellQuote ref\<close>

definition cut_checkout :: "(string \<Rightarrow> string) \<Rightarrow> ChiselBuildContext \<Rightarrow> string" where
  \<open>cut_checkout sha1_hex d =
     (if cb_Cache d then go_lines
        [''release_dir='' @ chiselCachePath @ ''/'' @ chiselReleaseCheckoutDirName @ ''/'' @ checkoutDir sha1_hex d,
         ''if [ ! -d "$release_dir/.git" ]; then'',
         ''  '' @ clone_line d,
         ''fi'',
         ''git -C "$release_dir" fetch --force --prune --tags origin'']
      else go_lines [''release_dir=/tmp/hive-release-src'', clone_line d])
     @ (if releaseRef d = [] then go_lines [''git -C "$release_dir" checkout --force --detach origin/HEAD'']
        else go_lines [checkout_line (''origin/'' @ releaseRef d) @ '' || '' @ checkout_line (releaseRef d)])\<close>

definition cut_slices :: string where
  \<open>cut_slices = go_lines
     [''if [ -d '' @ srcMountPath @ ''/slices ]; then'',
      ''  cp -a "$release_dir" /tmp/hive-release'',
      ''  cp -a '' @ srcMountPath @ ''/slices/. /tmp/hive-release/slices/'',
      ''  release_dir=/tmp/hive-release'',
      ''fi'']\<close>

definition cut_line :: "ChiselBuildContext \<Rightarrow> string \<Rightarrow> string" where
  \<open>cut_line d packageArch =
     ''chisel cut --release "$release_dir" --root '' @ chiselRootfsPath
     @ '' --arch '' @ shellQuote packageArch
     @ concat (map (\<lambda>cond. '' --ignore '' @ shellQuote cond) (cb_Ignore d))
     @ writeExtraArgs (cb_ExtraArgs d)
     @ concat (map (\<lambda>slice. '' '' @ shellQuote slice) (cb_Slices d))\<close>

definition cut_assembly :: "bool \<Rightarrow> string" where
  "cut_assembly hasParent =
     (if hasParent then parentOverlayScript parentMountPath chiselRootfsPath outMountPath False
      else go_lines [''cp -a '' @ chiselRootfsPath @ ''/. '' @ outMountPath @ ''/''])
     @ go_lines [''if [ -d '' @ srcMountPath @ ''/rootfs ]; then cp -a '' @ srcMountPath @ ''/rootfs/. ''
         @ outMountPath @ ''/ ; fi'']"

definition cutScript :: "(string \<Rightarrow> string) \<Rightarrow> ChiselBuildContext \<Rightarrow> string \<Rightarrow> bool \<Rightarrow> string" where
  "cutScript sha1_hex d packageArch hasParent =
     cut_environment d @ cut_checkout sha1_hex d @ cut_slices
     @ go_lines [''mkdir -p '' @ chiselRootfsPath, cut_line d packageArch]
     @ cut_assembly hasParent"

section \<open>Architectures\<close>

record OCIPlatform =
  pl_OS :: string
  pl_Architecture :: string
  pl_Variant :: string

definition chiselToolchainArch :: "OCIPlatform \<Rightarrow> context_error + string" where
  "chiselToolchainArch plat =
     (let arch = pl_Architecture plat in
      if pl_OS plat \<noteq> ''linux'' then Inl (NotLinux (pl_OS plat) arch)
      else if arch \<in> {''amd64'', ''arm64'', ''ppc64le'', ''riscv64'', ''s390x''} then Inr arch
      else if arch = ''arm'' \<and> pl_Variant plat \<in> {[], ''v7'', ''v7a''} then Inr ''arm''
      else if arch = ''386'' then Inl NoToolBinary386
      else Inl (NoToolchain arch (pl_Variant plat)))"

definition chiselPackageArch :: "OCIPlatform \<Rightarrow> context_error + string" where
  "chiselPackageArch plat =
     (let arch = pl_Architecture plat in
      if pl_OS plat \<noteq> ''linux'' then Inl (NotLinux (pl_OS plat) arch)
      else if arch = ''amd64'' then Inr ''amd64''
      else if arch = ''arm64'' then Inr ''arm64''
      else if arch = ''ppc64le'' then Inr ''ppc64el''
      else if arch = ''riscv64'' then Inr ''riscv64''
      else if arch = ''s390x'' then Inr ''s390x''
      else if arch = ''386'' then Inr ''i386''
      else if arch = ''arm'' \<and> pl_Variant plat \<in> {[], ''v7'', ''v7a''} then Inr ''armhf''
      else Inl (NoPackageArch arch (pl_Variant plat)))"

definition nixSystemName :: "OCIPlatform \<Rightarrow> context_error + string" where
  "nixSystemName plat =
     (let arch = pl_Architecture plat in
      if pl_OS plat \<noteq> ''linux'' then Inl (NotLinux (pl_OS plat) arch)
      else if arch = ''amd64'' then Inr ''x86_64-linux''
      else if arch = ''arm64'' then Inr ''aarch64-linux''
      else if arch = ''386'' then Inr ''i686-linux''
      else if arch = ''ppc64le'' then Inr ''powerpc64le-linux''
      else if arch = ''riscv64'' then Inr ''riscv64-linux''
      else if arch = ''arm'' \<and> pl_Variant plat \<in> {[], ''v7'', ''v7a''} then Inr ''armv7l-linux''
      else if arch = ''arm'' \<and> pl_Variant plat \<in> {''v6'', ''v6l''} then Inr ''armv6l-linux''
      else Inl (NoNixSystem arch (pl_Variant plat)))"

section \<open>Nix\<close>

definition flakeFileName :: string where "flakeFileName = ''flake.nix''"

definition DefaultNixBuilderImage :: string where
  "DefaultNixBuilderImage = ''ghcr.io/containerhive/helper-images/nix:2.35''"

definition nixContextKey :: string where "nixContextKey = ''context''"
definition nixContextSharedKeyHint :: string where "nixContextSharedKeyHint = ''hive-nix-flake''"
definition nixStoreCachePath :: string where "nixStoreCachePath = ''/nix-cache''"
definition nixStoreCacheKey :: string where "nixStoreCacheKey = ''hive-nix-store''"

definition installableAttr :: "string \<Rightarrow> string" where
  "installableAttr system = ''#packages.'' @ system @ ''.default''"

definition sq :: "string \<Rightarrow> string" where "sq s = [CHR 0x27] @ s @ [CHR 0x27]"

definition gnix :: string where
  "gnix = ''nix --extra-experimental-features '' @ sq ''nix-command flakes''"

definition store_import :: "NixBuildContext \<Rightarrow> string \<Rightarrow> string" where
  \<open>store_import d system =
     ''install='' @ sq (''.#packages.'' @ system @ ''.default'') @ nl
     @ ''drv="$('' @ gnix @ '' eval --raw $lockmode "$install.drvPath"'' @ writeExtraArgs (nb_ExtraArgs d)
     @ '')" || drv='' @ sq [] @ nl
     @ gnix @ '' copy --no-check-sigs --all --from local?root=/nix-cache || true'' @ nl\<close>

definition buildScript :: "NixBuildContext \<Rightarrow> string \<Rightarrow> bool \<Rightarrow> string" where
  \<open>buildScript d system hasParent =
     ''lockmode='' @ sq [] @ ''; [ -f /src/flake.lock ] && lockmode='' @ sq ''--no-update-lock-file'' @ nl
     @ (if nb_StoreCache d then store_import d system else [])
     @ gnix @ '' --option sandbox false'' @ '' --option filter-syscalls false''
     @ '' build $lockmode --show-trace -L --out-link /tmp/hive-rootfs .'' @ installableAttr system
     @ writeExtraArgs (nb_ExtraArgs d) @ nl
     @ (if hasParent then parentOverlayScript parentMountPath ''/tmp/hive-rootfs'' ''/out'' True
        else ''cp -RL --preserve=links /tmp/hive-rootfs/. /out/'' @ nl)
     @ gnix @ '' copy --no-check-sigs --to /out /tmp/hive-rootfs''
     @ (if nb_StoreCache d then nl @ ''[ -z "$drv" ] || '' @ gnix
          @ '' copy --no-check-sigs --to local?root='' @ nixStoreCachePath @ '' "$drv" || true''
        else [])\<close>

section \<open>Image references\<close>

text \<open>The package \<open>distribution/reference\<close>: \<open>ParseNormalizedNamed\<close>, \<open>TagNameOnly\<close>, \<open>String\<close> and the test for a digest.\<close>

record 'n ref_lib =
  ParseNormalizedNamed :: "string \<Rightarrow> 'n option"
  TagNameOnly :: "'n \<Rightarrow> 'n"
  ref_String :: "'n \<Rightarrow> string"
  is_Digested :: "'n \<Rightarrow> bool"

definition canonicalImageRef :: "'n ref_lib \<Rightarrow> string \<Rightarrow> string option" where
  "canonicalImageRef lib ref = map_option (\<lambda>named. ref_String lib (TagNameOnly lib named)) (ParseNormalizedNamed lib ref)"

definition pinImageRef :: "'n ref_lib \<Rightarrow> string \<Rightarrow> string \<Rightarrow> string" where
  "pinImageRef lib canonical imageDigest =
     (case ParseNormalizedNamed lib canonical of
        None \<Rightarrow> canonical @ ''@'' @ imageDigest
      | Some named \<Rightarrow> if is_Digested lib named then canonical else canonical @ ''@'' @ imageDigest)"

section \<open>The image configuration\<close>

record ImageConfig =
  ic_User :: string
  ic_Env :: "string list option"
  ic_Entrypoint :: "string list option"
  ic_Cmd :: "string list option"
  ic_WorkingDir :: string
  ic_Labels :: "(string, string) gomap option"

record OCIImageDoc =
  id_Platform :: OCIPlatform
  id_Config :: ImageConfig

definition some_list :: "'a list option \<Rightarrow> 'a list" where
  "some_list xs = (case xs of None \<Rightarrow> [] | Some ys \<Rightarrow> ys)"

definition sortedKeys :: "(string, string) gomap \<Rightarrow> string list" where
  "sortedKeys m = sort (mkeys m)"

definition env_entry :: "string \<Rightarrow> (string, string) gomap \<Rightarrow> (string, string) gomap" where
  "env_entry entry merged =
     (let (key, value, found) = go_cut entry CHR ''='' in if found then mput key value merged else merged)"

definition mergedEnv :: "ImageConfig option \<Rightarrow> (string, string) gomap \<Rightarrow> string list option" where
  "mergedEnv parentConfig env =
     (let merged = (case parentConfig of None \<Rightarrow> [] | Some c \<Rightarrow> fold env_entry (some_list (ic_Env c)) []);
          merged = map_copy env merged in
      if merged = [] then None
      else Some (map (\<lambda>key. key @ ''='' @ mget_or [] merged key) (sortedKeys merged)))"

definition label_entry :: "string \<times> string \<Rightarrow> (string, string) gomap \<Rightarrow> (string, string) gomap" where
  "label_entry kv labels =
     (case go_cut_prefix (fst kv) ''label:'' of Some name \<Rightarrow> mput name (snd kv) labels | None \<Rightarrow> labels)"

definition labelMap :: "(string, string) gomap \<Rightarrow> (string, string) gomap option" where
  "labelMap opts =
     (if opts = [] then None
      else let labels = fold label_entry opts [] in if labels = [] then None else Some labels)"

definition exportImageConfig ::
  "OCIPlatform \<Rightarrow> (string, string) gomap \<Rightarrow> ImageConfig option \<Rightarrow> runConfig \<Rightarrow> OCIImageDoc" where
  "exportImageConfig plat opts parentConfig run =
     (let env = mergedEnv parentConfig (run_Env run); labels = labelMap opts;
          entrypoint = (case parentConfig of
              Some p \<Rightarrow> if run_Entrypoint run = None then ic_Entrypoint p else run_Entrypoint run
            | None \<Rightarrow> run_Entrypoint run);
          cmd = (case parentConfig of
              Some p \<Rightarrow> if run_Cmd run = None then ic_Cmd p else run_Cmd run | None \<Rightarrow> run_Cmd run);
          user = (case parentConfig of
              Some p \<Rightarrow> if run_User run = [] then ic_User p else run_User run | None \<Rightarrow> run_User run);
          workingDir = (case parentConfig of
              Some p \<Rightarrow> if run_WorkingDir run = [] then ic_WorkingDir p else run_WorkingDir run
            | None \<Rightarrow> run_WorkingDir run) in
      \<lparr>id_Platform = plat,
       id_Config = \<lparr>ic_User = user, ic_Env = env, ic_Entrypoint = entrypoint, ic_Cmd = cmd,
          ic_WorkingDir = workingDir, ic_Labels = labels\<rparr>\<rparr>)"

section \<open>Build graphs\<close>

datatype sharing = CacheMountShared | CacheMountLocked

text \<open>The calls on \<open>llb\<close>: sources, environment, a run with its working directory and mounts (path, source, persistent
  cache), and the state left in a mount.\<close>

datatype llb =
    Scratch
  | LImage string
  | LHTTP string string OCIPlatform
  | LLocal string string "string list"
  | LOCILayout string string string OCIPlatform
  | AddEnv string string llb
  | WithImageConfig string llb
  | LRun "string list" "string option" "(string \<times> llb \<times> (string \<times> sharing) option) list" llb
  | GetMount string llb

definition builder_env :: "string \<Rightarrow> llb \<Rightarrow> llb" where
  "builder_env entry state =
     (let (key, value, found) = go_cut entry CHR ''='' in if found then AddEnv key value state else state)"

definition builderStateFor :: "string \<Rightarrow> string list \<Rightarrow> llb" where
  "builderStateFor digestRef env = fold builder_env env (LImage digestRef)"

definition src_mount :: "string \<Rightarrow> string \<Rightarrow> string \<times> llb \<times> (string \<times> sharing) option" where
  "src_mount key hint = (srcMountPath, LLocal key hint [''*/image.tar''], None)"

definition parent_mount :: "llb option \<Rightarrow> (string \<times> llb \<times> (string \<times> sharing) option) list" where
  "parent_mount parentState = (case parentState of None \<Rightarrow> [] | Some p \<Rightarrow> [(parentMountPath, p, None)])"

definition sh_args :: "string \<Rightarrow> string list" where
  "sh_args script = [''/bin/sh'', ''-euc'', script]"

definition chisel_buildGraph ::
  "(string \<Rightarrow> string) \<Rightarrow> ChiselBuildContext \<Rightarrow> string \<Rightarrow> llb \<Rightarrow> llb option \<Rightarrow> llb" where
  "chisel_buildGraph sha1_hex d packageArch toolchain parentState =
     GetMount outMountPath (LRun (sh_args (cutScript sha1_hex d packageArch (parentState \<noteq> None))) (Some srcMountPath)
       ([src_mount chiselContextKey chiselContextSharedKeyHint, (outMountPath, Scratch, None)]
        @ parent_mount parentState
        @ (if cb_Cache d then [(chiselCachePath, Scratch, Some (chiselCacheKey, CacheMountLocked))] else []))
       toolchain)"

definition nix_buildGraph :: "NixBuildContext \<Rightarrow> string \<Rightarrow> string list \<Rightarrow> string \<Rightarrow> llb option \<Rightarrow> llb" where
  "nix_buildGraph d system builderEnv digestRef parentState =
     (let runState = fold (\<lambda>key state. AddEnv key (mget_or [] (nb_BuilderEnv d) key) state)
            (sortedKeys (nb_BuilderEnv d)) (builderStateFor digestRef builderEnv) in
      GetMount outMountPath (LRun (sh_args (buildScript d system (parentState \<noteq> None))) (Some srcMountPath)
        ([src_mount nixContextKey nixContextSharedKeyHint, (outMountPath, Scratch, None)]
         @ parent_mount parentState
         @ (if nb_StoreCache d then [(nixStoreCachePath, Scratch, Some (nixStoreCacheKey, CacheMountShared))] else []))
        runState))"

section \<open>Running a build\<close>

text \<open>The gateway client, and the parsers a build uses.\<close>

record 'r gateway =
  gw_opts :: "(string, string) gomap"
  gw_SessionID :: string
  gw_ResolveImage :: "string \<Rightarrow> OCIPlatform \<Rightarrow> string + string \<times> string"
  gw_ResolveLayout :: "string \<Rightarrow> OCIPlatform \<Rightarrow> string \<Rightarrow> string \<Rightarrow> string + string"
  gw_Solve :: "llb \<Rightarrow> OCIPlatform \<Rightarrow> string + 'r"

record build_libs =
  bl_platform :: "string \<Rightarrow> OCIPlatform option"
  bl_default_platform :: OCIPlatform
  bl_config :: "string \<Rightarrow> ImageConfig option"
  bl_config_applies :: "string \<Rightarrow> bool"

definition parsePlatform :: "build_libs \<Rightarrow> string \<Rightarrow> context_error + OCIPlatform" where
  "parsePlatform libs name =
     (if name = [] then Inr (bl_default_platform libs)
      else case bl_platform libs name of None \<Rightarrow> Inl (InvalidPlatform name) | Some plat \<Rightarrow> Inr plat)"

record resolvedBuilder =
  rbu_digestRef :: string
  rbu_env :: "string list"
  rbu_labels :: "(string, string) gomap"

definition or_error :: "'e \<Rightarrow> 'a option \<Rightarrow> 'e + 'a" where
  "or_error e x = (case x of None \<Rightarrow> Inl e | Some y \<Rightarrow> Inr y)"

definition resolve_image :: "'r gateway \<Rightarrow> OCIPlatform \<Rightarrow> string \<Rightarrow> context_error + string \<times> string" where
  "resolve_image client plat named =
     (case gw_ResolveImage client named plat of Inl e \<Rightarrow> Inl (ResolveFailed named e) | Inr dc \<Rightarrow> Inr dc)"

definition resolveBuilderImage ::
  "'n ref_lib \<Rightarrow> build_libs \<Rightarrow> 'r gateway \<Rightarrow> OCIPlatform \<Rightarrow> string \<Rightarrow> string \<Rightarrow> context_error + resolvedBuilder" where
  "resolveBuilderImage lib libs client plat builderRef defaultRef =
     (let ref = (if builderRef = [] then defaultRef else builderRef) in
      res_bind (or_error (InvalidReference ref) (canonicalImageRef lib ref)) (\<lambda>named.
      res_bind (resolve_image client plat named) (\<lambda>(imageDigest, config).
      res_bind (or_error (BadConfig named) (bl_config libs config)) (\<lambda>img.
        Inr \<lparr>rbu_digestRef = pinImageRef lib named imageDigest, rbu_env = some_list (ic_Env img),
             rbu_labels = (case ic_Labels img of None \<Rightarrow> [] | Some l \<Rightarrow> l)\<rparr>))))"

definition apply_config ::
  "build_libs \<Rightarrow> string \<Rightarrow> string \<Rightarrow> llb \<Rightarrow> context_error + (llb \<times> ImageConfig) option" where
  "apply_config libs ref config st =
     res_bind (or_error (BadConfig ref) (bl_config libs config)) (\<lambda>img.
     res_bind (res_guard (bl_config_applies libs config) (BadConfig ref)) (\<lambda>_.
       Inr (Some (WithImageConfig config st, img))))"

definition resolveParentState ::
  "'n ref_lib \<Rightarrow> build_libs \<Rightarrow> 'r gateway \<Rightarrow> OCIPlatform \<Rightarrow> ParentImage option
   \<Rightarrow> context_error + (llb \<times> ImageConfig) option" where
  "resolveParentState lib libs client plat parent =
     (case parent of
        None \<Rightarrow> Inr None
      | Some p \<Rightarrow>
          if pi_OCIStoreID p \<noteq> [] then
            (let ref = pi_OCIDigestRef p; sessionID = gw_SessionID client in
             case gw_ResolveLayout client ref plat sessionID (pi_OCIStoreID p) of
               Inl e \<Rightarrow> Inl (ResolveFailed ref e)
             | Inr config \<Rightarrow> apply_config libs ref config (LOCILayout ref sessionID (pi_OCIStoreID p) plat))
          else
            res_bind (or_error (InvalidReference (pi_RegistryRef p)) (canonicalImageRef lib (pi_RegistryRef p))) (\<lambda>named.
            res_bind (resolve_image client plat named) (\<lambda>(imageDigest, config).
              let digestRef = pinImageRef lib named imageDigest in
              apply_config libs digestRef config (LImage digestRef))))"

definition toolchainState :: "ChiselBuildContext \<Rightarrow> OCIPlatform \<Rightarrow> string \<Rightarrow> resolvedBuilder \<Rightarrow> llb" where
  "toolchainState d plat toolchainArch build =
     (let download = needsChiselDownload d (rbu_labels build) in
      LRun (sh_args (toolchainScript download)) None
        (if download then [(''/tmp/chisel'', LHTTP (chiselReleaseURL (chisel_version d) toolchainArch) ''chisel.tar.gz'' plat, None)]
         else [])
        (builderStateFor (rbu_digestRef build) (rbu_env build)))"

definition solve :: "'r gateway \<Rightarrow> OCIPlatform \<Rightarrow> llb \<Rightarrow> context_error + 'r" where
  "solve client plat state = (case gw_Solve client state plat of Inl e \<Rightarrow> Inl (SolveFailed e) | Inr r \<Rightarrow> Inr r)"

definition chisel_RunBuild ::
  "(string \<Rightarrow> string) \<Rightarrow> 'n ref_lib \<Rightarrow> build_libs \<Rightarrow> 'r gateway \<Rightarrow> ChiselBuildContext \<Rightarrow> context_error + 'r \<times> OCIImageDoc" where
  "chisel_RunBuild sha1_hex lib libs client d =
     (let opts = gw_opts client in
      res_bind (parsePlatform libs (mget_or [] opts ''platform'')) (\<lambda>plat.
      res_bind (chiselToolchainArch plat) (\<lambda>toolchainArch.
      res_bind (chiselPackageArch plat) (\<lambda>packageArch.
      res_bind (resolveBuilderImage lib libs client plat (cb_BuilderImage d) DefaultChiselBuilderImage) (\<lambda>build.
      let toolchain = toolchainState d plat toolchainArch build in
      res_bind (resolveParentState lib libs client plat (cb_Parent d)) (\<lambda>parent.
      let cutState = chisel_buildGraph sha1_hex d packageArch toolchain (map_option fst parent) in
      res_bind (solve client plat cutState) (\<lambda>solved.
        Inr (solved, exportImageConfig plat opts (map_option snd parent) (cb_run d)))))))))"

definition nix_RunBuild ::
  "'n ref_lib \<Rightarrow> build_libs \<Rightarrow> 'r gateway \<Rightarrow> NixBuildContext \<Rightarrow> context_error + 'r \<times> OCIImageDoc" where
  "nix_RunBuild lib libs client d =
     (let opts = gw_opts client in
      res_bind (parsePlatform libs (mget_or [] opts ''platform'')) (\<lambda>plat.
      res_bind (nixSystemName plat) (\<lambda>system.
      res_bind (resolveBuilderImage lib libs client plat (nb_BuilderImage d) DefaultNixBuilderImage) (\<lambda>build.
      res_bind (resolveParentState lib libs client plat (nb_Parent d)) (\<lambda>parent.
      let buildState = nix_buildGraph d system (rbu_env build) (rbu_digestRef build) (map_option fst parent) in
      res_bind (solve client plat buildState) (\<lambda>solved.
        Inr (solved, exportImageConfig plat opts (map_option snd parent) (nb_run d))))))))"

section \<open>Reading a command line as the shell does\<close>

text \<open>
  A reader for the part of the POSIX shell language the scripts use in their command lines: blanks separate
  words, \<open>'...'\<close> quotes everything, a backslash quotes the next byte, \<open>"$name"\<close> expands the variable
  without splitting it.  Anything else with a meaning to the shell is refused (\<^term>\<open>None\<close>),
  so a result says the line is one simple command with exactly these words.
\<close>

datatype sh_mode = Unquoted | Single | Double

definition sh_special :: "char \<Rightarrow> bool" where
  \<open>sh_special c \<longleftrightarrow> c \<in> set ''|&;<>()$`*?[#~%!{}='' \<or> c = CHR 0x09 \<or> c = CHR 0x0A\<close>

definition is_var_char :: "char \<Rightarrow> bool" where
  "is_var_char c \<longleftrightarrow> is_alnum c \<or> c = CHR ''_''"

definition word_of :: "string option \<Rightarrow> string" where
  "word_of w = (case w of None \<Rightarrow> [] | Some s \<Rightarrow> s)"

function sh_words :: "(string \<Rightarrow> string) \<Rightarrow> sh_mode \<Rightarrow> string option \<Rightarrow> string \<Rightarrow> string list option" where
  "sh_words vars mode w s =
     (case s of
        [] \<Rightarrow> if mode = Unquoted then Some (case w of None \<Rightarrow> [] | Some x \<Rightarrow> [x]) else None
      | c # r \<Rightarrow>
         (case mode of
            Single \<Rightarrow> if c = CHR 0x27 then sh_words vars Unquoted w r
                      else sh_words vars Single (Some (word_of w @ [c])) r
          | Double \<Rightarrow>
              if c = CHR 0x22 then sh_words vars Unquoted w r
              else if c = CHR ''$'' then
                (if takeWhile is_var_char r = [] then None
                 else sh_words vars Double (Some (word_of w @ vars (takeWhile is_var_char r))) (dropWhile is_var_char r))
              else if c = CHR 0x5C \<or> c = CHR 0x60 then None
              else sh_words vars Double (Some (word_of w @ [c])) r
          | Unquoted \<Rightarrow>
              if c = CHR 0x27 then sh_words vars Single (Some (word_of w)) r
              else if c = CHR 0x22 then sh_words vars Double (Some (word_of w)) r
              else if c = CHR 0x5C then
                (case r of [] \<Rightarrow> None | x # r \<Rightarrow> if x = CHR 0x0A then None else sh_words vars Unquoted (Some (word_of w @ [x])) r)
              else if c = CHR '' '' then
                map_option (\<lambda>ws. (case w of None \<Rightarrow> ws | Some x \<Rightarrow> x # ws)) (sh_words vars Unquoted None r)
              else if sh_special c then None
              else sh_words vars Unquoted (Some (word_of w @ [c])) r))"
  by pat_completeness auto
termination
  by (relation "measure (\<lambda>(vars, mode, w, s). length s)") (auto simp: le_imp_less_Suc length_dropWhile_le)

declare sh_words.simps [simp del]

definition sh_command :: "(string \<Rightarrow> string) \<Rightarrow> string \<Rightarrow> string list option" where
  "sh_command vars line = sh_words vars Unquoted None line"

lemma sh_Nil: "sh_words vars Unquoted w [] = Some (case w of None \<Rightarrow> [] | Some x \<Rightarrow> [x])"
  by (simp add: sh_words.simps)

lemma sh_blank: "sh_words vars Unquoted w (CHR '' '' # r) =
  map_option (\<lambda>ws. (case w of None \<Rightarrow> ws | Some x \<Rightarrow> x # ws)) (sh_words vars Unquoted None r)"
  by (subst sh_words.simps) simp

lemma sh_open: "sh_words vars Unquoted w (CHR 0x27 # r) = sh_words vars Single (Some (word_of w)) r"
  by (subst sh_words.simps) simp

lemma sh_escaped_quote:
  "sh_words vars Unquoted w (CHR 0x5C # CHR 0x27 # r) = sh_words vars Unquoted (Some (word_of w @ [CHR 0x27])) r"
  by (subst sh_words.simps) simp

lemma sh_single: "sh_words vars Single w (c # r) =
  (if c = CHR 0x27 then sh_words vars Unquoted w r else sh_words vars Single (Some (word_of w @ [c])) r)"
  by (subst sh_words.simps) simp

text \<open>Quoted text is one word, byte for byte.\<close>

lemma sh_quoted_body:
  "sh_words vars Single (Some w) (go_replace_all [CHR 0x27] [CHR 0x27, CHR 0x5C, CHR 0x27, CHR 0x27] a @ CHR 0x27 # r)
   = sh_words vars Unquoted (Some (w @ a)) r"
proof (induction a arbitrary: w)
  case (Cons c a)
  show ?case
  proof (cases "c = CHR 0x27")
    case True
    then show ?thesis
      using Cons.IH[of "w @ [CHR 0x27]"]
      by (simp add: go_replace_all_Cons sh_single sh_escaped_quote sh_open word_of_def)
  next
    case False
    then show ?thesis
      using Cons.IH[of "w @ [c]"] by (simp add: go_replace_all_Cons sh_single word_of_def)
  qed
qed (simp add: sh_single)

lemma sh_shellQuote:
  "sh_words vars Unquoted w (shellQuote a @ r) = sh_words vars Unquoted (Some (word_of w @ a)) r"
  by (simp add: shellQuote_def sh_open sh_quoted_body)

text \<open>A word ends at the end of the line or at a blank.\<close>

definition word_end :: "string \<Rightarrow> bool" where
  "word_end r \<longleftrightarrow> r = [] \<or> hd r = CHR '' ''"

lemma sh_word_end: "word_end r \<Longrightarrow> sh_words vars Unquoted (Some w) r = map_option ((#) w) (sh_words vars Unquoted None r)"
  by (cases r) (auto simp: word_end_def sh_Nil sh_blank option.map_comp comp_def)

lemma sh_blank_None: "sh_words vars Unquoted None (CHR '' '' # r) = sh_words vars Unquoted None r"
  by (simp add: sh_blank option.map_ident)

lemma sh_quoted_arg:
  "word_end r \<Longrightarrow> sh_words vars Unquoted None (shellQuote a @ r) = map_option ((#) a) (sh_words vars Unquoted None r)"
  by (simp add: sh_shellQuote word_of_def sh_word_end)

lemma word_end_blank [simp]: "word_end []" "word_end (CHR '' '' # r)"
  by (simp_all add: word_end_def)

lemma word_end_args: "word_end r \<Longrightarrow> word_end (concat (map (\<lambda>a. CHR '' '' # f a) as) @ r)"
  by (cases as) simp_all

text \<open>Blank-separated quoted arguments are read as these arguments.\<close>

lemma sh_quoted_args:
  "word_end r \<Longrightarrow> sh_words vars Unquoted None (concat (map (\<lambda>a. CHR '' '' # shellQuote a) as) @ r) =
     map_option ((@) as) (sh_words vars Unquoted None r)"
proof (induction as)
  case (Cons a as)
  then show ?case
    using word_end_args[OF Cons.prems, of shellQuote as]
    by (simp add: sh_blank_None sh_quoted_arg option.map_comp comp_def)
next
  case Nil
  show ?case by (cases "sh_words vars Unquoted None r") simp_all
qed

text \<open>Plain text is read up to the next word.\<close>

definition plain_char :: "char \<Rightarrow> bool" where
  "plain_char c \<longleftrightarrow> is_alnum c \<or> c \<in> set ''-_./:''"

definition plain_word :: "string \<Rightarrow> bool" where
  "plain_word s \<longleftrightarrow> list_all plain_char s"

lemma plain_char_ok:
  "plain_char c \<Longrightarrow> c \<noteq> CHR 0x27 \<and> c \<noteq> CHR 0x22 \<and> c \<noteq> CHR 0x5C \<and> c \<noteq> CHR '' '' \<and> \<not> sh_special c"
proof -
  have "\<forall>c. plain_char c \<longrightarrow> c \<noteq> CHR 0x27 \<and> c \<noteq> CHR 0x22 \<and> c \<noteq> CHR 0x5C \<and> c \<noteq> CHR '' '' \<and> \<not> sh_special c"
    by code_simp
  then show "plain_char c \<Longrightarrow> c \<noteq> CHR 0x27 \<and> c \<noteq> CHR 0x22 \<and> c \<noteq> CHR 0x5C \<and> c \<noteq> CHR '' '' \<and> \<not> sh_special c"
    by blast
qed

lemma sh_plain_char:
  "plain_char c \<Longrightarrow> sh_words vars Unquoted w (c # r) = sh_words vars Unquoted (Some (word_of w @ [c])) r"
  by (subst sh_words.simps) (simp add: plain_char_ok)

lemma sh_plain: "plain_word s \<Longrightarrow> s \<noteq> [] \<Longrightarrow> sh_words vars Unquoted w (s @ r) = sh_words vars Unquoted (Some (word_of w @ s)) r"
proof (induction s arbitrary: w)
  case (Cons c s)
  then have c: "plain_char c" and s: "plain_word s" by (simp_all add: plain_word_def)
  show ?case
  proof (cases "s = []")
    case False
    then show ?thesis using sh_plain_char[OF c] Cons.IH[OF s False] by (simp add: word_of_def)
  qed (use sh_plain_char[OF c] in simp)
qed simp

lemma sh_plain_word:
  "plain_word s \<Longrightarrow> s \<noteq> [] \<Longrightarrow> word_end r \<Longrightarrow>
   sh_words vars Unquoted None (s @ r) = map_option ((#) s) (sh_words vars Unquoted None r)"
  by (simp add: sh_plain word_of_def sh_word_end)

lemma sh_variable:
  assumes "word_end r" and "list_all is_var_char x" and "x \<noteq> []"
  shows "sh_words vars Unquoted None (CHR 0x22 # CHR ''$'' # x @ CHR 0x22 # r) =
    map_option ((#) (vars x)) (sh_words vars Unquoted None r)"
proof -
  have q: "\<not> is_var_char (CHR 0x22)" by code_simp
  have t: "takeWhile is_var_char (x @ CHR 0x22 # r) = x" "dropWhile is_var_char (x @ CHR 0x22 # r) = CHR 0x22 # r"
    using assms(2) q by (simp_all add: list_all_iff takeWhile_append dropWhile_append)
  have "sh_words vars Unquoted None (CHR 0x22 # CHR ''$'' # x @ CHR 0x22 # r) =
      sh_words vars Double (Some []) (CHR ''$'' # x @ CHR 0x22 # r)"
    by (subst sh_words.simps) (simp add: word_of_def)
  also have "\<dots> = sh_words vars Double (Some (vars x)) (CHR 0x22 # r)"
    by (subst sh_words.simps) (simp add: t assms(3) word_of_def)
  also have "\<dots> = sh_words vars Unquoted (Some (vars x)) r"
    by (subst sh_words.simps) simp
  finally show ?thesis by (simp add: sh_word_end[OF assms(1)])
qed

lemma sh_flag_args:
  assumes "plain_word flag" and "flag \<noteq> []" and "word_end r"
  shows "sh_words vars Unquoted None (concat (map (\<lambda>a. CHR '' '' # flag @ CHR '' '' # shellQuote a) as) @ r) =
     map_option ((@) (concat (map (\<lambda>a. [flag, a]) as))) (sh_words vars Unquoted None r)"
proof (induction as)
  case (Cons a as)
  have e: "word_end (concat (map (\<lambda>a. CHR '' '' # flag @ CHR '' '' # shellQuote a) as) @ r)"
    by (rule word_end_args[OF assms(3)])
  show ?case
    using Cons.IH e by (simp add: sh_blank_None sh_plain_word[OF assms(1,2)] sh_quoted_arg option.map_comp comp_def)
next
  case Nil
  show ?case by (cases "sh_words vars Unquoted None r") simp_all
qed

text \<open>Reading plain words one after the other.\<close>

definition blanked :: "string list \<Rightarrow> string" where
  "blanked ws = concat (map (\<lambda>w. w @ '' '') ws)"

lemma sh_blanked:
  "list_all (\<lambda>w. plain_word w \<and> w \<noteq> []) ws \<Longrightarrow>
   sh_words vars Unquoted None (blanked ws @ r) = map_option ((@) ws) (sh_words vars Unquoted None r)"
proof (induction ws)
  case (Cons w ws)
  then show ?case
    by (simp add: blanked_def sh_plain_word sh_blank_None option.map_comp comp_def)
next
  case Nil
  show ?case by (cases "sh_words vars Unquoted None r") (simp_all add: blanked_def)
qed

definition release_dir_ref :: string where
  \<open>release_dir_ref = ''"$release_dir"''\<close>

lemma sh_release_dir:
  "word_end r \<Longrightarrow> sh_words vars Unquoted None (release_dir_ref @ r) =
     map_option ((#) (vars ''release_dir'')) (sh_words vars Unquoted None r)"
proof -
  have "list_all is_var_char ''release_dir''" by code_simp
  then show "word_end r \<Longrightarrow> ?thesis"
    using sh_variable[of r "''release_dir''" vars] by (simp add: release_dir_ref_def)
qed

text \<open>The command lines as sequences of words.\<close>

lemma cut_line_words:
  "cut_line d arch = blanked [''chisel'', ''cut'', ''--release''] @ release_dir_ref @ CHR '' '' #
     blanked [''--root'', ''/tmp/hive-rootfs'', ''--arch''] @ shellQuote arch
     @ concat (map (\<lambda>a. CHR '' '' # ''--ignore'' @ CHR '' '' # shellQuote a) (cb_Ignore d))
     @ concat (map (\<lambda>a. CHR '' '' # shellQuote a) (cb_ExtraArgs d @ cb_Slices d))"
  by (simp add: cut_line_def writeExtraArgs_def chiselRootfsPath_def release_dir_ref_def blanked_def)

lemma clone_line_words:
  "clone_line d = blanked [''git'', ''clone''] @ shellQuote (releaseRepo d) @ CHR '' '' # release_dir_ref @ []"
  by (simp add: clone_line_def release_dir_ref_def blanked_def)

lemma checkout_line_words:
  "checkout_line ref = blanked [''git'', ''-C''] @ release_dir_ref @ CHR '' '' #
     blanked [''checkout'', ''--force'', ''--detach''] @ shellQuote ref @ []"
  by (simp add: checkout_line_def release_dir_ref_def blanked_def)

lemma plain_words:
  "list_all (\<lambda>w. plain_word w \<and> w \<noteq> []) [''chisel'', ''cut'', ''--release'']"
  "list_all (\<lambda>w. plain_word w \<and> w \<noteq> []) [''--root'', ''/tmp/hive-rootfs'', ''--arch'']"
  "list_all (\<lambda>w. plain_word w \<and> w \<noteq> []) [''git'', ''clone'']"
  "list_all (\<lambda>w. plain_word w \<and> w \<noteq> []) [''git'', ''-C'']"
  "list_all (\<lambda>w. plain_word w \<and> w \<noteq> []) [''checkout'', ''--force'', ''--detach'']"
  "plain_word ''--ignore''"
  by code_simp+

lemma sh_cut_arguments:
  "sh_words vars Unquoted None (shellQuote arch
     @ concat (map (\<lambda>a. CHR '' '' # ''--ignore'' @ CHR '' '' # shellQuote a) ignore)
     @ concat (map (\<lambda>a. CHR '' '' # shellQuote a) args)) =
   Some (arch # concat (map (\<lambda>a. [''--ignore'', a]) ignore) @ args)"
proof -
  have e: "word_end (concat (map (\<lambda>a. CHR '' '' # shellQuote a) args))"
    using word_end_args[of "[]" shellQuote args] by simp
  have e': "word_end (concat (map (\<lambda>a. CHR '' '' # ''--ignore'' @ CHR '' '' # shellQuote a) ignore)
      @ concat (map (\<lambda>a. CHR '' '' # shellQuote a) args))"
    by (rule word_end_args[OF e])
  have a: "sh_words vars Unquoted None (concat (map (\<lambda>a. CHR '' '' # shellQuote a) args)) = Some args"
    using sh_quoted_args[of "[]" vars args] by (simp add: sh_Nil)
  show ?thesis
    unfolding sh_quoted_arg[OF e'] sh_flag_args[OF plain_words(6) list.distinct(2) e] a by simp
qed

text \<open>
  C22. The command lines of a Chisel build, read by the shell: the cut is invoked with exactly the architecture,
  the ignore conditions, the extra arguments and the slices of the build, whatever bytes these
  contain, and git with exactly the repository and the reference; no value can add a word, end
  the command or be expanded.
\<close>

theorem chisel_command_words:
  "sh_command vars (cut_line d arch) =
     Some ([''chisel'', ''cut'', ''--release'', vars ''release_dir'', ''--root'', ''/tmp/hive-rootfs'', ''--arch'', arch]
       @ concat (map (\<lambda>c. [''--ignore'', c]) (cb_Ignore d)) @ cb_ExtraArgs d @ cb_Slices d)
   \<and> sh_command vars (clone_line d) = Some [''git'', ''clone'', releaseRepo d, vars ''release_dir'']
   \<and> sh_command vars (checkout_line ref) =
     Some [''git'', ''-C'', vars ''release_dir'', ''checkout'', ''--force'', ''--detach'', ref]"
  unfolding sh_command_def cut_line_words clone_line_words checkout_line_words
  by (simp only: sh_blanked plain_words sh_release_dir word_end_blank sh_blank_None sh_cut_arguments sh_quoted_arg sh_Nil)
    simp

end
