(* ===== verification/Retry.thy ===== *)
theory Retry
  imports Go_Text
begin

text \<open>
  Retrying builds over broken BuildKit connections (\<open>internal/buildkit/retry.go\<close>).  A world \<open>'w\<close>
  holds everything a build, a wait and a reset can change; the build itself, the clock and the
  context are the parameters of type \<open>runtime\<close>.  Delays are in nanoseconds, as
  \<open>time.Duration\<close> counts them.
\<close>

section \<open>Errors\<close>

text \<open>What the classification asks of an error: the context errors and the end-of-file errors in its chain, its gRPC code, and its
  text.\<close>

record build_error =
  be_is_canceled :: bool
  be_is_deadline :: bool
  be_is_eof :: bool
  be_is_unexpected_eof :: bool
  be_code :: nat
  be_message :: string

text \<open>\<open>codes.Unavailable\<close>\<close>

definition codes_Unavailable :: nat where "codes_Unavailable = 14"

definition transientErrorSubstrings :: "string list" where
  "transientErrorSubstrings =
     [''broken pipe'', ''connection reset by peer'', ''connection refused'', ''connection closed'',
      ''transport is closing'', ''use of closed network connection'', ''unexpected eof'',
      ''failed to list workers'', ''failed to dial'', ''no route to host'', ''i/o timeout'']"

definition isTransientBuildkitError :: "build_error option \<Rightarrow> bool" where
  "isTransientBuildkitError err =
     (case err of
        None \<Rightarrow> False
      | Some e \<Rightarrow>
          if be_is_canceled e \<or> be_is_deadline e then False
          else if be_is_eof e \<or> be_is_unexpected_eof e then True
          else if be_code e = codes_Unavailable then True
          else let message = go_to_lower (be_message e) in
            list_ex (\<lambda>transient. go_contains message transient) transientErrorSubstrings)"

section \<open>The loop\<close>

definition buildMaxRetries :: int where "buildMaxRetries = 3"

definition buildRetryDelays :: "int list" where
  "buildRetryDelays = [2 * 1000000000, 5 * 1000000000, 10 * 1000000000]"

definition buildRetryDelay :: "int list \<Rightarrow> int \<Rightarrow> int" where
  "buildRetryDelay delays attempt =
     (let index = attempt - 1;
          index = (if index \<ge> int (length delays) then int (length delays) - 1 else index) in
      delays ! nat index)"

text \<open>
  \<open>rt_wait\<close> is the \<open>select\<close>: whether the context was done before (or together with) the timer.
  \<open>rt_ctx_err\<close> is \<open>ctx.Err()\<close>.
\<close>

record 'w runtime =
  rt_build :: "'w \<Rightarrow> build_error option \<times> 'w"
  rt_reset :: "('w \<Rightarrow> 'w) option"
  rt_wait :: "int \<Rightarrow> 'w \<Rightarrow> bool \<times> 'w"
  rt_ctx_err :: "'w \<Rightarrow> string option"

datatype retry_error = BuildFailed build_error | JoinedErrors build_error "string option"

text \<open>Waiting before a retry and replacing the connection: the error to return, or the next world.\<close>

definition before_retry ::
  "'w runtime \<Rightarrow> int list \<Rightarrow> int \<Rightarrow> build_error option \<Rightarrow> 'w \<Rightarrow> (retry_error \<times> 'w) + 'w" where
  "before_retry rt delays attempt lastErr w =
     (if attempt > 0 then
        (case rt_wait rt (buildRetryDelay delays attempt) w of
           (True, w) \<Rightarrow> Inl (JoinedErrors (the lastErr) (rt_ctx_err rt w), w)
         | (False, w) \<Rightarrow> Inr (case rt_reset rt of None \<Rightarrow> w | Some reset \<Rightarrow> reset w))
      else Inr w)"

function retry_loop ::
  "'w runtime \<Rightarrow> int list \<Rightarrow> int \<Rightarrow> build_error option \<Rightarrow> 'w \<Rightarrow> retry_error option \<times> 'w" where
  "retry_loop rt delays attempt lastErr w =
     (if attempt > buildMaxRetries then (map_option BuildFailed lastErr, w)
      else case before_retry rt delays attempt lastErr w of
        Inl (err, w) \<Rightarrow> (Some err, w)
      | Inr w \<Rightarrow>
          (case rt_build rt w of
             (None, w) \<Rightarrow> (None, w)
           | (Some err, w) \<Rightarrow>
               if \<not> isTransientBuildkitError (Some err) \<or> rt_ctx_err rt w \<noteq> None
               then (Some (BuildFailed err), w)
               else retry_loop rt delays (attempt + 1) (Some err) w))"
  by pat_completeness auto
termination
  by (relation "measure (\<lambda>(rt, delays, attempt, lastErr, w). nat (buildMaxRetries + 1 - attempt))") auto

declare retry_loop.simps [simp del]

definition retryTransient :: "'w runtime \<Rightarrow> 'w \<Rightarrow> retry_error option \<times> 'w" where
  "retryTransient rt w = retry_loop rt buildRetryDelays 0 None w"

section \<open>Replacing the connection\<close>

record 'c Client =
  cl_buildkit :: 'c
  cl_endpoint :: string

definition NewClient :: "(string \<Rightarrow> string + 'c) \<Rightarrow> string \<Rightarrow> string + 'c Client" where
  "NewClient dial endpoint =
     (case dial endpoint of Inl err \<Rightarrow> Inl err
      | Inr buildkit \<Rightarrow> Inr \<lparr>cl_buildkit = buildkit, cl_endpoint = endpoint\<rparr>)"

definition resetConnection :: "(string \<Rightarrow> string + 'c) \<Rightarrow> 'c Client \<Rightarrow> 'c Client" where
  "resetConnection dial c =
     (if cl_endpoint c = [] then c
      else case dial (cl_endpoint c) of Inl err \<Rightarrow> c | Inr fresh \<Rightarrow> c\<lparr>cl_buildkit := fresh\<rparr>)"

section \<open>What the loop does\<close>

text \<open>
  The attempts the code promises, as a relation between the world before the loop and its result:
  attempt \<open>k\<close> is preceded, from the second on, by a wait and a reset; the loop goes on only after a transient failure under a
  live context.
\<close>

inductive attempts :: "'w runtime \<Rightarrow> int \<Rightarrow> 'w \<Rightarrow> build_error option \<Rightarrow> 'w \<Rightarrow> bool"
  for rt where
  first: "rt_build rt w = (r, w') \<Longrightarrow> attempts rt 0 w r w'"
| again: "attempts rt n w (Some e) w1 \<Longrightarrow> isTransientBuildkitError (Some e) \<Longrightarrow> rt_ctx_err rt w1 = None \<Longrightarrow>
    rt_wait rt (buildRetryDelay buildRetryDelays (n + 1)) w1 = (False, w2) \<Longrightarrow>
    rt_build rt (case rt_reset rt of None \<Rightarrow> w2 | Some reset \<Rightarrow> reset w2) = (r, w') \<Longrightarrow>
    attempts rt (n + 1) w r w'"

lemma attempts_nonneg: "attempts rt n w r w' \<Longrightarrow> 0 \<le> n"
  by (induction rule: attempts.induct) simp_all

text \<open>The loop continues any number of attempts up to the last one.\<close>

lemma retry_loop_attempts:
  assumes "attempts rt n w r w'" and "n \<le> buildMaxRetries"
  shows "retryTransient rt w = (case r of
      None \<Rightarrow> (None, w')
    | Some e \<Rightarrow> if \<not> isTransientBuildkitError (Some e) \<or> rt_ctx_err rt w' \<noteq> None
        then (Some (BuildFailed e), w') else retry_loop rt buildRetryDelays (n + 1) (Some e) w')"
  using assms
proof (induction rule: attempts.induct)
  case (first w r w')
  then show ?case
    unfolding retryTransient_def
    by (subst retry_loop.simps) (simp add: before_retry_def buildMaxRetries_def split: option.split)
next
  case (again n w e w1 w2 r w')
  have "retryTransient rt w = retry_loop rt buildRetryDelays (n + 1) (Some e) w1"
    using again.IH again.prems again.hyps(2,3) by simp
  also have "\<dots> = (case r of
      None \<Rightarrow> (None, w')
    | Some e \<Rightarrow> if \<not> isTransientBuildkitError (Some e) \<or> rt_ctx_err rt w' \<noteq> None
        then (Some (BuildFailed e), w') else retry_loop rt buildRetryDelays (n + 1 + 1) (Some e) w')"
    using again.hyps(4,5) again.prems attempts_nonneg[OF again.hyps(1)]
    by (subst retry_loop.simps) (simp add: before_retry_def split: option.split)
  finally show ?case .
qed

lemma retry_loop_exhausted: "retry_loop rt delays (buildMaxRetries + 1) (Some e) w = (Some (BuildFailed e), w)"
  by (subst retry_loop.simps) simp

text \<open>A retry that the context cuts short returns the last error joined with the context's.\<close>

lemma retry_loop_cancelled:
  assumes "attempts rt n w (Some e) w1" and "n < buildMaxRetries"
    and "isTransientBuildkitError (Some e)" and "rt_ctx_err rt w1 = None"
    and "rt_wait rt (buildRetryDelay buildRetryDelays (n + 1)) w1 = (True, w2)"
  shows "retryTransient rt w = (Some (JoinedErrors e (rt_ctx_err rt w2)), w2)"
proof -
  have "retryTransient rt w = retry_loop rt buildRetryDelays (n + 1) (Some e) w1"
    using retry_loop_attempts[OF assms(1)] assms(2-4) by simp
  also have "\<dots> = (Some (JoinedErrors e (rt_ctx_err rt w2)), w2)"
    using assms(2,5) attempts_nonneg[OF assms(1)] by (subst retry_loop.simps) (simp add: before_retry_def)
  finally show ?thesis .
qed

text \<open>Attempts that go on: the next one is there unless the loop is over.\<close>

lemma attempts_progress:
  assumes "attempts rt n w (Some e) w1" and "isTransientBuildkitError (Some e)" and "rt_ctx_err rt w1 = None"
  obtains (cancelled) w2 where "rt_wait rt (buildRetryDelay buildRetryDelays (n + 1)) w1 = (True, w2)"
  | (retried) r w' where "attempts rt (n + 1) w r w'"
proof -
  obtain b w2 where b: "rt_wait rt (buildRetryDelay buildRetryDelays (n + 1)) w1 = (b, w2)" by fastforce
  obtain r w' where r: "rt_build rt (case rt_reset rt of None \<Rightarrow> w2 | Some reset \<Rightarrow> reset w2) = (r, w')" by fastforce
  show thesis
  proof (cases b)
    case True
    with b show thesis by (auto intro: cancelled)
  next
    case False
    show thesis by (rule retried[OF attempts.again[OF assms]]) (use b r False in auto)
  qed
qed

text \<open>The ways the loop may return after attempt \<open>n\<close> gave \<open>r\<close> in the world \<open>w'\<close>.\<close>

inductive returns :: "'w runtime \<Rightarrow> int \<Rightarrow> build_error option \<Rightarrow> 'w \<Rightarrow> retry_error option \<times> 'w \<Rightarrow> bool"
  for rt where
  success: "returns rt n None w' (None, w')"
| failure: "\<not> isTransientBuildkitError (Some e) \<or> rt_ctx_err rt w' \<noteq> None \<or> n = buildMaxRetries \<Longrightarrow>
    returns rt n (Some e) w' (Some (BuildFailed e), w')"
| cancelled: "isTransientBuildkitError (Some e) \<Longrightarrow> rt_ctx_err rt w' = None \<Longrightarrow> n < buildMaxRetries \<Longrightarrow>
    rt_wait rt (buildRetryDelay buildRetryDelays (n + 1)) w' = (True, w2) \<Longrightarrow>
    returns rt n (Some e) w' (Some (JoinedErrors e (rt_ctx_err rt w2)), w2)"

lemma retry_stops:
  assumes "attempts rt n w r w'" and "n \<le> buildMaxRetries"
  shows "\<exists>m r' w''. m \<le> buildMaxRetries \<and> attempts rt m w r' w'' \<and> returns rt m r' w'' (retryTransient rt w)"
  using assms
proof (induction "nat (buildMaxRetries - n)" arbitrary: n r w' rule: less_induct)
  case less
  note run = retry_loop_attempts[OF less.prems]
  have here: ?case if "returns rt n r w' (retryTransient rt w)" using that less.prems by metis
  show ?case
  proof (cases r)
    case None
    with run have "retryTransient rt w = (None, w')" by simp
    then show ?thesis by (intro here) (simp add: None returns.success)
  next
    case (Some e)
    consider (final) "\<not> isTransientBuildkitError (Some e) \<or> rt_ctx_err rt w' \<noteq> None"
      | (last) "isTransientBuildkitError (Some e)" "rt_ctx_err rt w' = None" "n = buildMaxRetries"
      | (more) "isTransientBuildkitError (Some e)" "rt_ctx_err rt w' = None" "n < buildMaxRetries"
      using less.prems(2) by fastforce
    then show ?thesis
    proof cases
      case final
      have "retryTransient rt w = (Some (BuildFailed e), w')"
        unfolding run Some option.case using final by (simp only: if_True)
      then show ?thesis using final by (intro here) (simp add: Some returns.failure)
    next
      case last
      then have "retryTransient rt w = (Some (BuildFailed e), w')"
        using run Some retry_loop_exhausted[of rt buildRetryDelays e w'] by simp
      then show ?thesis using last(3) by (intro here) (simp add: Some returns.failure)
    next
      case more
      have a: "attempts rt n w (Some e) w'" using less.prems(1) Some by simp
      from a more(1,2) show ?thesis
      proof (cases rule: attempts_progress)
        case (cancelled w2)
        have "retryTransient rt w = (Some (JoinedErrors e (rt_ctx_err rt w2)), w2)"
          by (rule retry_loop_cancelled[OF a more(3,1,2) cancelled])
        then show ?thesis using returns.cancelled[OF more cancelled] by (intro here) (simp add: Some)
      next
        case (retried r1 w1)
        have "nat (buildMaxRetries - (n + 1)) < nat (buildMaxRetries - n)" using more(3) by simp
        moreover have "n + 1 \<le> buildMaxRetries" using more(3) by simp
        ultimately show ?thesis by (rule less.hyps[OF _ retried])
      qed
    qed
  qed
qed

lemma retry_recovers:
  assumes "attempts rt n w None w'" and "n \<le> buildMaxRetries"
  shows "retryTransient rt w = (None, w')"
  using retry_loop_attempts[OF assms] by simp

text \<open>
  C23. Retrying ends and makes progress.  It ends after at most four attempts and returns the result of the last one:
  success, an error that no retry would have been made for (not a connection failure, or the
  context was done, or the retries were used up), or, when the context ended while waiting, the
  last error joined with the context's.  And it succeeds, in that attempt's world, whenever one of the first
  four attempts does, each attempt before having failed with a connection error under a live
  context and no wait having been cut short.
\<close>

theorem retry_ends_and_recovers:
  "(\<exists>n r w'. 0 \<le> n \<and> n \<le> buildMaxRetries \<and> attempts rt n w r w' \<and> returns rt n r w' (retryTransient rt w))
   \<and> (\<forall>n w'. attempts rt n w None w' \<and> n \<le> 3 \<longrightarrow> retryTransient rt w = (None, w'))"
proof
  obtain r w' where "rt_build rt w = (r, w')" by fastforce
  then have "attempts rt 0 w r w'" by (rule attempts.first)
  from retry_stops[OF this]
  show "\<exists>n r w'. 0 \<le> n \<and> n \<le> buildMaxRetries \<and> attempts rt n w r w' \<and> returns rt n r w' (retryTransient rt w)"
    by (simp add: buildMaxRetries_def) (metis attempts_nonneg)
qed (use retry_recovers[of rt _ w] in \<open>auto simp: buildMaxRetries_def\<close>)

text \<open>A build that fails \<open>k\<close> times with a broken connection and then succeeds; the world counts the attempts.\<close>

definition broken_pipe :: build_error where
  "broken_pipe = \<lparr>be_is_canceled = False, be_is_deadline = False, be_is_eof = False,
     be_is_unexpected_eof = False, be_code = 2, be_message = ''write tcp: Broken pipe''\<rparr>"

definition flaky :: "nat \<Rightarrow> nat runtime" where
  "flaky k = \<lparr>rt_build = (\<lambda>w. (if w < k then Some broken_pipe else None, Suc w)), rt_reset = None,
     rt_wait = (\<lambda>_ w. (False, w)), rt_ctx_err = (\<lambda>_. None)\<rparr>"

lemma broken_pipe_transient: "isTransientBuildkitError (Some broken_pipe)"
  by code_simp

lemma flaky_attempts: "attempts (flaky k) (int n) 0 (if n < k then Some broken_pipe else None) (Suc n)" if "n \<le> k"
  using that
proof (induction n)
  case 0
  show ?case by (auto intro: attempts.first simp: flaky_def)
next
  case (Suc n)
  then have "attempts (flaky k) (int n) 0 (Some broken_pipe) (Suc n)" by simp
  then have "attempts (flaky k) (int n + 1) 0 (if Suc n < k then Some broken_pipe else None) (Suc (Suc n))"
    by (rule attempts.again) (simp_all add: flaky_def broken_pipe_transient)
  then show ?case by (simp add: add.commute)
qed

theorem retry_ends_and_recovers_witness: "retryTransient (flaky 3) 0 = (None, 4)"
proof -
  have "attempts (flaky 3) 3 0 None 4" using flaky_attempts[of 3 3] by simp
  then show ?thesis using retry_ends_and_recovers[of "flaky 3" 0] by (metis order_refl)
qed

end
