(* ===== verification/Build_Client.thy ===== *)
theory Build_Client
  imports Build_Config Build_Scripts Retry
begin

text \<open>
  One build as BuildKit sees it: cache backends (\<open>pkg/cache\<close>), the solve request assembled by
  \<open>internal/buildkit/main.go\<close> and the defaults of \<open>pkg/build/build.go\<close>.  Solving is a parameter,
  run under the retry loop.  Cache scopes are ASCII strings, for which the
  rune classes of \<open>unicode\<close> are the byte classes below.
\<close>

section \<open>Cache backends\<close>

record RegistryCache =
  rca_CacheRef :: string
  rca_Insecure :: bool

record S3BuildKitCache =
  s3_EndpointUrl :: string
  s3_Bucket :: string
  s3_Region :: string
  s3_AccessKeyId :: string
  s3_SecretAccessKey :: string
  s3_UsePathStyle :: bool
  s3_CacheKey :: string

datatype BuildkitCache = CacheRegistry RegistryCache | CacheS3 S3BuildKitCache

definition scope_char :: "char \<Rightarrow> bool" where
  "scope_char c \<longleftrightarrow> is_alnum c \<or> c = CHR ''_'' \<or> c = CHR ''-'' \<or> c = CHR ''.''"

definition trim_dots :: "string \<Rightarrow> string" where
  "trim_dots s = dropWhile (\<lambda>c. c \<in> set ''.-'') s"

definition sanitizeTagSuffix :: "string \<Rightarrow> string" where
  "sanitizeTagSuffix s =
     (let sanitized = map (\<lambda>c. if scope_char c then c else CHR ''_'') s;
          sanitized = trim_dots sanitized;
          sanitized = rev (trim_dots (rev sanitized));
          sanitized = (if length sanitized > 120 then take 120 sanitized else sanitized) in
      if sanitized = [] then ''unnamed'' else sanitized)"

definition registry_WithScope :: "RegistryCache \<Rightarrow> string \<Rightarrow> RegistryCache" where
  "registry_WithScope r scope =
     \<lparr>rca_CacheRef = rca_CacheRef r @ '':'' @ sanitizeTagSuffix scope, rca_Insecure = rca_Insecure r\<rparr>"

definition registry_ToAttributes :: "RegistryCache \<Rightarrow> (string, string) gomap" where
  "registry_ToAttributes r =
     (let attrs = [(''mode'', ''max''), (''ref'', rca_CacheRef r), (''image-manifest'', ''true''), (''oci-mediatypes'', ''true'')] in
      if rca_Insecure r then mput ''registry.insecure'' ''true'' attrs else attrs)"

definition s3_WithScope :: "S3BuildKitCache \<Rightarrow> string \<Rightarrow> S3BuildKitCache" where
  "s3_WithScope s scope = s\<lparr>s3_CacheKey := s3_CacheKey s @ ''-'' @ scope\<rparr>"

definition s3_ToAttributes :: "S3BuildKitCache \<Rightarrow> (string, string) gomap" where
  "s3_ToAttributes s =
     [(''endpoint_url'', s3_EndpointUrl s), (''bucket'', s3_Bucket s), (''region'', s3_Region s),
      (''access_key_id'', s3_AccessKeyId s), (''secret_access_key'', s3_SecretAccessKey s),
      (''use_path_style'', if s3_UsePathStyle s then ''true'' else ''false''), (''mode'', ''max''), (''name'', s3_CacheKey s)]"

definition cache_Name :: "BuildkitCache \<Rightarrow> string" where
  "cache_Name c = (case c of CacheRegistry r \<Rightarrow> ''registry'' | CacheS3 s \<Rightarrow> ''s3'')"

definition cache_ToAttributes :: "BuildkitCache \<Rightarrow> (string, string) gomap" where
  "cache_ToAttributes c = (case c of CacheRegistry r \<Rightarrow> registry_ToAttributes r | CacheS3 s \<Rightarrow> s3_ToAttributes s)"

definition WithScope :: "BuildkitCache \<Rightarrow> string \<Rightarrow> BuildkitCache" where
  "WithScope c scope =
     (case c of CacheRegistry r \<Rightarrow> CacheRegistry (registry_WithScope r scope) | CacheS3 s \<Rightarrow> CacheS3 (s3_WithScope s scope))"

definition BuildCacheFromConfig :: "CacheConfig option \<Rightarrow> string \<Rightarrow> string + BuildkitCache option" where
  "BuildCacheFromConfig cfg cacheKey =
     (case cfg of
        None \<Rightarrow> Inr None
      | Some c \<Rightarrow>
          if cc_Type c = ''s3'' then Inr (Some (CacheS3
            \<lparr>s3_EndpointUrl = cc_Endpoint c, s3_Bucket = cc_Bucket c, s3_Region = cc_Region c,
             s3_AccessKeyId = cc_AccessKeyId c, s3_SecretAccessKey = cc_SecretAccessKey c,
             s3_UsePathStyle = cc_UsePathStyle c, s3_CacheKey = cacheKey\<rparr>))
          else if cc_Type c = ''registry'' then
            Inr (Some (CacheRegistry \<lparr>rca_CacheRef = cc_Ref c, rca_Insecure = cc_Insecure c\<rparr>))
          else Inl (cc_Type c))"

section \<open>Build contexts\<close>

record DockerfileBuildContext =
  db_Root :: string
  db_Dockerfile :: string

datatype BuildContext =
    DockerfileCtx DockerfileBuildContext | NixCtx NixBuildContext | ChiselCtx ChiselBuildContext

definition dockerfile_FileName :: "DockerfileBuildContext \<Rightarrow> string" where
  "dockerfile_FileName d = (if db_Dockerfile d = [] then ''Dockerfile'' else db_Dockerfile d)"

definition FileName :: "BuildContext \<Rightarrow> string" where
  "FileName c = (case c of DockerfileCtx d \<Rightarrow> dockerfile_FileName d | NixCtx _ \<Rightarrow> flakeFileName | ChiselCtx _ \<Rightarrow> chiselFileName)"

definition FrontendType :: "BuildContext \<Rightarrow> string" where
  "FrontendType c =
     (case c of DockerfileCtx _ \<Rightarrow> ''dockerfile.v0'' | NixCtx _ \<Rightarrow> ''nix.v0'' | ChiselCtx _ \<Rightarrow> ''chisel.v0'')"

text \<open>The directories mounted; opening one may fail (\<open>fsutil.NewFS\<close>).\<close>

definition dockerfile_ToLocalMounts :: "(string \<Rightarrow> bool) \<Rightarrow> DockerfileBuildContext \<Rightarrow> string + (string, string) gomap" where
  "dockerfile_ToLocalMounts can_open d =
     (let dockerFilePath = (if db_Dockerfile d = [] then go_path_join [db_Root d, ''Dockerfile'']
            else go_path_join [db_Root d, db_Dockerfile d]) in
      if \<not> can_open (db_Root d) then Inl (db_Root d)
      else if \<not> can_open (go_dir dockerFilePath) then Inl (go_dir dockerFilePath)
      else Inr [(''context'', db_Root d), (''dockerfile'', go_dir dockerFilePath)])"

definition ToLocalMounts :: "(string \<Rightarrow> bool) \<Rightarrow> BuildContext \<Rightarrow> string + (string, string) gomap" where
  "ToLocalMounts can_open c =
     (case c of
        DockerfileCtx d \<Rightarrow> dockerfile_ToLocalMounts can_open d
      | NixCtx d \<Rightarrow> if can_open (nb_Root d) then Inr [(nixContextKey, nb_Root d)] else Inl (nb_Root d)
      | ChiselCtx d \<Rightarrow> if can_open (cb_Root d) then Inr [(chiselContextKey, cb_Root d)] else Inl (cb_Root d))"

section \<open>The solve request\<close>

text \<open>\<open>'s\<close> is the type of content stores.\<close>

record 's BuildOpts =
  bp_ImageName :: string
  bp_Platform :: string
  bp_TarFile :: string
  bp_BuildArgs :: "(string, string) gomap"
  bp_Secrets :: "(string, string) gomap"
  bp_Cache :: "BuildkitCache option"
  bp_ContextDir :: string
  bp_Dockerfile :: string
  bp_BuildContext :: "BuildContext option"
  bp_RegistryRef :: string
  bp_RegistryInsecure :: bool
  bp_DockerMediaTypes :: bool
  bp_OCIStores :: "(string, 's) gomap option"
  bp_NamedContexts :: "(string, string) gomap"
  bp_Labels :: "(string, string) gomap"

record ExportEntry =
  ex_Type :: string
  ex_Attrs :: "(string, string) gomap"
  ex_Output :: "string option"

record CacheOptionsEntry =
  co_Type :: string
  co_Attrs :: "(string, string) gomap"

record 's SolveOpt =
  so_Secrets :: "(string, string) gomap"
  so_CacheExports :: "CacheOptionsEntry list"
  so_CacheImports :: "CacheOptionsEntry list"
  so_Exports :: "ExportEntry list"
  so_LocalMounts :: "(string, string) gomap"
  so_OCIStores :: "(string, 's) gomap option"
  so_Frontend :: string
  so_FrontendAttrs :: "(string, string) gomap"

definition cacheExportIgnoreErrorAttr :: string where "cacheExportIgnoreErrorAttr = ''ignore-error''"

definition cacheOptions :: "BuildkitCache option \<Rightarrow> CacheOptionsEntry list" where
  "cacheOptions buildCache =
     (case buildCache of
        None \<Rightarrow> []
      | Some c \<Rightarrow>
          let attributes = cache_ToAttributes c;
              attributes = (if mget attributes cacheExportIgnoreErrorAttr = None
                then mput cacheExportIgnoreErrorAttr ''true'' attributes else attributes) in
          [\<lparr>co_Type = cache_Name c, co_Attrs = attributes\<rparr>])"

definition buildExports :: "'s BuildOpts \<Rightarrow> ExportEntry list" where
  "buildExports opts =
     \<lparr>ex_Type = ''oci'', ex_Attrs = [(''name'', bp_ImageName opts), (''rewrite-timestamp'', ''true'')],
      ex_Output = Some (bp_TarFile opts)\<rparr>
     # (if bp_RegistryRef opts = [] then []
        else let attrs = [(''name'', bp_RegistryRef opts), (''push'', ''true''), (''rewrite-timestamp'', ''true'')];
                 attrs = (if bp_RegistryInsecure opts then mput ''registry.insecure'' ''true'' attrs else attrs);
                 attrs = (if bp_DockerMediaTypes opts then mput ''oci-mediatypes'' ''false'' attrs else attrs) in
          [\<lparr>ex_Type = ''image'', ex_Attrs = attrs, ex_Output = None\<rparr>])"

definition frontend_attrs :: "BuildContext \<Rightarrow> 's BuildOpts \<Rightarrow> (string, string) gomap" where
  "frontend_attrs ctx opts =
     (let attrs = [(''filename'', go_base (FileName ctx)), (''build-arg:SOURCE_DATE_EPOCH'', ''1770336000''),
                   (''platform'', bp_Platform opts)];
          attrs = MergeMapWithPrefix ''label:'' attrs (bp_Labels opts);
          attrs = MergeMapWithPrefix ''build-arg:'' attrs (bp_BuildArgs opts) in
      MergeMap attrs (bp_NamedContexts opts))"

definition solve_opt :: "BuildContext \<Rightarrow> (string, string) gomap \<Rightarrow> 's BuildOpts \<Rightarrow> 's SolveOpt" where
  "solve_opt ctx localMounts opts =
     (let buildCache = cacheOptions (bp_Cache opts) in
      \<lparr>so_Secrets = bp_Secrets opts, so_CacheExports = buildCache, so_CacheImports = buildCache,
       so_Exports = buildExports opts, so_LocalMounts = localMounts, so_OCIStores = bp_OCIStores opts,
       so_Frontend = FrontendType ctx, so_FrontendAttrs = frontend_attrs ctx opts\<rparr>)"

text \<open>
  \<open>solver req ctx\<close> is one solve as a transition of the world; \<open>base\<close> holds the clock, the
  context and the reset.  \<open>pkg/build\<close>'s \<open>Build\<close> falls back to a Dockerfile context and hands on.
\<close>

datatype build_failure = MountFailed string | SolveError retry_error

definition client_Build ::
  "(string \<Rightarrow> bool) \<Rightarrow> ('s SolveOpt \<Rightarrow> BuildContext \<Rightarrow> 'w \<Rightarrow> build_error option \<times> 'w) \<Rightarrow> 'w runtime
   \<Rightarrow> BuildContext \<Rightarrow> 's BuildOpts \<Rightarrow> 'w \<Rightarrow> build_failure option \<times> 'w" where
  "client_Build can_open solver base ctx opts w =
     (case ToLocalMounts can_open ctx of
        Inl err \<Rightarrow> (Some (MountFailed err), w)
      | Inr localMounts \<Rightarrow>
          let rt = base\<lparr>rt_build := solver (solve_opt ctx localMounts opts) ctx\<rparr> in
          (case retryTransient rt w of (err, w) \<Rightarrow> (map_option SolveError err, w)))"

definition Build ::
  "(string \<Rightarrow> bool) \<Rightarrow> ('s SolveOpt \<Rightarrow> BuildContext \<Rightarrow> 'w \<Rightarrow> build_error option \<times> 'w) \<Rightarrow> 'w runtime
   \<Rightarrow> 's BuildOpts \<Rightarrow> 'w \<Rightarrow> build_failure option \<times> 'w" where
  "Build can_open solver base opts w =
     (let buildContext = (case bp_BuildContext opts of
            Some ctx \<Rightarrow> ctx
          | None \<Rightarrow> DockerfileCtx \<lparr>db_Root = bp_ContextDir opts, db_Dockerfile = bp_Dockerfile opts\<rparr>) in
      client_Build can_open solver base buildContext opts w)"

definition client_endpoint :: "(string \<Rightarrow> string) \<Rightarrow> string \<Rightarrow> string option" where
  "client_endpoint getenv endpoint =
     (let endpoint = (if endpoint = [] \<and> getenv ''BUILDKIT_HOST'' \<noteq> [] then getenv ''BUILDKIT_HOST'' else endpoint) in
      if endpoint = [] then None else Some endpoint)"

section \<open>Cache references\<close>

definition tag_suffix :: "string \<Rightarrow> bool" where
  "tag_suffix s \<longleftrightarrow> s \<noteq> [] \<and> length s \<le> 128 \<and> list_all scope_char s \<and> hd s \<noteq> CHR ''.'' \<and> hd s \<noteq> CHR ''-''"

lemma hd_trim_dots: "trim_dots s \<noteq> [] \<Longrightarrow> hd (trim_dots s) \<noteq> CHR ''.'' \<and> hd (trim_dots s) \<noteq> CHR ''-''"
  unfolding trim_dots_def using hd_dropWhile[of "\<lambda>c. c \<in> set ''.-''" s] by auto

lemma set_trim_dots: "set (trim_dots s) \<subseteq> set s"
  unfolding trim_dots_def by (auto dest: set_dropWhileD)

lemma rev_trim_dots_prefix: "prefix (rev (trim_dots (rev s))) s"
proof -
  have "rev s = takeWhile (\<lambda>c. c \<in> set ''.-'') (rev s) @ trim_dots (rev s)" by (simp add: trim_dots_def)
  then have "s = rev (trim_dots (rev s)) @ rev (takeWhile (\<lambda>c. c \<in> set ''.-'') (rev s))"
    by (metis rev_append rev_rev_ident)
  then show ?thesis by (metis prefixI)
qed

lemma prefix_hd: "prefix p s \<Longrightarrow> p \<noteq> [] \<Longrightarrow> hd p = hd s \<and> s \<noteq> []"
  by (auto simp: prefix_def)

text \<open>
  The tag a scoped registry cache writes to is a valid tag: at least one and at most 128 characters, all of them
  allowed, the first one neither a dot nor a dash.
\<close>

lemma cache_tag_valid:
  "rca_CacheRef (registry_WithScope r scope) = rca_CacheRef r @ '':'' @ sanitizeTagSuffix scope
   \<and> tag_suffix (sanitizeTagSuffix scope)"
proof
  show "rca_CacheRef (registry_WithScope r scope) = rca_CacheRef r @ '':'' @ sanitizeTagSuffix scope"
    by (simp add: registry_WithScope_def)
  define m where "m = map (\<lambda>c. if scope_char c then c else CHR ''_'') scope"
  define t where "t = rev (trim_dots (rev (trim_dots m)))"
  define u where "u = (if length t > 120 then take 120 t else t)"
  have s: "sanitizeTagSuffix scope = (if u = [] then ''unnamed'' else u)"
    by (simp add: sanitizeTagSuffix_def Let_def m_def t_def u_def)
  have "scope_char (CHR ''_'')" by (simp add: scope_char_def)
  then have m: "list_all scope_char m" by (auto simp: m_def list_all_iff)
  have p: "prefix u (trim_dots m)"
    using rev_trim_dots_prefix[of "trim_dots m"] take_is_prefix[of 120 t] unfolding u_def t_def
    by (auto intro: prefix_order.trans)
  have c: "list_all scope_char u"
    using m set_trim_dots[of m] set_mono_prefix[OF p] by (auto simp: list_all_iff)
  have l: "length u \<le> 128" by (simp add: u_def)
  show "tag_suffix (sanitizeTagSuffix scope)"
  proof (cases "u = []")
    case True
    have "tag_suffix ''unnamed''" by code_simp
    then show ?thesis using True by (simp add: s)
  next
    case False
    then have "hd u = hd (trim_dots m)" "trim_dots m \<noteq> []" using prefix_hd[OF p] by simp_all
    then show ?thesis using hd_trim_dots[of m] c l False by (simp add: s tag_suffix_def)
  qed
qed

text \<open>The cache of a build never makes it fail: the backend's attributes are extended unless it sets the attribute itself.\<close>

lemma cache_errors_ignored: "cacheOptions (Some c) = [e] \<Longrightarrow> mget (co_Attrs e) cacheExportIgnoreErrorAttr = Some ''true''"
  by (auto simp: cacheOptions_def Let_def cache_ToAttributes_def registry_ToAttributes_def s3_ToAttributes_def
      cacheExportIgnoreErrorAttr_def split: BuildkitCache.splits)

end
