(* ===== verification/Hive_Deps.thy ===== *)
theory Hive_Deps
  imports Build_Client Dep_Scan Changes
begin

text \<open>
  How a build finds the images it depends on (\<open>pkg/build/hive_deps.go\<close>) and how the configuration levels of the
  backends merge (\<open>pkg/build/backend.go\<close>).  The disk maps paths to file contents; what a build leaves there is an
  OCI tar.  Loading a tar, temporary directories and failing writes are
  parameters.
\<close>

section \<open>The disk\<close>

type_synonym disk = "string \<rightharpoonup> string"

definition disk_files :: "disk \<Rightarrow> files" where
  "disk_files d = \<lparr>read_file = d, stat_ok = (\<lambda>p. d p \<noteq> None), read_dir = (\<lambda>_. None)\<rparr>"

datatype cleanup = RemoveFile string | RemoveTree string

definition run_cleanup :: "cleanup \<Rightarrow> disk \<Rightarrow> disk" where
  "run_cleanup c d =
     (case c of
        RemoveFile p \<Rightarrow> d(p := None)
      | RemoveTree dir \<Rightarrow> (\<lambda>p. if p = dir \<or> go_has_prefix p (dir @ ''/'') then None else d p))"

record 's HiveDeps =
  hd_OCIStores :: "(string, 's) gomap"
  hd_NamedContexts :: "(string, string) gomap"
  hd_Dockerfile :: string
  hd_cleanups :: "cleanup list"

definition Cleanup :: "'s HiveDeps \<Rightarrow> disk \<Rightarrow> disk" where
  "Cleanup deps d = fold run_cleanup (hd_cleanups deps) d"

record HiveDepsOpts =
  ho_DockerfilePath :: string
  ho_DistPath :: string
  ho_PlatformStr :: string
  ho_RegistryAddress :: string
  ho_BuildID :: string
  ho_Changes :: "ChangeSet option"
  ho_Project :: "ContainerHiveProject option"

text \<open>\<open>ocistore.FromTar\<close> yields the content store and the manifest digest.\<close>

record 's deps_env =
  de_mkdir_temp :: "string \<Rightarrow> string + string"
  de_from_tar :: "string \<Rightarrow> string \<Rightarrow> string + ('s \<times> string)"
  de_write_ok :: "string \<Rightarrow> bool"

datatype dep_error =
    NotBuilt string string string | PlatformNotConfigured string string string "string list"
  | TempDirFailed string | LoadFailed string string string | ScanFailedIn string
  | RewriteFailed string | InvalidHiveParent string | InvalidStoreID string

section \<open>Resolving one dependency\<close>

definition namedContextPrefix :: string where "namedContextPrefix = ''hive-dep/''"

definition depBuildID :: "HiveDepsOpts \<Rightarrow> string \<Rightarrow> string" where
  "depBuildID o' imageName = (if \<not> IsAffected (ho_Changes o') imageName then [] else ho_BuildID o')"

text \<open>A loop that returns the first value found.\<close>

fun first_some :: "('a \<Rightarrow> 'b option) \<Rightarrow> 'a list \<Rightarrow> 'b option" where
  "first_some f [] = None"
| "first_some f (x # xs) = (case f x of Some y \<Rightarrow> Some y | None \<Rightarrow> first_some f xs)"

definition tagPlatforms :: "ContainerHiveProject \<Rightarrow> string \<Rightarrow> string \<Rightarrow> string list option" where
  "tagPlatforms project imageName tag =
     first_some (\<lambda>img. first_some (\<lambda>tagName.
         if tagName = tag then Some (ResolvePlatforms [] (hc_Platforms (pr_Config project)) (img_Platforms img) [])
         else first_some (\<lambda>(_, variant).
             if tagName @ var_TagSuffix variant = tag
             then Some (ResolvePlatforms [] (hc_Platforms (pr_Config project)) (img_Platforms img) (var_Platforms variant))
             else None) (img_Variants img))
       (mkeys (img_Tags img))) (mget_or [] (pr_ImagesByName project) imageName)"

definition checkDepPlatform :: "HiveDepsOpts \<Rightarrow> string \<Rightarrow> string \<Rightarrow> dep_error + unit" where
  "checkDepPlatform opts imageName tag =
     (case ho_Project opts of
        None \<Rightarrow> Inr ()
      | Some project \<Rightarrow>
          if ho_PlatformStr opts = [] then Inr ()
          else case tagPlatforms project imageName tag of
            None \<Rightarrow> Inr ()
          | Some platforms \<Rightarrow>
              if Normalize (ho_PlatformStr opts) \<in> set platforms then Inr ()
              else Inl (PlatformNotConfigured imageName tag (Normalize (ho_PlatformStr opts)) platforms))"

definition context_key :: "string \<Rightarrow> string \<Rightarrow> string" where
  "context_key imageName tag = ''context:'' @ namedContextPrefix @ imageName @ '':'' @ tag"

definition registry_context :: "HiveDepsOpts \<Rightarrow> string \<Rightarrow> string \<Rightarrow> string" where
  "registry_context opts imageName tag =
     ''docker-image://'' @ ho_RegistryAddress opts @ ''/'' @ imageName @ '':''
     @ WithBuildID tag (depBuildID opts imageName)"

text \<open>The result carries the dependencies also in the error case: the callers run their cleanups.\<close>

definition resolveDepContext ::
  "'s deps_env \<Rightarrow> HiveDepsOpts \<Rightarrow> disk \<Rightarrow> string \<Rightarrow> string \<Rightarrow> 's HiveDeps \<Rightarrow> dep_error option \<times> 's HiveDeps" where
  "resolveDepContext env opts disk imageName tag d =
     (case checkDepPlatform opts imageName tag of
        Inl err \<Rightarrow> (Some err, d)
      | Inr _ \<Rightarrow>
          let contextKey = context_key imageName tag;
              tarPath = TarFilePath (ho_DistPath opts) imageName tag (ho_PlatformStr opts) in
          (case disk tarPath of
             None \<Rightarrow>
               if ho_RegistryAddress opts = [] then (Some (NotBuilt imageName tag tarPath), d)
               else (None, d\<lparr>hd_NamedContexts :=
                      mput contextKey (registry_context opts imageName tag) (hd_NamedContexts d)\<rparr>)
           | Some tar \<Rightarrow>
               (case de_mkdir_temp env (''hive-oci-'' @ imageName @ ''-'' @ tag @ ''-*'') of
                  Inl err \<Rightarrow> (Some (TempDirFailed err), d)
                | Inr tmpDir \<Rightarrow>
                    let d = d\<lparr>hd_cleanups := hd_cleanups d @ [RemoveTree tmpDir]\<rparr> in
                    (case de_from_tar env tar tmpDir of
                       Inl err \<Rightarrow> (Some (LoadFailed imageName tag err), d)
                     | Inr (store', digest) \<Rightarrow>
                         let storeID = ''hive-'' @ imageName @ ''-'' @ tag;
                             contextValue = ''oci-layout:'' @ storeID @ ''@'' @ digest in
                         (None, d\<lparr>hd_OCIStores := mput storeID store' (hd_OCIStores d),
                                  hd_NamedContexts := mput contextKey contextValue (hd_NamedContexts d)\<rparr>)))))"

section \<open>The dependencies of a Dockerfile\<close>

definition rewriteDockerfile :: "'s deps_env \<Rightarrow> string \<Rightarrow> disk \<Rightarrow> string option \<times> disk" where
  "rewriteDockerfile env dockerfilePath disk =
     (case disk dockerfilePath of
        None \<Rightarrow> (None, disk)
      | Some data \<Rightarrow>
          let replaced = go_replace_all HivePrefix namedContextPrefix data; target = dockerfilePath @ ''.hive'' in
          if de_write_ok env target then (Some target, disk(target \<mapsto> replaced)) else (None, disk))"

fun resolve_refs ::
  "'s deps_env \<Rightarrow> HiveDepsOpts \<Rightarrow> disk \<Rightarrow> HiveRef list \<Rightarrow> 's HiveDeps \<Rightarrow> dep_error option \<times> 's HiveDeps" where
  "resolve_refs env opts disk [] d = (None, d)"
| "resolve_refs env opts disk (ref # refs) d =
     (case resolveDepContext env opts disk (ref_ImageName ref) (ref_Tag ref) d of
        (Some err, d) \<Rightarrow> (Some err, d)
      | (None, d) \<Rightarrow> resolve_refs env opts disk refs d)"

definition no_deps :: "'s HiveDeps" where
  "no_deps = \<lparr>hd_OCIStores = [], hd_NamedContexts = [], hd_Dockerfile = [], hd_cleanups = []\<rparr>"

definition ResolveHiveDeps ::
  "'s deps_env \<Rightarrow> HiveDepsOpts \<Rightarrow> disk \<Rightarrow> (dep_error + 's HiveDeps option) \<times> disk" where
  "ResolveHiveDeps env opts disk =
     (case ScanDockerfileForHiveRefs (disk_files disk) (ho_DockerfilePath opts) of
        None \<Rightarrow> (Inl (ScanFailedIn (ho_DockerfilePath opts)), disk)
      | Some refs \<Rightarrow>
          if refs = [] then (Inr None, disk)
          else (case rewriteDockerfile env (ho_DockerfilePath opts) disk of
                  (None, disk) \<Rightarrow> (Inl (RewriteFailed (ho_DockerfilePath opts)), disk)
                | (Some rewritten, disk) \<Rightarrow>
                    let d = no_deps\<lparr>hd_Dockerfile := rewritten, hd_cleanups := [RemoveFile rewritten]\<rparr> in
                    (case resolve_refs env opts disk refs d of
                       (Some err, d) \<Rightarrow> (Inl err, Cleanup d disk)
                     | (None, d) \<Rightarrow> (Inr (Some d), disk))))"

section \<open>Backend parents\<close>

definition splitHiveRef :: "string \<Rightarrow> string \<times> string" where
  "splitHiveRef ref =
     (case go_last_index_byte ref CHR '':'' of None \<Rightarrow> (ref, []) | Some idx \<Rightarrow> (take idx ref, drop (idx + 1) ref))"

definition parseOCILayoutRef :: "string \<Rightarrow> (string \<times> string) option" where
  "parseOCILayoutRef value =
     (case go_cut_prefix value ''oci-layout:'' of
        None \<Rightarrow> None
      | Some rest \<Rightarrow>
          let (i, digest, found) = go_cut rest CHR ''@'' in
          if \<not> found \<or> i = [] \<or> digest = [] then None else Some (i, digest))"

record 's ParentDeps =
  pd_Parent :: ParentImage
  pd_Deps :: "'s HiveDeps option"

definition parent_of_context :: "'n ref_lib \<Rightarrow> string \<Rightarrow> ParentImage \<Rightarrow> dep_error + ParentImage" where
  "parent_of_context lib contextValue parent =
     res_bind
       (case parseOCILayoutRef contextValue of
          None \<Rightarrow> Inr parent
        | Some (storeID, digest) \<Rightarrow>
            (case ParseNormalizedNamed lib storeID of
               None \<Rightarrow> Inl (InvalidStoreID storeID)
             | Some named \<Rightarrow>
                 Inr (parent\<lparr>pi_OCIStoreID := storeID, pi_OCIDigestRef := ref_String lib named @ ''@'' @ digest\<rparr>)))
       (\<lambda>parent. Inr (if go_has_prefix contextValue ''docker-image://''
          then parent\<lparr>pi_RegistryRef := go_trim_prefix contextValue ''docker-image://''\<rparr> else parent))"

definition zero_ParentImage :: ParentImage where
  "zero_ParentImage = \<lparr>pi_OCIStoreID = [], pi_OCIDigestRef = [], pi_RegistryRef = []\<rparr>"

definition ResolveParentImage ::
  "'s deps_env \<Rightarrow> 'n ref_lib \<Rightarrow> string \<Rightarrow> HiveDepsOpts \<Rightarrow> disk \<Rightarrow> (dep_error + 's ParentDeps) \<times> disk" where
  "ResolveParentImage env lib parentRef opts disk =
     (if \<not> go_has_prefix parentRef HivePrefix
      then (Inr \<lparr>pd_Parent = zero_ParentImage\<lparr>pi_RegistryRef := parentRef\<rparr>, pd_Deps = None\<rparr>, disk)
      else let (name, tag) = splitHiveRef (go_trim_prefix parentRef HivePrefix) in
        if name = [] \<or> tag = [] then (Inl (InvalidHiveParent parentRef), disk)
        else (case resolveDepContext env opts disk name tag no_deps of
                (Some err, d) \<Rightarrow> (Inl err, Cleanup d disk)
              | (None, d) \<Rightarrow>
                  (case res_fold (\<lambda>parent kv. parent_of_context lib (snd kv) parent) zero_ParentImage (hd_NamedContexts d) of
                     Inl err \<Rightarrow> (Inl err, Cleanup d disk)
                   | Inr parent \<Rightarrow> (Inr \<lparr>pd_Parent = parent, pd_Deps = Some d\<rparr>, disk))))"

section \<open>Backends (\<open>backend.go\<close>)\<close>

definition variantBackend :: "Image \<Rightarrow> ImageVariant \<Rightarrow> string" where
  "variantBackend imageDef variantDef =
     (if var_BuildBackend variantDef \<noteq> [] then var_BuildBackend variantDef else img_BuildBackend imageDef)"

definition entrypointFileName :: "string \<Rightarrow> string" where
  "entrypointFileName backend =
     (if backend = BuildBackendNix then FlakeFileName
      else if backend = BuildBackendChisel then ChiselFileName else ''Dockerfile'')"

definition nixConfigFor :: "Image \<Rightarrow> ImageVariant option \<Rightarrow> NixConfig" where
  "nixConfigFor imageDef variantDef =
     (case variantDef of
        Some v \<Rightarrow> (case var_Nix v of Some c \<Rightarrow> c | None \<Rightarrow> img_Nix imageDef) | None \<Rightarrow> img_Nix imageDef)"

definition chiselConfigFor :: "Image \<Rightarrow> ImageVariant option \<Rightarrow> ChiselConfig" where
  "chiselConfigFor imageDef variantDef =
     (case variantDef of
        Some v \<Rightarrow> (case var_Chisel v of Some c \<Rightarrow> c | None \<Rightarrow> img_Chisel imageDef) | None \<Rightarrow> img_Chisel imageDef)"

definition runConfigFor :: "Image \<Rightarrow> ImageVariant option \<Rightarrow> ImageRunConfig option" where
  "runConfigFor imageDef variantDef =
     (case variantDef of
        Some v \<Rightarrow> (case var_RunConfig v of Some c \<Rightarrow> Some c | None \<Rightarrow> img_RunConfig imageDef)
      | None \<Rightarrow> img_RunConfig imageDef)"

definition expandParentPlaceholder :: "string \<Rightarrow> string \<Rightarrow> string \<Rightarrow> string + string" where
  "expandParentPlaceholder parent imageName tagName =
     (if parent \<noteq> HiveParentPlaceholder then Inr parent
      else if tagName \<noteq> [] then Inr (''__hive__/'' @ imageName @ '':'' @ tagName)
      else Inl imageName)"

definition nixParentForBuild :: "NixConfig \<Rightarrow> Image \<Rightarrow> string \<Rightarrow> string + NixConfig" where
  "nixParentForBuild config imageDef tagName =
     res_bind (expandParentPlaceholder (nix_Parent config) (img_Name imageDef) tagName) (\<lambda>parent.
       Inr (config\<lparr>nix_Parent := parent\<rparr>))"

definition chiselParentForBuild :: "ChiselConfig \<Rightarrow> Image \<Rightarrow> string \<Rightarrow> string + ChiselConfig" where
  "chiselParentForBuild config imageDef tagName =
     res_bind (expandParentPlaceholder (ch_Parent config) (img_Name imageDef) tagName) (\<lambda>parent.
       Inr (config\<lparr>ch_Parent := parent\<rparr>))"

definition run_of :: "ImageRunConfig option \<Rightarrow> runConfig" where
  "run_of run =
     (case run of
        None \<Rightarrow> \<lparr>run_Entrypoint = None, run_Cmd = None, run_Env = [], run_User = [], run_WorkingDir = []\<rparr>
      | Some r \<Rightarrow> \<lparr>run_Entrypoint = rc_Entrypoint r, run_Cmd = rc_Cmd r, run_Env = rc_Env r,
                  run_User = rc_User r, run_WorkingDir = rc_WorkingDir r\<rparr>)"

definition nixBuildContext ::
  "string \<Rightarrow> NixConfig \<Rightarrow> ImageRunConfig option \<Rightarrow> ParentImage option \<Rightarrow> NixBuildContext" where
  "nixBuildContext root nix run parent =
     \<lparr>nb_Root = root, nb_BuilderImage = nix_BuilderImage nix, nb_ExtraArgs = nix_ExtraArgs nix, nb_BuilderEnv = [],
      nb_run = run_of run, nb_Parent = parent, nb_StoreCache = StoreCacheEnabled nix\<rparr>"

definition chiselBuildContext ::
  "string \<Rightarrow> ChiselCutSpec \<Rightarrow> ChiselConfig \<Rightarrow> ImageRunConfig option \<Rightarrow> ParentImage option
   \<Rightarrow> context_error + ChiselBuildContext" where
  "chiselBuildContext root spec chisel run parent =
     (let buildCtx = \<lparr>cb_Root = root,
            cb_Release = \<lparr>cr_Name = crr_Name (ccs_Release spec), cr_Git = crr_Git (ccs_Release spec),
                          cr_GitRef = crr_GitRef (ccs_Release spec)\<rparr>,
            cb_Slices = ccs_Slices spec, cb_Ignore = ccs_Ignore spec, cb_BuilderImage = ch_BuilderImage chisel,
            cb_ChiselVersion = ch_ChiselVersion chisel, cb_ExtraArgs = ch_ExtraArgs chisel, cb_Parent = parent,
            cb_Cache = CacheEnabled chisel, cb_run = run_of run\<rparr> in
      res_bind (Validate buildCtx) (\<lambda>_. Inr buildCtx))"

datatype cut_spec_error = CutSpecMissing string | CutSpecInvalid chisel_error

definition parseChiselCutSpec :: "(string \<Rightarrow> ChiselCutSpec option) \<Rightarrow> disk \<Rightarrow> string \<Rightarrow> cut_spec_error + ChiselCutSpec" where
  "parseChiselCutSpec decode disk root =
     (let path = go_path_join [root, ChiselFileName] in
      case disk path of
        None \<Rightarrow> Inl (CutSpecMissing path)
      | Some data \<Rightarrow>
          (case ParseChiselCutSpec decode data of Inl err \<Rightarrow> Inl (CutSpecInvalid err) | Inr spec \<Rightarrow> Inr spec))"

section \<open>What a Dockerfile's references resolve to\<close>

text \<open>The value of one reference's named context: the local tar if there is one, else the registry.\<close>

definition dep_context :: "'s deps_env \<Rightarrow> HiveDepsOpts \<Rightarrow> disk \<Rightarrow> HiveRef \<Rightarrow> string option" where
  "dep_context env opts disk ref =
     (let name = ref_ImageName ref; tag = ref_Tag ref in
      case disk (TarFilePath (ho_DistPath opts) name tag (ho_PlatformStr opts)) of
        None \<Rightarrow> if ho_RegistryAddress opts = [] then None else Some (registry_context opts name tag)
      | Some tar \<Rightarrow>
          (case de_mkdir_temp env (''hive-oci-'' @ name @ ''-'' @ tag @ ''-*'') of
             Inl _ \<Rightarrow> None
           | Inr tmpDir \<Rightarrow>
               (case de_from_tar env tar tmpDir of
                  Inl _ \<Rightarrow> None
                | Inr (_, digest) \<Rightarrow> Some (''oci-layout:hive-'' @ name @ ''-'' @ tag @ ''@'' @ digest))))"

definition ref_key :: "HiveRef \<Rightarrow> string" where
  "ref_key ref = context_key (ref_ImageName ref) (ref_Tag ref)"

lemma resolveDepContext_ok:
  assumes "resolveDepContext env opts disk (ref_ImageName ref) (ref_Tag ref) d = (None, d')"
  shows "\<exists>v. dep_context env opts disk ref = Some v \<and> hd_NamedContexts d' = mput (ref_key ref) v (hd_NamedContexts d)
    \<and> hd_Dockerfile d' = hd_Dockerfile d \<and> checkDepPlatform opts (ref_ImageName ref) (ref_Tag ref) = Inr ()"
  using assms unfolding resolveDepContext_def Let_def
  by (cases "checkDepPlatform opts (ref_ImageName ref) (ref_Tag ref)")
    (auto simp: dep_context_def Let_def ref_key_def split: option.splits sum.splits if_splits)

lemma resolve_refs_ok:
  assumes "resolve_refs env opts disk refs d = (None, d')"
  shows "(\<forall>ref \<in> set refs. dep_context env opts disk ref \<noteq> None
      \<and> checkDepPlatform opts (ref_ImageName ref) (ref_Tag ref) = Inr ())
    \<and> hd_Dockerfile d' = hd_Dockerfile d
    \<and> mget (hd_NamedContexts d') k =
      (case find (\<lambda>ref. ref_key ref = k) (rev refs) of
         None \<Rightarrow> mget (hd_NamedContexts d) k | Some ref \<Rightarrow> dep_context env opts disk ref)"
  using assms
proof (induction refs arbitrary: d)
  case (Cons ref refs)
  obtain e d1 where r: "resolveDepContext env opts disk (ref_ImageName ref) (ref_Tag ref) d = (e, d1)" by fastforce
  with Cons.prems have "e = None" by (cases e) simp_all
  with r Cons.prems have r1: "resolveDepContext env opts disk (ref_ImageName ref) (ref_Tag ref) d = (None, d1)"
    and rest: "resolve_refs env opts disk refs d1 = (None, d')" by simp_all
  obtain v where v: "dep_context env opts disk ref = Some v" "hd_NamedContexts d1 = mput (ref_key ref) v (hd_NamedContexts d)"
    "hd_Dockerfile d1 = hd_Dockerfile d" "checkDepPlatform opts (ref_ImageName ref) (ref_Tag ref) = Inr ()"
    using resolveDepContext_ok[OF r1] by blast
  have f: "find P (rev (ref # refs)) = (case find P (rev refs) of None \<Rightarrow> (if P ref then Some ref else None) | Some y \<Rightarrow> Some y)" for P
  proof -
    have "find P (xs @ [x]) = (case find P xs of None \<Rightarrow> (if P x then Some x else None) | Some y \<Rightarrow> Some y)" for xs and x :: HiveRef
      by (induction xs) simp_all
    then show ?thesis by simp
  qed
  show ?case unfolding f using Cons.IH[OF rest] v by (simp split: option.split)
qed simp

lemma find_mem: "find P xs = Some x \<Longrightarrow> x \<in> set xs \<and> P x"
  by (induction xs) (auto split: if_splits)

lemma context_key_inject:
  assumes "context_key n t = context_key n' t'" and "CHR '':'' \<notin> set n" and "CHR '':'' \<notin> set n'"
  shows "n = n' \<and> t = t'"
proof -
  have e: "n @ CHR '':'' # t = n' @ CHR '':'' # t'" using assms(1) by (simp add: context_key_def)
  have tw: "takeWhile (\<lambda>x. x \<noteq> c) (a @ c # b) = a" if "c \<notin> set a" for a b :: string and c
    using that by (induction a) auto
  from tw[OF assms(2), of t] tw[OF assms(3), of t'] e have "n = n'" by simp
  with e show ?thesis by simp
qed

lemma ref_key_inject:
  "CHR '':'' \<notin> set (ref_ImageName a) \<Longrightarrow> CHR '':'' \<notin> set (ref_ImageName b) \<Longrightarrow> ref_key a = ref_key b \<longleftrightarrow> a = b"
  by (auto simp: ref_key_def dest: context_key_inject)

lemma line_ref_name: "line_ref line = Some ref \<Longrightarrow> CHR '':'' \<notin> set (ref_ImageName ref)"
  using scan_line_iff[of "go_trim_space line" ref]
  by (auto simp: line_ref_scan is_name_char_def[abs_def] list_all_iff)

lemma scanned_names:
  assumes "ScanDockerfileForHiveRefs fs path = Some refs" and "ref \<in> set refs"
  shows "CHR '':'' \<notin> set (ref_ImageName ref)"
proof -
  have "r \<in> set (List.map_filter line_ref ls) \<Longrightarrow> \<exists>l. line_ref l = Some r" for r ls
    by (induction ls) (auto simp: List.map_filter_def split: if_splits option.splits)
  moreover obtain ls where "refs = List.map_filter line_ref ls"
    using assms(1) by (auto simp: ScanDockerfileForHiveRefs_def)
  ultimately obtain l where "line_ref l = Some ref" using assms(2) by blast
  then show ?thesis by (rule line_ref_name)
qed


text \<open>A dependent with one local and one remote dependency.\<close>

definition tar_env :: "string deps_env" where
  "tar_env = \<lparr>de_mkdir_temp = (\<lambda>_. Inr ''/tmp/x''), de_from_tar = (\<lambda>t _. Inr (t, ''sha256:'' @ t)), de_write_ok = (\<lambda>_. True)\<rparr>"

definition app_dockerfile :: string where
  "app_dockerfile = ''FROM __hive__/base:1'' @ [CHR 0x0A] @ ''FROM __hive__/lib:2''"

definition app_disk :: disk where
  "app_disk = [''d/app/1/Dockerfile'' \<mapsto> app_dockerfile, ''d/base/1/linux-amd64/image.tar'' \<mapsto> ''f00'']"

definition app_deps :: HiveDepsOpts where
  "app_deps = \<lparr>ho_DockerfilePath = ''d/app/1/Dockerfile'', ho_DistPath = ''d'', ho_PlatformStr = ''linux/amd64'',
     ho_RegistryAddress = ''reg'', ho_BuildID = ''7'', ho_Changes = None, ho_Project = None\<rparr>"

lemma app_refs: "ScanDockerfileForHiveRefs (disk_files app_disk) (ho_DockerfilePath app_deps) =
    Some [\<lparr>ref_ImageName = ''base'', ref_Tag = ''1''\<rparr>, \<lparr>ref_ImageName = ''lib'', ref_Tag = ''2''\<rparr>]"
  by code_simp

definition app_contexts :: "string HiveDeps" where
  "app_contexts = \<lparr>hd_OCIStores = [(''hive-base-1'', ''f00'')],
     hd_NamedContexts = [(''context:hive-dep/base:1'', ''oci-layout:hive-base-1@sha256:f00''),
       (''context:hive-dep/lib:2'', ''docker-image://reg/lib:2-build.7'')],
     hd_Dockerfile = ''d/app/1/Dockerfile.hive'', hd_cleanups = [RemoveFile ''d/app/1/Dockerfile.hive'', RemoveTree ''/tmp/x'']\<rparr>"

lemma app_resolved: "fst (ResolveHiveDeps tar_env app_deps app_disk) = Inr (Some app_contexts)"
  by code_simp


text \<open>
  Store identifiers are not unique: an image \<open>a\<close> with a tag \<open>b-c\<close> and an image \<open>a-b\<close> with a
  tag \<open>c\<close> share one, so a Dockerfile that needs both loses the store of one of them,
  although its named context still refers to a digest in it.
\<close>

lemma store_ids_collide:
  "map_sum id (map_option (\<lambda>d. (mget (hd_OCIStores d) ''hive-a-b-c'', hd_NamedContexts d)))
     (fst (ResolveHiveDeps tar_env (app_deps\<lparr>ho_RegistryAddress := []\<rparr>)
       [''d/app/1/Dockerfile'' \<mapsto> ''FROM __hive__/a:b-c'' @ [CHR 0x0A] @ ''FROM __hive__/a-b:c'',
        ''d/a/b-c/linux-amd64/image.tar'' \<mapsto> ''one'', ''d/a-b/c/linux-amd64/image.tar'' \<mapsto> ''two'']))
   = Inr (Some (Some ''two'', [(''context:hive-dep/a:b-c'', ''oci-layout:hive-a-b-c@sha256:one''),
        (''context:hive-dep/a-b:c'', ''oci-layout:hive-a-b-c@sha256:two'')]))"
  by code_simp

text \<open>References are recognised in any case, but only the lower-case prefix is rewritten.\<close>

lemma upper_case_reference_not_rewritten:
  "line_ref ''FROM __HIVE__/a:1'' = Some \<lparr>ref_ImageName = ''a'', ref_Tag = ''1''\<rparr>
   \<and> go_replace_all HivePrefix namedContextPrefix ''FROM __HIVE__/a:1'' = ''FROM __HIVE__/a:1''"
  by code_simp

section \<open>What a backend's parent resolves to\<close>

lemma go_cut_first: "c \<notin> set a \<Longrightarrow> go_cut (a @ c # b) c = (a, b, True)"
proof -
  assume "c \<notin> set a"
  then have "go_index_byte (a @ c # b) c = Some (length a)" by (induction a) auto
  then show ?thesis by (simp add: go_cut_def)
qed

text \<open>Reading a context back: an identifier without \<open>@\<close> and a digest.\<close>

lemma parseOCILayoutRef_print:
  "CHR ''@'' \<notin> set i \<Longrightarrow> i \<noteq> [] \<Longrightarrow> digest \<noteq> [] \<Longrightarrow>
   parseOCILayoutRef (''oci-layout:'' @ i @ ''@'' @ digest) = Some (i, digest)"
  using go_cut_first[of "CHR ''@''" i digest]
  by (simp add: parseOCILayoutRef_def go_cut_prefix_def go_has_prefix_def)

lemma splitHiveRef_print: "CHR '':'' \<notin> set tag \<Longrightarrow> splitHiveRef (name @ '':'' @ tag) = (name, tag)"
  using go_last_index_byte_append[of "CHR '':''" tag name] by (simp add: splitHiveRef_def)

end
