(* ===== verification/Build_Run.thy ===== *)
theory Build_Run
  imports Hive_Deps Variant_Graph Shard
begin

text \<open>
  Building a project (\<open>pkg/build/project.go\<close>): which tags are built, for which platforms, in which order,
  and what each build is given.  The state is the disk, the log of finished builds and the two
  counters behind the warning that nothing was selected.  Loops over Go maps follow the order
  of the association list; theorems hold for every order.
\<close>

section \<open>Options and state\<close>

text \<open>The registry interface: \<open>Address\<close>, \<open>IsLocal\<close>, \<open>UseDockerMediaTypes\<close>.\<close>

record Registry =
  reg_Address :: string
  reg_IsLocal :: bool
  reg_UseDockerMediaTypes :: bool

record Filter =
  fi_ImageName :: string
  fi_TagName :: string

record ProjectBuildOpts =
  po_Project :: ContainerHiveProject
  po_BuildOrder :: BuildOrder
  po_DistPath :: string
  po_Cache :: "BuildkitCache option"
  po_Registry :: "Registry option"
  po_Filters :: "Filter list"
  po_BuildID :: string
  po_Changes :: "ChangeSet option"
  po_Shard :: Shard
  po_CLIPlatforms :: "string list"
  po_baseOwns :: "(string \<Rightarrow> string \<Rightarrow> bool option) option"
  po_variantOwns :: "(string \<Rightarrow> string \<Rightarrow> bool option) option"

text \<open>A finished build, as \<open>OnBuild\<close> and the log see it.\<close>

record built =
  bt_Image :: string
  bt_Tag :: string
  bt_Platform :: string
  bt_TarFile :: string

record run_state =
  rs_disk :: disk
  rs_log :: "built list"
  rs_matched :: int
  rs_skipped :: int

datatype run_error =
    EntrypointNotFound string string string
  | DepsFailed string string dep_error
  | MkdirFailed string
  | ConfigFailed string string "string \<times> secret_error"
  | ParentPlaceholder string
  | ParentFailed string string dep_error
  | CutSpecFailed cut_spec_error
  | ContextFailed string string context_error
  | BuildFailedFor string string build_failure

text \<open>What a build calls: the client, the clock, git, and the parameters of the components below.\<close>

record ('n, 's) build_env =
  bx_deps :: "'s deps_env"
  bx_ref :: "'n ref_lib"
  bx_secrets :: secret_env
  bx_git :: "string \<Rightarrow> string \<times> string"
  bx_now :: string
  bx_abs :: "string \<Rightarrow> string"
  bx_mkdir_ok :: "string \<Rightarrow> bool"
  bx_decode_cut :: "string \<Rightarrow> ChiselCutSpec option"
  bx_client :: "'s BuildOpts \<Rightarrow> disk \<Rightarrow> build_failure option \<times> disk"

section \<open>Helpers of the options\<close>

definition po_pushTag :: "ProjectBuildOpts \<Rightarrow> string \<Rightarrow> string \<Rightarrow> string" where
  "po_pushTag o' tagName platformStr = PushTag tagName platformStr (po_BuildID o')"

definition registryRef :: "ProjectBuildOpts \<Rightarrow> string \<Rightarrow> string \<Rightarrow> string \<Rightarrow> string" where
  "registryRef o' imageName tagName platformStr =
     (case po_Registry o' of None \<Rightarrow> []
      | Some r \<Rightarrow> reg_Address r @ ''/'' @ imageName @ '':'' @ po_pushTag o' tagName platformStr)"

definition registryAddress :: "ProjectBuildOpts \<Rightarrow> string" where
  "registryAddress o' = (case po_Registry o' of None \<Rightarrow> [] | Some r \<Rightarrow> reg_Address r)"

definition registryInsecure :: "ProjectBuildOpts \<Rightarrow> bool" where
  "registryInsecure o' = (case po_Registry o' of None \<Rightarrow> False | Some r \<Rightarrow> reg_IsLocal r)"

definition useDockerMediaTypes :: "ProjectBuildOpts \<Rightarrow> bool" where
  "useDockerMediaTypes o' = (case po_Registry o' of None \<Rightarrow> False | Some r \<Rightarrow> reg_UseDockerMediaTypes r)"

text \<open>The sharders may panic (a shard count that is zero as a 32-bit number), here \<^term>\<open>None\<close>.\<close>

definition ownsBase :: "ProjectBuildOpts \<Rightarrow> string \<Rightarrow> string \<Rightarrow> bool option" where
  "ownsBase o' identifier baseTagName =
     (case po_baseOwns o' of None \<Rightarrow> Some True | Some f \<Rightarrow> f identifier baseTagName)"

definition ownsVariant :: "ProjectBuildOpts \<Rightarrow> string \<Rightarrow> string \<Rightarrow> bool option" where
  "ownsVariant o' identifier tagName =
     (case po_variantOwns o' of None \<Rightarrow> Some True | Some f \<Rightarrow> f identifier tagName)"

definition matchesFilters :: "Filter list \<Rightarrow> string \<Rightarrow> string \<Rightarrow> bool" where
  "matchesFilters filters imageName tagName =
     (if filters = [] then True
      else list_ex (\<lambda>f. \<not> (fi_ImageName f \<noteq> [] \<and> fi_ImageName f \<noteq> imageName)
                     \<and> \<not> (fi_TagName f \<noteq> [] \<and> fi_TagName f \<noteq> tagName)) filters)"

definition platforms_of :: "ProjectBuildOpts \<Rightarrow> Image \<Rightarrow> string list \<Rightarrow> string list" where
  "platforms_of o' imageDef variantPlatforms =
     ResolvePlatforms (po_CLIPlatforms o') (hc_Platforms (pr_Config (po_Project o'))) (img_Platforms imageDef) variantPlatforms"

definition platformsFor ::
  "ProjectBuildOpts \<Rightarrow> Image \<Rightarrow> string list \<Rightarrow> run_state \<Rightarrow> string list \<times> run_state" where
  "platformsFor o' imageDef variantPlatforms st =
     (let platforms = platforms_of o' imageDef variantPlatforms in
      if platforms \<noteq> [] then (platforms, st\<lparr>rs_matched := rs_matched st + 1\<rparr>)
      else if po_CLIPlatforms o' \<noteq> [] then (platforms, st\<lparr>rs_skipped := rs_skipped st + 1\<rparr>)
      else (platforms, st))"

definition warnIfNothingSelected :: "run_state \<Rightarrow> bool" where
  "warnIfNothingSelected st \<longleftrightarrow> \<not> (rs_matched st > 0 \<or> rs_skipped st = 0)"

definition deps_opts :: "ProjectBuildOpts \<Rightarrow> string \<Rightarrow> string \<Rightarrow> HiveDepsOpts" where
  "deps_opts opts dockerfilePath platformStr =
     \<lparr>ho_DockerfilePath = dockerfilePath, ho_DistPath = po_DistPath opts, ho_PlatformStr = platformStr,
      ho_RegistryAddress = registryAddress opts, ho_BuildID = po_BuildID opts, ho_Changes = po_Changes opts,
      ho_Project = Some (po_Project opts)\<rparr>"

definition resolveParentImage ::
  "('n, 's) build_env \<Rightarrow> string \<Rightarrow> ProjectBuildOpts \<Rightarrow> string \<Rightarrow> disk \<Rightarrow> (dep_error + 's ParentDeps option) \<times> disk" where
  "resolveParentImage env parentRef opts platformStr disk =
     (if parentRef = [] then (Inr None, disk)
      else case ResolveParentImage (bx_deps env) (bx_ref env) parentRef (deps_opts opts [] platformStr) disk of
        (Inl err, disk) \<Rightarrow> (Inl err, disk) | (Inr deps, disk) \<Rightarrow> (Inr (Some deps), disk))"

section \<open>One build\<close>

text \<open>
  Base tags and variants share everything but their inputs: \<open>unit_of_tag\<close> and \<open>unit_of_variant\<close> are the
  inputs \<open>buildTag\<close> and \<open>buildVariant\<close> put together.
\<close>

record build_unit =
  bu_Image :: Image
  bu_TagName :: string
  bu_ParentTag :: string
  bu_Backend :: string
  bu_Nix :: NixConfig
  bu_Chisel :: ChiselConfig
  bu_Run :: "ImageRunConfig option"
  bu_VariantLabels :: Labels
  bu_Config :: "(string \<times> secret_error) + ResolvedConfig"
  bu_Tag :: Tag

definition unit_of_tag :: "('n, 's) build_env \<Rightarrow> Image \<Rightarrow> string \<Rightarrow> build_unit" where
  "unit_of_tag env imageDef tagName =
     \<lparr>bu_Image = imageDef, bu_TagName = tagName, bu_ParentTag = [], bu_Backend = img_BuildBackend imageDef,
      bu_Nix = img_Nix imageDef, bu_Chisel = img_Chisel imageDef, bu_Run = img_RunConfig imageDef,
      bu_VariantLabels = [],
      bu_Config = ResolveTagConfig (bx_secrets env) imageDef (mget_at (img_Tags imageDef) tagName),
      bu_Tag = mget_at (img_Tags imageDef) tagName\<rparr>"

definition unit_of_variant :: "('n, 's) build_env \<Rightarrow> Image \<Rightarrow> string \<Rightarrow> ImageVariant \<Rightarrow> build_unit" where
  "unit_of_variant env imageDef tagName variantDef =
     \<lparr>bu_Image = imageDef, bu_TagName = tagName @ var_TagSuffix variantDef, bu_ParentTag = tagName,
      bu_Backend = variantBackend imageDef variantDef,
      bu_Nix = nixConfigFor imageDef (Some variantDef), bu_Chisel = chiselConfigFor imageDef (Some variantDef),
      bu_Run = runConfigFor imageDef (Some variantDef), bu_VariantLabels = var_Labels variantDef,
      bu_Config = ResolveVariantConfig (bx_secrets env) imageDef variantDef (mget_at (img_Tags imageDef) tagName),
      bu_Tag = mget_at (img_Tags imageDef) tagName\<rparr>"

definition unit_entrypoint :: "ProjectBuildOpts \<Rightarrow> build_unit \<Rightarrow> string" where
  "unit_entrypoint opts u =
     go_path_join [po_DistPath opts, img_Name (bu_Image u), bu_TagName u, entrypointFileName (bu_Backend u)]"

definition unit_labels :: "('n, 's) build_env \<Rightarrow> ProjectBuildOpts \<Rightarrow> build_unit \<Rightarrow> Labels" where
  "unit_labels env opts u =
     BuildOCILabels (bx_git env) (bx_now env)
       \<lparr>la_ImageName = img_Name (bu_Image u), la_ImageTag = bu_TagName u, la_Description = img_Description (bu_Image u),
        la_ProjectRoot = pr_RootDir (po_Project opts), la_Project = hc_Labels (pr_Config (po_Project opts)),
        la_ImageLabels = img_Labels (bu_Image u), la_TagLabels = tag_Labels (bu_Tag u),
        la_VariantLabels = bu_VariantLabels u\<rparr>"

definition unit_opts ::
  "('n, 's) build_env \<Rightarrow> ProjectBuildOpts \<Rightarrow> build_unit \<Rightarrow> string \<Rightarrow> string \<Rightarrow> ResolvedConfig \<Rightarrow> 's BuildOpts" where
  "unit_opts env opts u platformStr root config =
     (let imageDef = bu_Image u; tf = TarFilePath (po_DistPath opts) (img_Name imageDef) (bu_TagName u) platformStr;
          scope = img_Name imageDef @ ''.'' @ bu_TagName u @ ''.'' @ platformStr in
      \<lparr>bp_ImageName = img_Name imageDef @ '':'' @ bu_TagName u, bp_Platform = platformStr, bp_TarFile = tf,
       bp_BuildArgs = rcf_BuildArgs config, bp_Secrets = rcf_Secrets config,
       bp_Cache = map_option (\<lambda>c. WithScope c scope) (po_Cache opts),
       bp_ContextDir = root, bp_Dockerfile = [], bp_BuildContext = None,
       bp_RegistryRef = registryRef opts (img_Name imageDef) (bu_TagName u) platformStr,
       bp_RegistryInsecure = registryInsecure opts, bp_DockerMediaTypes = useDockerMediaTypes opts,
       bp_OCIStores = None, bp_NamedContexts = [], bp_Labels = unit_labels env opts u\<rparr>)"

text \<open>The stores of a resolved parent, unless the build has stores already; its cleanups run when the build returns.\<close>

definition with_parent :: "'s ParentDeps option \<Rightarrow> 's BuildOpts \<Rightarrow> 's BuildOpts" where
  "with_parent parentDeps bo =
     (case parentDeps of
        None \<Rightarrow> bo
      | Some p \<Rightarrow>
          (case pd_Deps p of
             None \<Rightarrow> bo
           | Some d \<Rightarrow> if bp_OCIStores bo = None then bo\<lparr>bp_OCIStores := Some (hd_OCIStores d)\<rparr> else bo))"

definition parent_cleanup :: "'s ParentDeps option \<Rightarrow> disk \<Rightarrow> disk" where
  "parent_cleanup parentDeps disk =
     (case parentDeps of
        None \<Rightarrow> disk
      | Some p \<Rightarrow> (case pd_Deps p of None \<Rightarrow> disk | Some d \<Rightarrow> Cleanup d disk))"

text \<open>
  A backend's build context: the build options extended, the cleanup to defer, and the disk.  Of the two tests on the
  backend at most one holds.
\<close>

definition nix_context ::
  "('n, 's) build_env \<Rightarrow> ProjectBuildOpts \<Rightarrow> build_unit \<Rightarrow> string \<Rightarrow> string \<Rightarrow> 's BuildOpts \<Rightarrow> disk
   \<Rightarrow> (run_error + 's BuildOpts \<times> 's ParentDeps option) \<times> disk" where
  "nix_context env opts u platformStr root bo disk =
     (let name = img_Name (bu_Image u) in
      case nixParentForBuild (bu_Nix u) (bu_Image u) (bu_ParentTag u) of
        Inl err \<Rightarrow> (Inl (ParentPlaceholder err), disk)
      | Inr nixConfig \<Rightarrow>
          (case resolveParentImage env (nix_Parent nixConfig) opts platformStr disk of
             (Inl err, disk) \<Rightarrow> (Inl (ParentFailed name (bu_TagName u) err), disk)
           | (Inr parentDeps, disk) \<Rightarrow>
               (Inr ((with_parent parentDeps bo)\<lparr>bp_BuildContext :=
                  Some (NixCtx (nixBuildContext root nixConfig (bu_Run u) (map_option pd_Parent parentDeps)))\<rparr>, parentDeps), disk)))"

definition chisel_context ::
  "('n, 's) build_env \<Rightarrow> ProjectBuildOpts \<Rightarrow> build_unit \<Rightarrow> string \<Rightarrow> string \<Rightarrow> 's BuildOpts \<Rightarrow> disk
   \<Rightarrow> (run_error + 's BuildOpts \<times> 's ParentDeps option) \<times> disk" where
  "chisel_context env opts u platformStr root bo disk =
     (let name = img_Name (bu_Image u) in
      case chiselParentForBuild (bu_Chisel u) (bu_Image u) (bu_ParentTag u) of
        Inl err \<Rightarrow> (Inl (ParentPlaceholder err), disk)
      | Inr chiselConfig \<Rightarrow>
          (case parseChiselCutSpec (bx_decode_cut env) disk root of
             Inl err \<Rightarrow> (Inl (CutSpecFailed err), disk)
           | Inr spec \<Rightarrow>
               (case resolveParentImage env (ch_Parent chiselConfig) opts platformStr disk of
                  (Inl err, disk) \<Rightarrow> (Inl (ParentFailed name (bu_TagName u) err), disk)
                | (Inr parentDeps, disk) \<Rightarrow>
                    (case chiselBuildContext root spec chiselConfig (bu_Run u) (map_option pd_Parent parentDeps) of
                       Inl err \<Rightarrow> (Inl (ContextFailed name (bu_TagName u) err), parent_cleanup parentDeps disk)
                     | Inr ctx \<Rightarrow>
                         (Inr ((with_parent parentDeps bo)\<lparr>bp_BuildContext := Some (ChiselCtx ctx)\<rparr>, parentDeps), disk)))))"

definition backend_context ::
  "('n, 's) build_env \<Rightarrow> ProjectBuildOpts \<Rightarrow> build_unit \<Rightarrow> string \<Rightarrow> string \<Rightarrow> 's BuildOpts \<Rightarrow> disk
   \<Rightarrow> (run_error + 's BuildOpts \<times> 's ParentDeps option) \<times> disk" where
  "backend_context env opts u platformStr root bo disk =
     (if bu_Backend u = BuildBackendNix then nix_context env opts u platformStr root bo disk
      else if bu_Backend u = BuildBackendChisel then chisel_context env opts u platformStr root bo disk
      else (Inr (bo, None), disk))"

definition with_hive_deps :: "'s HiveDeps option \<Rightarrow> 's BuildOpts \<Rightarrow> 's BuildOpts" where
  "with_hive_deps hiveDeps bo =
     (case hiveDeps of
        None \<Rightarrow> bo
      | Some d \<Rightarrow> bo\<lparr>bp_OCIStores := Some (hd_OCIStores d), bp_NamedContexts := hd_NamedContexts d,
                    bp_Dockerfile := go_base (hd_Dockerfile d)\<rparr>)"

definition deps_cleanup :: "'s HiveDeps option \<Rightarrow> disk \<Rightarrow> disk" where
  "deps_cleanup hiveDeps disk = (case hiveDeps of None \<Rightarrow> disk | Some d \<Rightarrow> Cleanup d disk)"

text \<open>The solve and what follows it; the deferred cleanups run in reverse order.\<close>

definition run_solve ::
  "('n, 's) build_env \<Rightarrow> ProjectBuildOpts \<Rightarrow> build_unit \<Rightarrow> string \<Rightarrow> 's HiveDeps option \<Rightarrow> 's ParentDeps option
   \<Rightarrow> 's BuildOpts \<Rightarrow> run_state \<Rightarrow> run_error option \<times> run_state" where
  "run_solve env opts u platformStr hiveDeps parentDeps bo st =
     (case bx_client env bo (rs_disk st) of
        (Some err, disk) \<Rightarrow>
          (Some (BuildFailedFor (bp_ImageName bo) platformStr err),
           st\<lparr>rs_disk := deps_cleanup hiveDeps (parent_cleanup parentDeps disk)\<rparr>)
      | (None, disk) \<Rightarrow>
          (None, st\<lparr>rs_disk := deps_cleanup hiveDeps (parent_cleanup parentDeps disk),
                    rs_log := rs_log st @ [\<lparr>bt_Image = img_Name (bu_Image u), bt_Tag = bu_TagName u,
                      bt_Platform = platformStr, bt_TarFile = bp_TarFile bo\<rparr>]\<rparr>))"

definition build_unit_steps ::
  "('n, 's) build_env \<Rightarrow> ProjectBuildOpts \<Rightarrow> build_unit \<Rightarrow> string \<Rightarrow> run_state \<Rightarrow> run_error option \<times> run_state" where
  "build_unit_steps env opts u platformStr st =
     (let name = img_Name (bu_Image u); entrypointPath = unit_entrypoint opts u in
      case ResolveHiveDeps (bx_deps env) (deps_opts opts entrypointPath platformStr) (rs_disk st) of
        (Inl err, disk) \<Rightarrow> (Some (DepsFailed name (bu_TagName u) err), st\<lparr>rs_disk := disk\<rparr>)
      | (Inr hiveDeps, disk) \<Rightarrow>
          let root = bx_abs env (go_dir entrypointPath);
              tf = TarFilePath (po_DistPath opts) name (bu_TagName u) platformStr;
              failed = (\<lambda>err disk. (Some err, st\<lparr>rs_disk := deps_cleanup hiveDeps disk\<rparr>)) in
          if \<not> bx_mkdir_ok env (go_dir tf) then failed (MkdirFailed (go_dir tf)) disk
          else (case bu_Config u of
             Inl err \<Rightarrow> failed (ConfigFailed name (bu_TagName u) err) disk
           | Inr config \<Rightarrow>
               (case backend_context env opts u platformStr root (unit_opts env opts u platformStr root config) disk of
                  (Inl err, disk) \<Rightarrow> failed err disk
                | (Inr (bo, parentDeps), disk) \<Rightarrow>
                    run_solve env opts u platformStr hiveDeps parentDeps (with_hive_deps hiveDeps bo) (st\<lparr>rs_disk := disk\<rparr>))))"

definition buildTag ::
  "('n, 's) build_env \<Rightarrow> ProjectBuildOpts \<Rightarrow> Image \<Rightarrow> string \<Rightarrow> string \<Rightarrow> run_state \<Rightarrow> run_error option \<times> run_state" where
  "buildTag env opts imageDef tagName platformStr st =
     (let u = unit_of_tag env imageDef tagName in
      if rs_disk st (unit_entrypoint opts u) = None
      then (Some (EntrypointNotFound (img_Name imageDef) tagName (unit_entrypoint opts u)), st)
      else build_unit_steps env opts u platformStr st)"

definition buildVariant ::
  "('n, 's) build_env \<Rightarrow> ProjectBuildOpts \<Rightarrow> Image \<Rightarrow> string \<Rightarrow> ImageVariant \<Rightarrow> string \<Rightarrow> run_state
   \<Rightarrow> run_error option \<times> run_state" where
  "buildVariant env opts imageDef tagName variantDef platformStr st =
     (let u = unit_of_variant env imageDef tagName variantDef in
      if rs_disk st (unit_entrypoint opts u) = None then (None, st)
      else build_unit_steps env opts u platformStr st)"

section \<open>The project\<close>

text \<open>A run stops with the joined errors of a tag, or panics in a sharder.\<close>

datatype run_stop = Failed "run_error list" run_state | Panicked

fun buildPlatforms ::
  "(string \<Rightarrow> run_state \<Rightarrow> run_error option \<times> run_state) \<Rightarrow> string list \<Rightarrow> run_state \<Rightarrow> run_error list \<times> run_state" where
  "buildPlatforms build [] st = ([], st)"
| "buildPlatforms build (platformStr # ps) st =
     (case build platformStr st of
        (err, st) \<Rightarrow>
          (case buildPlatforms build ps st of
             (errs, st) \<Rightarrow> ((case err of None \<Rightarrow> errs | Some e \<Rightarrow> e # errs), st)))"

definition all_platforms ::
  "(string \<Rightarrow> run_state \<Rightarrow> run_error option \<times> run_state) \<Rightarrow> string list \<times> run_state \<Rightarrow> run_stop + run_state" where
  "all_platforms build ps =
     (case buildPlatforms build (fst ps) (snd ps) of
        (errs, st) \<Rightarrow> if errs = [] then Inr st else Inl (Failed errs st))"

definition build_base ::
  "('n, 's) build_env \<Rightarrow> ProjectBuildOpts \<Rightarrow> string \<Rightarrow> Image \<Rightarrow> string \<Rightarrow> run_state \<Rightarrow> run_stop + run_state" where
  "build_base env opts imgName imageDef tagName st =
     (if \<not> matchesFilters (po_Filters opts) imgName tagName then Inr st
      else case ownsBase opts (img_Identifier imageDef) tagName of
        None \<Rightarrow> Inl Panicked
      | Some owned \<Rightarrow>
          if owned then all_platforms (buildTag env opts imageDef tagName) (platformsFor opts imageDef [] st) else Inr st)"

definition build_one_variant ::
  "('n, 's) build_env \<Rightarrow> ProjectBuildOpts \<Rightarrow> string \<Rightarrow> Image \<Rightarrow> string \<Rightarrow> run_state \<Rightarrow> string \<times> ImageVariant
   \<Rightarrow> run_stop + run_state" where
  "build_one_variant env opts imgName imageDef tagName st nv =
     (let variantDef = snd nv; variantTagName = tagName @ var_TagSuffix variantDef in
      if \<not> matchesFilters (po_Filters opts) imgName variantTagName then Inr st
      else case ownsVariant opts (img_Identifier imageDef) variantTagName of
        None \<Rightarrow> Inl Panicked
      | Some owned \<Rightarrow>
          if owned then all_platforms (buildVariant env opts imageDef tagName variantDef)
                          (platformsFor opts imageDef (var_Platforms variantDef) st)
          else Inr st)"

definition build_tags ::
  "('n, 's) build_env \<Rightarrow> ProjectBuildOpts \<Rightarrow> string \<Rightarrow> Image \<Rightarrow> run_state \<Rightarrow> string \<Rightarrow> run_stop + run_state" where
  "build_tags env opts imgName imageDef st tagName =
     res_bind (build_base env opts imgName imageDef tagName st) (\<lambda>st.
       res_fold (build_one_variant env opts imgName imageDef tagName) st (img_Variants imageDef))"

definition build_image ::
  "('n, 's) build_env \<Rightarrow> ProjectBuildOpts \<Rightarrow> string \<Rightarrow> run_state \<Rightarrow> Image \<Rightarrow> run_stop + run_state" where
  "build_image env opts imgName st imageDef =
     res_fold (build_tags env opts imgName imageDef) st (mkeys (img_Tags imageDef))"

definition build_name ::
  "('n, 's) build_env \<Rightarrow> ProjectBuildOpts \<Rightarrow> run_state \<Rightarrow> string \<Rightarrow> run_stop + run_state" where
  "build_name env opts st imgName =
     res_fold (build_image env opts imgName) st (mget_or [] (pr_ImagesByName (po_Project opts)) imgName)"

definition buildWithDeps ::
  "('n, 's) build_env \<Rightarrow> ProjectBuildOpts \<Rightarrow> run_state \<Rightarrow> run_stop + run_state" where
  "buildWithDeps env opts st = res_fold (build_name env opts) st (bo_order (po_BuildOrder opts))"

definition buildWithoutDeps ::
  "('n, 's) build_env \<Rightarrow> ProjectBuildOpts \<Rightarrow> run_state \<Rightarrow> run_stop + run_state" where
  "buildWithoutDeps env opts st =
     res_fold (\<lambda>st (_, images). res_fold (\<lambda>st imageDef. build_image env opts (img_Name imageDef) st imageDef) st images)
       st (pr_ImagesByName (po_Project opts))"

text \<open>The result with the warning that no selected tag supports the requested platforms.\<close>

definition BuildProject ::
  "('n, 's) build_env \<Rightarrow> ProjectBuildOpts \<Rightarrow> run_state \<Rightarrow> run_stop + run_state \<times> bool" where
  "BuildProject env opts st =
     (case (if Enabled (po_Shard opts) then OwnedUnits (po_Project opts) (po_Shard opts) else Some []) of
        None \<Rightarrow> Inl Panicked
      | Some owned \<Rightarrow>
          if Enabled (po_Shard opts) \<and> owned = [] then Inr (st, False)
          else
            let opts = opts\<lparr>po_baseOwns := Some (NewBaseTagSharder (po_Project opts) (po_Shard opts)),
                            po_variantOwns := Some (NewTagSharder (po_Project opts) (po_Shard opts))\<rparr> in
            res_bind (if HasDependencies (bo_graph (po_BuildOrder opts)) then buildWithDeps env opts st
                      else buildWithoutDeps env opts st)
              (\<lambda>st. Inr (st, warnIfNothingSelected st)))"

section \<open>The log of a run\<close>

text \<open>\<open>extends N J st st'\<close>: the log has grown by builds of images in \<open>N\<close>, among them the jobs \<open>J\<close>.\<close>

definition job :: "built \<Rightarrow> string \<times> string \<times> string" where
  "job b = (bt_Image b, bt_Tag b, bt_Platform b)"

definition extends :: "string set \<Rightarrow> (string \<times> string \<times> string) set \<Rightarrow> run_state \<Rightarrow> run_state \<Rightarrow> bool" where
  "extends N J st st' \<longleftrightarrow>
     (\<exists>chunk. rs_log st' = rs_log st @ chunk \<and> bt_Image ` set chunk \<subseteq> N \<and> J \<subseteq> job ` set chunk)"

lemma extends_refl: "rs_log st' = rs_log st \<Longrightarrow> extends N {} st st'"
  by (auto simp: extends_def)

lemma extends_trans:
  assumes "extends N J a b" and "extends M K b c"
  shows "extends (N \<union> M) (J \<union> K) a c"
proof -
  from assms(1) obtain x where x: "rs_log b = rs_log a @ x" "bt_Image ` set x \<subseteq> N" "J \<subseteq> job ` set x"
    unfolding extends_def by blast
  from assms(2) obtain y where y: "rs_log c = rs_log b @ y" "bt_Image ` set y \<subseteq> M" "K \<subseteq> job ` set y"
    unfolding extends_def by blast
  have "rs_log c = rs_log a @ (x @ y)" using x(1) y(1) by simp
  moreover have "bt_Image ` set (x @ y) \<subseteq> N \<union> M" using x(2) y(2) by auto
  moreover have "J \<union> K \<subseteq> job ` set (x @ y)" using x(3) y(3) by auto
  ultimately show ?thesis unfolding extends_def by blast
qed

lemma extends_mono: "extends N J a b \<Longrightarrow> N \<subseteq> N' \<Longrightarrow> J' \<subseteq> J \<Longrightarrow> extends N' J' a b"
  unfolding extends_def by (elim exE conjE, intro exI conjI) (assumption, (erule subset_trans, assumption)+)

lemma extends_log: "rs_log a = rs_log a' \<Longrightarrow> extends N J a b \<longleftrightarrow> extends N J a' b"
  by (simp add: extends_def)

lemma extends_fold:
  assumes "res_fold f st xs = Inr st'"
    and "\<And>x st st'. x \<in> set xs \<Longrightarrow> f st x = Inr st' \<Longrightarrow> extends (N x) (J x) st st'"
  shows "extends (\<Union> (N ` set xs)) (\<Union> (J ` set xs)) st st'"
  using assms
proof (induction xs arbitrary: st)
  case Nil
  then show ?case by (simp add: extends_refl)
next
  case (Cons x xs)
  then obtain s where "f st x = Inr s" and "res_fold f s xs = Inr st'" by (auto simp: res_iff)
  with Cons extends_trans[of "N x" "J x" st s "\<Union> (N ` set xs)" "\<Union> (J ` set xs)" st'] show ?case by simp
qed

lemma run_solve_log:
  assumes "run_solve env opts u p hds pds bo st = (None, st')"
  shows "extends {img_Name (bu_Image u)} {(img_Name (bu_Image u), bu_TagName u, p)} st st'"
proof -
  obtain r disk where r: "bx_client env bo (rs_disk st) = (r, disk)" by fastforce
  with assms have "r = None" by (cases r) (simp_all add: run_solve_def)
  with assms r have "rs_log st' = rs_log st @ [\<lparr>bt_Image = img_Name (bu_Image u), bt_Tag = bu_TagName u,
      bt_Platform = p, bt_TarFile = bp_TarFile bo\<rparr>]"
    by (auto simp: run_solve_def)
  then show ?thesis unfolding extends_def by (intro exI conjI) (assumption, simp_all add: job_def)
qed

lemma build_unit_steps_log:
  assumes "build_unit_steps env opts u p st = (None, st')"
  shows "extends {img_Name (bu_Image u)} {(img_Name (bu_Image u), bu_TagName u, p)} st st'"
proof -
  note run = assms[unfolded build_unit_steps_def Let_def]
  obtain r disk where r: "ResolveHiveDeps (bx_deps env) (deps_opts opts (unit_entrypoint opts u) p) (rs_disk st) = (r, disk)"
    by fastforce
  from run[unfolded r] obtain hds where hds: "r = Inr hds" by (cases r) simp_all
  note run = run[unfolded r hds prod.case sum.case]
  from run obtain c where c: "bu_Config u = Inr c" by (cases "bu_Config u") (simp_all split: if_splits)
  obtain q disk' where q: "backend_context env opts u p (bx_abs env (go_dir (unit_entrypoint opts u)))
      (unit_opts env opts u p (bx_abs env (go_dir (unit_entrypoint opts u))) c) disk = (q, disk')"
    by fastforce
  note run = run[unfolded c sum.case q prod.case]
  from run obtain bo pds where "q = Inr (bo, pds)" by (cases q) (auto split: if_splits)
  with run have "run_solve env opts u p hds pds (with_hive_deps hds bo) (st\<lparr>rs_disk := disk'\<rparr>) = (None, st')"
    by (simp split: if_splits)
  from run_solve_log[OF this] show ?thesis by (simp add: extends_def)
qed

lemma buildTag_log:
  assumes "buildTag env opts img tag p st = (None, st')"
  shows "extends {img_Name img} {(img_Name img, tag, p)} st st'"
proof -
  have "build_unit_steps env opts (unit_of_tag env img tag) p st = (None, st')"
    using assms by (simp add: buildTag_def Let_def split: if_splits)
  from build_unit_steps_log[OF this] show ?thesis by (simp add: unit_of_tag_def)
qed

lemma buildVariant_log:
  assumes "buildVariant env opts img tag v p st = (None, st')"
  shows "extends {img_Name img} {} st st'"
proof (cases "rs_disk st (unit_entrypoint opts (unit_of_variant env img tag v)) = None")
  case True
  then show ?thesis using assms by (simp add: buildVariant_def Let_def extends_refl)
next
  case False
  have "build_unit_steps env opts (unit_of_variant env img tag v) p st = (None, st')"
    using assms[unfolded buildVariant_def Let_def if_not_P[OF False]] .
  from build_unit_steps_log[OF this] show ?thesis
    by (rule extends_mono) (simp_all add: unit_of_variant_def)
qed

lemma buildPlatforms_log:
  assumes "buildPlatforms build ps st = ([], st')"
    and "\<And>p st st'. build p st = (None, st') \<Longrightarrow> extends N (J p) st st'"
  shows "extends N (\<Union> (J ` set ps)) st st'"
  using assms(1)
proof (induction ps arbitrary: st)
  case Nil
  then show ?case by (simp add: extends_refl)
next
  case (Cons p ps)
  then obtain s where "build p st = (None, s)" and "buildPlatforms build ps s = ([], st')"
    by (auto split: prod.splits option.splits)
  with Cons.IH assms(2) extends_trans[of N "J p" st s N "\<Union> (J ` set ps)" st'] show ?case by simp
qed

lemma platformsFor_simps:
  "fst (platformsFor opts img vp st) = platforms_of opts img vp" "rs_log (snd (platformsFor opts img vp st)) = rs_log st"
  by (simp_all add: platformsFor_def Let_def)

lemma all_platforms_log:
  assumes "all_platforms build (platformsFor opts img vp st) = Inr st'"
    and "\<And>p st st'. build p st = (None, st') \<Longrightarrow> extends N (J p) st st'"
  shows "extends N (\<Union> (J ` set (platforms_of opts img vp))) st st'"
proof -
  from assms(1) have "buildPlatforms build (platforms_of opts img vp) (snd (platformsFor opts img vp st)) = ([], st')"
    by (auto simp: all_platforms_def platformsFor_simps split: prod.splits if_splits)
  from buildPlatforms_log[OF this assms(2)] show ?thesis
    by (simp add: extends_log[OF platformsFor_simps(2)])
qed

text \<open>The base tags of a name that are to be built, with their platforms.\<close>

definition selected :: "ProjectBuildOpts \<Rightarrow> string \<Rightarrow> Image \<Rightarrow> string \<Rightarrow> (string \<times> string \<times> string) set" where
  "selected opts name img tag =
     (if matchesFilters (po_Filters opts) name tag \<and> ownsBase opts (img_Identifier img) tag = Some True
      then {(img_Name img, tag, p) | p. p \<in> set (platforms_of opts img [])} else {})"

lemma build_base_log:
  assumes "build_base env opts name img tag st = Inr st'"
  shows "extends {img_Name img} (selected opts name img tag) st st'"
proof (cases "matchesFilters (po_Filters opts) name tag \<and> ownsBase opts (img_Identifier img) tag = Some True")
  case True
  then have "all_platforms (buildTag env opts img tag) (platformsFor opts img [] st) = Inr st'"
    using assms by (simp add: build_base_def)
  from all_platforms_log[OF this buildTag_log] show ?thesis
    by (rule extends_mono) (use True in \<open>auto simp: selected_def\<close>)
next
  case False
  then have "st' = st" using assms by (auto simp: build_base_def split: if_splits option.splits)
  then show ?thesis using False by (auto simp: selected_def extends_def)
qed

lemma build_one_variant_log:
  assumes "build_one_variant env opts name img tag st nv = Inr st'"
  shows "extends {img_Name img} {} st st'"
proof (cases "matchesFilters (po_Filters opts) name (tag @ var_TagSuffix (snd nv))
    \<and> ownsVariant opts (img_Identifier img) (tag @ var_TagSuffix (snd nv)) = Some True")
  case True
  then have "all_platforms (buildVariant env opts img tag (snd nv)) (platformsFor opts img (var_Platforms (snd nv)) st) = Inr st'"
    using assms by (simp add: build_one_variant_def Let_def)
  from all_platforms_log[OF this buildVariant_log] show ?thesis by (rule extends_mono) simp_all
next
  case False
  then have "st' = st" using assms by (auto simp: build_one_variant_def Let_def split: if_splits option.splits)
  then show ?thesis by (auto intro: extends_refl)
qed

lemma build_tags_log:
  assumes "build_tags env opts name img st tag = Inr st'"
  shows "extends {img_Name img} (selected opts name img tag) st st'"
proof -
  from assms obtain s where s: "build_base env opts name img tag st = Inr s"
    and v: "res_fold (build_one_variant env opts name img tag) s (img_Variants img) = Inr st'"
    by (auto simp: build_tags_def res_iff)
  show ?thesis
    using extends_trans[OF build_base_log[OF s] extends_fold[OF v build_one_variant_log]]
    by (rule extends_mono) auto
qed

lemma build_image_log:
  assumes "build_image env opts name st img = Inr st'"
  shows "extends {img_Name img} (\<Union> (selected opts name img ` set (mkeys (img_Tags img)))) st st'"
  using extends_fold[OF assms[unfolded build_image_def] build_tags_log]
  by (rule extends_mono) auto

definition selected_jobs :: "ProjectBuildOpts \<Rightarrow> string \<Rightarrow> (string \<times> string \<times> string) set" where
  "selected_jobs opts name =
     (\<Union>img \<in> set (mget_or [] (pr_ImagesByName (po_Project opts)) name). \<Union> (selected opts name img ` set (mkeys (img_Tags img))))"

lemma build_name_log:
  assumes "build_name env opts st name = Inr st'"
    and "\<And>img. img \<in> set (mget_or [] (pr_ImagesByName (po_Project opts)) name) \<Longrightarrow> img_Name img = name"
  shows "extends {name} (selected_jobs opts name) st st'"
  using extends_fold[OF assms(1)[unfolded build_name_def] build_image_log]
  by (rule extends_mono) (use assms(2) in \<open>auto simp: selected_jobs_def\<close>)

text \<open>What an image depends on: the references of its rendered Dockerfiles, and what it declares.\<close>

definition image_needs :: "files \<Rightarrow> string \<Rightarrow> ContainerHiveProject \<Rightarrow> string \<Rightarrow> string set" where
  "image_needs fs distPath project n =
     (if rendered_image fs distPath n then rendered_deps fs distPath n else {})
     \<union> (\<Union>img \<in> set (mget_or [] (pr_ImagesByName project) n). declared_deps n img)"

definition names_ok :: "ContainerHiveProject \<Rightarrow> bool" where
  "names_ok project \<longleftrightarrow> wf_map (pr_ImagesByName project)
     \<and> (\<forall>name. \<forall>img \<in> set (mget_or [] (pr_ImagesByName project) name). img_Name img = name)"

lemma split_log:
  assumes "L @ R = xs @ b # ys" and "b \<notin> set L"
  shows "set L \<subseteq> set xs"
proof -
  have "length L \<le> length xs"
  proof (rule ccontr)
    assume "\<not> length L \<le> length xs"
    then have "b = (L @ R) ! length xs" and "length xs < length L" using assms(1) by simp_all
    then show False using assms(2) by (simp add: nth_append)
  qed
  then have "L = take (length L) xs" using assms(1) by (metis append_eq_append_conv_if append_take_drop_id)
  then show ?thesis by (metis set_take_subset)
qed

text \<open>
  C4. Building a project whose order was resolved from its rendered files.  When the run succeeds and its
  log has a build of an image, every selected base tag of every image this one depends on was
  built before, for every platform it is to be built for; selected means matched by the filters and owned
  by the shard.  So a dependency inside the selection is never taken from an older build.
\<close>

theorem dependencies_built_before:
  assumes "ResolveOrder fs distPath (po_Project opts) = Inr (po_BuildOrder opts)" and "names_ok (po_Project opts)"
    and "buildWithDeps env opts st = Inr st'" and "rs_log st = []"
    and "rs_log st' = xs @ b # ys" and "B \<in> image_needs fs distPath (po_Project opts) (bt_Image b)"
  shows "selected_jobs opts B \<subseteq> job ` set xs"
proof -
  let ?order = "bo_order (po_BuildOrder opts)" and ?A = "bt_Image b"
  have wf: "wf_map (pr_ImagesByName (po_Project opts))"
    and nm: "\<And>name img. img \<in> set (mget_or [] (pr_ImagesByName (po_Project opts)) name) \<Longrightarrow> img_Name img = name"
    using assms(2) unfolding names_ok_def by blast+
  note ord = ResolveOrder_deps_first[OF assms(1) wf, folded image_needs_def]
  have run: "res_fold (build_name env opts) st ?order = Inr st'" using assms(3) by (simp add: buildWithDeps_def)
  have part: "extends (set ns) (\<Union> (selected_jobs opts ` set ns)) a c"
    if "res_fold (build_name env opts) a ns = Inr c" for ns a c
  proof -
    have "extends {n} (selected_jobs opts n) s s'" if "build_name env opts s n = Inr s'" for n s s'
      using build_name_log[OF that nm] .
    from extends_fold[OF that, of "\<lambda>n. {n}" "selected_jobs opts", OF this] show ?thesis by simp
  qed
  have "?A \<in> set ?order" using part[OF run] assms(4,5) unfolding extends_def by auto
  then obtain us vs where us: "?order = us @ ?A # vs" by (metis split_list)
  have "length us < length ?order" "?order ! length us = ?A" "take (length us) ?order = us" by (simp_all add: us)
  then have B: "B \<in> set us" using ord assms(6) by (metis subsetD)
  have A: "?A \<notin> set us" using ord by (simp add: us)
  obtain s1 where s1: "res_fold (build_name env opts) st us = Inr s1"
    and s2: "res_fold (build_name env opts) s1 (?A # vs) = Inr st'"
    using run unfolding us res_fold_append res_bind_Inr_iff by blast
  obtain R where R: "rs_log st' = rs_log s1 @ R" using part[OF s2] unfolding extends_def by blast
  obtain C where C: "rs_log s1 = C" "bt_Image ` set C \<subseteq> set us" "\<Union> (selected_jobs opts ` set us) \<subseteq> job ` set C"
    using part[OF s1] assms(4) unfolding extends_def by auto
  have "b \<notin> set C" using C(2) A by auto
  then have "set C \<subseteq> set xs" using split_log[of C R xs b ys] R C(1) assms(5) by simp
  with C(3) B show ?thesis by blast
qed

text \<open>An application on a base image, built by a client that writes the tar it is asked for.\<close>

definition plain_image :: "string \<Rightarrow> string list \<Rightarrow> Image" where
  "plain_image name deps = zero_Image\<lparr>img_Identifier := name, img_Name := name, img_Tags := [(''1.0'', zero_Tag)],
     img_DependsOn := deps, img_Platforms := [''amd64'']\<rparr>"

definition app_project :: ContainerHiveProject where
  "app_project = project_of [(''app'', [plain_image ''app'' [''base'']]), (''base'', [plain_image ''base'' []])]"

definition app_order :: BuildOrder where
  "app_order = projr (ResolveOrder two_images ''dist'' app_project)"

definition app_opts :: ProjectBuildOpts where
  "app_opts = \<lparr>po_Project = app_project, po_BuildOrder = app_order, po_DistPath = ''dist'', po_Cache = None,
     po_Registry = None, po_Filters = [], po_BuildID = [], po_Changes = None, po_Shard = \<lparr>Current = 0, MaxShards = 0\<rparr>,
     po_CLIPlatforms = [], po_baseOwns = None, po_variantOwns = None\<rparr>"

definition app_env :: "(string, string) build_env" where
  "app_env = \<lparr>bx_deps = \<lparr>de_mkdir_temp = (\<lambda>_. Inr ''/tmp/x''), de_from_tar = (\<lambda>t _. Inr (t, ''sha256:0'')), de_write_ok = (\<lambda>_. True)\<rparr>,
     bx_ref = \<lparr>ParseNormalizedNamed = Some, TagNameOnly = id, ref_String = id, is_Digested = (\<lambda>_. False)\<rparr>,
     bx_secrets = no_env, bx_git = (\<lambda>_. ([], [])), bx_now = [], bx_abs = (\<lambda>p. ''/p/'' @ p), bx_mkdir_ok = (\<lambda>_. True),
     bx_decode_cut = (\<lambda>_. None), bx_client = (\<lambda>bo disk. (None, disk(bp_TarFile bo \<mapsto> ''tar'')))\<rparr>"

definition app_start :: run_state where
  "app_start = \<lparr>rs_disk = [''dist/base/1.0/Dockerfile'' \<mapsto> ''FROM alpine'', ''dist/app/1.0/Dockerfile'' \<mapsto> ''FROM __hive__/base:1.0''],
     rs_log = [], rs_matched = 0, rs_skipped = 0\<rparr>"

definition app_log :: "built list" where
  "app_log = [\<lparr>bt_Image = ''base'', bt_Tag = ''1.0'', bt_Platform = ''linux/amd64'', bt_TarFile = ''dist/base/1.0/linux-amd64/image.tar''\<rparr>,
     \<lparr>bt_Image = ''app'', bt_Tag = ''1.0'', bt_Platform = ''linux/amd64'', bt_TarFile = ''dist/app/1.0/linux-amd64/image.tar''\<rparr>]"

definition log_of :: "run_stop + run_state \<Rightarrow> built list option" where
  "log_of r = (case r of Inl _ \<Rightarrow> None | Inr st \<Rightarrow> Some (rs_log st))"

lemma app_order_resolved: "ResolveOrder two_images ''dist'' app_project = Inr app_order"
  unfolding app_order_def by code_simp

lemma app_run: "log_of (buildWithDeps app_env app_opts app_start) = Some app_log"
  by code_simp

theorem dependencies_built_before_witness:
  "(''base'', ''1.0'', ''linux/amd64'') \<in> job ` {hd app_log}"
proof -
  obtain st' where st': "buildWithDeps app_env app_opts app_start = Inr st'" and l: "rs_log st' = app_log"
    using app_run by (auto simp: log_of_def split: sum.splits)
  have o: "ResolveOrder two_images ''dist'' (po_Project app_opts) = Inr (po_BuildOrder app_opts)"
    using app_order_resolved by (simp add: app_opts_def)
  have n: "names_ok (po_Project app_opts)"
    by (auto simp: names_ok_def app_opts_def app_project_def project_of_def wf_map_def mget_or_def plain_image_def split: if_splits)
  have s: "rs_log st' = [hd app_log] @ app_log ! 1 # []" unfolding l by code_simp
  have d: "''base'' \<in> image_needs two_images ''dist'' (po_Project app_opts) (bt_Image (app_log ! 1))"
    by (simp add: image_needs_def declared_deps_def app_opts_def app_project_def project_of_def plain_image_def app_log_def mget_or_def)
  have j: "(''base'', ''1.0'', ''linux/amd64'') \<in> selected_jobs app_opts ''base''"
  proof -
    have "platforms_of app_opts (plain_image ''base'' []) [] = [''linux/amd64'']" by code_simp
    then show ?thesis
      by (simp add: selected_jobs_def selected_def matchesFilters_def ownsBase_def app_opts_def app_project_def
          project_of_def plain_image_def mget_or_def mkeys_def)
  qed
  have "rs_log app_start = []" by (simp add: app_start_def)
  from dependencies_built_before[OF o n st' this s d] j show ?thesis by auto
qed

end
