(* ===== verification/Publish.thy ===== *)
theory Publish
  imports Build_Run Image_Aliases
begin

text \<open>
  Publishing (\<open>pkg/registry/registry.go\<close>, \<open>internal/gcr\<close>, the address rules of \<open>internal/registry\<close>): manifest
  lists over the platform images a build pushed, and the alias tags that point at them.  A
  registry maps references to what is stored there; parsing references and platforms and loading
  tars are parameters.
\<close>

section \<open>Which registry\<close>

definition IsDockerHubAddress :: "string \<Rightarrow> bool" where
  "IsDockerHubAddress addr =
     (let host = (case go_index addr ''/'' of None \<Rightarrow> addr | Some i \<Rightarrow> take i addr) in
      host \<in> {''docker.io'', ''index.docker.io'', ''registry-1.docker.io''})"

definition resolveDockerMediaTypes :: "string \<Rightarrow> bool option \<Rightarrow> bool" where
  "resolveDockerMediaTypes address override =
     (case override of Some b \<Rightarrow> b | None \<Rightarrow> IsDockerHubAddress address)"

datatype registry_choice = Remote string "bool option" | Zot string

definition NewRegistryFor :: "(string \<Rightarrow> string) \<Rightarrow> string \<Rightarrow> RegistryConfig option \<Rightarrow> registry_choice option" where
  "NewRegistryFor getenv dataDir registryConfig =
     (if getenv ''CI'' \<noteq> [] then
        (let remoteAddr = getenv ''CONTAINER_HIVE_REGISTRY'';
             remoteAddr = (if remoteAddr = [] then
                 (case registryConfig of Some c \<Rightarrow> if rg_Address c \<noteq> [] then rg_Address c else remoteAddr | None \<Rightarrow> remoteAddr)
               else remoteAddr) in
         if remoteAddr = [] then None
         else Some (Remote remoteAddr (case registryConfig of None \<Rightarrow> None | Some c \<Rightarrow> rg_DockerMediaTypes c)))
      else Some (Zot dataDir))"

text \<open>The interface of a remote registry as the build sees it.\<close>

definition remote_registry :: "string \<Rightarrow> bool option \<Rightarrow> Registry" where
  "remote_registry address override =
     \<lparr>reg_Address = address, reg_IsLocal = False, reg_UseDockerMediaTypes = resolveDockerMediaTypes address override\<rparr>"

section \<open>Manifest lists\<close>

text \<open>What a reference holds: an image, or an index of images by platform with its media type.\<close>

datatype 'i stored = Image_at 'i | Index_at "(string \<times> 'i) list" bool

type_synonym 'i remote = "string \<rightharpoonup> 'i stored"

record 'i gcr_env =
  gcr_tag_ok :: "string \<Rightarrow> bool"
  gcr_ref_ok :: "string \<Rightarrow> bool"
  gcr_platform_ok :: "string \<Rightarrow> bool"
  gcr_load_tar :: "string \<Rightarrow> 'i option"
  gcr_write_ok :: "string \<Rightarrow> bool"
  gcr_retag_ok :: "string \<Rightarrow> string \<Rightarrow> bool"
  gcr_pick :: "(string \<times> 'i) list \<Rightarrow> 'i option"

datatype publish_error =
    InvalidTarget string | InvalidPlatformName string | InvalidRef string | FetchFailed string
  | WriteFailed string | LoadTarFailed string string string | AliasFailed alias_error

record PlatformRef =
  pf_Ref :: string
  pf_Platform :: string

text \<open>\<open>remote.Image\<close>: under a reference that holds an index the client picks one of its images, or none.\<close>

definition image_at :: "'i gcr_env \<Rightarrow> 'i remote \<Rightarrow> string \<Rightarrow> 'i option" where
  "image_at env remote ref =
     (case remote ref of None \<Rightarrow> None | Some (Image_at i) \<Rightarrow> Some i | Some (Index_at xs _) \<Rightarrow> gcr_pick env xs)"

definition fetch_image :: "'i gcr_env \<Rightarrow> 'i remote \<Rightarrow> PlatformRef \<Rightarrow> publish_error + string \<times> 'i" where
  "fetch_image env remote pr =
     (if \<not> gcr_platform_ok env (pf_Platform pr) then Inl (InvalidPlatformName (pf_Platform pr))
      else if \<not> gcr_ref_ok env (pf_Ref pr) then Inl (InvalidRef (pf_Ref pr))
      else case image_at env remote (pf_Ref pr) of
        Some i \<Rightarrow> Inr (pf_Platform pr, i) | None \<Rightarrow> Inl (FetchFailed (pf_Ref pr)))"

definition write_index ::
  "'i gcr_env \<Rightarrow> string \<Rightarrow> (string \<times> 'i) list \<Rightarrow> bool \<Rightarrow> 'i remote \<Rightarrow> publish_error + 'i remote" where
  "write_index env targetRef adds dockerMediaTypes remote =
     (if gcr_write_ok env targetRef then Inr (remote(targetRef \<mapsto> Index_at adds dockerMediaTypes)) else Inl (WriteFailed targetRef))"

definition CreateManifestListFromRefs ::
  "'i gcr_env \<Rightarrow> string \<Rightarrow> PlatformRef list \<Rightarrow> bool \<Rightarrow> 'i remote \<Rightarrow> publish_error + 'i remote" where
  "CreateManifestListFromRefs env targetRef refs dockerMediaTypes remote =
     (if \<not> gcr_tag_ok env targetRef then Inl (InvalidTarget targetRef)
      else res_bind (res_map (fetch_image env remote) refs) (\<lambda>adds.
        write_index env targetRef adds dockerMediaTypes remote))"

definition CreateManifestList ::
  "'i gcr_env \<Rightarrow> string \<Rightarrow> (string \<times> 'i) list \<Rightarrow> bool \<Rightarrow> 'i remote \<Rightarrow> publish_error + 'i remote" where
  "CreateManifestList env targetRef images dockerMediaTypes remote =
     (if \<not> gcr_tag_ok env targetRef then Inl (InvalidTarget targetRef)
      else res_bind (res_map (\<lambda>pi. if gcr_platform_ok env (fst pi) then Inr pi else Inl (InvalidPlatformName (fst pi))) images)
        (\<lambda>adds. write_index env targetRef adds dockerMediaTypes remote))"

definition Retag :: "'i gcr_env \<Rightarrow> string \<Rightarrow> string \<Rightarrow> 'i remote \<Rightarrow> publish_error + 'i remote" where
  "Retag env sourceRef targetRef remote =
     (if \<not> gcr_ref_ok env sourceRef then Inl (InvalidRef sourceRef)
      else if \<not> gcr_tag_ok env targetRef then Inl (InvalidTarget targetRef)
      else case remote sourceRef of
        None \<Rightarrow> Inl (FetchFailed sourceRef)
      | Some desc \<Rightarrow> if gcr_retag_ok env sourceRef targetRef then Inr (remote(targetRef \<mapsto> desc)) else Inl (WriteFailed targetRef))"

section \<open>The project\<close>

definition matchesImageFilter :: "Filter list \<Rightarrow> string \<Rightarrow> bool" where
  "matchesImageFilter filters imageName =
     (if filters = [] then True else list_ex (\<lambda>f. fi_ImageName f = [] \<or> fi_ImageName f = imageName) filters)"

definition matchesTagFilter :: "Filter list \<Rightarrow> string \<Rightarrow> string \<Rightarrow> bool" where
  "matchesTagFilter filters imageName tagName =
     (if filters = [] then True
      else list_ex (\<lambda>f. \<not> (fi_ImageName f \<noteq> [] \<and> fi_ImageName f \<noteq> imageName)
                     \<and> \<not> (fi_TagName f \<noteq> [] \<and> fi_TagName f \<noteq> tagName)) filters)"

definition tag_ref :: "Registry \<Rightarrow> string \<Rightarrow> string \<Rightarrow> string" where
  "tag_ref r imageName tag = reg_Address r @ ''/'' @ imageName @ '':'' @ tag"

definition registry_ImageRef :: "Registry \<Rightarrow> string \<Rightarrow> string \<Rightarrow> string \<Rightarrow> string \<Rightarrow> string" where
  "registry_ImageRef r imageName tag platformStr buildID = tag_ref r imageName (PushTag tag platformStr buildID)"

definition load_platform ::
  "'i gcr_env \<Rightarrow> string \<Rightarrow> string \<Rightarrow> string \<Rightarrow> string \<Rightarrow> publish_error + string \<times> 'i" where
  "load_platform env distPath imageName tag p =
     (case gcr_load_tar env (TarFilePath distPath imageName tag p) of
        None \<Rightarrow> Inl (LoadTarFailed imageName tag p) | Some i \<Rightarrow> Inr (p, i))"

definition createManifestForTag ::
  "'i gcr_env \<Rightarrow> Registry \<Rightarrow> string \<Rightarrow> string \<Rightarrow> string list \<Rightarrow> string \<Rightarrow> string \<Rightarrow> 'i remote
   \<Rightarrow> publish_error + 'i remote" where
  "createManifestForTag env r imageName tag platforms buildID distPath remote =
     (let targetRef = tag_ref r imageName (WithBuildID tag buildID) in
      if \<not> reg_IsLocal r then
        CreateManifestListFromRefs env targetRef
          (map (\<lambda>p. \<lparr>pf_Ref = registry_ImageRef r imageName tag p buildID, pf_Platform = p\<rparr>) platforms)
          (reg_UseDockerMediaTypes r) remote
      else res_bind (res_map (load_platform env distPath imageName tag) platforms) (\<lambda>images.
        CreateManifestList env targetRef images (reg_UseDockerMediaTypes r) remote))"

text \<open>The arguments the loops share.\<close>

record publish_opts =
  pub_Registry :: Registry
  pub_Project :: ContainerHiveProject
  pub_Filters :: "Filter list"
  pub_BuildID :: string
  pub_DistPath :: string

definition tag_platforms :: "publish_opts \<Rightarrow> Image \<Rightarrow> string list \<Rightarrow> string list" where
  "tag_platforms po img variantPlatforms =
     ResolvePlatforms [] (hc_Platforms (pr_Config (pub_Project po))) (img_Platforms img) variantPlatforms"

definition manifest_if_matching ::
  "'i gcr_env \<Rightarrow> publish_opts \<Rightarrow> Image \<Rightarrow> string \<Rightarrow> string list \<Rightarrow> 'i remote \<Rightarrow> publish_error + 'i remote" where
  "manifest_if_matching env po img tag variantPlatforms remote =
     (if matchesTagFilter (pub_Filters po) (img_Name img) tag then
        createManifestForTag env (pub_Registry po) (img_Name img) tag (tag_platforms po img variantPlatforms)
          (pub_BuildID po) (pub_DistPath po) remote
      else Inr remote)"

definition image_manifests ::
  "'i gcr_env \<Rightarrow> publish_opts \<Rightarrow> 'i remote \<Rightarrow> Image \<Rightarrow> publish_error + 'i remote" where
  "image_manifests env po remote img =
     (if \<not> matchesImageFilter (pub_Filters po) (img_Name img) then Inr remote
      else res_fold (\<lambda>remote tagName.
          res_bind (manifest_if_matching env po img tagName [] remote) (\<lambda>remote.
            res_fold (\<lambda>remote (_, variantDef).
                manifest_if_matching env po img (tagName @ var_TagSuffix variantDef) (var_Platforms variantDef) remote)
              remote (img_Variants img)))
        remote (mkeys (img_Tags img)))"

definition CreateAllManifests ::
  "'i gcr_env \<Rightarrow> publish_opts \<Rightarrow> 'i remote \<Rightarrow> publish_error + 'i remote" where
  "CreateAllManifests env po remote =
     res_fold (\<lambda>remote (_, img). image_manifests env po remote img) remote (pr_ImagesByIdentifier (pub_Project po))"

text \<open>A failing retag is logged and skipped.\<close>

definition retag_one ::
  "'i gcr_env \<Rightarrow> publish_opts \<Rightarrow> string \<Rightarrow> string \<times> string \<Rightarrow> 'i remote \<Rightarrow> 'i remote" where
  "retag_one env po imageName at remote =
     (let (alias, tag) = at in
      if \<not> matchesTagFilter (pub_Filters po) imageName tag then remote
      else
        let sourceRef = tag_ref (pub_Registry po) imageName (WithBuildID tag (pub_BuildID po));
            targetRef = tag_ref (pub_Registry po) imageName (WithBuildID alias (pub_BuildID po)) in
        case Retag env sourceRef targetRef remote of Inl _ \<Rightarrow> remote | Inr remote \<Rightarrow> remote)"

definition retagAliases ::
  "'i gcr_env \<Rightarrow> publish_opts \<Rightarrow> 'i remote \<Rightarrow> Image \<Rightarrow> publish_error + 'i remote" where
  "retagAliases env po remote img =
     (case ResolveAllAliases img of
        Inl err \<Rightarrow> Inl (AliasFailed err)
      | Inr aliases \<Rightarrow> Inr (fold (retag_one env po (img_Name img)) aliases remote))"

definition RetagAllAliases ::
  "'i gcr_env \<Rightarrow> publish_opts \<Rightarrow> 'i remote \<Rightarrow> publish_error + 'i remote" where
  "RetagAllAliases env po remote =
     res_fold (\<lambda>remote (_, img).
         if \<not> matchesImageFilter (pub_Filters po) (img_Name img) then Inr remote
         else retagAliases env po remote img)
       remote (pr_ImagesByIdentifier (pub_Project po))"

section \<open>Publishing what was built\<close>

text \<open>The options of a build and of the publication after it, for the same selection and registry.\<close>

definition same_run :: "publish_opts \<Rightarrow> ProjectBuildOpts \<Rightarrow> bool" where
  "same_run po opts \<longleftrightarrow> po_Registry opts = Some (pub_Registry po) \<and> po_Project opts = pub_Project po
     \<and> po_Filters opts = pub_Filters po \<and> po_BuildID opts = pub_BuildID po \<and> po_CLIPlatforms opts = []"

lemma same_selection:
  assumes "same_run po opts"
  shows "matchesTagFilter (pub_Filters po) name tag = matchesFilters (po_Filters opts) name tag"
    and "tag_platforms po img vp = platforms_of opts img vp"
    and "registry_ImageRef (pub_Registry po) name tag p (pub_BuildID po) = registryRef opts name tag p"
  using assms
  by (simp_all add: same_run_def matchesTagFilter_def matchesFilters_def tag_platforms_def platforms_of_def
      registry_ImageRef_def tag_ref_def registryRef_def po_pushTag_def)

text \<open>
  C20. The manifest list of a selected tag in a remote registry consists of the images its build pushed: one for
  every platform the build was for, in that order, each the one under the
  reference the build pushed to.  No other reference of the registry changes.
\<close>

theorem manifest_collects_builds:
  assumes "same_run po opts" and "\<not> reg_IsLocal (pub_Registry po)"
    and "matchesFilters (po_Filters opts) (img_Name img) tag"
    and "manifest_if_matching env po img tag vp remote = Inr remote'"
  shows "\<exists>adds. list_all2 (\<lambda>p a. fst a = p \<and> image_at env remote (registryRef opts (img_Name img) tag p) = Some (snd a))
        (platforms_of opts img vp) adds
    \<and> remote' = remote(tag_ref (pub_Registry po) (img_Name img) (WithBuildID tag (po_BuildID opts))
        \<mapsto> Index_at adds (reg_UseDockerMediaTypes (pub_Registry po)))"
proof -
  let ?r = "pub_Registry po" and ?n = "img_Name img" and ?b = "pub_BuildID po"
  have b: "po_BuildID opts = ?b" using assms(1) by (simp add: same_run_def)
  have "createManifestForTag env ?r ?n tag (platforms_of opts img vp) ?b (pub_DistPath po) remote = Inr remote'"
    using assms(3,4) unfolding manifest_if_matching_def same_selection[OF assms(1)] by simp
  then obtain adds where adds: "res_map (fetch_image env remote)
        (map (\<lambda>p. \<lparr>pf_Ref = registry_ImageRef ?r ?n tag p ?b, pf_Platform = p\<rparr>) (platforms_of opts img vp)) = Inr adds"
    and w: "write_index env (tag_ref ?r ?n (WithBuildID tag ?b)) adds (reg_UseDockerMediaTypes ?r) remote = Inr remote'"
    using assms(2) by (auto simp: createManifestForTag_def Let_def CreateManifestListFromRefs_def res_bind_Inr_iff split: if_splits)
  have "list_all2 (\<lambda>p a. fst a = p \<and> image_at env remote (registryRef opts ?n tag p) = Some (snd a)) (platforms_of opts img vp) adds"
    using adds unfolding res_map_Inr_iff list.rel_map
    by (rule list.rel_mono_strong)
      (auto simp: fetch_image_def same_selection(3)[OF assms(1)] split: if_splits option.splits)
  moreover have "remote' = remote(tag_ref ?r ?n (WithBuildID tag ?b) \<mapsto> Index_at adds (reg_UseDockerMediaTypes ?r))"
    using w by (simp add: write_index_def split: if_splits)
  ultimately show ?thesis unfolding b by blast
qed

definition open_gcr :: "string gcr_env" where
  "open_gcr = \<lparr>gcr_tag_ok = (\<lambda>_. True), gcr_ref_ok = (\<lambda>_. True), gcr_platform_ok = (\<lambda>_. True), gcr_load_tar = Some,
     gcr_write_ok = (\<lambda>_. True), gcr_retag_ok = (\<lambda>_ _. True), gcr_pick = (\<lambda>_. None)\<rparr>"

definition hub :: Registry where "hub = remote_registry ''docker.io/acme'' None"

definition hub_opts :: ProjectBuildOpts where
  "hub_opts = app_opts\<lparr>po_Registry := Some hub, po_BuildID := ''7''\<rparr>"

definition hub_publish :: publish_opts where
  "hub_publish = \<lparr>pub_Registry = hub, pub_Project = app_project, pub_Filters = [], pub_BuildID = ''7'', pub_DistPath = ''dist''\<rparr>"

definition pushed :: "string remote" where
  "pushed = [''docker.io/acme/base:1.0.linux-amd64-build.7'' \<mapsto> Image_at ''i'']"

lemma hub_manifest:
  "map_sum id (\<lambda>r. r ''docker.io/acme/base:1.0-build.7'')
     (manifest_if_matching open_gcr hub_publish (plain_image ''base'' []) ''1.0'' [] pushed) =
   Inr (Some (Index_at [(''linux/amd64'', ''i'')] True))"
  by code_simp

theorem manifest_collects_builds_witness:
  "image_at open_gcr pushed (registryRef hub_opts ''base'' ''1.0'' ''linux/amd64'') = Some ''i''"
proof -
  obtain r' where r': "manifest_if_matching open_gcr hub_publish (plain_image ''base'' []) ''1.0'' [] pushed = Inr r'"
    and at: "r' ''docker.io/acme/base:1.0-build.7'' = Some (Index_at [(''linux/amd64'', ''i'')] True)"
    using hub_manifest
    by (cases "manifest_if_matching open_gcr hub_publish (plain_image ''base'' []) ''1.0'' [] pushed") auto
  have s: "same_run hub_publish hub_opts" by (simp add: same_run_def hub_publish_def hub_opts_def app_opts_def)
  have l: "\<not> reg_IsLocal (pub_Registry hub_publish)" by (simp add: hub_publish_def hub_def remote_registry_def)
  have n: "img_Name (plain_image ''base'' []) = ''base''" by (simp add: plain_image_def)
  have m: "matchesFilters (po_Filters hub_opts) (img_Name (plain_image ''base'' [])) ''1.0''"
    by (simp add: matchesFilters_def hub_opts_def app_opts_def)
  have t: "tag_ref (pub_Registry hub_publish) ''base'' (WithBuildID ''1.0'' (po_BuildID hub_opts)) = ''docker.io/acme/base:1.0-build.7''"
    "platforms_of hub_opts (plain_image ''base'' []) [] = [''linux/amd64'']"
    by code_simp+
  from manifest_collects_builds[OF s l m r'] at show ?thesis
    by (auto simp: n t list_all2_Cons1)
qed

section \<open>Aliases\<close>

lemma retag_one_other:
  "ref \<noteq> tag_ref (pub_Registry po) name (WithBuildID (fst at) (pub_BuildID po)) \<Longrightarrow>
   retag_one env po name at remote ref = remote ref"
  by (auto simp: retag_one_def Retag_def Let_def split: prod.splits sum.splits option.splits)

lemma retag_fold_other:
  "(\<And>at. at \<in> set as \<Longrightarrow> ref \<noteq> tag_ref (pub_Registry po) name (WithBuildID (fst at) (pub_BuildID po))) \<Longrightarrow>
   fold (retag_one env po name) as remote ref = remote ref"
  by (induction as arbitrary: remote) (simp_all add: retag_one_other)

lemma tag_ref_inject:
  "tag_ref r name (WithBuildID a b) = tag_ref r name (WithBuildID c b) \<longleftrightarrow> a = c"
  by (simp add: tag_ref_def WithBuildID_def)

lemma retag_fold:
  assumes "distinct (map fst as)" and "(alias, tag) \<in> set as" and "tag \<notin> fst ` set as"
    and "matchesTagFilter (pub_Filters po) name tag"
    and "gcr_ref_ok env (tag_ref (pub_Registry po) name (WithBuildID tag (pub_BuildID po)))"
    and "gcr_tag_ok env (tag_ref (pub_Registry po) name (WithBuildID alias (pub_BuildID po)))"
    and "gcr_retag_ok env (tag_ref (pub_Registry po) name (WithBuildID tag (pub_BuildID po)))
           (tag_ref (pub_Registry po) name (WithBuildID alias (pub_BuildID po)))"
    and "remote (tag_ref (pub_Registry po) name (WithBuildID tag (pub_BuildID po))) = Some e"
  shows "fold (retag_one env po name) as remote (tag_ref (pub_Registry po) name (WithBuildID alias (pub_BuildID po))) = Some e"
proof -
  let ?ref = "\<lambda>t. tag_ref (pub_Registry po) name (WithBuildID t (pub_BuildID po))"
  obtain us vs where as: "as = us @ (alias, tag) # vs" using assms(2) by (meson split_list)
  have "fold (retag_one env po name) us remote (?ref tag) = remote (?ref tag)"
    by (rule retag_fold_other) (use assms(3) as in \<open>auto simp: tag_ref_inject\<close>)
  then have src: "fold (retag_one env po name) us remote (?ref tag) = Some e" using assms(8) by simp
  have one: "retag_one env po name (alias, tag) (fold (retag_one env po name) us remote) (?ref alias) = Some e"
    using src assms(4-7) by (simp add: retag_one_def Retag_def)
  have "fold (retag_one env po name) vs m (?ref alias) = m (?ref alias)" for m
    by (rule retag_fold_other) (use assms(1) as in \<open>auto simp: tag_ref_inject image_iff\<close>)
  then show ?thesis using one by (simp add: as)
qed

text \<open>The environment accepts the retag of one alias.\<close>

definition can_retag :: "'i gcr_env \<Rightarrow> publish_opts \<Rightarrow> string \<Rightarrow> string \<Rightarrow> string \<Rightarrow> bool" where
  "can_retag env po name alias tag \<longleftrightarrow>
     (let src = tag_ref (pub_Registry po) name (WithBuildID tag (pub_BuildID po));
          dst = tag_ref (pub_Registry po) name (WithBuildID alias (pub_BuildID po)) in
      gcr_ref_ok env src \<and> gcr_tag_ok env dst \<and> gcr_retag_ok env src dst)"

text \<open>
  C21. After the aliases of an image are tagged, every alias of a selected tag that is not itself an alias
  points at exactly what its tag points at, and every reference that is not an alias is
  untouched; the map of aliases may be iterated over in any order.
\<close>

theorem aliases_point_at_tags:
  assumes "ResolveAllAliases img = Inr aliases" and "wf_map aliases"
    and "retagAliases env po remote img = Inr remote'"
  shows "(\<forall>alias tag e. mget aliases alias = Some tag \<and> mget aliases tag = None
        \<and> matchesTagFilter (pub_Filters po) (img_Name img) tag \<and> can_retag env po (img_Name img) alias tag
        \<and> remote (tag_ref (pub_Registry po) (img_Name img) (WithBuildID tag (pub_BuildID po))) = Some e
        \<longrightarrow> remote' (tag_ref (pub_Registry po) (img_Name img) (WithBuildID alias (pub_BuildID po))) = Some e)
    \<and> (\<forall>ref. (\<forall>alias. mget aliases alias \<noteq> None \<longrightarrow>
            ref \<noteq> tag_ref (pub_Registry po) (img_Name img) (WithBuildID alias (pub_BuildID po)))
        \<longrightarrow> remote' ref = remote ref)"
proof -
  have r: "remote' = fold (retag_one env po (img_Name img)) aliases remote"
    using assms(1,3) by (simp add: retagAliases_def)
  have d: "distinct (map fst aliases)" using assms(2) by (simp add: wf_map_def)
  have dom: "t \<notin> fst ` set aliases \<longleftrightarrow> mget aliases t = None" for t
    by (simp add: map_of_eq_None_iff)
  have "remote' (tag_ref (pub_Registry po) (img_Name img) (WithBuildID al (pub_BuildID po))) = Some e"
    if "mget aliases al = Some tag" "mget aliases tag = None"
      "matchesTagFilter (pub_Filters po) (img_Name img) tag" "can_retag env po (img_Name img) al tag"
      "remote (tag_ref (pub_Registry po) (img_Name img) (WithBuildID tag (pub_BuildID po))) = Some e" for al tag e
    unfolding r by (rule retag_fold[OF d map_of_SomeD[OF that(1)] _ that(3)])
      (use that in \<open>simp_all add: dom can_retag_def Let_def\<close>)
  moreover have "remote' ref = remote ref"
    if "\<forall>alias. mget aliases alias \<noteq> None \<longrightarrow> ref \<noteq> tag_ref (pub_Registry po) (img_Name img) (WithBuildID alias (pub_BuildID po))" for ref
    unfolding r
  proof (rule retag_fold_other)
    fix at assume "at \<in> set aliases"
    then have "mget aliases (fst at) \<noteq> None" using dom[of "fst at"] by blast
    then show "ref \<noteq> tag_ref (pub_Registry po) (img_Name img) (WithBuildID (fst at) (pub_BuildID po))" using that by blast
  qed
  ultimately show ?thesis by blast
qed

definition release_image :: Image where
  "release_image = plain_image ''base'' []\<lparr>img_Tags := [(''1.2.3'', zero_Tag)]\<rparr>"

definition released :: "string remote" where
  "released = [''docker.io/acme/base:1.2.3-build.7'' \<mapsto> Image_at ''i'']"

lemma release_aliases:
  "map_sum id mkeys (ResolveAllAliases release_image) = Inr (mkeys (projr (ResolveAllAliases release_image)))
   \<and> mget (projr (ResolveAllAliases release_image)) ''1.2'' = Some ''1.2.3''
   \<and> mget (projr (ResolveAllAliases release_image)) ''1.2.3'' = None
   \<and> distinct (mkeys (projr (ResolveAllAliases release_image)))"
  by code_simp

theorem aliases_point_at_tags_witness:
  "\<exists>r. retagAliases open_gcr hub_publish released release_image = Inr r \<and> r ''docker.io/acme/base:1.2-build.7'' = Some (Image_at ''i'')"
proof -
  obtain as where as: "ResolveAllAliases release_image = Inr as" using release_aliases by (cases "ResolveAllAliases release_image") auto
  then have wf: "wf_map as" and g: "mget as ''1.2'' = Some ''1.2.3''" "mget as ''1.2.3'' = None"
    using release_aliases by (simp_all add: wf_map_def mkeys_def)
  obtain r where r: "retagAliases open_gcr hub_publish released release_image = Inr r"
    by (simp add: retagAliases_def as)
  have n: "img_Name release_image = ''base''" by (simp add: release_image_def plain_image_def)
  have t: "tag_ref (pub_Registry hub_publish) ''base'' (WithBuildID ''1.2'' (pub_BuildID hub_publish)) = ''docker.io/acme/base:1.2-build.7''"
    "tag_ref (pub_Registry hub_publish) ''base'' (WithBuildID ''1.2.3'' (pub_BuildID hub_publish)) = ''docker.io/acme/base:1.2.3-build.7''"
    by code_simp+
  have m: "matchesTagFilter (pub_Filters hub_publish) ''base'' ''1.2.3''" by (simp add: matchesTagFilter_def hub_publish_def)
  have c: "can_retag open_gcr hub_publish ''base'' ''1.2'' ''1.2.3''" by (simp add: can_retag_def open_gcr_def Let_def)
  have "r (tag_ref (pub_Registry hub_publish) ''base'' (WithBuildID ''1.2'' (pub_BuildID hub_publish))) = Some (Image_at ''i'')"
    by (rule aliases_point_at_tags[OF as wf r, THEN conjunct1, rule_format, of "''1.2''" "''1.2.3''", unfolded n])
      (simp add: g m c t released_def)
  then show ?thesis using r by (simp add: t)
qed

end
