(* ===== verification/Go_Files.thy ===== *)
theory Go_Files
  imports Go_Paths
begin

text \<open>
  The calls of Go's package \<open>os\<close> the sources make, on an explicit file system: a map from resolved paths to
  files and directories.  A path resolves to its cleaned elements, so spellings of one path agree; a
  relative and an absolute name never meet, and there are no links.  The process may read and write
  everything, so calls fail only for what is there: a missing element, a file used as a directory, a directory
  used as a file.  \<open>umask\<close> maps the permissions asked for a new file to those it gets.
\<close>

section \<open>Paths and nodes\<close>

datatype fnode = RegularFile (fn_data: string) (fn_perm: nat) | Directory (fn_perm: nat)

type_synonym fpath = "bool \<times> string list"
type_synonym filesys = "(fpath, fnode) gomap"

datatype os_error = ENOENT string | ENOTDIR string | EISDIR string

definition path_key :: "string \<Rightarrow> fpath" where
  "path_key p = (is_abs p, clean_elems p)"

definition under :: "fpath \<Rightarrow> fpath \<Rightarrow> bool" where
  "under d k \<longleftrightarrow> fst d = fst k \<and> prefix (snd d) (snd k)"

definition child :: "fpath \<Rightarrow> string \<Rightarrow> fpath" where
  "child k n = (fst k, snd k @ [n])"

text \<open>The directories above a path, outermost first.\<close>

definition parents :: "fpath \<Rightarrow> fpath list" where
  "parents k = map (Pair (fst k)) (butlast (prefixes (snd k)))"

text \<open>The root and the working directory are always there.\<close>

definition fs_node :: "filesys \<Rightarrow> fpath \<Rightarrow> fnode option" where
  "fs_node fs k = (if snd k = [] then Some (Directory 493) else mget fs k)"

definition is_dir :: "fnode option \<Rightarrow> bool" where
  "is_dir n = (case n of Some (Directory _) \<Rightarrow> True | _ \<Rightarrow> False)"

definition is_file :: "fnode option \<Rightarrow> bool" where
  "is_file n = (case n of Some (RegularFile _ _) \<Rightarrow> True | _ \<Rightarrow> False)"

section \<open>Calls\<close>

definition parent_error :: "filesys \<Rightarrow> string \<Rightarrow> os_error option" where
  "parent_error fs p =
     (if p = [] then Some (ENOENT p)
      else case find (\<lambda>q. \<not> is_dir (fs_node fs q)) (parents (path_key p)) of
        None \<Rightarrow> None
      | Some q \<Rightarrow> Some (if fs_node fs q = None then ENOENT p else ENOTDIR p))"

definition os_Stat :: "filesys \<Rightarrow> string \<Rightarrow> os_error + fnode" where
  "os_Stat fs p =
     (case parent_error fs p of
        Some e \<Rightarrow> Inl e
      | None \<Rightarrow> (case fs_node fs (path_key p) of None \<Rightarrow> Inl (ENOENT p) | Some n \<Rightarrow> Inr n))"

definition os_ReadFile :: "filesys \<Rightarrow> string \<Rightarrow> os_error + string" where
  "os_ReadFile fs p =
     (case os_Stat fs p of
        Inl e \<Rightarrow> Inl e
      | Inr (Directory _) \<Rightarrow> Inl (EISDIR p)
      | Inr (RegularFile data _) \<Rightarrow> Inr data)"

text \<open>A new file gets the permissions asked for, less the umask; an existing one keeps its own.\<close>

definition os_WriteFile :: "(nat \<Rightarrow> nat) \<Rightarrow> string \<Rightarrow> string \<Rightarrow> nat \<Rightarrow> filesys \<Rightarrow> os_error option \<times> filesys" where
  "os_WriteFile umask p data perm fs =
     (case parent_error fs p of
        Some e \<Rightarrow> (Some e, fs)
      | None \<Rightarrow>
          (case fs_node fs (path_key p) of
             Some (Directory _) \<Rightarrow> (Some (EISDIR p), fs)
           | Some (RegularFile _ old) \<Rightarrow> (None, mput (path_key p) (RegularFile data old) fs)
           | None \<Rightarrow> (None, mput (path_key p) (RegularFile data (umask perm)) fs)))"

definition os_Create :: "(nat \<Rightarrow> nat) \<Rightarrow> string \<Rightarrow> filesys \<Rightarrow> os_error option \<times> filesys" where
  "os_Create umask p fs = os_WriteFile umask p [] 438 fs"

definition os_Chmod :: "string \<Rightarrow> nat \<Rightarrow> filesys \<Rightarrow> os_error option \<times> filesys" where
  "os_Chmod p perm fs =
     (case os_Stat fs p of
        Inl e \<Rightarrow> (Some e, fs)
      | Inr (Directory _) \<Rightarrow> (None, mput (path_key p) (Directory perm) fs)
      | Inr (RegularFile data _) \<Rightarrow> (None, mput (path_key p) (RegularFile data perm) fs))"

text \<open>\<open>MkdirAll\<close>: every missing directory down to the path is made; what was made before an error stays.\<close>

fun mkdir_from :: "string \<Rightarrow> nat \<Rightarrow> fpath list \<Rightarrow> filesys \<Rightarrow> os_error option \<times> filesys" where
  "mkdir_from p perm [] fs = (None, fs)"
| "mkdir_from p perm (k # ks) fs =
     (case fs_node fs k of
        None \<Rightarrow> mkdir_from p perm ks (mput k (Directory perm) fs)
      | Some (Directory _) \<Rightarrow> mkdir_from p perm ks fs
      | Some (RegularFile _ _) \<Rightarrow> (Some (ENOTDIR p), fs))"

definition os_MkdirAll :: "(nat \<Rightarrow> nat) \<Rightarrow> string \<Rightarrow> nat \<Rightarrow> filesys \<Rightarrow> os_error option \<times> filesys" where
  "os_MkdirAll umask p perm fs =
     (if p = [] then (Some (ENOENT p), fs)
      else mkdir_from p (umask perm) (parents (path_key p) @ [path_key p]) fs)"

text \<open>\<open>RemoveAll\<close> refuses a path that ends in a dot element.\<close>

definition os_RemoveAll :: "string \<Rightarrow> filesys \<Rightarrow> filesys" where
  "os_RemoveAll p fs =
     (if p = [] \<or> p = ''.'' \<or> go_has_suffix p ''/.'' then fs
      else filter (\<lambda>kn. \<not> under (path_key p) (fst kn)) fs)"

text \<open>The entries of a directory in the order of their names, and which of them are directories.\<close>

definition dir_names :: "filesys \<Rightarrow> fpath \<Rightarrow> string list" where
  "dir_names fs k =
     sorted_set (filter plain_name (map (\<lambda>q. last (snd q))
       (filter (\<lambda>q. snd q \<noteq> [] \<and> fst q = fst k \<and> butlast (snd q) = snd k) (mkeys fs))))"

definition os_ReadDir :: "filesys \<Rightarrow> string \<Rightarrow> os_error + (string \<times> bool) list" where
  "os_ReadDir fs p =
     (case os_Stat fs p of
        Inl e \<Rightarrow> Inl e
      | Inr (RegularFile _ _) \<Rightarrow> Inl (ENOTDIR p)
      | Inr (Directory _) \<Rightarrow>
          Inr (map (\<lambda>n. (n, is_dir (fs_node fs (child (path_key p) n)))) (dir_names fs (path_key p))))"

section \<open>Resolved paths\<close>

lemma under_refl [simp]: "under k k"
  by (simp add: under_def)

lemma under_trans: "under a b \<Longrightarrow> under b c \<Longrightarrow> under a c"
  by (auto simp: under_def)

lemma under_child [simp]: "under k (child k n)"
  by (simp add: under_def child_def)

lemma set_butlast_prefixes: "set (butlast (prefixes xs)) = {ys. prefix ys xs \<and> ys \<noteq> xs}"
proof (cases xs rule: rev_cases)
  case (snoc zs z)
  then show ?thesis by (auto simp: prefixes_snoc)
qed simp

lemma parents_iff: "q \<in> set (parents k) \<longleftrightarrow> under q k \<and> q \<noteq> k"
  unfolding parents_def set_map set_butlast_prefixes by (cases q; cases k) (auto simp: under_def)

lemma fs_node_mput:
  "snd k \<noteq> [] \<Longrightarrow> fs_node (mput k n fs) q = (if q = k then Some n else fs_node fs q)"
  by (simp add: fs_node_def)

lemma fs_node_root: "snd k = [] \<Longrightarrow> is_dir (fs_node fs k) \<and> \<not> is_file (fs_node fs k)"
  by (simp add: fs_node_def is_dir_def is_file_def)

lemma node_kinds [simp]:
  "is_file (Some (RegularFile d m))" "\<not> is_file (Some (Directory m))" "\<not> is_file None"
  "is_dir (Some (Directory m))" "\<not> is_dir (Some (RegularFile d m))" "\<not> is_dir None"
  by (simp_all add: is_file_def is_dir_def)

lemma is_dir_iff: "is_dir n \<longleftrightarrow> (\<exists>m. n = Some (Directory m))"
  by (auto simp: is_dir_def split: option.splits fnode.splits)

lemma is_file_iff: "is_file n \<longleftrightarrow> (\<exists>d m. n = Some (RegularFile d m))"
  by (auto simp: is_file_def split: option.splits fnode.splits)

section \<open>Joining and resolving\<close>

text \<open>Cleaned elements: some \<open>..\<close> in front of a relative path, then plain names.\<close>

definition canonical :: "bool \<Rightarrow> string list \<Rightarrow> bool" where
  "canonical r es \<longleftrightarrow> (\<exists>n qs. es = replicate n ''..'' @ qs \<and> list_all plain_name qs \<and> (r \<longrightarrow> n = 0))"

lemma canonical_step:
  assumes "canonical r es" and "slash \<notin> set e"
  shows "canonical r (clean_step r es e)"
proof -
  from assms(1) obtain n qs where es: "es = replicate n ''..'' @ qs" "list_all plain_name qs" "r \<longrightarrow> n = 0"
    by (auto simp: canonical_def)
  consider "e = [] \<or> e = ''.''" | "e = ''..''" "qs = []" | "e = ''..''" "qs \<noteq> []" | "plain_name e"
    using assms(2) by (auto simp: plain_name_def)
  then show ?thesis
  proof cases
    case 1
    then show ?thesis using assms(1) by (simp add: clean_step_def)
  next
    case 2
    show ?thesis
    proof (cases r)
      case True
      then show ?thesis using 2 es assms(1) by (simp add: clean_step_def)
    next
      case False
      have "clean_step r es e = replicate (Suc n) ''..'' @ []"
        using 2 es False by (cases n) (simp_all add: clean_step_def replicate_append_same)
      then show ?thesis using False by (auto simp: canonical_def intro!: exI[of _ "Suc n"] exI[of _ "[]"])
    qed
  next
    case 3
    have "last qs \<noteq> ''..''" using 3 es(2) by (auto simp: list_all_iff plain_name_def dest: last_in_set)
    then have "clean_step r es e = replicate n ''..'' @ butlast qs"
      using 3 es(1) by (simp add: clean_step_def butlast_append)
    then show ?thesis
      using es(2,3) unfolding canonical_def
      by (intro exI[of _ n] exI[of _ "butlast qs"]) (auto simp: list_all_iff dest: in_set_butlastD)
  next
    case 4
    then have "clean_step r es e = replicate n ''..'' @ qs @ [e]"
      using es(1) by (simp add: clean_step_def plain_name_def)
    then show ?thesis
      using es(2,3) 4 unfolding canonical_def by (intro exI[of _ n] exI[of _ "qs @ [e]"]) simp
  qed
qed

lemma canonical_clean: "canonical (is_abs p) (clean_elems p)"
proof -
  have "list_all (\<lambda>e. slash \<notin> set e) xs \<Longrightarrow> canonical r es \<Longrightarrow> canonical r (foldl (clean_step r) es xs)" for r xs es
    by (induction xs arbitrary: es) (auto intro: canonical_step)
  moreover have "canonical r []" for r by (auto simp: canonical_def)
  ultimately show ?thesis
    unfolding clean_elems_def using go_split_no_sep by (simp add: list_all_iff)
qed

lemma canonical_append: "canonical r es \<Longrightarrow> list_all plain_name qs \<Longrightarrow> canonical r (es @ qs)"
proof -
  assume "canonical r es" and qs: "list_all plain_name qs"
  then obtain n ps where "es @ qs = replicate n ''..'' @ (ps @ qs)" "list_all plain_name (ps @ qs)" "r \<longrightarrow> n = 0"
    unfolding canonical_def by auto
  then show ?thesis unfolding canonical_def by blast
qed

lemma canonical_no_slash:
  assumes "canonical r es" and "e \<in> set es"
  shows "e \<noteq> [] \<and> e \<noteq> ''.'' \<and> slash \<notin> set e"
proof -
  from assms(1) obtain n qs where es: "es = replicate n ''..'' @ qs" "list_all plain_name qs"
    unfolding canonical_def by blast
  then have "e = ''..'' \<or> plain_name e" using assms(2) by (auto simp: list_all_iff)
  then show ?thesis unfolding plain_name_def slash_def by fastforce
qed

lemma clean_canonical:
  assumes "canonical r es"
  shows "foldl (clean_step r) [] es = es"
proof -
  from assms obtain n qs where es: "es = replicate n ''..'' @ qs" "list_all plain_name qs" "r \<longrightarrow> n = 0"
    by (auto simp: canonical_def)
  have "r \<longrightarrow> n = 0 \<Longrightarrow> foldl (clean_step r) [] (replicate n ''..'') = replicate n ''..''"
  proof (induction n)
    case (Suc n)
    have snoc: "replicate (Suc n) ''..'' = replicate n ''..'' @ [''..'']" by (simp add: replicate_append_same)
    have "foldl (clean_step r) [] (replicate (Suc n) ''..'') = clean_step r (replicate n ''..'') ''..''"
      unfolding snoc foldl_append using Suc by simp
    also have "\<dots> = replicate n ''..'' @ [''..'']"
      using Suc.prems by (cases n) (simp_all add: clean_step_def)
    finally show ?case unfolding snoc .
  qed simp
  then show ?thesis using es by (simp add: clean_plain)
qed

lemma path_key_path_of:
  assumes "canonical r es"
  shows "path_key (path_of r es) = (r, es)"
proof (cases "es = []")
  case True
  then show ?thesis
    by (cases r)
       (simp_all add: path_key_def path_of_def is_abs_def go_has_prefix_def clean_elems_def clean_step_def slash_def)
next
  case False
  have ns: "\<And>e. e \<in> set es \<Longrightarrow> slash \<notin> set e" using canonical_no_slash[OF assms] by blast
  have split: "go_split slash (go_join ''/'' es) = es"
    using go_split_join[of es slash] False ns by (simp add: list_all_iff slash_def)
  have hd: "hd es \<noteq> []" "slash \<notin> set (hd es)" using canonical_no_slash[OF assms, of "hd es"] False by simp_all
  have y: "es = hd es # tl es" "hd es \<noteq> []" "hd (hd es) \<noteq> slash"
    using hd False hd_in_set[of "hd es"] by (simp, simp, metis)
  obtain c cs where c: "hd es = c # cs" using hd(1) by (cases "hd es") auto
  have rel: "\<not> is_abs (go_join ''/'' es)"
    using y c by (cases "tl es"; subst y(1)) (simp_all add: is_abs_def go_has_prefix_def slash_def)
  show ?thesis
  proof (cases r)
    case True
    have "go_split slash (''/'' @ go_join ''/'' es) = [] # es"
      using go_split_append[of slash "[]" "go_join ''/'' es"] split by (simp add: slash_def)
    then show ?thesis
      using True clean_canonical[OF assms]
      by (simp add: path_key_def path_of_def is_abs_def go_has_prefix_def clean_elems_def clean_step_def)
  next
    case False
    then show ?thesis
      using rel split clean_canonical[OF assms] \<open>es \<noteq> []\<close>
      by (simp add: path_key_def path_of_def clean_elems_def)
  qed
qed

lemma path_key_join:
  assumes "es \<noteq> []" and "list_all plain_name es"
  shows "path_key (go_path_join (d # es)) = (is_abs d, clean_elems d @ es)"
  using assms by (simp add: path_join_plain path_key_path_of canonical_append canonical_clean)

lemma path_key_child: "plain_name n \<Longrightarrow> path_key (go_path_join [d, n]) = child (path_key d) n"
  using path_key_join[of "[n]" d] by (simp add: child_def path_key_def)

lemma join_join:
  assumes "list_all plain_name (xs @ ys)" and "xs \<noteq> []" and "ys \<noteq> []"
  shows "go_path_join (go_path_join (d # xs) # ys) = go_path_join (d # xs @ ys)"
proof -
  have "path_key (go_path_join (d # xs)) = (is_abs d, clean_elems d @ xs)"
    using assms by (intro path_key_join) simp_all
  then have "is_abs (go_path_join (d # xs)) = is_abs d" "clean_elems (go_path_join (d # xs)) = clean_elems d @ xs"
    by (simp_all add: path_key_def)
  then show ?thesis using assms by (simp add: path_join_plain[of ys] path_join_plain[of "xs @ ys"])
qed

section \<open>What calls change\<close>

text \<open>
  The interface for facts about whole runs of calls: a reflexive and transitive relation between file systems that
  holds when a file is written in some area and when a missing directory is made in, or above, some larger one.
\<close>

definition writes :: "fpath \<Rightarrow> filesys \<Rightarrow> filesys \<Rightarrow> bool" where
  "writes k fs fs' \<longleftrightarrow> snd k \<noteq> [] \<and> \<not> is_dir (fs_node fs k) \<and> is_file (fs_node fs' k)
     \<and> (\<forall>q. q \<noteq> k \<longrightarrow> fs_node fs' q = fs_node fs q)"

definition makes_dir :: "fpath \<Rightarrow> filesys \<Rightarrow> filesys \<Rightarrow> bool" where
  "makes_dir k fs fs' \<longleftrightarrow> fs_node fs k = None \<and> is_dir (fs_node fs' k)
     \<and> (\<forall>q. q \<noteq> k \<longrightarrow> fs_node fs' q = fs_node fs q)"

lemma writesD:
  assumes "writes k fs fs'"
  shows "snd k \<noteq> []" and "\<not> is_dir (fs_node fs k)" and "is_file (fs_node fs' k)"
    and "q \<noteq> k \<Longrightarrow> fs_node fs' q = fs_node fs q"
  using assms unfolding writes_def by blast+

lemma makes_dirD:
  assumes "makes_dir k fs fs'"
  shows "fs_node fs k = None" and "is_dir (fs_node fs' k)" and "q \<noteq> k \<Longrightarrow> fs_node fs' q = fs_node fs q"
  using assms unfolding makes_dir_def by blast+

locale disk_change =
  fixes R :: "filesys \<Rightarrow> filesys \<Rightarrow> bool" and area :: "fpath \<Rightarrow> bool" and dir_area :: "fpath \<Rightarrow> bool"
  assumes R_refl: "R fs fs"
    and R_trans: "R fs1 fs2 \<Longrightarrow> R fs2 fs3 \<Longrightarrow> R fs1 fs3"
    and R_file: "area k \<Longrightarrow> writes k fs fs' \<Longrightarrow> R fs fs'"
    and R_dir: "dir_area q \<Longrightarrow> under k q \<Longrightarrow> makes_dir k fs fs' \<Longrightarrow> R fs fs'"
    and area_child: "area k \<Longrightarrow> area (child k n)"
    and area_dir: "area k \<Longrightarrow> dir_area k"
begin

lemma mkdir_from_R:
  "mkdir_from p perm ks fs = (e, fs') \<Longrightarrow> dir_area q \<Longrightarrow> list_all (\<lambda>k. under k q) ks \<Longrightarrow> R fs fs'"
proof (induction ks arbitrary: fs)
  case (Cons k ks)
  show ?case
  proof (cases "fs_node fs k")
    case None
    then have "makes_dir k fs (mput k (Directory perm) fs)"
      by (auto simp: makes_dir_def fs_node_def split: if_splits)
    moreover have "R (mput k (Directory perm) fs) fs'" using Cons None by simp
    ultimately show ?thesis using Cons.prems(2,3) by (auto intro: R_dir R_trans)
  next
    case (Some n)
    then show ?thesis using Cons by (cases n) (auto intro: R_refl)
  qed
qed (simp add: R_refl)

lemma MkdirAll_R:
  assumes "os_MkdirAll umask p perm fs = (e, fs')" and "dir_area (path_key p)"
  shows "R fs fs'"
proof (cases "p = []")
  case False
  have "list_all (\<lambda>k. under k (path_key p)) (parents (path_key p) @ [path_key p])"
    using parents_iff by (auto simp: list_all_iff)
  then show ?thesis
    using assms False mkdir_from_R by (simp add: os_MkdirAll_def)
qed (use assms in \<open>simp add: os_MkdirAll_def R_refl\<close>)

lemma WriteFile_R:
  assumes "os_WriteFile umask p data perm fs = (e, fs')" and "area (path_key p)"
  shows "R fs fs'"
proof (cases "parent_error fs p = None \<and> \<not> is_dir (fs_node fs (path_key p))")
  case True
  then have ne: "snd (path_key p) \<noteq> []" using fs_node_root by blast
  then have "writes (path_key p) fs fs'"
    using True assms(1) unfolding os_WriteFile_def writes_def
    by (auto simp: fs_node_mput split: option.splits fnode.splits)
  then show ?thesis using assms(2) by (rule R_file[rotated])
next
  case False
  then have "fs' = fs"
    using assms(1) by (auto simp: os_WriteFile_def is_dir_iff split: option.splits fnode.splits)
  then show ?thesis by (simp add: R_refl)
qed

lemma Create_R: "os_Create umask p fs = (e, fs') \<Longrightarrow> area (path_key p) \<Longrightarrow> R fs fs'"
  unfolding os_Create_def by (rule WriteFile_R)

lemma Chmod_file_R:
  assumes "os_Chmod p perm fs = (e, fs')" and "area (path_key p)" and "\<not> is_dir (fs_node fs (path_key p))"
  shows "R fs fs'"
proof (cases "os_Stat fs p")
  case (Inr n)
  then have node: "fs_node fs (path_key p) = Some n" by (auto simp: os_Stat_def split: option.splits)
  have ne: "snd (path_key p) \<noteq> []" using assms(3) fs_node_root by blast
  have "writes (path_key p) fs fs'"
    using assms(1,3) Inr node ne by (cases n) (auto simp: os_Chmod_def writes_def fs_node_mput)
  then show ?thesis using assms(2) by (rule R_file[rotated])
qed (use assms(1) in \<open>simp add: os_Chmod_def R_refl\<close>)

end

text \<open>Files stay files: nothing is removed or turned into a directory.\<close>

definition keeps_files :: "filesys \<Rightarrow> filesys \<Rightarrow> bool" where
  "keeps_files fs fs' \<longleftrightarrow> (\<forall>k. (is_file (fs_node fs k) \<longrightarrow> is_file (fs_node fs' k))
     \<and> (is_dir (fs_node fs k) \<longrightarrow> is_dir (fs_node fs' k)))"

interpretation kept: disk_change keeps_files "\<lambda>_. True" "\<lambda>_. True"
proof
  show "keeps_files fs fs'" if "writes k fs fs'" for k fs fs'
    unfolding keeps_files_def
  proof
    fix q
    show "(is_file (fs_node fs q) \<longrightarrow> is_file (fs_node fs' q)) \<and> (is_dir (fs_node fs q) \<longrightarrow> is_dir (fs_node fs' q))"
      using writesD[OF that] by (cases "q = k") auto
  qed
  show "keeps_files fs fs'" if "makes_dir k fs fs'" for k fs fs'
    unfolding keeps_files_def
  proof
    fix q
    show "(is_file (fs_node fs q) \<longrightarrow> is_file (fs_node fs' q)) \<and> (is_dir (fs_node fs q) \<longrightarrow> is_dir (fs_node fs' q))"
      using makes_dirD[OF that] by (cases "q = k") auto
  qed
qed (auto simp: keeps_files_def)

text \<open>Outside a directory nothing changes, but the missing directories above it may be made.\<close>

definition outside :: "fpath \<Rightarrow> filesys \<Rightarrow> filesys \<Rightarrow> bool" where
  "outside d fs fs' \<longleftrightarrow> (\<forall>k. \<not> under d k \<longrightarrow>
     fs_node fs' k = fs_node fs k \<or> fs_node fs k = None \<and> is_dir (fs_node fs' k) \<and> under k d)"

lemma under_linear: "under a c \<Longrightarrow> under b c \<Longrightarrow> under a b \<or> under b a"
  by (auto simp: under_def dest: prefix_same_cases)

lemma outside_trans: "outside d fs1 fs2 \<Longrightarrow> outside d fs2 fs3 \<Longrightarrow> outside d fs1 fs3"
  unfolding outside_def by (metis is_dir_def option.simps(4) option.distinct(1))

interpretation elsewhere: disk_change "outside d" "under d" "under d" for d
proof
  show "outside d fs fs'" if "under d k" "writes k fs fs'" for k fs fs'
    unfolding outside_def
  proof (intro allI impI)
    fix q
    assume "\<not> under d q"
    then have "q \<noteq> k" using that(1) by blast
    then show "fs_node fs' q = fs_node fs q \<or> fs_node fs q = None \<and> is_dir (fs_node fs' q) \<and> under q d"
      using writesD(4)[OF that(2)] by simp
  qed
  show "outside d fs fs'" if "under d q" "under k q" "makes_dir k fs fs'" for q k fs fs'
    unfolding outside_def
  proof (intro allI impI)
    fix p
    assume "\<not> under d p"
    then show "fs_node fs' p = fs_node fs p \<or> fs_node fs p = None \<and> is_dir (fs_node fs' p) \<and> under p d"
      using makes_dirD[OF that(3)] under_linear[OF that(1,2)] by (cases "p = k") auto
  qed
  show "under d (child k n)" if "under d k" for k n
    using that under_child by (rule under_trans)
  show "outside d fs1 fs3" if "outside d fs1 fs2" "outside d fs2 fs3" for fs1 fs2 fs3
    using that by (rule outside_trans)
qed (simp add: outside_def)

lemma outside_file:
  "outside d fs fs' \<Longrightarrow> \<not> under d k \<Longrightarrow> is_file (fs_node fs k) \<Longrightarrow> fs_node fs' k = fs_node fs k"
  unfolding outside_def by (metis node_kinds(3))

text \<open>A file that nothing written to is at, or above, is untouched.\<close>

definition untouched :: "fpath \<Rightarrow> filesys \<Rightarrow> filesys \<Rightarrow> bool" where
  "untouched k fs fs' \<longleftrightarrow> (is_file (fs_node fs k) \<longrightarrow> fs_node fs' k = fs_node fs k)"

interpretation apart: disk_change "untouched k" "\<lambda>q. \<not> under q k" "\<lambda>_. True" for k
proof
  show "untouched k fs fs'" if "\<not> under q k" "writes q fs fs'" for q fs fs'
  proof -
    have "k \<noteq> q" using that(1) by auto
    then show ?thesis using writesD(4)[OF that(2)] by (simp add: untouched_def)
  qed
  show "untouched k fs fs'" if "makes_dir q fs fs'" for q fs fs'
    using makes_dirD[OF that] by (cases "k = q") (simp_all add: untouched_def)
  show "\<not> under (child q n) k" if "\<not> under q k" for q n
    using that under_child under_trans by blast
qed (auto simp: untouched_def)

end
