(* ===== verification/Disk_Copy.thy ===== *)
theory Disk_Copy
  imports Go_Files
begin

text \<open>
  Copying files and directory trees, \<open>pkg/rendering/rootfs.go\<close>.  The recursion of \<open>copyDir\<close> is a list of pending
  entries, processed in the order the recursion visits them.  It may run forever when the target lies inside the source, so
  \<open>copy_work\<close> is a partial function; the theorem here is that it ends, and what it leaves, when the two are apart.
\<close>

section \<open>Copying\<close>

text \<open>
  Open the source, create the target, copy, and give the target the source's permissions.  The source is read after
  the target was truncated.
\<close>

definition copyFile :: "(nat \<Rightarrow> nat) \<Rightarrow> string \<Rightarrow> string \<Rightarrow> filesys \<Rightarrow> os_error option \<times> filesys" where
  "copyFile umask src dst fs =
     (case os_Stat fs src of
        Inl e \<Rightarrow> (Some e, fs)
      | Inr _ \<Rightarrow>
          (case os_Create umask dst fs of
             (Some e, fs) \<Rightarrow> (Some e, fs)
           | (None, fs) \<Rightarrow>
               (case os_ReadFile fs src of
                  Inl e \<Rightarrow> (Some e, fs)
                | Inr data \<Rightarrow>
                    (case os_WriteFile umask dst data 438 fs of
                       (Some e, fs) \<Rightarrow> (Some e, fs)
                     | (None, fs) \<Rightarrow>
                         (case os_Stat fs src of
                            Inl e \<Rightarrow> (Some e, fs)
                          | Inr srcInfo \<Rightarrow> os_Chmod dst (fn_perm srcInfo) fs)))))"

definition open_dir ::
  "(nat \<Rightarrow> nat) \<Rightarrow> string \<Rightarrow> string \<Rightarrow> filesys \<Rightarrow> (os_error + (string \<times> bool) list) \<times> filesys" where
  "open_dir umask src dst fs =
     (case os_Stat fs src of
        Inl e \<Rightarrow> (Inl e, fs)
      | Inr srcInfo \<Rightarrow>
          (case os_MkdirAll umask dst (fn_perm srcInfo) fs of
             (Some e, fs) \<Rightarrow> (Inl e, fs)
           | (None, fs) \<Rightarrow> (os_ReadDir fs src, fs)))"

definition entry_paths :: "string \<Rightarrow> string \<Rightarrow> (string \<times> bool) list \<Rightarrow> (string \<times> string \<times> bool) list" where
  "entry_paths src dst entries = map (\<lambda>(n, isdir). (go_path_join [src, n], go_path_join [dst, n], isdir)) entries"

partial_function (option) copy_work ::
  "(nat \<Rightarrow> nat) \<Rightarrow> (string \<times> string \<times> bool) list \<Rightarrow> filesys \<Rightarrow> (os_error option \<times> filesys) option" where
  "copy_work umask ws fs =
     (case ws of
        [] \<Rightarrow> Some (None, fs)
      | (src, dst, isdir) # ws \<Rightarrow>
          (if isdir then
             (case open_dir umask src dst fs of
                (Inl e, fs) \<Rightarrow> Some (Some e, fs)
              | (Inr entries, fs) \<Rightarrow> copy_work umask (entry_paths src dst entries @ ws) fs)
           else
             (case copyFile umask src dst fs of
                (Some e, fs) \<Rightarrow> Some (Some e, fs)
              | (None, fs) \<Rightarrow> copy_work umask ws fs)))"

declare copy_work.simps [code]

definition copyDir :: "(nat \<Rightarrow> nat) \<Rightarrow> string \<Rightarrow> string \<Rightarrow> filesys \<Rightarrow> (os_error option \<times> filesys) option" where
  "copyDir umask src dst fs = copy_work umask [(src, dst, True)] fs"

lemma copy_work_Nil [simp]: "copy_work umask [] fs = Some (None, fs)"
  by (simp add: copy_work.simps)

lemma copy_work_dir:
  "copy_work umask ((src, dst, True) # ws) fs =
     (case open_dir umask src dst fs of
        (Inl e, fs) \<Rightarrow> Some (Some e, fs)
      | (Inr entries, fs) \<Rightarrow> copy_work umask (entry_paths src dst entries @ ws) fs)"
  by (subst copy_work.simps) simp

lemma copy_work_file:
  "copy_work umask ((src, dst, False) # ws) fs =
     (case copyFile umask src dst fs of (Some e, fs) \<Rightarrow> Some (Some e, fs) | (None, fs) \<Rightarrow> copy_work umask ws fs)"
  by (subst copy_work.simps) simp

section \<open>Single calls\<close>

lemma Stat_node: "os_Stat fs p = Inr n \<Longrightarrow> fs_node fs (path_key p) = Some n"
  by (auto simp: os_Stat_def split: option.splits)

lemma ReadFile_node: "os_ReadFile fs p = Inr data \<Longrightarrow> \<exists>m. fs_node fs (path_key p) = Some (RegularFile data m)"
  by (auto simp: os_ReadFile_def split: sum.splits fnode.splits dest: Stat_node)

lemma WriteFile_ok:
  assumes "os_WriteFile umask p data perm fs = (None, fs')"
  shows "writes (path_key p) fs fs'" and "\<exists>m. fs_node fs' (path_key p) = Some (RegularFile data m)"
proof -
  have nd: "\<not> is_dir (fs_node fs (path_key p))"
    using assms by (auto simp: os_WriteFile_def is_dir_iff split: option.splits)
  then have ne: "snd (path_key p) \<noteq> []" using fs_node_root by blast
  have "\<exists>m. fs' = mput (path_key p) (RegularFile data m) fs"
    using assms by (auto simp: os_WriteFile_def split: option.splits fnode.splits)
  then show "writes (path_key p) fs fs'" "\<exists>m. fs_node fs' (path_key p) = Some (RegularFile data m)"
    using nd ne by (auto simp: writes_def fs_node_mput)
qed

lemma WriteFile_node:
  assumes "os_WriteFile umask p data perm fs = (e, fs')"
  shows "fs' = fs \<or> (\<exists>perm'. \<forall>k. fs_node fs' k = (if k = path_key p then Some (RegularFile data perm') else fs_node fs k))"
proof (cases "parent_error fs p = None \<and> \<not> is_dir (fs_node fs (path_key p))")
  case True
  then have "snd (path_key p) \<noteq> []" using fs_node_root by blast
  then show ?thesis using True assms unfolding os_WriteFile_def by (auto simp: fs_node_mput split: option.splits fnode.splits)
next
  case False
  then show ?thesis using assms by (auto simp: os_WriteFile_def is_dir_iff split: option.splits fnode.splits)
qed

lemma WriteFile_elsewhere: "os_WriteFile umask p data perm fs = (e, fs') \<Longrightarrow> k \<noteq> path_key p \<Longrightarrow> fs_node fs' k = fs_node fs k"
  by (cases k) (auto dest!: WriteFile_node)

lemma parent_error_writes: "writes (path_key p) fs fs' \<Longrightarrow> parent_error fs' p = parent_error fs p"
proof -
  assume w: "writes (path_key p) fs fs'"
  have same: "fs_node fs' q = fs_node fs q" if "q \<in> set (parents (path_key p))" for q
    using that writesD(4)[OF w] by (simp add: parents_iff)
  then have "find (\<lambda>q. \<not> is_dir (fs_node fs' q)) (parents (path_key p)) = find (\<lambda>q. \<not> is_dir (fs_node fs q)) (parents (path_key p))"
    by (intro find_cong) simp_all
  moreover have "\<And>q. find (\<lambda>q. \<not> is_dir (fs_node fs q)) (parents (path_key p)) = Some q \<Longrightarrow> fs_node fs' q = fs_node fs q"
    using same by (metis find_Some_iff nth_mem)
  ultimately have "find (\<lambda>q. \<not> is_dir (fs_node fs' q)) (parents (path_key p)) = find (\<lambda>q. \<not> is_dir (fs_node fs q)) (parents (path_key p))"
    and "\<And>q. find (\<lambda>q. \<not> is_dir (fs_node fs q)) (parents (path_key p)) = Some q \<Longrightarrow> fs_node fs' q = fs_node fs q"
    by blast+
  then show ?thesis by (auto simp: parent_error_def split: option.split)
qed

lemma write_created:
  assumes "os_Create umask p fs = (None, fs1)" and "os_WriteFile umask p data perm fs1 = (e, fs2)"
  shows "\<exists>m. fs_node fs2 (path_key p) = Some (RegularFile data m)"
proof -
  have w: "writes (path_key p) fs fs1" and f: "\<exists>m. fs_node fs1 (path_key p) = Some (RegularFile [] m)"
    using WriteFile_ok assms(1) by (auto simp: os_Create_def)
  have "parent_error fs p = None" using assms(1) by (auto simp: os_Create_def os_WriteFile_def split: option.splits)
  then have "parent_error fs1 p = None" using parent_error_writes[OF w] by simp
  then have "e = None" using f assms(2) by (auto simp: os_WriteFile_def)
  then show ?thesis using WriteFile_ok(2) assms(2) by blast
qed

lemma Chmod_ok:
  assumes "os_Chmod p perm fs = (None, fs')" and "fs_node fs (path_key p) = Some (RegularFile data m)"
  shows "writes (path_key p) fs fs'" and "fs_node fs' (path_key p) = Some (RegularFile data perm)"
proof -
  have ne: "snd (path_key p) \<noteq> []" using assms(2) by (auto simp: fs_node_def)
  have "fs' = mput (path_key p) (RegularFile data perm) fs"
    using assms by (auto simp: os_Chmod_def split: sum.splits fnode.splits dest: Stat_node)
  then show "writes (path_key p) fs fs'" "fs_node fs' (path_key p) = Some (RegularFile data perm)"
    using ne assms(2) by (auto simp: writes_def fs_node_mput)
qed

lemma writes_trans: "writes k fs1 fs2 \<Longrightarrow> writes k fs2 fs3 \<Longrightarrow> writes k fs1 fs3"
  unfolding writes_def by metis

text \<open>A copied file has the data and the permissions of its source.\<close>

lemma copyFile_cases:
  assumes "copyFile umask src dst fs = (None, fs')"
  obtains fs1 fs2 data srcInfo m where "writes (path_key dst) fs fs1" "os_ReadFile fs1 src = Inr data"
    "writes (path_key dst) fs1 fs2" "fs_node fs2 (path_key dst) = Some (RegularFile data m)"
    "os_Stat fs2 src = Inr srcInfo" "os_Chmod dst (fn_perm srcInfo) fs2 = (None, fs')"
proof -
  from assms obtain fs1 fs2 data srcInfo where
    c: "os_Create umask dst fs = (None, fs1)" and r: "os_ReadFile fs1 src = Inr data"
    and w: "os_WriteFile umask dst data 438 fs1 = (None, fs2)" and s: "os_Stat fs2 src = Inr srcInfo"
    and m: "os_Chmod dst (fn_perm srcInfo) fs2 = (None, fs')"
    by (auto simp: copyFile_def split: sum.splits prod.splits option.splits)
  then show ?thesis
    using that WriteFile_ok(1)[OF c[unfolded os_Create_def]] WriteFile_ok[OF w] by blast
qed

lemma copyFile_writes: "copyFile umask src dst fs = (None, fs') \<Longrightarrow> writes (path_key dst) fs fs'"
  by (erule copyFile_cases) (blast dest: Chmod_ok(1) intro: writes_trans)

lemma copyFile_ok:
  assumes "copyFile umask src dst fs = (None, fs')" and "path_key src \<noteq> path_key dst"
  shows "is_file (fs_node fs (path_key src)) \<and> fs_node fs' (path_key dst) = fs_node fs (path_key src)"
  using assms(1)
proof (rule copyFile_cases)
  fix fs1 fs2 data srcInfo m
  assume w1: "writes (path_key dst) fs fs1" and r: "os_ReadFile fs1 src = Inr data"
    and w2: "writes (path_key dst) fs1 fs2" and n2: "fs_node fs2 (path_key dst) = Some (RegularFile data m)"
    and s: "os_Stat fs2 src = Inr srcInfo" and c: "os_Chmod dst (fn_perm srcInfo) fs2 = (None, fs')"
  obtain m1 where n1: "fs_node fs1 (path_key src) = Some (RegularFile data m1)" using ReadFile_node[OF r] by blast
  have "srcInfo = RegularFile data m1" using Stat_node[OF s] writesD(4)[OF w2 assms(2)] n1 by simp
  then show ?thesis using Chmod_ok(2)[OF c n2] n1 writesD(4)[OF w1 assms(2)] by simp
qed

lemma dir_names_iff: "n \<in> set (dir_names fs k) \<longleftrightarrow> plain_name n \<and> fs_node fs (child k n) \<noteq> None"
proof -
  have "fs_node fs (child k n) \<noteq> None \<longleftrightarrow> child k n \<in> set (mkeys fs)"
    by (auto simp: fs_node_def child_def set_mkeys)
  moreover have "n \<in> (\<lambda>q. last (snd q)) ` {q \<in> set (mkeys fs). snd q \<noteq> [] \<and> fst q = fst k \<and> butlast (snd q) = snd k}
      \<longleftrightarrow> child k n \<in> set (mkeys fs)"
  proof
    assume "child k n \<in> set (mkeys fs)"
    then show "n \<in> (\<lambda>q. last (snd q)) ` {q \<in> set (mkeys fs). snd q \<noteq> [] \<and> fst q = fst k \<and> butlast (snd q) = snd k}"
      by (intro image_eqI[of _ _ "child k n"]) (simp_all add: child_def)
  qed (auto simp: child_def dest!: append_butlast_last_id[symmetric])
  ultimately show ?thesis by (auto simp: dir_names_def)
qed

lemma open_dir_ok:
  assumes "open_dir umask src dst fs = (Inr entries, fs')"
  obtains perm where "os_MkdirAll umask dst perm fs = (None, fs')"
    and "entries = map (\<lambda>n. (n, is_dir (fs_node fs' (child (path_key src) n)))) (dir_names fs' (path_key src))"
  using assms by (auto simp: open_dir_def os_ReadDir_def split: sum.splits prod.splits option.splits fnode.splits)

context disk_change
begin

lemma copyFile_R: "copyFile umask src dst fs = (None, fs') \<Longrightarrow> area (path_key dst) \<Longrightarrow> R fs fs'"
  by (drule copyFile_writes) (rule R_file)

text \<open>A copy that ends without an error is a run of calls inside the area.\<close>

lemma copy_work_R:
  assumes "copy_work umask ws fs = Some (None, fs')" and "list_all (\<lambda>(s, d, b). area (path_key d)) ws"
  shows "R fs fs'"
proof -
  have "list_all (\<lambda>(s, d, b). area (path_key d)) ws \<Longrightarrow> fst r = None \<Longrightarrow> R fs (snd r)"
    if "copy_work umask ws fs = Some r" for r
    using that
  proof (induction umask ws fs r rule: copy_work.raw_induct[rotated, consumes 1, case_names step])
    case (step copy_work umask ws fs r)
    show ?case
    proof (cases ws)
      case Nil
      then show ?thesis using step by (auto simp: R_refl)
    next
      case (Cons w rest)
      obtain src dst isdir where w: "w = (src, dst, isdir)" by (cases w)
      have area: "area (path_key dst)" and more: "list_all (\<lambda>(s, d, b). area (path_key d)) rest"
        using step.prems(1) Cons w by simp_all
      show ?thesis
      proof (cases isdir)
        case True
        then obtain entries fs1 where o: "open_dir umask src dst fs = (Inr entries, fs1)"
          and rec: "copy_work umask (entry_paths src dst entries @ rest) fs1 = Some r"
          using step.hyps step.prems(2) Cons w by (auto split: sum.splits prod.splits)
        obtain perm where mk: "os_MkdirAll umask dst perm fs = (None, fs1)"
          and es: "entries = map (\<lambda>n. (n, is_dir (fs_node fs1 (child (path_key src) n)))) (dir_names fs1 (path_key src))"
          using o by (rule open_dir_ok)
        have "list_all (\<lambda>(s, d, b). area (path_key d)) (entry_paths src dst entries)"
          using area_child[OF area] by (auto simp: entry_paths_def list_all_iff es dir_names_iff path_key_child)
        then have "R fs1 (snd r)" using step.IH[OF rec _ step.prems(2)] more by simp
        then show ?thesis using R_trans MkdirAll_R[OF mk area_dir[OF area]] by blast
      next
        case False
        obtain e fs1 where c': "copyFile umask src dst fs = (e, fs1)" by fastforce
        have c: "copyFile umask src dst fs = (None, fs1)" and rec: "copy_work umask rest fs1 = Some r"
          using step.hyps step.prems(2) Cons w False c' by (cases e; auto)+
        show ?thesis using R_trans copyFile_R[OF c area] step.IH[OF rec more step.prems(2)] by blast
      qed
    qed
  qed
  from this[of "(None, fs')"] assms show ?thesis by simp
qed

lemma copyDir_R: "copyDir umask src dst fs = Some (None, fs') \<Longrightarrow> area (path_key dst) \<Longrightarrow> R fs fs'"
  unfolding copyDir_def by (erule copy_work_R) simp

end

section \<open>The whole tree\<close>

text \<open>Below a directory every node has plain elements and a directory above it.\<close>

definition tree_at :: "filesys \<Rightarrow> fpath \<Rightarrow> bool" where
  "tree_at fs s \<longleftrightarrow> list_all (\<lambda>(q, _). under s q \<and> q \<noteq> s \<longrightarrow>
     plain_name (last (snd q)) \<and> is_dir (fs_node fs (fst q, butlast (snd q)))) fs"

lemma tree_atD:
  assumes "tree_at fs s" and "under s k" and "fs_node fs (child k n) \<noteq> None"
  shows "plain_name n" and "is_dir (fs_node fs k)"
proof -
  obtain v where "(child k n, v) \<in> set fs"
    using assms(3) by (auto simp: fs_node_def child_def dest: map_of_SomeD)
  moreover have "under s (child k n)" "child k n \<noteq> s"
    using assms(2) by (auto simp: under_def child_def prefix_length_less dest: prefix_length_le)
  ultimately have "plain_name (last (snd (child k n))) \<and> is_dir (fs_node fs (fst (child k n), butlast (snd (child k n))))"
    using assms(1) by (auto simp: tree_at_def list_all_iff)
  then show "plain_name n" "is_dir (fs_node fs k)" by (simp_all add: child_def)
qed

definition graft :: "fpath \<Rightarrow> string list \<Rightarrow> fpath" where
  "graft d rel = (fst d, snd d @ rel)"

lemma graft_simps [simp]:
  "graft d [] = d" "child (graft d rel) n = graft d (rel @ [n])" "under d (graft d rel)" "graft d r1 = graft d r2 \<longleftrightarrow> r1 = r2"
  by (auto simp: graft_def child_def under_def prod_eq_iff)

lemma under_graft: "under d k \<longleftrightarrow> (\<exists>rel. k = graft d rel)"
  by (auto simp: graft_def under_def prefix_def prod_eq_iff)

text \<open>The nodes at or below a path; the root counts once more.\<close>

definition weight :: "filesys \<Rightarrow> fpath \<Rightarrow> nat" where
  "weight fs k = card {q \<in> set (mkeys fs). under k q} + (if snd k = [] then 1 else 0)"

lemma weight_children:
  assumes "fs_node fs k \<noteq> None" and "distinct ns"
  shows "sum_list (map (\<lambda>n. weight fs (child k n)) ns) < weight fs k"
proof -
  let ?A = "\<lambda>k. {q \<in> set (mkeys fs). under k q}"
  have "sum_list (map (\<lambda>n. weight fs (child k n)) ns) = sum (\<lambda>n. card (?A (child k n))) (set ns)"
    using assms(2) by (simp add: sum_list_distinct_conv_sum_set weight_def child_def)
  also have "\<dots> = card (\<Union>n \<in> set ns. ?A (child k n))"
    by (rule card_UN_disjoint[symmetric]) (auto simp: under_def child_def prefix_def)
  also have "\<dots> \<le> card (?A k - {k})"
    by (rule card_mono) (auto simp: under_def child_def prefix_def)
  also have "\<dots> < weight fs k"
  proof (cases "snd k = []")
    case True
    then show ?thesis by (simp add: weight_def card_Diff1_le le_imp_less_Suc)
  next
    case False
    then have "k \<in> ?A k" using assms(1) by (auto simp: fs_node_def set_mkeys)
    then have "card (?A k - {k}) < card (?A k)" by (intro card_Diff1_less) simp_all
    then show ?thesis by (simp only: weight_def False if_False add_0_right)
  qed
  finally show ?thesis .
qed

lemma weight_pos: "fs_node fs k \<noteq> None \<Longrightarrow> weight fs k > 0"
  using weight_children[of fs k "[]"] by simp

text \<open>
  The invariant of the loop over pending entries: what lies below the source is as it was; a pending entry pairs a
  node below the source with its place in the target; and every file below the source is copied or below a pending entry.
\<close>

definition pending_ok :: "filesys \<Rightarrow> fpath \<Rightarrow> fpath \<Rightarrow> string \<times> string \<times> bool \<Rightarrow> bool" where
  "pending_ok fs0 s d w \<longleftrightarrow> (\<exists>rel. path_key (fst w) = graft s rel \<and> path_key (fst (snd w)) = graft d rel
     \<and> fs_node fs0 (graft s rel) \<noteq> None \<and> (snd (snd w) \<longleftrightarrow> is_dir (fs_node fs0 (graft s rel))))"

definition copied_or_pending :: "filesys \<Rightarrow> fpath \<Rightarrow> fpath \<Rightarrow> (string \<times> string \<times> bool) list \<Rightarrow> filesys \<Rightarrow> bool" where
  "copied_or_pending fs0 s d ws fs \<longleftrightarrow> (\<forall>rel. is_file (fs_node fs0 (graft s rel)) \<longrightarrow>
     fs_node fs (graft d rel) = fs_node fs0 (graft s rel) \<or> (\<exists>w \<in> set ws. under (path_key (fst w)) (graft s rel)))"

definition copying :: "filesys \<Rightarrow> fpath \<Rightarrow> fpath \<Rightarrow> (string \<times> string \<times> bool) list \<Rightarrow> filesys \<Rightarrow> bool" where
  "copying fs0 s d ws fs \<longleftrightarrow> outside d fs0 fs \<and> (\<forall>w \<in> set ws. pending_ok fs0 s d w) \<and> copied_or_pending fs0 s d ws fs"

lemma source_unchanged:
  assumes "outside d fs0 fs" and "\<not> under s d" and "\<not> under d s" and "under s k"
  shows "fs_node fs k = fs_node fs0 k"
proof -
  have "\<not> under d k" using assms(2-4) under_linear by blast
  moreover have "\<not> under k d" using assms(2,4) under_trans by blast
  ultimately show ?thesis using assms(1) unfolding outside_def by blast
qed

lemma mkdir_from_same:
  "mkdir_from p perm ks fs = (e, fs') \<Longrightarrow> fs_node fs k = Some n \<Longrightarrow> fs_node fs' k = Some n"
proof (induction ks arbitrary: fs)
  case (Cons q ks)
  show ?case
  proof (cases "fs_node fs q")
    case None
    then have "fs_node (mput q (Directory perm) fs) k = Some n"
      using Cons.prems(2) by (auto simp: fs_node_def split: if_splits)
    then show ?thesis using Cons None by simp
  next
    case (Some m)
    then show ?thesis using Cons by (cases m) auto
  qed
qed simp

lemma MkdirAll_same: "os_MkdirAll umask p perm fs = (e, fs') \<Longrightarrow> fs_node fs k = Some n \<Longrightarrow> fs_node fs' k = Some n"
  by (auto simp: os_MkdirAll_def split: if_splits intro: mkdir_from_same)

lemma tree_at_above:
  assumes "tree_at fs s" and "fs_node fs (graft s (r @ rest)) \<noteq> None"
  shows "fs_node fs (graft s r) \<noteq> None"
  using assms(2)
proof (induction rest rule: rev_induct)
  case (snoc n rest)
  then have "fs_node fs (child (graft s (r @ rest)) n) \<noteq> None" by simp
  then have "is_dir (fs_node fs (graft s (r @ rest)))" using tree_atD(2)[OF assms(1)] by simp
  then have "fs_node fs (graft s (r @ rest)) \<noteq> None" by (cases "fs_node fs (graft s (r @ rest))") simp_all
  then show ?case by (rule snoc.IH)
qed simp

lemma tree_at_dir:
  assumes "tree_at fs s" and "fs_node fs (graft s (r @ n # rest)) \<noteq> None"
  shows "plain_name n" and "is_dir (fs_node fs (graft s r))" and "fs_node fs (graft s (r @ [n])) \<noteq> None"
proof -
  show n: "fs_node fs (graft s (r @ [n])) \<noteq> None" using tree_at_above[of fs s "r @ [n]" rest] assms by simp
  then show "plain_name n" "is_dir (fs_node fs (graft s r))"
    using tree_atD[OF assms(1), of "graft s r" n] by simp_all
qed

lemma copying_file:
  assumes inv: "copying fs0 s d ((src, dst, isdir) # ws) fs" and apart: "\<not> under s d" "\<not> under d s"
    and tree: "tree_at fs0 s" and c: "copyFile umask src dst fs = (None, fs1)"
  shows "copying fs0 s d ws fs1"
proof -
  obtain rel where rel: "path_key src = graft s rel" "path_key dst = graft d rel"
    using inv by (auto simp: copying_def pending_ok_def)
  have ne: "path_key src \<noteq> path_key dst"
    using under_linear[of s "graft s rel" d] apart rel by (metis graft_simps(3))
  have node: "fs_node fs1 (graft d rel) = fs_node fs0 (graft s rel)" and src_file: "is_file (fs_node fs0 (graft s rel))"
    using copyFile_ok[OF c ne] source_unchanged[OF _ apart, of fs0 fs "graft s rel"] inv rel by (auto simp: copying_def)
  have other: "fs_node fs1 q = fs_node fs q" if "q \<noteq> graft d rel" for q
    using writesD(4)[OF copyFile_writes[OF c]] that rel(2) by simp
  have "copied_or_pending fs0 s d ws fs1"
    unfolding copied_or_pending_def
  proof (intro allI impI)
    fix r
    assume f: "is_file (fs_node fs0 (graft s r))"
    show "fs_node fs1 (graft d r) = fs_node fs0 (graft s r) \<or> (\<exists>w \<in> set ws. under (path_key (fst w)) (graft s r))"
    proof (cases "r = rel")
      case False
      then have same: "fs_node fs1 (graft d r) = fs_node fs (graft d r)" by (intro other) simp
      have "\<not> under (graft s rel) (graft s r)"
      proof
        assume "under (graft s rel) (graft s r)"
        then obtain n rest where r: "r = rel @ n # rest"
          using False by (cases "drop (length rel) r") (auto simp: graft_def under_def prefix_def)
        have "fs_node fs0 (graft s r) \<noteq> None" using f by (auto simp: is_file_iff)
        then have "is_dir (fs_node fs0 (graft s rel))" unfolding r by (rule tree_at_dir(2)[OF tree])
        then show False using src_file by (auto simp: is_file_iff is_dir_iff)
      qed
      then show ?thesis using inv f same rel(1) by (auto simp: copying_def copied_or_pending_def)
    qed (simp add: node)
  qed
  moreover have "outside d fs0 fs1"
    using inv elsewhere.copyFile_R[OF c] rel outside_trans by (metis copying_def graft_simps(3))
  ultimately show ?thesis using inv by (simp add: copying_def)
qed

lemma copying_dir:
  assumes inv: "copying fs0 s d ((src, dst, True) # ws) fs" and apart: "\<not> under s d" "\<not> under d s"
    and tree: "tree_at fs0 s" and o: "open_dir umask src dst fs = (Inr entries, fs1)"
  shows "copying fs0 s d (entry_paths src dst entries @ ws) fs1"
    and "sum_list (map (\<lambda>w. weight fs0 (path_key (fst w))) (entry_paths src dst entries)) < weight fs0 (path_key src)"
proof -
  obtain rel where src: "path_key src = graft s rel" and dst: "path_key dst = graft d rel"
    and dir: "is_dir (fs_node fs0 (graft s rel))"
    using inv by (auto simp: copying_def pending_ok_def)
  obtain perm where mk: "os_MkdirAll umask dst perm fs = (None, fs1)"
    and es: "entries = map (\<lambda>n. (n, is_dir (fs_node fs1 (child (path_key src) n)))) (dir_names fs1 (path_key src))"
    using o by (rule open_dir_ok)
  have out: "outside d fs0 fs1"
    using inv elsewhere.MkdirAll_R[OF mk] dst outside_trans by (metis copying_def graft_simps(3))
  have same: "fs_node fs1 (graft s r) = fs_node fs0 (graft s r)" for r
    using source_unchanged[OF out apart] by simp
  have names: "n \<in> set (dir_names fs1 (path_key src)) \<longleftrightarrow> plain_name n \<and> fs_node fs0 (graft s (rel @ [n])) \<noteq> None" for n
    by (simp add: dir_names_iff src same)
  have paths: "path_key (go_path_join [src, n]) = graft s (rel @ [n])" "path_key (go_path_join [dst, n]) = graft d (rel @ [n])"
    if "n \<in> set (dir_names fs1 (path_key src))" for n
    using that names[of n] by (simp_all add: path_key_child src dst)
  have items: "\<forall>w \<in> set (entry_paths src dst entries). pending_ok fs0 s d w"
  proof
    fix w
    assume "w \<in> set (entry_paths src dst entries)"
    then obtain n where n: "n \<in> set (dir_names fs1 (path_key src))"
      and w: "w = (go_path_join [src, n], go_path_join [dst, n], is_dir (fs_node fs1 (child (path_key src) n)))"
      by (auto simp: entry_paths_def es)
    show "pending_ok fs0 s d w"
      unfolding pending_ok_def w using paths[OF n] names[of n] n by (intro exI[of _ "rel @ [n]"]) (simp add: src same)
  qed
  have "copied_or_pending fs0 s d (entry_paths src dst entries @ ws) fs1"
    unfolding copied_or_pending_def
  proof (intro allI impI)
    fix r
    assume f: "is_file (fs_node fs0 (graft s r))"
    let ?goal = "fs_node fs1 (graft d r) = fs_node fs0 (graft s r)
      \<or> (\<exists>w \<in> set (entry_paths src dst entries @ ws). under (path_key (fst w)) (graft s r))"
    consider "fs_node fs (graft d r) = fs_node fs0 (graft s r)" | "\<exists>w \<in> set ws. under (path_key (fst w)) (graft s r)"
      | "under (graft s rel) (graft s r)"
      using inv f src by (auto simp: copying_def copied_or_pending_def)
    then show ?goal
    proof cases
      case 1
      then show ?thesis using f MkdirAll_same[OF mk, of "graft d r"] by (simp add: is_file_iff) metis
    next
      case 2
      then show ?thesis by auto
    next
      case 3
      then obtain rest where r: "r = rel @ rest" by (auto simp: graft_def under_def prefix_def)
      then obtain n more where rest: "rest = n # more" using f dir by (cases rest) (auto simp: is_file_iff is_dir_iff)
      have ex: "fs_node fs0 (graft s (rel @ n # more)) \<noteq> None" using f r rest by (auto simp: is_file_iff)
      have n: "n \<in> set (dir_names fs1 (path_key src))"
        using names tree_at_dir(1,3)[OF tree ex] by blast
      then have "(go_path_join [src, n], go_path_join [dst, n], is_dir (fs_node fs1 (child (path_key src) n)))
          \<in> set (entry_paths src dst entries)"
        by (auto simp: entry_paths_def es)
      moreover have "under (path_key (go_path_join [src, n])) (graft s r)"
        by (auto simp: paths[OF n] r rest graft_def under_def)
      ultimately have "\<exists>w \<in> set (entry_paths src dst entries @ ws). under (path_key (fst w)) (graft s r)"
        by (intro bexI[of _ "(go_path_join [src, n], go_path_join [dst, n], is_dir (fs_node fs1 (child (path_key src) n)))"])
           simp_all
      then show ?thesis ..
    qed
  qed
  then show "copying fs0 s d (entry_paths src dst entries @ ws) fs1"
    using out items inv by (auto simp: copying_def)
  have "sum_list (map (\<lambda>w. weight fs0 (path_key (fst w))) (entry_paths src dst entries))
      = sum_list (map (\<lambda>n. weight fs0 (child (path_key src) n)) (dir_names fs1 (path_key src)))"
    unfolding entry_paths_def es map_map
    by (intro arg_cong[of _ _ sum_list] map_cong) (auto simp: paths src)
  also have "\<dots> < weight fs0 (path_key src)"
    using dir src by (intro weight_children) (auto simp: dir_names_def is_dir_iff)
  finally show "sum_list (map (\<lambda>w. weight fs0 (path_key (fst w))) (entry_paths src dst entries)) < weight fs0 (path_key src)" .
qed

lemma copy_work_total:
  assumes "\<not> under s d" and "\<not> under d s" and "tree_at fs0 s" and "copying fs0 s d ws fs"
  shows "\<exists>r. copy_work umask ws fs = Some r \<and> (fst r = None \<longrightarrow> copying fs0 s d [] (snd r))"
  using assms(4)
proof (induction "sum_list (map (\<lambda>w. weight fs0 (path_key (fst w))) ws)" arbitrary: ws fs rule: less_induct)
  case less
  show ?case
  proof (cases ws)
    case Nil
    then show ?thesis using less.prems by auto
  next
    case (Cons w rest)
    obtain src dst isdir where w: "w = (src, dst, isdir)" by (cases w)
    have inv: "copying fs0 s d ((src, dst, isdir) # rest) fs" using less.prems Cons w by simp
    show ?thesis
    proof (cases isdir)
      case True
      obtain res fs1 where o: "open_dir umask src dst fs = (res, fs1)" by fastforce
      show ?thesis
      proof (cases res)
        case (Inl e)
        then show ?thesis using Cons w True o by (simp add: copy_work_dir)
      next
        case (Inr entries)
        have "copying fs0 s d ((src, dst, True) # rest) fs" using inv True by simp
        note step = copying_dir[OF this assms(1-3) o[unfolded Inr]]
        show ?thesis
          using less.hyps[OF _ step(1)] step(2) Cons w True o Inr by (simp add: copy_work_dir)
      qed
    next
      case False
      obtain e fs1 where c: "copyFile umask src dst fs = (e, fs1)" by fastforce
      show ?thesis
      proof (cases e)
        case None
        have "fs_node fs0 (path_key src) \<noteq> None" using inv by (auto simp: copying_def pending_ok_def)
        then show ?thesis
          using less.hyps[OF _ copying_file[OF inv assms(1-3) c[unfolded None]]] Cons w False c None weight_pos
          by (simp add: copy_work_file)
      next
        case (Some e)
        then show ?thesis using Cons w False c by (simp add: copy_work_file)
      qed
    qed
  qed
qed

section \<open>The theorem\<close>

text \<open>
  C10. Copying a directory tree ends when the target is neither inside the source nor above it, and unless a call fails every file of
  the source is in the target, under the same relative path, with the same data and permissions, and outside the target
  only missing directories above it are made.
\<close>

theorem copy_dir_copies:
  assumes "\<not> under (path_key src) (path_key dst)" and "\<not> under (path_key dst) (path_key src)"
    and "is_dir (fs_node fs (path_key src))" and "tree_at fs (path_key src)"
  shows "\<exists>err fs'. copyDir umask src dst fs = Some (err, fs') \<and>
    (err = None \<longrightarrow> outside (path_key dst) fs fs' \<and>
      (\<forall>rel. is_file (fs_node fs (graft (path_key src) rel)) \<longrightarrow>
        fs_node fs' (graft (path_key dst) rel) = fs_node fs (graft (path_key src) rel)))"
proof -
  have "pending_ok fs (path_key src) (path_key dst) (src, dst, True)"
    unfolding pending_ok_def using assms(3) by (intro exI[of _ "[]"]) (auto simp: is_dir_iff)
  then have "copying fs (path_key src) (path_key dst) [(src, dst, True)] fs"
    by (simp add: copying_def elsewhere.R_refl copied_or_pending_def)
  from copy_work_total[OF assms(1,2,4) this, of umask] show ?thesis
    by (auto simp: copyDir_def copying_def copied_or_pending_def)
qed

definition rootfs_tree :: filesys where
  "rootfs_tree =
     [((False, [''p'']), Directory 493), ((False, [''p'', ''rootfs'']), Directory 493),
      ((False, [''p'', ''rootfs'', ''etc'']), Directory 493),
      ((False, [''p'', ''rootfs'', ''etc'', ''motd'']), RegularFile ''hi'' 420),
      ((False, [''p'', ''rootfs'', ''run'']), RegularFile ''#!'' 493)]"

lemma rootfs_tree_paths:
  "path_key ''p/rootfs'' = (False, [''p'', ''rootfs''])" "path_key ''dist/a/1/rootfs'' = (False, [''dist'', ''a'', ''1'', ''rootfs''])"
  by code_simp+

theorem copy_dir_copies_witness:
  "\<exists>err fs'. copyDir (\<lambda>m. m) ''p/rootfs'' ''dist/a/1/rootfs'' rootfs_tree = Some (err, fs') \<and>
    (err = None \<longrightarrow> fs_node fs' (False, [''dist'', ''a'', ''1'', ''rootfs'', ''etc'', ''motd'']) = Some (RegularFile ''hi'' 420))"
proof -
  have "is_dir (fs_node rootfs_tree (path_key ''p/rootfs''))" "tree_at rootfs_tree (path_key ''p/rootfs'')"
    "\<not> under (path_key ''p/rootfs'') (path_key ''dist/a/1/rootfs'')" "\<not> under (path_key ''dist/a/1/rootfs'') (path_key ''p/rootfs'')"
    unfolding rootfs_tree_paths by code_simp+
  then obtain err fs' where copy: "copyDir (\<lambda>m. m) ''p/rootfs'' ''dist/a/1/rootfs'' rootfs_tree = Some (err, fs')"
    and all: "err = None \<longrightarrow> (\<forall>rel. is_file (fs_node rootfs_tree (graft (False, [''p'', ''rootfs'']) rel)) \<longrightarrow>
        fs_node fs' (graft (False, [''dist'', ''a'', ''1'', ''rootfs'']) rel) = fs_node rootfs_tree (graft (False, [''p'', ''rootfs'']) rel))"
    using copy_dir_copies[of "''p/rootfs''" "''dist/a/1/rootfs''" rootfs_tree "\<lambda>m. m"] unfolding rootfs_tree_paths by blast
  have "fs_node rootfs_tree (graft (False, [''p'', ''rootfs'']) [''etc'', ''motd'']) = Some (RegularFile ''hi'' 420)"
    by code_simp
  then have "err = None \<longrightarrow> fs_node fs' (False, [''dist'', ''a'', ''1'', ''rootfs'', ''etc'', ''motd'']) = Some (RegularFile ''hi'' 420)"
    using all by (auto simp: graft_def dest!: spec[of _ "[''etc'', ''motd'']"])
  then show ?thesis using copy by blast
qed

text \<open>The copy of the example does end without an error.\<close>

lemma copyDir_example:
  "map_option fst (copyDir (\<lambda>m. m) ''p/rootfs'' ''dist/a/1/rootfs'' rootfs_tree) = Some None"
  by code_simp

end
