(* ===== verification/File_Resolver.thy ===== *)
theory File_Resolver
  imports Model Go_Paths
begin

text \<open>
  \<open>internal/file_resolver\<close>: which file stands for a build entry point, a test config or a README,
  with or without a template extension.  The file system is a parameter, and so is the template
  engine.
\<close>

datatype stat_result = Missing | IsFile | IsDir | StatFailed

definition supportedTemplateExtensions :: "string list" where
  "supportedTemplateExtensions = [''gotpl'']"

text \<open>The keys of \<open>processorMapping\<close>.\<close>

definition has_processor :: "string \<Rightarrow> bool" where
  "has_processor ext \<longleftrightarrow> ext \<in> set [''gotpl'']"

definition GetFileCandidates :: "string \<Rightarrow> string list \<Rightarrow> string list" where
  "GetFileCandidates baseName extensions =
     (if extensions = [] then baseName # map (\<lambda>t. baseName @ ''.'' @ t) supportedTemplateExtensions
      else concat (map (\<lambda>ext. (baseName @ ''.'' @ ext)
             # map (\<lambda>t. baseName @ ''.'' @ ext @ ''.'' @ t) supportedTemplateExtensions) extensions))"

text \<open>\<open>None\<close> is \<open>NoFileCandidatesErr\<close>, the only error there is.\<close>

fun ResolveFirstExistingFile :: "(string \<Rightarrow> stat_result) \<Rightarrow> string \<Rightarrow> string list \<Rightarrow> string option" where
  "ResolveFirstExistingFile stat root [] = None"
| "ResolveFirstExistingFile stat root (candidate # cs) =
     (let candidatePath = go_path_join [root, candidate] in
      if stat candidatePath = IsFile then Some candidatePath else ResolveFirstExistingFile stat root cs)"

definition RemoveTemplateExt :: "string \<Rightarrow> string" where
  "RemoveTemplateExt filename =
     (let ext = go_ext filename in
      if length ext < 1 then filename
      else if has_processor (tl ext) then take (length filename - length ext) filename
      else filename)"

text \<open>
  Reading and rendering.  \<open>process ext src content\<close> is the template engine; an \<open>Inl\<close> is an error.
\<close>

datatype resolver_error = ReadError string | TemplateError string | WriteError string

definition ReadAndRenderFile ::
  "(string \<Rightarrow> string option) \<Rightarrow> (string \<Rightarrow> string \<Rightarrow> string option) \<Rightarrow> string \<Rightarrow> resolver_error + string" where
  "ReadAndRenderFile read process src =
     (case read src of
        None \<Rightarrow> Inl (ReadError src)
      | Some content \<Rightarrow>
          let ext = go_trim_prefix (go_ext src) ''.'' in
          if length ext < 2 then Inr content
          else if \<not> has_processor ext then Inr content
          else (case process src content of None \<Rightarrow> Inl (TemplateError src) | Some r \<Rightarrow> Inr r))"

lemma ResolveFirstExistingFile_Some:
  "ResolveFirstExistingFile stat root cs = Some p \<Longrightarrow>
   \<exists>c \<in> set cs. p = go_path_join [root, c] \<and> stat p = IsFile"
  by (induction cs) (auto simp: Let_def split: if_splits)

lemma ResolveFirstExistingFile_None:
  "ResolveFirstExistingFile stat root cs = None \<longleftrightarrow> (\<forall>c \<in> set cs. stat (go_path_join [root, c]) \<noteq> IsFile)"
  by (induction cs) (auto simp: Let_def)

text \<open>A candidate with its template extension removed is the plain name.\<close>

lemma RemoveTemplateExt_gotpl:
  assumes "slash \<notin> set name"
  shows "RemoveTemplateExt (name @ ''.gotpl'') = name"
proof -
  have "go_split slash (name @ ''.gotpl'') = [name @ ''.gotpl'']"
    using assms by (intro go_split_single) (simp add: slash_def)
  moreover have "go_last_index_byte (name @ ''.gotpl'') (CHR ''.'') = Some (length name)"
    using go_last_index_byte_append[of "CHR ''.''" "''gotpl''" name] by simp
  ultimately have "go_ext (name @ ''.gotpl'') = ''.gotpl''"
    by (simp add: go_ext_def)
  then show ?thesis by (simp add: RemoveTemplateExt_def has_processor_def)
qed

lemma RemoveTemplateExt_dir_part:
  assumes "dir_part pre" and "slash \<notin> set c"
  shows "RemoveTemplateExt (pre @ c) = pre @ RemoveTemplateExt c"
proof -
  have e: "go_ext (pre @ c) = go_ext c"
    using last_split_dir_part[OF assms] go_split_single[OF assms(2)] by (simp add: go_ext_def)
  have "length (go_ext c) \<le> length c"
    using go_split_single[OF assms(2)] by (simp add: go_ext_def split: option.split)
  then show ?thesis unfolding RemoveTemplateExt_def e by (simp add: Let_def)
qed

text \<open>A candidate found in a directory has the plain name once its template extension is removed.\<close>

lemma candidate_base:
  assumes "plain_name f" and "RemoveTemplateExt f = f" and "ResolveFirstExistingFile stat root (GetFileCandidates f []) = Some p"
  shows "p \<noteq> [] \<and> go_base (RemoveTemplateExt p) = f"
proof -
  obtain c where c: "c \<in> {f, f @ ''.gotpl''}" and p: "p = go_path_join [root, c]"
    using ResolveFirstExistingFile_Some[OF assms(3)] by (auto simp: GetFileCandidates_def supportedTemplateExtensions_def)
  have plain: "plain_name c" using c assms(1) by (auto simp: plain_name_def slash_def)
  obtain pre where pre: "dir_part pre" "p = pre @ c"
    using path_join_plain[of "[c]" root] path_of_dir_part[of "is_abs root" "clean_elems root" c] plain p by auto
  have "RemoveTemplateExt c = f"
    using c assms(1,2) RemoveTemplateExt_gotpl by (auto simp: plain_name_def)
  then show ?thesis
    using RemoveTemplateExt_dir_part[OF pre(1)] base_dir_part[OF pre(1)] pre(2) plain assms(1) by (auto simp: plain_name_def)
qed

end
