(* ===== verification/Rendering.thy ===== *)
theory Rendering
  imports Disk_Copy Build_Config File_Resolver
begin

text \<open>
  Rendering a project to disk, \<open>pkg/rendering\<close> and \<open>file_resolver.CopyAndRenderFile\<close>: a directory per tag and per variant tag, with the
  build entry point, lock file, slices, README, root file system and tests.  The goroutines are tasks of a step
  relation, run one at a time in any order; a variant's task is started by its tag's.  The template engine and
  the copy of \<open>docker/pkg/fileutils\<close> are parameters.
\<close>

section \<open>Outcomes\<close>

datatype render_error =
    OsFailed os_error
  | SecretFailed "string \<times> secret_error"
  | TemplateFailed string
  | WrongKind string
  | Joined string render_error

text \<open>What a call returns, \<^term>\<open>None\<close> if it never does.\<close>

type_synonym outcome = "(render_error option \<times> filesys) option"

record TemplateContext =
  tc_Versions :: Versions
  tc_BuildArgs :: BuildArgs
  tc_ImageName :: string

record render_env =
  rn_umask :: "nat \<Rightarrow> nat"
  rn_secrets :: secret_env
  rn_process :: "TemplateContext \<Rightarrow> string \<Rightarrow> string \<Rightarrow> string option"
  rn_copy :: "string \<Rightarrow> string \<Rightarrow> filesys \<Rightarrow> os_error option \<times> filesys"

definition attempt :: "(render_error \<Rightarrow> render_error) \<Rightarrow> os_error option \<times> filesys \<Rightarrow> outcome" where
  "attempt wrap r = Some (map_option (\<lambda>e. wrap (OsFailed e)) (fst r), snd r)"

definition attempt_copy :: "(render_error \<Rightarrow> render_error) \<Rightarrow> (os_error option \<times> filesys) option \<Rightarrow> outcome" where
  "attempt_copy wrap r = (case r of None \<Rightarrow> None | Some r \<Rightarrow> attempt wrap r)"

definition with_message :: "string \<Rightarrow> outcome \<Rightarrow> outcome" where
  "with_message m r = map_option (\<lambda>(e, fs). (map_option (Joined m) e, fs)) r"

definition only_if :: "bool \<Rightarrow> (filesys \<Rightarrow> outcome) \<Rightarrow> filesys \<Rightarrow> outcome" where
  "only_if b f fs = (if b then f fs else Some (None, fs))"

text \<open>Statements one after the other, up to the first error.\<close>

fun in_sequence :: "(filesys \<Rightarrow> outcome) list \<Rightarrow> filesys \<Rightarrow> outcome" where
  "in_sequence [] fs = Some (None, fs)"
| "in_sequence (f # fns) fs = (case f fs of Some (None, fs) \<Rightarrow> in_sequence fns fs | r \<Rightarrow> r)"

section \<open>Files of a directory\<close>

definition mkdir :: "render_env \<Rightarrow> string \<Rightarrow> filesys \<Rightarrow> os_error option \<times> filesys" where
  "mkdir env targetPath fs = os_MkdirAll (rn_umask env) targetPath 493 fs"

definition copyRootFs :: "render_env \<Rightarrow> string \<Rightarrow> string \<Rightarrow> filesys \<Rightarrow> outcome" where
  "copyRootFs env source targetRoot =
     in_sequence
       [\<lambda>fs. attempt (Joined ''failed to create target root directory'') (mkdir env targetRoot fs),
        \<lambda>fs. attempt_copy id (copyDir (rn_umask env) source (go_path_join [targetRoot, ''rootfs'']) fs)]"

definition read_file_of :: "filesys \<Rightarrow> string \<Rightarrow> string option" where
  "read_file_of fs p = (case os_ReadFile fs p of Inl _ \<Rightarrow> None | Inr data \<Rightarrow> Some data)"

text \<open>\<open>ReadAndRenderFile\<close> fails for a file that cannot be read, with that error, or in the engine.\<close>

definition CopyAndRenderFile :: "render_env \<Rightarrow> TemplateContext \<Rightarrow> string \<Rightarrow> string \<Rightarrow> filesys \<Rightarrow> outcome" where
  "CopyAndRenderFile env tmplCtx src target fs =
     (let ext = go_trim_prefix (go_ext src) ''.'' in
      if length ext < 2 then attempt id (rn_copy env src target fs)
      else if \<not> has_processor ext then attempt id (rn_copy env src target fs)
      else case os_ReadFile fs src of
          Inl e \<Rightarrow> Some (Some (OsFailed e), fs)
        | Inr _ \<Rightarrow>
            (case ReadAndRenderFile (read_file_of fs) (rn_process env tmplCtx) src of
               Inl _ \<Rightarrow> Some (Some (TemplateFailed src), fs)
             | Inr rendered \<Rightarrow> attempt id (os_WriteFile (rn_umask env) target rendered 420 fs)))"

definition copyFlakeLock :: "render_env \<Rightarrow> string \<Rightarrow> string \<Rightarrow> filesys \<Rightarrow> outcome" where
  "copyFlakeLock env target entrypointPath fs =
     (if \<not> go_has_prefix (go_base entrypointPath) ''flake.nix'' then Some (None, fs)
      else let lockPath = go_path_join [go_dir entrypointPath, ''flake.lock''] in
        case os_Stat fs lockPath of
          Inl (ENOENT _) \<Rightarrow> Some (None, fs)
        | Inl e \<Rightarrow> Some (Some (Joined ''failed to stat flake.lock'' (OsFailed e)), fs)
        | Inr (Directory _) \<Rightarrow> Some (Some (WrongKind ''flake.lock is a directory''), fs)
        | Inr (RegularFile _ _) \<Rightarrow>
            attempt id (copyFile (rn_umask env) lockPath (go_path_join [target, ''flake.lock'']) fs))"

definition copyChiselSlices :: "render_env \<Rightarrow> string \<Rightarrow> string \<Rightarrow> filesys \<Rightarrow> outcome" where
  "copyChiselSlices env target entrypointPath fs =
     (if \<not> go_has_prefix (go_base entrypointPath) ''chisel.yaml'' then Some (None, fs)
      else let slicesPath = go_path_join [go_dir entrypointPath, ''slices''] in
        case os_Stat fs slicesPath of
          Inl (ENOENT _) \<Rightarrow> Some (None, fs)
        | Inl e \<Rightarrow> Some (Some (Joined ''failed to stat slices directory'' (OsFailed e)), fs)
        | Inr (RegularFile _ _) \<Rightarrow> Some (Some (WrongKind ''slices is not a directory''), fs)
        | Inr (Directory _) \<Rightarrow>
            attempt_copy id (copyDir (rn_umask env) slicesPath (go_path_join [target, ''slices'']) fs))"

definition newTemplateContext :: "Image \<Rightarrow> ResolvedBuildValues \<Rightarrow> TemplateContext" where
  "newTemplateContext image' values =
     \<lparr>tc_Versions = rb_Versions values, tc_BuildArgs = rb_BuildArgs values, tc_ImageName = img_Name image'\<rparr>"

definition fixUpEntrypoint :: "string \<Rightarrow> string \<Rightarrow> string" where
  "fixUpEntrypoint root path = go_path_join [root, go_base (RemoveTemplateExt path)]"

definition fixUpReadme :: "string \<Rightarrow> string \<Rightarrow> string" where
  "fixUpReadme root readmePath = go_path_join [root, go_base (RemoveTemplateExt readmePath)]"

definition createTestsFolder :: "render_env \<Rightarrow> string \<Rightarrow> filesys \<Rightarrow> outcome" where
  "createTestsFolder env rootPath fs =
     attempt (Joined ''failed to create tests directory'') (mkdir env (go_path_join [rootPath, ''tests'']) fs)"

definition replaceHiveParent :: "render_env \<Rightarrow> string \<Rightarrow> string \<Rightarrow> string \<Rightarrow> filesys \<Rightarrow> outcome" where
  "replaceHiveParent env filePath imageName tagName fs =
     (case os_ReadFile fs filePath of
        Inl e \<Rightarrow> Some (Some (OsFailed e), fs)
      | Inr content \<Rightarrow>
          if \<not> go_contains content HiveParentPlaceholder then Some (None, fs)
          else let parentRef = ''__hive__/'' @ imageName @ '':'' @ tagName;
                   replaced = go_replace_all HiveParentPlaceholder parentRef content in
            attempt id (os_WriteFile (rn_umask env) filePath replaced 420 fs))"

section \<open>Directories of tags and variants\<close>

definition tag_steps :: "render_env \<Rightarrow> string \<Rightarrow> Image \<Rightarrow> TemplateContext \<Rightarrow> (filesys \<Rightarrow> outcome) list" where
  "tag_steps env tagPath image' tmplCtx =
     [only_if (img_BuildEntryPointPath image' \<noteq> []) (in_sequence
        [\<lambda>fs. with_message ''failed to copy build entrypoint''
           (CopyAndRenderFile env tmplCtx (img_BuildEntryPointPath image')
              (fixUpEntrypoint tagPath (img_BuildEntryPointPath image')) fs),
         \<lambda>fs. with_message ''failed to copy flake.lock'' (copyFlakeLock env tagPath (img_BuildEntryPointPath image') fs),
         \<lambda>fs. with_message ''failed to copy chisel slices'' (copyChiselSlices env tagPath (img_BuildEntryPointPath image') fs)]),
      only_if (img_ReadmePath image' \<noteq> []) (\<lambda>fs. with_message ''failed to copy readme''
        (CopyAndRenderFile env tmplCtx (img_ReadmePath image') (fixUpReadme tagPath (img_ReadmePath image')) fs)),
      only_if (img_RootFSDir image' \<noteq> []) (\<lambda>fs. with_message ''failed to copy rootfs''
        (copyRootFs env (img_RootFSDir image') tagPath fs)),
      only_if (img_TestConfigFilePath image' \<noteq> []) (in_sequence
        [createTestsFolder env tagPath,
         CopyAndRenderFile env tmplCtx (img_TestConfigFilePath image') (go_path_join [go_path_join [tagPath, ''tests''], ''image.yml''])])]"

definition setupImageTagDir :: "render_env \<Rightarrow> string \<Rightarrow> Image \<Rightarrow> Tag \<Rightarrow> filesys \<Rightarrow> outcome" where
  "setupImageTagDir env tagPath image' tag =
     in_sequence
       [\<lambda>fs. attempt (Joined ''failed to create tag directory'') (mkdir env tagPath fs),
        \<lambda>fs. case ForTag (rn_secrets env) image' tag of
           Inl e \<Rightarrow> Some (Some (Joined ''failed to resolve build configuration'' (SecretFailed e)), fs)
         | Inr resolved \<Rightarrow> in_sequence (tag_steps env tagPath image' (newTemplateContext image' resolved)) fs]"

definition variant_steps ::
  "render_env \<Rightarrow> string \<Rightarrow> Image \<Rightarrow> string \<Rightarrow> ImageVariant \<Rightarrow> TemplateContext \<Rightarrow> (filesys \<Rightarrow> outcome) list" where
  "variant_steps env variantPath image' tagName variantDef tmplCtx =
     [only_if (var_BuildEntryPointPath variantDef \<noteq> []) (in_sequence
        (let entrypoint = fixUpEntrypoint variantPath (var_BuildEntryPointPath variantDef) in
        [\<lambda>fs. with_message ''failed to copy build entrypoint''
           (CopyAndRenderFile env tmplCtx (var_BuildEntryPointPath variantDef) entrypoint fs),
         \<lambda>fs. with_message ''failed to copy flake.lock for variant''
           (copyFlakeLock env variantPath (var_BuildEntryPointPath variantDef) fs),
         \<lambda>fs. with_message ''failed to copy chisel slices for variant''
           (copyChiselSlices env variantPath (var_BuildEntryPointPath variantDef) fs),
         \<lambda>fs. with_message ''failed to resolve __hive_parent__ in variant entrypoint''
           (replaceHiveParent env entrypoint (img_Name image') tagName fs)])),
      only_if (var_ReadmePath variantDef \<noteq> []) (\<lambda>fs. with_message ''failed to copy readme''
        (CopyAndRenderFile env tmplCtx (var_ReadmePath variantDef) (fixUpReadme variantPath (var_ReadmePath variantDef)) fs)),
      only_if (img_RootFSDir image' \<noteq> []) (\<lambda>fs. with_message ''failed to copy rootfs for variant from base version''
        (copyRootFs env (img_RootFSDir image') variantPath fs)),
      only_if (var_RootFSDir variantDef \<noteq> []) (\<lambda>fs. with_message ''failed to copy rootfs for variant''
        (copyRootFs env (var_RootFSDir variantDef) variantPath fs)),
      only_if (img_TestConfigFilePath image' \<noteq> [] \<or> var_TestConfigFilePath variantDef \<noteq> []) (in_sequence
        (let testsRoot = go_path_join [variantPath, ''tests''] in
        [createTestsFolder env variantPath,
         only_if (img_TestConfigFilePath image' \<noteq> []) (\<lambda>fs. with_message ''failed to copy test config file''
           (CopyAndRenderFile env tmplCtx (img_TestConfigFilePath image') (go_path_join [testsRoot, ''image.yml'']) fs)),
         only_if (var_TestConfigFilePath variantDef \<noteq> []) (\<lambda>fs. with_message ''failed to copy test config file''
           (CopyAndRenderFile env tmplCtx (var_TestConfigFilePath variantDef) (go_path_join [testsRoot, ''variant.yml'']) fs))]))]"

definition setupVariantDir ::
  "render_env \<Rightarrow> string \<Rightarrow> Image \<Rightarrow> string \<Rightarrow> Tag \<Rightarrow> ImageVariant \<Rightarrow> filesys \<Rightarrow> outcome" where
  "setupVariantDir env variantPath image' tagName tag variantDef fs =
     (case ForTagVariant (rn_secrets env) image' variantDef tag of
        Inl e \<Rightarrow> Some (Some (Joined ''failed to resolve build configuration for variant'' (SecretFailed e)), fs)
      | Inr resolved \<Rightarrow>
          in_sequence
            ((\<lambda>fs. attempt (Joined ''failed to create variant directory'') (mkdir env variantPath fs))
             # variant_steps env variantPath image' tagName variantDef (newTemplateContext image' resolved)) fs)"

section \<open>The project\<close>

text \<open>Goroutines: a tag's directory, and then those of its variants.\<close>

datatype render_task =
    TagTask string Image string Tag
  | VariantTask string Image string Tag ImageVariant

fun run_task :: "render_env \<Rightarrow> render_task \<Rightarrow> filesys \<Rightarrow> outcome" where
  "run_task env (TagTask rootPath imageDef tag tagDef) fs =
     setupImageTagDir env (go_path_join [rootPath, tag]) imageDef tagDef fs"
| "run_task env (VariantTask rootPath imageDef tag tagDef variantDef) fs =
     setupVariantDir env (go_path_join [rootPath, tag @ var_TagSuffix variantDef]) imageDef tag tagDef variantDef fs"

fun spawned :: "render_task \<Rightarrow> render_task list" where
  "spawned (TagTask rootPath imageDef tag tagDef) =
     map (\<lambda>(_, variantDef). VariantTask rootPath imageDef tag tagDef variantDef) (img_Variants imageDef)"
| "spawned (VariantTask _ _ _ _ _) = []"

definition processImagesForName :: "string \<Rightarrow> Image list \<Rightarrow> render_task list" where
  "processImagesForName rootPath images =
     concat (map (\<lambda>imageDef. map (\<lambda>(tag, tagDef). TagTask rootPath imageDef tag tagDef) (img_Tags imageDef)) images)"

record render_state =
  rd_fs :: filesys
  rd_names :: "(string \<times> Image list) list"
  rd_tasks :: "render_task list"
  rd_errs :: "render_error list"

text \<open>Up to the loop over the names; the error of \<open>RemoveAll\<close> is ignored.\<close>

definition render_start :: "render_env \<Rightarrow> ContainerHiveProject \<Rightarrow> string \<Rightarrow> filesys \<Rightarrow> render_state" where
  "render_start env project targetPath fs =
     (case mkdir env targetPath (os_RemoveAll targetPath fs) of
        (Some e, fs) \<Rightarrow>
          \<lparr>rd_fs = fs, rd_names = [], rd_tasks = [], rd_errs = [Joined ''failed to create target directory'' (OsFailed e)]\<rparr>
      | (None, fs) \<Rightarrow> \<lparr>rd_fs = fs, rd_names = pr_ImagesByName project, rd_tasks = [], rd_errs = []\<rparr>)"

text \<open>
  The loop over the names starts the tasks of a name, or returns with an error while tasks still run; any
  started task may run next; a task that fails starts no other.
\<close>

inductive render_step :: "render_env \<Rightarrow> string \<Rightarrow> render_state \<Rightarrow> render_state \<Rightarrow> bool" for env targetPath where
  start: "rd_names st = (name, images) # names \<Longrightarrow> mkdir env (go_path_join [targetPath, name]) (rd_fs st) = (None, fs') \<Longrightarrow>
    render_step env targetPath st
      (st\<lparr>rd_fs := fs', rd_names := names,
          rd_tasks := rd_tasks st @ processImagesForName (go_path_join [targetPath, name]) images\<rparr>)"
| stop: "rd_names st = (name, images) # names \<Longrightarrow> mkdir env (go_path_join [targetPath, name]) (rd_fs st) = (Some e, fs') \<Longrightarrow>
    render_step env targetPath st
      (st\<lparr>rd_fs := fs', rd_names := [],
          rd_errs := rd_errs st @ [Joined (''failed to create image directory for '' @ name) (OsFailed e)]\<rparr>)"
| run: "rd_tasks st = ts1 @ t # ts2 \<Longrightarrow> run_task env t (rd_fs st) = Some (None, fs') \<Longrightarrow>
    render_step env targetPath st (st\<lparr>rd_fs := fs', rd_tasks := ts1 @ ts2 @ spawned t\<rparr>)"
| fail: "rd_tasks st = ts1 @ t # ts2 \<Longrightarrow> run_task env t (rd_fs st) = Some (Some e, fs') \<Longrightarrow>
    render_step env targetPath st (st\<lparr>rd_fs := fs', rd_tasks := ts1 @ ts2, rd_errs := rd_errs st @ [e]\<rparr>)"

text \<open>\<open>RenderProject\<close> returns nil and leaves the disk \<open>fs'\<close>.\<close>

definition RenderProject :: "render_env \<Rightarrow> ContainerHiveProject \<Rightarrow> string \<Rightarrow> filesys \<Rightarrow> filesys \<Rightarrow> bool" where
  "RenderProject env project targetPath fs fs' \<longleftrightarrow>
     (\<exists>st. (render_step env targetPath)\<^sup>*\<^sup>* (render_start env project targetPath fs) st
       \<and> rd_names st = [] \<and> rd_tasks st = [] \<and> rd_errs st = [] \<and> rd_fs st = fs')"

section \<open>Steps and what they keep\<close>

text \<open>What the copy of the library is relied on for: on success the target is a file with the source's data, and nothing else changed.\<close>

definition copies_files :: "(string \<Rightarrow> string \<Rightarrow> filesys \<Rightarrow> os_error option \<times> filesys) \<Rightarrow> bool" where
  "copies_files copy \<longleftrightarrow> (\<forall>src dst fs fs'. copy src dst fs = (None, fs') \<longrightarrow>
     writes (path_key dst) fs fs' \<and>
     (\<exists>data m m'. fs_node fs (path_key src) = Some (RegularFile data m) \<and> fs_node fs' (path_key dst) = Some (RegularFile data m')))"

definition stays :: "(filesys \<Rightarrow> filesys \<Rightarrow> bool) \<Rightarrow> (filesys \<Rightarrow> outcome) \<Rightarrow> bool" where
  "stays R f \<longleftrightarrow> (\<forall>fs fs'. f fs = Some (None, fs') \<longrightarrow> R fs fs')"

lemma staysD: "stays R f \<Longrightarrow> f fs = Some (None, fs') \<Longrightarrow> R fs fs'"
  by (simp add: stays_def)

lemma attempt_ok [simp]: "attempt w r = Some (None, fs') \<longleftrightarrow> r = (None, fs')"
  by (cases r) (auto simp: attempt_def)

lemma attempt_copy_ok [simp]: "attempt_copy w r = Some (None, fs') \<longleftrightarrow> r = Some (None, fs')"
  by (cases r) (auto simp: attempt_copy_def)

lemma with_message_ok [simp]: "with_message m r = Some (None, fs') \<longleftrightarrow> r = Some (None, fs')"
  by (auto simp: with_message_def)

lemma only_if_ok: "only_if b f fs = Some (None, fs') \<longleftrightarrow> (if b then f fs = Some (None, fs') else fs' = fs)"
  by (auto simp: only_if_def)

lemma in_sequence_ok:
  "in_sequence (f # fns) fs = Some (None, fs') \<longleftrightarrow> (\<exists>fs1. f fs = Some (None, fs1) \<and> in_sequence fns fs1 = Some (None, fs'))"
  by (auto split: option.splits)

lemma CopyAndRenderFile_cases:
  assumes "CopyAndRenderFile env ctx src target fs = Some (None, fs')"
  obtains "rn_copy env src target fs = (None, fs')"
      and "length (go_trim_prefix (go_ext src) ''.'') < 2 \<or> \<not> has_processor (go_trim_prefix (go_ext src) ''.'')"
    | rendered where "ReadAndRenderFile (read_file_of fs) (rn_process env ctx) src = Inr rendered"
      "os_WriteFile (rn_umask env) target rendered 420 fs = (None, fs')"
  using assms by (auto simp: CopyAndRenderFile_def Let_def split: if_splits sum.splits)

context disk_change
begin

lemma in_sequence_stays: "list_all (stays R) fns \<Longrightarrow> stays R (in_sequence fns)"
proof (induction fns)
  case (Cons f fns)
  show ?case
    unfolding stays_def in_sequence_ok using Cons by (simp add: stays_def) (blast intro: R_trans)
qed (simp add: stays_def R_refl)

lemma only_if_stays: "(b \<Longrightarrow> stays R f) \<Longrightarrow> stays R (only_if b f)"
  by (auto simp: stays_def only_if_ok R_refl)

lemma mkdir_stays: "dir_area (path_key p) \<Longrightarrow> mkdir env p fs = (None, fs') \<Longrightarrow> R fs fs'"
  unfolding mkdir_def by (rule MkdirAll_R)

lemma CopyAndRenderFile_R:
  assumes "CopyAndRenderFile env ctx src target fs = Some (None, fs')" and "copies_files (rn_copy env)" and "area (path_key target)"
  shows "R fs fs'"
  using assms(1)
proof (rule CopyAndRenderFile_cases)
  assume "rn_copy env src target fs = (None, fs')"
  then have "writes (path_key target) fs fs'" using assms(2) unfolding copies_files_def by blast
  then show ?thesis using assms(3) by (rule R_file[rotated])
qed (use WriteFile_R assms(3) in blast)

lemma copyFlakeLock_R:
  "copyFlakeLock env target path fs = Some (None, fs') \<Longrightarrow> area (child (path_key target) ''flake.lock'') \<Longrightarrow> R fs fs'"
  by (auto simp: copyFlakeLock_def Let_def R_refl path_key_child plain_name_def slash_def
      split: if_splits sum.splits os_error.splits fnode.splits dest!: copyFile_R)

lemma copyChiselSlices_R:
  "copyChiselSlices env target path fs = Some (None, fs') \<Longrightarrow> area (child (path_key target) ''slices'') \<Longrightarrow> R fs fs'"
  by (auto simp: copyChiselSlices_def Let_def R_refl path_key_child plain_name_def slash_def
      split: if_splits sum.splits os_error.splits fnode.splits dest!: copyDir_R)

lemma copyRootFs_R:
  assumes "copyRootFs env source target fs = Some (None, fs')"
    and "dir_area (path_key target)" and "area (child (path_key target) ''rootfs'')"
  shows "R fs fs'"
proof -
  have k: "path_key (go_path_join [target, ''rootfs'']) = child (path_key target) ''rootfs''"
    by (rule path_key_child) (simp add: plain_name_def slash_def)
  obtain fs1 where "mkdir env target fs = (None, fs1)"
    and c: "copyDir (rn_umask env) source (go_path_join [target, ''rootfs'']) fs1 = Some (None, fs')"
    using assms(1) unfolding copyRootFs_def in_sequence_ok by auto
  then have "R fs fs1" using mkdir_stays assms(2) by blast
  moreover have "R fs1 fs'" using copyDir_R[OF c] assms(3) k by simp
  ultimately show ?thesis by (rule R_trans)
qed

lemma createTestsFolder_R:
  "createTestsFolder env root fs = Some (None, fs') \<Longrightarrow> area (child (path_key root) ''tests'') \<Longrightarrow> R fs fs'"
  by (auto simp: createTestsFolder_def path_key_child plain_name_def slash_def intro!: mkdir_stays area_dir)

lemma replaceHiveParent_R:
  "replaceHiveParent env p name tag fs = Some (None, fs') \<Longrightarrow> area (path_key p) \<Longrightarrow> R fs fs'"
  by (auto simp: replaceHiveParent_def Let_def R_refl split: if_splits sum.splits dest: WriteFile_R)

end

section \<open>Tag directories\<close>

text \<open>The names discovery gives: an entry point and a README under their usual names, maybe with a template extension.\<close>

definition entry_names :: "string list" where
  "entry_names = [''Dockerfile'', FlakeFileName, ChiselFileName]"

definition extra_names :: "string list" where
  "extra_names = [''flake.lock'', ''slices'', ''README.md'', ''rootfs'', ''tests'']"

definition conventional :: "string \<Rightarrow> string \<Rightarrow> bool" where
  "conventional entrypoint readme \<longleftrightarrow>
     (entrypoint \<noteq> [] \<longrightarrow> go_base (RemoveTemplateExt entrypoint) \<in> set entry_names)
     \<and> (readme \<noteq> [] \<longrightarrow> go_base (RemoveTemplateExt readme) = ''README.md'')"

lemma plain_names:
  "x \<in> set entry_names \<Longrightarrow> plain_name x" "x \<in> set extra_names \<Longrightarrow> plain_name x"
  "plain_name ''image.yml''" "plain_name ''variant.yml''"
  by (auto simp: entry_names_def extra_names_def plain_name_def slash_def FlakeFileName_def ChiselFileName_def)

lemma entry_not_extra: "x \<in> set entry_names \<Longrightarrow> y \<in> set extra_names \<Longrightarrow> x \<noteq> y"
  by (auto simp: entry_names_def extra_names_def FlakeFileName_def ChiselFileName_def)

lemma extra_names_mem:
  "''flake.lock'' \<in> set extra_names" "''slices'' \<in> set extra_names" "''README.md'' \<in> set extra_names"
  "''rootfs'' \<in> set extra_names" "''tests'' \<in> set extra_names"
  by (simp_all add: extra_names_def)

lemma fixed_up_keys:
  "conventional e r \<Longrightarrow> e \<noteq> [] \<Longrightarrow> path_key (fixUpEntrypoint d e) = child (path_key d) (go_base (RemoveTemplateExt e))"
  "conventional e r \<Longrightarrow> r \<noteq> [] \<Longrightarrow> path_key (fixUpReadme d r) = child (path_key d) ''README.md''"
  "plain_name f \<Longrightarrow> path_key (go_path_join [go_path_join [d, ''tests''], f]) = child (child (path_key d) ''tests'') f"
  using plain_names extra_names_mem
  by (auto simp: fixUpEntrypoint_def fixUpReadme_def conventional_def path_key_child)

context disk_change
begin

lemma extras_stay:
  assumes dir: "dir_area (path_key d)" and areas: "\<forall>x \<in> set extra_names. area (child (path_key d) x)"
    and copy: "copies_files (rn_copy env)" and conv: "conventional e r"
  shows "stays R (\<lambda>fs. with_message m (copyFlakeLock env d path fs))"
    and "stays R (\<lambda>fs. with_message m (copyChiselSlices env d path fs))"
    and "stays R (only_if (r \<noteq> []) (\<lambda>fs. with_message m (CopyAndRenderFile env ctx r (fixUpReadme d r) fs)))"
    and "stays R (\<lambda>fs. with_message m (copyRootFs env source d fs))"
    and "stays R (createTestsFolder env d)"
    and "plain_name f \<Longrightarrow> stays R (CopyAndRenderFile env ctx src (go_path_join [go_path_join [d, ''tests''], f]))"
proof -
  have a: "area (child (path_key d) x)" if "x \<in> set extra_names" for x using areas that by blast
  note a = a[OF extra_names_mem(1)] a[OF extra_names_mem(2)] a[OF extra_names_mem(3)] a[OF extra_names_mem(4)]
    a[OF extra_names_mem(5)]
  show "stays R (\<lambda>fs. with_message m (copyFlakeLock env d path fs))"
    unfolding stays_def with_message_ok using copyFlakeLock_R a by blast
  show "stays R (\<lambda>fs. with_message m (copyChiselSlices env d path fs))"
    unfolding stays_def with_message_ok using copyChiselSlices_R a by blast
  show "stays R (\<lambda>fs. with_message m (copyRootFs env source d fs))"
    unfolding stays_def with_message_ok using copyRootFs_R dir a by blast
  show "stays R (createTestsFolder env d)"
    unfolding stays_def using createTestsFolder_R a by blast
  show "stays R (only_if (r \<noteq> []) (\<lambda>fs. with_message m (CopyAndRenderFile env ctx r (fixUpReadme d r) fs)))"
    using CopyAndRenderFile_R[OF _ copy] fixed_up_keys(2)[OF conv] a
    by (intro only_if_stays) (simp add: stays_def)
  show "stays R (CopyAndRenderFile env ctx src (go_path_join [go_path_join [d, ''tests''], f]))" if "plain_name f"
    using CopyAndRenderFile_R[OF _ copy] fixed_up_keys(3)[OF that] area_child a(5) by (simp add: stays_def)
qed

lemma with_message_stays: "stays R f \<Longrightarrow> stays R (\<lambda>fs. with_message m (f fs))"
  by (simp add: stays_def)

lemma tag_tail_stays:
  assumes "dir_area (path_key d)" and "\<forall>x \<in> set extra_names. area (child (path_key d) x)"
    and "copies_files (rn_copy env)" and "conventional e (img_ReadmePath img)"
  shows "stays R (in_sequence (tl (tag_steps env d img ctx)))"
  unfolding tag_steps_def list.sel
  by (intro in_sequence_stays list.pred_inject(2)[THEN iffD2] conjI only_if_stays extras_stay[OF assms]
      plain_names list.pred_inject(1))

lemma variant_tail_stays:
  assumes "dir_area (path_key d)" and "\<forall>x \<in> set extra_names. area (child (path_key d) x)"
    and "copies_files (rn_copy env)" and "conventional e (var_ReadmePath v)"
  shows "stays R (in_sequence (tl (variant_steps env d img tag v ctx)))"
  unfolding variant_steps_def Let_def list.sel
  by (intro in_sequence_stays list.pred_inject(2)[THEN iffD2] conjI only_if_stays with_message_stays extras_stay[OF assms]
      plain_names list.pred_inject(1))

end

definition file_data :: "filesys \<Rightarrow> string \<Rightarrow> string option" where
  "file_data fs p = (case fs_node fs (path_key p) of Some (RegularFile data _) \<Rightarrow> Some data | _ \<Rightarrow> None)"

lemma file_data_cong: "fs_node fs' (path_key p) = fs_node fs (path_key p) \<Longrightarrow> file_data fs' p = file_data fs p"
  by (simp add: file_data_def)

lemma file_data_file: "file_data fs p = Some data \<Longrightarrow> is_file (fs_node fs (path_key p))"
  by (auto simp: file_data_def split: option.splits fnode.splits)

lemma untouched_data: "untouched (path_key p) fs fs' \<Longrightarrow> file_data fs p = Some data \<Longrightarrow> file_data fs' p = Some data"
  using file_data_cong file_data_file unfolding untouched_def by metis

lemma ReadFile_data: "os_ReadFile fs p = Inr data \<Longrightarrow> file_data fs p = Some data"
  by (auto simp: file_data_def dest: ReadFile_node)

lemma WriteFile_data: "os_WriteFile umask p data perm fs = (None, fs') \<Longrightarrow> file_data fs' p = Some data"
  using WriteFile_ok(2) by (fastforce simp: file_data_def)

lemma mkdir_data: "mkdir env p fs = (e, fs') \<Longrightarrow> file_data fs' q = file_data fs q"
proof -
  have "mkdir_from p perm ks fs = (e, fs') \<Longrightarrow> file_data fs' q = file_data fs q" for perm ks fs
  proof (induction ks arbitrary: fs)
    case (Cons k ks)
    have "file_data (mput k (Directory perm) fs) q = file_data fs q" if "fs_node fs k = None"
      using that by (auto simp: file_data_def fs_node_def split: if_splits)
    then show ?case using Cons by (auto split: option.splits fnode.splits)
  qed simp
  then show "mkdir env p fs = (e, fs') \<Longrightarrow> file_data fs' q = file_data fs q"
    by (auto simp: mkdir_def os_MkdirAll_def split: if_splits)
qed

lemma ReadAndRenderFile_cong:
  "read src = read' src \<Longrightarrow> ReadAndRenderFile read process src = ReadAndRenderFile read' process src"
  by (simp add: ReadAndRenderFile_def)

lemma CopyAndRenderFile_text:
  assumes "CopyAndRenderFile env ctx src target fs = Some (None, fs')" and "copies_files (rn_copy env)"
  obtains content where "ReadAndRenderFile (file_data fs) (rn_process env ctx) src = Inr content"
    and "file_data fs' target = Some content"
  using assms(1)
proof (rule CopyAndRenderFile_cases)
  assume "rn_copy env src target fs = (None, fs')"
    and plain: "length (go_trim_prefix (go_ext src) ''.'') < 2 \<or> \<not> has_processor (go_trim_prefix (go_ext src) ''.'')"
  then obtain data m m' where "fs_node fs (path_key src) = Some (RegularFile data m)"
    "fs_node fs' (path_key target) = Some (RegularFile data m')"
    using assms(2) unfolding copies_files_def by blast
  then show ?thesis using that plain by (auto simp: ReadAndRenderFile_def file_data_def Let_def)
next
  fix rendered
  assume r: "ReadAndRenderFile (read_file_of fs) (rn_process env ctx) src = Inr rendered"
    and w: "os_WriteFile (rn_umask env) target rendered 420 fs = (None, fs')"
  have "read_file_of fs src = file_data fs src"
    using r by (auto simp: ReadAndRenderFile_def read_file_of_def ReadFile_data split: option.splits sum.splits)
  then show ?thesis using that r WriteFile_data[OF w] ReadAndRenderFile_cong by metis
qed

lemma sibling_apart: "x \<noteq> y \<Longrightarrow> \<not> under (child d x) (child d y)"
  by (simp add: under_def child_def)

lemma entry_areas:
  "conventional e r \<Longrightarrow> e \<noteq> [] \<Longrightarrow> \<forall>x \<in> set extra_names. \<not> under (child (path_key d) x) (path_key (fixUpEntrypoint d e))"
proof
  fix x
  assume c: "conventional e r" "e \<noteq> []" and "x \<in> set extra_names"
  then have "x \<noteq> go_base (RemoveTemplateExt e)" using entry_not_extra unfolding conventional_def by metis
  then show "\<not> under (child (path_key d) x) (path_key (fixUpEntrypoint d e))"
    unfolding fixed_up_keys(1)[OF c] by (rule sibling_apart)
qed

text \<open>What a tag's directory holds as its entry point: the source, rendered with the values of the tag.\<close>

lemma setup_tag_entry:
  assumes run: "setupImageTagDir env d img tag fs = Some (None, fs')" and copy: "copies_files (rn_copy env)"
    and conv: "conventional (img_BuildEntryPointPath img) (img_ReadmePath img)" and e: "img_BuildEntryPointPath img \<noteq> []"
  obtains resolved content where "ForTag (rn_secrets env) img tag = Inr resolved"
    and "ReadAndRenderFile (file_data fs) (rn_process env (newTemplateContext img resolved)) (img_BuildEntryPointPath img) = Inr content"
    and "file_data fs' (fixUpEntrypoint d (img_BuildEntryPointPath img)) = Some content"
proof -
  let ?e = "img_BuildEntryPointPath img" and ?k = "path_key (fixUpEntrypoint d (img_BuildEntryPointPath img))"
  note areas = entry_areas[OF conv e, of d]
  obtain fs1 resolved where mk: "mkdir env d fs = (None, fs1)" and res: "ForTag (rn_secrets env) img tag = Inr resolved"
    and steps: "in_sequence (tag_steps env d img (newTemplateContext img resolved)) fs1 = Some (None, fs')"
    using run unfolding setupImageTagDir_def in_sequence_ok
    by (cases "ForTag (rn_secrets env) img tag") (auto simp del: in_sequence.simps(2) simp: in_sequence.simps(1))
  let ?ctx = "newTemplateContext img resolved"
  obtain fs2 where first: "hd (tag_steps env d img ?ctx) fs1 = Some (None, fs2)"
    and tail: "in_sequence (tl (tag_steps env d img ?ctx)) fs2 = Some (None, fs')"
    using steps in_sequence_ok[of "hd (tag_steps env d img ?ctx)" "tl (tag_steps env d img ?ctx)"]
    by (auto simp: tag_steps_def)
  obtain fs3 fs4 where c: "CopyAndRenderFile env ?ctx ?e (fixUpEntrypoint d ?e) fs1 = Some (None, fs3)"
    and f: "with_message ''failed to copy flake.lock'' (copyFlakeLock env d ?e fs3) = Some (None, fs4)"
    and s: "with_message ''failed to copy chisel slices'' (copyChiselSlices env d ?e fs4) = Some (None, fs2)"
    using first e unfolding tag_steps_def list.sel only_if_ok in_sequence_ok by auto
  obtain content where content: "ReadAndRenderFile (file_data fs1) (rn_process env ?ctx) ?e = Inr content"
    and data: "file_data fs3 (fixUpEntrypoint d ?e) = Some content"
    using c copy by (rule CopyAndRenderFile_text)
  have "untouched ?k fs3 fs4" using staysD[OF apart.extras_stay(1)[OF TrueI areas copy conv] f] .
  moreover have "untouched ?k fs4 fs2" using staysD[OF apart.extras_stay(2)[OF TrueI areas copy conv] s] .
  moreover have "untouched ?k fs2 fs'" using staysD[OF apart.tag_tail_stays[OF TrueI areas copy conv] tail] .
  ultimately have "file_data fs' (fixUpEntrypoint d ?e) = Some content"
    using untouched_data data by blast
  then show ?thesis using that res content ReadAndRenderFile_cong[of "file_data fs1" ?e "file_data fs"] mkdir_data[OF mk] by metis
qed

text \<open>A variant's entry point names the image of its tag where the source has the placeholder.\<close>

definition parent_reference :: "string \<Rightarrow> string \<Rightarrow> string" where
  "parent_reference name tag = ''__hive__/'' @ name @ '':'' @ tag"

lemma replaceHiveParent_data:
  assumes "replaceHiveParent env p name tag fs = Some (None, fs')" and "file_data fs p = Some content"
  shows "file_data fs' p = Some (go_replace_all HiveParentPlaceholder (parent_reference name tag) content)"
proof -
  obtain data where r: "os_ReadFile fs p = Inr data" using assms(1)
    by (cases "os_ReadFile fs p") (auto simp: replaceHiveParent_def)
  then have "data = content" using ReadFile_data assms(2) by fastforce
  then show ?thesis
    using assms r WriteFile_data go_replace_all_absent
    by (auto simp: replaceHiveParent_def parent_reference_def Let_def split: if_splits)
qed

lemma setup_variant_entry:
  assumes run: "setupVariantDir env d img tagName tag v fs = Some (None, fs')" and copy: "copies_files (rn_copy env)"
    and conv: "conventional (var_BuildEntryPointPath v) (var_ReadmePath v)" and e: "var_BuildEntryPointPath v \<noteq> []"
  obtains resolved content where "ForTagVariant (rn_secrets env) img v tag = Inr resolved"
    and "ReadAndRenderFile (file_data fs) (rn_process env (newTemplateContext img resolved)) (var_BuildEntryPointPath v) = Inr content"
    and "file_data fs' (fixUpEntrypoint d (var_BuildEntryPointPath v))
      = Some (go_replace_all HiveParentPlaceholder (parent_reference (img_Name img) tagName) content)"
proof -
  let ?e = "var_BuildEntryPointPath v" and ?k = "path_key (fixUpEntrypoint d (var_BuildEntryPointPath v))"
  note areas = entry_areas[OF conv e, of d]
  obtain fs1 resolved where mk: "mkdir env d fs = (None, fs1)" and res: "ForTagVariant (rn_secrets env) img v tag = Inr resolved"
    and steps: "in_sequence (variant_steps env d img tagName v (newTemplateContext img resolved)) fs1 = Some (None, fs')"
    using run unfolding setupVariantDir_def in_sequence_ok
    by (cases "ForTagVariant (rn_secrets env) img v tag") (auto simp: in_sequence_ok simp del: in_sequence.simps(2))
  let ?ctx = "newTemplateContext img resolved"
  obtain fs2 where first: "hd (variant_steps env d img tagName v ?ctx) fs1 = Some (None, fs2)"
    and tail: "in_sequence (tl (variant_steps env d img tagName v ?ctx)) fs2 = Some (None, fs')"
    using steps in_sequence_ok[of "hd (variant_steps env d img tagName v ?ctx)" "tl (variant_steps env d img tagName v ?ctx)"]
    by (auto simp: variant_steps_def simp del: in_sequence.simps(2))
  obtain fs3 fs4 fs5 where c: "CopyAndRenderFile env ?ctx ?e (fixUpEntrypoint d ?e) fs1 = Some (None, fs3)"
    and f: "with_message ''failed to copy flake.lock for variant'' (copyFlakeLock env d ?e fs3) = Some (None, fs4)"
    and s: "with_message ''failed to copy chisel slices for variant'' (copyChiselSlices env d ?e fs4) = Some (None, fs5)"
    and p: "replaceHiveParent env (fixUpEntrypoint d ?e) (img_Name img) tagName fs5 = Some (None, fs2)"
    using first e unfolding variant_steps_def Let_def list.sel only_if_ok in_sequence_ok by auto
  obtain content where content: "ReadAndRenderFile (file_data fs1) (rn_process env ?ctx) ?e = Inr content"
    and data: "file_data fs3 (fixUpEntrypoint d ?e) = Some content"
    using c copy by (rule CopyAndRenderFile_text)
  have "untouched ?k fs3 fs4" using staysD[OF apart.extras_stay(1)[OF TrueI areas copy conv] f] .
  moreover have "untouched ?k fs4 fs5" using staysD[OF apart.extras_stay(2)[OF TrueI areas copy conv] s] .
  ultimately have "file_data fs5 (fixUpEntrypoint d ?e) = Some content"
    using untouched_data data by blast
  note replaced = replaceHiveParent_data[OF p this]
  have "untouched ?k fs2 fs'" using staysD[OF apart.variant_tail_stays[OF TrueI areas copy conv] tail] .
  note final = untouched_data[OF this replaced]
  show ?thesis
    using that[OF res _ final] content ReadAndRenderFile_cong[of "file_data fs1" ?e "file_data fs"] mkdir_data[OF mk] by metis
qed

section \<open>All tasks in any order\<close>

definition name_tasks :: "string \<Rightarrow> string \<times> Image list \<Rightarrow> render_task list" where
  "name_tasks targetPath ni =
     concat (map (\<lambda>t. t # spawned t) (processImagesForName (go_path_join [targetPath, fst ni]) (snd ni)))"

definition project_tasks :: "ContainerHiveProject \<Rightarrow> string \<Rightarrow> render_task list" where
  "project_tasks project targetPath = concat (map (name_tasks targetPath) (pr_ImagesByName project))"

lemma spawned_twice: "u \<in> set (spawned t) \<Longrightarrow> spawned u = []"
  by (cases t) auto

lemma name_tasks_iff:
  "t \<in> set (name_tasks target ni) \<longleftrightarrow>
   (\<exists>u \<in> set (processImagesForName (go_path_join [target, fst ni]) (snd ni)). t = u \<or> t \<in> set (spawned u))"
  by (auto simp: name_tasks_def)

lemma project_tasks_spawned: "t \<in> set (project_tasks project target) \<Longrightarrow> set (spawned t) \<subseteq> set (project_tasks project target)"
  by (fastforce simp: project_tasks_def name_tasks_iff dest: spawned_twice)

lemma name_in_project:
  assumes "ni \<in> set (pr_ImagesByName project)"
  shows "set (processImagesForName (go_path_join [target, fst ni]) (snd ni)) \<subseteq> set (project_tasks project target)"
proof
  fix t
  assume "t \<in> set (processImagesForName (go_path_join [target, fst ni]) (snd ni))"
  then have "t \<in> set (name_tasks target ni)" by (auto simp: name_tasks_iff)
  then show "t \<in> set (project_tasks project target)" using assms by (auto simp: project_tasks_def)
qed

text \<open>
  What holds after each task, and is kept by the others, holds in the end.  \<open>J\<close> is an invariant of
  the disk under directories made and tasks run.
\<close>

definition task_left :: "string \<Rightarrow> render_state \<Rightarrow> render_task \<Rightarrow> bool" where
  "task_left target st t \<longleftrightarrow> (\<exists>u \<in> set (rd_tasks st). t = u \<or> t \<in> set (spawned u))
     \<or> (\<exists>ni \<in> set (rd_names st). t \<in> set (name_tasks target ni))"

lemma render_invariant:
  assumes run: "\<And>t fs fs'. t \<in> set (project_tasks project target) \<Longrightarrow> J fs \<Longrightarrow> run_task env t fs = Some (None, fs') \<Longrightarrow>
      J fs' \<and> post t fs' \<and> (\<forall>u \<in> set (project_tasks project target). post u fs \<longrightarrow> post u fs')"
    and mk: "\<And>p fs fs'. J fs \<Longrightarrow> mkdir env p fs = (None, fs') \<Longrightarrow>
      J fs' \<and> (\<forall>u \<in> set (project_tasks project target). post u fs \<longrightarrow> post u fs')"
    and J: "J (os_RemoveAll target fs)" and done': "RenderProject env project target fs fs'"
    and t: "t \<in> set (project_tasks project target)"
  shows "post t fs'"
proof -
  let ?P = "set (project_tasks project target)"
  define inv where "inv st \<longleftrightarrow> rd_errs st \<noteq> [] \<or> J (rd_fs st) \<and> set (rd_tasks st) \<subseteq> ?P
      \<and> set (rd_names st) \<subseteq> set (pr_ImagesByName project) \<and> (\<forall>t \<in> ?P. post t (rd_fs st) \<or> task_left target st t)" for st
  have step: "inv st'" if "render_step env target st st'" "inv st" for st st'
    using that
  proof cases
    case (start name images names fs1)
    show ?thesis
    proof (cases "rd_errs st = []")
      case True
      note I = that(2)[unfolded inv_def] True
      have "J fs1 \<and> (\<forall>u \<in> ?P. post u (rd_fs st) \<longrightarrow> post u fs1)" using mk[OF _ start(3)] I by blast
      moreover have "set (processImagesForName (go_path_join [target, name]) images) \<subseteq> ?P"
        using name_in_project[of "(name, images)" project target] I start(2) by auto
      moreover have "task_left target st' u" if "task_left target st u" for u
        using that start by (auto simp: task_left_def name_tasks_iff)
      ultimately show ?thesis using I start by (auto simp: inv_def)
    qed (use start in \<open>simp add: inv_def\<close>)
  next
    case (run ts1 u ts2 fs1)
    show ?thesis
    proof (cases "rd_errs st = []")
      case True
      note I = that(2)[unfolded inv_def] True
      have u: "u \<in> ?P" using I run(2) by auto
      have kept: "J fs1 \<and> post u fs1 \<and> (\<forall>v \<in> ?P. post v (rd_fs st) \<longrightarrow> post v fs1)"
        using assms(1)[OF u _ run(3)] I by blast
      have left: "task_left target st' v \<or> v = u" if "task_left target st v" for v
        using that run by (auto simp: task_left_def)
      have "\<forall>v \<in> ?P. post v fs1 \<or> task_left target st' v" using I kept left by blast
      then show ?thesis using I run kept project_tasks_spawned[OF u] by (simp add: inv_def)
    qed (use run in \<open>simp add: inv_def\<close>)
  qed (simp_all add: inv_def)
  from done' obtain st where steps: "(render_step env target)\<^sup>*\<^sup>* (render_start env project target fs) st"
    and final: "rd_names st = []" "rd_tasks st = []" "rd_errs st = []" "rd_fs st = fs'"
    unfolding RenderProject_def by blast
  obtain e fs0 where m: "mkdir env target (os_RemoveAll target fs) = (e, fs0)" by fastforce
  have "inv (render_start env project target fs)"
  proof (cases e)
    case None
    then show ?thesis
      using mk[OF J m[unfolded None]] m by (auto simp: render_start_def inv_def task_left_def project_tasks_def)
  qed (simp add: render_start_def inv_def m)
  with steps have "inv st" by (induction rule: rtranclp_induct) (blast intro: step)+
  then show ?thesis using final t by (auto simp: inv_def task_left_def)
qed

section \<open>What rendering leaves\<close>

fun task_dir :: "render_task \<Rightarrow> string" where
  "task_dir (TagTask rootPath imageDef tag tagDef) = go_path_join [rootPath, tag]"
| "task_dir (VariantTask rootPath imageDef tag tagDef variantDef) = go_path_join [rootPath, tag @ var_TagSuffix variantDef]"

fun task_source :: "render_task \<Rightarrow> string" where
  "task_source (TagTask rootPath imageDef tag tagDef) = img_BuildEntryPointPath imageDef"
| "task_source (VariantTask rootPath imageDef tag tagDef variantDef) = var_BuildEntryPointPath variantDef"

fun task_readme :: "render_task \<Rightarrow> string" where
  "task_readme (TagTask rootPath imageDef tag tagDef) = img_ReadmePath imageDef"
| "task_readme (VariantTask rootPath imageDef tag tagDef variantDef) = var_ReadmePath variantDef"

fun task_context :: "render_env \<Rightarrow> render_task \<Rightarrow> (string \<times> secret_error) + TemplateContext" where
  "task_context env (TagTask rootPath imageDef tag tagDef) =
     res_bind (ForTag (rn_secrets env) imageDef tagDef) (\<lambda>r. Inr (newTemplateContext imageDef r))"
| "task_context env (VariantTask rootPath imageDef tag tagDef variantDef) =
     res_bind (ForTagVariant (rn_secrets env) imageDef variantDef tagDef) (\<lambda>r. Inr (newTemplateContext imageDef r))"

fun task_finish :: "render_task \<Rightarrow> string \<Rightarrow> string" where
  "task_finish (TagTask rootPath imageDef tag tagDef) content = content"
| "task_finish (VariantTask rootPath imageDef tag tagDef variantDef) content =
     go_replace_all HiveParentPlaceholder (parent_reference (img_Name imageDef) tag) content"

definition task_entry :: "render_task \<Rightarrow> string" where
  "task_entry t = fixUpEntrypoint (task_dir t) (task_source t)"

text \<open>The entry point of a task's directory: its source on the disk \<open>fs0\<close>, rendered, and finished.\<close>

definition entry_holds :: "render_env \<Rightarrow> filesys \<Rightarrow> render_task \<Rightarrow> filesys \<Rightarrow> bool" where
  "entry_holds env fs0 t fs \<longleftrightarrow> task_source t = [] \<or>
     (case task_context env t of
        Inl _ \<Rightarrow> False
      | Inr ctx \<Rightarrow>
          (case ReadAndRenderFile (file_data fs0) (rn_process env ctx) (task_source t) of
             Inl _ \<Rightarrow> False | Inr content \<Rightarrow> file_data fs (task_entry t) = Some (task_finish t content)))"

context disk_change
begin

lemma first_stays:
  assumes "dir_area (path_key d)" and "\<forall>x \<in> set extra_names. area (child (path_key d) x)"
    and copy: "copies_files (rn_copy env)"
  shows "conventional (img_BuildEntryPointPath img) r \<Longrightarrow>
      (img_BuildEntryPointPath img \<noteq> [] \<Longrightarrow> area (path_key (fixUpEntrypoint d (img_BuildEntryPointPath img)))) \<Longrightarrow>
      stays R (hd (tag_steps env d img ctx))"
    and "conventional (var_BuildEntryPointPath v) r \<Longrightarrow>
      (var_BuildEntryPointPath v \<noteq> [] \<Longrightarrow> area (path_key (fixUpEntrypoint d (var_BuildEntryPointPath v)))) \<Longrightarrow>
      stays R (hd (variant_steps env d img tag v ctx))"
proof -
  have c: "stays R (\<lambda>fs. with_message m (CopyAndRenderFile env ctx src target fs))" if "area (path_key target)" for m src target
    using CopyAndRenderFile_R[OF _ copy that] by (simp add: stays_def)
  have p: "stays R (\<lambda>fs. with_message m (replaceHiveParent env target name tag fs))" if "area (path_key target)" for m target name tag
    using replaceHiveParent_R[OF _ that] by (simp add: stays_def)
  show "stays R (hd (tag_steps env d img ctx))"
    if "conventional (img_BuildEntryPointPath img) r"
      and "img_BuildEntryPointPath img \<noteq> [] \<Longrightarrow> area (path_key (fixUpEntrypoint d (img_BuildEntryPointPath img)))"
    using that(2) unfolding tag_steps_def list.sel
    by (intro only_if_stays in_sequence_stays list.pred_inject(2)[THEN iffD2] conjI list.pred_inject(1) c
        extras_stay(1,2)[OF assms that(1)])
  show "stays R (hd (variant_steps env d img tag v ctx))"
    if "conventional (var_BuildEntryPointPath v) r"
      and "var_BuildEntryPointPath v \<noteq> [] \<Longrightarrow> area (path_key (fixUpEntrypoint d (var_BuildEntryPointPath v)))"
    using that(2) unfolding variant_steps_def Let_def list.sel
    by (intro only_if_stays in_sequence_stays list.pred_inject(2)[THEN iffD2] conjI list.pred_inject(1) c p
        extras_stay(1,2)[OF assms that(1)])
qed

lemma hd_tl_R:
  assumes "in_sequence fns fs = Some (None, fs')" and "fns \<noteq> []" and "stays R (hd fns)" and "stays R (in_sequence (tl fns))"
  shows "R fs fs'"
proof (cases fns)
  case (Cons f gs)
  obtain fs1 where "f fs = Some (None, fs1)" "in_sequence gs fs1 = Some (None, fs')"
    using assms(1) unfolding Cons in_sequence_ok by blast
  then show ?thesis using assms(3,4) R_trans staysD unfolding Cons list.sel by blast
qed (use assms(2) in simp)

text \<open>A task only changes its own directory: its entry point and the extra names.\<close>

lemma run_task_R:
  assumes run: "run_task env t fs = Some (None, fs')" and copy: "copies_files (rn_copy env)"
    and conv: "conventional (task_source t) (task_readme t)" and dir: "dir_area (path_key (task_dir t))"
    and areas: "\<forall>x \<in> set extra_names. area (child (path_key (task_dir t)) x)"
    and e: "task_source t \<noteq> [] \<Longrightarrow> area (path_key (task_entry t))"
  shows "R fs fs'"
proof (cases t)
  case (TagTask rootPath img tag td)
  let ?d = "go_path_join [rootPath, tag]"
  obtain fs1 resolved where mk: "mkdir env ?d fs = (None, fs1)"
    and steps: "in_sequence (tag_steps env ?d img (newTemplateContext img resolved)) fs1 = Some (None, fs')"
    using run unfolding TagTask run_task.simps setupImageTagDir_def in_sequence_ok
    by (cases "ForTag (rn_secrets env) img td") (auto simp del: in_sequence.simps(2) simp: in_sequence.simps(1))
  have "R fs fs1" using mkdir_stays[OF _ mk] dir TagTask by simp
  moreover have "R fs1 fs'"
    using steps
  proof (rule hd_tl_R)
    show "stays R (hd (tag_steps env ?d img (newTemplateContext img resolved)))"
      using first_stays(1)[OF _ _ copy, of ?d img] assms(3-6) TagTask by (simp add: task_entry_def)
    show "stays R (in_sequence (tl (tag_steps env ?d img (newTemplateContext img resolved))))"
      using tag_tail_stays[OF _ _ copy, of ?d] assms(3-6) TagTask by simp
  qed (simp add: tag_steps_def)
  ultimately show ?thesis by (rule R_trans)
next
  case (VariantTask rootPath img tag td v)
  let ?d = "go_path_join [rootPath, tag @ var_TagSuffix v]"
  obtain fs1 resolved where mk: "mkdir env ?d fs = (None, fs1)"
    and steps: "in_sequence (variant_steps env ?d img tag v (newTemplateContext img resolved)) fs1 = Some (None, fs')"
    using run unfolding VariantTask run_task.simps setupVariantDir_def
    by (cases "ForTagVariant (rn_secrets env) img v td") (auto simp: in_sequence_ok simp del: in_sequence.simps(2))
  have "R fs fs1" using mkdir_stays[OF _ mk] dir VariantTask by simp
  moreover have "R fs1 fs'"
    using steps
  proof (rule hd_tl_R)
    show "stays R (hd (variant_steps env ?d img tag v (newTemplateContext img resolved)))"
      using first_stays(2)[OF _ _ copy, of ?d v] assms(3-6) VariantTask by (simp add: task_entry_def)
    show "stays R (in_sequence (tl (variant_steps env ?d img tag v (newTemplateContext img resolved))))"
      using variant_tail_stays[OF _ _ copy, of ?d] assms(3-6) VariantTask by simp
  qed (simp add: variant_steps_def)
  ultimately show ?thesis by (rule R_trans)
qed

end

lemma run_task_entry:
  assumes run: "run_task env t fs = Some (None, fs')" and copy: "copies_files (rn_copy env)"
    and conv: "conventional (task_source t) (task_readme t)" and src: "file_data fs (task_source t) = file_data fs0 (task_source t)"
  shows "entry_holds env fs0 t fs'"
proof (cases "task_source t = []")
  case e: False
  note cong = ReadAndRenderFile_cong[of "file_data fs" "task_source t" "file_data fs0"]
  show ?thesis
  proof (cases t)
    case (TagTask rootPath img tag td)
    have "setupImageTagDir env (go_path_join [rootPath, tag]) img td fs = Some (None, fs')"
      "conventional (img_BuildEntryPointPath img) (img_ReadmePath img)" "img_BuildEntryPointPath img \<noteq> []"
      using run conv e TagTask by simp_all
    then obtain resolved content where "ForTag (rn_secrets env) img td = Inr resolved"
      and "ReadAndRenderFile (file_data fs) (rn_process env (newTemplateContext img resolved)) (img_BuildEntryPointPath img) = Inr content"
      and "file_data fs' (fixUpEntrypoint (go_path_join [rootPath, tag]) (img_BuildEntryPointPath img)) = Some content"
      by (rule setup_tag_entry[OF _ copy])
    then show ?thesis
      using cong src unfolding TagTask by (simp add: entry_holds_def task_entry_def)
  next
    case (VariantTask rootPath img tag td v)
    have "setupVariantDir env (go_path_join [rootPath, tag @ var_TagSuffix v]) img tag td v fs = Some (None, fs')"
      "conventional (var_BuildEntryPointPath v) (var_ReadmePath v)" "var_BuildEntryPointPath v \<noteq> []"
      using run conv e VariantTask by simp_all
    then obtain resolved content where "ForTagVariant (rn_secrets env) img v td = Inr resolved"
      and "ReadAndRenderFile (file_data fs) (rn_process env (newTemplateContext img resolved)) (var_BuildEntryPointPath v) = Inr content"
      and "file_data fs' (fixUpEntrypoint (go_path_join [rootPath, tag @ var_TagSuffix v]) (var_BuildEntryPointPath v))
        = Some (go_replace_all HiveParentPlaceholder (parent_reference (img_Name img) tag) content)"
      by (rule setup_variant_entry[OF _ copy])
    then show ?thesis
      using cong src unfolding VariantTask by (simp add: entry_holds_def task_entry_def)
  qed
qed (simp add: entry_holds_def)

text \<open>
  The layout of a project: sources lie outside of the target, and the directories in the target are neither equal nor nested.
  Discovery sees to the usual names of entry points and READMEs.
\<close>

definition usual_names :: "ContainerHiveProject \<Rightarrow> string \<Rightarrow> bool" where
  "usual_names project target \<longleftrightarrow> list_all (\<lambda>t. conventional (task_source t) (task_readme t)) (project_tasks project target)"

definition well_placed :: "ContainerHiveProject \<Rightarrow> string \<Rightarrow> bool" where
  "well_placed project target \<longleftrightarrow> list_all (\<lambda>t.
     \<not> under (path_key target) (path_key (task_source t)) \<and> under (path_key target) (path_key (task_dir t))
     \<and> list_all (\<lambda>u. u = t \<or> \<not> under (path_key (task_dir t)) (path_key (task_dir u))) (project_tasks project target))
     (project_tasks project target)"

lemma outside_data:
  assumes "outside d fs fs'" and "\<not> under d (path_key p)"
  shows "file_data fs' p = file_data fs p"
proof -
  have "fs_node fs' (path_key p) = fs_node fs (path_key p)
      \<or> fs_node fs (path_key p) = None \<and> is_dir (fs_node fs' (path_key p))"
    using assms unfolding outside_def by blast
  then show ?thesis by (auto simp: file_data_def is_dir_iff)
qed

lemma RemoveAll_data:
  assumes "\<not> under (path_key target) (path_key p)"
  shows "file_data (os_RemoveAll target fs) p = file_data fs p"
proof -
  have "map_of (filter (\<lambda>kn. \<not> under d (fst kn)) fs) k = map_of fs k" if "\<not> under d k" for d k
    using that by (induction fs) auto
  then show ?thesis using assms by (simp add: file_data_def os_RemoveAll_def fs_node_def)
qed

lemma task_entry_under:
  assumes "conventional (task_source t) (task_readme t)" and "task_source t \<noteq> []"
  shows "under (path_key (task_dir t)) (path_key (task_entry t))"
  using fixed_up_keys(1)[OF assms] by (simp add: task_entry_def)

lemma rendered_entries:
  assumes done': "RenderProject env project target fs fs'" and copy: "copies_files (rn_copy env)"
    and usual: "usual_names project target" and placed: "well_placed project target" and t: "t \<in> set (project_tasks project target)"
  shows "entry_holds env fs t fs'"
proof -
  let ?P = "set (project_tasks project target)"
  let ?J = "\<lambda>fs1. \<forall>t \<in> ?P. file_data fs1 (task_source t) = file_data fs (task_source t)"
  have conv: "conventional (task_source u) (task_readme u)" if "u \<in> ?P" for u
    using usual that by (auto simp: usual_names_def list_all_iff)
  have src: "\<not> under (path_key target) (path_key (task_source u))"
    and dir: "under (path_key target) (path_key (task_dir u))" if "u \<in> ?P" for u
    using placed that by (auto simp: well_placed_def list_all_iff)
  have apart_dirs: "\<not> under (path_key (task_dir u)) (path_key (task_dir v))" if "u \<in> ?P" "v \<in> ?P" "u \<noteq> v" for u v
    using placed that by (auto simp: well_placed_def list_all_iff)
  have keep: "entry_holds env fs u fs2" if u: "u \<in> ?P" and h: "entry_holds env fs u fs1"
    and same: "task_source u \<noteq> [] \<Longrightarrow> untouched (path_key (task_entry u)) fs1 fs2" for u fs1 fs2
    using h untouched_data[OF same] by (cases "task_source u = []") (auto simp: entry_holds_def split: sum.splits)
  have run: "?J fs2 \<and> entry_holds env fs u fs2 \<and> (\<forall>v \<in> ?P. entry_holds env fs v fs1 \<longrightarrow> entry_holds env fs v fs2)"
    if u: "u \<in> ?P" and J: "?J fs1" and r: "run_task env u fs1 = Some (None, fs2)" for u fs1 fs2
  proof (intro conjI ballI impI)
    have "outside (path_key target) fs1 fs2"
      using r copy conv[OF u] dir[OF u] task_entry_under[OF conv[OF u]] under_trans under_child
      by (intro elsewhere.run_task_R) blast+
    then show "file_data fs2 (task_source v) = file_data fs (task_source v)" if "v \<in> ?P" for v
      using outside_data src[OF that] J that by metis
    show here: "entry_holds env fs u fs2" using run_task_entry[OF r copy conv[OF u]] J u by blast
    fix v
    assume v: "v \<in> ?P" and h: "entry_holds env fs v fs1"
    show "entry_holds env fs v fs2"
    proof (cases "v = u")
      case False
      have no: "\<not> under k (path_key (task_entry v))" if "under (path_key (task_dir u)) k" "task_source v \<noteq> []" for k
        using apart_dirs[OF u v] apart_dirs[OF v u] False that task_entry_under[OF conv[OF v]] under_trans under_linear by metis
      show ?thesis
        using v h
      proof (rule keep)
        assume e: "task_source v \<noteq> []"
        show "untouched (path_key (task_entry v)) fs1 fs2"
          using r copy conv[OF u] no[OF _ e] task_entry_under[OF conv[OF u]] under_child
          by (intro apart.run_task_R) blast+
      qed
    qed (use here in simp)
  qed
  have mk: "?J fs2 \<and> (\<forall>v \<in> ?P. entry_holds env fs v fs1 \<longrightarrow> entry_holds env fs v fs2)"
    if "?J fs1" "mkdir env p fs1 = (None, fs2)" for p fs1 fs2
  proof -
    have "entry_holds env fs v fs2 = entry_holds env fs v fs1" for v
      unfolding entry_holds_def mkdir_data[OF that(2)] by (rule refl)
    then show ?thesis using that mkdir_data[OF that(2)] by simp
  qed
  have J0: "?J (os_RemoveAll target fs)" using RemoveAll_data[OF src] by blast
  show ?thesis
    by (rule render_invariant[where J = ?J and post = "entry_holds env fs", OF run mk J0 done' t])
qed

section \<open>Running it\<close>

text \<open>One schedule: the oldest task first, and a new name when none is left.\<close>

definition render_next :: "render_env \<Rightarrow> string \<Rightarrow> render_state \<Rightarrow> render_state option" where
  "render_next env target st =
     (case rd_tasks st of
        t # ts \<Rightarrow>
          (case run_task env t (rd_fs st) of
             None \<Rightarrow> None
           | Some (None, fs) \<Rightarrow> Some (st\<lparr>rd_fs := fs, rd_tasks := ts @ spawned t\<rparr>)
           | Some (Some e, fs) \<Rightarrow> Some (st\<lparr>rd_fs := fs, rd_tasks := ts, rd_errs := rd_errs st @ [e]\<rparr>))
      | [] \<Rightarrow>
          (case rd_names st of
             [] \<Rightarrow> None
           | (name, images) # names \<Rightarrow>
               (case mkdir env (go_path_join [target, name]) (rd_fs st) of
                  (None, fs) \<Rightarrow> Some (st\<lparr>rd_fs := fs, rd_names := names,
                    rd_tasks := processImagesForName (go_path_join [target, name]) images\<rparr>)
                | (Some e, fs) \<Rightarrow> Some (st\<lparr>rd_fs := fs, rd_names := [],
                    rd_errs := rd_errs st @ [Joined (''failed to create image directory for '' @ name) (OsFailed e)]\<rparr>))))"

primrec render_many :: "nat \<Rightarrow> render_env \<Rightarrow> string \<Rightarrow> render_state \<Rightarrow> render_state" where
  "render_many 0 env target st = st"
| "render_many (Suc n) env target st =
     (case render_next env target st of None \<Rightarrow> st | Some st \<Rightarrow> render_many n env target st)"

lemma render_next_step: "render_next env target st = Some st' \<Longrightarrow> render_step env target st st'"
proof (cases "rd_tasks st")
  case Nil
  assume "render_next env target st = Some st'"
  then show ?thesis
    using Nil render_step.start[of st _ _ _ env target] render_step.stop[of st _ _ _ env target]
    by (auto simp: render_next_def split: list.splits prod.splits option.splits)
next
  case (Cons t ts)
  assume "render_next env target st = Some st'"
  then show ?thesis
    using Cons render_step.run[of st "[]" t ts env] render_step.fail[of st "[]" t ts env]
    by (auto simp: render_next_def split: prod.splits option.splits)
qed

lemma render_many_steps: "(render_step env target)\<^sup>*\<^sup>* st (render_many n env target st)"
proof (induction n arbitrary: st)
  case (Suc n)
  then show ?case
    by (auto split: option.split intro: converse_rtranclp_into_rtranclp render_next_step)
qed simp

definition render_finished :: "render_state \<Rightarrow> bool" where
  "render_finished st \<longleftrightarrow> rd_names st = [] \<and> rd_tasks st = [] \<and> rd_errs st = []"

lemma render_many_done:
  "render_finished (render_many n env target (render_start env project target fs)) \<Longrightarrow>
   RenderProject env project target fs (rd_fs (render_many n env target (render_start env project target fs)))"
  using render_many_steps unfolding RenderProject_def render_finished_def by blast

end
