(* ===== verification/Query_Cache.thy ===== *)
theory Query_Cache
  imports Main
begin

text \<open>
  The interface of a cache to those who query it: a query keeps an invariant of the cache, and an answer is
  acceptable for its query.  Then so are all answers of a run of queries.  The version cache and the cache of
  documentation pages provide it.
\<close>

locale query_cache =
  fixes query :: "'q \<Rightarrow> 's \<Rightarrow> ('e + 'a) \<times> 's"
    and inv :: "'s \<Rightarrow> bool"
    and acceptable :: "'q \<Rightarrow> 'a \<Rightarrow> bool"
  assumes query_inv: "inv s \<Longrightarrow> inv (snd (query q s))"
    and query_sound: "inv s \<Longrightarrow> fst (query q s) = Inr a \<Longrightarrow> acceptable q a"
begin

fun run :: "'q list \<Rightarrow> 's \<Rightarrow> ('q \<times> ('e + 'a)) list \<times> 's" where
  "run [] s = ([], s)"
| "run (q # qs) s =
     (let (r, s) = query q s; (rs, s) = run qs s in ((q, r) # rs, s))"

lemma run_inv: "inv s \<Longrightarrow> inv (snd (run qs s))"
proof (induction qs arbitrary: s)
  case (Cons q qs)
  then show ?case
    using query_inv[OF Cons.prems, of q] Cons.IH[of "snd (query q s)"] by (simp add: case_prod_unfold Let_def)
qed simp

lemma run_sound: "inv s \<Longrightarrow> (q, Inr a) \<in> set (fst (run qs s)) \<Longrightarrow> acceptable q a"
proof (induction qs arbitrary: s)
  case (Cons q' qs)
  obtain r s' where q': "query q' s = (r, s')" by fastforce
  have "inv s'" using query_inv[OF Cons.prems(1), of q'] q' by simp
  then show ?case
    using Cons.IH[of s'] Cons.prems query_sound[of s q' a] q' by (auto split: prod.splits)
qed simp

end

end
