(* ===== verification/Version_Cache.thy ===== *)
theory Version_Cache
  imports Query_Cache Tag_Ranges Go_Paths
begin

text \<open>
  \<open>internal/tagrange/cache.go\<close>, \<open>source/source.go\<close> and the resolver of \<open>resolve.go\<close>: versions
  fetched from a source are kept in memory and on disk until they expire.  The state of a cache
  is passed explicitly; the clock is the function of calls \<open>now\<close> stands for, with the number of
  calls in the state.  The digest, the JSON codec, the duration parser and the outcomes of the file
  system calls are parameters.
\<close>

section \<open>Sources\<close>

record Version =
  ve_Raw :: string
  ve_Prerelease :: bool
  ve_Extra :: "(string, string) gomap"

text \<open>A \<open>VersionSource\<close>: the methods of the interface.\<close>

record VersionSource =
  vs_Name :: string
  vs_Validate :: "SourceConfig \<Rightarrow> string option"
  vs_Descriptor :: "SourceConfig \<Rightarrow> string"
  vs_CacheKeyParts :: "SourceConfig \<Rightarrow> string list"
  vs_Fetch :: "SourceConfig \<Rightarrow> string + Version list"

type_synonym Registry = "(string, VersionSource) gomap"

definition NewRegistry :: "VersionSource list \<Rightarrow> Registry" where
  "NewRegistry sources = fold (\<lambda>s r. mput (vs_Name s) s r) sources []"

definition GetSource :: "Registry \<Rightarrow> string \<Rightarrow> range_error + VersionSource" where
  "GetSource r sourceType =
     (case mget r sourceType of None \<Rightarrow> Inl (SourceFailed sourceType) | Some s \<Rightarrow> Inr s)"

text \<open>\<open>dockerHubAlias\<close> embeds the registry source and renames it.\<close>

definition dockerHubAlias :: "VersionSource \<Rightarrow> VersionSource" where
  "dockerHubAlias registrySrc = registrySrc\<lparr>vs_Name := ''dockerhub''\<rparr>"

definition DefaultRegistry :: "VersionSource \<Rightarrow> VersionSource \<Rightarrow> VersionSource \<Rightarrow> Registry" where
  "DefaultRegistry json registrySrc github =
     NewRegistry [json, registrySrc, dockerHubAlias registrySrc, github]"

section \<open>The cache\<close>

definition defaultTTL :: int where "defaultTTL = 3600000000000"

definition cacheSchemaVersion :: int where "cacheSchemaVersion = 1"

record cacheEntry =
  ce_SchemaVersion :: int
  ce_Source :: string
  ce_Descriptor :: string
  ce_FetchedAt :: int
  ce_ExpiresAt :: int
  ce_Versions :: "Version list"

record Cache =
  ca_dir :: string
  ca_now :: "nat \<Rightarrow> int"
  ca_calls :: nat
  ca_memory :: "(string, cacheEntry) gomap"
  ca_unwritable :: bool
  ca_forceRefresh :: bool
  ca_disk :: "string \<Rightarrow> string option"

text \<open>
  The parameters: SHA-256 as hex, the JSON codec of an entry, \<open>time.ParseDuration\<close>, and the file
  system calls.  \<open>write_failure\<close> is \<open>None\<close> where a write succeeds, else what a failed one leaves.
\<close>

record cache_env =
  sha256_hex :: "string \<Rightarrow> string"
  encode_entry :: "cacheEntry \<Rightarrow> string option"
  decode_entry :: "string \<Rightarrow> cacheEntry option"
  parse_duration :: "string \<Rightarrow> int option"
  mkdir_ok :: "string \<Rightarrow> bool"
  write_failure :: "string \<Rightarrow> string option option"
  rename_ok :: "string \<Rightarrow> string \<Rightarrow> bool"
  remove_ok :: "string \<Rightarrow> bool"
  getpid :: int

definition ResolveCacheDir :: "string option \<Rightarrow> string \<Rightarrow> string \<Rightarrow> string \<Rightarrow> string option" where
  "ResolveCacheDir xdg_file envValue hiveConfiguredDir projectRoot =
     (if envValue \<noteq> [] then Some envValue
      else if hiveConfiguredDir \<noteq> [] then
        (if is_abs hiveConfiguredDir then Some hiveConfiguredDir
         else Some (go_path_join [projectRoot, hiveConfiguredDir]))
      else map_option go_dir xdg_file)"

definition NewCache :: "(nat \<Rightarrow> int) \<Rightarrow> (string \<Rightarrow> string option) \<Rightarrow> string \<Rightarrow> Cache" where
  "NewCache clock disk dir =
     \<lparr>ca_dir = dir, ca_now = clock, ca_calls = 0, ca_memory = [], ca_unwritable = False,
      ca_forceRefresh = False, ca_disk = disk\<rparr>"

definition SetForceRefresh :: "bool \<Rightarrow> Cache \<Rightarrow> Cache" where
  "SetForceRefresh refresh c = c\<lparr>ca_forceRefresh := refresh\<rparr>"

definition entryPath :: "Cache \<Rightarrow> string \<Rightarrow> string \<Rightarrow> string" where
  "entryPath c sourceType key =
     go_path_join [ca_dir c, ''v'' @ go_itoa (nat cacheSchemaVersion), sourceType, key @ ''.json'']"

definition cacheKey :: "cache_env \<Rightarrow> string list \<Rightarrow> string \<Rightarrow> string" where
  "cacheKey env parts tokenFingerprint =
     sha256_hex env (concat (map (\<lambda>p. p @ [CHR 0x00]) parts) @ tokenFingerprint)"

definition TokenFingerprint :: "cache_env \<Rightarrow> string \<Rightarrow> string" where
  "TokenFingerprint env token = (if token = [] then [] else take 16 (sha256_hex env token))"

text \<open>One call of the clock.\<close>

definition now :: "Cache \<Rightarrow> int \<times> Cache" where
  "now c = (ca_now c (ca_calls c), c\<lparr>ca_calls := Suc (ca_calls c)\<rparr>)"

definition valid :: "Cache \<Rightarrow> cacheEntry \<Rightarrow> bool \<times> Cache" where
  "valid c entry =
     (if ce_SchemaVersion entry \<noteq> cacheSchemaVersion then (False, c)
      else let (t, c) = now c in (t < ce_ExpiresAt entry, c))"

definition memory_key :: "string \<Rightarrow> string \<Rightarrow> string" where
  "memory_key sourceType key = sourceType @ ''/'' @ key"

definition load :: "cache_env \<Rightarrow> string \<Rightarrow> string \<Rightarrow> Cache \<Rightarrow> cacheEntry option \<times> Cache" where
  "load env sourceType key c =
     (case mget (ca_memory c) (memory_key sourceType key) of
        Some entry \<Rightarrow> (let (ok, c) = valid c entry in (if ok then Some entry else None, c))
      | None \<Rightarrow>
          (case ca_disk c (entryPath c sourceType key) of
             None \<Rightarrow> (None, c)
           | Some data \<Rightarrow>
               (case decode_entry env data of
                  None \<Rightarrow> (None, c)
                | Some entry \<Rightarrow>
                    (let (ok, c) = valid c entry in
                     if \<not> ok then (None, c)
                     else (Some entry, c\<lparr>ca_memory := mput (memory_key sourceType key) entry (ca_memory c)\<rparr>)))))"

definition markUnwritable :: "Cache \<Rightarrow> Cache" where
  "markUnwritable c = c\<lparr>ca_unwritable := True\<rparr>"

definition store :: "cache_env \<Rightarrow> string \<Rightarrow> string \<Rightarrow> cacheEntry \<Rightarrow> Cache \<Rightarrow> Cache" where
  "store env sourceType key entry c =
     (let c = c\<lparr>ca_memory := mput (memory_key sourceType key) entry (ca_memory c)\<rparr>;
          path = entryPath c sourceType key; tmp = path @ ''.tmp.'' @ go_itoa (nat (getpid env)) in
      if ca_unwritable c then c
      else if \<not> mkdir_ok env (go_dir path) then markUnwritable c
      else case encode_entry env entry of
        None \<Rightarrow> c
      | Some data \<Rightarrow>
          (case write_failure env tmp of
             Some left \<Rightarrow> markUnwritable (c\<lparr>ca_disk := (ca_disk c)(tmp := left)\<rparr>)
           | None \<Rightarrow>
               (let c = c\<lparr>ca_disk := (ca_disk c)(tmp \<mapsto> data)\<rparr> in
                if rename_ok env tmp path then c\<lparr>ca_disk := (ca_disk c)(path \<mapsto> data, tmp := None)\<rparr>
                else markUnwritable
                  (if remove_ok env tmp then c\<lparr>ca_disk := (ca_disk c)(tmp := None)\<rparr> else c))))"

definition entry_ttl :: "cache_env \<Rightarrow> SourceConfig \<Rightarrow> int" where
  "entry_ttl env cfg =
     (if sc_TTL cfg \<noteq> [] then (case parse_duration env (sc_TTL cfg) of Some d \<Rightarrow> d | None \<Rightarrow> defaultTTL)
      else defaultTTL)"

text \<open>The function run under the singleflight group; \<open>refresh\<close> was read before.\<close>

definition fetch_and_store ::
  "cache_env \<Rightarrow> VersionSource \<Rightarrow> SourceConfig \<Rightarrow> string \<Rightarrow> bool \<Rightarrow> Cache \<Rightarrow> (range_error + Version list) \<times> Cache" where
  "fetch_and_store env src cfg key refresh c =
     (let (hit, c) = (if refresh then (None, c) else load env (vs_Name src) key c) in
      case hit of
        Some entry \<Rightarrow> (Inr (ce_Versions entry), c)
      | None \<Rightarrow>
          (case vs_Fetch src cfg of
             Inl err \<Rightarrow> (Inl (FetchFailed err), c)
           | Inr versions \<Rightarrow>
               let (fetchedAt, c) = now c; (t, c) = now c;
                   entry = \<lparr>ce_SchemaVersion = cacheSchemaVersion, ce_Source = vs_Name src,
                     ce_Descriptor = vs_Descriptor src cfg, ce_FetchedAt = fetchedAt,
                     ce_ExpiresAt = t + entry_ttl env cfg, ce_Versions = versions\<rparr> in
               (Inr versions, store env (vs_Name src) key entry c)))"

definition FetchVersions ::
  "cache_env \<Rightarrow> VersionSource \<Rightarrow> SourceConfig \<Rightarrow> string \<Rightarrow> Cache \<Rightarrow> (range_error + Version list) \<times> Cache" where
  "FetchVersions env src cfg tokenFingerprint c =
     (let key = cacheKey env (vs_CacheKeyParts src cfg) tokenFingerprint;
          refresh = ca_forceRefresh c;
          (hit, c) = (if refresh then (None, c) else load env (vs_Name src) key c) in
      case hit of
        Some entry \<Rightarrow> (Inr (ce_Versions entry), c)
      | None \<Rightarrow> fetch_and_store env src cfg key refresh c)"

section \<open>The resolver\<close>

definition raw_version :: "Version \<Rightarrow> RawVersion" where
  "raw_version v = \<lparr>rv_Raw = ve_Raw v, rv_Prerelease = ve_Prerelease v, rv_Extra = ve_Extra v\<rparr>"

definition resolveOne ::
  "'v semver_lib \<Rightarrow> render \<Rightarrow> cache_env \<Rightarrow> (string \<Rightarrow> string) \<Rightarrow> Registry \<Rightarrow> string \<Rightarrow> TagRange \<Rightarrow> Cache
   \<Rightarrow> (range_error + GeneratedTag list) \<times> Cache" where
  "resolveOne lib render env getenv registry rangeLabel tr c =
     (case effectiveConfig tr of
        Inl err \<Rightarrow> (Inl (InRange rangeLabel err), c)
      | Inr (cfg, sel, filter') \<Rightarrow>
     (case GetSource registry (sc_Type cfg) of
        Inl err \<Rightarrow> (Inl (InRange rangeLabel err), c)
      | Inr src \<Rightarrow>
     (case vs_Validate src cfg of
        Some err \<Rightarrow> (Inl (InRange rangeLabel (SourceFailed err)), c)
      | None \<Rightarrow>
     (case FetchVersions env src cfg (TokenFingerprint env (getenv (sc_TokenEnv cfg))) c of
        (Inl err, c) \<Rightarrow> (Inl (InRange rangeLabel err), c)
      | (Inr raw, c) \<Rightarrow>
          let effective = \<lparr>tr_TagName = tr_TagName tr, tr_Source = None, tr_Generator = [], tr_Params = [],
                tr_Select = sel, tr_Filter = filter', tr_MaxTags = tr_MaxTags tr,
                tr_Versions = tr_Versions tr, tr_BuildArgs = tr_BuildArgs tr, tr_Labels = tr_Labels tr\<rparr> in
          (GenerateTags lib render rangeLabel effective (map raw_version raw), c)))))"

fun resolve_from ::
  "'v semver_lib \<Rightarrow> render \<Rightarrow> cache_env \<Rightarrow> (string \<Rightarrow> string) \<Rightarrow> Registry \<Rightarrow> string \<Rightarrow> nat \<Rightarrow> TagRange list \<Rightarrow> Cache
   \<Rightarrow> (range_error + GeneratedTag list) \<times> Cache" where
  "resolve_from lib render env getenv registry rangeLabel i [] c = (Inr [], c)"
| "resolve_from lib render env getenv registry rangeLabel i (tr # trs) c =
     (case resolveOne lib render env getenv registry (rangeLabel @ ''['' @ go_itoa i @ '']'') tr c of
        (Inl err, c) \<Rightarrow> (Inl err, c)
      | (Inr tags, c) \<Rightarrow>
          (case resolve_from lib render env getenv registry rangeLabel (Suc i) trs c of
             (Inl err, c) \<Rightarrow> (Inl err, c)
           | (Inr rest, c) \<Rightarrow> (Inr (tags @ rest), c)))"

definition ResolveImage ::
  "'v semver_lib \<Rightarrow> render \<Rightarrow> cache_env \<Rightarrow> (string \<Rightarrow> string) \<Rightarrow> Registry \<Rightarrow> string \<Rightarrow> TagRange list \<Rightarrow> Cache
   \<Rightarrow> (range_error + GeneratedTag list) \<times> Cache" where
  "ResolveImage lib render env getenv registry rangeLabel ranges c =
     resolve_from lib render env getenv registry rangeLabel 0 ranges c"

section \<open>Entries have files of their own\<close>

lemma version_dir_plain: "plain_name (''v'' @ go_itoa (nat cacheSchemaVersion))"
  by code_simp

lemma entryPath_eq:
  assumes "plain_name ty" and "slash \<notin> set file"
  shows "go_path_join [d, ''v'' @ go_itoa (nat cacheSchemaVersion), ty, file @ ''.json'']
    = path_of (is_abs d) (clean_elems d @ [''v'' @ go_itoa (nat cacheSchemaVersion), ty, file @ ''.json''])"
proof (rule path_join_plain)
  have "plain_name (file @ ''.json'')" using assms(2) by (auto simp: plain_name_def slash_def append_eq_Cons_conv)
  then show "list_all plain_name [''v'' @ go_itoa (nat cacheSchemaVersion), ty, file @ ''.json'']"
    using assms(1) version_dir_plain by simp
qed simp

lemma entryPath_inject:
  assumes "entryPath c ty key = entryPath c ty' key'"
    and "plain_name ty" "plain_name ty'" "slash \<notin> set key" "slash \<notin> set key'"
  shows "ty = ty' \<and> key = key'"
proof -
  have no: "slash \<notin> set e" if "e \<in> set (clean_elems (ca_dir c) @ [''v'' @ go_itoa (nat cacheSchemaVersion), t, k @ ''.json''])"
      "plain_name t" "slash \<notin> set k" for e t k
    using that clean_elems_ok(3)[of e "ca_dir c"] version_dir_plain
    by (auto simp: plain_name_def slash_def)
  from path_of_inject[OF assms(1)[unfolded entryPath_def entryPath_eq[OF assms(2,4)] entryPath_eq[OF assms(3,5)]]]
  show ?thesis using no[OF _ assms(2,4)] no[OF _ assms(3,5)] by auto
qed

text \<open>The file written first is never an entry's: it ends in a digit.\<close>

lemma entryPath_suffix:
  assumes "plain_name ty" and "slash \<notin> set key"
  shows "\<exists>p. entryPath c ty key = p @ ''.json''"
proof -
  obtain p where "path_of (is_abs (ca_dir c)) ((clean_elems (ca_dir c)
      @ [''v'' @ go_itoa (nat cacheSchemaVersion), ty]) @ [key @ ''.json'']) = p @ key @ ''.json''"
    using path_of_snoc[of "clean_elems (ca_dir c) @ [''v'' @ go_itoa (nat cacheSchemaVersion), ty]"] by blast
  then show ?thesis unfolding entryPath_def entryPath_eq[OF assms] by (intro exI[of _ "p @ key"]) simp
qed

lemma tmp_no_entry:
  assumes "plain_name ty" and "slash \<notin> set key"
  shows "p @ ''.tmp.'' @ go_itoa n \<noteq> entryPath c ty key"
proof
  assume "p @ ''.tmp.'' @ go_itoa n = entryPath c ty key"
  then obtain q where "p @ ''.tmp.'' @ go_itoa n = q @ ''.json''" using entryPath_suffix[OF assms] by metis
  then have "last (p @ ''.tmp.'' @ go_itoa n) = CHR ''n''" by simp
  then have "last (go_itoa n) = CHR ''n''" by (simp add: last_append)
  then have "CHR ''n'' \<in> set (go_itoa n)" by (metis go_itoa_ne last_in_set)
  then show False using set_go_itoa[of n] by auto
qed

section \<open>One step of the cache\<close>

text \<open>What the cache holds for a query: the entry in memory, else the file's.\<close>

definition lookup :: "cache_env \<Rightarrow> string \<Rightarrow> string \<Rightarrow> Cache \<Rightarrow> cacheEntry option" where
  "lookup env ty key c =
     (case mget (ca_memory c) (memory_key ty key) of
        Some e \<Rightarrow> Some e
      | None \<Rightarrow> Option.bind (ca_disk c (entryPath c ty key)) (decode_entry env))"

definition usable :: "int \<Rightarrow> cacheEntry \<Rightarrow> bool" where
  "usable t e \<longleftrightarrow> ce_SchemaVersion e = cacheSchemaVersion \<and> t < ce_ExpiresAt e"

text \<open>The parts of a cache no operation changes.\<close>

definition same_cache :: "Cache \<Rightarrow> Cache \<Rightarrow> bool" where
  "same_cache c c' \<longleftrightarrow> ca_dir c' = ca_dir c \<and> ca_now c' = ca_now c \<and> ca_forceRefresh c' = ca_forceRefresh c
     \<and> ca_calls c \<le> ca_calls c'"

lemma same_cache_refl [simp]: "same_cache c c"
  by (simp add: same_cache_def)

lemma same_cache_trans: "same_cache a b \<Longrightarrow> same_cache b c \<Longrightarrow> same_cache a c"
  by (simp add: same_cache_def)

lemma entryPath_same: "same_cache c c' \<Longrightarrow> entryPath c' ty key = entryPath c ty key"
  by (simp add: entryPath_def same_cache_def)

lemma memory_key_inject:
  "plain_name ty \<Longrightarrow> plain_name ty' \<Longrightarrow> memory_key ty key = memory_key ty' key' \<longleftrightarrow> ty = ty' \<and> key = key'"
proof
  assume a: "plain_name ty" "plain_name ty'" "memory_key ty key = memory_key ty' key'"
  have "go_split slash (t @ slash # k) = t # go_split slash k" if "plain_name t" for t k
    using that by (simp add: go_split_append plain_name_def)
  from this[OF a(1), of key] this[OF a(2), of key'] a(3)
  have "ty # go_split slash key = ty' # go_split slash key'"
    by (simp add: memory_key_def slash_def)
  then show "ty = ty' \<and> key = key'" by (metis go_join_split list.inject)
qed simp

text \<open>Looking an entry up: found if usable now, and nothing else changes.\<close>

lemma load_spec:
  assumes "load env ty key c = (hit, c')"
  shows "hit = (case lookup env ty key c of
      Some e \<Rightarrow> if usable (ca_now c (ca_calls c)) e then Some e else None | None \<Rightarrow> None)"
    and "same_cache c c'" and "ca_unwritable c' = ca_unwritable c" and "ca_disk c' = ca_disk c"
    and "ca_memory c' = ca_memory c \<or> mget (ca_memory c) (memory_key ty key) = None
      \<and> (\<exists>e. lookup env ty key c = Some e \<and> ca_memory c' = mput (memory_key ty key) e (ca_memory c))"
    and "hit = None \<Longrightarrow> ca_memory c' = ca_memory c"
    and "hit = Some e \<Longrightarrow> mget (ca_memory c') (memory_key ty key) = Some e"
  using assms
  by (auto simp: load_def lookup_def valid_def now_def usable_def same_cache_def Let_def
      split: option.splits if_splits)

lemma load_lookup:
  assumes "load env ty key c = (hit, c')"
  shows "lookup env ty key c' = lookup env ty key c"
    and "memory_key ty' key' \<noteq> memory_key ty key \<Longrightarrow> lookup env ty' key' c' = lookup env ty' key' c"
  using load_spec(4,5)[OF assms] entryPath_same[OF load_spec(2)[OF assms]]
  by (auto simp: lookup_def split: option.splits)

lemma store_spec:
  assumes "c' = store env ty key e c"
  shows "same_cache c c'" and "ca_memory c' = mput (memory_key ty key) e (ca_memory c)"
    and "\<And>p. p \<noteq> entryPath c ty key \<Longrightarrow> (\<And>n. p \<noteq> entryPath c ty key @ ''.tmp.'' @ go_itoa n)
      \<Longrightarrow> ca_disk c' p = ca_disk c p"
    and "ca_disk c' (entryPath c ty key) = ca_disk c (entryPath c ty key)
      \<or> ca_disk c' (entryPath c ty key) = encode_entry env e"
  using assms
  by (auto simp: store_def Let_def markUnwritable_def same_cache_def entryPath_def split: option.splits if_splits)

lemma store_lookup:
  assumes "c' = store env ty key e c" and "plain_name ty" "slash \<notin> set key"
  shows "lookup env ty key c' = Some e"
    and "plain_name ty' \<Longrightarrow> slash \<notin> set key' \<Longrightarrow> (ty', key') \<noteq> (ty, key)
      \<Longrightarrow> lookup env ty' key' c' = lookup env ty' key' c"
proof -
  note st = store_spec[OF assms(1)]
  show "lookup env ty key c' = Some e" by (simp add: lookup_def st(2))
  assume o: "plain_name ty'" "slash \<notin> set key'" "(ty', key') \<noteq> (ty, key)"
  then have mk: "memory_key ty' key' \<noteq> memory_key ty key" using memory_key_inject assms(2) by blast
  have "entryPath c ty' key' \<noteq> entryPath c ty key"
    using entryPath_inject[of c ty' key' ty key] o assms(2,3) by blast
  then have "ca_disk c' (entryPath c ty' key') = ca_disk c (entryPath c ty' key')"
    using st(3)[of "entryPath c ty' key'"] tmp_no_entry[OF o(1,2)] by metis
  then show "lookup env ty' key' c' = lookup env ty' key' c"
    using mk by (simp add: lookup_def st(2) entryPath_same[OF st(1)] split: option.split)
qed

section \<open>What a cache is for\<close>

text \<open>
  The contract, over what is held for one query: a usable entry answers, and otherwise a fetch does,
  leaving the fresh entry when it succeeds and what was held when it fails.
\<close>

definition cached_or_fetched ::
  "bool \<Rightarrow> int \<Rightarrow> cacheEntry option \<Rightarrow> string + Version list \<Rightarrow> (Version list \<Rightarrow> cacheEntry)
   \<Rightarrow> (range_error + Version list) \<times> cacheEntry option" where
  "cached_or_fetched refresh t held fetched fresh =
     (if \<not> refresh \<and> (\<exists>e. held = Some e \<and> usable t e) then (Inr (ce_Versions (the held)), held)
      else case fetched of
        Inl err \<Rightarrow> (Inl (FetchFailed err), held)
      | Inr vs \<Rightarrow> (Inr vs, Some (fresh vs)))"

definition fresh_entry :: "VersionSource \<Rightarrow> SourceConfig \<Rightarrow> int \<Rightarrow> int \<Rightarrow> Version list \<Rightarrow> cacheEntry" where
  "fresh_entry src cfg fetched expires vs =
     \<lparr>ce_SchemaVersion = cacheSchemaVersion, ce_Source = vs_Name src, ce_Descriptor = vs_Descriptor src cfg,
      ce_FetchedAt = fetched, ce_ExpiresAt = expires, ce_Versions = vs\<rparr>"

text \<open>How a call ends: with the entry held, or after a failed or a successful fetch.\<close>

lemma fetch_cases:
  assumes "FetchVersions env src cfg fp c = (r, c')" and "mono (ca_now c)"
    and "key = cacheKey env (vs_CacheKeyParts src cfg) fp"
  obtains (hit) e where "\<not> ca_forceRefresh c" "lookup env (vs_Name src) key c = Some e"
      "usable (ca_now c (ca_calls c)) e" "r = Inr (ce_Versions e)" "load env (vs_Name src) key c = (Some e, c')"
  | (miss) c2 where "ca_forceRefresh c \<or> (\<forall>e. lookup env (vs_Name src) key c = Some e \<longrightarrow> \<not> usable (ca_now c (ca_calls c)) e)"
      "same_cache c c2" "ca_memory c2 = ca_memory c" "ca_disk c2 = ca_disk c" "ca_unwritable c2 = ca_unwritable c"
      "(r, c') = (case vs_Fetch src cfg of
         Inl err \<Rightarrow> (Inl (FetchFailed err), c2)
       | Inr vs \<Rightarrow> (Inr vs, store env (vs_Name src) key
           (fresh_entry src cfg (ca_now c (ca_calls c2)) (ca_now c (Suc (ca_calls c2)) + entry_ttl env cfg) vs)
           (c2\<lparr>ca_calls := Suc (Suc (ca_calls c2))\<rparr>)))"
proof -
  have go: "(r, c') = (case vs_Fetch src cfg of
         Inl err \<Rightarrow> (Inl (FetchFailed err), c2)
       | Inr vs \<Rightarrow> (Inr vs, store env (vs_Name src) key
           (fresh_entry src cfg (ca_now c (ca_calls c2)) (ca_now c (Suc (ca_calls c2)) + entry_ttl env cfg) vs)
           (c2\<lparr>ca_calls := Suc (Suc (ca_calls c2))\<rparr>)))"
    if f: "fetch_and_store env src cfg key (ca_forceRefresh c) c1 = (r, c')"
      and h: "(if ca_forceRefresh c then (None, c1) else load env (vs_Name src) key c1) = (None, c2)"
      and same: "ca_now c2 = ca_now c" for c1 c2
    using f h same by (cases "vs_Fetch src cfg") (auto simp: fetch_and_store_def now_def Let_def fresh_entry_def)
  show ?thesis
  proof (cases "ca_forceRefresh c")
    case True
    then show ?thesis
      using go[of c c] assms(1) by (intro miss[of c]) (auto simp: FetchVersions_def assms(3))
  next
    case False
    obtain h1 c1 where l1: "load env (vs_Name src) key c = (h1, c1)" by fastforce
    obtain h2 c2 where l2: "load env (vs_Name src) key c1 = (h2, c2)" by fastforce
    note s1 = load_spec[OF l1] and s2 = load_spec[OF l2] and lk = load_lookup(1)[OF l1]
    show ?thesis
    proof (cases h1)
      case (Some e)
      then have "r = Inr (ce_Versions e)" "c' = c1"
        using assms(1) False l1 by (auto simp: FetchVersions_def assms(3)[symmetric])
      then show ?thesis using hit[of e] s1(1) Some False l1 by (auto split: option.splits if_splits)
    next
      case None
      have stale: "\<not> usable (ca_now c (ca_calls c)) e" if "lookup env (vs_Name src) key c = Some e" for e
        using s1(1) None that by (auto split: if_splits)
      have "ca_now c (ca_calls c) \<le> ca_now c (ca_calls c1)"
        using assms(2) s1(2) by (auto simp: mono_def same_cache_def)
      then have "h2 = None"
        using s2(1) lk stale s1(2) by (auto simp: usable_def same_cache_def split: option.splits)
      have memory: "ca_memory c2 = ca_memory c"
        using s1(6)[OF None] s2(6)[OF \<open>h2 = None\<close>] by simp
      have same: "same_cache c c2" using s1(2) s2(2) same_cache_trans by blast
      have f: "fetch_and_store env src cfg key (ca_forceRefresh c) c1 = (r, c')"
        using assms(1) False l1 None by (simp add: FetchVersions_def assms(3)[symmetric])
      show ?thesis
        by (rule miss[OF _ same memory _ _ go[OF f]])
           (use stale s1 s2 l2 \<open>h2 = None\<close> False same in \<open>auto simp: same_cache_def\<close>)
    qed
  qed
qed

section \<open>Queries against the cache\<close>

text \<open>
  The invariant of the version cache: whatever it holds for a query was reported for it.  Queries
  name their source and digest by plain words, as the registry and SHA-256 do.
\<close>

record cache_query =
  cq_env :: cache_env
  cq_src :: VersionSource
  cq_cfg :: SourceConfig
  cq_fp :: string

definition query_key :: "cache_query \<Rightarrow> string" where
  "query_key q = cacheKey (cq_env q) (vs_CacheKeyParts (cq_src q) (cq_cfg q)) (cq_fp q)"

definition faithful_query :: "cache_env \<Rightarrow> (string \<Rightarrow> string \<Rightarrow> Version list \<Rightarrow> bool) \<Rightarrow> cache_query \<Rightarrow> bool" where
  "faithful_query env reported q \<longleftrightarrow>
     plain_name (vs_Name (cq_src q)) \<and> slash \<notin> set (query_key q)
     \<and> decode_entry (cq_env q) = decode_entry env
     \<and> (\<forall>vs. vs_Fetch (cq_src q) (cq_cfg q) = Inr vs \<longrightarrow> reported (vs_Name (cq_src q)) (query_key q) vs)"

definition holds_reported :: "cache_env \<Rightarrow> (string \<Rightarrow> string \<Rightarrow> Version list \<Rightarrow> bool) \<Rightarrow> Cache \<Rightarrow> bool" where
  "holds_reported env reported c \<longleftrightarrow> mono (ca_now c) \<and>
     (\<forall>ty key e. plain_name ty \<longrightarrow> slash \<notin> set key \<longrightarrow> lookup env ty key c = Some e
        \<longrightarrow> reported ty key (ce_Versions e))"

definition run_query ::
  "cache_env \<Rightarrow> (string \<Rightarrow> string \<Rightarrow> Version list \<Rightarrow> bool) \<Rightarrow> cache_query \<Rightarrow> Cache
   \<Rightarrow> (range_error + Version list) \<times> Cache" where
  "run_query env reported q c =
     (if faithful_query env reported q then FetchVersions (cq_env q) (cq_src q) (cq_cfg q) (cq_fp q) c
      else (Inl (SourceFailed []), c))"

lemma lookup_decode: "decode_entry env' = decode_entry env \<Longrightarrow> lookup env' = lookup env"
  by (intro ext) (simp add: lookup_def split: option.split)

lemma memory_same_lookup:
  "same_cache c c' \<Longrightarrow> ca_memory c' = ca_memory c \<Longrightarrow> ca_disk c' = ca_disk c \<Longrightarrow> lookup env ty key c' = lookup env ty key c"
  by (simp add: lookup_def entryPath_same split: option.split)

lemma fetch_reported:
  assumes "holds_reported env reported c" and "faithful_query env reported q"
    and "FetchVersions (cq_env q) (cq_src q) (cq_cfg q) (cq_fp q) c = (r, c')"
  shows "holds_reported env reported c'"
    and "r = Inr vs \<Longrightarrow> reported (vs_Name (cq_src q)) (query_key q) vs"
proof -
  have dec: "lookup (cq_env q) = lookup env"
    by (rule lookup_decode) (use assms(2) in \<open>simp add: faithful_query_def\<close>)
  have q: "plain_name (vs_Name (cq_src q))" "slash \<notin> set (query_key q)"
    and rep: "\<And>vs. vs_Fetch (cq_src q) (cq_cfg q) = Inr vs \<Longrightarrow> reported (vs_Name (cq_src q)) (query_key q) vs"
    using assms(2) by (simp_all add: faithful_query_def)
  have m: "mono (ca_now c)" and held: "\<And>ty key e. plain_name ty \<Longrightarrow> slash \<notin> set key \<Longrightarrow>
      lookup env ty key c = Some e \<Longrightarrow> reported ty key (ce_Versions e)"
    using assms(1) by (simp_all add: holds_reported_def)
  from assms(3) m query_key_def
  have "holds_reported env reported c' \<and> (\<forall>vs. r = Inr vs \<longrightarrow> reported (vs_Name (cq_src q)) (query_key q) vs)"
  proof (cases rule: fetch_cases)
    case (hit e)
    have "lookup env ty key c' = lookup env ty key c" if "plain_name ty" for ty key
      using load_lookup[OF hit(5), unfolded dec] memory_key_inject[OF that q(1)] by metis
    moreover have "ca_now c' = ca_now c" using load_spec(2)[OF hit(5)] by (simp add: same_cache_def)
    moreover have "reported (vs_Name (cq_src q)) (query_key q) (ce_Versions e)"
      by (rule held[OF q hit(2)[unfolded dec]])
    ultimately show ?thesis
      using held m hit(4) by (simp add: holds_reported_def)
  next
    case (miss c2)
    have lk: "lookup env ty key (c2\<lparr>ca_calls := n\<rparr>) = lookup env ty key c" if "ca_calls c2 \<le> n" for ty key n
      by (rule memory_same_lookup) (use miss that in \<open>simp_all add: same_cache_def\<close>)
    show ?thesis
    proof (cases "vs_Fetch (cq_src q) (cq_cfg q)")
      case (Inl err)
      then have "c' = c2" "r = Inl (FetchFailed err)" using miss(6) by simp_all
      then show ?thesis
        using held memory_same_lookup[OF miss(2-4), of env] miss(2) m
        by (simp add: holds_reported_def same_cache_def)
    next
      case (Inr vs)
      define c3 where "c3 = c2\<lparr>ca_calls := Suc (Suc (ca_calls c2))\<rparr>"
      obtain e where c': "c' = store (cq_env q) (vs_Name (cq_src q)) (query_key q) e c3"
        and e: "ce_Versions e = vs" and "r = Inr vs"
        using miss(6) Inr by (simp add: c3_def fresh_entry_def)
      note sl = store_lookup[OF c' q, unfolded dec]
      have "reported ty key (ce_Versions e')"
        if "plain_name ty" "slash \<notin> set key" "lookup env ty key c' = Some e'" for ty key e'
      proof (cases "(ty, key) = (vs_Name (cq_src q), query_key q)")
        case True
        then show ?thesis using that sl(1) e rep[OF Inr] by simp
      next
        case False
        then have "lookup env ty key c' = lookup env ty key c3"
          using store_lookup(2)[OF c' q that(1,2)] dec by simp
        then show ?thesis using that held lk c3_def by simp
      qed
      moreover have "ca_now c' = ca_now c"
        using store_spec(1)[OF c'] miss(2) by (simp add: same_cache_def c3_def)
      ultimately show ?thesis using m rep[OF Inr] \<open>r = Inr vs\<close> by (simp add: holds_reported_def)
    qed
  qed
  then show "holds_reported env reported c'"
    and "r = Inr vs \<Longrightarrow> reported (vs_Name (cq_src q)) (query_key q) vs" by blast+
qed

interpretation versions: query_cache "run_query env reported" "holds_reported env reported"
  "\<lambda>q. reported (vs_Name (cq_src q)) (query_key q)" for env reported
proof
  fix q :: cache_query and c :: Cache
  assume h: "holds_reported env reported c"
  obtain r c' where f: "FetchVersions (cq_env q) (cq_src q) (cq_cfg q) (cq_fp q) c = (r, c')" by fastforce
  show "holds_reported env reported (snd (run_query env reported q c))"
    using fetch_reported(1)[OF h _ f] h f by (simp add: run_query_def)
  show "reported (vs_Name (cq_src q)) (query_key q) vs" if "fst (run_query env reported q c) = Inr vs" for vs
    using fetch_reported(2)[OF h _ f, of vs] that f by (auto simp: run_query_def split: if_splits)
qed

section \<open>Properties\<close>

text \<open>C6. The cache refines its contract: for the query, it answers and leaves behind what the
  contract says, with a usable entry taken at the time of the call; a fresh entry is dated by two
  later readings of the clock; and what is held for any other query stays as it was, whether the
  cache directory can be written or not.\<close>

theorem cache_refines_contract:
  assumes "mono (ca_now c)" and "plain_name (vs_Name src)" and "slash \<notin> set key"
    and "key = cacheKey env (vs_CacheKeyParts src cfg) fp"
    and "FetchVersions env src cfg fp c = (r, c')"
  shows "\<exists>i j. ca_calls c \<le> i \<and> i < j
    \<and> (r, lookup env (vs_Name src) key c') =
        cached_or_fetched (ca_forceRefresh c) (ca_now c (ca_calls c)) (lookup env (vs_Name src) key c)
          (vs_Fetch src cfg) (fresh_entry src cfg (ca_now c i) (ca_now c j + entry_ttl env cfg))
    \<and> (\<forall>ty' key'. plain_name ty' \<and> slash \<notin> set key' \<and> (ty', key') \<noteq> (vs_Name src, key)
         \<longrightarrow> lookup env ty' key' c' = lookup env ty' key' c)"
  using assms(5,1,4)
proof (cases rule: fetch_cases)
  case (hit e)
  then have "cached_or_fetched (ca_forceRefresh c) (ca_now c (ca_calls c)) (lookup env (vs_Name src) key c)
      (vs_Fetch src cfg) f = (r, lookup env (vs_Name src) key c')" for f
    using load_lookup(1)[OF hit(5)] by (simp add: cached_or_fetched_def)
  moreover have "lookup env ty' key' c' = lookup env ty' key' c"
    if "plain_name ty'" "(ty', key') \<noteq> (vs_Name src, key)" for ty' key'
    using load_lookup(2)[OF hit(5)] memory_key_inject[OF that(1) assms(2)] that(2) by blast
  ultimately show ?thesis 
    by (rule_tac exI[of _ "ca_calls c"], rule_tac exI[of _ "Suc (ca_calls c)"]) auto
next
  case (miss c2)
  define c3 where "c3 = c2\<lparr>ca_calls := Suc (Suc (ca_calls c2))\<rparr>"
  have lk: "lookup env ty' key' c2 = lookup env ty' key' c" "lookup env ty' key' c3 = lookup env ty' key' c" for ty' key'
    using miss(2-4) by (auto intro!: memory_same_lookup simp: c3_def same_cache_def)
  have no: "\<not> (\<not> ca_forceRefresh c \<and> (\<exists>e. lookup env (vs_Name src) key c = Some e \<and> usable (ca_now c (ca_calls c)) e))"
    using miss(1) by auto
  show ?thesis
  proof (rule exI[of _ "ca_calls c2"], rule exI[of _ "Suc (ca_calls c2)"], intro conjI)
    show "ca_calls c \<le> ca_calls c2" using miss(2) by (simp add: same_cache_def)
    let ?f = "fresh_entry src cfg (ca_now c (ca_calls c2)) (ca_now c (Suc (ca_calls c2)) + entry_ttl env cfg)"
    show "(r, lookup env (vs_Name src) key c') = cached_or_fetched (ca_forceRefresh c) (ca_now c (ca_calls c))
        (lookup env (vs_Name src) key c) (vs_Fetch src cfg) ?f"
      unfolding cached_or_fetched_def if_not_P[OF no]
      using miss(6) lk store_lookup(1)[OF _ assms(2,3)]
      by (auto simp: c3_def[symmetric] split: sum.splits)
    show "\<forall>ty' key'. plain_name ty' \<and> slash \<notin> set key' \<and> (ty', key') \<noteq> (vs_Name src, key)
         \<longrightarrow> lookup env ty' key' c' = lookup env ty' key' c"
    proof (cases "vs_Fetch src cfg")
      case (Inl err)
      then show ?thesis using miss(6) lk by simp
    next
      case (Inr vs)
      then have c': "c' = store env (vs_Name src) key (?f vs) c3" using miss(6) by (simp add: c3_def)
      show ?thesis using store_lookup(2)[OF c' assms(2,3)] lk by simp
    qed
  qed simp
qed

text \<open>A successful call warms the cache in memory: until the entry expires, the same query gets
  the same versions, whatever has become of the files and of the source.\<close>

lemma warm_cache_answers:
  assumes "mono (ca_now c)" and "FetchVersions env src cfg fp c = (Inr vs, c')" and "\<not> ca_forceRefresh c"
    and "vs_Name src' = vs_Name src" and "vs_CacheKeyParts src' = vs_CacheKeyParts src"
    and "sha256_hex env' = sha256_hex env"
  shows "\<exists>e::cacheEntry. ce_Versions e = vs
    \<and> (ca_now c (ca_calls c') < ce_ExpiresAt e \<longrightarrow>
         fst (FetchVersions env' src' cfg fp (c'\<lparr>ca_disk := files\<rparr>)) = Inr vs)"
proof -
  define key where "key = cacheKey env (vs_CacheKeyParts src cfg) fp"
  have both: "same_cache c c' \<and> (\<exists>e. mget (ca_memory c') (memory_key (vs_Name src) key) = Some e
      \<and> ce_Versions e = vs \<and> ce_SchemaVersion e = cacheSchemaVersion)"
    using assms(2,1) key_def
  proof (cases rule: fetch_cases)
    case (hit e)
    note l = load_spec[OF hit(5)]
    show ?thesis using l(2) l(7)[of e] hit(3,4) by (simp add: usable_def)
  next
    case (miss c2)
    then obtain f where c': "c' = store env (vs_Name src) key f (c2\<lparr>ca_calls := Suc (Suc (ca_calls c2))\<rparr>)"
      and f: "ce_Versions f = vs" "ce_SchemaVersion f = cacheSchemaVersion"
      by (auto simp: fresh_entry_def split: sum.splits)
    note st = store_spec[OF c']
    show ?thesis using st(1,2) f miss(2) by (auto simp: same_cache_def)
  qed
  then have same: "same_cache c c'" ..
  from both obtain e where e: "mget (ca_memory c') (memory_key (vs_Name src) key) = Some e" "ce_Versions e = vs"
    "ce_SchemaVersion e = cacheSchemaVersion" by blast
  have k: "cacheKey env' (vs_CacheKeyParts src cfg) fp = key" by (simp add: key_def cacheKey_def assms(6))
  show ?thesis
    by (rule exI[of _ e]) (use e same assms(3) in \<open>auto simp: FetchVersions_def load_def valid_def now_def Let_def assms(4,5) k same_cache_def\<close>)
qed


section \<open>A concrete cache\<close>

definition plain_env :: cache_env where
  "plain_env = \<lparr>sha256_hex = (\<lambda>_. ''00ff''), encode_entry = (\<lambda>e. Some ''entry''), decode_entry = (\<lambda>_. None),
     parse_duration = (\<lambda>_. Some 60), mkdir_ok = (\<lambda>_. True), write_failure = (\<lambda>_. None),
     rename_ok = (\<lambda>_ _. True), remove_ok = (\<lambda>_. True), getpid = 7\<rparr>"

definition one_version :: "Version list" where
  "one_version = [\<lparr>ve_Raw = ''1.2.3'', ve_Prerelease = False, ve_Extra = []\<rparr>]"

definition fixture :: VersionSource where
  "fixture = \<lparr>vs_Name = ''json'', vs_Validate = (\<lambda>_. None), vs_Descriptor = (\<lambda>_. ''fixture''),
     vs_CacheKeyParts = (\<lambda>_. [''a'']), vs_Fetch = (\<lambda>_. Inr one_version)\<rparr>"

definition fixture_cfg :: SourceConfig where
  "fixture_cfg = \<lparr>sc_Type = ''json'', sc_URL = [], sc_Transform = [], sc_Headers = [], sc_Image = [],
     sc_Repo = [], sc_Kind = [], sc_TokenEnv = [], sc_TTL = ''1m''\<rparr>"

definition cold :: Cache where
  "cold = NewCache int (\<lambda>_. None) ''/cache''"

definition fixture_query :: cache_query where
  "fixture_query = \<lparr>cq_env = plain_env, cq_src = fixture, cq_cfg = fixture_cfg, cq_fp = []\<rparr>"

lemma mono_cold: "mono (ca_now cold)"
  by (simp add: cold_def NewCache_def mono_def)

lemma fixture_fetch: "fst (FetchVersions plain_env fixture fixture_cfg [] cold) = Inr one_version"
  by code_simp

lemma fixture_after:
  obtains c where "FetchVersions plain_env fixture fixture_cfg [] cold = (Inr one_version, c)"
  using fixture_fetch by (metis prod.collapse)

lemma fixture_names: "plain_name (vs_Name fixture)" "slash \<notin> set (cacheKey plain_env (vs_CacheKeyParts fixture fixture_cfg) [])"
  by (simp_all add: fixture_def plain_name_def slash_def cacheKey_def plain_env_def)

theorem cache_refines_contract_witness:
  "\<exists>c i j. i < j \<and> (Inr one_version, lookup plain_env ''json'' ''00ff'' c) =
     cached_or_fetched False 0 None (Inr one_version) (fresh_entry fixture fixture_cfg (int i) (int j + 60))"
proof -
  obtain c where c: "FetchVersions plain_env fixture fixture_cfg [] cold = (Inr one_version, c)"
    by (rule fixture_after)
  have v: "vs_Name fixture = ''json''" "cacheKey plain_env (vs_CacheKeyParts fixture fixture_cfg) [] = ''00ff''"
    "lookup plain_env ''json'' ''00ff'' cold = None" "ca_now cold = int" "ca_calls cold = 0"
    "ca_forceRefresh cold = False" "vs_Fetch fixture fixture_cfg = Inr one_version"
    "entry_ttl plain_env fixture_cfg = 60"
    by (simp_all add: fixture_def plain_env_def cacheKey_def cold_def NewCache_def lookup_def entry_ttl_def fixture_cfg_def)
  from cache_refines_contract[OF mono_cold fixture_names refl c] show ?thesis
    unfolding v by auto
qed

lemma warm_cache_answers_witness:
  "\<exists>c e. ce_Versions (e :: cacheEntry) = one_version \<and> FetchVersions plain_env fixture fixture_cfg [] cold = (Inr one_version, c)
     \<and> (int (ca_calls c) < ce_ExpiresAt e \<longrightarrow>
          fst (FetchVersions plain_env (fixture\<lparr>vs_Fetch := (\<lambda>_. Inl ''down'')\<rparr>) fixture_cfg []
             (c\<lparr>ca_disk := (\<lambda>_. None)\<rparr>)) = Inr one_version)"
proof -
  obtain c where c: "FetchVersions plain_env fixture fixture_cfg [] cold = (Inr one_version, c)"
    by (rule fixture_after)
  have "\<not> ca_forceRefresh cold" "ca_now cold = int" by (simp_all add: cold_def NewCache_def)
  with warm_cache_answers[OF mono_cold c, of "fixture\<lparr>vs_Fetch := (\<lambda>_. Inl ''down'')\<rparr>" plain_env "\<lambda>_. None"] c
  show ?thesis by auto
qed


end
