(* ===== verification/Discovery.thy ===== *)
theory Discovery
  imports File_Resolver Version_Cache Platforms
begin

text \<open>
  \<open>pkg/discovery\<close>: from a project directory to the images of the project.  Finding image
  definitions in the tree (\<open>main.go\<close>), their build entry points (\<open>build_entrypoint.go\<close>), the images
  themselves (\<open>image_config.go\<close>), the project file (\<open>hive_config.go\<close>), and the expansion of tag
  ranges into tags (\<open>tag_ranges.go\<close>).  The file system and the YAML decoder are parameters.
\<close>

section \<open>Parsed definitions\<close>

record VariantConfig =
  vc_Name :: string
  vc_TagSuffix :: string
  vc_Build :: string
  vc_Nix :: "NixConfig option"
  vc_Chisel :: "ChiselConfig option"
  vc_Config :: "ImageRunConfig option"
  vc_Versions :: Versions
  vc_BuildArgs :: BuildArgs
  vc_Platforms :: "string list"
  vc_ReportIcon :: "string option"
  vc_Labels :: Labels

record ImageDefinitionConfig =
  id_Description :: string
  id_Build :: string
  id_Nix :: "NixConfig option"
  id_Chisel :: "ChiselConfig option"
  id_Config :: "ImageRunConfig option"
  id_Tags :: "Tag list"
  id_TagRanges :: "TagRange list"
  id_Variants :: "VariantConfig list"
  id_Versions :: Versions
  id_BuildArgs :: BuildArgs
  id_Secrets :: "(string, Secret) gomap"
  id_DependsOn :: "string list"
  id_Platforms :: "string list"
  id_LatestAlias :: "LatestAliasConfig option"
  id_ReportIcon :: "string option"
  id_Labels :: Labels

text \<open>A directory tree as \<open>WalkDir\<close> reads it, entries in lexical order.\<close>

datatype tree = FileNode string | DirNode string "tree list" | UnreadableDir string

fun node_name :: "tree \<Rightarrow> string" where
  "node_name (FileNode n) = n" | "node_name (DirNode n _) = n" | "node_name (UnreadableDir n) = n"

record project_files =
  pf_stat :: "string \<Rightarrow> stat_result"
  pf_read :: "string \<Rightarrow> string option"
  pf_abs :: "string \<Rightarrow> string option"
  pf_eval_symlinks :: "string \<Rightarrow> string option"
  pf_tree :: "string \<Rightarrow> tree option"
  pf_decode_image :: "string \<Rightarrow> ImageDefinitionConfig option"
  pf_decode_hive :: "string \<Rightarrow> HiveProjectConfig option"
  pf_decode_cut :: "string \<Rightarrow> ChiselCutSpec option"

datatype discovery_error =
    NoProjectRoot | RootStatFailed | RootNotDir | NoConfigFile | ConfigStatFailed string
  | ConfigReadFailed | ConfigParseFailed | NoAbsolutePath | NoImagesPath | WalkFailed string
  | NoRelativePath | DefinitionInvalid string | RootfsStatFailed string | RootfsNotDir string
  | UnknownBackend string | BackendFileMissing string string | AmbiguousEntrypoint string string
  | NoEntrypoint string | CutSpecUnreadable string | CutSpecInvalid chisel_error
  | InvalidGeneratedTag string | TagInTwoRanges string string string | CollidesWithVariant string
  | ImageFailed string discovery_error | RangeFailed range_error | NoCacheDir

section \<open>Files of an image\<close>

definition rootFsDirName :: string where "rootFsDirName = ''rootfs''"

definition imageConfigFileNames :: "string list" where
  "imageConfigFileNames = [''image.yaml'', ''image.yml'']"

definition getRoofsPath :: "project_files \<Rightarrow> string \<Rightarrow> discovery_error + string" where
  "getRoofsPath fs imageRoot =
     (let path = go_path_join [imageRoot, rootFsDirName] in
      case pf_stat fs path of
        Missing \<Rightarrow> Inr []
      | StatFailed \<Rightarrow> Inl (RootfsStatFailed path)
      | IsFile \<Rightarrow> Inl (RootfsNotDir path)
      | IsDir \<Rightarrow> Inr path)"

definition optional_path :: "string option \<Rightarrow> string" where
  "optional_path p = (case p of None \<Rightarrow> [] | Some q \<Rightarrow> q)"

definition getReadmePath :: "project_files \<Rightarrow> string \<Rightarrow> string" where
  "getReadmePath fs root =
     optional_path (ResolveFirstExistingFile (pf_stat fs) root (GetFileCandidates ''README.md'' []))"

definition getTestConfigFilePath :: "project_files \<Rightarrow> string \<Rightarrow> string" where
  "getTestConfigFilePath fs root =
     optional_path (ResolveFirstExistingFile (pf_stat fs) root (GetFileCandidates ''test'' [''yml'', ''yaml'']))"

section \<open>Build entry points\<close>

record buildEntrypoint =
  be_Path :: string
  be_Backend :: string

definition otherEntrypointNames :: "string option \<Rightarrow> string option \<Rightarrow> string" where
  "otherEntrypointNames flakePath dockerfilePath =
     go_join '' and '' ((case flakePath of None \<Rightarrow> [] | Some p \<Rightarrow> [go_base p])
       @ (case dockerfilePath of None \<Rightarrow> [] | Some p \<Rightarrow> [go_base p]))"

definition entry :: "string \<Rightarrow> string \<Rightarrow> string \<Rightarrow> string option \<Rightarrow> discovery_error + buildEntrypoint" where
  "entry backend root file path =
     (case path of None \<Rightarrow> Inl (BackendFileMissing backend root)
      | Some p \<Rightarrow> Inr \<lparr>be_Path = p, be_Backend = backend\<rparr>)"

definition resolveBuildEntrypoint ::
  "project_files \<Rightarrow> string \<Rightarrow> string \<Rightarrow> discovery_error + buildEntrypoint" where
  "resolveBuildEntrypoint fs backend root =
     (let dockerfilePath = ResolveFirstExistingFile (pf_stat fs) root (GetFileCandidates ''Dockerfile'' []);
          flakePath = ResolveFirstExistingFile (pf_stat fs) root (GetFileCandidates FlakeFileName []);
          chiselPath = ResolveFirstExistingFile (pf_stat fs) root (GetFileCandidates ChiselFileName []) in
      if backend \<noteq> [] \<and> backend \<noteq> BuildBackendDockerfile \<and> backend \<noteq> BuildBackendNix
         \<and> backend \<noteq> BuildBackendChisel then Inl (UnknownBackend backend)
      else if backend = BuildBackendDockerfile then entry backend root ''Dockerfile'' dockerfilePath
      else if backend = BuildBackendNix then entry backend root FlakeFileName flakePath
      else if backend = BuildBackendChisel then entry backend root ChiselFileName chiselPath
      else if chiselPath \<noteq> None \<and> (flakePath \<noteq> None \<or> dockerfilePath \<noteq> None)
        then Inl (AmbiguousEntrypoint root (otherEntrypointNames flakePath dockerfilePath))
      else case (chiselPath, flakePath, dockerfilePath) of
          (None, None, None) \<Rightarrow> Inl (NoEntrypoint root)
        | (Some c, None, None) \<Rightarrow> Inr \<lparr>be_Path = c, be_Backend = BuildBackendChisel\<rparr>
        | (_, None, Some d) \<Rightarrow> Inr \<lparr>be_Path = d, be_Backend = BuildBackendDockerfile\<rparr>
        | (_, Some f, _) \<Rightarrow> Inr \<lparr>be_Path = f, be_Backend = BuildBackendNix\<rparr>)"

definition validateChiselEntrypoint :: "project_files \<Rightarrow> buildEntrypoint \<Rightarrow> discovery_error + unit" where
  "validateChiselEntrypoint fs entrypoint =
     (if be_Backend entrypoint \<noteq> BuildBackendChisel then Inr ()
      else if go_ext (be_Path entrypoint) \<noteq> ''.gotpl'' then
        (case pf_read fs (be_Path entrypoint) of
           None \<Rightarrow> Inl (CutSpecUnreadable (be_Path entrypoint))
         | Some data \<Rightarrow>
             (case ParseChiselCutSpec (pf_decode_cut fs) data of
                Inl err \<Rightarrow> Inl (CutSpecInvalid err) | Inr _ \<Rightarrow> Inr ()))
      else Inr ())"

section \<open>Images\<close>

definition processTags :: "ImageDefinitionConfig \<Rightarrow> (string, Tag) gomap" where
  "processTags imageDef = fold (\<lambda>tag tags. mput (tag_Name tag) tag tags) (id_Tags imageDef) []"

definition process_variant ::
  "project_files \<Rightarrow> string \<Rightarrow> string \<Rightarrow> (string, ImageVariant) gomap \<Rightarrow> VariantConfig
   \<Rightarrow> discovery_error + (string, ImageVariant) gomap" where
  "process_variant fs imageRoot parentIcon indexedVariants v =
     (let variantRoot = go_path_join [imageRoot, vc_Name v] in
      res_bind (getRoofsPath fs variantRoot) (\<lambda>variantFsRoot.
      let testConfigFilePath = getTestConfigFilePath fs variantRoot in
      res_bind (resolveBuildEntrypoint fs (vc_Build v) variantRoot) (\<lambda>variantEntrypoint.
      res_bind (validateChiselEntrypoint fs variantEntrypoint) (\<lambda>_.
      let readmePath = getReadmePath fs variantRoot;
          icon = (case vc_ReportIcon v of None \<Rightarrow> parentIcon | Some i \<Rightarrow> i) in
      Inr (mput (vc_Name v)
        \<lparr>var_Name = vc_Name v, var_BuildEntryPointPath = be_Path variantEntrypoint,
         var_BuildBackend = be_Backend variantEntrypoint, var_Nix = vc_Nix v, var_Chisel = vc_Chisel v,
         var_RunConfig = vc_Config v, var_ReadmePath = readmePath, var_RootDir = variantRoot,
         var_RootFSDir = variantFsRoot, var_TagSuffix = vc_TagSuffix v,
         var_TestConfigFilePath = testConfigFilePath, var_Versions = vc_Versions v,
         var_BuildArgs = vc_BuildArgs v, var_Platforms = vc_Platforms v, var_ReportIcon = icon,
         var_Labels = vc_Labels v\<rparr> indexedVariants)))))"

definition processVariants ::
  "project_files \<Rightarrow> ImageDefinitionConfig \<Rightarrow> string \<Rightarrow> string \<Rightarrow> discovery_error + (string, ImageVariant) gomap" where
  "processVariants fs imageDef imageRoot parentIcon =
     res_fold (process_variant fs imageRoot parentIcon) [] (id_Variants imageDef)"

definition ensureNixConfig :: "NixConfig option \<Rightarrow> NixConfig" where
  "ensureNixConfig cfg = (case cfg of None \<Rightarrow> zero_NixConfig | Some c \<Rightarrow> c)"

definition ensureChiselConfig :: "ChiselConfig option \<Rightarrow> ChiselConfig" where
  "ensureChiselConfig cfg = (case cfg of None \<Rightarrow> zero_ChiselConfig | Some c \<Rightarrow> c)"

definition parseImageConfigFile :: "project_files \<Rightarrow> string \<Rightarrow> discovery_error + ImageDefinitionConfig" where
  "parseImageConfigFile fs path =
     (case Option.bind (pf_read fs path) (pf_decode_image fs) of
        None \<Rightarrow> Inl (DefinitionInvalid path) | Some d \<Rightarrow> Inr d)"

definition processImageConfig :: "project_files \<Rightarrow> string \<Rightarrow> string \<Rightarrow> discovery_error + Image" where
  "processImageConfig fs projectRoot configFilePath =
     (let imageRoot = go_dir configFilePath in
      case go_rel projectRoot imageRoot of None \<Rightarrow> Inl NoRelativePath | Some relativeRoot \<Rightarrow>
     (let testConfigFilePath = getTestConfigFilePath fs imageRoot;
          isNested = slash \<in> set relativeRoot;
          name = (if isNested then go_dir relativeRoot else relativeRoot) in
      res_bind (parseImageConfigFile fs configFilePath) (\<lambda>parsedImageDef.
      res_bind (getRoofsPath fs imageRoot) (\<lambda>rootFsPath.
      let parentIcon = (case id_ReportIcon parsedImageDef of None \<Rightarrow> [] | Some i \<Rightarrow> i) in
      res_bind (processVariants fs parsedImageDef imageRoot parentIcon) (\<lambda>indexedVariants.
      res_bind (resolveBuildEntrypoint fs (id_Build parsedImageDef) imageRoot) (\<lambda>entrypoint.
      res_bind (validateChiselEntrypoint fs entrypoint) (\<lambda>_.
      Inr \<lparr>img_Identifier = relativeRoot, img_Name = name, img_Description = id_Description parsedImageDef,
           img_RootDir = go_path_join [projectRoot, relativeRoot], img_RootFSDir = rootFsPath,
           img_TestConfigFilePath = testConfigFilePath, img_DefinitionFilePath = configFilePath,
           img_BuildEntryPointPath = be_Path entrypoint, img_BuildBackend = be_Backend entrypoint,
           img_Nix = ensureNixConfig (id_Nix parsedImageDef),
           img_Chisel = ensureChiselConfig (id_Chisel parsedImageDef),
           img_RunConfig = id_Config parsedImageDef, img_ReadmePath = getReadmePath fs imageRoot,
           img_Versions = id_Versions parsedImageDef, img_BuildArgs = id_BuildArgs parsedImageDef,
           img_Secrets = id_Secrets parsedImageDef, img_Tags = processTags parsedImageDef,
           img_TagRanges = id_TagRanges parsedImageDef, img_Variants = indexedVariants,
           img_DependsOn = id_DependsOn parsedImageDef, img_Platforms = id_Platforms parsedImageDef,
           img_LatestAlias = id_LatestAlias parsedImageDef, img_ReportIcon = parentIcon,
           img_Labels = id_Labels parsedImageDef\<rparr>)))))))"

text \<open>
  \<open>WalkDir\<close> with the callback of \<open>discoverImages\<close>: the definitions found, and whether the callback
  asked to skip what is left of the directory the entry is in.
\<close>

fun walk :: "string \<Rightarrow> tree \<Rightarrow> discovery_error + (string list \<times> bool)"
  and walk_entries :: "string \<Rightarrow> tree list \<Rightarrow> discovery_error + string list" where
  "walk path (FileNode name) =
     (if name \<in> set imageConfigFileNames then Inr ([path], True) else Inr ([], False))"
| "walk path (DirNode name entries) =
     (if name = ''rootfs'' then Inr ([], False)
      else res_bind (walk_entries path entries) (\<lambda>found. Inr (found, False)))"
| "walk path (UnreadableDir name) =
     (if name = ''rootfs'' then Inr ([], False) else Inl (WalkFailed path))"
| "walk_entries path [] = Inr []"
| "walk_entries path (e # es) =
     res_bind (walk (go_path_join [path, node_name e]) e) (\<lambda>(found, skip).
       if skip then Inr found
       else res_bind (walk_entries path es) (\<lambda>rest. Inr (found @ rest)))"

definition discoverImages :: "project_files \<Rightarrow> string \<Rightarrow> discovery_error + (string, Image) gomap" where
  "discoverImages fs rootPath =
     (case pf_tree fs rootPath of None \<Rightarrow> Inl (WalkFailed rootPath) | Some root \<Rightarrow>
      res_bind (walk rootPath root) (\<lambda>(found, _).
      res_bind (res_map (processImageConfig fs rootPath) found) (\<lambda>configs.
        Inr (fold (\<lambda>config images. mput (img_Identifier config) config images) configs []))))"

section \<open>Tag ranges\<close>

definition collidesWithVariantTag :: "Image \<Rightarrow> (string, Tag) gomap \<Rightarrow> string \<Rightarrow> bool" where
  "collidesWithVariantTag img tags name =
     list_ex (\<lambda>tagName. tagName \<noteq> name
         \<and> list_ex (\<lambda>(_, variant). tagName @ var_TagSuffix variant = name) (img_Variants img)) (mkeys tags)"

definition generated_tag :: "GeneratedTag \<Rightarrow> Tag" where
  "generated_tag g = \<lparr>tag_Name = gt_Name g, tag_Versions = gt_Versions g, tag_BuildArgs = gt_BuildArgs g,
     tag_Labels = gt_Labels g, tag_IsPrerelease = gt_IsPrerelease g, tag_GeneratedFrom = gt_Range g\<rparr>"

definition merge_tag ::
  "Image \<Rightarrow> (string, Tag) gomap \<times> (string, string) gomap \<Rightarrow> GeneratedTag
   \<Rightarrow> discovery_error + ((string, Tag) gomap \<times> (string, string) gomap)" where
  "merge_tag img s g =
     (let (tags, seenFrom) = s; name = gt_Name g in
      if \<not> match_string ociTagPattern name then Inl (InvalidGeneratedTag name)
      else if (case mget tags name of Some existing \<Rightarrow> tag_GeneratedFrom existing = [] | None \<Rightarrow> False)
        then Inr (tags, seenFrom)
      else if (case mget seenFrom name of Some from' \<Rightarrow> from' \<noteq> gt_Range g | None \<Rightarrow> False)
        then Inl (TagInTwoRanges name (mget_or [] seenFrom name) (gt_Range g))
      else if collidesWithVariantTag img tags name then Inl (CollidesWithVariant name)
      else Inr (mput name (generated_tag g) tags, mput name (gt_Range g) seenFrom))"

definition mergeGeneratedTags :: "Image \<Rightarrow> GeneratedTag list \<Rightarrow> discovery_error + Image" where
  "mergeGeneratedTags img generated =
     res_bind (res_fold (merge_tag img) (img_Tags img, []) generated) (\<lambda>(tags, _). Inr (img\<lparr>img_Tags := tags\<rparr>))"

definition anyTagRanges :: "(string, Image) gomap \<Rightarrow> bool" where
  "anyTagRanges images = list_ex (\<lambda>(_, img). length (img_TagRanges img) > 0) images"

text \<open>What the resolver works with: the libraries, the environment and the sources.\<close>

record 'v resolver_env =
  re_lib :: "'v semver_lib"
  re_render :: render
  re_cache_env :: cache_env
  re_getenv :: "string \<Rightarrow> string"
  re_registry :: Registry
  re_xdg :: "string option"
  re_now :: "nat \<Rightarrow> int"
  re_disk :: "string \<Rightarrow> string option"

definition resolve_image_ranges ::
  "'v resolver_env \<Rightarrow> (string, Image) gomap \<times> Cache \<Rightarrow> string
   \<Rightarrow> discovery_error + ((string, Image) gomap \<times> Cache)" where
  "resolve_image_ranges env s identifier =
     (let (images, cache) = s; img = mget_at images identifier in
      if length (img_TagRanges img) = 0 then Inr (images, cache)
      else case ResolveImage (re_lib env) (re_render env) (re_cache_env env) (re_getenv env)
             (re_registry env) (img_Name img) (img_TagRanges img) cache of
        (Inl err, _) \<Rightarrow> Inl (ImageFailed (img_Identifier img) (RangeFailed err))
      | (Inr generated, cache) \<Rightarrow>
          (case mergeGeneratedTags img generated of
             Inl err \<Rightarrow> Inl (ImageFailed (img_Identifier img) err)
           | Inr img' \<Rightarrow> Inr (mput identifier img' images, cache)))"

definition resolveTagRanges ::
  "'v resolver_env \<Rightarrow> (string, Image) gomap \<Rightarrow> HiveProjectConfig \<Rightarrow> string \<Rightarrow> bool
   \<Rightarrow> discovery_error + (string, Image) gomap" where
  "resolveTagRanges env images hiveConfig projectRoot refreshVersions =
     (if \<not> anyTagRanges images then Inr images
      else case ResolveCacheDir (re_xdg env) (re_getenv env ''CONTAINER_HIVE_CACHE_DIR'')
             (hc_CacheDir hiveConfig) projectRoot of
        None \<Rightarrow> Inl NoCacheDir
      | Some cacheDir \<Rightarrow>
          let cache = SetForceRefresh refreshVersions (NewCache (re_now env) (re_disk env) cacheDir) in
          res_bind (res_fold (resolve_image_ranges env) (images, cache) (sorted_keys images))
            (\<lambda>(images, _). Inr images))"

section \<open>The project\<close>

definition verifyProjectRoot :: "project_files \<Rightarrow> string \<Rightarrow> discovery_error + unit" where
  "verifyProjectRoot fs root =
     (case pf_stat fs root of
        Missing \<Rightarrow> Inl NoProjectRoot | StatFailed \<Rightarrow> Inl RootStatFailed
      | IsFile \<Rightarrow> Inl RootNotDir | IsDir \<Rightarrow> Inr ())"

definition hiveConfigFileNames :: "string list" where
  "hiveConfigFileNames = [''hive.yaml'', ''hive.yml'', ''container-hive.yaml'', ''container-hive.yml'']"

fun config_file :: "project_files \<Rightarrow> string \<Rightarrow> string list \<Rightarrow> discovery_error + string" where
  "config_file fs root [] = Inl NoConfigFile"
| "config_file fs root (name # names) =
     (let path = go_path_join [root, name] in
      case pf_stat fs path of
        StatFailed \<Rightarrow> Inl (ConfigStatFailed path)
      | Missing \<Rightarrow> config_file fs root names
      | _ \<Rightarrow> Inr path)"

definition getContainerHiveConfigFile :: "project_files \<Rightarrow> string \<Rightarrow> discovery_error + string" where
  "getContainerHiveConfigFile fs root = config_file fs root hiveConfigFileNames"

definition parseHiveConfigFile :: "project_files \<Rightarrow> string \<Rightarrow> discovery_error + HiveProjectConfig" where
  "parseHiveConfigFile fs path =
     (case pf_read fs path of None \<Rightarrow> Inl ConfigReadFailed | Some data \<Rightarrow>
       (case pf_decode_hive fs data of None \<Rightarrow> Inl ConfigParseFailed | Some c \<Rightarrow> Inr c))"

definition inherit_platforms :: "string list \<Rightarrow> Image \<Rightarrow> Image" where
  "inherit_platforms hivePlatforms img =
     (let ps = (if length (img_Platforms img) = 0 then hivePlatforms else img_Platforms img) in
      img\<lparr>img_Platforms := ps,
          img_Variants := map (\<lambda>(n, variant). (n,
            if length (var_Platforms variant) = 0 then variant\<lparr>var_Platforms := ps\<rparr> else variant)) (img_Variants img)\<rparr>)"

definition by_name :: "(string, Image) gomap \<Rightarrow> (string, Image list) gomap" where
  "by_name images =
     fold (\<lambda>(_, image) m. mput (img_Name image) (mget_or [] m (img_Name image) @ [image]) m) images []"

definition absolute :: "project_files \<Rightarrow> string \<Rightarrow> discovery_error + string" where
  "absolute fs p = (case pf_abs fs p of None \<Rightarrow> Inl NoAbsolutePath | Some a \<Rightarrow> Inr a)"

definition default_platforms :: "HiveProjectConfig \<Rightarrow> HiveProjectConfig" where
  "default_platforms cfg =
     (if length (hc_Platforms cfg) = 0 then cfg\<lparr>hc_Platforms := DefaultPlatforms\<rparr> else cfg)"

definition inherit_all :: "string list \<Rightarrow> (string, Image) gomap \<Rightarrow> (string, Image) gomap" where
  "inherit_all ps images = map (\<lambda>(k, img). (k, inherit_platforms ps img)) images"

definition DiscoverProject ::
  "project_files \<Rightarrow> 'v resolver_env \<Rightarrow> string \<Rightarrow> bool \<Rightarrow> bool \<Rightarrow> discovery_error + ContainerHiveProject" where
  "DiscoverProject fs env root refreshVersions skipTagRanges =
     res_bind (verifyProjectRoot fs root) (\<lambda>_.
     res_bind (absolute fs root) (\<lambda>absoluteRoot.
     res_bind (getContainerHiveConfigFile fs root) (\<lambda>configPath.
     res_bind (absolute fs configPath) (\<lambda>absoluteConfigPath.
     res_bind (parseHiveConfigFile fs absoluteConfigPath) (\<lambda>parsed.
     let hiveConfig = default_platforms parsed in
     case pf_eval_symlinks fs (go_path_join [absoluteRoot, ''images'']) of
       None \<Rightarrow> Inl NoImagesPath
     | Some imagesPath \<Rightarrow>
     res_bind (discoverImages fs imagesPath) (\<lambda>found.
     res_bind (if skipTagRanges then Inr found
               else resolveTagRanges env found hiveConfig absoluteRoot refreshVersions) (\<lambda>resolved.
     let images = inherit_all (hc_Platforms hiveConfig) resolved in
     Inr \<lparr>pr_RootDir = absoluteRoot, pr_ConfigFilePath = absoluteConfigPath, pr_Config = hiveConfig,
          pr_ImagesByIdentifier = images, pr_ImagesByName = by_name images\<rparr>)))))))"

section \<open>Merging generated tags\<close>

text \<open>
  What the merge is to yield: a tag of the file as it is, else the last generated one of the name.
\<close>

definition last_generated :: "GeneratedTag list \<Rightarrow> string \<Rightarrow> GeneratedTag option" where
  "last_generated gs n = find (\<lambda>g. gt_Name g = n) (rev gs)"

definition merged_tag :: "Image \<Rightarrow> GeneratedTag list \<Rightarrow> string \<Rightarrow> Tag option" where
  "merged_tag img gs n =
     (case mget (img_Tags img) n of Some t \<Rightarrow> Some t | None \<Rightarrow> map_option generated_tag (last_generated gs n))"

definition static_tags :: "Image \<Rightarrow> bool" where
  "static_tags img \<longleftrightarrow> (\<forall>n t. mget (img_Tags img) n = Some t \<longrightarrow> tag_GeneratedFrom t = [])"

definition one_range :: "Image \<Rightarrow> GeneratedTag list \<Rightarrow> bool" where
  "one_range img gs \<longleftrightarrow> (\<forall>g \<in> set gs. \<forall>h \<in> set gs. gt_Name g = gt_Name h
     \<longrightarrow> mget (img_Tags img) (gt_Name g) = None \<longrightarrow> gt_Range g = gt_Range h)"

definition merge_state ::
  "Image \<Rightarrow> GeneratedTag list \<Rightarrow> (string, Tag) gomap \<times> (string, string) gomap \<Rightarrow> bool" where
  "merge_state img gs s \<longleftrightarrow>
     (\<forall>n. mget (fst s) n = merged_tag img gs n)
     \<and> (\<forall>n. mget (snd s) n = (case mget (img_Tags img) n of Some t \<Rightarrow> None
          | None \<Rightarrow> map_option gt_Range (last_generated gs n)))
     \<and> (\<forall>g \<in> set gs. match_string ociTagPattern (gt_Name g)) \<and> one_range img gs"

lemma last_generated_snoc:
  "last_generated (gs @ [g]) n = (if gt_Name g = n then Some g else last_generated gs n)"
  by (simp add: last_generated_def)

lemma last_generated_SomeD:
  "last_generated gs n = Some g \<Longrightarrow> g \<in> set gs \<and> gt_Name g = n"
proof -
  have "find P xs = Some x \<Longrightarrow> x \<in> set xs \<and> P x" for P and xs :: "GeneratedTag list" and x
    by (induction xs) (auto split: if_splits)
  from this[of "\<lambda>g. gt_Name g = n" "rev gs" g] show "last_generated gs n = Some g \<Longrightarrow> g \<in> set gs \<and> gt_Name g = n"
    by (simp add: last_generated_def)
qed

lemma last_generated_None_iff: "last_generated gs n = None \<longleftrightarrow> n \<notin> gt_Name ` set gs"
  by (auto simp: last_generated_def find_None_iff)

lemma one_range_snoc:
  assumes "one_range img gs" and "\<And>h. h \<in> set gs \<Longrightarrow> gt_Name h = gt_Name g \<Longrightarrow>
      mget (img_Tags img) (gt_Name g) = None \<Longrightarrow> gt_Range h = gt_Range g"
  shows "one_range img (gs @ [g])"
  unfolding one_range_def
proof (intro ballI impI)
  fix x y assume xy: "x \<in> set (gs @ [g])" "y \<in> set (gs @ [g])" and eq: "gt_Name x = gt_Name y"
    and new: "mget (img_Tags img) (gt_Name x) = None"
  from xy consider (both) "x \<in> set gs" "y \<in> set gs" | (left) "x \<in> set gs" "y = g"
    | (right) "x = g" "y \<in> set gs" | (none) "x = g" "y = g" by auto
  then show "gt_Range x = gt_Range y"
  proof cases
    case both
    then show ?thesis using assms(1) eq new unfolding one_range_def by blast
  next
    case left
    then show ?thesis using assms(2)[of x] eq new by simp
  next
    case right
    then show ?thesis using assms(2)[of y] eq new by simp
  qed simp
qed

lemma merge_tag_step:
  assumes "merge_state img gs s" and "merge_tag img s g = Inr s'"
    and "static_tags img" and "\<forall>h \<in> set gs. gt_Range h \<noteq> []"
  shows "merge_state img (gs @ [g]) s'"
proof -
  obtain tags seen where s: "s = (tags, seen)" by fastforce
  have tags: "\<And>n. mget tags n = merged_tag img gs n"
    and seen: "\<And>n. mget seen n = (case mget (img_Tags img) n of Some t \<Rightarrow> None
          | None \<Rightarrow> map_option gt_Range (last_generated gs n))"
    and pat: "\<forall>h \<in> set gs. match_string ociTagPattern (gt_Name h)" and one: "one_range img gs"
    using assms(1) by (simp_all add: merge_state_def s)
  have ok: "match_string ociTagPattern (gt_Name g)"
    using assms(2) by (auto simp: merge_tag_def s Let_def split: if_splits)
  show ?thesis
  proof (cases "mget (img_Tags img) (gt_Name g)")
    case (Some t)
    then have "tag_GeneratedFrom t = []" using assms(3) by (simp add: static_tags_def)
    then have "s' = s" using assms(2) Some tags[of "gt_Name g"] ok
      by (simp add: merge_tag_def s merged_tag_def)
    have m: "merged_tag img (gs @ [g]) n = merged_tag img gs n" for n
      using Some by (auto simp: merged_tag_def last_generated_snoc split: option.split)
    have f: "mget seen n = (case mget (img_Tags img) n of Some t \<Rightarrow> None
        | None \<Rightarrow> map_option gt_Range (last_generated (gs @ [g]) n))" for n
      using Some seen[of n] by (auto simp: last_generated_snoc split: option.split)
    have o: "one_range img (gs @ [g])" by (rule one_range_snoc[OF one]) (simp add: Some)
    show ?thesis
      unfolding merge_state_def \<open>s' = s\<close> s fst_conv snd_conv
      by (intro conjI allI trans[OF tags m[symmetric]] f o) (use pat ok in simp)
  next
    case None
    have dyn: "tag_GeneratedFrom t \<noteq> []" if dt: "mget tags (gt_Name g) = Some t" for t
    proof -
      obtain k where k: "last_generated gs (gt_Name g) = Some k" and t: "t = generated_tag k"
        using dt None unfolding tags merged_tag_def by auto
      from last_generated_SomeD[OF k] assms(4) show ?thesis by (simp add: t generated_tag_def)
    qed
    have same: "gt_Range h = gt_Range g" if h: "h \<in> set gs" "gt_Name h = gt_Name g" for h
    proof -
      obtain k where k: "last_generated gs (gt_Name g) = Some k"
        using h last_generated_None_iff[of gs "gt_Name g"] imageI[of h "set gs" gt_Name]
        by (cases "last_generated gs (gt_Name g)") simp_all
      have "mget seen (gt_Name g) = Some (gt_Range k)" using seen[of "gt_Name g"] None k by simp
      then have "gt_Range k = gt_Range g"
        using assms(2) ok dyn by (auto simp: merge_tag_def s Let_def split: if_splits option.splits)
      moreover have "gt_Range h = gt_Range k"
        using one[unfolded one_range_def, rule_format, OF h(1)] last_generated_SomeD[OF k] None h(2) by metis
      ultimately show ?thesis by simp
    qed
    have "s' = (mput (gt_Name g) (generated_tag g) tags, mput (gt_Name g) (gt_Range g) seen)"
      using assms(2) ok dyn by (auto simp: merge_tag_def s Let_def split: if_splits option.splits)
    then have s': "merge_state img (gs @ [g]) s' = merge_state img (gs @ [g])
        (mput (gt_Name g) (generated_tag g) tags, mput (gt_Name g) (gt_Range g) seen)" by simp
    have m: "mget (mput (gt_Name g) (generated_tag g) tags) n = merged_tag img (gs @ [g]) n" for n
      using None by (auto simp: tags merged_tag_def last_generated_snoc split: option.split)
    have f: "mget (mput (gt_Name g) (gt_Range g) seen) n = (case mget (img_Tags img) n of Some t \<Rightarrow> None
        | None \<Rightarrow> map_option gt_Range (last_generated (gs @ [g]) n))" for n
      using None seen[of n] by (auto simp: last_generated_snoc split: option.split)
    have o: "one_range img (gs @ [g])" by (rule one_range_snoc[OF one]) (rule same)
    show ?thesis
      unfolding s' unfolding merge_state_def fst_conv snd_conv
      by (intro conjI allI m f o) (use pat ok in simp)
  qed
qed

lemma merge_fold:
  assumes "merge_state img gs s" and "res_fold (merge_tag img) s hs = Inr s'"
    and "static_tags img" and "\<forall>h \<in> set (gs @ hs). gt_Range h \<noteq> []"
  shows "merge_state img (gs @ hs) s'"
  using assms
proof (induction hs arbitrary: gs s)
  case (Cons h hs)
  from Cons.prems(2) obtain s1 where s1: "merge_tag img s h = Inr s1" "res_fold (merge_tag img) s1 hs = Inr s'"
    by (auto simp: res_bind_Inr_iff)
  have "merge_state img (gs @ [h]) s1"
    by (rule merge_tag_step[OF Cons.prems(1) s1(1) assms(3)]) (use Cons.prems(4) in simp)
  from Cons.IH[OF this s1(2) assms(3)] Cons.prems(4) show ?case by simp
qed simp

section \<open>The shape of a discovered project\<close>

lemma wf_insert_all:
  "wf_map m \<Longrightarrow> wf_map (fold (\<lambda>x. mput (k x) (v x)) xs m)"
  by (rule fold_invariant) auto

lemma keys_insert_all:
  "mget (fold (\<lambda>x. mput (k x) x) xs m) n = Some y \<Longrightarrow> (\<And>z. mget m n = Some z \<Longrightarrow> k z = n) \<Longrightarrow> k y = n"
proof (induction xs arbitrary: m)
  case (Cons x xs)
  show ?case by (rule Cons.IH[of "mput (k x) x m"]) (use Cons.prems in \<open>auto split: if_splits\<close>)
qed simp

text \<open>An entry point is a file with the name of its backend, maybe with a template extension.\<close>

definition entry_found :: "string \<Rightarrow> string \<Rightarrow> bool" where
  "entry_found backend path \<longleftrightarrow> path \<noteq> [] \<and> (backend, go_base (RemoveTemplateExt path)) \<in>
     {(BuildBackendDockerfile, ''Dockerfile''), (BuildBackendNix, FlakeFileName), (BuildBackendChisel, ChiselFileName)}"

lemma resolveBuildEntrypoint_found:
  assumes "resolveBuildEntrypoint fs backend root = Inr e"
  shows "entry_found (be_Backend e) (be_Path e)"
proof -
  have plain: "plain_name ''Dockerfile''" "plain_name FlakeFileName" "plain_name ChiselFileName"
    by (simp_all add: plain_name_def slash_def FlakeFileName_def ChiselFileName_def)
  have keep: "RemoveTemplateExt ''Dockerfile'' = ''Dockerfile''" "RemoveTemplateExt FlakeFileName = FlakeFileName"
    "RemoveTemplateExt ChiselFileName = ChiselFileName"
    by code_simp+
  have "\<exists>f. ResolveFirstExistingFile (pf_stat fs) root (GetFileCandidates f []) = Some (be_Path e) \<and>
      (be_Backend e, f) \<in> {(BuildBackendDockerfile, ''Dockerfile''), (BuildBackendNix, FlakeFileName), (BuildBackendChisel, ChiselFileName)}"
    using assms unfolding resolveBuildEntrypoint_def Let_def entry_def
    by (auto split: if_splits option.splits)
  then show ?thesis
    using candidate_base[OF plain(1) keep(1)] candidate_base[OF plain(2) keep(2)] candidate_base[OF plain(3) keep(3)]
    by (fastforce simp: entry_found_def)
qed

definition readme_found :: "string \<Rightarrow> bool" where
  "readme_found path \<longleftrightarrow> path \<noteq> [] \<longrightarrow> go_base (RemoveTemplateExt path) = ''README.md''"

lemma getReadmePath_found: "readme_found (getReadmePath fs root)"
proof -
  have "RemoveTemplateExt ''README.md'' = ''README.md''" by code_simp
  then show ?thesis
    using candidate_base[of "''README.md''" "pf_stat fs" root]
    by (auto simp: readme_found_def getReadmePath_def optional_path_def plain_name_def slash_def split: option.splits)
qed

text \<open>
  An image is filed under its identifier, with maps for its tags and variants and with the entry points found for
  it and for its variants.
\<close>

definition variant_ok :: "ImageVariant \<Rightarrow> bool" where
  "variant_ok v \<longleftrightarrow> entry_found (var_BuildBackend v) (var_BuildEntryPointPath v) \<and> readme_found (var_ReadmePath v)"

definition image_ok :: "string \<Rightarrow> Image \<Rightarrow> bool" where
  "image_ok identifier img \<longleftrightarrow>
     img_Identifier img = identifier \<and> wf_map (img_Tags img) \<and> wf_map (img_Variants img)
     \<and> entry_found (img_BuildBackend img) (img_BuildEntryPointPath img) \<and> readme_found (img_ReadmePath img)
     \<and> (\<forall>(n, v) \<in> set (img_Variants img). variant_ok v)"

definition images_ok :: "(string, Image) gomap \<Rightarrow> bool" where
  "images_ok images \<longleftrightarrow> wf_map images \<and> (\<forall>k img. mget images k = Some img \<longrightarrow> image_ok k img)"

lemma set_mput: "kv \<in> set (mput k v m) \<Longrightarrow> kv = (k, v) \<or> kv \<in> set m"
  by (induction m) (auto split: if_splits)

lemma processVariants_ok:
  assumes "processVariants fs d root icon = Inr vs"
  shows "wf_map vs \<and> (\<forall>(n, v) \<in> set vs. variant_ok v)"
proof (rule res_fold_invariant[OF assms[unfolded processVariants_def]])
  fix vs v vs'
  assume vs: "wf_map vs \<and> (\<forall>(n, v) \<in> set vs. variant_ok v)" and p: "process_variant fs root icon vs v = Inr vs'"
  then show "wf_map vs' \<and> (\<forall>(n, v) \<in> set vs'. variant_ok v)"
    using resolveBuildEntrypoint_found getReadmePath_found
    by (auto simp: process_variant_def Let_def res_bind_Inr_iff variant_ok_def dest!: set_mput)
qed simp

lemma processTags_wf: "wf_map (processTags d)"
  unfolding processTags_def by (rule wf_insert_all) simp

lemma processImageConfig_ok:
  assumes "processImageConfig fs root path = Inr img"
  shows "image_ok (img_Identifier img) img"
proof -
  obtain d icon e where "processVariants fs d (go_dir path) icon = Inr (img_Variants img)"
    and "img_Tags img = processTags d"
    and "resolveBuildEntrypoint fs (id_Build d) (go_dir path) = Inr e"
    and "img_BuildBackend img = be_Backend e" "img_BuildEntryPointPath img = be_Path e"
      "img_ReadmePath img = getReadmePath fs (go_dir path)"
    using assms by (auto simp: processImageConfig_def Let_def res_bind_Inr_iff split: option.split_asm)
  then show ?thesis
    using processVariants_ok processTags_wf resolveBuildEntrypoint_found getReadmePath_found by (simp add: image_ok_def)
qed

lemma images_ok_mput: "images_ok images \<Longrightarrow> image_ok k img \<Longrightarrow> images_ok (mput k img images)"
  by (simp add: images_ok_def)

lemma discoverImages_ok:
  assumes "discoverImages fs root = Inr images"
  shows "images_ok images"
proof -
  obtain found configs where c: "res_map (processImageConfig fs root) found = Inr configs"
    and im: "images = fold (\<lambda>config images. mput (img_Identifier config) config images) configs []"
    using assms by (auto simp: discoverImages_def res_bind_Inr_iff split: option.splits prod.splits)
  show ?thesis
    unfolding im
  proof (rule fold_invariant)
    show "images_ok []" by (simp add: images_ok_def)
    fix images img assume "img \<in> set configs" "images_ok images"
    then show "images_ok (mput (img_Identifier img) img images)"
      using res_map_mem[OF c] processImageConfig_ok images_ok_mput by blast
  qed
qed

lemma mergeGeneratedTags_ok:
  assumes "mergeGeneratedTags img gs = Inr img'" and "image_ok k img"
  shows "image_ok k img'"
proof -
  obtain tags seen where f: "res_fold (merge_tag img) (img_Tags img, []) gs = Inr (tags, seen)"
    and img': "img' = img\<lparr>img_Tags := tags\<rparr>"
    using assms(1) by (auto simp: mergeGeneratedTags_def res_bind_Inr_iff)
  have "wf_map (fst (tags, seen))"
    by (rule res_fold_invariant[where P = "\<lambda>s. wf_map (fst s)", OF f])
       (use assms(2) in \<open>auto simp: image_ok_def merge_tag_def Let_def split: if_splits prod.splits option.splits\<close>)
  then show ?thesis using assms(2) by (simp add: image_ok_def img')
qed

lemma resolve_image_ranges_ok:
  assumes "resolve_image_ranges env s k = Inr s'" and "images_ok (fst s)" and "mget (fst s) k \<noteq> None"
  shows "images_ok (fst s') \<and> dom (map_of (fst s')) = dom (map_of (fst s))"
proof -
  obtain images cache where s: "s = (images, cache)" by fastforce
  obtain img where img: "mget images k = Some img" using assms(3) s by auto
  show ?thesis
  proof (cases "img_TagRanges img = []")
    case True
    then show ?thesis using assms(1,2) by (simp add: resolve_image_ranges_def s mget_at_def img)
  next
    case False
    then obtain gs cache' img' where "mergeGeneratedTags img gs = Inr img'" and s': "s' = (mput k img' images, cache')"
      using assms(1) by (auto simp: resolve_image_ranges_def s mget_at_def img split: prod.splits sum.splits)
    then have "image_ok k img'"
      using mergeGeneratedTags_ok assms(2) img s by (auto simp: images_ok_def)
    then show ?thesis using assms(2) images_ok_mput s s' img by auto
  qed
qed

lemma resolveTagRanges_ok:
  assumes "resolveTagRanges env images cfg root refresh = Inr images'" and "images_ok images"
  shows "images_ok images'"
proof (cases "anyTagRanges images")
  case True
  then obtain cache cache' where f: "res_fold (resolve_image_ranges env) (images, cache) (sorted_keys images) = Inr (images', cache')"
    using assms(1) by (auto simp: resolveTagRanges_def Let_def res_bind_Inr_iff split: option.splits)
  have "images_ok (fst (images', cache')) \<and> dom (map_of (fst (images', cache'))) = dom (map_of images)"
  proof (rule res_fold_invariant[where P = "\<lambda>s. images_ok (fst s) \<and> dom (map_of (fst s)) = dom (map_of images)", OF f])
    show "images_ok (fst (images, cache)) \<and> dom (map_of (fst (images, cache))) = dom (map_of images)"
      using assms(2) by simp
    fix s k s' assume "k \<in> set (sorted_keys images)" "resolve_image_ranges env s k = Inr s'"
      and "images_ok (fst s) \<and> dom (map_of (fst s)) = dom (map_of images)"
    then show "images_ok (fst s') \<and> dom (map_of (fst s')) = dom (map_of images)"
      using resolve_image_ranges_ok[of env s k s'] by (auto simp: set_mkeys)
  qed
  then show ?thesis by simp
next
  case False
  then show ?thesis using assms by (simp add: resolveTagRanges_def)
qed

lemma inherit_platforms_ne:
  assumes "ps \<noteq> []"
  shows "img_Platforms (inherit_platforms ps img) \<noteq> []
    \<and> (\<forall>(n, v) \<in> set (img_Variants (inherit_platforms ps img)). var_Platforms v \<noteq> [])"
  using assms by (cases "img_Platforms img") (auto simp: inherit_platforms_def Let_def split: if_splits)

lemma by_name_get:
  "set (mget_or [] (by_name images) n) = {img. \<exists>k. (k, img) \<in> set images \<and> img_Name img = n}"
  "wf_map (by_name images)"
  "mget (by_name images) n \<noteq> Some []"
proof -
  let ?f = "\<lambda>(k, image) m. mput (img_Name image) (mget_or [] m (img_Name image) @ [image]) m"
  have "set (mget_or [] (fold ?f images m) n) = set (mget_or [] m n) \<union> {img. \<exists>k. (k, img) \<in> set images \<and> img_Name img = n}"
    for m
  proof (induction images arbitrary: m)
    case (Cons e es)
    obtain k img where "e = (k, img)" by fastforce
    then show ?case using Cons.IH[of "?f e m"] by auto
  qed simp
  from this[of "[]"] show "set (mget_or [] (by_name images) n) = {img. \<exists>k. (k, img) \<in> set images \<and> img_Name img = n}"
    by (simp add: by_name_def)
  show "wf_map (by_name images)"
    unfolding by_name_def by (rule fold_invariant) auto
  have "mget (by_name images) n = Some [] \<longrightarrow> False" for n
    unfolding by_name_def
    by (rule fold_invariant[where P = "\<lambda>m. mget m n = Some [] \<longrightarrow> False"])
       (auto split: if_splits)
  then show "mget (by_name images) n \<noteq> Some []" by blast
qed

lemma discovered_ok:
  assumes "DiscoverProject fs env root refresh skip = Inr project"
  shows "images_ok (pr_ImagesByIdentifier project) \<and> wf_map (pr_ImagesByName project)
    \<and> (\<forall>name. set (mget_or [] (pr_ImagesByName project) name)
         = {img. mget (pr_ImagesByIdentifier project) (img_Identifier img) = Some img \<and> img_Name img = name})
    \<and> (\<forall>name. mget (pr_ImagesByName project) name \<noteq> Some [])
    \<and> (\<forall>k img. mget (pr_ImagesByIdentifier project) k = Some img \<longrightarrow>
         img_Platforms img \<noteq> [] \<and> (\<forall>(n, v) \<in> set (img_Variants img). var_Platforms v \<noteq> []))"
proof -
  obtain a b parsed path found resolved where found: "discoverImages fs path = Inr found"
    and res: "(if skip then Inr found else resolveTagRanges env found (default_platforms parsed) a refresh) = Inr resolved"
    and pr: "project = \<lparr>pr_RootDir = a, pr_ConfigFilePath = b, pr_Config = default_platforms parsed,
        pr_ImagesByIdentifier = inherit_all (hc_Platforms (default_platforms parsed)) resolved,
        pr_ImagesByName = by_name (inherit_all (hc_Platforms (default_platforms parsed)) resolved)\<rparr>"
    using assms unfolding DiscoverProject_def Let_def
    by (auto simp: res_bind_Inr_iff simp del: if_split_asm split: option.split_asm)
  let ?ps = "hc_Platforms (default_platforms parsed)"
  have plat: "?ps \<noteq> []" by (simp add: default_platforms_def DefaultPlatforms_def)
  have p: "pr_ImagesByIdentifier project = map (\<lambda>(k, img). (k, inherit_platforms ?ps img)) resolved"
      "pr_ImagesByName project = by_name (pr_ImagesByIdentifier project)"
    by (simp_all add: pr inherit_all_def)
  have ok: "images_ok resolved"
    using discoverImages_ok[OF found] resolveTagRanges_ok res by (cases skip) auto
  let ?im = "pr_ImagesByIdentifier project"
  have get: "mget ?im k = map_option (inherit_platforms ?ps) (mget resolved k)" for k
    unfolding p(1) by (induction resolved) auto
  have wf: "wf_map ?im"
    using ok unfolding images_ok_def wf_map_def p(1) by (simp add: comp_def case_prod_unfold)
  have keep: "image_ok k img \<Longrightarrow> image_ok k (inherit_platforms ?ps img)" for k img
    by (simp add: image_ok_def inherit_platforms_def Let_def wf_map_def comp_def case_prod_unfold variant_ok_def)
  have oks: "images_ok ?im"
    using ok wf keep unfolding images_ok_def get by auto
  have named: "set (mget_or [] (pr_ImagesByName project) name)
      = {img. mget ?im (img_Identifier img) = Some img \<and> img_Name img = name}" for name
    using oks unfolding p(2) by_name_get(1) wf_map_get[OF wf] images_ok_def image_ok_def by auto
  have "img_Platforms img \<noteq> [] \<and> (\<forall>(n, v) \<in> set (img_Variants img). var_Platforms v \<noteq> [])"
    if "mget ?im k = Some img" for k img
    using that inherit_platforms_ne[OF plat] unfolding get by auto
  with oks named show ?thesis unfolding p(2) by (auto simp: by_name_get)
qed

section \<open>Properties\<close>

text \<open>Merging keeps every tag of the file as it is and adds, for each further generated name, the
  last tag generated for it; names from different ranges do not meet, and nothing else of the
  image changes.\<close>

lemma merge_keeps_static_tags:
  assumes "static_tags img" and "\<forall>g \<in> set gs. gt_Range g \<noteq> []" and "mergeGeneratedTags img gs = Inr img'"
  shows "(\<forall>n t. mget (img_Tags img) n = Some t \<longrightarrow> mget (img_Tags img') n = Some t)
    \<and> (\<forall>n. mget (img_Tags img) n = None \<longrightarrow>
         mget (img_Tags img') n = map_option generated_tag (last_generated gs n))
    \<and> (\<forall>g \<in> set gs. \<forall>h \<in> set gs. gt_Name g = gt_Name h \<longrightarrow> mget (img_Tags img) (gt_Name g) = None
         \<longrightarrow> gt_Range g = gt_Range h)
    \<and> img' = img\<lparr>img_Tags := img_Tags img'\<rparr>"
proof -
  obtain tags seen where f: "res_fold (merge_tag img) (img_Tags img, []) gs = Inr (tags, seen)"
    and img': "img' = img\<lparr>img_Tags := tags\<rparr>"
    using assms(3) by (auto simp: mergeGeneratedTags_def res_bind_Inr_iff)
  have "merge_state img [] (img_Tags img, [])"
    by (simp add: merge_state_def merged_tag_def last_generated_def one_range_def split: option.split)
  from merge_fold[OF this f assms(1)] assms(2) have m: "merge_state img gs (tags, seen)" by simp
  then have t: "mget (img_Tags img') n = merged_tag img gs n" for n by (simp add: merge_state_def img')
  have o: "one_range img gs" using m by (simp add: merge_state_def)
  have i: "img' = img\<lparr>img_Tags := img_Tags img'\<rparr>" by (simp add: img')
  show ?thesis
    unfolding t by (intro conjI o[unfolded one_range_def] i) (simp_all add: merged_tag_def)
qed

text \<open>C18. A discovered project is well formed: images are filed under their identifiers and, all of
  them and no others, under their names; every image and every variant has platforms.\<close>

theorem discovered_project_well_formed:
  assumes "DiscoverProject fs env root refresh skip = Inr project"
  shows "images_ok (pr_ImagesByIdentifier project) \<and> wf_map (pr_ImagesByName project)
    \<and> (\<forall>name. set (mget_or [] (pr_ImagesByName project) name)
         = {img. mget (pr_ImagesByIdentifier project) (img_Identifier img) = Some img \<and> img_Name img = name})
    \<and> (\<forall>name. mget (pr_ImagesByName project) name \<noteq> Some [])
    \<and> (\<forall>k img. mget (pr_ImagesByIdentifier project) k = Some img \<longrightarrow>
         img_Platforms img \<noteq> [] \<and> (\<forall>(n, v) \<in> set (img_Variants img). var_Platforms v \<noteq> []))"
  using assms by (rule discovered_ok)

section \<open>A concrete project\<close>

definition app_definition :: ImageDefinitionConfig where
  "app_definition = \<lparr>id_Description = [], id_Build = [], id_Nix = None, id_Chisel = None, id_Config = None,
     id_Tags = [zero_Tag\<lparr>tag_Name := ''1.0''\<rparr>], id_TagRanges = [], id_Variants = [], id_Versions = [],
     id_BuildArgs = [], id_Secrets = [], id_DependsOn = [], id_Platforms = [], id_LatestAlias = None,
     id_ReportIcon = None, id_Labels = []\<rparr>"

definition app_files :: project_files where
  "app_files = \<lparr>
     pf_stat = (\<lambda>p. if p = ''/p'' then IsDir
       else if p \<in> {''/p/hive.yml'', ''/p/images/app/image.yml'', ''/p/images/app/Dockerfile''} then IsFile else Missing),
     pf_read = Some, pf_abs = Some, pf_eval_symlinks = Some,
     pf_tree = (\<lambda>_. Some (DirNode ''images'' [DirNode ''app'' [FileNode ''Dockerfile'', FileNode ''image.yml'']])),
     pf_decode_image = (\<lambda>_. Some app_definition), pf_decode_hive = (\<lambda>_. Some zero_HiveProjectConfig),
     pf_decode_cut = (\<lambda>_. None)\<rparr>"

definition no_sources :: "nat resolver_env" where
  "no_sources = \<lparr>re_lib = nat_lib, re_render = raw_render, re_cache_env = plain_env, re_getenv = (\<lambda>_. []),
     re_registry = [], re_xdg = None, re_now = int, re_disk = (\<lambda>_. None)\<rparr>"

lemma DiscoverProject_example:
  "map_sum id (\<lambda>p. map (\<lambda>(k, img). (k, mkeys (img_Tags img))) (pr_ImagesByIdentifier p))
     (DiscoverProject app_files no_sources ''/p'' False False) = Inr [(''app'', [''1.0''])]"
  by code_simp

theorem discovered_project_well_formed_witness:
  "\<exists>p. DiscoverProject app_files no_sources ''/p'' False False = Inr p \<and> images_ok (pr_ImagesByIdentifier p)"
proof -
  obtain p where p: "DiscoverProject app_files no_sources ''/p'' False False = Inr p"
    using DiscoverProject_example by (cases "DiscoverProject app_files no_sources ''/p'' False False") auto
  then show ?thesis using discovered_project_well_formed[OF p] by blast
qed

definition slim_image :: Image where
  "slim_image = zero_Image\<lparr>img_Tags := [(''1.0'', zero_Tag)],
     img_Variants := [(''slim'', zero_ImageVariant\<lparr>var_TagSuffix := ''-slim''\<rparr>)]\<rparr>"

definition generated :: "string \<Rightarrow> GeneratedTag" where
  "generated name = \<lparr>gt_Name = name, gt_Versions = [], gt_BuildArgs = [], gt_Labels = [],
     gt_IsPrerelease = False, gt_Range = ''app[0]''\<rparr>"

lemma merge_example: "mergeGeneratedTags slim_image [generated ''2.0''] =
    Inr (slim_image\<lparr>img_Tags := [(''1.0'', zero_Tag), (''2.0'', generated_tag (generated ''2.0''))]\<rparr>)"
  by code_simp

lemma merge_keeps_static_tags_witness:
  "\<exists>img'. mergeGeneratedTags slim_image [generated ''2.0''] = Inr img' \<and> mget (img_Tags img') ''1.0'' = Some zero_Tag"
proof -
  have "static_tags slim_image" by (simp add: static_tags_def slim_image_def zero_Tag_def)
  moreover have "\<forall>g \<in> set [generated ''2.0'']. gt_Range g \<noteq> []" by (simp add: generated_def)
  moreover have "mget (img_Tags slim_image) ''1.0'' = Some zero_Tag" by (simp add: slim_image_def)
  ultimately show ?thesis using merge_keeps_static_tags[OF _ _ merge_example] merge_example by blast
qed

text \<open>The check for collisions with variant tags sees only one direction: a generated tag that
  reads like another tag with a variant's suffix is refused, but not when the other tag is
  generated after it.\<close>

lemma variant_collision_depends_on_order:
  "mergeGeneratedTags slim_image [generated ''2.0'', generated ''2.0-slim''] = Inl (CollidesWithVariant ''2.0-slim'')
   \<and> map_sum id (\<lambda>img. mkeys (img_Tags img)) (mergeGeneratedTags slim_image [generated ''2.0-slim'', generated ''2.0''])
     = Inr [''1.0'', ''2.0-slim'', ''2.0'']"
  by code_simp

end
