(* ===== verification/Rendered_Builds.thy ===== *)
theory Rendered_Builds
  imports Rendering Build_Run Discovery
begin

text \<open>
  Discovery, rendering and building together: the directories rendering leaves are those the builds look for, so
  no build of a discovered project fails or is skipped for want of its entry point.
\<close>

section \<open>Paths of several elements\<close>

text \<open>Names of images may be paths themselves.\<close>

definition rel_path :: "string \<Rightarrow> bool" where
  "rel_path x \<longleftrightarrow> list_all plain_name (go_split slash x)"

lemma rel_path_plain: "plain_name x \<Longrightarrow> rel_path x"
  by (simp add: rel_path_def go_split_single plain_name_def)

lemma rel_path_ne: "rel_path x \<Longrightarrow> x \<noteq> []"
  by (auto simp: rel_path_def plain_name_def)

lemma join_append: "a \<noteq> [] \<Longrightarrow> b \<noteq> [] \<Longrightarrow> go_join sep (a @ b) = go_join sep a @ sep @ go_join sep b"
  by (induction a rule: induct_list012) (auto simp: neq_Nil_conv)

lemma join_split_all:
  "xs \<noteq> [] \<Longrightarrow> go_join ''/'' (concat (map (go_split slash) xs)) = go_join ''/'' xs"
proof (induction xs rule: induct_list012)
  case (2 x)
  then show ?case using go_join_split[of slash x] by (simp add: slash_def)
next
  case (3 x y zs)
  then show ?case using go_join_split[of slash x] by (simp add: join_append slash_def)
qed simp

lemma path_key_join_rel:
  assumes "list_all rel_path xs" and "xs \<noteq> []"
  shows "path_key (go_path_join (d # xs)) = (is_abs d, clean_elems d @ concat (map (go_split slash) xs))"
proof -
  let ?ys = "concat (map (go_split slash) xs)"
  have ys: "?ys \<noteq> []" "list_all plain_name ?ys"
    using assms by (auto simp: list_all_iff rel_path_def neq_Nil_conv)
  have f: "filter (\<lambda>p. p \<noteq> []) xs = xs" "filter (\<lambda>p. p \<noteq> []) ?ys = ?ys"
    using assms(1) ys(2) rel_path_ne by (auto simp: list_all_iff plain_name_def intro!: filter_True)
  have cons: "go_join ''/'' (d # zs) = d @ ''/'' @ go_join ''/'' zs" if "zs \<noteq> []" for zs
    using that by (cases zs) simp_all
  have "go_path_join (d # xs) = go_path_join (d # ?ys)"
    unfolding go_path_join_def Let_def filter.simps f
    using cons[OF assms(2)] cons[OF ys(1)] join_split_all[OF assms(2)] assms(2) ys(1) by simp
  then show ?thesis using path_key_join[OF ys] by simp
qed

lemma path_key_nested:
  assumes "rel_path name" and "rel_path tag" and "plain_name f"
  shows "path_key (go_path_join [go_path_join [go_path_join [d, name], tag], f]) = path_key (go_path_join [d, name, tag, f])"
proof -
  have 1: "path_key (go_path_join [x, y]) = (fst (path_key x), snd (path_key x) @ go_split slash y)" if "rel_path y" for x y
    using path_key_join_rel[of "[y]" x] that by (simp add: path_key_def)
  show ?thesis
    using assms rel_path_plain[OF assms(3)] path_key_join_rel[of "[name, tag, f]" d]
    by (simp add: 1 path_key_def[of d])
qed

section \<open>Entry points of tasks\<close>

lemma discovered_usual_names:
  assumes "DiscoverProject fs env root refresh skip = Inr project"
  shows "usual_names project target"
proof -
  have entry: "conventional e r" if "entry_found b e" "readme_found r" for b e r
    using that by (auto simp: entry_found_def readme_found_def conventional_def entry_names_def)
  note ok = discovered_ok[OF assms]
  have img: "image_ok (img_Identifier img) img" if "(name, images) \<in> set (pr_ImagesByName project)" "img \<in> set images" for name images img
  proof -
    have "mget (pr_ImagesByName project) name = Some images" using ok that(1) by (simp add: wf_map_get)
    then have "img \<in> set (mget_or [] (pr_ImagesByName project) name)" using that(2) by (simp add: mget_or_def)
    then have "mget (pr_ImagesByIdentifier project) (img_Identifier img) = Some img" using ok by auto
    then show ?thesis using ok by (simp add: images_ok_def)
  qed
  show ?thesis
    unfolding usual_names_def list_all_iff
  proof
    fix t
    assume "t \<in> set (project_tasks project target)"
    then obtain name images u where n: "(name, images) \<in> set (pr_ImagesByName project)"
      and u: "u \<in> set (processImagesForName (go_path_join [target, name]) images)" and t: "t = u \<or> t \<in> set (spawned u)"
      by (auto simp: project_tasks_def name_tasks_iff)
    obtain img tag td where "img \<in> set images" and u': "u = TagTask (go_path_join [target, name]) img tag td"
      using u by (auto simp: processImagesForName_def)
    then have "image_ok (img_Identifier img) img" using img[OF n] by blast
    then show "conventional (task_source t) (task_readme t)"
      using t u' by (fastforce simp: image_ok_def variant_ok_def intro: entry)
  qed
qed

lemma entry_found_backend:
  "entry_found backend path \<Longrightarrow> go_base (RemoveTemplateExt path) = entrypointFileName backend \<and> path \<noteq> [] \<and> backend \<noteq> []"
  by (auto simp: entry_found_def entrypointFileName_def BuildBackendDockerfile_def BuildBackendNix_def BuildBackendChisel_def)

lemma entrypointFileName_plain: "plain_name (entrypointFileName backend)"
  by (simp add: entrypointFileName_def plain_name_def slash_def FlakeFileName_def ChiselFileName_def)

lemma rendered_unit_entry:
  assumes "entry_holds env fs t fs'" and "task_dir t = go_path_join [go_path_join [po_DistPath opts, img_Name (bu_Image u)], bu_TagName u]"
    and "entry_found (bu_Backend u) (task_source t)" and "rel_path (img_Name (bu_Image u))" and "rel_path (bu_TagName u)"
  shows "file_data fs' (unit_entrypoint opts u) \<noteq> None"
proof -
  note e = entry_found_backend[OF assms(3)]
  have "path_key (task_entry t) = path_key (unit_entrypoint opts u)"
    using path_key_nested[OF assms(4,5) entrypointFileName_plain] assms(2) e
    by (simp add: task_entry_def fixUpEntrypoint_def unit_entrypoint_def)
  then show ?thesis
    using assms(1) e by (auto simp: entry_holds_def file_data_def split: sum.splits)
qed

section \<open>Properties\<close>

text \<open>
  C8. When RenderProject succeeds, whatever the order its goroutines ran in, every tag directory holds the image's build entry point,
  rendered with the values of that tag, and every variant directory the variant's, rendered and with the parent
  placeholder replaced by the reference to the image's tag.
\<close>

theorem rendered_entry_points:
  assumes "RenderProject env project target fs fs'" and "copies_files (rn_copy env)"
    and "usual_names project target" and "well_placed project target" and "t \<in> set (project_tasks project target)"
  shows "entry_holds env fs t fs'"
  using assms by (rule rendered_entries)

text \<open>
  C9. After a discovered project was rendered, every build of a tag gets past the test for its entry point and no
  build of a variant is skipped, as long as the rendered files are on the disk.
\<close>

theorem rendered_project_builds:
  assumes found: "DiscoverProject pfs renv root refresh skip = Inr project"
    and rendered: "RenderProject env project (po_DistPath opts) fs fs'" and copy: "copies_files (rn_copy env)"
    and placed: "well_placed project (po_DistPath opts)"
    and img: "mget (pr_ImagesByIdentifier project) k = Some img" and tag: "(tag, td) \<in> set (img_Tags img)"
    and names: "rel_path (img_Name img)" "rel_path tag"
    and disk: "\<And>p. file_data fs' p \<noteq> None \<Longrightarrow> rs_disk st p \<noteq> None"
  shows "buildTag benv opts img tag platformStr st = build_unit_steps benv opts (unit_of_tag benv img tag) platformStr st
    \<and> (\<forall>(n, v) \<in> set (img_Variants img). rel_path (tag @ var_TagSuffix v) \<longrightarrow>
         buildVariant benv opts img tag v platformStr st
           = build_unit_steps benv opts (unit_of_variant benv img tag v) platformStr st)"
proof -
  let ?root = "go_path_join [po_DistPath opts, img_Name img]"
  note ok = discovered_ok[OF found]
  have io: "image_ok (img_Identifier img) img" using ok img by (auto simp: images_ok_def image_ok_def)
  have "mget (pr_ImagesByIdentifier project) (img_Identifier img) = Some img"
    using ok img by (auto simp: images_ok_def image_ok_def)
  then have "img \<in> set (mget_or [] (pr_ImagesByName project) (img_Name img))" using ok by auto
  then obtain images where images: "mget (pr_ImagesByName project) (img_Name img) = Some images" "img \<in> set images"
    by (cases "mget (pr_ImagesByName project) (img_Name img)") (auto simp: mget_or_def)
  have "TagTask ?root img tag td \<in> set (processImagesForName ?root images)"
    using images(2) tag by (force simp: processImagesForName_def)
  then have t: "TagTask ?root img tag td \<in> set (project_tasks project (po_DistPath opts))"
    using name_in_project[OF map_of_SomeD[OF images(1)]] by auto
  note holds = rendered_entries[OF rendered copy discovered_usual_names[OF found] placed]
  have "file_data fs' (unit_entrypoint opts (unit_of_tag benv img tag)) \<noteq> None"
    using io names by (intro rendered_unit_entry[OF holds[OF t]]) (simp_all add: unit_of_tag_def image_ok_def)
  moreover have "file_data fs' (unit_entrypoint opts (unit_of_variant benv img tag v)) \<noteq> None"
    if v: "(n, v) \<in> set (img_Variants img)" and rel: "rel_path (tag @ var_TagSuffix v)" for n v
  proof -
    have vt: "VariantTask ?root img tag td v \<in> set (project_tasks project (po_DistPath opts))"
      using project_tasks_spawned[OF t] v by force
    have "entry_found (var_BuildBackend v) (var_BuildEntryPointPath v)" using io v by (auto simp: image_ok_def variant_ok_def)
    moreover from this have "variantBackend img v = var_BuildBackend v"
      using entry_found_backend by (simp add: variantBackend_def)
    ultimately show ?thesis
      using names rel by (intro rendered_unit_entry[OF holds[OF vt]]) (simp_all add: unit_of_variant_def)
  qed
  ultimately show ?thesis
    using disk by (fastforce simp: buildTag_def buildVariant_def)
qed

section \<open>A concrete project\<close>

text \<open>An image with a template for its tags and a variant on top of each; the copy of a file as a read and a write.\<close>

definition os_copy :: "string \<Rightarrow> string \<Rightarrow> filesys \<Rightarrow> os_error option \<times> filesys" where
  "os_copy src dst fs = (case os_ReadFile fs src of Inl e \<Rightarrow> (Some e, fs) | Inr data \<Rightarrow> os_WriteFile id dst data 420 fs)"

lemma os_copy_copies: "copies_files os_copy"
  unfolding copies_files_def
proof (intro allI impI)
  fix src dst fs fs'
  assume "os_copy src dst fs = (None, fs')"
  then obtain data where r: "os_ReadFile fs src = Inr data" and w: "os_WriteFile id dst data 420 fs = (None, fs')"
    by (auto simp: os_copy_def split: sum.splits)
  then show "writes (path_key dst) fs fs' \<and> (\<exists>data m m'.
      fs_node fs (path_key src) = Some (RegularFile data m) \<and> fs_node fs' (path_key dst) = Some (RegularFile data m'))"
    using WriteFile_ok[OF w] ReadFile_node[OF r] by blast
qed

definition demo_env :: render_env where
  "demo_env = \<lparr>rn_umask = id, rn_secrets = no_env,
     rn_process = (\<lambda>ctx src content. Some (content @ '' # '' @ tc_ImageName ctx)), rn_copy = os_copy\<rparr>"

definition demo_image :: Image where
  "demo_image = zero_Image\<lparr>img_Identifier := ''app'', img_Name := ''app'', img_BuildEntryPointPath := ''p/app/Dockerfile.gotpl'',
     img_BuildBackend := BuildBackendDockerfile, img_RootFSDir := ''p/app/rootfs'', img_Tags := [(''1.0'', zero_Tag)],
     img_Variants := [(''slim'', zero_ImageVariant\<lparr>var_Name := ''slim'', var_TagSuffix := ''-slim'',
       var_BuildBackend := BuildBackendDockerfile, var_BuildEntryPointPath := ''p/app/slim/Dockerfile''\<rparr>)]\<rparr>"

definition demo_project :: ContainerHiveProject where
  "demo_project = \<lparr>pr_RootDir = ''p'', pr_ConfigFilePath = ''p/hive.yml'', pr_Config = zero_HiveProjectConfig,
     pr_ImagesByIdentifier = [(''app'', demo_image)], pr_ImagesByName = [(''app'', [demo_image])]\<rparr>"

definition demo_fs :: filesys where
  "demo_fs = [((False, [''p'']), Directory 493), ((False, [''p'', ''app'']), Directory 493),
     ((False, [''p'', ''app'', ''Dockerfile.gotpl'']), RegularFile ''FROM scratch'' 420),
     ((False, [''p'', ''app'', ''rootfs'']), Directory 493),
     ((False, [''p'', ''app'', ''rootfs'', ''motd'']), RegularFile ''hi'' 420),
     ((False, [''p'', ''app'', ''slim'']), Directory 493),
     ((False, [''p'', ''app'', ''slim'', ''Dockerfile'']), RegularFile ''FROM __hive_parent__'' 420),
     ((False, [''dist'']), Directory 493), ((False, [''dist'', ''old'']), RegularFile ''x'' 420)]"

definition demo_task :: render_task where
  "demo_task = VariantTask ''dist/app'' demo_image ''1.0'' zero_Tag (snd (hd (img_Variants demo_image)))"

lemma demo_facts:
  "usual_names demo_project ''dist''" "well_placed demo_project ''dist''" "demo_task \<in> set (project_tasks demo_project ''dist'')"
  "render_finished (render_many 4 demo_env ''dist'' (render_start demo_env demo_project ''dist'' demo_fs))"
  by code_simp+

theorem rendered_entry_points_witness:
  "\<exists>fs'. RenderProject demo_env demo_project ''dist'' demo_fs fs' \<and>
     file_data fs' ''dist/app/1.0-slim/Dockerfile'' = Some ''FROM __hive__/app:1.0''"
proof -
  obtain fs' where r: "RenderProject demo_env demo_project ''dist'' demo_fs fs'"
    using render_many_done[OF demo_facts(4)] by blast
  have "copies_files (rn_copy demo_env)" by (simp add: demo_env_def os_copy_copies)
  note holds = rendered_entry_points[OF r this demo_facts(1-3)]
  obtain ctx where ctx: "task_context demo_env demo_task = Inr ctx"
    and proc: "ReadAndRenderFile (file_data demo_fs) (rn_process demo_env ctx) (task_source demo_task) = Inr ''FROM __hive_parent__''"
  proof -
    have "(case task_context demo_env demo_task of Inl _ \<Rightarrow> False | Inr ctx \<Rightarrow>
        ReadAndRenderFile (file_data demo_fs) (rn_process demo_env ctx) (task_source demo_task) = Inr ''FROM __hive_parent__'')"
      by code_simp
    then show ?thesis using that by (auto split: sum.splits)
  qed
  have "task_source demo_task \<noteq> []" "task_entry demo_task = ''dist/app/1.0-slim/Dockerfile''"
    "task_finish demo_task ''FROM __hive_parent__'' = ''FROM __hive__/app:1.0''"
    by code_simp+
  then have "file_data fs' ''dist/app/1.0-slim/Dockerfile'' = Some ''FROM __hive__/app:1.0''"
    using holds ctx proc by (simp add: entry_holds_def)
  then show ?thesis using r by blast
qed

text \<open>The project of the walk-through of discovery, rendered next to its sources and built.\<close>

definition app_fs :: filesys where
  "app_fs = [((True, [''p'']), Directory 493), ((True, [''p'', ''images'']), Directory 493),
     ((True, [''p'', ''images'', ''app'']), Directory 493),
     ((True, [''p'', ''images'', ''app'', ''Dockerfile'']), RegularFile ''FROM scratch'' 420)]"

definition found_project :: ContainerHiveProject where
  "found_project = (case DiscoverProject app_files no_sources ''/p'' False False of Inr p \<Rightarrow> p | Inl _ \<Rightarrow> demo_project)"

lemma app_discovered: "DiscoverProject app_files no_sources ''/p'' False False = Inr found_project"
  using DiscoverProject_example unfolding found_project_def
  by (cases "DiscoverProject app_files no_sources ''/p'' False False") auto

lemma app_facts:
  "well_placed found_project ''/p/dist''"
  "render_finished (render_many 2 demo_env ''/p/dist'' (render_start demo_env found_project ''/p/dist'' app_fs))"
  "map (\<lambda>(k, img). (k, img_Name img, mkeys (img_Tags img))) (pr_ImagesByIdentifier found_project) = [(''app'', ''app'', [''1.0''])]"
  by code_simp+

theorem rendered_project_builds_witness:
  "\<exists>fs' img td. RenderProject demo_env found_project ''/p/dist'' app_fs fs'
     \<and> mget (pr_ImagesByIdentifier found_project) ''app'' = Some img \<and>
     (let opts = app_opts\<lparr>po_DistPath := ''/p/dist''\<rparr>; st = app_start\<lparr>rs_disk := file_data fs'\<rparr> in
      buildTag app_env opts img ''1.0'' ''linux/amd64'' st
        = build_unit_steps app_env opts (unit_of_tag app_env img ''1.0'') ''linux/amd64'' st)"
proof -
  let ?opts = "app_opts\<lparr>po_DistPath := ''/p/dist''\<rparr>"
  obtain fs' where r: "RenderProject demo_env found_project ''/p/dist'' app_fs fs'"
    using render_many_done[OF app_facts(2)] by blast
  obtain img where img: "pr_ImagesByIdentifier found_project = [(''app'', img)]" "img_Name img = ''app''" "mkeys (img_Tags img) = [''1.0'']"
    using app_facts(3) by auto
  then obtain td where td: "(''1.0'', td) \<in> set (img_Tags img)" by (auto simp: mkeys_def)
  have rel: "rel_path ''app''" "rel_path ''1.0''" by code_simp+
  have "copies_files (rn_copy demo_env)" by (simp add: demo_env_def os_copy_copies)
  then have "buildTag app_env ?opts img ''1.0'' ''linux/amd64'' (app_start\<lparr>rs_disk := file_data fs'\<rparr>)
      = build_unit_steps app_env ?opts (unit_of_tag app_env img ''1.0'') ''linux/amd64'' (app_start\<lparr>rs_disk := file_data fs'\<rparr>)"
    using rendered_project_builds[of app_files no_sources "''/p''" False False found_project demo_env ?opts app_fs fs' "''app''" img "''1.0''" td
        "app_start\<lparr>rs_disk := file_data fs'\<rparr>" app_env "''linux/amd64''"] app_discovered r app_facts(1) img td rel
    by simp
  then show ?thesis using r img(1) by (auto simp: Let_def)
qed

end
