(* ===== verification/Mcp_Docs.thy ===== *)
theory Mcp_Docs
  imports Query_Cache Go_Text Go_Paths "HOL-Library.Multiset"
begin

text \<open>
  The documentation tools of the project information server (\<open>pkg/mcp/search.go\<close>): searching the index of the web
  site, fetching a page, the caches of both and the text functions they use.  The network, the decoder of the
  index, the clock and the order \<open>sort.Slice\<close> gives equal elements are parameters; texts are valid UTF-8, and letter
  case is the ASCII one.
\<close>

section \<open>Texts\<close>

definition newline :: char where "newline = CHR 0x0A"

definition truncateText :: "string \<Rightarrow> nat \<Rightarrow> string" where
  "truncateText txt maxLen = (if length txt \<le> maxLen then txt else take maxLen txt @ ''...'')"

text \<open>The loop of \<open>stripHTML\<close>: whether a tag is open, and the last character written.\<close>

fun strip_tags :: "bool \<Rightarrow> char \<Rightarrow> string \<Rightarrow> string" where
  "strip_tags inTag prevChar [] = []"
| "strip_tags inTag prevChar (r # html) =
     (if r = CHR ''<'' then strip_tags True prevChar html
      else if r = CHR ''>'' then strip_tags False prevChar html
      else if inTag then strip_tags inTag prevChar html
      else if r = newline \<and> prevChar = newline then strip_tags inTag prevChar html
      else r # strip_tags inTag r html)"

definition stripHTML :: "string \<Rightarrow> string" where
  "stripHTML html =
     go_trim_space (go_replace_all ''  '' '' '' (go_replace_all [newline] '' '' (strip_tags False (CHR 0x00) html)))"

definition extractTitle :: "string \<Rightarrow> string" where
  "extractTitle html =
     (case (case go_index html ''<title>'' of Some i \<Rightarrow> Some i | None \<Rightarrow> go_index html ''<Title>'') of
        None \<Rightarrow> []
      | Some start0 \<Rightarrow>
          let start = start0 + 7 in
          (case (case go_index html ''</title>'' of Some i \<Rightarrow> Some i | None \<Rightarrow> go_index html ''</Title>'') of
             None \<Rightarrow> []
           | Some stop \<Rightarrow> if stop \<le> start then [] else go_trim_space (drop start (take stop html))))"

text \<open>\<open>html[contentStart:bodyEnd]\<close> panics when the end lies before the start; then the result is \<^term>\<open>None\<close>.\<close>

definition extractBody :: "string \<Rightarrow> string option" where
  "extractBody html =
     (case go_index html ''<body'' of
        None \<Rightarrow> Some html
      | Some bodyStart \<Rightarrow>
          (case go_index (drop bodyStart html) ''>'' of
             None \<Rightarrow> Some html
           | Some tagEnd \<Rightarrow>
               let contentStart = bodyStart + tagEnd + 1 in
               (case go_index html ''</body>'' of
                  None \<Rightarrow> Some html
                | Some bodyEnd \<Rightarrow>
                    if bodyEnd < contentStart then None
                    else Some (go_trim_space (drop contentStart (take bodyEnd html))))))"

fun title_line :: "string list \<Rightarrow> string" where
  "title_line [] = []"
| "title_line (line # lines) =
     (let line = go_trim_space line in
      if go_has_prefix line ''# '' then go_trim_prefix line ''# '' else title_line lines)"

definition extractTitleFromMarkdown :: "string \<Rightarrow> string" where
  "extractTitleFromMarkdown markdown = title_line (go_split newline markdown)"

definition isValidDocPath :: "string \<Rightarrow> bool" where
  "isValidDocPath path = (if is_abs path then False else if go_contains path ''..'' then False else True)"

section \<open>Caches\<close>

record 'd doc_entry =
  dc_data :: 'd
  dc_expiresAt :: int

type_synonym 'd docCache = "(string, 'd doc_entry) gomap"

text \<open>At the time \<open>now\<close>, in seconds.\<close>

definition docCache_Get :: "int \<Rightarrow> 'd docCache \<Rightarrow> string \<Rightarrow> 'd option" where
  "docCache_Get now c key =
     (case mget c key of
        None \<Rightarrow> None
      | Some entry \<Rightarrow> if now > dc_expiresAt entry then None else Some (dc_data entry))"

definition docCache_Set :: "int \<Rightarrow> string \<Rightarrow> 'd \<Rightarrow> int \<Rightarrow> 'd docCache \<Rightarrow> 'd docCache" where
  "docCache_Set now key data ttl c = mput key \<lparr>dc_data = data, dc_expiresAt = now + ttl\<rparr> c"

definition cacheTTL :: int where "cacheTTL = 3600"

section \<open>The network\<close>

datatype http_response = DoFailed | Response int "string option"

record doc_env =
  de_request_ok :: "string \<Rightarrow> bool"
  de_http :: "string \<Rightarrow> http_response"
  de_now :: int
  de_later :: int

datatype doc_error = InvalidPath | RequestInvalid string | FetchFailed string | NotFound string | BodyUnreadable string | IndexInvalid

text \<open>The request both tools make; \<^term>\<open>None\<close> is a body that cannot be read.\<close>

definition http_get :: "doc_env \<Rightarrow> string \<Rightarrow> doc_error + string" where
  "http_get env url =
     (if \<not> de_request_ok env url then Inl (RequestInvalid url)
      else case de_http env url of
          DoFailed \<Rightarrow> Inl (FetchFailed url)
        | Response status body \<Rightarrow>
            if status \<noteq> 200 then Inl (NotFound url)
            else (case body of None \<Rightarrow> Inl (BodyUnreadable url) | Some b \<Rightarrow> Inr b))"

section \<open>Pages\<close>

record GetDocumentationOutput =
  gd_Title :: string
  gd_URL :: string
  gd_Content :: string

definition gitHubRawURL :: string where
  "gitHubRawURL = ''https://raw.githubusercontent.com/ContainerHive/ContainerHive/main/docs''"

definition gitHubWebURL :: string where
  "gitHubWebURL = ''https://github.com/ContainerHive/ContainerHive/blob/main/docs''"

definition page_path :: "string \<Rightarrow> string" where
  "page_path path = go_trim_suffix path ''.html'' @ ''.md''"

definition page_of :: "string \<Rightarrow> string \<Rightarrow> GetDocumentationOutput" where
  "page_of path content =
     (let title = extractTitleFromMarkdown content in
      \<lparr>gd_Title = (if title = [] then go_trim_suffix (go_base path) ''.md'' else title),
       gd_URL = gitHubWebURL @ ''/'' @ path, gd_Content = content\<rparr>)"

definition getDocumentation ::
  "doc_env \<Rightarrow> string \<Rightarrow> GetDocumentationOutput docCache \<Rightarrow> (doc_error + GetDocumentationOutput) \<times> GetDocumentationOutput docCache" where
  "getDocumentation env path pages =
     (let path = (if go_has_prefix path ''/'' then go_trim_prefix path ''/'' else path) in
      if isValidDocPath path = False then (Inl InvalidPath, pages)
      else case docCache_Get (de_now env) pages path of
          Some cached \<Rightarrow> (Inr cached, pages)
        | None \<Rightarrow>
            (case http_get env (gitHubRawURL @ ''/'' @ page_path path) of
               Inl e \<Rightarrow> (Inl e, pages)
             | Inr content \<Rightarrow>
                 let result = page_of (page_path path) content in
                 (Inr result, docCache_Set (de_later env) path result cacheTTL pages)))"

section \<open>Searching\<close>

record SearchDoc =
  sd_Location :: string
  sd_Title :: string
  sd_Text :: string

record SearchResult =
  sr_Title :: string
  sr_Path :: string
  sr_Excerpt :: string

definition searchIndexURL :: string where
  "searchIndexURL = ''https://container-hive.eu/search/search_index.json''"

definition defaultSearchLimit :: int where "defaultSearchLimit = 10"

definition getSearchIndex ::
  "doc_env \<Rightarrow> (string \<Rightarrow> SearchDoc list option) \<Rightarrow> SearchDoc list docCache
   \<Rightarrow> (doc_error + SearchDoc list) \<times> SearchDoc list docCache" where
  "getSearchIndex env decode indexes =
     (case docCache_Get (de_now env) indexes ''search_index'' of
        Some cached \<Rightarrow> (Inr cached, indexes)
      | None \<Rightarrow>
          (case http_get env searchIndexURL of
             Inl e \<Rightarrow> (Inl e, indexes)
           | Inr body \<Rightarrow>
               (case decode body of
                  None \<Rightarrow> (Inl IndexInvalid, indexes)
                | Some index \<Rightarrow> (Inr index, docCache_Set (de_later env) ''search_index'' index cacheTTL indexes))))"

text \<open>Scores are sums of 1000 and 1, exact as floating-point numbers.\<close>

definition doc_score :: "string \<Rightarrow> SearchDoc \<Rightarrow> nat" where
  "doc_score queryLower doc =
     (if go_contains (go_to_lower (sd_Title doc)) queryLower then 1000 else 0)
     + (if go_contains (go_to_lower (sd_Text doc)) queryLower then 1 else 0)"

definition search_hit :: "SearchDoc \<Rightarrow> SearchResult" where
  "search_hit doc = \<lparr>sr_Title = sd_Title doc, sr_Path = sd_Location doc,
     sr_Excerpt = truncateText (stripHTML (sd_Text doc)) 200\<rparr>"

definition search_docs ::
  "((SearchDoc \<times> nat) list \<Rightarrow> (SearchDoc \<times> nat) list) \<Rightarrow> string \<Rightarrow> int \<Rightarrow> SearchDoc list \<Rightarrow> SearchDoc list" where
  "search_docs sortSlice query limit docs =
     (let limit = (if limit \<le> 0 then defaultSearchLimit else limit);
          queryLower = go_to_lower query;
          scoredResults = sortSlice (filter (\<lambda>sr. snd sr > 0) (map (\<lambda>doc. (doc, doc_score queryLower doc)) docs)) in
      map fst (if int (length scoredResults) > limit then take (nat limit) scoredResults else scoredResults))"

definition searchDocumentation ::
  "((SearchDoc \<times> nat) list \<Rightarrow> (SearchDoc \<times> nat) list) \<Rightarrow> doc_env \<Rightarrow> (string \<Rightarrow> SearchDoc list option) \<Rightarrow> string \<Rightarrow> int
   \<Rightarrow> SearchDoc list docCache \<Rightarrow> (doc_error + SearchResult list) \<times> SearchDoc list docCache" where
  "searchDocumentation sortSlice env decode query limit indexes =
     (case getSearchIndex env decode indexes of
        (Inl e, indexes) \<Rightarrow> (Inl e, indexes)
      | (Inr index, indexes) \<Rightarrow> (Inr (map search_hit (search_docs sortSlice query limit index)), indexes))"

section \<open>What the texts are\<close>

lemma strip_tags_clean: "c \<in> set (strip_tags b p s) \<Longrightarrow> c \<noteq> CHR ''<'' \<and> c \<noteq> CHR ''>''"
  by (induction b p s rule: strip_tags.induct) (auto split: if_splits)

lemma set_go_replace_all: "set (go_replace_all old new s) \<subseteq> set s \<union> set new"
proof (induction old new s rule: go_replace_all.induct)
  case (1 old new s)
  show ?case
  proof (cases s)
    case (Cons x r)
    then show ?thesis
      using 1[OF Cons] set_drop_subset[of "length old" "x # r"] by (auto simp: go_replace_all_Cons simp del: drop_Cons_numeral)
  qed simp
qed

lemma set_strip_front: "set (strip_front encs n s) \<subseteq> set s"
proof (induction encs n s rule: strip_front.induct)
  case (2 encs n s)
  then show ?case by (auto split: option.splits dest: in_set_dropD)
qed simp

lemma set_go_trim_space: "set (go_trim_space s) \<subseteq> set s"
  unfolding go_trim_space_def go_trim_right_def go_trim_left_def
  using set_strip_front by (metis order_trans set_rev)

lemma stripHTML_clean: "c \<in> set (stripHTML html) \<Longrightarrow> c \<noteq> CHR ''<'' \<and> c \<noteq> CHR ''>''"
proof -
  let ?t = "strip_tags False (CHR 0x00) html"
  assume "c \<in> set (stripHTML html)"
  then have "c \<in> set ?t \<union> {CHR '' ''}"
    unfolding stripHTML_def
    using set_go_trim_space set_go_replace_all[of "''  ''" "'' ''" "go_replace_all [newline] '' '' ?t"]
      set_go_replace_all[of "[newline]" "'' ''" ?t]
    by auto
  then show ?thesis using strip_tags_clean by auto
qed

lemma excerpt_clean:
  "c \<in> set (sr_Excerpt (search_hit doc)) \<Longrightarrow> c \<noteq> CHR ''<'' \<and> c \<noteq> CHR ''>''"
  "length (sr_Excerpt (search_hit doc)) \<le> 203"
  using stripHTML_clean by (auto simp: search_hit_def truncateText_def dest: in_set_takeD split: if_splits)

section \<open>Search results\<close>

text \<open>\<open>sort.Slice\<close> by falling score, in any order among equals.\<close>

definition sorts_by_score :: "((SearchDoc \<times> nat) list \<Rightarrow> (SearchDoc \<times> nat) list) \<Rightarrow> bool" where
  "sorts_by_score f \<longleftrightarrow> (\<forall>xs. mset (f xs) = mset xs \<and> sorted_wrt (\<lambda>a b. snd b \<le> snd a) (f xs))"

definition search_limit :: "int \<Rightarrow> nat" where
  "search_limit limit = nat (if limit \<le> 0 then defaultSearchLimit else limit)"

text \<open>
  A search returns the best matches and at most as many as asked for: every result matches, results are ranked, title matches
  before others, and a document left out is ranked no higher than any result; excerpts are short and free of markup.
\<close>

lemma search_returns_best:
  assumes "sorts_by_score sortSlice"
  shows "let res = search_docs sortSlice query limit docs; score = doc_score (go_to_lower query) in
    length res = min (search_limit limit) (length (filter (\<lambda>d. score d > 0) docs))
    \<and> set res \<subseteq> {d \<in> set docs. score d > 0}
    \<and> sorted_wrt (\<lambda>a b. score b \<le> score a) res
    \<and> (\<forall>d \<in> set docs. score d > 0 \<longrightarrow> d \<notin> set res \<longrightarrow> (\<forall>r \<in> set res. score d \<le> score r))
    \<and> (\<forall>r \<in> set res. length (sr_Excerpt (search_hit r)) \<le> 203 \<and> CHR ''<'' \<notin> set (sr_Excerpt (search_hit r)))"
proof -
  let ?score = "doc_score (go_to_lower query)"
  let ?xs = "filter (\<lambda>sr. snd sr > 0) (map (\<lambda>doc. (doc, ?score doc)) docs)"
  let ?n = "search_limit limit"
  define ys where "ys = sortSlice ?xs"
  have perm: "mset ys = mset ?xs" and sorted: "sorted_wrt (\<lambda>a b. snd b \<le> snd a) ys"
    using assms by (auto simp: sorts_by_score_def ys_def)
  have in_ys: "sr \<in> set ys \<longleftrightarrow> fst sr \<in> set docs \<and> snd sr = ?score (fst sr) \<and> snd sr > 0" for sr
    using perm mset_eq_setD[OF perm] by (cases sr) auto
  have len: "length ys = length (filter (\<lambda>d. ?score d > 0) docs)"
    using mset_eq_length[OF perm] by (simp add: filter_map comp_def)
  have res: "search_docs sortSlice query limit docs = map fst (take ?n ys)"
    by (auto simp: search_docs_def Let_def ys_def search_limit_def defaultSearchLimit_def)
  have scores: "?score d = n" if "(d, n) \<in> set ys" for d n using that in_ys by simp
  let ?res = "map fst (take ?n ys)"
  have A: "length ?res = min ?n (length (filter (\<lambda>d. ?score d > 0) docs))"
    using len by (simp add: min.commute)
  have B: "set ?res \<subseteq> {d \<in> set docs. ?score d > 0}"
    using in_ys by (fastforce dest: in_set_takeD)
  have C: "sorted_wrt (\<lambda>a b. ?score b \<le> ?score a) ?res"
    unfolding sorted_wrt_map
    by (rule sorted_wrt_mono_rel[OF _ sorted_wrt_take[OF sorted]]) (auto dest!: in_set_takeD scores)
  have D: "\<forall>d \<in> set docs. ?score d > 0 \<longrightarrow> d \<notin> set ?res \<longrightarrow> (\<forall>r \<in> set ?res. ?score d \<le> ?score r)"
  proof (intro ballI impI)
    fix d r
    assume d: "d \<in> set docs" "?score d > 0" "d \<notin> set ?res" and "r \<in> set ?res"
    then obtain n where r: "(r, n) \<in> set (take ?n ys)" by auto
    have "(d, ?score d) \<in> set ys" using d in_ys by simp
    then have "(d, ?score d) \<in> set (drop ?n ys)"
      using d(3) by (metis Un_iff append_take_drop_id fst_conv imageI list.set_map set_append)
    moreover have "sorted_wrt (\<lambda>a b. snd b \<le> snd a) (take ?n ys @ drop ?n ys)" using sorted by simp
    ultimately have "?score d \<le> n" using r unfolding sorted_wrt_append by fastforce
    then show "?score d \<le> ?score r" using scores[OF in_set_takeD[OF r]] by simp
  qed
  have E: "\<forall>r \<in> set ?res. length (sr_Excerpt (search_hit r)) \<le> 203 \<and> CHR ''<'' \<notin> set (sr_Excerpt (search_hit r))"
    using excerpt_clean by blast
  show ?thesis
    unfolding Let_def res by (intro conjI A B C D E)
qed

lemma sort_key_sorts: "sorts_by_score (\<lambda>xs. rev (sort_key snd xs))"
  using sorted_sort_key[of snd] unfolding sorted_map by (auto simp: sorts_by_score_def sorted_wrt_rev)

definition demo_docs :: "SearchDoc list" where
  "demo_docs = [\<lparr>sd_Location = ''usage/mcp.html'', sd_Title = ''MCP'', sd_Text = ''The <b>cache</b>''\<rparr>,
     \<lparr>sd_Location = ''usage/cache.html'', sd_Title = ''Cache'', sd_Text = ''Layers''\<rparr>,
     \<lparr>sd_Location = ''index.html'', sd_Title = ''Home'', sd_Text = ''Images''\<rparr>]"

lemma search_example:
  "map search_hit (search_docs (\<lambda>xs. rev (sort_key snd xs)) ''CACHE'' 5 demo_docs) =
    [\<lparr>sr_Title = ''Cache'', sr_Path = ''usage/cache.html'', sr_Excerpt = ''Layers''\<rparr>,
     \<lparr>sr_Title = ''MCP'', sr_Path = ''usage/mcp.html'', sr_Excerpt = ''The cache''\<rparr>]"
  by code_simp

lemma search_returns_best_witness:
  "length (search_docs (\<lambda>xs. rev (sort_key snd xs)) ''CACHE'' 1 demo_docs) = 1
   \<and> doc_score ''cache'' (hd (search_docs (\<lambda>xs. rev (sort_key snd xs)) ''CACHE'' 1 demo_docs)) \<ge> 1"
proof -
  let ?r = "search_docs (\<lambda>xs. rev (sort_key snd xs)) ''CACHE'' 1 demo_docs"
  have l: "go_to_lower ''CACHE'' = ''cache''" "search_limit 1 = 1" "length (filter (\<lambda>d. doc_score ''cache'' d > 0) demo_docs) = 2"
    by code_simp+
  have "length ?r = 1" "set ?r \<subseteq> {d \<in> set demo_docs. doc_score ''cache'' d > 0}"
    using search_returns_best[OF sort_key_sorts, of "''CACHE''" 1 demo_docs] unfolding l Let_def by simp_all
  then show ?thesis by (cases ?r) auto
qed

section \<open>Pages from the cache\<close>

text \<open>A query for a page, in an environment that reports what was \<open>served\<close>.\<close>

record doc_query =
  dq_env :: doc_env
  dq_path :: string

definition relative_doc :: "string \<Rightarrow> string" where
  "relative_doc path = (if go_has_prefix path ''/'' then go_trim_prefix path ''/'' else path)"

definition page_served :: "(string \<Rightarrow> string \<Rightarrow> bool) \<Rightarrow> string \<Rightarrow> GetDocumentationOutput \<Rightarrow> bool" where
  "page_served served path page \<longleftrightarrow> isValidDocPath path \<and>
     (\<exists>content. served (gitHubRawURL @ ''/'' @ page_path path) content \<and> page = page_of (page_path path) content)"

definition honest :: "(string \<Rightarrow> string \<Rightarrow> bool) \<Rightarrow> doc_env \<Rightarrow> bool" where
  "honest served env \<longleftrightarrow> (\<forall>url body. de_http env url = Response 200 (Some body) \<longrightarrow> served url body)"

definition pages_served :: "(string \<Rightarrow> string \<Rightarrow> bool) \<Rightarrow> GetDocumentationOutput docCache \<Rightarrow> bool" where
  "pages_served served pages \<longleftrightarrow> (\<forall>path e. mget pages path = Some e \<longrightarrow> page_served served path (dc_data e))"

definition page_query ::
  "(string \<Rightarrow> string \<Rightarrow> bool) \<Rightarrow> doc_query \<Rightarrow> GetDocumentationOutput docCache
   \<Rightarrow> (doc_error + GetDocumentationOutput) \<times> GetDocumentationOutput docCache" where
  "page_query served q pages =
     (if honest served (dq_env q) then getDocumentation (dq_env q) (dq_path q) pages else (Inl (FetchFailed []), pages))"

lemma http_get_served: "honest served env \<Longrightarrow> http_get env url = Inr body \<Longrightarrow> served url body"
  by (auto simp: http_get_def honest_def split: if_splits http_response.splits option.splits)

lemma getDocumentation_eq:
  "getDocumentation env path pages =
     (if \<not> isValidDocPath (relative_doc path) then (Inl InvalidPath, pages)
      else case docCache_Get (de_now env) pages (relative_doc path) of
          Some cached \<Rightarrow> (Inr cached, pages)
        | None \<Rightarrow>
            (case http_get env (gitHubRawURL @ ''/'' @ page_path (relative_doc path)) of
               Inl e \<Rightarrow> (Inl e, pages)
             | Inr content \<Rightarrow>
                 (Inr (page_of (page_path (relative_doc path)) content),
                  docCache_Set (de_later env) (relative_doc path) (page_of (page_path (relative_doc path)) content) cacheTTL pages)))"
  unfolding getDocumentation_def relative_doc_def Let_def by simp

lemma getDocumentation_cases:
  assumes "getDocumentation env path pages = (r, pages')"
  obtains (failed) e where "r = Inl e" "pages' = pages"
    | (cached) e where "isValidDocPath (relative_doc path)" "mget pages (relative_doc path) = Some e"
        "\<not> de_now env > dc_expiresAt e" "r = Inr (dc_data e)" "pages' = pages"
    | (fetched) content where "isValidDocPath (relative_doc path)"
        "http_get env (gitHubRawURL @ ''/'' @ page_path (relative_doc path)) = Inr content"
        "r = Inr (page_of (page_path (relative_doc path)) content)"
        "pages' = docCache_Set (de_later env) (relative_doc path) (page_of (page_path (relative_doc path)) content) cacheTTL pages"
proof (cases "isValidDocPath (relative_doc path)")
  case valid: True
  show ?thesis
  proof (cases "docCache_Get (de_now env) pages (relative_doc path)")
    case None
    show ?thesis
    proof (cases "http_get env (gitHubRawURL @ ''/'' @ page_path (relative_doc path))")
      case (Inl e)
      then show ?thesis
        using assms valid None failed[of e] by (simp add: getDocumentation_eq)
    next
      case (Inr content)
      then show ?thesis
        using assms valid None fetched[of content] by (simp add: getDocumentation_eq)
    qed
  next
    case (Some page)
    then obtain e where "mget pages (relative_doc path) = Some e" "page = dc_data e" "\<not> de_now env > dc_expiresAt e"
      by (auto simp: docCache_Get_def split: option.splits if_splits)
    moreover have "r = Inr page" "pages' = pages"
      using assms valid Some by (simp_all add: getDocumentation_eq)
    ultimately show ?thesis using cached valid by blast
  qed
next
  case False
  then show ?thesis using assms failed[of InvalidPath] by (simp add: getDocumentation_eq)
qed

lemma getDocumentation_served:
  assumes "honest served env" and "pages_served served pages" and "getDocumentation env path pages = (r, pages')"
  shows "pages_served served pages' \<and> (\<forall>page. r = Inr page \<longrightarrow> page_served served (relative_doc path) page)"
  using assms(3)
proof (cases rule: getDocumentation_cases)
  case (fetched content)
  then have "page_served served (relative_doc path) (page_of (page_path (relative_doc path)) content)"
    using http_get_served[OF assms(1)] by (auto simp: page_served_def)
  then show ?thesis using fetched assms(2) by (simp add: pages_served_def docCache_Set_def)
qed (use assms(2) in \<open>auto simp: pages_served_def\<close>)

interpretation pages: query_cache "page_query served" "pages_served served"
  "\<lambda>q. page_served served (relative_doc (dq_path q))" for served
proof
  fix q :: doc_query and pages :: "GetDocumentationOutput docCache"
  assume inv: "pages_served served pages"
  obtain r pages' where g: "getDocumentation (dq_env q) (dq_path q) pages = (r, pages')" by fastforce
  show "pages_served served (snd (page_query served q pages))"
    using getDocumentation_served[OF _ inv g] inv g by (simp add: page_query_def)
  show "page_served served (relative_doc (dq_path q)) page" if "fst (page_query served q pages) = Inr page" for page
    using getDocumentation_served[OF _ inv g] that g by (simp add: page_query_def split: if_splits)
qed

text \<open>For an hour after a page was fetched it is answered from the cache, without the network.\<close>

lemma page_cached:
  assumes "getDocumentation env path pages = (Inr page, pages')" and "docCache_Get (de_now env) pages (relative_doc path) = None"
    and "de_now env' \<le> de_later env + cacheTTL"
  shows "getDocumentation env' path pages' = (Inr page, pages')"
  using assms(1)
proof (cases rule: getDocumentation_cases)
  case (cached e)
  then show ?thesis using assms(2) by (simp add: docCache_Get_def)
next
  case (fetched content)
  then show ?thesis
    using assms(3) by (simp add: getDocumentation_eq docCache_Get_def docCache_Set_def)
qed simp

section \<open>Properties of the pages\<close>

text \<open>
  Every page a run of queries returns, fetched or cached, is the page the web site served for its own path at some time of the
  run or before, and that path leads nowhere outside of the documentation.
\<close>

lemma pages_are_served:
  assumes "pages_served served pages" and "(q, Inr page) \<in> set (fst (pages.run served qs pages))"
  shows "page_served served (relative_doc (dq_path q)) page"
  using assms by (rule pages.run_sound)

definition demo_served :: "string \<Rightarrow> string \<Rightarrow> bool" where
  "demo_served url body \<longleftrightarrow> body = ''# Hi''"

definition demo_query :: "string \<Rightarrow> doc_query" where
  "demo_query path = \<lparr>dq_env = \<lparr>de_request_ok = \<lambda>_. True, de_http = \<lambda>_. Response 200 (Some ''# Hi''), de_now = 0, de_later = 1\<rparr>,
     dq_path = path\<rparr>"

lemma pages_are_served_witness:
  "page_served demo_served ''usage/mcp.html'' \<lparr>gd_Title = ''Hi'', gd_URL = gitHubWebURL @ ''/usage/mcp.md'', gd_Content = ''# Hi''\<rparr>"
proof -
  let ?q = "demo_query ''/usage/mcp.html''"
  let ?page = "\<lparr>gd_Title = ''Hi'', gd_URL = gitHubWebURL @ ''/usage/mcp.md'', gd_Content = ''# Hi''\<rparr>"
  have "honest demo_served (dq_env ?q)" by (simp add: honest_def demo_query_def demo_served_def)
  moreover have "fst (getDocumentation (dq_env ?q) (dq_path ?q) []) = Inr ?page" by code_simp
  ultimately have "(?q, Inr ?page) \<in> set (fst (pages.run demo_served [?q] []))"
    by (simp add: pages.run.simps page_query_def case_prod_unfold Let_def)
  moreover have "pages_served demo_served []" by (simp add: pages_served_def)
  ultimately have "page_served demo_served (relative_doc (dq_path ?q)) ?page" by (rule pages_are_served[rotated])
  moreover have "relative_doc (dq_path ?q) = ''usage/mcp.html''" by code_simp
  ultimately show ?thesis by simp
qed

text \<open>A body that closes before it opens makes the slice of \<open>extractBody\<close> panic.\<close>

lemma extractBody_panics: "extractBody ''</body><body>'' = None"
  by code_simp

text \<open>A result of a search inside a page has an anchor, with which the page is not found under its name.\<close>

lemma anchored_page_path: "page_path ''usage/mcp.html#tools'' = ''usage/mcp.html#tools.md''"
  by code_simp

section \<open>Locks\<close>

text \<open>
  \<open>docCache\<close> has two mutexes: \<open>Get\<close> reads the map under the read lock of \<open>rmu\<close>, \<open>Set\<close> writes it under \<open>mu\<close>.  Nobody takes the write
  lock of \<open>rmu\<close>.  Threads are numbers, and a thread is in the critical section of at most one of the two.
\<close>

datatype lock_phase = Idle | Reading | Writing

record doc_locks =
  dl_readers :: "nat list"
  dl_writer :: "nat option"
  dl_phase :: "nat \<Rightarrow> lock_phase"

inductive lock_step :: "doc_locks \<Rightarrow> doc_locks \<Rightarrow> bool" where
  get_lock: "dl_phase st t = Idle \<Longrightarrow>
    lock_step st (st\<lparr>dl_readers := t # dl_readers st, dl_phase := (dl_phase st)(t := Reading)\<rparr>)"
| get_unlock: "dl_phase st t = Reading \<Longrightarrow>
    lock_step st (st\<lparr>dl_readers := remove1 t (dl_readers st), dl_phase := (dl_phase st)(t := Idle)\<rparr>)"
| set_lock: "dl_phase st t = Idle \<Longrightarrow> dl_writer st = None \<Longrightarrow>
    lock_step st (st\<lparr>dl_writer := Some t, dl_phase := (dl_phase st)(t := Writing)\<rparr>)"
| set_unlock: "dl_phase st t = Writing \<Longrightarrow>
    lock_step st (st\<lparr>dl_writer := None, dl_phase := (dl_phase st)(t := Idle)\<rparr>)"

definition no_locks :: doc_locks where
  "no_locks = \<lparr>dl_readers = [], dl_writer = None, dl_phase = \<lambda>_. Idle\<rparr>"

lemma one_writer_step:
  assumes "lock_step st st'" and "\<And>t. dl_phase st t = Writing \<longleftrightarrow> dl_writer st = Some t"
  shows "dl_phase st' t = Writing \<longleftrightarrow> dl_writer st' = Some t"
  using assms(1)
proof (cases rule: lock_step.cases)
  case (get_lock u)
  then show ?thesis using assms(2)[of u] assms(2)[of t] by auto
next
  case (get_unlock u)
  then show ?thesis using assms(2)[of u] assms(2)[of t] by auto
next
  case (set_lock u)
  then show ?thesis using assms(2)[of t] by auto
next
  case (set_unlock u)
  then show ?thesis using assms(2)[of u] assms(2)[of t] by auto
qed

lemma one_writer: "lock_step\<^sup>*\<^sup>* no_locks st \<Longrightarrow> dl_phase st t = Writing \<longleftrightarrow> dl_writer st = Some t"
proof (induction arbitrary: t rule: rtranclp_induct)
  case (step st st')
  then show ?case using one_writer_step by blast
qed (simp add: no_locks_def)


end
