(* ===== verification/Mcp_Images.thy ===== *)
theory Mcp_Images
  imports Discovery Variant_Graph Rendering
begin

text \<open>
  The project tools of the information server (\<open>pkg/mcp/images.go\<close>, \<open>resources.go\<close>, \<open>handlers.go\<close>): listing images and their dependencies,
  adding images and variants to the project directory, and reading its files by resource names.  Discovery and the
  build order are those of the other theories; the YAML and JSON libraries are parameters.
\<close>

section \<open>Reading the project\<close>

record imageInfo =
  ii_Name :: string
  ii_Description :: string
  ii_Tags :: "string list"
  ii_Variants :: "string list"
  ii_Versions :: "string list"
  ii_Platforms :: "string list"

record imageDetail =
  dt_Name :: string
  dt_Description :: string
  dt_Tags :: "Tag list"
  dt_Variants :: "(string, string) gomap"
  dt_Versions :: "(string, string) gomap"
  dt_BuildArgs :: "(string, string) gomap"
  dt_DependsOn :: "string list"
  dt_Platforms :: "string list"

datatype mcp_error =
    NotDiscovered discovery_error | ImageNotFound string | NotResolved order_error
  | InvalidImageName | InvalidVariantName | AlreadyExists string
  | DirectoryFailed os_error | DockerfileFailed os_error | DefinitionFailed os_error | DefinitionUnreadable os_error
  | DefinitionUnparsed | NotMarshalled | ResourceNotFound string | ConfigUnreadable os_error
  | InputInvalid | OutputInvalid

definition image_info :: "Image \<Rightarrow> imageInfo" where
  "image_info img = \<lparr>ii_Name = img_Name img, ii_Description = img_Description img, ii_Tags = mkeys (img_Tags img),
     ii_Variants = mkeys (img_Variants img), ii_Versions = mkeys (img_Versions img), ii_Platforms = img_Platforms img\<rparr>"

text \<open>\<open>discover\<close> is the result of \<open>DiscoverProject\<close> for the project root.\<close>

definition listImages :: "discovery_error + ContainerHiveProject \<Rightarrow> mcp_error + imageInfo list" where
  "listImages discover =
     (case discover of
        Inl e \<Rightarrow> Inl (NotDiscovered e)
      | Inr project \<Rightarrow> Inr (concat (map (\<lambda>(_, imageList). map image_info imageList) (pr_ImagesByName project))))"

definition add_missing :: "string list \<Rightarrow> string list \<Rightarrow> string list" where
  "add_missing xs seen = fold (\<lambda>x seen. if x \<in> set seen then seen else seen @ [x]) xs seen"

definition image_detail :: "Image \<Rightarrow> Image list \<Rightarrow> imageDetail" where
  "image_detail first images =
     \<lparr>dt_Name = img_Name first, dt_Description = img_Description first,
      dt_Tags = map snd (fold (\<lambda>img m. map_copy (img_Tags img) m) images []),
      dt_Variants = fold (\<lambda>img m. map_copy (map (\<lambda>(n, v). (n, var_TagSuffix v)) (img_Variants img)) m) images [],
      dt_Versions = fold (\<lambda>img m. map_copy (img_Versions img) m) images [],
      dt_BuildArgs = fold (\<lambda>img m. map_copy (img_BuildArgs img) m) images [],
      dt_DependsOn = fold (\<lambda>img. add_missing (img_DependsOn img)) images [],
      dt_Platforms = fold (\<lambda>img. add_missing (img_Platforms img)) images []\<rparr>"

definition getImage :: "discovery_error + ContainerHiveProject \<Rightarrow> string \<Rightarrow> mcp_error + imageDetail" where
  "getImage discover name =
     (case discover of
        Inl e \<Rightarrow> Inl (NotDiscovered e)
      | Inr project \<Rightarrow>
          (case mget (pr_ImagesByName project) name of
             None \<Rightarrow> Inl (ImageNotFound name)
           | Some [] \<Rightarrow> Inl (ImageNotFound name)
           | Some (first # rest) \<Rightarrow> Inr (image_detail first (first # rest))))"

text \<open>The loop over the order stops at the image; \<open>files\<close> are the files of the rendered project.\<close>

definition getDependencies ::
  "files \<Rightarrow> discovery_error + ContainerHiveProject \<Rightarrow> string \<Rightarrow> string \<Rightarrow> string \<Rightarrow> mcp_error + string list" where
  "getDependencies files discover projectRoot imageName direction =
     (case discover of
        Inl e \<Rightarrow> Inl (NotDiscovered e)
      | Inr project \<Rightarrow>
          (case ResolveOrder files (go_path_join [projectRoot, DistDirName]) project of
             Inl e \<Rightarrow> Inl (NotResolved e)
           | Inr buildOrder \<Rightarrow>
               if direction = ''reverse'' then Inr (Dependents (bo_graph buildOrder) imageName)
               else Inr (takeWhile (\<lambda>name. name \<noteq> imageName) (bo_order buildOrder))))"

section \<open>Adding images\<close>

definition isValidImageName :: "string \<Rightarrow> bool" where
  "isValidImageName name =
     (if is_abs name then False
      else if go_contains name ''..'' then False
      else if go_contains name ''/'' then False
      else True)"

record yaml_lib =
  yl_marshal :: "ImageDefinitionConfig \<Rightarrow> string option"
  yl_unmarshal :: "string \<Rightarrow> ImageDefinitionConfig option"

definition empty_definition :: ImageDefinitionConfig where
  "empty_definition = \<lparr>id_Description = [], id_Build = [], id_Nix = None, id_Chisel = None, id_Config = None,
     id_Tags = [], id_TagRanges = [], id_Variants = [], id_Versions = [], id_BuildArgs = [], id_Secrets = [], id_DependsOn = [],
     id_Platforms = [], id_LatestAlias = None, id_ReportIcon = None, id_Labels = []\<rparr>"

definition stub_layers :: string where
  "stub_layers = [CHR 0x0A, CHR 0x0A] @ ''# Add your layers here'' @ [CHR 0x0A]"

text \<open>An operation's error, if any, and the disk it leaves.\<close>

definition addImage ::
  "(nat \<Rightarrow> nat) \<Rightarrow> yaml_lib \<Rightarrow> string \<Rightarrow> string \<Rightarrow> string \<Rightarrow> string \<Rightarrow> string \<Rightarrow> filesys \<Rightarrow> mcp_error option \<times> filesys" where
  "addImage umask yaml projectRoot name description baseTag dockerfileContent fs =
     (if \<not> isValidImageName name then (Some InvalidImageName, fs)
      else let imagesDir = go_path_join [projectRoot, ''images'', name] in
      case os_Stat fs imagesDir of
        Inr _ \<Rightarrow> (Some (AlreadyExists name), fs)
      | Inl _ \<Rightarrow>
      (case os_MkdirAll umask imagesDir 493 fs of
         (Some e, fs) \<Rightarrow> (Some (DirectoryFailed e), fs)
       | (None, fs) \<Rightarrow>
       (let content = (if dockerfileContent = [] then ''FROM '' @ baseTag @ stub_layers else dockerfileContent) in
        case os_WriteFile umask (go_path_join [imagesDir, ''Dockerfile'']) content 420 fs of
          (Some e, fs) \<Rightarrow> (Some (DockerfileFailed e), fs)
        | (None, fs) \<Rightarrow>
        (case yl_marshal yaml (empty_definition\<lparr>id_Description := description, id_Tags := [zero_Tag\<lparr>tag_Name := baseTag\<rparr>]\<rparr>) of
           None \<Rightarrow> (Some NotMarshalled, fs)
         | Some yml \<Rightarrow>
         (case os_WriteFile umask (go_path_join [imagesDir, ''image.yml'']) yml 420 fs of
            (Some e, fs) \<Rightarrow> (Some (DefinitionFailed e), fs)
          | (None, fs) \<Rightarrow> (None, fs))))))"

definition empty_variant_config :: VariantConfig where
  "empty_variant_config = \<lparr>vc_Name = [], vc_TagSuffix = [], vc_Build = [], vc_Nix = None, vc_Chisel = None, vc_Config = None,
     vc_Versions = [], vc_BuildArgs = [], vc_Platforms = [], vc_ReportIcon = None, vc_Labels = []\<rparr>"

definition addImageVariant ::
  "(nat \<Rightarrow> nat) \<Rightarrow> yaml_lib \<Rightarrow> string \<Rightarrow> string \<Rightarrow> string \<Rightarrow> string \<Rightarrow> Versions \<Rightarrow> BuildArgs \<Rightarrow> filesys
   \<Rightarrow> mcp_error option \<times> filesys" where
  "addImageVariant umask yaml projectRoot imageName variantName tagSuffix versions buildArgs fs =
     (if \<not> isValidImageName imageName then (Some InvalidImageName, fs)
      else if \<not> isValidImageName variantName then (Some InvalidVariantName, fs)
      else
      let imagesDir = go_path_join [projectRoot, ''images'', imageName];
          imageYAMLPath = go_path_join [imagesDir, ''image.yml'']; variantDir = go_path_join [imagesDir, variantName] in
      case os_ReadFile fs imageYAMLPath of
        Inl e \<Rightarrow> (Some (DefinitionUnreadable e), fs)
      | Inr data \<Rightarrow>
      (case yl_unmarshal yaml data of
         None \<Rightarrow> (Some DefinitionUnparsed, fs)
       | Some config \<Rightarrow>
       (let variant = empty_variant_config\<lparr>vc_Name := variantName, vc_TagSuffix := tagSuffix,
              vc_Versions := versions, vc_BuildArgs := buildArgs\<rparr> in
        case yl_marshal yaml (config\<lparr>id_Variants := id_Variants config @ [variant]\<rparr>) of
          None \<Rightarrow> (Some NotMarshalled, fs)
        | Some outputData \<Rightarrow>
        (case os_WriteFile umask imageYAMLPath outputData 420 fs of
           (Some e, fs) \<Rightarrow> (Some (DefinitionFailed e), fs)
         | (None, fs) \<Rightarrow>
         (case yl_marshal yaml (empty_definition\<lparr>id_Versions := versions, id_BuildArgs := buildArgs\<rparr>) of
            None \<Rightarrow> (Some NotMarshalled, fs)
          | Some variantYAML \<Rightarrow>
          (case os_MkdirAll umask variantDir 493 fs of
             (Some e, fs) \<Rightarrow> (Some (DirectoryFailed e), fs)
           | (None, fs) \<Rightarrow>
           (case os_WriteFile umask (go_path_join [variantDir, ''Dockerfile'']) (''FROM '' @ HiveParentPlaceholder @ stub_layers) 420 fs of
              (Some e, fs) \<Rightarrow> (Some (DockerfileFailed e), fs)
            | (None, fs) \<Rightarrow>
            (case os_WriteFile umask (go_path_join [variantDir, ''image.yml'']) variantYAML 420 fs of
               (Some e, fs) \<Rightarrow> (Some (DefinitionFailed e), fs)
             | (None, fs) \<Rightarrow> (None, fs)))))))))"

section \<open>Resources\<close>

record ResourceContents =
  rc_URI :: string
  rc_Text :: string
  rc_MIMEType :: string

definition getImageResource :: "filesys \<Rightarrow> string \<Rightarrow> string \<Rightarrow> os_error + string" where
  "getImageResource fs projectRoot imageName = os_ReadFile fs (go_path_join [projectRoot, ''images'', imageName, ''image.yml''])"

definition getProjectConfig :: "filesys \<Rightarrow> string \<Rightarrow> os_error + string" where
  "getProjectConfig fs projectRoot = os_ReadFile fs (go_path_join [projectRoot, ''hive.yml''])"

definition ReadResource ::
  "string \<Rightarrow> string \<Rightarrow> filesys \<Rightarrow> string \<Rightarrow> string \<Rightarrow> mcp_error + ResourceContents" where
  "ReadResource imageSchema hiveSchema fs projectRoot uri =
     (if uri = ''image://schema'' then Inr \<lparr>rc_URI = uri, rc_Text = imageSchema, rc_MIMEType = ''application/json''\<rparr>
      else if uri = ''project://schema'' then Inr \<lparr>rc_URI = uri, rc_Text = hiveSchema, rc_MIMEType = ''application/json''\<rparr>
      else if uri = ''project://config'' then
        (case getProjectConfig fs projectRoot of
           Inl e \<Rightarrow> Inl (ConfigUnreadable e)
         | Inr config \<Rightarrow> Inr \<lparr>rc_URI = uri, rc_Text = config, rc_MIMEType = ''application/x-yaml''\<rparr>)
      else if \<not> go_has_prefix uri ''image://'' then Inl (ResourceNotFound uri)
      else (case getImageResource fs projectRoot (drop (length ''image://'') uri) of
              Inl _ \<Rightarrow> Inl (ResourceNotFound uri)
            | Inr imageYAML \<Rightarrow> Inr \<lparr>rc_URI = uri, rc_Text = imageYAML, rc_MIMEType = ''application/x-yaml''\<rparr>))"

section \<open>Handlers\<close>

text \<open>Decode the arguments, run the tool, encode what it returns.\<close>

definition handle :: "('a \<Rightarrow> 'i option) \<Rightarrow> ('o \<Rightarrow> string option) \<Rightarrow> ('i \<Rightarrow> mcp_error + 'o) \<Rightarrow> 'a \<Rightarrow> mcp_error + string" where
  "handle unmarshal marshal tool arguments =
     (case unmarshal arguments of
        None \<Rightarrow> Inl InputInvalid
      | Some input \<Rightarrow> res_bind (tool input) (\<lambda>out. case marshal out of None \<Rightarrow> Inl OutputInvalid | Some data \<Rightarrow> Inr data))"

record AddImageInput =
  ai_Name :: string
  ai_Description :: string
  ai_BaseTag :: string
  ai_DockerfileContent :: string

record AddImageVariantInput =
  av_ImageName :: string
  av_VariantName :: string
  av_TagSuffix :: string
  av_Versions :: Versions
  av_BuildArgs :: BuildArgs

definition handleListImages ::
  "(imageInfo list \<Rightarrow> string option) \<Rightarrow> discovery_error + ContainerHiveProject \<Rightarrow> mcp_error + string" where
  "handleListImages marshal discover = handle Some marshal (\<lambda>_. listImages discover) ()"

definition handleGetImage ::
  "('a \<Rightarrow> string option) \<Rightarrow> (imageDetail \<Rightarrow> string option) \<Rightarrow> discovery_error + ContainerHiveProject \<Rightarrow> 'a \<Rightarrow> mcp_error + string" where
  "handleGetImage unmarshal marshal discover = handle unmarshal marshal (getImage discover)"

definition handleGetDependencies ::
  "('a \<Rightarrow> (string \<times> string) option) \<Rightarrow> (string list \<Rightarrow> string option)
   \<Rightarrow> files \<Rightarrow> discovery_error + ContainerHiveProject \<Rightarrow> string \<Rightarrow> 'a \<Rightarrow> mcp_error + string" where
  "handleGetDependencies unmarshal marshal files discover projectRoot =
     handle unmarshal marshal (\<lambda>(name, direction). getDependencies files discover projectRoot name direction)"

text \<open>The handlers of the two tools that write also leave a disk.\<close>

definition handle_change ::
  "('a \<Rightarrow> 'i option) \<Rightarrow> (string \<Rightarrow> string option) \<Rightarrow> ('i \<Rightarrow> filesys \<Rightarrow> mcp_error option \<times> filesys) \<Rightarrow> string
   \<Rightarrow> 'a \<Rightarrow> filesys \<Rightarrow> (mcp_error + string) \<times> filesys" where
  "handle_change unmarshal marshal tool message arguments fs =
     (case unmarshal arguments of
        None \<Rightarrow> (Inl InputInvalid, fs)
      | Some input \<Rightarrow>
          (case tool input fs of
             (Some e, fs) \<Rightarrow> (Inl e, fs)
           | (None, fs) \<Rightarrow> (case marshal message of None \<Rightarrow> Inl OutputInvalid | Some data \<Rightarrow> Inr data, fs)))"

definition handleAddImage ::
  "('a \<Rightarrow> AddImageInput option) \<Rightarrow> (string \<Rightarrow> string option) \<Rightarrow> (nat \<Rightarrow> nat) \<Rightarrow> yaml_lib \<Rightarrow> string
   \<Rightarrow> 'a \<Rightarrow> filesys \<Rightarrow> (mcp_error + string) \<times> filesys" where
  "handleAddImage unmarshal marshal umask yaml projectRoot =
     handle_change unmarshal marshal
       (\<lambda>inp. addImage umask yaml projectRoot (ai_Name inp) (ai_Description inp) (ai_BaseTag inp) (ai_DockerfileContent inp))
       ''Image created successfully''"

definition handleAddImageVariant ::
  "('a \<Rightarrow> AddImageVariantInput option) \<Rightarrow> (string \<Rightarrow> string option) \<Rightarrow> (nat \<Rightarrow> nat) \<Rightarrow> yaml_lib \<Rightarrow> string
   \<Rightarrow> 'a \<Rightarrow> filesys \<Rightarrow> (mcp_error + string) \<times> filesys" where
  "handleAddImageVariant unmarshal marshal umask yaml projectRoot =
     handle_change unmarshal marshal
       (\<lambda>inp. addImageVariant umask yaml projectRoot (av_ImageName inp) (av_VariantName inp) (av_TagSuffix inp)
          (av_Versions inp) (av_BuildArgs inp))
       ''Variant added successfully''"

section \<open>Dependencies\<close>

text \<open>The images that an image of a resolved order is built from.\<close>

definition built_from :: "files \<Rightarrow> string \<Rightarrow> ContainerHiveProject \<Rightarrow> string \<Rightarrow> string set" where
  "built_from files distPath project n =
     (if rendered_image files distPath n then rendered_deps files distPath n else {}) \<union> project_deps project n"

lemma resolved_graph:
  assumes "ResolveOrder files distPath project = Inr bo" and "wf_map (pr_ImagesByName project)"
  shows "wf_graph (bo_graph bo)" and "deps_of (bo_graph bo) n = built_from files distPath project n"
    and "is_build_order (bo_graph bo) (bo_order bo)"
proof -
  from assms(1) obtain sg g order where sg: "ScanRenderedProject files distPath = Inr sg"
    and g: "BuildDependencyGraph sg project = Inr g" and t: "TopologicalSort g = Inr order"
    and bo: "bo = \<lparr>bo_graph = g, bo_order = order\<rparr>"
    by (auto simp: ResolveOrder_def split: sum.splits)
  note s = scan_rendered_project[OF sg]
  note e = build_graph_extends[OF g s(1) assms(2)]
  show "wf_graph (bo_graph bo)" "deps_of (bo_graph bo) n = built_from files distPath project n"
      "is_build_order (bo_graph bo) (bo_order bo)"
    using e(1,3) s(3) TopologicalSort_Inr(2)[OF e(1) t] by (simp_all add: bo built_from_def)
qed

text \<open>The part of a build order in front of an image holds what the image is built from, and is a build order itself.\<close>

lemma order_in_front:
  assumes order: "is_build_order g order" and front: "front = takeWhile (\<lambda>m. m \<noteq> n) order"
  shows "n \<in> node_set g \<Longrightarrow> deps_of g n \<subseteq> set front" and "i < length front \<Longrightarrow> deps_of g (front ! i) \<subseteq> set (take i front)"
    and "n \<notin> set front" and "distinct front"
proof -
  have s: "set order = node_set g" and first: "\<And>i. i < length order \<Longrightarrow> deps_of g (order ! i) \<subseteq> set (take i order)"
    using order by (simp_all add: is_build_order_def)
  have take: "front = take (length front) order" and len: "length front \<le> length order"
    unfolding front by (rule takeWhile_eq_take) (rule length_takeWhile_le)
  show "deps_of g n \<subseteq> set front" if "n \<in> node_set g"
  proof -
    have "front \<noteq> order" using that s unfolding front takeWhile_eq_all_conv by blast
    then have less: "length front < length order" using take len by (metis le_neq_implies_less take_all_iff order_refl)
    have "order ! length front = n"
      using nth_length_takeWhile[of "\<lambda>m. m \<noteq> n" order] less unfolding front by blast
    then show ?thesis using first[OF less] take by simp
  qed
  show "deps_of g (front ! i) \<subseteq> set (take i front)" if i: "i < length front"
  proof -
    have "front ! i = order ! i" "take i front = take i order"
      using i by (subst take, simp)+
    then show ?thesis using first[of i] i len by simp
  qed
  show "n \<notin> set front" unfolding front by (auto dest: set_takeWhileD)
  show "distinct front" unfolding front using order by (simp add: is_build_order_def distinct_takeWhile)
qed

text \<open>C24. The dependency tool.  Asked in reverse, it answers exactly the images built from the one named.
  Otherwise it answers the build order up to it: different images of the project or the rendered directory, that contain all it is built
  from and are closed under being built from, so that they can be built in the order of the answer.\<close>

theorem dependencies_in_front:
  assumes "getDependencies files (Inr project) root name direction = Inr res" and "wf_map (pr_ImagesByName project)"
  shows "if direction = ''reverse'' then set res = {m. name \<in> built_from files (go_path_join [root, DistDirName]) project m}
    else distinct res \<and> name \<notin> set res
      \<and> (rendered_image files (go_path_join [root, DistDirName]) name \<or> name \<in> set (mkeys (pr_ImagesByName project)) \<longrightarrow>
          built_from files (go_path_join [root, DistDirName]) project name \<subseteq> set res)
      \<and> (\<forall>i < length res. built_from files (go_path_join [root, DistDirName]) project (res ! i) \<subseteq> set (take i res))"
proof -
  obtain bo where bo: "ResolveOrder files (go_path_join [root, DistDirName]) project = Inr bo"
    using assms(1) by (auto simp: getDependencies_def split: sum.splits)
  note g = resolved_graph[OF bo assms(2)]
  have nodes: "node_set (bo_graph bo) =
      {n. rendered_image files (go_path_join [root, DistDirName]) n} \<union> set (mkeys (pr_ImagesByName project))"
    using ResolveOrder_deps_first[OF bo assms(2)] g(3) by (simp add: is_build_order_def)
  show ?thesis
  proof (cases "direction = ''reverse''")
    case True
    then have "res = Dependents (bo_graph bo) name" using assms(1) bo by (simp add: getDependencies_def)
    then show ?thesis using True set_Dependents[OF g(1)] g(2) by simp
  next
    case False
    then have "res = takeWhile (\<lambda>m. m \<noteq> name) (bo_order bo)" using assms(1) bo by (simp add: getDependencies_def)
    note front = order_in_front[OF g(3) this]
    then show ?thesis using False nodes by (simp add: g(2))
  qed
qed

definition two_project :: ContainerHiveProject where
  "two_project = project_of [(''app'', [zero_Image]), (''base'', [zero_Image]), (''docs'', [zero_Image])]"

lemma dependencies_of_two:
  "getDependencies two_images (Inr two_project) ''.'' ''app'' ''forward'' = Inr [''base'']"
  "getDependencies two_images (Inr two_project) ''.'' ''base'' ''reverse'' = Inr [''app'']"
  by code_simp+

theorem dependencies_in_front_witness:
  "built_from two_images (go_path_join [''.'', DistDirName]) two_project ''app'' \<subseteq> {''base''}
   \<and> {''app''} = {m. ''base'' \<in> built_from two_images (go_path_join [''.'', DistDirName]) two_project m}"
proof -
  have w: "wf_map (pr_ImagesByName two_project)" by code_simp
  have "''app'' \<in> set (mkeys (pr_ImagesByName two_project))" by code_simp
  then show ?thesis
    using dependencies_in_front[OF dependencies_of_two(1) w] dependencies_in_front[OF dependencies_of_two(2) w] by simp
qed

text \<open>But the answer is not the dependencies alone: images the order happens to put in front are answered too.\<close>

lemma dependencies_answer_strangers:
  "getDependencies two_images (Inr two_project) ''.'' ''docs'' ''forward'' = Inr [''base'', ''app'']"
  "built_from two_images (go_path_join [''.'', DistDirName]) two_project ''docs'' = {}"
proof -
  show "getDependencies two_images (Inr two_project) ''.'' ''docs'' ''forward'' = Inr [''base'', ''app'']" by code_simp
  have d: "go_path_join [''.'', DistDirName] = ''dist''" by code_simp
  have "backendParentRefs zero_Image = []" by code_simp
  then show "built_from two_images (go_path_join [''.'', DistDirName]) two_project ''docs'' = {}"
    by (simp add: d built_from_def rendered_image_def two_images_def project_deps_def two_project_def project_of_def mget_or_def
        declared_deps_def zero_Image_def)
qed

section \<open>Where new images and variants go\<close>

lemma valid_name_plain:
  assumes "isValidImageName name" and "name \<noteq> []" and "name \<noteq> ''.''"
  shows "plain_name name"
proof -
  have "\<not> go_contains name ''..''" "\<not> go_contains name [slash]"
    using assms(1) by (auto simp: isValidImageName_def slash_def split: if_splits)
  then have "slash \<notin> set name" "name \<noteq> ''..''"
    unfolding go_contains_iff by (auto simp: in_set_conv_decomp) 
  then show ?thesis using assms(2,3) by (simp add: plain_name_def)
qed

lemma plain_image_files [simp]: "plain_name ''Dockerfile''" "plain_name ''image.yml''" "plain_name ''images''"
  by code_simp+

lemma image_dir_key:
  "plain_name name \<Longrightarrow> path_key (go_path_join [root, ''images'', name]) = child (child (path_key root) ''images'') name"
  using path_key_join[of "[''images'', name]" root] by (simp add: child_def path_key_def)

lemma WriteFile_other:
  assumes "os_WriteFile umask p data perm fs = (e, fs')" and "path_key q \<noteq> path_key p"
  shows "file_data fs' q = file_data fs q"
  using assms by (intro file_data_cong) (auto simp: os_WriteFile_def fs_node_def split: option.splits fnode.splits if_splits)

lemma child_inj [simp]: "child d x = child d y \<longleftrightarrow> x = y"
  by (simp add: child_def)

text \<open>Two files written one after the other in a directory.\<close>

lemma two_files:
  assumes "os_WriteFile umask (go_path_join [d, x]) data1 perm fs = (None, fs1)"
    and "os_WriteFile umask (go_path_join [d, y]) data2 perm fs1 = (None, fs2)"
    and "plain_name x" and "plain_name y" and "x \<noteq> y"
  shows "file_data fs2 (go_path_join [d, x]) = Some data1 \<and> file_data fs2 (go_path_join [d, y]) = Some data2"
  using WriteFile_data[OF assms(1)] WriteFile_data[OF assms(2)] WriteFile_other[OF assms(2), of "go_path_join [d, x]"] assms(3-5)
  by (simp add: path_key_child)

lemma addImage_outside:
  assumes "addImage umask yaml root name descr baseTag content fs = (e, fs')"
  shows "outside (path_key (go_path_join [root, ''images'', name])) fs fs'"
proof -
  let ?d = "path_key (go_path_join [root, ''images'', name])"
  have "under ?d (path_key (go_path_join [go_path_join [root, ''images'', name], n]))" if "plain_name n" for n
    using that by (simp add: path_key_child)
  note wr = elsewhere.WriteFile_R[OF _ this] and mk = elsewhere.MkdirAll_R[where d = ?d, OF _ under_refl]
  show ?thesis
    using assms unfolding addImage_def Let_def
    by (auto split: if_splits sum.splits prod.splits option.splits intro: elsewhere.R_refl
        dest!: mk wr[OF _ plain_image_files(1)] wr[OF _ plain_image_files(2)])
      (blast intro: outside_trans)+
qed

lemma addImage_effects:
  assumes "addImage umask yaml root name descr baseTag content fs = (e, fs')"
  defines "d \<equiv> go_path_join [root, ''images'', name]"
  shows "outside (path_key d) fs fs'"
    and "\<not> isValidImageName name \<Longrightarrow> e = Some InvalidImageName \<and> fs' = fs"
    and "e = None \<Longrightarrow> name \<noteq> [] \<Longrightarrow> name \<noteq> ''.'' \<Longrightarrow>
      (\<exists>err. os_Stat fs d = Inl err) \<and> path_key d = child (child (path_key root) ''images'') name
      \<and> file_data fs' (go_path_join [d, ''Dockerfile'']) = Some (if content = [] then ''FROM '' @ baseTag @ stub_layers else content)
      \<and> (\<exists>yml. yl_marshal yaml (empty_definition\<lparr>id_Description := descr, id_Tags := [zero_Tag\<lparr>tag_Name := baseTag\<rparr>]\<rparr>) = Some yml
           \<and> file_data fs' (go_path_join [d, ''image.yml'']) = Some yml)"
proof -
  show "outside (path_key d) fs fs'" unfolding d_def by (rule addImage_outside[OF assms(1)])
  show "e = Some InvalidImageName \<and> fs' = fs" if "\<not> isValidImageName name"
    using assms(1) that by (simp add: addImage_def)
  assume ok: "e = None" "name \<noteq> []" "name \<noteq> ''.''"
  obtain fs1 fs2 yml err where v: "isValidImageName name" and st: "os_Stat fs d = Inl err"
    and f1: "os_WriteFile umask (go_path_join [d, ''Dockerfile''])
        (if content = [] then ''FROM '' @ baseTag @ stub_layers else content) 420 fs1 = (None, fs2)"
    and y: "yl_marshal yaml (empty_definition\<lparr>id_Description := descr, id_Tags := [zero_Tag\<lparr>tag_Name := baseTag\<rparr>]\<rparr>) = Some yml"
    and f2: "os_WriteFile umask (go_path_join [d, ''image.yml'']) yml 420 fs2 = (None, fs')"
    using assms(1) ok(1) unfolding addImage_def Let_def d_def[symmetric]
    by (auto split: if_splits sum.splits prod.splits option.splits)
  have "path_key d = child (child (path_key root) ''images'') name"
    unfolding d_def by (rule image_dir_key[OF valid_name_plain[OF v ok(2,3)]])
  then show "(\<exists>err. os_Stat fs d = Inl err) \<and> path_key d = child (child (path_key root) ''images'') name
      \<and> file_data fs' (go_path_join [d, ''Dockerfile'']) = Some (if content = [] then ''FROM '' @ baseTag @ stub_layers else content)
      \<and> (\<exists>yml. yl_marshal yaml (empty_definition\<lparr>id_Description := descr, id_Tags := [zero_Tag\<lparr>tag_Name := baseTag\<rparr>]\<rparr>) = Some yml
           \<and> file_data fs' (go_path_join [d, ''image.yml'']) = Some yml)"
    using st y two_files[OF f1 f2 plain_image_files(1,2)] by blast
qed


definition demo_yaml :: yaml_lib where
  "demo_yaml = \<lparr>yl_marshal = (\<lambda>c. Some (id_Description c @ concat (map vc_Name (id_Variants c)))),
     yl_unmarshal = (\<lambda>s. Some (empty_definition\<lparr>id_Description := s\<rparr>))\<rparr>"

definition project_disk :: filesys where
  "project_disk = [((False, [''p'']), Directory 493), ((False, [''p'', ''images'']), Directory 493),
     ((False, [''p'', ''hive.yml'']), RegularFile ''h'' 420)]"

definition added_disk :: filesys where
  "added_disk = snd (addImage id demo_yaml ''p'' ''app'' ''An app'' ''ubuntu:22.04'' ''FROM scratch'' project_disk)"

lemma app_added:
  "addImage id demo_yaml ''p'' ''app'' ''An app'' ''ubuntu:22.04'' ''FROM scratch'' project_disk = (None, added_disk)"
  by code_simp


section \<open>Where variants go\<close>

lemma variant_dir_keys:
  assumes "plain_name v" and "plain_name n"
  shows "path_key (go_path_join [go_path_join [d, v], n]) = child (child (path_key d) v) n"
  using assms by (simp add: path_key_child)

lemma under_children: "under d (child d x)" "under d (child (child d x) y)"
  by (simp_all add: under_def child_def)

lemma addImageVariant_outside:
  assumes run: "addImageVariant umask yaml root name v suffix' versions args fs = (e, fs')" and v: "v \<notin> {[], ''.''}"
  shows "outside (path_key (go_path_join [root, ''images'', name])) fs fs'"
proof (cases "isValidImageName v")
  case True
  let ?p = "go_path_join [root, ''images'', name]"
  have p: "plain_name v" using valid_name_plain[OF True] v by simp
  have "under (path_key ?p) (path_key (go_path_join [go_path_join [?p, v], n]))" if "plain_name n" for n
    unfolding variant_dir_keys[OF p that] by (rule under_children)
  note wr = elsewhere.WriteFile_R[OF _ this]
  have "under (path_key ?p) (path_key (go_path_join [?p, n]))" if "plain_name n" for n
    unfolding path_key_child[OF that] by (rule under_children)
  note wr = wr elsewhere.WriteFile_R[OF _ this] and mk = elsewhere.MkdirAll_R[OF _ this]
  show ?thesis
    using run unfolding addImageVariant_def Let_def
    by (auto split: if_splits sum.splits prod.splits option.splits intro: elsewhere.R_refl
        dest!: mk[OF _ p] wr(1)[OF _ plain_image_files(1)] wr(1)[OF _ plain_image_files(2)] wr(2)[OF _ plain_image_files(2)])
      (blast intro: outside_trans)+
next
  case False
  then show ?thesis using run by (auto simp: addImageVariant_def elsewhere.R_refl split: if_splits)
qed

lemma MkdirAll_data:
  "os_MkdirAll umask p perm fs = (e, fs') \<Longrightarrow> file_data fs q = Some data \<Longrightarrow> file_data fs' q = Some data"
  by (rule untouched_data[OF apart.MkdirAll_R]) simp_all

lemma addImageVariant_keeps:
  assumes run: "addImageVariant umask yaml root name v suffix' versions args fs = (e, fs')" and v: "v \<notin> {[], ''.''}"
  defines "d \<equiv> go_path_join [root, ''images'', name]"
  assumes q: "path_key q \<noteq> child (path_key d) ''image.yml''" "\<not> under (child (path_key d) v) (path_key q)"
    and data: "file_data fs q = Some data"
  shows "file_data fs' q = Some data"
proof (cases "isValidImageName v")
  case True
  have p: "plain_name v" using valid_name_plain[OF True] v by simp
  have "path_key q \<noteq> path_key (go_path_join [go_path_join [d, v], n])" if "plain_name n" for n
    unfolding variant_dir_keys[OF p that] using q(2) under_children(1) by metis
  note wr = WriteFile_other[OF _ this]
  have "path_key q \<noteq> path_key (go_path_join [d, ''image.yml''])" using q(1) by (simp add: path_key_child)
  note wr = wr WriteFile_other[OF _ this]
  show ?thesis
    using run data unfolding addImageVariant_def Let_def d_def[symmetric]
    by (auto split: if_splits sum.splits prod.splits option.splits
        dest!: MkdirAll_data[where q = q and data = data] wr(1)[OF _ plain_image_files(1)] wr(1)[OF _ plain_image_files(2)] wr(2))
next
  case False
  then show ?thesis using run data by (auto simp: addImageVariant_def split: if_splits)
qed

lemma addImageVariant_files:
  assumes run: "addImageVariant umask yaml root name v suffix' versions args fs = (None, fs')" and v: "v \<notin> {[], ''.''}"
  defines "d \<equiv> go_path_join [root, ''images'', name]"
  shows "\<exists>old config yml vyml. file_data fs (go_path_join [d, ''image.yml'']) = Some old \<and> yl_unmarshal yaml old = Some config
        \<and> yl_marshal yaml (config\<lparr>id_Variants := id_Variants config @ [empty_variant_config\<lparr>vc_Name := v, vc_TagSuffix := suffix',
             vc_Versions := versions, vc_BuildArgs := args\<rparr>]\<rparr>) = Some yml
        \<and> yl_marshal yaml (empty_definition\<lparr>id_Versions := versions, id_BuildArgs := args\<rparr>) = Some vyml
        \<and> file_data fs' (go_path_join [d, ''image.yml'']) = Some yml
        \<and> file_data fs' (go_path_join [go_path_join [d, v], ''Dockerfile'']) = Some (''FROM '' @ HiveParentPlaceholder @ stub_layers)
        \<and> file_data fs' (go_path_join [go_path_join [d, v], ''image.yml'']) = Some vyml"
proof -
  obtain old config yml vyml fs1 fs2 fs3 where valid: "isValidImageName v"
    and rd: "os_ReadFile fs (go_path_join [d, ''image.yml'']) = Inr old" and cfg: "yl_unmarshal yaml old = Some config"
    and yml: "yl_marshal yaml (config\<lparr>id_Variants := id_Variants config @ [empty_variant_config\<lparr>vc_Name := v, vc_TagSuffix := suffix',
        vc_Versions := versions, vc_BuildArgs := args\<rparr>]\<rparr>) = Some yml"
    and w1: "os_WriteFile umask (go_path_join [d, ''image.yml'']) yml 420 fs = (None, fs1)"
    and vyml: "yl_marshal yaml (empty_definition\<lparr>id_Versions := versions, id_BuildArgs := args\<rparr>) = Some vyml"
    and mk: "os_MkdirAll umask (go_path_join [d, v]) 493 fs1 = (None, fs2)"
    and w2: "os_WriteFile umask (go_path_join [go_path_join [d, v], ''Dockerfile'']) (''FROM '' @ HiveParentPlaceholder @ stub_layers) 420 fs2 = (None, fs3)"
    and w3: "os_WriteFile umask (go_path_join [go_path_join [d, v], ''image.yml'']) vyml 420 fs3 = (None, fs')"
    using run unfolding addImageVariant_def Let_def d_def[symmetric]
    by (auto split: if_splits sum.splits prod.splits option.splits)
  have p: "plain_name v" using valid_name_plain[OF valid] v by simp
  have ne: "path_key (go_path_join [d, ''image.yml'']) \<noteq> path_key (go_path_join [go_path_join [d, v], n])" if "plain_name n" for n
    using variant_dir_keys[OF p that] by (simp add: path_key_child child_def)
  have "file_data fs2 (go_path_join [d, ''image.yml'']) = Some yml" by (rule MkdirAll_data[OF mk WriteFile_data[OF w1]])
  then have "file_data fs' (go_path_join [d, ''image.yml'']) = Some yml"
    using WriteFile_other[OF w2 ne[OF plain_image_files(1)]] WriteFile_other[OF w3 ne[OF plain_image_files(2)]] by simp
  then show ?thesis
    using ReadFile_data[OF rd] cfg yml vyml two_files[OF w2 w3 plain_image_files(1,2)] by blast
qed

text \<open>Adding a variant.  Nothing outside the directory of the image changes, and within it only the
  definition of the image and the directory of the variant.  When the tool succeeds, the definition is the old one with the variant at the end of its
  variants, and the variant has a build file that starts from its parent image and a definition of its own.\<close>

lemma added_variant_files:
  assumes "addImageVariant umask yaml root name v suffix' versions args fs = (e, fs')" and "v \<notin> {[], ''.''}"
  shows "let d = go_path_join [root, ''images'', name] in
    outside (path_key d) fs fs'
    \<and> (\<forall>q data. path_key q \<noteq> child (path_key d) ''image.yml'' \<and> \<not> under (child (path_key d) v) (path_key q)
         \<and> file_data fs q = Some data \<longrightarrow> file_data fs' q = Some data)
    \<and> (e = None \<longrightarrow> (\<exists>old config yml vyml. file_data fs (go_path_join [d, ''image.yml'']) = Some old \<and> yl_unmarshal yaml old = Some config
        \<and> yl_marshal yaml (config\<lparr>id_Variants := id_Variants config @ [empty_variant_config\<lparr>vc_Name := v, vc_TagSuffix := suffix',
             vc_Versions := versions, vc_BuildArgs := args\<rparr>]\<rparr>) = Some yml
        \<and> yl_marshal yaml (empty_definition\<lparr>id_Versions := versions, id_BuildArgs := args\<rparr>) = Some vyml
        \<and> file_data fs' (go_path_join [d, ''image.yml'']) = Some yml
        \<and> file_data fs' (go_path_join [go_path_join [d, v], ''Dockerfile'']) = Some (''FROM '' @ HiveParentPlaceholder @ stub_layers)
        \<and> file_data fs' (go_path_join [go_path_join [d, v], ''image.yml'']) = Some vyml))"
  unfolding Let_def
  using addImageVariant_outside[OF assms] addImageVariant_keeps[OF assms] addImageVariant_files[OF _ assms(2)] assms(1) by blast

definition varied_disk :: filesys where
  "varied_disk = snd (addImageVariant id demo_yaml ''p'' ''app'' ''slim'' ''-slim'' [] [] added_disk)"

lemma slim_added: "addImageVariant id demo_yaml ''p'' ''app'' ''slim'' ''-slim'' [] [] added_disk = (None, varied_disk)"
  by code_simp

lemma added_variant_files_witness:
  "file_data varied_disk ''p/images/app/Dockerfile'' = Some ''FROM scratch''
   \<and> (\<exists>yml. file_data varied_disk (go_path_join [go_path_join [''p'', ''images'', ''app''], ''image.yml'']) = Some yml)"
proof -
  note h = added_variant_files[OF slim_added, unfolded Let_def, simplified]
  have "file_data added_disk ''p/images/app/Dockerfile'' = Some ''FROM scratch''" 
    "path_key ''p/images/app/Dockerfile'' \<noteq> child (path_key (go_path_join [''p'', ''images'', ''app''])) ''image.yml''"
    "\<not> under (child (path_key (go_path_join [''p'', ''images'', ''app''])) ''slim'') (path_key ''p/images/app/Dockerfile'')"
    by code_simp+
  then have "file_data varied_disk ''p/images/app/Dockerfile'' = Some ''FROM scratch''" using h by blast
  then show ?thesis using h by blast
qed

section \<open>What the tools leave unchecked\<close>

text \<open>A resource name may leave the project: \<open>getImageResource\<close> joins what follows the scheme without looking at it.\<close>

lemma resource_outside_project:
  "ReadResource [] [] [((False, [''etc'']), Directory 493), ((False, [''etc'', ''image.yml'']), RegularFile ''secret'' 384),
       ((False, [''p'']), Directory 493)] ''p'' ''image://../../etc''
   = Inr \<lparr>rc_URI = ''image://../../etc'', rc_Text = ''secret'', rc_MIMEType = ''application/x-yaml''\<rparr>"
  by code_simp

text \<open>Unlike an image, a variant may be there already: its build file is lost.\<close>

lemma variant_overwritten:
  "map_prod id (\<lambda>fs. os_ReadFile fs ''p/images/app/slim/Dockerfile'')
     (addImageVariant id demo_yaml ''p'' ''app'' ''slim'' [] [] []
       (added_disk @ [((False, [''p'', ''images'', ''app'', ''slim'']), Directory 493),
          ((False, [''p'', ''images'', ''app'', ''slim'', ''Dockerfile'']), RegularFile ''FROM mine'' 420)]))
   = (None, Inr (''FROM '' @ HiveParentPlaceholder @ stub_layers))"
  by code_simp

text \<open>The names that pass the check and name no directory of their own: the variant replaces the files of its image.\<close>

lemma nameless_variant_replaces_image:
  "map_prod id (\<lambda>fs. os_ReadFile fs ''p/images/app/Dockerfile'') (addImageVariant id demo_yaml ''p'' ''app'' [] ''-slim'' [] [] added_disk)
   = (None, Inr (''FROM '' @ HiveParentPlaceholder @ stub_layers))"
  "map_prod id (\<lambda>fs. os_ReadFile fs ''p/images/app/Dockerfile'') (addImageVariant id demo_yaml ''p'' ''app'' ''.'' ''-slim'' [] [] added_disk)
   = (None, Inr (''FROM '' @ HiveParentPlaceholder @ stub_layers))"
  by code_simp+

text \<open>
  What the walk of the discovery sees of a disk, to a depth.  The definition written into the directory of a variant
  becomes an image of its own when the name of the variant comes before that of the definition of the image.
\<close>

fun disk_tree :: "nat \<Rightarrow> filesys \<Rightarrow> string \<Rightarrow> string \<Rightarrow> tree" where
  "disk_tree 0 fs path name = UnreadableDir name"
| "disk_tree (Suc depth) fs path name =
     (case os_ReadDir fs path of
        Inl _ \<Rightarrow> UnreadableDir name
      | Inr entries \<Rightarrow> DirNode name (map (\<lambda>(n, isDir).
          if isDir then disk_tree depth fs (go_path_join [path, n]) n else FileNode n) entries))"

lemma variant_becomes_image:
  "walk ''p/images'' (disk_tree 4 (snd (addImageVariant id demo_yaml ''p'' ''app'' ''alpine'' ''-alpine'' [] [] added_disk)) ''p/images'' ''images'')
   = Inr ([''p/images/app/alpine/image.yml'', ''p/images/app/image.yml''], False)"
  "walk ''p/images'' (disk_tree 4 (snd (addImageVariant id demo_yaml ''p'' ''app'' ''slim'' ''-slim'' [] [] added_disk)) ''p/images'' ''images'')
   = Inr ([''p/images/app/image.yml''], False)"
  by code_simp+

end
