(* ===== verification/Version_Sources.thy ===== *)
theory Version_Sources
  imports Version_Cache
begin

text \<open>
  The sources of versions (\<open>internal/tagrange/source\<close>): JSON documents with a transform, the tags of a registry and the releases
  or tags of a GitHub repository, with the HTTP requests they share.  The world is a sequence of replies: request \<open>n\<close> of a
  run gets the reply \<open>n\<close>, and waiting \<open>n\<close> may be cut short by the context.  The JSON decoder, JSONata, the environment and the random part of a delay
  are parameters.
\<close>

section \<open>JSON values\<close>

text \<open>
  Values of type \<open>any\<close> as the decoder and the transform return them: \<open>'f\<close> are the floating-point numbers, and
  \<open>Foreign\<close> is any other type of Go, which a transform may return.
\<close>

datatype 'f json = Null | Bool bool | Number 'f | String string | Arr "'f json list" | Obj "(string, 'f json) gomap" | Foreign

datatype source_error =
    RequestInvalid string | TransportFailed string | BadStatus int string | BadCredentials int string
  | Cancelled | GaveUp source_error | DecodeFailed
  | TransformFailed string | ElementUnsupported | VersionMissing | VersionNotString
  | ListFailed string | TooManyTags nat
  | Requires string | BadKind string | NotAccepted string

section \<open>Requests (\<open>http.go\<close>)\<close>

datatype http_reply = Failed source_error | Reply (re_status: int) (re_body: string) (re_retry_after: string)

record 'f http_env =
  he_reply :: "nat \<Rightarrow> string \<Rightarrow> (string, string) gomap \<Rightarrow> http_reply"
  he_cancelled :: "nat \<Rightarrow> int \<Rightarrow> bool"
  he_jitter :: "nat \<Rightarrow> int"
  he_expand :: "string \<Rightarrow> string"
  he_agent :: string
  he_getenv :: "string \<Rightarrow> string"
  he_decode :: "string \<Rightarrow> 'f json option"
  he_eval :: "string \<Rightarrow> 'f json \<Rightarrow> string + 'f json"
  he_float :: "'f \<Rightarrow> string"

definition maxRetries :: nat where "maxRetries = 3"

definition millisecond :: int where "millisecond = 1000000"

definition second :: int where "second = 1000 * millisecond"

text \<open>Durations are 64-bit and wrap.\<close>

definition wrap64 :: "int \<Rightarrow> int" where
  "wrap64 i = (i + 2 ^ 63) mod 2 ^ 64 - 2 ^ 63"

definition parseRetryAfter :: "string \<Rightarrow> int option" where
  "parseRetryAfter v =
     (let (seconds, ok) = go_atoi v in if \<not> ok \<or> seconds < 0 then None else Some (wrap64 (seconds * second)))"

definition isRetryable :: "int \<Rightarrow> bool" where
  "isRetryable status \<longleftrightarrow> status = 429 \<or> status \<ge> 500"

text \<open>The error of a reply and the delay the server asked for, if any.\<close>

definition classifyStatus :: "string \<Rightarrow> http_reply \<Rightarrow> source_error \<times> int option" where
  "classifyStatus url resp =
     (if re_status resp = 401 \<or> re_status resp = 403 then BadCredentials (re_status resp) url else BadStatus (re_status resp) url,
      parseRetryAfter (re_retry_after resp))"

definition backoffDelay :: "'f http_env \<Rightarrow> nat \<Rightarrow> int" where
  "backoffDelay env attempt =
     (let base = 500 * millisecond * 2 ^ (attempt - 1);
          base = (if base > 5 * second then 5 * second else base) in
      base + he_jitter env attempt mod (base div 2))"

definition retry_delay :: "'f http_env \<Rightarrow> nat \<Rightarrow> int option \<Rightarrow> int" where
  "retry_delay env attempt retryAfter = (case retryAfter of Some delay \<Rightarrow> delay | None \<Rightarrow> backoffDelay env attempt)"

text \<open>The name a header is set under: capital letters at the start and after dashes.  A name with other bytes than those of a token stays as it is.\<close>

definition token_char :: "char \<Rightarrow> bool" where
  "token_char c \<longleftrightarrow> is_alnum c \<or> c \<in> set ''!#$%&*+-.^_|~'' \<or> c = CHR 0x60 \<or> c = CHR 0x27"

fun canonical_bytes :: "bool \<Rightarrow> string \<Rightarrow> string" where
  "canonical_bytes upper [] = []"
| "canonical_bytes upper (c # cs) = (if upper then go_upper_byte c else go_lower_byte c) # canonical_bytes (c = CHR ''-'') cs"

definition canonical_header :: "string \<Rightarrow> string" where
  "canonical_header name = (if \<forall>c \<in> set name. token_char c then canonical_bytes True name else name)"

definition doGet :: "'f http_env \<Rightarrow> string \<Rightarrow> (string, string) gomap \<Rightarrow> nat \<Rightarrow> http_reply" where
  "doGet env url headers n =
     he_reply env n url (fold (\<lambda>(k, v). mput (canonical_header k) (he_expand env v)) headers
       [(''Accept'', ''application/json''), (''User-Agent'', ''ContainerHive/'' @ he_agent env)])"

text \<open>The loop of \<open>getBody\<close>: \<open>n\<close> counts the requests made before, \<open>lastErr\<close> carries the error and its delay.\<close>

function get_loop ::
  "'f http_env \<Rightarrow> string \<Rightarrow> (string, string) gomap \<Rightarrow> nat \<Rightarrow> (source_error \<times> int option) option \<Rightarrow> nat
   \<Rightarrow> (source_error + string) \<times> nat" where
  "get_loop env url headers attempt lastErr n =
     (if attempt \<ge> maxRetries then (Inl (GaveUp (case lastErr of Some e \<Rightarrow> fst e | None \<Rightarrow> DecodeFailed)), n)
      else if attempt > 0 \<and> he_cancelled env n (retry_delay env attempt (case lastErr of Some e \<Rightarrow> snd e | None \<Rightarrow> None))
        then (Inl Cancelled, n)
      else case doGet env url headers n of
          Failed err \<Rightarrow> get_loop env url headers (Suc attempt) (Some (err, None)) (Suc n)
        | Reply status body retryAfter \<Rightarrow>
            if status = 200 then (Inr body, Suc n)
            else let err = classifyStatus url (Reply status body retryAfter) in
              if \<not> isRetryable status then (Inl (fst err), Suc n)
              else get_loop env url headers (Suc attempt) (Some err) (Suc n))"
  by pat_completeness auto
termination by (relation "measure (\<lambda>(env, url, headers, attempt, lastErr, n). maxRetries - attempt)") auto

declare get_loop.simps [simp del]

definition getBody :: "'f http_env \<Rightarrow> string \<Rightarrow> (string, string) gomap \<Rightarrow> nat \<Rightarrow> (source_error + string) \<times> nat" where
  "getBody env url headers n = get_loop env url headers 0 None n"

definition getJSON :: "'f http_env \<Rightarrow> (string \<Rightarrow> 'a option) \<Rightarrow> string \<Rightarrow> (string, string) gomap \<Rightarrow> nat \<Rightarrow> (source_error + 'a) \<times> nat" where
  "getJSON env decode url headers n =
     (let (body, n) = getBody env url headers n in
      (res_bind body (\<lambda>b. case decode b of None \<Rightarrow> Inl DecodeFailed | Some out \<Rightarrow> Inr out), n))"

section \<open>JSON documents (\<open>json.go\<close>)\<close>

definition Validate_json :: "SourceConfig \<Rightarrow> source_error option" where
  "Validate_json cfg =
     (if sc_URL cfg = [] then Some (Requires ''url'')
      else if sc_Image cfg \<noteq> [] \<or> sc_Repo cfg \<noteq> [] \<or> sc_Kind cfg \<noteq> [] then Some (NotAccepted ''image/repo/kind'')
      else None)"

definition Descriptor_json :: "SourceConfig \<Rightarrow> string" where
  "Descriptor_json cfg = ''json ('' @ sc_URL cfg @ '')''"

definition CacheKeyParts_json :: "SourceConfig \<Rightarrow> string list" where
  "CacheKeyParts_json cfg = [''json'', sc_URL cfg, sc_Transform cfg]"

definition stringify :: "('f \<Rightarrow> string) \<Rightarrow> 'f json \<Rightarrow> string option" where
  "stringify float v =
     (case v of
        String s \<Rightarrow> Some s
      | Bool b \<Rightarrow> Some (if b then ''true'' else ''false'')
      | Number f \<Rightarrow> Some (float f)
      | _ \<Rightarrow> None)"

definition extras :: "('f \<Rightarrow> string) \<Rightarrow> (string, 'f json) gomap \<Rightarrow> (string, string) gomap" where
  "extras float obj =
     fold (\<lambda>(key, val) extra. if key = ''version'' then extra
        else case stringify float val of Some s \<Rightarrow> mput key s extra | None \<Rightarrow> extra) obj []"

definition versionFromObject :: "('f \<Rightarrow> string) \<Rightarrow> (string, 'f json) gomap \<Rightarrow> source_error + Version" where
  "versionFromObject float obj =
     (case mget obj ''version'' of
        None \<Rightarrow> Inl VersionMissing
      | Some (String raw) \<Rightarrow>
          Inr \<lparr>ve_Raw = raw, ve_Prerelease = (case mget obj ''prerelease'' of Some (Bool b) \<Rightarrow> b | _ \<Rightarrow> False),
            ve_Extra = extras float obj\<rparr>
      | Some _ \<Rightarrow> Inl VersionNotString)"

definition version_of_item :: "('f \<Rightarrow> string) \<Rightarrow> 'f json \<Rightarrow> source_error + Version" where
  "version_of_item float item =
     (case item of
        String v \<Rightarrow> Inr \<lparr>ve_Raw = v, ve_Prerelease = False, ve_Extra = []\<rparr>
      | Obj v \<Rightarrow> versionFromObject float v
      | _ \<Rightarrow> Inl ElementUnsupported)"

definition parseVersions :: "('f \<Rightarrow> string) \<Rightarrow> 'f json \<Rightarrow> source_error + Version list" where
  "parseVersions float result =
     (let items = (case result of Arr xs \<Rightarrow> xs | _ \<Rightarrow> [result]) in res_map (version_of_item float) items)"

definition Fetch_json :: "'f http_env \<Rightarrow> SourceConfig \<Rightarrow> nat \<Rightarrow> (source_error + Version list) \<times> nat" where
  "Fetch_json env cfg n =
     (let (doc, n) = getJSON env (he_decode env) (sc_URL cfg) (sc_Headers cfg) n in
      (res_bind doc (\<lambda>doc.
         res_bind (if sc_Transform cfg \<noteq> []
             then (case he_eval env (sc_Transform cfg) doc of Inl e \<Rightarrow> Inl (TransformFailed e) | Inr v \<Rightarrow> Inr v)
             else Inr doc)
           (parseVersions (he_float env))), n))"

section \<open>Registries (\<open>registry.go\<close>)\<close>

definition maxRegistryTags :: nat where "maxRegistryTags = 10000"

definition Validate_registry :: "SourceConfig \<Rightarrow> source_error option" where
  "Validate_registry cfg =
     (if sc_Image cfg = [] then Some (Requires ''image'')
      else if sc_URL cfg \<noteq> [] \<or> sc_Transform cfg \<noteq> [] \<or> sc_Repo cfg \<noteq> [] \<or> sc_Kind cfg \<noteq> []
        then Some (NotAccepted ''url/transform/repo/kind'')
      else None)"

definition Descriptor_registry :: "SourceConfig \<Rightarrow> string" where
  "Descriptor_registry cfg = ''registry ('' @ sc_Image cfg @ '')''"

definition CacheKeyParts_registry :: "SourceConfig \<Rightarrow> string list" where
  "CacheKeyParts_registry cfg = [''registry'', sc_Image cfg]"

definition Fetch_registry :: "(string \<Rightarrow> string + string list) \<Rightarrow> SourceConfig \<Rightarrow> source_error + Version list" where
  "Fetch_registry listTags cfg =
     (case listTags (sc_Image cfg) of
        Inl err \<Rightarrow> Inl (ListFailed err)
      | Inr tags \<Rightarrow>
          if length tags > maxRegistryTags then Inl (TooManyTags (length tags))
          else Inr (map (\<lambda>tag. \<lparr>ve_Raw = tag, ve_Prerelease = False, ve_Extra = []\<rparr>) tags))"

section \<open>GitHub (\<open>github.go\<close>)\<close>

definition maxGitHubPages :: nat where "maxGitHubPages = 3"

definition githubPageSize :: nat where "githubPageSize = 100"

definition Validate_github :: "SourceConfig \<Rightarrow> source_error option" where
  "Validate_github cfg =
     (if sc_Repo cfg = [] then Some (Requires ''repo'')
      else if sc_Kind cfg \<noteq> [] \<and> sc_Kind cfg \<noteq> ''releases'' \<and> sc_Kind cfg \<noteq> ''tags'' then Some (BadKind (sc_Kind cfg))
      else if sc_URL cfg \<noteq> [] \<or> sc_Transform cfg \<noteq> [] \<or> sc_Image cfg \<noteq> [] then Some (NotAccepted ''url/transform/image'')
      else None)"

definition github_kind :: "SourceConfig \<Rightarrow> string" where
  "github_kind cfg = (if sc_Kind cfg = [] then ''releases'' else sc_Kind cfg)"

definition Descriptor_github :: "SourceConfig \<Rightarrow> string" where
  "Descriptor_github cfg = ''github ('' @ sc_Repo cfg @ '', '' @ github_kind cfg @ '')''"

definition CacheKeyParts_github :: "SourceConfig \<Rightarrow> string list" where
  "CacheKeyParts_github cfg = [''github'', sc_Repo cfg, sc_Kind cfg]"

record githubRelease =
  gr_TagName :: string
  gr_Name :: string
  gr_Draft :: bool
  gr_Prerelease :: bool
  gr_Published :: string

record githubTag =
  gt_Name :: string
  gt_SHA :: string

record github_codec =
  gc_releases :: "string \<Rightarrow> githubRelease list option"
  gc_tags :: "string \<Rightarrow> githubTag list option"

definition release_version :: "githubRelease \<Rightarrow> Version" where
  "release_version r = \<lparr>ve_Raw = gr_TagName r, ve_Prerelease = gr_Prerelease r,
     ve_Extra = [(''name'', gr_Name r), (''published_at'', gr_Published r)]\<rparr>"

definition tag_version :: "githubTag \<Rightarrow> Version" where
  "tag_version t = \<lparr>ve_Raw = gt_Name t, ve_Prerelease = False, ve_Extra = [(''commit_sha'', gt_SHA t)]\<rparr>"

definition fetchGitHubReleases ::
  "'f http_env \<Rightarrow> github_codec \<Rightarrow> string \<Rightarrow> (string, string) gomap \<Rightarrow> nat \<Rightarrow> (source_error + Version list) \<times> nat" where
  "fetchGitHubReleases env codec url headers n =
     (let (releases, n) = getJSON env (gc_releases codec) url headers n in
      (res_bind releases (\<lambda>rs. Inr (map release_version (filter (\<lambda>r. \<not> gr_Draft r) rs))), n))"

definition fetchGitHubTags ::
  "'f http_env \<Rightarrow> github_codec \<Rightarrow> string \<Rightarrow> (string, string) gomap \<Rightarrow> nat \<Rightarrow> (source_error + Version list) \<times> nat" where
  "fetchGitHubTags env codec url headers n =
     (let (tags, n) = getJSON env (gc_tags codec) url headers n in (res_bind tags (\<lambda>ts. Inr (map tag_version ts)), n))"

definition authHeaders :: "(string \<Rightarrow> string) \<Rightarrow> SourceConfig \<Rightarrow> (string, string) gomap" where
  "authHeaders getenv cfg =
     (let token = (if sc_TokenEnv cfg \<noteq> [] then getenv (sc_TokenEnv cfg) else []);
          token = (if token = [] then getenv ''GITHUB_TOKEN'' else token);
          token = (if token = [] then getenv ''GH_TOKEN'' else token) in
      if token = [] then [] else [(''Authorization'', ''Bearer '' @ token)])"

definition page_url :: "SourceConfig \<Rightarrow> nat \<Rightarrow> string" where
  "page_url cfg page = ''https://api.github.com/repos/'' @ sc_Repo cfg @ ''/'' @ github_kind cfg @ ''?per_page=''
     @ go_itoa githubPageSize @ ''&page='' @ go_itoa page"

function page_loop ::
  "'f http_env \<Rightarrow> github_codec \<Rightarrow> SourceConfig \<Rightarrow> nat \<Rightarrow> Version list \<Rightarrow> nat \<Rightarrow> (source_error + Version list) \<times> nat" where
  "page_loop env codec cfg page versions n =
     (if page > maxGitHubPages then (Inr versions, n)
      else
        let (got, n) = (if github_kind cfg = ''tags'' then fetchGitHubTags else fetchGitHubReleases) env codec
              (page_url cfg page) (authHeaders (he_getenv env) cfg) n in
        case got of
          Inl err \<Rightarrow> (Inl err, n)
        | Inr got \<Rightarrow>
            if length got < githubPageSize then (Inr (versions @ got), n)
            else page_loop env codec cfg (Suc page) (versions @ got) n)"
  by pat_completeness auto
termination by (relation "measure (\<lambda>(env, codec, cfg, page, versions, n). Suc maxGitHubPages - page)") auto

declare page_loop.simps [simp del]

definition Fetch_github :: "'f http_env \<Rightarrow> github_codec \<Rightarrow> SourceConfig \<Rightarrow> nat \<Rightarrow> (source_error + Version list) \<times> nat" where
  "Fetch_github env codec cfg n = page_loop env codec cfg 1 [] n"

section \<open>The registry of sources\<close>

text \<open>The methods of each source, as the resolver gets them when \<open>n\<close> requests have been made; errors are texts there.\<close>

definition source_result :: "source_error + Version list \<Rightarrow> string + Version list" where
  "source_result r = (case r of Inl _ \<Rightarrow> Inl ''source failed'' | Inr vs \<Rightarrow> Inr vs)"

definition source_check :: "source_error option \<Rightarrow> string option" where
  "source_check e = map_option (\<lambda>_. ''invalid source'') e"

definition JSONSource :: "'f http_env \<Rightarrow> nat \<Rightarrow> VersionSource" where
  "JSONSource env n = \<lparr>vs_Name = ''json'', vs_Validate = (\<lambda>cfg. source_check (Validate_json cfg)), vs_Descriptor = Descriptor_json,
     vs_CacheKeyParts = CacheKeyParts_json, vs_Fetch = (\<lambda>cfg. source_result (fst (Fetch_json env cfg n)))\<rparr>"

definition RegistrySource :: "(string \<Rightarrow> string + string list) \<Rightarrow> VersionSource" where
  "RegistrySource listTags = \<lparr>vs_Name = ''registry'', vs_Validate = (\<lambda>cfg. source_check (Validate_registry cfg)),
     vs_Descriptor = Descriptor_registry, vs_CacheKeyParts = CacheKeyParts_registry,
     vs_Fetch = (\<lambda>cfg. source_result (Fetch_registry listTags cfg))\<rparr>"

definition GitHubSource :: "'f http_env \<Rightarrow> github_codec \<Rightarrow> nat \<Rightarrow> VersionSource" where
  "GitHubSource env codec n = \<lparr>vs_Name = ''github'', vs_Validate = (\<lambda>cfg. source_check (Validate_github cfg)),
     vs_Descriptor = Descriptor_github, vs_CacheKeyParts = CacheKeyParts_github,
     vs_Fetch = (\<lambda>cfg. source_result (fst (Fetch_github env codec cfg n)))\<rparr>"

definition builtin_sources ::
  "'f http_env \<Rightarrow> github_codec \<Rightarrow> (string \<Rightarrow> string + string list) \<Rightarrow> nat \<Rightarrow> Registry" where
  "builtin_sources env codec listTags n = DefaultRegistry (JSONSource env n) (RegistrySource listTags) (GitHubSource env codec n)"

section \<open>What a request does\<close>

text \<open>The reply that ends the loop and what it ends it with; none ends in a retry.\<close>

definition outcome :: "string \<Rightarrow> http_reply \<Rightarrow> (source_error + string) option" where
  "outcome url reply =
     (case reply of
        Failed _ \<Rightarrow> None
      | Reply status body _ \<Rightarrow>
          if status = 200 then Some (Inr body)
          else if isRetryable status then None else Some (Inl (fst (classifyStatus url reply))))"

definition reply_error :: "string \<Rightarrow> http_reply \<Rightarrow> source_error" where
  "reply_error url reply = (case reply of Failed e \<Rightarrow> e | Reply _ _ _ \<Rightarrow> fst (classifyStatus url reply))"

text \<open>The wait before a retry: as long as the server asked for, otherwise the backoff.\<close>

definition asked_delay :: "'f http_env \<Rightarrow> nat \<Rightarrow> http_reply \<Rightarrow> int" where
  "asked_delay env attempt reply =
     retry_delay env attempt (case reply of Failed _ \<Rightarrow> None | Reply _ _ retryAfter \<Rightarrow> parseRetryAfter retryAfter)"

lemma get_loop_step:
  assumes "attempt < maxRetries" and "attempt = 0 \<or> \<not> he_cancelled env n (retry_delay env attempt (case lastErr of Some e \<Rightarrow> snd e | None \<Rightarrow> None))"
  shows "get_loop env url headers attempt lastErr n =
    (case outcome url (doGet env url headers n) of
       Some r \<Rightarrow> (r, Suc n)
     | None \<Rightarrow>
         if Suc attempt = maxRetries then (Inl (GaveUp (reply_error url (doGet env url headers n))), Suc n)
         else if he_cancelled env (Suc n) (asked_delay env (Suc attempt) (doGet env url headers n)) then (Inl Cancelled, Suc n)
         else get_loop env url headers (Suc attempt)
           (Some (reply_error url (doGet env url headers n),
              case doGet env url headers n of Failed _ \<Rightarrow> None | Reply _ _ retryAfter \<Rightarrow> parseRetryAfter retryAfter)) (Suc n))"
proof -
  have "get_loop env url headers (Suc attempt) (Some e) (Suc n) =
      (if Suc attempt = maxRetries then (Inl (GaveUp (fst e)), Suc n)
       else if he_cancelled env (Suc n) (retry_delay env (Suc attempt) (snd e)) then (Inl Cancelled, Suc n)
       else get_loop env url headers (Suc attempt) (Some e) (Suc n))" for e
  proof (cases "Suc attempt = maxRetries")
    case True
    then show ?thesis by (subst get_loop.simps) simp
  next
    case False
    then have "\<not> maxRetries \<le> Suc attempt" using assms(1) by simp
    then show ?thesis
      using False by (cases "he_cancelled env (Suc n) (retry_delay env (Suc attempt) (snd e))")
        (simp_all add: get_loop.simps[of env url headers "Suc attempt" "Some e"])
  qed
  note rec = this
  have once: "get_loop env url headers attempt lastErr n =
      (case doGet env url headers n of
          Failed err \<Rightarrow> get_loop env url headers (Suc attempt) (Some (err, None)) (Suc n)
        | Reply status body retryAfter \<Rightarrow>
            if status = 200 then (Inr body, Suc n)
            else let err = classifyStatus url (Reply status body retryAfter) in
              if \<not> isRetryable status then (Inl (fst err), Suc n)
              else get_loop env url headers (Suc attempt) (Some err) (Suc n))"
    using assms by (subst get_loop.simps) auto
  show ?thesis
  proof (cases "doGet env url headers n")
    case (Failed err)
    show ?thesis
      unfolding once Failed outcome_def reply_error_def asked_delay_def http_reply.case option.case
      by (rule rec[of "(err, None)", unfolded fst_conv snd_conv])
  next
    case (Reply status body retryAfter)
    have e: "classifyStatus url (Reply status body retryAfter) =
        (fst (classifyStatus url (Reply status body retryAfter)), parseRetryAfter retryAfter)"
      by (simp add: classifyStatus_def)
    show ?thesis
    proof (cases "status = 200 \<or> \<not> isRetryable status")
      case True
      then show ?thesis unfolding once Reply outcome_def by (auto simp: Let_def)
    next
      case False
      then have r: "status \<noteq> 200" "isRetryable status" by simp_all
      have "get_loop env url headers attempt lastErr n =
          get_loop env url headers (Suc attempt) (Some (fst (classifyStatus url (Reply status body retryAfter)), parseRetryAfter retryAfter)) (Suc n)"
        unfolding once Reply e[symmetric] using r by simp
      also note rec
      finally show ?thesis
        unfolding Reply outcome_def reply_error_def asked_delay_def fst_conv snd_conv using r by simp
    qed
  qed
qed

lemma get_loop_outcome:
  assumes "attempt < maxRetries" and "attempt = 0 \<or> \<not> he_cancelled env n (retry_delay env attempt (case lastErr of Some e \<Rightarrow> snd e | None \<Rightarrow> None))"
    and "get_loop env url headers attempt lastErr n = (r, n')"
  shows "\<exists>k. attempt + k < maxRetries \<and> n' = n + k + 1
    \<and> (\<forall>j < k. outcome url (doGet env url headers (n + j)) = None
         \<and> \<not> he_cancelled env (n + j + 1) (asked_delay env (attempt + j + 1) (doGet env url headers (n + j))))
    \<and> (case outcome url (doGet env url headers (n + k)) of
         Some res \<Rightarrow> r = res
       | None \<Rightarrow> if attempt + k + 1 = maxRetries then r = Inl (GaveUp (reply_error url (doGet env url headers (n + k))))
           else r = Inl Cancelled \<and> he_cancelled env (n + k + 1) (asked_delay env (attempt + k + 1) (doGet env url headers (n + k))))"
  using assms
proof (induction "maxRetries - attempt" arbitrary: attempt lastErr n)
  case (Suc m)
  let ?reply = "doGet env url headers n"
  note step = get_loop_step[OF Suc.prems(1,2), of url headers]
  show ?case
  proof (cases "outcome url ?reply = None \<and> Suc attempt \<noteq> maxRetries \<and> \<not> he_cancelled env (Suc n) (asked_delay env (Suc attempt) ?reply)")
    case False
    then show ?thesis
      using Suc.prems step by (intro exI[of _ 0]) (auto split: option.splits if_splits)
  next
    case True
    have less: "Suc attempt < maxRetries" using True Suc.prems(1) by linarith
    have m: "m = maxRetries - Suc attempt" using Suc.hyps(2) by simp
    have delay: "\<not> he_cancelled env (Suc n) (retry_delay env (Suc attempt) (case ?reply of Failed _ \<Rightarrow> None | Reply _ _ ra \<Rightarrow> parseRetryAfter ra))"
      using True by (simp add: asked_delay_def)
    have rec: "get_loop env url headers (Suc attempt)
        (Some (reply_error url ?reply, case ?reply of Failed _ \<Rightarrow> None | Reply _ _ ra \<Rightarrow> parseRetryAfter ra)) (Suc n) = (r, n')"
      using step True Suc.prems(3) by simp
    obtain k where k: "Suc attempt + k < maxRetries" "n' = Suc n + k + 1"
      and before': "\<forall>j < k. outcome url (doGet env url headers (Suc n + j)) = None
         \<and> \<not> he_cancelled env (Suc n + j + 1) (asked_delay env (Suc attempt + j + 1) (doGet env url headers (Suc n + j)))"
      and last: "case outcome url (doGet env url headers (Suc n + k)) of
         Some res \<Rightarrow> r = res
       | None \<Rightarrow> if Suc attempt + k + 1 = maxRetries then r = Inl (GaveUp (reply_error url (doGet env url headers (Suc n + k))))
           else r = Inl Cancelled \<and> he_cancelled env (Suc n + k + 1) (asked_delay env (Suc attempt + k + 1) (doGet env url headers (Suc n + k)))"
      using Suc.hyps(1)[OF m less disjI2 rec] delay by auto
    have "\<forall>j < Suc k. outcome url (doGet env url headers (n + j)) = None
         \<and> \<not> he_cancelled env (n + j + 1) (asked_delay env (attempt + j + 1) (doGet env url headers (n + j)))"
      using before' True by (auto simp: less_Suc_eq_0_disj)
    moreover have "attempt + Suc k < maxRetries" "n' = n + Suc k + 1" using k by simp_all
    ultimately show ?thesis using last[unfolded add_Suc_shift] by blast
  qed
qed simp

text \<open>
  C28. A request is made at least once and at most three times.  All replies before the last are failures worth a retry, each
  followed by the wait the server asked for or the backoff; the last one decides: a body with status 200, a refusal, the third failure, or a wait the context ends.
\<close>

theorem request_outcome:
  "\<exists>k < 3. snd (getBody env url headers n) = n + k + 1
    \<and> (\<forall>j < k. outcome url (doGet env url headers (n + j)) = None
         \<and> \<not> he_cancelled env (n + j + 1) (asked_delay env (j + 1) (doGet env url headers (n + j))))
    \<and> (case outcome url (doGet env url headers (n + k)) of
         Some res \<Rightarrow> fst (getBody env url headers n) = res
       | None \<Rightarrow>
           if k = 2 then fst (getBody env url headers n) = Inl (GaveUp (reply_error url (doGet env url headers (n + k))))
           else fst (getBody env url headers n) = Inl Cancelled
             \<and> he_cancelled env (n + k + 1) (asked_delay env (k + 1) (doGet env url headers (n + k))))"
proof -
  have "0 < maxRetries" by (simp add: maxRetries_def)
  have "get_loop env url headers 0 None n = (fst (getBody env url headers n), snd (getBody env url headers n))"
    by (simp add: getBody_def)
  from get_loop_outcome[OF \<open>0 < maxRetries\<close> disjI1[OF refl] this] obtain k
    where k: "k < maxRetries" "snd (getBody env url headers n) = n + k + 1"
    "\<forall>j < k. outcome url (doGet env url headers (n + j)) = None
         \<and> \<not> he_cancelled env (n + j + 1) (asked_delay env (j + 1) (doGet env url headers (n + j)))"
    "case outcome url (doGet env url headers (n + k)) of
         Some res \<Rightarrow> fst (getBody env url headers n) = res
       | None \<Rightarrow> if k + 1 = maxRetries then fst (getBody env url headers n) = Inl (GaveUp (reply_error url (doGet env url headers (n + k))))
           else fst (getBody env url headers n) = Inl Cancelled
             \<and> he_cancelled env (n + k + 1) (asked_delay env (k + 1) (doGet env url headers (n + k)))"
    unfolding add_0 by blast
  have last: "(k + 1 = maxRetries) = (k = 2)" and "k < 3" using k(1) by (auto simp: maxRetries_def)
  then show ?thesis using k(2,3) k(4)[unfolded last] by (intro exI[of _ k] conjI)
qed

text \<open>A server that answers every address with the address itself.\<close>

definition demo_env :: "nat http_env" where
  "demo_env = \<lparr>he_reply = (\<lambda>n url _. Reply 200 url []), he_cancelled = (\<lambda>_ _. False), he_jitter = (\<lambda>_. 0),
     he_expand = id, he_agent = ''1.0'', he_getenv = (\<lambda>_. []), he_decode = (\<lambda>_. Some Null), he_eval = (\<lambda>_. Inr), he_float = go_itoa\<rparr>"

text \<open>A server that is overloaded at first, at a client that waits for no more than a second.\<close>

definition busy_env :: "nat http_env" where
  "busy_env = demo_env\<lparr>he_reply := (\<lambda>n _ _. if n = 0 then Reply 429 [] ''1'' else Reply 503 [] ''60''),
     he_cancelled := (\<lambda>_ delay. delay > second)\<rparr>"

theorem request_outcome_witness:
  "getBody busy_env ''u'' [] 0 = (Inl Cancelled, 2)
   \<and> (\<exists>k < 3. 2 = k + 1 \<and> outcome ''u'' (doGet busy_env ''u'' [] k) = None)"
proof -
  have run: "getBody busy_env ''u'' [] 0 = (Inl Cancelled, 2)" by code_simp
  obtain k where k: "k < 3" "snd (getBody busy_env ''u'' [] 0) = 0 + k + 1"
    and last: "case outcome ''u'' (doGet busy_env ''u'' [] (0 + k)) of
       Some res \<Rightarrow> fst (getBody busy_env ''u'' [] 0) = res
     | None \<Rightarrow>
         if k = 2 then fst (getBody busy_env ''u'' [] 0) = Inl (GaveUp (reply_error ''u'' (doGet busy_env ''u'' [] (0 + k))))
         else fst (getBody busy_env ''u'' [] 0) = Inl Cancelled
           \<and> he_cancelled busy_env (0 + k + 1) (asked_delay busy_env (k + 1) (doGet busy_env ''u'' [] (0 + k)))"
    using request_outcome[of busy_env "''u''" "[]" 0] by blast
  have "outcome ''u'' (doGet busy_env ''u'' [] 1) = None" by code_simp
  moreover have "k = 1" using k run by simp
  ultimately show ?thesis using run k by auto
qed

section \<open>Pages of GitHub\<close>

text \<open>The server answers page \<open>k\<close> of a list with its \<open>k\<close>-th hundred, whenever it is asked.\<close>

definition page_of_list :: "'a list \<Rightarrow> nat \<Rightarrow> 'a list" where
  "page_of_list xs page = take githubPageSize (drop (githubPageSize * (page - 1)) xs)"

definition serves_pages :: "'f http_env \<Rightarrow> (string \<Rightarrow> 'a list option) \<Rightarrow> SourceConfig \<Rightarrow> 'a list \<Rightarrow> bool" where
  "serves_pages env decode cfg xs \<longleftrightarrow>
     (\<forall>n. \<forall>page \<in> {1, 2, 3}. fst (getJSON env decode (page_url cfg page) (authHeaders (he_getenv env) cfg) n) = Inr (page_of_list xs page))"

text \<open>The loop over pages whose versions are known.\<close>

lemma page_loop_three:
  assumes "\<And>n page. page \<in> {1, 2, 3} \<Longrightarrow> fst ((if github_kind cfg = ''tags'' then fetchGitHubTags else fetchGitHubReleases) env codec
      (page_url cfg page) (authHeaders (he_getenv env) cfg) n) = Inr (g page)"
  shows "fst (Fetch_github env codec cfg n) =
    Inr (if length (g 1) < githubPageSize then g 1 else if length (g 2) < githubPageSize then g 1 @ g 2 else g 1 @ g 2 @ g 3)"
proof -
  have step: "fst (page_loop env codec cfg page vs n) =
      (if length (g page) < githubPageSize then Inr (vs @ g page)
       else fst (page_loop env codec cfg (Suc page) (vs @ g page)
         (snd ((if github_kind cfg = ''tags'' then fetchGitHubTags else fetchGitHubReleases) env codec
            (page_url cfg page) (authHeaders (he_getenv env) cfg) n))))"
    if page: "page \<in> {1, 2, 3}" for page vs n
  proof -
    let ?f = "(if github_kind cfg = ''tags'' then fetchGitHubTags else fetchGitHubReleases) env codec
      (page_url cfg page) (authHeaders (he_getenv env) cfg) n"
    obtain n' where f: "?f = (Inr (g page), n')" using assms[OF page, of n] by (cases ?f) simp
    have "\<not> page > maxGitHubPages" using page by (auto simp: maxGitHubPages_def)
    then show ?thesis unfolding page_loop.simps[of env codec cfg page vs n] f by simp
  qed
  have done': "fst (page_loop env codec cfg 4 vs n) = Inr vs" for vs n
    by (simp add: page_loop.simps[of env codec cfg 4] maxGitHubPages_def)
  show ?thesis
    unfolding Fetch_github_def
    by (cases "length (g 1) < githubPageSize"; cases "length (g 2) < githubPageSize"; cases "length (g 3) < githubPageSize")
      (simp_all add: step done' del: One_nat_def)
qed

lemma page_lengths:
  "length (page_of_list xs page) < githubPageSize \<longleftrightarrow> length xs < githubPageSize * (page - 1) + githubPageSize"
  by (auto simp: page_of_list_def githubPageSize_def)

lemma pages_concat:
  "(if length (page_of_list xs 1) < githubPageSize then page_of_list xs 1
    else if length (page_of_list xs 2) < githubPageSize then page_of_list xs 1 @ page_of_list xs 2
    else page_of_list xs 1 @ page_of_list xs 2 @ page_of_list xs 3) = take (maxGitHubPages * githubPageSize) xs"
proof -
  have "take 300 xs = take 100 xs @ take 100 (drop 100 xs) @ take 100 (drop 200 xs)"
    using take_add[of 100 200 xs] take_add[of 100 100 "drop 100 xs"] by (simp add: add.commute)
  then show ?thesis
    unfolding page_lengths by (auto simp: page_of_list_def githubPageSize_def maxGitHubPages_def)
qed

text \<open>
  C27. Listing a repository.  For a server that answers page by page, a source of kind tags reports the newest three hundred tags in their order, and
  one of releases the newest three hundred releases, when no draft is among them; drafts on the first page end the listing there.
\<close>

theorem github_lists_newest:
  "(github_kind cfg = ''tags'' \<and> serves_pages env (gc_tags codec) cfg ts \<longrightarrow>
      fst (Fetch_github env codec cfg n) = Inr (map tag_version (take 300 ts)))
   \<and> (github_kind cfg \<noteq> ''tags'' \<and> serves_pages env (gc_releases codec) cfg rs \<longrightarrow>
      (if \<exists>r \<in> set (take 100 rs). gr_Draft r
       then fst (Fetch_github env codec cfg n) = Inr (map release_version (filter (\<lambda>r. \<not> gr_Draft r) (take 100 rs)))
       else (\<forall>r \<in> set (take 300 rs). \<not> gr_Draft r) \<longrightarrow>
         fst (Fetch_github env codec cfg n) = Inr (map release_version (take 300 rs))))"
proof (intro conjI impI, goal_cases)
  case 1
  have "fst (Fetch_github env codec cfg n) = Inr (map tag_version (take (maxGitHubPages * githubPageSize) ts))"
    unfolding pages_concat[symmetric]
    by (subst page_loop_three[where g = "\<lambda>p. map tag_version (page_of_list ts p)"])
      (use 1 in \<open>auto simp: fetchGitHubTags_def serves_pages_def case_prod_unfold\<close>)
  then show ?case by (simp add: maxGitHubPages_def githubPageSize_def)
next
  case 2
  let ?live = "filter (\<lambda>r. \<not> gr_Draft r)"
  have f: "fst (Fetch_github env codec cfg n) = Inr (let g = (\<lambda>p. map release_version (?live (page_of_list rs p))) in
      if length (g 1) < githubPageSize then g 1 else if length (g 2) < githubPageSize then g 1 @ g 2 else g 1 @ g 2 @ g 3)"
    unfolding Let_def
    by (rule page_loop_three) (use 2 in \<open>auto simp: fetchGitHubReleases_def serves_pages_def case_prod_unfold\<close>)
  show ?case
  proof (cases "\<exists>r \<in> set (take 100 rs). gr_Draft r")
    case True
    have p: "page_of_list rs 1 = take 100 rs" by (simp add: page_of_list_def githubPageSize_def)
    obtain r where "r \<in> set (take 100 rs)" "gr_Draft r" using True by blast
    then have "length (?live (take 100 rs)) < length (take 100 rs)" by (intro length_filter_less[of r]) simp_all
    then have "length (?live (page_of_list rs 1)) < githubPageSize" unfolding p by (simp add: githubPageSize_def)
    then show ?thesis using True unfolding f Let_def by (simp add: p del: One_nat_def)
  next
    case False
    have "fst (Fetch_github env codec cfg n) = Inr (map release_version (take 300 rs))" if live: "\<forall>r \<in> set (take 300 rs). \<not> gr_Draft r"
    proof -
      have "set (page_of_list rs p) \<subseteq> set (take 300 rs)" if p: "p \<in> {1, 2, 3}" for p
      proof -
        have "page_of_list rs p = take 100 (drop (100 * (p - 1)) (take 300 rs))"
          using p by (auto simp: page_of_list_def githubPageSize_def drop_take)
        then show ?thesis using set_take_subset set_drop_subset by (metis order_trans)
      qed
      then have l: "?live (page_of_list rs p) = page_of_list rs p" if "p \<in> {1, 2, 3}" for p
        using live that by (auto intro!: filter_True)
      have "fst (Fetch_github env codec cfg n) = Inr (map release_version (take (maxGitHubPages * githubPageSize) rs))"
        unfolding pages_concat[symmetric] f Let_def by (simp add: l)
      then show ?thesis by (simp add: maxGitHubPages_def githubPageSize_def)
    qed
    then show ?thesis using False by simp
  qed
qed

definition demo_repo :: SourceConfig where
  "demo_repo = \<lparr>sc_Type = ''github'', sc_URL = [], sc_Transform = [], sc_Headers = [], sc_Image = [], sc_Repo = ''acme/tool'',
     sc_Kind = ''tags'', sc_TokenEnv = [], sc_TTL = []\<rparr>"

definition demo_tags :: "githubTag list" where
  "demo_tags = [\<lparr>gt_Name = ''v2'', gt_SHA = ''bb''\<rparr>, \<lparr>gt_Name = ''v1'', gt_SHA = ''aa''\<rparr>]"

definition demo_codec :: github_codec where
  "demo_codec = \<lparr>gc_releases = (\<lambda>_. None), gc_tags = (\<lambda>body. Some (if body = page_url demo_repo 1 then demo_tags else []))\<rparr>"

lemma demo_serves: "serves_pages demo_env (gc_tags demo_codec) demo_repo demo_tags"
proof -
  have "fst (getBody demo_env url headers n) = Inr url" for url headers n
    unfolding getBody_def by (subst get_loop.simps) (simp add: maxRetries_def doGet_def demo_env_def)
  then have "fst (getJSON demo_env (gc_tags demo_codec) url headers n) = Inr (if url = page_url demo_repo 1 then demo_tags else [])" for url headers n
    by (simp add: getJSON_def case_prod_unfold demo_codec_def Let_def)
  moreover have "page_url demo_repo 2 \<noteq> page_url demo_repo 1" "page_url demo_repo 3 \<noteq> page_url demo_repo 1"
    by (simp_all add: page_url_def go_itoa_inj)
  moreover have "page_of_list demo_tags 1 = demo_tags" "page_of_list demo_tags 2 = []" "page_of_list demo_tags 3 = []"
    by (simp_all add: page_of_list_def demo_tags_def githubPageSize_def)
  ultimately show ?thesis by (auto simp: serves_pages_def)
qed

theorem github_lists_newest_witness:
  "fst (Fetch_github demo_env demo_codec demo_repo 0) = Inr (map tag_version demo_tags)"
proof -
  have "github_kind demo_repo = ''tags''" by (simp add: github_kind_def demo_repo_def)
  moreover have "take 300 demo_tags = demo_tags" by (simp add: demo_tags_def)
  ultimately show ?thesis using github_lists_newest[of demo_repo demo_env demo_codec demo_tags 0 "[]"] demo_serves by simp
qed

section \<open>Configurations\<close>

text \<open>A configuration passes the check of at most one kind of source.\<close>

lemma sources_exclusive:
  "(if Validate_json cfg = None then 1 else 0) + (if Validate_registry cfg = None then 1 else 0)
   + (if Validate_github cfg = None then 1 else (0::nat)) \<le> 1"
  by (auto simp: Validate_json_def Validate_registry_def Validate_github_def split: if_splits)

text \<open>But headers, which only the JSON source sends, pass all three, and neither check nor key of a query looks at them.\<close>

lemma headers_unchecked:
  "Validate_json (cfg\<lparr>sc_Headers := h\<rparr>) = Validate_json cfg" "Validate_registry (cfg\<lparr>sc_Headers := h\<rparr>) = Validate_registry cfg"
  "Validate_github (cfg\<lparr>sc_Headers := h\<rparr>) = Validate_github cfg"
  by (simp_all add: Validate_json_def Validate_registry_def Validate_github_def)

lemma headers_share_entry:
  assumes "load env ''json'' (cacheKey env (CacheKeyParts_json cfg) fp) c = (Some entry, c')" and "\<not> ca_forceRefresh c"
  shows "fst (FetchVersions env (JSONSource http n) (cfg\<lparr>sc_Headers := h\<rparr>) fp c) = Inr (ce_Versions entry)"
  using assms by (simp add: FetchVersions_def JSONSource_def CacheKeyParts_json_def)

text \<open>The aliases of the registry: both names list the same tags.\<close>

lemma dockerhub_is_registry:
  "GetSource (builtin_sources env codec listTags n) ''dockerhub'' = Inr (dockerHubAlias (RegistrySource listTags))"
  "GetSource (builtin_sources env codec listTags n) ''registry'' = Inr (RegistrySource listTags)"
  "vs_Fetch (dockerHubAlias (RegistrySource listTags)) = vs_Fetch (RegistrySource listTags)"
  by (simp_all add: GetSource_def builtin_sources_def DefaultRegistry_def NewRegistry_def dockerHubAlias_def JSONSource_def
      RegistrySource_def GitHubSource_def)

text \<open>Versions written as objects are read back, up to extras under the names the parser takes for itself.\<close>

definition version_object :: "Version \<Rightarrow> 'f json" where
  "version_object v = Obj ((''version'', String (ve_Raw v)) # (''prerelease'', Bool (ve_Prerelease v))
     # map (\<lambda>(k, x). (k, String x)) (ve_Extra v))"

lemma extras_of_object:
  assumes "''version'' \<notin> set (mkeys m)"
  shows "fold (\<lambda>(key, val) extra. if key = ''version'' then extra
        else case stringify float val of Some s \<Rightarrow> mput key s extra | None \<Rightarrow> extra) (map (\<lambda>(k, x). (k, String x)) m) e
    = map_copy m e"
  using assms
proof (induction m arbitrary: e)
  case (Cons kx m)
  then show ?case by (cases kx) (auto simp: map_copy_def mkeys_def stringify_def)
qed (simp add: map_copy_def)

lemma parse_version_objects:
  assumes "\<forall>v \<in> set vs. ''version'' \<notin> set (mkeys (ve_Extra v)) \<and> ''prerelease'' \<notin> set (mkeys (ve_Extra v)) \<and> wf_map (ve_Extra v)"
  shows "\<exists>ws. parseVersions float (Arr (map version_object vs)) = Inr ws
    \<and> list_all2 (\<lambda>v w. ve_Raw w = ve_Raw v \<and> ve_Prerelease w = ve_Prerelease v
        \<and> (\<forall>k. mget (ve_Extra w) k = (if k = ''prerelease'' then Some (if ve_Prerelease v then ''true'' else ''false'') else mget (ve_Extra v) k))) vs ws"
proof -
  let ?w = "\<lambda>v. \<lparr>ve_Raw = ve_Raw v, ve_Prerelease = ve_Prerelease v,
    ve_Extra = map_copy (ve_Extra v) (mput ''prerelease'' (if ve_Prerelease v then ''true'' else ''false'') [])\<rparr>"
  have one: "version_of_item float (version_object v) = Inr (?w v)" if "''version'' \<notin> set (mkeys (ve_Extra v))" for v
    using extras_of_object[OF that, of float]
    by (simp add: version_of_item_def version_object_def versionFromObject_def extras_def stringify_def)
  have parsed: "parseVersions float (Arr (map version_object vs)) = Inr (map ?w vs)"
    using assms one unfolding parseVersions_def Let_def json.case by (induction vs) simp_all
  have ex: "mget (ve_Extra (?w v)) k = (if k = ''prerelease'' then Some (if ve_Prerelease v then ''true'' else ''false'') else mget (ve_Extra v) k)"
    if "''prerelease'' \<notin> set (mkeys (ve_Extra v))" "wf_map (ve_Extra v)" for v k
  proof -
    have "mget (ve_Extra v) ''prerelease'' = None" using that(1) by (simp add: set_mkeys domIff)
    then show ?thesis by (auto simp: mget_map_copy[OF that(2)] split: option.split)
  qed
  have "list_all2 (\<lambda>v w. ve_Raw w = ve_Raw v \<and> ve_Prerelease w = ve_Prerelease v
        \<and> (\<forall>k. mget (ve_Extra w) k = (if k = ''prerelease'' then Some (if ve_Prerelease v then ''true'' else ''false'') else mget (ve_Extra v) k)))
      vs (map ?w vs)"
    unfolding list_all2_map2 list_all2_same
    by (intro ballI conjI allI ex) (use assms in simp_all)
  with parsed show ?thesis by blast
qed

end
