(* ===== verification/Line_Output.thy ===== *)
theory Line_Output
  imports Variant_Graph Go_Text
begin

text \<open>
  Output by lines (\<open>pkg/progress/linebuf.go\<close>, \<open>pkg/logging\<close>): chunks of any size are cut into lines, and lines of
  \<open>logrus\<close> are coloured, or formatted in the style of the other logs.  The writer below, the table of printable runes and the layout of times
  are parameters.
\<close>

section \<open>Lines in a buffer\<close>

text \<open>The loop of both buffers: the complete lines in front and what is left.\<close>

function drain :: "string \<Rightarrow> string list \<times> string" where
  "drain buf =
     (case go_index_byte buf newline of
        None \<Rightarrow> ([], buf)
      | Some idx \<Rightarrow> let (ls, rest) = drain (drop (Suc idx) buf) in (take idx buf # ls, rest))"
  by pat_completeness auto
termination by (relation "measure length") (auto simp: go_index_byte_Some_iff)

declare drain.simps [simp del]

text \<open>The buffers of \<open>lineBuf\<close>, by the digest of a vertex.\<close>

type_synonym lineBuf = "(string, string) gomap"

definition lineBuf_write :: "string \<Rightarrow> string \<Rightarrow> lineBuf \<Rightarrow> string list \<times> lineBuf" where
  "lineBuf_write d data lb =
     (let (ls, rest) = drain (mget_or [] lb d @ data) in (ls, mput d rest lb))"

definition flushRemaining :: "string \<Rightarrow> lineBuf \<Rightarrow> string option \<times> lineBuf" where
  "flushRemaining d lb =
     (case mget lb d of
        None \<Rightarrow> (None, lb)
      | Some buf \<Rightarrow> if buf = [] then (None, lb) else (Some buf, mput d [] lb))"

section \<open>Fields of a log line (\<open>logrus_writer.go\<close>)\<close>

text \<open>The scan for the closing quote from position \<open>i\<close>: its position, if there is one.\<close>

function closing_quote :: "string \<Rightarrow> nat \<Rightarrow> nat option" where
  "closing_quote s i =
     (if i \<ge> length s then None
      else if s ! i = CHR 0x5C \<and> i + 1 < length s then closing_quote s (i + 2)
      else if s ! i = CHR 0x22 then Some i
      else closing_quote s (i + 1))"
  by pat_completeness auto
termination by (relation "measure (\<lambda>(s, i). length s - i)") auto

declare closing_quote.simps [simp del]

definition go_slice :: "nat \<Rightarrow> nat \<Rightarrow> string \<Rightarrow> string" where
  "go_slice i j s = drop i (take j s)"

text \<open>Value, start and end of a field.\<close>

definition extractField :: "string \<Rightarrow> string \<Rightarrow> (string \<times> nat \<times> nat) option" where
  "extractField s pre =
     (case go_index s pre of
        None \<Rightarrow> None
      | Some idx \<Rightarrow>
          let valStart = idx + length pre in
          if valStart \<ge> length s then Some ([], idx, valStart)
          else if s ! valStart = CHR 0x22 then
            (case closing_quote s (valStart + 1) of
               Some i \<Rightarrow> Some (go_slice (valStart + 1) i s, idx, i + 1)
             | None \<Rightarrow> Some (drop (valStart + 1) s, idx, length s))
          else (case go_index_byte (drop valStart s) (CHR '' '') of
               None \<Rightarrow> Some (drop valStart s, idx, length s)
             | Some spaceIdx \<Rightarrow> Some (go_slice valStart (valStart + spaceIdx) s, idx, valStart + spaceIdx)))"

section \<open>Colours of a log line\<close>

record LogColors =
  lc_Debug :: string
  lc_Info :: string
  lc_Warning :: string
  lc_Error :: string
  lc_Message :: string
  lc_Gray :: string
  lc_Reset :: string

definition esc :: "string \<Rightarrow> string" where
  "esc code = CHR 0x1B # ''['' @ code @ ''m''"

definition no_log_colors :: LogColors where
  "no_log_colors = \<lparr>lc_Debug = [], lc_Info = [], lc_Warning = [], lc_Error = [], lc_Message = [], lc_Gray = [], lc_Reset = []\<rparr>"

definition DefaultLogColors :: "(string \<Rightarrow> string) \<Rightarrow> LogColors" where
  "DefaultLogColors getenv =
     (if getenv ''NO_COLOR'' \<noteq> [] then no_log_colors
      else \<lparr>lc_Debug = esc ''2'', lc_Info = esc ''34;1'', lc_Warning = esc ''33'', lc_Error = esc ''31'',
        lc_Message = esc ''37;1'', lc_Gray = esc ''2'', lc_Reset = esc ''0''\<rparr>)"

definition levelColor :: "LogColors \<Rightarrow> string \<Rightarrow> string" where
  "levelColor c level =
     (if level \<in> {''debug'', ''trace''} then lc_Debug c
      else if level = ''info'' then lc_Info c
      else if level \<in> {''warning'', ''warn''} then lc_Warning c
      else if level \<in> {''error'', ''fatal'', ''panic''} then lc_Error c
      else [])"

definition writeColored :: "LogColors \<Rightarrow> string \<Rightarrow> string \<Rightarrow> string" where
  "writeColored c color txt = (if txt = [] then [] else if color = [] then txt else color @ txt @ lc_Reset c)"

definition formatLine :: "LogColors \<Rightarrow> string \<Rightarrow> string" where
  "formatLine c line =
     (if lc_Reset c = [] then line
      else case extractField line ''level='' of
        None \<Rightarrow> line
      | Some (level, levelIdx, levelEnd) \<Rightarrow>
          let b = writeColored c (lc_Gray c) (take levelIdx line) @ writeColored c (levelColor c level) (go_slice levelIdx levelEnd line);
              rest = drop levelEnd line in
          (case extractField rest ''msg='' of
             None \<Rightarrow> b @ writeColored c (lc_Gray c) rest
           | Some (_, msgIdx, msgEnd) \<Rightarrow>
               b @ writeColored c (lc_Gray c) (take msgIdx rest) @ writeColored c (lc_Gray c) ''msg=''
               @ writeColored c (lc_Message c) (go_slice (msgIdx + length ''msg='') msgEnd rest)
               @ (if msgEnd < length rest then writeColored c (lc_Gray c) (drop msgEnd rest) else [])))"

section \<open>The log writer\<close>

text \<open>The writer below takes a text or fails, which may depend on all it has taken.\<close>

record logWriter =
  lw_buf :: string
  lw_out :: string

definition write_string :: "(string \<Rightarrow> string \<Rightarrow> bool) \<Rightarrow> string \<Rightarrow> logWriter \<Rightarrow> bool \<times> logWriter" where
  "write_string takes txt w = (if takes (lw_out w) txt then (True, w\<lparr>lw_out := lw_out w @ txt\<rparr>) else (False, w))"

text \<open>The loop over the lines of the buffer, and whether the writer took all of them.\<close>

function write_lines :: "(string \<Rightarrow> string \<Rightarrow> bool) \<Rightarrow> LogColors \<Rightarrow> logWriter \<Rightarrow> bool \<times> logWriter" where
  "write_lines takes c w =
     (case go_index_byte (lw_buf w) newline of
        None \<Rightarrow> (True, w)
      | Some idx \<Rightarrow>
          let line = take idx (lw_buf w);
              (ok, w') = write_string takes (formatLine c line @ [newline]) (w\<lparr>lw_buf := drop (Suc idx) (lw_buf w)\<rparr>) in
          if \<not> ok then (False, w') else write_lines takes c w')"
  by pat_completeness auto
termination by (relation "measure (\<lambda>(takes, c, w). length (lw_buf w))") (auto simp: go_index_byte_Some_iff write_string_def split: if_splits)

declare write_lines.simps [simp del]

definition logWriter_Write :: "(string \<Rightarrow> string \<Rightarrow> bool) \<Rightarrow> LogColors \<Rightarrow> string \<Rightarrow> logWriter \<Rightarrow> (nat \<times> bool) \<times> logWriter" where
  "logWriter_Write takes c p w =
     (let n = length p; (ok, w) = write_lines takes c (w\<lparr>lw_buf := lw_buf w @ p\<rparr>) in ((n, ok), w))"

definition logWriter_Flush :: "(string \<Rightarrow> string \<Rightarrow> bool) \<Rightarrow> LogColors \<Rightarrow> logWriter \<Rightarrow> bool \<times> logWriter" where
  "logWriter_Flush takes c w =
     (if length (lw_buf w) = 0 then (True, w)
      else write_string takes (formatLine c (lw_buf w) @ [newline]) (w\<lparr>lw_buf := []\<rparr>))"

section \<open>The formatter (\<open>logrus_formatter.go\<close>)\<close>

datatype log_level = PanicLevel | FatalLevel | ErrorLevel | WarnLevel | InfoLevel | DebugLevel | TraceLevel

definition tintLevel :: "log_level \<Rightarrow> string \<times> string" where
  "tintLevel level =
     (case level of
        TraceLevel \<Rightarrow> (''DBG'', []) | DebugLevel \<Rightarrow> (''DBG'', [])
      | InfoLevel \<Rightarrow> (''INF'', esc ''92'') | WarnLevel \<Rightarrow> (''WRN'', esc ''93'')
      | _ \<Rightarrow> (''ERR'', esc ''91''))"

text \<open>\<open>rune_ok\<close> is the size of the rune in front of a text that starts outside ASCII, when it is valid, printable and no space.\<close>

function tintNeedsQuoting_from :: "(string \<Rightarrow> nat option) \<Rightarrow> string \<Rightarrow> bool" where
  "tintNeedsQuoting_from rune_ok s =
     (case s of
        [] \<Rightarrow> False
      | b # rest \<Rightarrow>
          if b < CHR 0x80 then
            (if b \<in> set [CHR '' '', CHR ''='', CHR 0x22, CHR 0x5C, CHR 0x7F] \<or> b < CHR 0x20 then True
             else tintNeedsQuoting_from rune_ok rest)
          else (case rune_ok s of
               None \<Rightarrow> True
             | Some width \<Rightarrow> tintNeedsQuoting_from rune_ok (drop (max 1 width) s)))"
  by pat_completeness auto
termination by (relation "measure (\<lambda>(r, s). length s)") auto

declare tintNeedsQuoting_from.simps [simp del]

definition tintNeedsQuoting :: "(string \<Rightarrow> nat option) \<Rightarrow> string \<Rightarrow> bool" where
  "tintNeedsQuoting rune_ok s = (if length s = 0 then True else tintNeedsQuoting_from rune_ok s)"

definition appendFormattedValue :: "(string \<Rightarrow> nat option) \<Rightarrow> string \<Rightarrow> string" where
  "appendFormattedValue rune_ok s = (if tintNeedsQuoting rune_ok s then go_quote s else s)"

record log_entry =
  le_Time :: int
  le_Level :: log_level
  le_Message :: string
  le_Data :: "(string, string) gomap"

definition trim_newlines :: "string \<Rightarrow> string" where
  "trim_newlines s = rev (dropWhile (\<lambda>c. c = newline) (rev s))"

definition tint_paint :: "bool \<Rightarrow> string \<Rightarrow> string \<Rightarrow> string" where
  "tint_paint noColor color txt = (if \<not> noColor \<and> color \<noteq> [] then color @ txt @ esc ''0'' else txt)"

definition TintFormat :: "(string \<Rightarrow> string) \<Rightarrow> (int \<Rightarrow> string) \<Rightarrow> (string \<Rightarrow> nat option) \<Rightarrow> log_entry \<Rightarrow> string" where
  "TintFormat getenv layout rune_ok entry =
     (let noColor = getenv ''NO_COLOR'' \<noteq> []; (label, color) = tintLevel (le_Level entry);
          buf = tint_paint noColor (esc ''2'') (layout (le_Time entry)) @ '' '' @ tint_paint noColor color label @ '' ''
            @ trim_newlines (le_Message entry) @ '' ''
            @ concat (map (\<lambda>k. tint_paint noColor (esc ''2'') (k @ ''='')
                @ appendFormattedValue rune_ok (mget_or [] (le_Data entry) k) @ '' '') (sorted_keys (le_Data entry))) in
      butlast buf @ [newline])"

section \<open>Chunks make no difference\<close>

text \<open>The lines are the elements of the split at newlines, the last of which stays in the buffer.\<close>

lemma index_byte_parts:
  "go_index_byte s c = Some i \<Longrightarrow> s = take i s @ c # drop (Suc i) s \<and> c \<notin> set (take i s) \<and> i < length s"
  using id_take_nth_drop by (fastforce simp: go_index_byte_Some_iff)

lemma drain_split: "drain s = (butlast (go_split newline s), last (go_split newline s))"
proof (induction s rule: drain.induct)
  case (1 buf)
  show ?case
  proof (cases "go_index_byte buf newline")
    case None
    then have "newline \<notin> set buf" by (simp add: go_index_byte_None_iff)
    then show ?thesis using None by (simp add: drain.simps[of buf] go_split_single)
  next
    case (Some i)
    define a b where ab: "a = take i buf" "b = drop (Suc i) buf"
    have buf: "buf = a @ newline # b" "newline \<notin> set a" using index_byte_parts[OF Some] by (simp_all add: ab)
    have "take i buf = a" "drop (Suc i) buf = b" by (simp_all add: ab)
    then show ?thesis
      using 1[OF Some] Some go_split_append[OF buf(2), of b] buf(1)[symmetric] by (simp add: drain.simps[of buf])
  qed
qed

lemma drain_append:
  "drain (a @ b) = (let (la, r) = drain a; (lb, r') = drain (r @ b) in (la @ lb, r'))"
proof (induction a rule: drain.induct)
  case (1 a)
  show ?case
  proof (cases "go_index_byte a newline")
    case None
    then show ?thesis by (simp add: drain.simps[of a] Let_def split: prod.split)
  next
    case (Some i)
    have i: "i < length a" using Some by (auto simp: go_index_byte_Some_iff)
    have ab: "go_index_byte (a @ b) newline = Some i" using Some by (auto simp: go_index_byte_Some_iff nth_append)
    show ?thesis
      using 1[OF Some] i unfolding drain.simps[of "a @ b"] drain.simps[of a] ab Some
      by (simp add: case_prod_unfold Let_def)
  qed
qed

lemma drain_no_newline: "newline \<notin> set s \<Longrightarrow> drain s = ([], s)"
  by (simp add: drain_split go_split_single)

lemma drain_rest: "newline \<notin> set (snd (drain s))"
  using go_split_no_sep[OF last_in_set[OF go_split_ne]] by (simp add: drain_split)

lemma concat_drain: "concat (map (\<lambda>l. l @ [newline]) (fst (drain s))) @ snd (drain s) = s"
proof (induction s rule: drain.induct)
  case (1 buf)
  show ?case
  proof (cases "go_index_byte buf newline")
    case (Some i)
    define a b where ab: "a = take i buf" "b = drop (Suc i) buf"
    have buf: "buf = a @ newline # b" "newline \<notin> set a" using index_byte_parts[OF Some] by (simp_all add: ab)
    have "take i buf = a" "drop (Suc i) buf = b" by (simp_all add: ab)
    then show ?thesis
      using 1[OF Some] Some buf(1)[symmetric] by (simp add: drain.simps[of buf] case_prod_unfold Let_def)
  qed (simp add: drain.simps)
qed

text \<open>A run of writes to the buffers of several vertices.\<close>

definition run_writes :: "(string \<times> string) list \<Rightarrow> lineBuf \<Rightarrow> (string \<times> string) list \<times> lineBuf" where
  "run_writes ws lb =
     fold (\<lambda>(d, data) (out, lb). let (ls, lb) = lineBuf_write d data lb in (out @ map (Pair d) ls, lb)) ws ([], lb)"

definition written_to :: "string \<Rightarrow> (string \<times> string) list \<Rightarrow> string" where
  "written_to d ws = concat (map snd (filter (\<lambda>w. fst w = d) ws))"

lemma run_writes_vertex:
  "map snd (filter (\<lambda>l. fst l = d) (fst (run_writes ws lb))) = fst (drain (mget_or [] lb d @ written_to d ws))
     \<and> mget_or [] (snd (run_writes ws lb)) d = snd (drain (mget_or [] lb d @ written_to d ws))"
  if "newline \<notin> set (mget_or [] lb d)"
proof (induction ws rule: rev_induct)
  case Nil
  then show ?case using that by (simp add: run_writes_def written_to_def drain_no_newline)
next
  case (snoc w ws)
  obtain d' data where w: "w = (d', data)" by fastforce
  obtain out lb' where r: "run_writes ws lb = (out, lb')" by fastforce
  have step: "run_writes (ws @ [w]) lb = (let (ls, lb'') = lineBuf_write d' data lb' in (out @ map (Pair d') ls, lb''))"
    using r unfolding run_writes_def by (simp add: w)
  show ?case
  proof (cases "d' = d")
    case True
    have "written_to d (ws @ [w]) = written_to d ws @ data" using True by (simp add: written_to_def w)
    then have "drain (mget_or [] lb d @ written_to d (ws @ [w])) =
        (let (la, rest) = drain (mget_or [] lb d @ written_to d ws); (lb, rest') = drain (rest @ data) in (la @ lb, rest'))"
      using drain_append[of "mget_or [] lb d @ written_to d ws" data] by simp
    then show ?thesis
      using snoc True unfolding step lineBuf_write_def r by (simp add: case_prod_unfold Let_def comp_def)
  next
    case False
    then have "written_to d (ws @ [w]) = written_to d ws" by (simp add: written_to_def w)
    then show ?thesis
      using snoc False unfolding step lineBuf_write_def r by (simp add: case_prod_unfold Let_def comp_def)
  qed
qed

section \<open>Colours are transparent\<close>

text \<open>Leaving out the escape sequences of a text, from the escape to the next \<open>m\<close>.\<close>

fun strip_escapes :: "bool \<Rightarrow> string \<Rightarrow> string" where
  "strip_escapes inside [] = []"
| "strip_escapes inside (c # s) =
     (if inside then strip_escapes (c \<noteq> CHR ''m'') s
      else if c = CHR 0x1B then strip_escapes True s else c # strip_escapes False s)"

definition invisible :: "string \<Rightarrow> bool" where
  "invisible code \<longleftrightarrow> (\<forall>s. strip_escapes False (code @ s) = strip_escapes False s)"

lemma invisible_Nil [simp]: "invisible []"
  by (simp add: invisible_def)

lemma invisible_esc: "CHR ''m'' \<notin> set code \<Longrightarrow> invisible (esc code)"
proof -
  assume "CHR ''m'' \<notin> set code"
  then have "strip_escapes True (code @ CHR ''m'' # s) = strip_escapes False s" for s by (induction code) auto
  then show ?thesis by (simp add: invisible_def esc_def)
qed

lemma strip_plain: "CHR 0x1B \<notin> set x \<Longrightarrow> strip_escapes False (x @ s) = x @ strip_escapes False s"
  by (induction x) auto

definition invisible_colors :: "LogColors \<Rightarrow> bool" where
  "invisible_colors c \<longleftrightarrow> (\<forall>code \<in> {lc_Debug c, lc_Info c, lc_Warning c, lc_Error c, lc_Message c, lc_Gray c, lc_Reset c}. invisible code)"

lemma default_colors_invisible: "invisible_colors (DefaultLogColors getenv)"
  unfolding invisible_colors_def DefaultLogColors_def no_log_colors_def by (auto intro: invisible_esc)

lemma levelColor_invisible: "invisible_colors c \<Longrightarrow> invisible (levelColor c level)"
  by (simp add: levelColor_def invisible_colors_def)

lemma strip_writeColored:
  assumes "invisible color" and "invisible (lc_Reset c)" and "CHR 0x1B \<notin> set txt"
  shows "strip_escapes False (writeColored c color txt @ s) = txt @ strip_escapes False s"
  using assms by (auto simp: writeColored_def invisible_def strip_plain)

text \<open>The ends of a field lie in the text, so the slices of \<open>formatLine\<close> never panic.\<close>

lemma closing_quote_bounds: "closing_quote s i = Some j \<Longrightarrow> i \<le> j \<and> j < length s"
proof (induction s i rule: closing_quote.induct)
  case (1 s i)
  show ?case
    using 1(3) 1(1,2) by (subst (asm) closing_quote.simps) (auto split: if_splits)
qed

lemma extractField_bounds:
  assumes "extractField s pre = Some (v, i, j)"
  shows "s = take i s @ pre @ drop (i + length pre) s" and "i + length pre \<le> j" and "j \<le> length s"
proof -
  obtain idx where idx: "go_index s pre = Some idx" using assms by (auto simp: extractField_def split: option.splits)
  have i: "i = idx" using assms idx by (auto simp: extractField_def Let_def split: if_splits option.splits)
  have s: "s = take idx s @ pre @ drop (idx + length pre) s" and len: "idx + length pre \<le> length s"
    using go_index_SomeD[OF idx] by (auto simp: prefix_def add.commute) (metis append_eq_conv_conj append_take_drop_id drop_drop add.commute)
  show "s = take i s @ pre @ drop (i + length pre) s" using s i by simp
  show "i + length pre \<le> j" "j \<le> length s"
    using assms idx len
    by (auto simp: extractField_def Let_def go_index_byte_Some_iff dest!: closing_quote_bounds split: if_splits option.splits)
qed

lemma slice_drop: "i \<le> j \<Longrightarrow> go_slice i j s @ drop j s = drop i s"
proof -
  assume "i \<le> j"
  then have "drop (j - i) (drop i s) = drop j s" by simp
  then show ?thesis unfolding go_slice_def drop_take by (metis append_take_drop_id)
qed

lemma slice_parts: "i \<le> j \<Longrightarrow> take i s @ go_slice i j s @ drop j s = s"
  by (simp add: slice_drop)

lemma strip_formatLine:
  assumes c: "invisible_colors c" and line: "CHR 0x1B \<notin> set line"
  shows "strip_escapes False (formatLine c line @ s) = line @ strip_escapes False s"
proof (cases "lc_Reset c = [] \<or> extractField line ''level='' = None")
  case True
  then have "formatLine c line = line" by (auto simp: formatLine_def)
  then show ?thesis using strip_plain[OF line] by simp
next
  case False
  then obtain level i j where l: "extractField line ''level='' = Some (level, i, j)" and r: "lc_Reset c \<noteq> []" by auto
  note b = extractField_bounds[OF l]
  let ?rest = "drop j line"
  have parts: "take i line @ go_slice i j line @ ?rest = line" using b(2) by (intro slice_parts) simp
  have plain: "CHR 0x1B \<notin> set x" if "set x \<subseteq> set line" for x using line that by blast
  have sub: "set (take n x) \<subseteq> set x" "set (drop n x) \<subseteq> set x" "set (go_slice m n x) \<subseteq> set x" for m n x
    unfolding go_slice_def using set_take_subset set_drop_subset by (fastforce dest: in_set_takeD in_set_dropD)+
  have colors: "invisible (lc_Gray c)" "invisible (lc_Message c)" "invisible (lc_Reset c)" "invisible (levelColor c level)"
    using c levelColor_invisible[OF c] by (simp_all add: invisible_colors_def)
  note w = strip_writeColored[OF colors(1) colors(3)] strip_writeColored[OF colors(2) colors(3)] strip_writeColored[OF colors(4) colors(3)]
  have front: "strip_escapes False (writeColored c (lc_Gray c) (take i line) @ writeColored c (levelColor c level) (go_slice i j line) @ t)
      = take i line @ go_slice i j line @ strip_escapes False t" for t
    using plain sub by (simp add: w)
  have behind: "strip_escapes False ((case extractField ?rest ''msg='' of
             None \<Rightarrow> writeColored c (lc_Gray c) ?rest
           | Some (_, msgIdx, msgEnd) \<Rightarrow>
               writeColored c (lc_Gray c) (take msgIdx ?rest) @ writeColored c (lc_Gray c) ''msg=''
               @ writeColored c (lc_Message c) (go_slice (msgIdx + length ''msg='') msgEnd ?rest)
               @ (if msgEnd < length ?rest then writeColored c (lc_Gray c) (drop msgEnd ?rest) else [])) @ s) = ?rest @ strip_escapes False s"
  proof (cases "extractField ?rest ''msg=''")
    case None
    then show ?thesis using plain[OF sub(2)] by (simp add: w)
  next
    case (Some f)
    obtain v k m where f: "f = (v, k, m)" by (cases f)
    note e = extractField_bounds[OF Some[unfolded f]]
    have "go_slice (k + length ''msg='') m ?rest @ drop m ?rest = drop (k + length ''msg='') ?rest"
      by (rule slice_drop[OF e(2)])
    then have "(take k ?rest @ ''msg='' @ go_slice (k + length ''msg='') m ?rest @ drop m ?rest) @ t = ?rest @ t" for t
      using e(1) by (simp only: append_assoc)
    moreover have "CHR 0x1B \<notin> set x" if "set x \<subseteq> set ?rest" for x using plain sub(2) that by blast
    note p = this[OF sub(1)] this[OF sub(2)] this[OF sub(3)]
    have "strip_escapes False (writeColored c (lc_Gray c) (take k ?rest) @ writeColored c (lc_Gray c) ''msg=''
        @ writeColored c (lc_Message c) (go_slice (k + length ''msg='') m ?rest)
        @ (if m < length ?rest then writeColored c (lc_Gray c) (drop m ?rest) else []) @ s)
      = take k ?rest @ ''msg='' @ go_slice (k + length ''msg='') m ?rest @ drop m ?rest @ strip_escapes False s"
      using p by (simp add: w)
    ultimately show ?thesis unfolding Some f by (simp only: option.case prod.case append_assoc)
  qed
  show ?thesis
    unfolding formatLine_def l Let_def using r parts behind front
    by (cases "extractField ?rest ''msg=''") (auto simp: split_beta simp del: strip_escapes.simps)
qed

section \<open>A log, written in chunks\<close>

definition accepts_all :: "string \<Rightarrow> string \<Rightarrow> bool" where "accepts_all out x = True"

definition log_lines :: "LogColors \<Rightarrow> string list \<Rightarrow> string" where
  "log_lines c ls = concat (map (\<lambda>l. formatLine c l @ [newline]) ls)"

lemma write_lines_drain:
  "write_lines accepts_all c w =
    (True, w\<lparr>lw_buf := snd (drain (lw_buf w)), lw_out := lw_out w @ log_lines c (fst (drain (lw_buf w)))\<rparr>)"
proof (induction "length (lw_buf w)" arbitrary: w rule: less_induct)
  case less
  show ?case
  proof (cases "go_index_byte (lw_buf w) newline")
    case None
    then show ?thesis
      by (simp add: write_lines.simps[of accepts_all c w] drain.simps[of "lw_buf w"] log_lines_def)
  next
    case (Some i)
    let ?w = "w\<lparr>lw_buf := drop (Suc i) (lw_buf w), lw_out := lw_out w @ formatLine c (take i (lw_buf w)) @ [newline]\<rparr>"
    have "length (lw_buf ?w) < length (lw_buf w)" using conjunct2[OF conjunct2[OF index_byte_parts[OF Some]]] by simp
    from less[OF this] show ?thesis
      using Some
      by (simp add: write_lines.simps[of accepts_all c w] drain.simps[of "lw_buf w"] write_string_def accepts_all_def
          log_lines_def case_prod_unfold Let_def)
  qed
qed

definition write_log :: "(string \<Rightarrow> string \<Rightarrow> bool) \<Rightarrow> LogColors \<Rightarrow> string list \<Rightarrow> logWriter \<Rightarrow> logWriter" where
  "write_log takes c chunks w = snd (logWriter_Flush takes c (fold (\<lambda>p w. snd (logWriter_Write takes c p w)) chunks w))"

definition open_log :: logWriter where "open_log = \<lparr>lw_buf = [], lw_out = []\<rparr>"

lemma written_chunks:
  "fold (\<lambda>p w. snd (logWriter_Write accepts_all c p w)) chunks open_log =
    \<lparr>lw_buf = snd (drain (concat chunks)), lw_out = log_lines c (fst (drain (concat chunks)))\<rparr>"
proof (induction chunks rule: rev_induct)
  case Nil
  then show ?case by (simp add: open_log_def drain_no_newline log_lines_def)
next
  case (snoc p chunks)
  have "drain (concat (chunks @ [p])) =
      (let (la, r) = drain (concat chunks); (lb, r') = drain (r @ p) in (la @ lb, r'))"
    using drain_append[of "concat chunks" p] by simp
  then show ?case
    using snoc by (simp add: logWriter_Write_def write_lines_drain log_lines_def case_prod_unfold Let_def)
qed

definition text_lines :: "string \<Rightarrow> string list" where
  "text_lines x = (let (ls, rest) = drain x in if rest = [] then ls else ls @ [rest])"

lemma write_log_lines: "lw_out (write_log accepts_all c chunks open_log) = log_lines c (text_lines (concat chunks))"
  unfolding write_log_def written_chunks
  by (simp add: logWriter_Flush_def write_string_def accepts_all_def text_lines_def log_lines_def case_prod_unfold Let_def)

lemma strip_log_lines:
  assumes "invisible_colors c" and "\<forall>l \<in> set ls. CHR 0x1B \<notin> set l"
  shows "strip_escapes False (log_lines c ls) = concat (map (\<lambda>l. l @ [newline]) ls)"
  using assms(2) by (induction ls) (simp_all add: log_lines_def strip_formatLine[OF assms(1)] newline_def)

lemma set_text_lines: "l \<in> set (text_lines x) \<Longrightarrow> set l \<subseteq> set x"
proof -
  assume l: "l \<in> set (text_lines x)"
  have "set l \<subseteq> set (concat (map (\<lambda>l. l @ [newline]) (fst (drain x))) @ snd (drain x))"
    using l unfolding text_lines_def by (auto simp: case_prod_unfold Let_def split: if_splits)
  then show ?thesis unfolding concat_drain .
qed

lemma concat_text_lines:
  "concat (map (\<lambda>l. l @ [newline]) (text_lines x)) = (if x = [] \<or> last x = newline then x else x @ [newline])"
proof -
  obtain ls rest where d: "drain x = (ls, rest)" by fastforce
  have x: "concat (map (\<lambda>l. l @ [newline]) ls) @ rest = x" using concat_drain[of x] d by simp
  have nn: "newline \<notin> set rest" using drain_rest[of x] d by simp
  have ls: "ls = [] \<or> concat (map (\<lambda>l. l @ [newline]) ls) \<noteq> [] \<and> last (concat (map (\<lambda>l. l @ [newline]) ls)) = newline"
    by (cases ls rule: rev_cases) auto
  show ?thesis
  proof (cases "rest = []")
    case True
    then have xl: "concat (map (\<lambda>l. l @ [newline]) ls) = x" using x by simp
    have "text_lines x = ls" using True by (simp add: text_lines_def d)
    then have "concat (map (\<lambda>l. l @ [newline]) (text_lines x)) = x" using xl by simp
    then show ?thesis using ls unfolding xl using xl by (cases "ls = []") simp_all
  next
    case False
    then have "last x = last rest" "x \<noteq> []" using x by auto
    then have "last x \<noteq> newline" using False nn by (metis last_in_set)
    moreover have "text_lines x = ls @ [rest]" using False by (simp add: text_lines_def d)
    ultimately show ?thesis using x \<open>x \<noteq> []\<close> by auto
  qed
qed

text \<open>
  C30. The coloured log.  However a log is cut into writes, what comes out is its lines, each coloured and ended by a newline.  And colouring
  loses nothing: leaving the escape sequences out gives the log back, ended by a newline if it was not.
\<close>

theorem coloured_log_stripped:
  assumes "invisible_colors c" and "CHR 0x1B \<notin> set (concat chunks)"
  shows "lw_out (write_log accepts_all c chunks open_log) = log_lines c (text_lines (concat chunks))
    \<and> strip_escapes False (lw_out (write_log accepts_all c chunks open_log)) =
       (if concat chunks = [] \<or> last (concat chunks) = newline then concat chunks else concat chunks @ [newline])"
proof -
  have "\<forall>l \<in> set (text_lines (concat chunks)). CHR 0x1B \<notin> set l" using assms(2) set_text_lines by blast
  then show ?thesis
    unfolding write_log_lines using strip_log_lines[OF assms(1)] concat_text_lines by simp
qed

definition demo_log :: "string list" where
  "demo_log = [''time=1 lev'', ''el=info msg=up'' @ [newline] @ ''level='', ''warn a=1'']"

theorem coloured_log_stripped_witness:
  "strip_escapes False (lw_out (write_log accepts_all (DefaultLogColors (\<lambda>_. [])) demo_log open_log))
   = ''time=1 level=info msg=up'' @ [newline] @ ''level=warn a=1'' @ [newline]"
proof -
  have "CHR 0x1B \<notin> set (concat demo_log)" by (simp add: demo_log_def newline_def)
  note h = conjunct2[OF coloured_log_stripped[OF default_colors_invisible[of "\<lambda>_. []"] this]]
  have "(if concat demo_log = [] \<or> last (concat demo_log) = newline then concat demo_log else concat demo_log @ [newline])
      = ''time=1 level=info msg=up'' @ [newline] @ ''level=warn a=1'' @ [newline]"
    by (simp add: demo_log_def newline_def)
  then show ?thesis by (rule trans[OF h])
qed

text \<open>And the colours are there.\<close>

lemma coloured_example:
  "formatLine (DefaultLogColors (\<lambda>_. [])) ''level=warn msg=a'' =
    esc ''33'' @ ''level=warn'' @ esc ''0'' @ esc ''2'' @ '' '' @ esc ''0'' @ esc ''2'' @ ''msg='' @ esc ''0'' @ esc ''37;1'' @ ''a'' @ esc ''0''"
  by code_simp

section \<open>Formatted values\<close>

lemma unquoted_value:
  assumes "\<not> tintNeedsQuoting rune_ok s" and "\<forall>c \<in> set s. c < CHR 0x80"
  shows "s \<noteq> [] \<and> (\<forall>c \<in> set s. c \<notin> set '' ='' \<and> c \<noteq> CHR 0x22 \<and> c \<noteq> CHR 0x5C \<and> c \<noteq> newline)"
proof -
  have "\<not> tintNeedsQuoting_from rune_ok s \<Longrightarrow> \<forall>c \<in> set s. c < CHR 0x80 \<Longrightarrow>
      \<forall>c \<in> set s. c \<notin> set '' ='' \<and> c \<noteq> CHR 0x22 \<and> c \<noteq> CHR 0x5C \<and> \<not> c < CHR 0x20"
  proof (induction s)
    case (Cons b s)
    then show ?case
      using tintNeedsQuoting_from.simps[of rune_ok "b # s"] by (auto split: if_splits)
  qed simp
  moreover have "newline < CHR 0x20" by (simp add: newline_def less_char_def)
  ultimately show ?thesis using assms by (auto simp: tintNeedsQuoting_def split: if_splits)
qed

end
