(* ===== verification/Build_Display.thy ===== *)
theory Build_Display
  imports Line_Output
begin

text \<open>
  The displays of a running build (\<open>pkg/progress\<close>): the vertices of a build and their numbers, the linear and the interactive display, and the
  loop that feeds them the status updates of BuildKit.  A display is a function from its state and an update to its new state; every write
  is recorded with what it is about.  The clock, which reads the same during an update, and the verb \<open>%.1f\<close> on seconds are parameters.
\<close>

section \<open>Status updates of BuildKit\<close>

record Vertex =
  vx_Digest :: string
  vx_Name :: string
  vx_Started :: "int option"
  vx_Completed :: "int option"
  vx_Cached :: bool
  vx_Error :: string

record VertexStatus =
  vs_ID :: string
  vs_Vertex :: string
  vs_StatusName :: string
  vs_Started :: "int option"
  vs_Completed :: "int option"

record VertexLog =
  vl_Vertex :: string
  vl_Data :: string

record VertexWarning =
  vw_Vertex :: string
  vw_Short :: string

record SolveStatus =
  ss_Vertexes :: "Vertex list"
  ss_Statuses :: "VertexStatus list"
  ss_Logs :: "VertexLog list"
  ss_Warnings :: "VertexWarning list"

section \<open>The tracker (\<open>state.go\<close>)\<close>

record vertexState =
  vt_index :: nat
  vt_name :: string
  vt_started :: "int option"
  vt_completed :: "int option"
  vt_cached :: bool
  vt_err :: string

record tracker =
  tk_vertices :: "(string, vertexState) gomap"
  tk_order :: "string list"
  tk_nextIdx :: nat

definition newTracker :: tracker where
  "newTracker = \<lparr>tk_vertices = [], tk_order = [], tk_nextIdx = 0\<rparr>"

definition elapsed :: "(int \<Rightarrow> string) \<Rightarrow> int \<Rightarrow> vertexState \<Rightarrow> string" where
  "elapsed secs now v =
     (case vt_started v of
        None \<Rightarrow> []
      | Some started \<Rightarrow> secs ((case vt_completed v of Some t \<Rightarrow> t | None \<Rightarrow> now) - started) @ ''s'')"

definition apply_vertex :: "Vertex \<Rightarrow> tracker \<Rightarrow> tracker" where
  "apply_vertex v t =
     (let (state, t) = (case mget (tk_vertices t) (vx_Digest v) of
            Some state \<Rightarrow> (state, t)
          | None \<Rightarrow>
              (\<lparr>vt_index = tk_nextIdx t + 1, vt_name = vx_Name v, vt_started = None, vt_completed = None, vt_cached = False, vt_err = []\<rparr>,
               t\<lparr>tk_nextIdx := tk_nextIdx t + 1, tk_order := tk_order t @ [vx_Digest v]\<rparr>));
          state = state\<lparr>vt_started := vx_Started v, vt_completed := vx_Completed v, vt_cached := vx_Cached v\<rparr>;
          state = (if vx_Error v \<noteq> [] then state\<lparr>vt_err := vx_Error v\<rparr> else state) in
      t\<lparr>tk_vertices := mput (vx_Digest v) state (tk_vertices t)\<rparr>)"

definition apply_status :: "SolveStatus \<Rightarrow> tracker \<Rightarrow> tracker" where
  "apply_status ss t = fold apply_vertex (ss_Vertexes ss) t"

definition running :: "tracker \<Rightarrow> vertexState list" where
  "running t =
     List.map_filter (\<lambda>d. case mget (tk_vertices t) d of
         Some v \<Rightarrow> if vt_started v \<noteq> None \<and> vt_completed v = None then Some v else None
       | None \<Rightarrow> None) (tk_order t)"

section \<open>Colours (\<open>progress.go\<close>)\<close>

record Colors =
  co_Running :: string
  co_Done :: string
  co_Cached :: string
  co_Warning :: string
  co_Error :: string
  co_Log :: string
  co_Stage :: string
  co_Index :: string
  co_Elapsed :: string
  co_Reset :: string

definition no_colors :: Colors where
  "no_colors = \<lparr>co_Running = [], co_Done = [], co_Cached = [], co_Warning = [], co_Error = [], co_Log = [], co_Stage = [],
     co_Index = [], co_Elapsed = [], co_Reset = []\<rparr>"

definition DefaultColors :: Colors where
  "DefaultColors = \<lparr>co_Running = esc ''34;1'', co_Done = esc ''32'', co_Cached = esc ''92'', co_Warning = esc ''33'', co_Error = esc ''31'',
     co_Log = esc ''2'', co_Stage = esc ''36'', co_Index = esc ''2'', co_Elapsed = esc ''2'', co_Reset = esc ''0''\<rparr>"

definition paint :: "Colors \<Rightarrow> string \<Rightarrow> string \<Rightarrow> string" where
  "paint c code txt = (if code = [] \<or> co_Reset c = [] then txt else code @ txt @ co_Reset c)"

definition colorName :: "Colors \<Rightarrow> string \<Rightarrow> string" where
  "colorName c name =
     (if co_Stage c = [] \<or> co_Reset c = [] then name
      else if length name = 0 \<or> hd name \<noteq> CHR ''['' then name
      else case go_index name ''] '' of
        None \<Rightarrow> name
      | Some stop \<Rightarrow> co_Stage c @ take (stop + 1) name @ co_Reset c @ drop (stop + 1) name)"

definition sign_cross :: string where "sign_cross = [CHR 0xE2, CHR 0x9C, CHR 0x97]"
definition sign_arrow :: string where "sign_arrow = [CHR 0xE2, CHR 0x86, CHR 0x92]"
definition sign_check :: string where "sign_check = [CHR 0xE2, CHR 0x9C, CHR 0x93]"
definition sign_warning :: string where "sign_warning = [CHR 0xE2, CHR 0x9A, CHR 0xA0]"

section \<open>Writes\<close>

text \<open>What a write is about: a vertex that started or finished, by its number, a status, a log line, a warning, or the end of a log.\<close>

datatype event =
    Started nat | Finished nat | StatusOf string | LogLine string string | WarningOf string | LogEnd string

record env =
  en_colors :: Colors
  en_secs :: "int \<Rightarrow> string"

definition index_text :: "nat \<Rightarrow> string" where "index_text i = ''#'' @ go_itoa i"

definition logPrefix :: "vertexState option \<Rightarrow> string" where
  "logPrefix v = (case v of None \<Rightarrow> [] | Some v \<Rightarrow> index_text (vt_index v) @ '' | '')"

text \<open>Log lines and flushes, which both displays write alike.\<close>

definition log_write :: "Colors \<Rightarrow> tracker \<Rightarrow> string \<times> string \<Rightarrow> event \<times> string" where
  "log_write c t l =
     (LogLine (fst l) (snd l),
      ''      '' @ paint c (co_Log c) (logPrefix (mget (tk_vertices t) (fst l)) @ snd l) @ nl)"

definition log_data :: "SolveStatus \<Rightarrow> (string \<times> string) list" where
  "log_data ss = map (\<lambda>l. (vl_Vertex l, vl_Data l)) (ss_Logs ss)"

definition flush_step :: "string \<Rightarrow> lineBuf \<times> (event \<times> string) list \<Rightarrow> lineBuf \<times> (event \<times> string) list" where
  "flush_step dig s =
     (let (lb, out) = s; (r, lb) = flushRemaining dig lb in
      (lb, case r of None \<Rightarrow> out | Some b \<Rightarrow> out @ [(LogEnd dig, b)]))"

section \<open>The linear display (\<open>linear.go\<close>)\<close>

record linearDisplay =
  li_t :: tracker
  li_lb :: lineBuf
  li_seenStatus :: "(string, bool) gomap"
  li_seenStatusDone :: "(string, bool) gomap"
  li_out :: "(event \<times> string) list"

definition newLinearDisplay :: linearDisplay where
  "newLinearDisplay = \<lparr>li_t = newTracker, li_lb = [], li_seenStatus = [], li_seenStatusDone = [], li_out = []\<rparr>"

definition linear_vertex :: "env \<Rightarrow> int \<Rightarrow> tracker \<Rightarrow> Vertex \<Rightarrow> (event \<times> string) list" where
  "linear_vertex e now t bv =
     (let c = en_colors e in
      case mget (tk_vertices t) (vx_Digest bv) of
        None \<Rightarrow> []
      | Some v \<Rightarrow>
          let idx = paint c (co_Index c) (index_text (vt_index v)) in
          if vx_Error bv \<noteq> [] then
            [(Finished (vt_index v), paint c (co_Error c) sign_cross @ '' '' @ idx @ '' ''
               @ paint c (co_Error c) (''ERROR: '' @ go_trim_space (vx_Error bv)) @ nl)]
          else if vx_Completed bv \<noteq> None \<and> vx_Cached bv then
            [(Finished (vt_index v), paint c (co_Cached c) sign_arrow @ '' '' @ idx @ '' '' @ colorName c (vt_name v) @ ''  ''
               @ paint c (co_Cached c) ''CACHED'' @ nl)]
          else if vx_Completed bv \<noteq> None then
            [(Finished (vt_index v), paint c (co_Done c) sign_check @ '' '' @ idx @ '' '' @ colorName c (vt_name v) @ ''  ''
               @ paint c (co_Done c) ''DONE'' @ '' '' @ paint c (co_Elapsed c) (elapsed (en_secs e) now v) @ nl)]
          else if vx_Started bv \<noteq> None then
            [(Started (vt_index v), paint c (co_Running c) sign_arrow @ '' '' @ idx @ '' '' @ colorName c (vt_name v) @ nl)]
          else [])"

text \<open>The time a status took, as both displays write it.\<close>

definition status_elapsed :: "env \<Rightarrow> VertexStatus \<Rightarrow> int \<Rightarrow> string" where
  "status_elapsed e s completed =
     (case vs_Started s of
        None \<Rightarrow> []
      | Some started \<Rightarrow> '' '' @ paint (en_colors e) (co_Elapsed (en_colors e)) (en_secs e (completed - started) @ ''s''))"

definition linear_status :: "env \<Rightarrow> VertexStatus \<Rightarrow> linearDisplay \<Rightarrow> linearDisplay" where
  "linear_status e s d =
     (let c = en_colors e; pre = logPrefix (mget (tk_vertices (li_t d)) (vs_Vertex s)) in
      case vs_Completed s of
        Some completed \<Rightarrow>
          if mget_or False (li_seenStatusDone d) (vs_ID s) then d
          else d\<lparr>li_seenStatusDone := mput (vs_ID s) True (li_seenStatusDone d),
                 li_out := li_out d @ [(StatusOf (vs_ID s), ''      '' @ paint c (co_Log c) pre @ paint c (co_Log c) (vs_StatusName s)
                   @ status_elapsed e s completed @ '' '' @ paint c (co_Done c) ''done'' @ nl)]\<rparr>
      | None \<Rightarrow>
          if mget_or False (li_seenStatus d) (vs_ID s) then d
          else d\<lparr>li_seenStatus := mput (vs_ID s) True (li_seenStatus d),
                 li_out := li_out d @ [(StatusOf (vs_ID s), ''      '' @ paint c (co_Log c) (pre @ vs_StatusName s) @ nl)]\<rparr>)"

definition warning_prefix :: "tracker \<Rightarrow> VertexWarning \<Rightarrow> string" where
  "warning_prefix t w = (case mget (tk_vertices t) (vw_Vertex w) of None \<Rightarrow> [] | Some v \<Rightarrow> index_text (vt_index v) @ '' '')"

definition linear_warning :: "Colors \<Rightarrow> tracker \<Rightarrow> VertexWarning \<Rightarrow> event \<times> string" where
  "linear_warning c t w =
     (WarningOf (vw_Vertex w), paint c (co_Warning c) sign_warning @ '' '' @ warning_prefix t w @ paint c (co_Warning c) (vw_Short w) @ nl)"

definition linear_update :: "env \<Rightarrow> int \<Rightarrow> SolveStatus \<Rightarrow> linearDisplay \<Rightarrow> linearDisplay" where
  "linear_update e now ss d =
     (let d = d\<lparr>li_t := apply_status ss (li_t d)\<rparr>; t = li_t d;
          d = d\<lparr>li_out := li_out d @ concat (map (linear_vertex e now t) (ss_Vertexes ss))\<rparr>;
          d = fold (linear_status e) (ss_Statuses ss) d;
          (ls, lb) = run_writes (log_data ss) (li_lb d);
          d = d\<lparr>li_lb := lb, li_out := li_out d @ map (log_write (en_colors e) t) ls\<rparr> in
      d\<lparr>li_out := li_out d @ map (linear_warning (en_colors e) t) (ss_Warnings ss)\<rparr>)"

definition linear_done :: "linearDisplay \<Rightarrow> linearDisplay" where
  "linear_done d =
     (let (lb, out) = fold flush_step (tk_order (li_t d)) (li_lb d, li_out d) in d\<lparr>li_lb := lb, li_out := out\<rparr>)"

section \<open>The interactive display (\<open>interactive.go\<close>)\<close>

record interactiveDisplay =
  ia_t :: tracker
  ia_lb :: lineBuf
  ia_seenStarted :: "(nat, bool) gomap"
  ia_seenDone :: "(nat, bool) gomap"
  ia_seenStatus :: "(string, bool) gomap"
  ia_seenStatusDone :: "(string, bool) gomap"
  ia_out :: "(event \<times> string) list"

definition newInteractiveDisplay :: interactiveDisplay where
  "newInteractiveDisplay = \<lparr>ia_t = newTracker, ia_lb = [], ia_seenStarted = [], ia_seenDone = [], ia_seenStatus = [],
     ia_seenStatusDone = [], ia_out = []\<rparr>"

definition printDoneLine :: "env \<Rightarrow> int \<Rightarrow> vertexState \<Rightarrow> bool \<Rightarrow> string \<Rightarrow> event \<times> string" where
  "printDoneLine e now v cached errMsg =
     (let c = en_colors e; idx = paint c (co_Index c) (index_text (vt_index v)) in
      (Finished (vt_index v),
       if errMsg \<noteq> [] then ''  '' @ paint c (co_Error c) sign_cross @ '' '' @ idx @ '' ''
         @ paint c (co_Error c) (vt_name v @ ''  ERROR: '' @ go_trim_space errMsg) @ nl
       else if cached then ''  '' @ paint c (co_Cached c) sign_arrow @ '' '' @ idx @ '' '' @ paint c (co_Cached c) ''CACHED'' @ nl
       else ''  '' @ paint c (co_Done c) sign_check @ '' '' @ idx @ '' '' @ paint c (co_Done c) ''DONE'' @ '' ''
         @ paint c (co_Elapsed c) (elapsed (en_secs e) now v) @ nl))"

text \<open>The first loop: vertices that started; the lists of entries and the set of those seen.\<close>

definition collect_started :: "tracker \<Rightarrow> Vertex \<Rightarrow> vertexState list \<times> (nat, bool) gomap \<Rightarrow> vertexState list \<times> (nat, bool) gomap" where
  "collect_started t bv s =
     (let (started, seen) = s in
      case mget (tk_vertices t) (vx_Digest bv) of
        None \<Rightarrow> s
      | Some v \<Rightarrow>
          if mget_or False seen (vt_index v) then s
          else if vx_Started bv \<noteq> None then (started @ [v], mput (vt_index v) True seen) else s)"

text \<open>The second loop: vertices that completed, and a header for those that have none.\<close>

definition collect_completed ::
  "tracker \<Rightarrow> Vertex
   \<Rightarrow> (vertexState \<times> bool \<times> string) list \<times> (nat, bool) gomap \<times> vertexState list \<times> (nat, bool) gomap
   \<Rightarrow> (vertexState \<times> bool \<times> string) list \<times> (nat, bool) gomap \<times> vertexState list \<times> (nat, bool) gomap" where
  "collect_completed t bv s =
     (let (completed, seenDone, started, seen) = s in
      case mget (tk_vertices t) (vx_Digest bv) of
        None \<Rightarrow> s
      | Some v \<Rightarrow>
          if mget_or False seenDone (vt_index v) then s
          else if vx_Completed bv \<noteq> None then
            let (started, seen) = (if \<not> mget_or False seen (vt_index v) then (started @ [v], mput (vt_index v) True seen) else (started, seen)) in
            (completed @ [(v, vx_Cached bv, vx_Error bv)], mput (vt_index v) True seenDone, started, seen)
          else s)"

definition collect_status ::
  "env \<Rightarrow> tracker \<Rightarrow> VertexStatus
   \<Rightarrow> (string \<times> string \<times> string) list \<times> (string, bool) gomap \<times> (string, bool) gomap
   \<Rightarrow> (string \<times> string \<times> string) list \<times> (string, bool) gomap \<times> (string, bool) gomap" where
  "collect_status e t s st =
     (let (statusLines, seen, seenDone) = st; c = en_colors e; pre = logPrefix (mget (tk_vertices t) (vs_Vertex s)) in
      case vs_Completed s of
        Some completed \<Rightarrow>
          if mget_or False seenDone (vs_ID s) then st
          else (statusLines @ [(vs_ID s, pre, vs_StatusName s @ status_elapsed e s completed @ '' '' @ paint c (co_Done c) ''done'')],
                seen, mput (vs_ID s) True seenDone)
      | None \<Rightarrow>
          if mget_or False seen (vs_ID s) then st
          else (statusLines @ [(vs_ID s, pre, vs_StatusName s)], mput (vs_ID s) True seen, seenDone))"

definition header_write :: "Colors \<Rightarrow> vertexState \<Rightarrow> event \<times> string" where
  "header_write c v =
     (Started (vt_index v), ''  '' @ paint c (co_Running c) sign_arrow @ '' '' @ paint c (co_Index c) (index_text (vt_index v)) @ '' ''
        @ colorName c (vt_name v) @ nl)"

definition interactive_update :: "env \<Rightarrow> int \<Rightarrow> SolveStatus \<Rightarrow> interactiveDisplay \<Rightarrow> interactiveDisplay" where
  "interactive_update e now ss d =
     (let c = en_colors e; t = apply_status ss (ia_t d);
          (started, seenStarted) = fold (collect_started t) (ss_Vertexes ss) ([], ia_seenStarted d);
          (completed, seenDone, started, seenStarted) =
            fold (collect_completed t) (ss_Vertexes ss) ([], ia_seenDone d, started, seenStarted);
          (statusLines, seenStatus, seenStatusDone) =
            fold (collect_status e t) (ss_Statuses ss) ([], ia_seenStatus d, ia_seenStatusDone d);
          (logLines, lb) = run_writes (log_data ss) (ia_lb d);
          d = d\<lparr>ia_t := t, ia_lb := lb, ia_seenStarted := seenStarted, ia_seenDone := seenDone, ia_seenStatus := seenStatus,
                ia_seenStatusDone := seenStatusDone\<rparr> in
      if started = [] \<and> completed = [] \<and> statusLines = [] \<and> logLines = [] \<and> ss_Warnings ss = [] then d
      else d\<lparr>ia_out := ia_out d
          @ map (header_write c) started
          @ map (\<lambda>(id', pre, x). (StatusOf id', ''      '' @ paint c (co_Log c) pre @ paint c (co_Log c) x @ nl)) statusLines
          @ map (log_write c t) logLines
          @ map (\<lambda>w. (WarningOf (vw_Vertex w), ''  '' @ paint c (co_Warning c) sign_warning @ '' '' @ warning_prefix t w
               @ paint c (co_Warning c) (vw_Short w) @ nl)) (ss_Warnings ss)
          @ map (\<lambda>(v, cached, err). printDoneLine e now v cached err) completed\<rparr>)"

definition finish_running :: "env \<Rightarrow> int \<Rightarrow> vertexState \<Rightarrow> interactiveDisplay \<Rightarrow> interactiveDisplay" where
  "finish_running e now v d =
     (if mget_or False (ia_seenDone d) (vt_index v) then d
      else d\<lparr>ia_out := ia_out d @ [printDoneLine e now v False []], ia_seenDone := mput (vt_index v) True (ia_seenDone d)\<rparr>)"

definition interactive_done :: "env \<Rightarrow> int \<Rightarrow> interactiveDisplay \<Rightarrow> interactiveDisplay" where
  "interactive_done e now d =
     (let (lb, out) = fold flush_step (tk_order (ia_t d)) (ia_lb d, ia_out d) in
      fold (finish_running e now) (running (ia_t d)) (d\<lparr>ia_lb := lb, ia_out := out\<rparr>))"

section \<open>Running a display\<close>

definition runDisplay :: "('u \<Rightarrow> 's \<Rightarrow> 's) \<Rightarrow> ('s \<Rightarrow> 's) \<Rightarrow> 'u list \<Rightarrow> 's \<Rightarrow> 's" where
  "runDisplay update finish ch d = finish (fold update ch d)"

datatype DisplayMode = AutoMode | InteractiveMode | LinearMode

record Config =
  cf_Mode :: DisplayMode
  cf_Colors :: Colors
  cf_NoColor :: bool

text \<open>The handler for updates, each with the time it comes in, and all it writes.\<close>

definition NewHandler :: "(int \<Rightarrow> string) \<Rightarrow> Config \<Rightarrow> bool \<Rightarrow> int \<Rightarrow> (int \<times> SolveStatus) list \<Rightarrow> (event \<times> string) list" where
  "NewHandler secs cfg isTTY end_time ch =
     (let colors = (if cf_NoColor cfg then no_colors else cf_Colors cfg);
          mode = (if cf_Mode cfg = AutoMode then (if isTTY then InteractiveMode else LinearMode) else cf_Mode cfg);
          e = \<lparr>en_colors = colors, en_secs = secs\<rparr> in
      if mode = InteractiveMode
      then ia_out (runDisplay (\<lambda>(now, ss). interactive_update e now ss) (interactive_done e end_time) ch newInteractiveDisplay)
      else li_out (runDisplay (\<lambda>(now, ss). linear_update e now ss) linear_done ch newLinearDisplay))"

section \<open>Numbers of vertices\<close>

text \<open>Vertices are numbered from one in the order in which they are announced.\<close>

definition tracker_ok :: "tracker \<Rightarrow> bool" where
  "tracker_ok t \<longleftrightarrow> distinct (tk_order t) \<and> tk_nextIdx t = length (tk_order t) \<and> set (mkeys (tk_vertices t)) = set (tk_order t)
     \<and> (\<forall>i < length (tk_order t). \<exists>v. mget (tk_vertices t) (tk_order t ! i) = Some v \<and> vt_index v = i + 1)"

lemma tracker_ok_new [simp]: "tracker_ok newTracker"
  by (simp add: tracker_ok_def newTracker_def mkeys_def)

text \<open>The two cases of an update of a vertex: a new one gets the next number, a known one keeps its own.\<close>

lemma apply_vertex_new:
  assumes "mget (tk_vertices t) (vx_Digest v) = None"
  shows "tk_order (apply_vertex v t) = tk_order t @ [vx_Digest v]" and "tk_nextIdx (apply_vertex v t) = tk_nextIdx t + 1"
    and "\<exists>st. tk_vertices (apply_vertex v t) = mput (vx_Digest v) st (tk_vertices t) \<and> vt_index st = tk_nextIdx t + 1
      \<and> vt_started st = vx_Started v"
  using assms by (auto simp: apply_vertex_def Let_def)

lemma apply_vertex_known:
  assumes "mget (tk_vertices t) (vx_Digest v) = Some old"
  shows "tk_order (apply_vertex v t) = tk_order t" and "tk_nextIdx (apply_vertex v t) = tk_nextIdx t"
    and "\<exists>st. tk_vertices (apply_vertex v t) = mput (vx_Digest v) st (tk_vertices t) \<and> vt_index st = vt_index old
      \<and> vt_started st = vx_Started v"
  using assms by (auto simp: apply_vertex_def Let_def)

lemma apply_vertex_ok:
  assumes ok: "tracker_ok t"
  shows "tracker_ok (apply_vertex v t)"
proof (cases "mget (tk_vertices t) (vx_Digest v)")
  case None
  obtain st where st: "tk_vertices (apply_vertex v t) = mput (vx_Digest v) st (tk_vertices t)" "vt_index st = tk_nextIdx t + 1"
    using apply_vertex_new(3)[OF None] by blast
  have new: "vx_Digest v \<notin> set (tk_order t)"
    using None ok by (auto simp: tracker_ok_def set_mkeys domIff)
  show ?thesis
    using ok new st unfolding tracker_ok_def apply_vertex_new(1,2)[OF None]
    by (auto simp: less_Suc_eq nth_append dest: nth_mem)
next
  case (Some old)
  obtain st where st: "tk_vertices (apply_vertex v t) = mput (vx_Digest v) st (tk_vertices t)" "vt_index st = vt_index old"
    using apply_vertex_known(3)[OF Some] by blast
  have "vx_Digest v \<in> set (mkeys (tk_vertices t))" using Some by (auto simp: set_mkeys)
  then have in_order: "vx_Digest v \<in> set (tk_order t)" using ok by (simp add: tracker_ok_def)
  have "\<exists>w. mget (tk_vertices (apply_vertex v t)) (tk_order t ! i) = Some w \<and> vt_index w = i + 1" if i: "i < length (tk_order t)" for i
  proof -
    obtain w where w: "mget (tk_vertices t) (tk_order t ! i) = Some w" "vt_index w = i + 1"
      using ok i unfolding tracker_ok_def by blast
    then show ?thesis using st Some by (cases "tk_order t ! i = vx_Digest v") auto
  qed
  then show ?thesis
    using ok st in_order unfolding tracker_ok_def apply_vertex_known(1,2)[OF Some] by auto
qed

lemma apply_vertex_order:
  "tracker_ok t \<Longrightarrow> tk_order (apply_vertex v t) = (if vx_Digest v \<in> set (tk_order t) then tk_order t else tk_order t @ [vx_Digest v])"
  using apply_vertex_new(1)[of t v] apply_vertex_known(1)[of t v]
  by (cases "mget (tk_vertices t) (vx_Digest v)") (auto simp: tracker_ok_def set_mkeys domIff)

text \<open>The elements of a list in the order of their first occurrences.\<close>

fun firsts :: "string list \<Rightarrow> string list \<Rightarrow> string list" where
  "firsts seen [] = seen"
| "firsts seen (x # xs) = firsts (if x \<in> set seen then seen else seen @ [x]) xs"

lemma apply_vertices:
  "tracker_ok t \<Longrightarrow> tracker_ok (fold apply_vertex vs t) \<and> tk_order (fold apply_vertex vs t) = firsts (tk_order t) (map vx_Digest vs)"
proof (induction vs arbitrary: t)
  case (Cons v vs)
  then show ?case using apply_vertex_ok[of t v] apply_vertex_order[of t v] by simp
qed simp

lemma apply_status_ok: "tracker_ok t \<Longrightarrow> tracker_ok (apply_status ss t)"
  using apply_vertices by (simp add: apply_status_def)

lemma fold_apply_status: "fold apply_status sss t = fold apply_vertex (concat (map ss_Vertexes sss)) t"
  by (induction sss arbitrary: t) (simp_all add: apply_status_def)

section \<open>The interface of a display\<close>

definition logged :: "(event \<times> string) list \<Rightarrow> (string \<times> string) list" where
  "logged out = List.map_filter (\<lambda>w. case fst w of LogLine d l \<Rightarrow> Some (d, l) | _ \<Rightarrow> None) out"

lemma logged_append [simp]: "logged (a @ b) = logged a @ logged b"
  by (simp add: logged_def List.map_filter_def)

lemma logged_none: "(\<And>w. w \<in> set out \<Longrightarrow> \<forall>d l. fst w \<noteq> LogLine d l) \<Longrightarrow> logged out = []"
  by (force simp: logged_def List.map_filter_def filter_empty_conv split: event.splits)

lemma logged_log_writes [simp]: "logged (map (log_write c t) ls) = ls"
  by (induction ls) (simp_all add: logged_def List.map_filter_def log_write_def)

lemma run_writes_step:
  "fold (\<lambda>(d, data) (out, lb). let (ls, lb) = lineBuf_write d data lb in (out @ map (Pair d) ls, lb)) ws (out, lb)
   = (out @ fst (run_writes ws lb), snd (run_writes ws lb))"
proof (induction ws arbitrary: out lb)
  case (Cons w ws)
  obtain d data where w: "w = (d, data)" by fastforce
  obtain ls lb' where l: "lineBuf_write d data lb = (ls, lb')" by fastforce
  show ?case
    using Cons[of "out @ map (Pair d) ls" lb'] Cons[of "map (Pair d) ls" lb'] unfolding run_writes_def by (simp add: w l)
qed (simp add: run_writes_def)

lemma run_writes_append:
  "run_writes (ws @ ws') lb = (let (a, lb) = run_writes ws lb; (b, lb) = run_writes ws' lb in (a @ b, lb))"
  unfolding run_writes_def[of "ws @ ws'"] fold_append comp_def run_writes_step[of ws "[]" lb] run_writes_step[of ws']
  by (simp add: case_prod_unfold Let_def)

text \<open>
  What the handler relies on of a display: an update takes every vertex into the tracker and every chunk of a log into the buffers, and
  writes exactly the lines the buffers give out; the end of the display writes no lines, keeps what was written, and writes what is left of the logs of announced vertices.
\<close>

locale display =
  fixes update :: "'u \<Rightarrow> 's \<Rightarrow> 's" and finish :: "'s \<Rightarrow> 's" and status :: "'u \<Rightarrow> SolveStatus"
    and track :: "'s \<Rightarrow> tracker" and buffer :: "'s \<Rightarrow> lineBuf" and out :: "'s \<Rightarrow> (event \<times> string) list" and start :: 's
  assumes update_track: "track (update u s) = apply_status (status u) (track s)"
    and update_buffer: "buffer (update u s) = snd (run_writes (log_data (status u)) (buffer s))"
    and update_logged: "logged (out (update u s)) = logged (out s) @ fst (run_writes (log_data (status u)) (buffer s))"
    and finish_logged: "logged (out (finish s)) = logged (out s)"
    and finish_flushes: "d \<in> set (tk_order (track s)) \<Longrightarrow> mget (buffer s) d = Some b \<Longrightarrow> b \<noteq> [] \<Longrightarrow> (LogEnd d, b) \<in> set (out (finish s))"
    and start_empty: "track start = newTracker" "buffer start = []" "logged (out start) = []"
begin

lemma run_track: "track (fold update us s) = fold apply_status (map status us) (track s)"
  by (induction us arbitrary: s) (simp_all add: update_track)

lemma run_logs:
  "logged (out (fold update us s)) = logged (out s) @ fst (run_writes (concat (map (log_data \<circ> status) us)) (buffer s))
   \<and> buffer (fold update us s) = snd (run_writes (concat (map (log_data \<circ> status) us)) (buffer s))"
proof (induction us arbitrary: s)
  case (Cons u us)
  then show ?case
    by (simp add: update_logged update_buffer run_writes_append case_prod_unfold Let_def)
qed (simp add: run_writes_def)

lemma numbered: "tracker_ok (track (fold update us start))"
  unfolding run_track start_empty fold_apply_status using apply_vertices[OF tracker_ok_new] by blast

lemma shown_lines:
  "map snd (filter (\<lambda>l. fst l = d) (logged (out (runDisplay update finish us start))))
    = fst (drain (written_to d (concat (map (log_data \<circ> status) us))))"
  using run_logs[of us start] run_writes_vertex[of "[]" d "concat (map (log_data \<circ> status) us)"]
  by (simp add: runDisplay_def finish_logged start_empty)

lemma shown_rest:
  assumes "d \<in> set (map vx_Digest (concat (map (ss_Vertexes \<circ> status) us)))"
    and "snd (drain (written_to d (concat (map (log_data \<circ> status) us)))) \<noteq> []"
  shows "(LogEnd d, snd (drain (written_to d (concat (map (log_data \<circ> status) us))))) \<in> set (out (runDisplay update finish us start))"
proof -
  have firsts: "set (firsts seen xs) = set seen \<union> set xs" for seen xs
    by (induction seen xs rule: firsts.induct) auto
  have "concat (map ss_Vertexes (map status us)) = concat (map (ss_Vertexes \<circ> status) us)" by (simp add: comp_def)
  then have "d \<in> set (tk_order (track (fold update us start)))"
    unfolding run_track start_empty fold_apply_status using apply_vertices[OF tracker_ok_new] assms(1) firsts by simp
  moreover have b: "mget_or [] (buffer (fold update us start)) d = snd (drain (written_to d (concat (map (log_data \<circ> status) us))))"
    using run_logs[of us start] run_writes_vertex[of "[]" d "concat (map (log_data \<circ> status) us)"] by (simp add: start_empty)
  then have "mget (buffer (fold update us start)) d = Some (snd (drain (written_to d (concat (map (log_data \<circ> status) us)))))"
    using assms(2) by (cases "mget (buffer (fold update us start)) d") (simp_all add: mget_or_def)
  ultimately show ?thesis using assms(2) unfolding runDisplay_def by (intro finish_flushes)
qed

end

section \<open>Both displays provide it\<close>

lemma flush_fold_writes:
  "\<exists>ws. snd (fold flush_step ds (lb, out)) = out @ ws \<and> (\<forall>w \<in> set ws. \<exists>d. fst w = LogEnd d)"
proof (induction ds arbitrary: lb out)
  case (Cons d ds)
  obtain r lb' where f: "flushRemaining d lb = (r, lb')" by fastforce
  define ws1 where "ws1 = (case r of None \<Rightarrow> [] | Some b \<Rightarrow> [(LogEnd d, b)])"
  have s: "flush_step d (lb, out) = (lb', out @ ws1)" "\<forall>w \<in> set ws1. \<exists>d. fst w = LogEnd d"
    by (auto simp: flush_step_def f ws1_def split: option.split)
  obtain ws2 where "snd (fold flush_step ds (lb', out @ ws1)) = (out @ ws1) @ ws2" "\<forall>w \<in> set ws2. \<exists>d. fst w = LogEnd d"
    using Cons[of lb' "out @ ws1"] by blast
  then show ?case using s by (intro exI[of _ "ws1 @ ws2"]) auto
qed simp

lemma flush_fold_keeps: "w \<in> set out \<Longrightarrow> w \<in> set (snd (fold flush_step ds (lb, out)))"
  using flush_fold_writes[of ds lb out] by auto

lemma flush_fold_flushes:
  "d \<in> set ds \<Longrightarrow> mget lb d = Some b \<Longrightarrow> b \<noteq> [] \<Longrightarrow> (LogEnd d, b) \<in> set (snd (fold flush_step ds (lb, out)))"
proof (induction ds arbitrary: lb out)
  case (Cons d' ds)
  show ?case
  proof (cases "d' = d")
    case True
    then have "flush_step d' (lb, out) = (mput d [] lb, out @ [(LogEnd d, b)])"
      using Cons.prems by (simp add: flush_step_def flushRemaining_def)
    then show ?thesis using flush_fold_keeps[of "(LogEnd d, b)" "out @ [(LogEnd d, b)]"] by simp
  next
    case False
    obtain lb' out' where s: "flush_step d' (lb, out) = (lb', out')" by fastforce
    then have "mget lb' d = Some b"
      using Cons.prems(2) False by (auto simp: flush_step_def flushRemaining_def split: option.splits if_splits)
    then show ?thesis using Cons False s by simp
  qed
qed simp

lemma flush_fold_logged [simp]: "logged (snd (fold flush_step ds (lb, out))) = logged out"
proof -
  obtain ws where "snd (fold flush_step ds (lb, out)) = out @ ws" "\<forall>w \<in> set ws. \<exists>d. fst w = LogEnd d"
    using flush_fold_writes by blast
  moreover from this have "logged ws = []" by (intro logged_none) auto
  ultimately show ?thesis by simp
qed

lemma linear_statuses_keep:
  "li_t (fold (linear_status e) ss d) = li_t d \<and> li_lb (fold (linear_status e) ss d) = li_lb d
    \<and> logged (li_out (fold (linear_status e) ss d)) = logged (li_out d)"
proof (induction ss arbitrary: d)
  case (Cons s ss)
  have "li_t (linear_status e s d) = li_t d \<and> li_lb (linear_status e s d) = li_lb d \<and> logged (li_out (linear_status e s d)) = logged (li_out d)"
    by (auto simp: linear_status_def Let_def logged_def List.map_filter_def split: option.split)
  then show ?case using Cons by simp
qed simp

lemma linear_silent [simp]:
  "logged (concat (map (linear_vertex e now t) vs)) = []" "logged (map (linear_warning c t) ws) = []"
  by (rule logged_none; auto simp: linear_vertex_def linear_warning_def Let_def split: option.splits if_splits)+

interpretation linear: display "\<lambda>(now, ss). linear_update e now ss" linear_done snd li_t li_lb li_out newLinearDisplay for e
proof
  fix u :: "int \<times> SolveStatus" and s
  obtain now ss where u: "u = (now, ss)" by fastforce
  show "li_t ((case u of (now, ss) \<Rightarrow> linear_update e now ss) s) = apply_status (snd u) (li_t s)"
    by (simp add: u linear_update_def case_prod_unfold Let_def linear_statuses_keep)
  show "li_lb ((case u of (now, ss) \<Rightarrow> linear_update e now ss) s) = snd (run_writes (log_data (snd u)) (li_lb s))"
    by (simp add: u linear_update_def case_prod_unfold Let_def linear_statuses_keep)
  show "logged (li_out ((case u of (now, ss) \<Rightarrow> linear_update e now ss) s))
      = logged (li_out s) @ fst (run_writes (log_data (snd u)) (li_lb s))"
    by (simp add: u linear_update_def case_prod_unfold Let_def linear_statuses_keep)
next
  fix d b and s :: linearDisplay
  show "logged (li_out (linear_done s)) = logged (li_out s)" by (simp add: linear_done_def case_prod_unfold Let_def)
  show "d \<in> set (tk_order (li_t s)) \<Longrightarrow> mget (li_lb s) d = Some b \<Longrightarrow> b \<noteq> [] \<Longrightarrow> (LogEnd d, b) \<in> set (li_out (linear_done s))"
    using flush_fold_flushes by (simp add: linear_done_def case_prod_unfold Let_def)
qed (simp_all add: newLinearDisplay_def logged_def List.map_filter_def)

lemma finish_running_writes:
  "\<exists>ws. ia_out (fold (finish_running e now) vs d) = ia_out d @ ws \<and> (\<forall>w \<in> set ws. \<exists>i. fst w = Finished i)"
proof (induction vs arbitrary: d)
  case (Cons v vs)
  obtain ws1 where "ia_out (finish_running e now v d) = ia_out d @ ws1" "\<forall>w \<in> set ws1. \<exists>i. fst w = Finished i"
    by (cases "mget_or False (ia_seenDone d) (vt_index v)") (auto simp: finish_running_def printDoneLine_def Let_def)
  moreover obtain ws2 where "ia_out (fold (finish_running e now) vs (finish_running e now v d)) = ia_out (finish_running e now v d) @ ws2"
      "\<forall>w \<in> set ws2. \<exists>i. fst w = Finished i" using Cons by blast
  ultimately show ?case by (intro exI[of _ "ws1 @ ws2"]) auto
qed simp

interpretation interactive: display "\<lambda>(now, ss). interactive_update e now ss" "interactive_done e end_time" snd ia_t ia_lb ia_out newInteractiveDisplay
  for e end_time
proof
  fix u :: "int \<times> SolveStatus" and s
  obtain now ss where u: "u = (now, ss)" by fastforce
  show "ia_t ((case u of (now, ss) \<Rightarrow> interactive_update e now ss) s) = apply_status (snd u) (ia_t s)"
    by (simp add: u interactive_update_def case_prod_unfold Let_def)
  show "ia_lb ((case u of (now, ss) \<Rightarrow> interactive_update e now ss) s) = snd (run_writes (log_data (snd u)) (ia_lb s))"
    by (simp add: u interactive_update_def case_prod_unfold Let_def)
  have silent: "logged (map (header_write c) started) = []"
      "logged (map (\<lambda>(id', pre, x). (StatusOf id', f pre x)) statusLines) = []"
      "logged (map (\<lambda>w. (WarningOf (vw_Vertex w), g w)) warnings) = []"
      "logged (map (\<lambda>(v, cached, err). printDoneLine e now v cached err) completed) = []" for c started f statusLines g warnings completed
    by (rule logged_none; auto simp: header_write_def printDoneLine_def Let_def)+
  show "logged (ia_out ((case u of (now, ss) \<Rightarrow> interactive_update e now ss) s))
      = logged (ia_out s) @ fst (run_writes (log_data (snd u)) (ia_lb s))"
    unfolding u prod.case interactive_update_def Let_def snd_conv
    by (simp add: silent split: prod.split)
next
  fix d b and s :: interactiveDisplay
  let ?s = "let (lb, out) = fold flush_step (tk_order (ia_t s)) (ia_lb s, ia_out s) in s\<lparr>ia_lb := lb, ia_out := out\<rparr>"
  obtain ws where ws: "ia_out (interactive_done e end_time s) = ia_out ?s @ ws" "\<forall>w \<in> set ws. \<exists>i. fst w = Finished i"
    using finish_running_writes[of e end_time "running (ia_t s)" ?s] by (auto simp: interactive_done_def case_prod_unfold Let_def)
  have "logged ws = []" using ws(2) by (intro logged_none) auto
  then show "logged (ia_out (interactive_done e end_time s)) = logged (ia_out s)"
    unfolding ws(1) by (simp add: case_prod_unfold Let_def)
  show "d \<in> set (tk_order (ia_t s)) \<Longrightarrow> mget (ia_lb s) d = Some b \<Longrightarrow> b \<noteq> [] \<Longrightarrow>
      (LogEnd d, b) \<in> set (ia_out (interactive_done e end_time s))"
    using flush_fold_flushes unfolding ws(1) by (simp add: case_prod_unfold Let_def)
qed (simp_all add: newInteractiveDisplay_def logged_def List.map_filter_def)

definition demo_vertex :: Vertex where
  "demo_vertex = \<lparr>vx_Digest = ''d1'', vx_Name = ''[1/2] FROM a'', vx_Started = Some 10, vx_Completed = None, vx_Cached = False, vx_Error = []\<rparr>"

definition demo_updates :: "(int \<times> SolveStatus) list" where
  "demo_updates =
     [(11, \<lparr>ss_Vertexes = [demo_vertex], ss_Statuses = [], ss_Logs = [\<lparr>vl_Vertex = ''d1'', vl_Data = ''one''\<rparr>], ss_Warnings = []\<rparr>),
      (12, \<lparr>ss_Vertexes = [demo_vertex], ss_Statuses = [], ss_Logs = [\<lparr>vl_Vertex = ''d1'', vl_Data = newline # ''two''\<rparr>], ss_Warnings = []\<rparr>)]"

definition plain_config :: Config where
  "plain_config = \<lparr>cf_Mode = AutoMode, cf_Colors = no_colors, cf_NoColor = True\<rparr>"



text \<open>
  Numbers of vertices.  On both displays a vertex has the number of its first announcement among those of all vertices, whatever updates follow: the tracker lists
  the digests in the order of their first occurrences, and the vertex at a position has the number one above it.
\<close>

lemma vertices_numbered:
  "let order = firsts [] (map vx_Digest (concat (map (ss_Vertexes \<circ> snd) ch))) in
    (\<forall>t \<in> {li_t (fold (\<lambda>(now, ss). linear_update e now ss) ch newLinearDisplay),
           ia_t (fold (\<lambda>(now, ss). interactive_update e now ss) ch newInteractiveDisplay)}.
       tk_order t = order \<and> distinct order
       \<and> (\<forall>i < length order. \<exists>v. mget (tk_vertices t) (order ! i) = Some v \<and> vt_index v = i + 1))"
proof -
  let ?t = "fold apply_vertex (concat (map (ss_Vertexes \<circ> snd) ch)) newTracker"
  have t: "li_t (fold (\<lambda>(now, ss). linear_update e now ss) ch newLinearDisplay) = ?t"
      "ia_t (fold (\<lambda>(now, ss). interactive_update e now ss) ch newInteractiveDisplay) = ?t"
    unfolding linear.run_track interactive.run_track linear.start_empty interactive.start_empty fold_apply_status map_map by (rule refl)+
  have "tracker_ok ?t" "tk_order ?t = firsts [] (map vx_Digest (concat (map (ss_Vertexes \<circ> snd) ch)))"
    using apply_vertices[OF tracker_ok_new] by (simp_all add: newTracker_def)
  then show ?thesis unfolding Let_def t by (simp add: tracker_ok_def)
qed

section \<open>The story an interactive display tells\<close>

text \<open>A reader of the events who knows which vertices have started and finished: every vertex starts at most once, and finishes at most once and after its start.\<close>

fun told :: "nat set \<Rightarrow> nat set \<Rightarrow> event list \<Rightarrow> bool" where
  "told S F [] = True"
| "told S F (Started i # es) = (i \<notin> S \<and> told (insert i S) F es)"
| "told S F (Finished i # es) = (i \<in> S \<and> i \<notin> F \<and> told S (insert i F) es)"
| "told S F (e # es) = told S F es"

fun started_in :: "event list \<Rightarrow> nat set" where
  "started_in [] = {}"
| "started_in (Started i # es) = insert i (started_in es)"
| "started_in (e # es) = started_in es"

fun finished_in :: "event list \<Rightarrow> nat set" where
  "finished_in [] = {}"
| "finished_in (Finished i # es) = insert i (finished_in es)"
| "finished_in (e # es) = finished_in es"

lemma told_append: "told S F (xs @ ys) \<longleftrightarrow> told S F xs \<and> told (S \<union> started_in xs) (F \<union> finished_in xs) ys"
  by (induction S F xs rule: told.induct) auto

lemma in_append [simp]:
  "started_in (xs @ ys) = started_in xs \<union> started_in ys" "finished_in (xs @ ys) = finished_in xs \<union> finished_in ys"
proof -
  show "started_in (xs @ ys) = started_in xs \<union> started_in ys" by (induction xs rule: started_in.induct) auto
  show "finished_in (xs @ ys) = finished_in xs \<union> finished_in ys" by (induction xs rule: finished_in.induct) auto
qed

lemma told_headers:
  "started_in (map Started is) = set is" "finished_in (map Started is) = {}"
  "told S F (map Started is) \<longleftrightarrow> distinct is \<and> set is \<inter> S = {}"
proof -
  show "started_in (map Started is) = set is" "finished_in (map Started is) = {}" by (induction "is") auto
  show "told S F (map Started is) \<longleftrightarrow> distinct is \<and> set is \<inter> S = {}" by (induction "is" arbitrary: S) auto
qed

lemma told_ends:
  "started_in (map Finished is) = {}" "finished_in (map Finished is) = set is"
  "told S F (map Finished is) \<longleftrightarrow> distinct is \<and> set is \<inter> F = {} \<and> set is \<subseteq> S"
proof -
  show "started_in (map Finished is) = {}" "finished_in (map Finished is) = set is" by (induction "is") auto
  show "told S F (map Finished is) \<longleftrightarrow> distinct is \<and> set is \<inter> F = {} \<and> set is \<subseteq> S" by (induction "is" arbitrary: F) auto
qed

definition other_event :: "event \<Rightarrow> bool" where
  "other_event ev \<longleftrightarrow> (\<forall>i. ev \<noteq> Started i \<and> ev \<noteq> Finished i)"

lemma told_others:
  "list_all other_event es \<Longrightarrow> started_in es = {} \<and> finished_in es = {} \<and> told S F es"
proof (induction es)
  case (Cons ev es)
  then show ?case by (cases ev) (auto simp: other_event_def)
qed simp

definition seen_set :: "(nat, bool) gomap \<Rightarrow> nat set" where
  "seen_set m = {i. mget_or False m i}"

lemma seen_set_mput [simp]: "seen_set (mput i True m) = insert i (seen_set m)"
  by (auto simp: seen_set_def)

lemma seen_set_iff: "mget_or False m i \<longleftrightarrow> i \<in> seen_set m"
  by (simp add: seen_set_def)

text \<open>Entries collected for vertices outside \<open>S\<close>, each once, and the set of those seen.\<close>

definition collected :: "nat set \<Rightarrow> vertexState list \<Rightarrow> (nat, bool) gomap \<Rightarrow> bool" where
  "collected S vs seen \<longleftrightarrow> distinct (map vt_index vs) \<and> seen_set seen = S \<union> vt_index ` set vs \<and> vt_index ` set vs \<inter> S = {}"

lemma collected_add:
  "collected S vs seen \<Longrightarrow> \<not> mget_or False seen (vt_index v) \<Longrightarrow> collected S (vs @ [v]) (mput (vt_index v) True seen)"
  by (auto simp: collected_def seen_set_iff)

lemma collected_seen: "collected S [] seen \<longleftrightarrow> seen_set seen = S"
  by (auto simp: collected_def)

definition collect_inv ::
  "nat set \<Rightarrow> nat set \<Rightarrow> (vertexState \<times> bool \<times> string) list \<times> (nat, bool) gomap \<times> vertexState list \<times> (nat, bool) gomap \<Rightarrow> bool" where
  "collect_inv S F s \<longleftrightarrow>
     (let (completed, seenDone, started, seen) = s in
      collected S started seen \<and> collected F (map fst completed) seenDone \<and> (vt_index \<circ> fst) ` set completed \<subseteq> seen_set seen)"

lemma collect_started_step:
  assumes "collected S (fst s) (snd s)"
  shows "collected S (fst (collect_started t bv s)) (snd (collect_started t bv s)) \<and> seen_set (snd s) \<subseteq> seen_set (snd (collect_started t bv s))
    \<and> (\<forall>v. mget (tk_vertices t) (vx_Digest bv) = Some v \<and> vx_Started bv \<noteq> None \<longrightarrow> vt_index v \<in> seen_set (snd (collect_started t bv s)))"
  using assms collected_add
  by (cases s; cases "mget (tk_vertices t) (vx_Digest bv)") (auto simp: collect_started_def seen_set_iff)

lemma collect_started_fold:
  "collected S (fst s) (snd s) \<Longrightarrow>
   (let s' = fold (collect_started t) vs s in
    collected S (fst s') (snd s') \<and> seen_set (snd s) \<subseteq> seen_set (snd s')
    \<and> (\<forall>bv \<in> set vs. \<forall>v. mget (tk_vertices t) (vx_Digest bv) = Some v \<and> vx_Started bv \<noteq> None \<longrightarrow> vt_index v \<in> seen_set (snd s')))"
proof (induction vs arbitrary: s)
  case (Cons bv vs)
  note step = collect_started_step[OF Cons.prems, of t bv]
  show ?case
    using Cons.IH[OF conjunct1[OF step]] step unfolding Let_def fold_Cons comp_def set_simps by blast
qed (simp add: Let_def)

lemma collect_completed_step:
  assumes "collect_inv S F s"
  shows "collect_inv S F (collect_completed t bv s) \<and> seen_set (snd (snd (snd s))) \<subseteq> seen_set (snd (snd (snd (collect_completed t bv s))))"
proof -
  obtain completed seenDone started seen where s: "s = (completed, seenDone, started, seen)" by (cases s)
  show ?thesis
  proof (cases "mget (tk_vertices t) (vx_Digest bv)")
    case None
    then show ?thesis using assms by (simp add: s collect_completed_def)
  next
    case (Some v)
    show ?thesis
    proof (cases "mget_or False seenDone (vt_index v) \<or> vx_Completed bv = None")
      case True
      then show ?thesis using assms Some by (auto simp: s collect_completed_def)
    next
      case False
      have c: "collected S started seen" "collected F (map fst completed) seenDone" "(vt_index \<circ> fst) ` set completed \<subseteq> seen_set seen"
        using assms by (simp_all add: s collect_inv_def)
      have d: "collected F (map fst (completed @ [(v, vx_Cached bv, vx_Error bv)])) (mput (vt_index v) True seenDone)"
        using collected_add[OF c(2), of v] False by simp
      show ?thesis
        using False Some c(3) d collected_add[OF c(1), of v] c(1)
        by (cases "mget_or False seen (vt_index v)") (auto simp: s collect_completed_def collect_inv_def seen_set_iff)
    qed
  qed
qed

lemma collect_completed_fold:
  "collect_inv S F s \<Longrightarrow> collect_inv S F (fold (collect_completed t) vs s)
    \<and> seen_set (snd (snd (snd s))) \<subseteq> seen_set (snd (snd (snd (fold (collect_completed t) vs s))))"
proof (induction vs arbitrary: s)
  case (Cons bv vs)
  note step = collect_completed_step[OF Cons.prems, of t bv]
  show ?case using Cons.IH[OF conjunct1[OF step]] step unfolding fold_Cons comp_def by blast
qed simp

lemma apply_vertices_started:
  "mget (tk_vertices (fold apply_vertex vs t)) dig = Some v \<Longrightarrow> vt_started v \<noteq> None \<Longrightarrow>
    (\<exists>bv \<in> set vs. vx_Digest bv = dig \<and> vx_Started bv \<noteq> None)
    \<or> (\<exists>v0. mget (tk_vertices t) dig = Some v0 \<and> vt_index v0 = vt_index v \<and> vt_started v0 \<noteq> None)"
proof (induction vs arbitrary: v rule: rev_induct)
  case (snoc bv vs)
  let ?t = "fold apply_vertex vs t"
  have last: "mget (tk_vertices (apply_vertex bv ?t)) dig = Some v" using snoc.prems(1) by simp
  show ?case
  proof (cases "vx_Digest bv = dig")
    case True
    then have "vx_Started bv = vt_started v"
      using last apply_vertex_new(3)[of ?t bv] apply_vertex_known(3)[of ?t bv]
      by (cases "mget (tk_vertices ?t) (vx_Digest bv)") auto
    then show ?thesis using True snoc.prems(2) by auto
  next
    case False
    then have "mget (tk_vertices ?t) dig = Some v"
      using last apply_vertex_new(3)[of ?t bv] apply_vertex_known(3)[of ?t bv]
      by (cases "mget (tk_vertices ?t) (vx_Digest bv)") auto
    then show ?thesis using snoc.IH snoc.prems(2) by auto
  qed
qed auto

text \<open>The invariant of the display: what it has seen is what it has told.\<close>

definition story_ok :: "interactiveDisplay \<Rightarrow> bool" where
  "story_ok d \<longleftrightarrow> told {} {} (map fst (ia_out d))
     \<and> started_in (map fst (ia_out d)) = seen_set (ia_seenStarted d) \<and> finished_in (map fst (ia_out d)) = seen_set (ia_seenDone d)
     \<and> (\<forall>dig v. mget (tk_vertices (ia_t d)) dig = Some v \<and> vt_started v \<noteq> None \<longrightarrow> vt_index v \<in> seen_set (ia_seenStarted d))"

lemma story_extend:
  assumes "story_ok d" and "list_all other_event es" and "distinct is" and "set is \<inter> seen_set (ia_seenStarted d) = {}"
    and "distinct js" and "set js \<inter> seen_set (ia_seenDone d) = {}" and "set js \<subseteq> seen_set (ia_seenStarted d) \<union> set is"
  shows "told {} {} (map fst (ia_out d) @ map Started is @ es @ map Finished js)"
    and "started_in (map fst (ia_out d) @ map Started is @ es @ map Finished js) = seen_set (ia_seenStarted d) \<union> set is"
    and "finished_in (map fst (ia_out d) @ map Started is @ es @ map Finished js) = seen_set (ia_seenDone d) \<union> set js"
  using assms told_others[OF assms(2)] by (auto simp: story_ok_def told_append told_headers told_ends)

lemma interactive_update_story:
  assumes "story_ok d"
  shows "story_ok (interactive_update e now ss d)"
proof -
  let ?t = "apply_status ss (ia_t d)"
  obtain started0 seen0 where f1: "fold (collect_started ?t) (ss_Vertexes ss) ([], ia_seenStarted d) = (started0, seen0)" by fastforce
  obtain completed seenDone started seenStarted
    where f2: "fold (collect_completed ?t) (ss_Vertexes ss) ([], ia_seenDone d, started0, seen0) = (completed, seenDone, started, seenStarted)"
    by (metis prod_cases4)
  obtain statusLines seenStatus seenStatusDone
    where f3: "fold (collect_status e ?t) (ss_Statuses ss) ([], ia_seenStatus d, ia_seenStatusDone d) = (statusLines, seenStatus, seenStatusDone)"
    by (metis prod_cases3)
  obtain logLines lb where f4: "run_writes (log_data ss) (ia_lb d) = (logLines, lb)" by fastforce
  let ?S = "seen_set (ia_seenStarted d)" and ?F = "seen_set (ia_seenDone d)"
  have c1: "collected ?S started0 seen0" "?S \<subseteq> seen_set seen0"
    "\<forall>bv \<in> set (ss_Vertexes ss). \<forall>v. mget (tk_vertices ?t) (vx_Digest bv) = Some v \<and> vx_Started bv \<noteq> None \<longrightarrow> vt_index v \<in> seen_set seen0"
    using collect_started_fold[of ?S "([], ia_seenStarted d)" ?t "ss_Vertexes ss"] unfolding f1 Let_def by (auto simp: collected_seen)
  have "collect_inv ?S ?F ([], ia_seenDone d, started0, seen0)" using c1(1) by (simp add: collect_inv_def collected_seen)
  from collect_completed_fold[OF this, of ?t "ss_Vertexes ss"]
  have c2: "collected ?S started seenStarted" "collected ?F (map fst completed) seenDone" "(vt_index \<circ> fst) ` set completed \<subseteq> seen_set seenStarted"
    "seen_set seen0 \<subseteq> seen_set seenStarted"
    unfolding f2 by (simp_all add: collect_inv_def)
  define es where "es = map (\<lambda>(id', _). StatusOf id') statusLines @ map (\<lambda>l. LogLine (fst l) (snd l)) logLines @ map (\<lambda>w. WarningOf (vw_Vertex w)) (ss_Warnings ss)"
  have others: "list_all other_event es" by (auto simp: es_def list_all_iff other_event_def)
  let ?is = "map vt_index started" and ?js = "map (vt_index \<circ> fst) completed"
  have fst_done: "fst (printDoneLine e now v cached err) = Finished (vt_index v)" for v cached err
    by (simp add: printDoneLine_def Let_def)
  have out: "map fst (ia_out (interactive_update e now ss d)) = map fst (ia_out d) @ map Started ?is @ es @ map Finished ?js"
    unfolding interactive_update_def Let_def f1 prod.case f2 f3 f4
    by (auto simp: es_def header_write_def log_write_def fst_done comp_def case_prod_unfold)
  have seen: "ia_seenStarted (interactive_update e now ss d) = seenStarted" "ia_seenDone (interactive_update e now ss d) = seenDone"
      "ia_t (interactive_update e now ss d) = ?t"
    unfolding interactive_update_def Let_def f1 prod.case f2 f3 f4 by simp_all
  have sets: "seen_set seenStarted = ?S \<union> set ?is" "seen_set seenDone = ?F \<union> set ?js"
    using c2(1,2) by (auto simp: collected_def)
  have pre: "distinct ?is" "set ?is \<inter> ?S = {}" "distinct ?js" "set ?js \<inter> ?F = {}"
    using c2(1,2) by (simp_all add: collected_def image_comp comp_def)
  have sub: "set ?js \<subseteq> ?S \<union> set ?is" using c2(3) sets(1) by simp
  have story: "told {} {} (map fst (ia_out d) @ map Started ?is @ es @ map Finished ?js)"
      "started_in (map fst (ia_out d) @ map Started ?is @ es @ map Finished ?js) = seen_set seenStarted"
      "finished_in (map fst (ia_out d) @ map Started ?is @ es @ map Finished ?js) = seen_set seenDone"
    unfolding sets by (rule story_extend[OF assms others pre sub])+
  have "vt_index v \<in> seen_set seenStarted" if v: "mget (tk_vertices ?t) dig = Some v" "vt_started v \<noteq> None" for dig v
    using apply_vertices_started[OF v[unfolded apply_status_def]]
  proof
    assume "\<exists>bv \<in> set (ss_Vertexes ss). vx_Digest bv = dig \<and> vx_Started bv \<noteq> None"
    then show ?thesis using c1(3) c2(4) v(1) by blast
  next
    assume "\<exists>v0. mget (tk_vertices (ia_t d)) dig = Some v0 \<and> vt_index v0 = vt_index v \<and> vt_started v0 \<noteq> None"
    then have "vt_index v \<in> ?S" using assms unfolding story_ok_def by metis
    then show ?thesis using c1(2) c2(4) by blast
  qed
  then show ?thesis unfolding story_ok_def out seen using story by blast
qed

lemma finish_running_story:
  assumes "story_ok d" and "\<forall>v \<in> set vs. vt_index v \<in> seen_set (ia_seenStarted d)"
  shows "story_ok (fold (finish_running e now) vs d)"
  using assms
proof (induction vs arbitrary: d)
  case (Cons v vs)
  show ?case
  proof (cases "mget_or False (ia_seenDone d) (vt_index v)")
    case True
    then show ?thesis using Cons by (simp add: finish_running_def)
  next
    case False
    let ?d = "finish_running e now v d"
    have d: "map fst (ia_out ?d) = map fst (ia_out d) @ map Started [] @ [] @ map Finished [vt_index v]"
        "ia_seenStarted ?d = ia_seenStarted d" "ia_seenDone ?d = mput (vt_index v) True (ia_seenDone d)" "ia_t ?d = ia_t d"
      using False by (simp_all add: finish_running_def printDoneLine_def Let_def)
    have "story_ok ?d"
      using story_extend[OF Cons.prems(1), of "[]" "[]" "[vt_index v]"] Cons.prems False
      unfolding story_ok_def d by (auto simp: seen_set_iff)
    then show ?thesis using Cons.IH Cons.prems(2) d(2) by simp
  qed
qed simp

lemma interactive_done_story:
  assumes "story_ok d"
  shows "story_ok (interactive_done e now d)"
proof -
  obtain lb out where f: "fold flush_step (tk_order (ia_t d)) (ia_lb d, ia_out d) = (lb, out)" by fastforce
  obtain ws where ws: "out = ia_out d @ ws" "\<forall>w \<in> set ws. \<exists>dig. fst w = LogEnd dig"
    using flush_fold_writes[of "tk_order (ia_t d)" "ia_lb d" "ia_out d"] f by auto
  have others: "list_all other_event (map fst ws)" using ws(2) by (auto simp: list_all_iff other_event_def)
  let ?d = "d\<lparr>ia_lb := lb, ia_out := out\<rparr>"
  have "story_ok ?d"
    using story_extend[OF assms others, of "[]" "[]"] assms unfolding story_ok_def by (auto simp: ws(1))
  moreover have "\<forall>v \<in> set (running (ia_t ?d)). vt_index v \<in> seen_set (ia_seenStarted ?d)"
    using assms unfolding story_ok_def running_def List.map_filter_def by (auto split: option.splits if_splits)
  ultimately have "story_ok (fold (finish_running e now) (running (ia_t ?d)) ?d)" by (rule finish_running_story)
  then show ?thesis unfolding interactive_done_def f Let_def prod.case by simp
qed

text \<open>
  The interactive display tells a story: whatever updates come in, repeated and contradicting ones included, the header of a vertex is
  written at most once, and its completion at most once and only after its header, up to the end of the display.
\<close>

lemma interactive_story:
  assumes "cf_Mode cfg = InteractiveMode \<or> cf_Mode cfg = AutoMode \<and> isTTY"
  shows "told {} {} (map fst (NewHandler secs cfg isTTY end_time ch))"
proof -
  have "story_ok newInteractiveDisplay" by (simp add: story_ok_def newInteractiveDisplay_def newTracker_def seen_set_def)
  then have "story_ok (fold (\<lambda>(now, ss). interactive_update e now ss) ch newInteractiveDisplay)" for e
    by (rule fold_invariant[where P = story_ok]) (auto intro: interactive_update_story)
  then have "story_ok (runDisplay (\<lambda>(now, ss). interactive_update e now ss) (interactive_done e end_time) ch newInteractiveDisplay)" for e
    unfolding runDisplay_def by (rule interactive_done_story)
  then show ?thesis using assms unfolding NewHandler_def Let_def story_ok_def by auto
qed

text \<open>A step the build never finished is displayed as done; its last line is written without its prefix.\<close>

lemma unfinished_step_done:
  "NewHandler (\<lambda>_. ''0.1'') plain_config True 13 demo_updates =
    [(Started 1, ''  '' @ sign_arrow @ '' #1 [1/2] FROM a'' @ nl), (LogLine ''d1'' ''one'', ''      #1 | one'' @ nl),
     (LogEnd ''d1'', ''two''), (Finished 1, ''  '' @ sign_check @ '' #1 DONE 0.1s'' @ nl)]"
  by code_simp

lemma interactive_story_witness:
  "told {} {} (map fst (NewHandler (\<lambda>_. ''0.1'') plain_config True 13 demo_updates))
   \<and> map fst (NewHandler (\<lambda>_. ''0.1'') plain_config True 13 demo_updates) = [Started 1, LogLine ''d1'' ''one'', LogEnd ''d1'', Finished 1]"
proof -
  have "cf_Mode plain_config = InteractiveMode \<or> cf_Mode plain_config = AutoMode \<and> True" by (simp add: plain_config_def)
  from interactive_story[OF this, of "\<lambda>_. ''0.1''" 13 demo_updates] show ?thesis by (simp add: unfinished_step_done)
qed

text \<open>Log data of a vertex that was never announced stays in its buffer.\<close>

lemma unannounced_log_lost:
  "NewHandler (\<lambda>_. ''0.1'') plain_config False 13
     [(11, \<lparr>ss_Vertexes = [], ss_Statuses = [], ss_Logs = [\<lparr>vl_Vertex = ''d1'', vl_Data = ''lost''\<rparr>], ss_Warnings = []\<rparr>)] = []"
  by code_simp

end
