(* ===== verification/Linting.thy ===== *)
theory Linting
  imports File_Resolver Go_Text Go_Files
begin

text \<open>
  Linting of the Dockerfiles of a project (\<open>pkg/lint\<close>, \<open>internal/hadolint\<close> and the action of \<open>pkg/cli/lint.go\<close>): which files are
  linted and with which parent, what counts as a failure, the report formats and the verdict of the command.
  The hadolint binary, the hash, the JSON encoder and the column formatter are parameters; files are those of \<open>Go_Files\<close>.
\<close>

section \<open>Findings and report entries (\<open>internal/hadolint\<close>)\<close>

record hadolint_finding =
  hf_File :: string
  hf_Line :: int
  hf_Column :: int
  hf_Level :: string
  hf_Code :: string
  hf_Message :: string

record hadolint_result =
  hr_Findings :: "hadolint_finding list"
  hr_ExitCode :: int

record HadolintConfig =
  ho_Ignored :: "string list"
  ho_TrustedRegistries :: "string list"
  ho_LabelSchema :: "(string, string) gomap"
  ho_StrictLabels :: "bool option"
  ho_FailureThreshold :: string

definition toHadolintConfig :: "LintConfig \<Rightarrow> HadolintConfig" where
  "toHadolintConfig cfg = \<lparr>ho_Ignored = li_Ignored cfg, ho_TrustedRegistries = li_TrustedRegistries cfg,
     ho_LabelSchema = li_LabelSchema cfg, ho_StrictLabels = li_StrictLabels cfg, ho_FailureThreshold = li_FailureThreshold cfg\<rparr>"

text \<open>The package around the binary: \<open>'h\<close> are its handles.\<close>

record 'h hadolint_lib =
  hl_NewHadolinter :: "string + 'h"
  hl_Version :: "'h \<Rightarrow> string"
  hl_NewHadolinterFromPATH :: "string + 'h"
  hl_AnalyzeSnippet :: "'h \<Rightarrow> HadolintConfig option \<Rightarrow> string \<Rightarrow> string + hadolint_result"

type_synonym 'h hadolint_Linter = "'h \<times> HadolintConfig option"

definition hadolint_NewLinter :: "'h hadolint_lib \<Rightarrow> LintConfig option \<Rightarrow> string + 'h hadolint_Linter" where
  "hadolint_NewLinter lib cfg =
     res_bind (hl_NewHadolinter lib) (\<lambda>h.
       res_bind (if hl_Version lib h = [] then hl_NewHadolinterFromPATH lib else Inr h) (\<lambda>h.
         Inr (h, map_option toHadolintConfig cfg)))"

definition LintSnippet :: "'h hadolint_lib \<Rightarrow> 'h hadolint_Linter \<Rightarrow> string \<Rightarrow> string + hadolint_result" where
  "LintSnippet lib l content = hl_AnalyzeSnippet lib (fst l) (snd l) content"

record CodeQualityEntry =
  cq_Description :: string
  cq_CheckName :: string
  cq_Fingerprint :: string
  cq_Severity :: string
  cq_Path :: string
  cq_Begin :: int

definition mapSeverity :: "string \<Rightarrow> string" where
  "mapSeverity level =
     (if level = ''error'' then ''blocker'' else if level = ''warning'' then ''major'' else if level = ''info'' then ''minor''
      else if level = ''style'' then ''info'' else ''info'')"

text \<open>The eight bytes of a 64-bit line number, lowest first; the shifts keep the sign.\<close>

definition line_bytes :: "int \<Rightarrow> string" where
  "line_bytes line = map (\<lambda>i. char_of (nat ((line div 2 ^ (i * 8)) mod 256))) [0..<8]"

definition fingerprint_input :: "string \<Rightarrow> hadolint_finding \<Rightarrow> string" where
  "fingerprint_input path f = path @ [CHR 0x00] @ hf_Code f @ [CHR 0x00] @ hf_Message f @ [CHR 0x00] @ line_bytes (hf_Line f)"

definition fingerprint :: "(string \<Rightarrow> string) \<Rightarrow> string \<Rightarrow> hadolint_finding \<Rightarrow> string" where
  "fingerprint sha256_hex path f = sha256_hex (fingerprint_input path f)"

definition ToCodeQuality :: "(string \<Rightarrow> string) \<Rightarrow> hadolint_finding \<Rightarrow> string \<Rightarrow> CodeQualityEntry" where
  "ToCodeQuality sha256_hex f pathOverride =
     (let path = (if pathOverride \<noteq> [] then pathOverride else hf_File f) in
      \<lparr>cq_Description = hf_Message f, cq_CheckName = hf_Code f, cq_Fingerprint = fingerprint sha256_hex path f,
       cq_Severity = mapSeverity (hf_Level f), cq_Path = path, cq_Begin = hf_Line f\<rparr>)"

section \<open>The parent of a Dockerfile (\<open>parent.go\<close>)\<close>

definition SubstituteHiveParent :: "string \<Rightarrow> string \<Rightarrow> string" where
  "SubstituteHiveParent content parentRef =
     (if parentRef = [] \<or> \<not> go_contains content HiveParentPlaceholder then content
      else go_replace_all HiveParentPlaceholder parentRef content)"

definition PickReferenceTag :: "(string, Tag) gomap \<Rightarrow> string" where
  "PickReferenceTag tags =
     (if length tags = 0 then ''hive-parent''
      else fold (\<lambda>name first. if first = [] \<or> name < first then name else first) (mkeys tags) [])"

definition BuildHiveParentRef :: "Image \<Rightarrow> string" where
  "BuildHiveParentRef img = ''__hive__/'' @ img_Name img @ '':'' @ PickReferenceTag (img_Tags img)"

section \<open>The linter (\<open>lint.go\<close>)\<close>

record Finding =
  fi_Finding :: hadolint_finding
  fi_Path :: string
  fi_FullPath :: string

record Result =
  rs_Findings :: "Finding list"
  rs_CodeQuality :: "CodeQualityEntry list"
  rs_LintedCount :: nat
  rs_FailedCount :: nat

text \<open>What the linter asks the system for: files, the working directory, if there is one, and the hash.\<close>

record lint_sys =
  ly_fs :: filesys
  ly_wd :: "string option"
  ly_sha :: "string \<Rightarrow> string"

definition filepath_Abs :: "string option \<Rightarrow> string \<Rightarrow> string option" where
  "filepath_Abs wd path = (if is_abs path then Some (go_clean path) else map_option (\<lambda>wd. go_path_join [wd, path]) wd)"

definition relativeReportPath :: "lint_sys \<Rightarrow> string \<Rightarrow> string \<Rightarrow> string" where
  "relativeReportPath sys projectRoot path =
     (case filepath_Abs (ly_wd sys) projectRoot of
        None \<Rightarrow> path
      | Some root \<Rightarrow> (case go_rel root path of None \<Rightarrow> path | Some rel \<Rightarrow> rel))"

definition ResolveConfig :: "LintConfig option \<Rightarrow> string \<Rightarrow> LintConfig" where
  "ResolveConfig projectCfg cliThreshold =
     (let zero = \<lparr>li_Ignored = [], li_TrustedRegistries = [], li_LabelSchema = [], li_StrictLabels = None, li_FailureThreshold = []\<rparr> in
      if projectCfg = None \<and> cliThreshold = [] then zero\<lparr>li_FailureThreshold := ''error''\<rparr>
      else
        let out = (case projectCfg of Some cfg \<Rightarrow> cfg | None \<Rightarrow> zero);
            out = (if cliThreshold \<noteq> [] then out\<lparr>li_FailureThreshold := cliThreshold\<rparr> else out) in
        if li_FailureThreshold out = [] then out\<lparr>li_FailureThreshold := ''error''\<rparr> else out)"

text \<open>The error of \<open>lintEntrypoint\<close> is nil on every path, so only the result is kept.\<close>

definition lintEntrypoint ::
  "lint_sys \<Rightarrow> (string \<Rightarrow> string + hadolint_result) \<Rightarrow> string \<Rightarrow> string \<Rightarrow> string \<Rightarrow> Result \<Rightarrow> Result" where
  "lintEntrypoint sys snippet path projectRoot parentRef res =
     (if RemoveTemplateExt path \<noteq> path then res
      else if go_base path \<noteq> ''Dockerfile'' then res
      else case os_ReadFile (ly_fs sys) path of
          Inl _ \<Rightarrow> res\<lparr>rs_FailedCount := rs_FailedCount res + 1\<rparr>
        | Inr content \<Rightarrow>
            (case snippet (SubstituteHiveParent content parentRef) of
               Inl _ \<Rightarrow> res\<lparr>rs_FailedCount := rs_FailedCount res + 1\<rparr>
             | Inr out \<Rightarrow>
                 let res = res\<lparr>rs_LintedCount := rs_LintedCount res + 1\<rparr>;
                     displayPath = relativeReportPath sys projectRoot path;
                     fullPath = (case filepath_Abs (ly_wd sys) path of Some p \<Rightarrow> p | None \<Rightarrow> path);
                     res = fold (\<lambda>f res. res\<lparr>rs_CodeQuality := rs_CodeQuality res @ [ToCodeQuality (ly_sha sys) f displayPath],
                         rs_Findings := rs_Findings res @ [\<lparr>fi_Finding = f, fi_Path = displayPath, fi_FullPath = fullPath\<rparr>]\<rparr>)
                       (hr_Findings out) res in
                 if hr_ExitCode out \<noteq> 0 then res\<lparr>rs_FailedCount := rs_FailedCount res + 1\<rparr> else res))"

definition empty_result :: Result where
  "empty_result = \<lparr>rs_Findings = [], rs_CodeQuality = [], rs_LintedCount = 0, rs_FailedCount = 0\<rparr>"

definition lint_image :: "lint_sys \<Rightarrow> (string \<Rightarrow> string + hadolint_result) \<Rightarrow> string \<Rightarrow> Image \<Rightarrow> Result \<Rightarrow> Result" where
  "lint_image sys snippet projectRoot img res =
     (let parentRef = BuildHiveParentRef img;
          res = lintEntrypoint sys snippet (img_BuildEntryPointPath img) projectRoot parentRef res in
      fold (\<lambda>(_, variant). lintEntrypoint sys snippet (var_BuildEntryPointPath variant) projectRoot parentRef) (img_Variants img) res)"

definition Lint :: "lint_sys \<Rightarrow> (string \<Rightarrow> string + hadolint_result) \<Rightarrow> ContainerHiveProject \<Rightarrow> string \<Rightarrow> Result" where
  "Lint sys snippet project projectRoot =
     fold (\<lambda>(_, img). lint_image sys snippet projectRoot img) (pr_ImagesByIdentifier project) empty_result"

section \<open>Formats (\<open>format.go\<close> and \<open>format_*.go\<close>)\<close>

record FormatOption =
  fo_Name :: string
  fo_Path :: string

text \<open>Each format with whether it takes a path.\<close>

definition formatPrototypes :: "(string, bool) gomap" where
  "formatPrototypes = [(''terminal'', False), (''github-actions'', False), (''codeclimate'', True)]"

datatype format_error = EmptyName string | DuplicateFormat string | UnknownFormat string | PathRequired string | PathUnsupported string

definition parse_format :: "string list \<times> FormatOption list \<Rightarrow> string \<Rightarrow> format_error + string list \<times> FormatOption list" where
  "parse_format acc raw =
     (let (seen, out) = acc; (name, path, _) = go_cut raw (CHR ''='') in
      if name = [] then Inl (EmptyName raw)
      else if name \<in> set seen then Inl (DuplicateFormat name)
      else let seen = name # seen in
        case mget formatPrototypes name of
          None \<Rightarrow> Inl (UnknownFormat name)
        | Some hasPath \<Rightarrow>
            if hasPath \<and> path = [] then Inl (PathRequired name)
            else if \<not> hasPath \<and> path \<noteq> [] then Inl (PathUnsupported name)
            else Inr (seen, out @ [\<lparr>fo_Name = name, fo_Path = path\<rparr>]))"

definition ParseFormats :: "string list \<Rightarrow> format_error + FormatOption list" where
  "ParseFormats flags =
     (if length flags = 0 then Inr [\<lparr>fo_Name = ''terminal'', fo_Path = []\<rparr>]
      else res_bind (res_fold parse_format ([], []) flags) (\<lambda>(seen, out). Inr out))"

definition go_format_int :: "int \<Rightarrow> string" where
  "go_format_int i = (if i < 0 then ''-'' @ go_itoa (nat (- i)) else go_itoa (nat i))"

text \<open>\<open>takes\<close> tells whether the standard output takes a text after what it has taken.\<close>

definition write_out :: "(string \<Rightarrow> string \<Rightarrow> bool) \<Rightarrow> string \<Rightarrow> string \<Rightarrow> bool \<times> string" where
  "write_out takes txt out = (if takes out txt then (True, out @ txt) else (False, out))"

definition mapSeverityToCommand :: "string \<Rightarrow> string" where
  "mapSeverityToCommand level =
     (if level = ''error'' then ''error'' else if level = ''warning'' then ''warning'' else ''notice'')"

definition carriage_return :: char where "carriage_return = CHR 0x0D"

definition sanitizeMessage :: "string \<Rightarrow> string" where
  "sanitizeMessage msg =
     (let msg = go_replace_all [carriage_return, newline] [newline] msg;
          msg = go_replace_all [carriage_return] [] msg;
          msg = go_replace_all [newline] ''%0A'' msg in
      go_replace_all ''::'' ''%3A%3A'' msg)"

definition annotation :: "Finding \<Rightarrow> string" where
  "annotation r =
     ''::'' @ mapSeverityToCommand (hf_Level (fi_Finding r)) @ '' file='' @ fi_Path r @ '',line='' @ go_format_int (hf_Line (fi_Finding r))
     @ '',col='' @ go_format_int (hf_Column (fi_Finding r)) @ '',title='' @ hf_Code (fi_Finding r) @ ''::''
     @ sanitizeMessage (hf_Message (fi_Finding r)) @ [newline]"

fun Render_actions :: "(string \<Rightarrow> string \<Rightarrow> bool) \<Rightarrow> Finding list \<Rightarrow> string \<Rightarrow> bool \<times> string" where
  "Render_actions takes [] out = (True, out)"
| "Render_actions takes (r # rs) out =
     (let (ok, out) = write_out takes (annotation r) out in if \<not> ok then (False, out) else Render_actions takes rs out)"

definition ansi :: "string \<Rightarrow> string" where "ansi code = CHR 0x1B # ''['' @ code @ ''m''"

definition boldLabel :: "string \<Rightarrow> bool \<Rightarrow> string" where
  "boldLabel label color = (if \<not> color then label else ansi ''1'' @ label @ ansi ''0'')"

definition FormatLevel :: "string \<Rightarrow> bool \<Rightarrow> string" where
  "FormatLevel level color =
     (let upper = go_to_upper level in
      if \<not> color then upper
      else if level = ''error'' then ansi ''91'' @ upper @ ansi ''0''
      else if level = ''warning'' then ansi ''93'' @ upper @ ansi ''0''
      else if level = ''info'' then ansi ''96'' @ upper @ ansi ''0''
      else if level = ''style'' then ansi ''2'' @ upper @ ansi ''0''
      else upper)"

definition hadolintWikiBase :: string where "hadolintWikiBase = ''https://github.com/hadolint/hadolint/wiki/''"

definition terminal_rows :: "bool \<Rightarrow> Finding \<Rightarrow> (string \<times> string) list" where
  "terminal_rows color r =
     (let finding = fi_Finding r in
      [(''Code'', hf_Code finding),
       (''Severity'', FormatLevel (hf_Level finding) color),
       (''Location'', fi_FullPath r @ '':'' @ go_format_int (hf_Line finding) @ '':'' @ go_format_int (hf_Column finding)),
       (''Link'', hadolintWikiBase @ hf_Code finding),
       (''Description'', hf_Message finding)])"

text \<open>\<open>tabbed\<close> lays the cells of a table out; the table of a finding is written when it is flushed.\<close>

fun Render_terminal ::
  "(string \<Rightarrow> string) \<Rightarrow> (string \<Rightarrow> string \<Rightarrow> bool) \<Rightarrow> bool \<Rightarrow> Finding list \<Rightarrow> string \<Rightarrow> bool \<times> string" where
  "Render_terminal tabbed takes color [] out = (True, out)"
| "Render_terminal tabbed takes color (r # rs) out =
     (let cells = concat (map (\<lambda>(label, txt). boldLabel label color @ [CHR 0x09] @ txt @ [newline]) (terminal_rows color r));
          (ok, out) = write_out takes (tabbed cells) out in
      if \<not> ok then (False, out)
      else if rs = [] then (True, out)
      else let (ok, out) = write_out takes [newline] out in
        if \<not> ok then (False, out) else Render_terminal tabbed takes color rs out)"

definition StdoutSupportsColor :: "(string \<Rightarrow> string) \<Rightarrow> bool \<Rightarrow> bool" where
  "StdoutSupportsColor getenv isTerminal =
     (if getenv ''CI'' \<noteq> [] then True else if getenv ''NO_COLOR'' \<noteq> [] then False else isTerminal)"

definition Render_codeclimate ::
  "(string \<Rightarrow> string) \<Rightarrow> (CodeQualityEntry list \<Rightarrow> string option) \<Rightarrow> (nat \<Rightarrow> nat) \<Rightarrow> string \<Rightarrow> Finding list \<Rightarrow> filesys \<Rightarrow> bool \<times> filesys" where
  "Render_codeclimate sha marshal umask path findings fs =
     (let entries = map (\<lambda>r. ToCodeQuality sha (fi_Finding r) (fi_Path r)) findings in
      case marshal entries of
        None \<Rightarrow> (False, fs)
      | Some data \<Rightarrow>
          let dir = go_dir path;
              (err, fs) = (if dir \<noteq> ''.'' \<and> dir \<noteq> [] then os_MkdirAll umask dir 493 fs else (None, fs)) in
          if err \<noteq> None then (False, fs)
          else let (err, fs) = os_WriteFile umask path data 420 fs in (err = None, fs))"

section \<open>The command (\<open>pkg/cli/lint.go\<close>)\<close>

record 'h lint_env =
  le_lib :: "'h hadolint_lib"
  le_sha :: "string \<Rightarrow> string"
  le_marshal :: "CodeQualityEntry list \<Rightarrow> string option"
  le_tabbed :: "string \<Rightarrow> string"
  le_takes :: "string \<Rightarrow> string \<Rightarrow> bool"
  le_umask :: "nat \<Rightarrow> nat"
  le_wd :: "string option"
  le_getenv :: "string \<Rightarrow> string"
  le_isTerminal :: bool
  le_symlinks :: "string \<Rightarrow> string option"

datatype lint_error = LinterFailed string | InvalidFormat format_error | RenderFailed string | FilesFailed nat

definition render_format :: "'h lint_env \<Rightarrow> Finding list \<Rightarrow> filesys \<times> string \<Rightarrow> FormatOption \<Rightarrow> bool \<times> filesys \<times> string" where
  "render_format e findings w opt =
     (let (fs, out) = w in
      if fo_Name opt = ''terminal'' then
        (let (ok, out) = Render_terminal (le_tabbed e) (le_takes e) (StdoutSupportsColor (le_getenv e) (le_isTerminal e)) findings out in (ok, fs, out))
      else if fo_Name opt = ''github-actions'' then (let (ok, out) = Render_actions (le_takes e) findings out in (ok, fs, out))
      else (let (ok, fs) = Render_codeclimate (le_sha e) (le_marshal e) (le_umask e) (fo_Path opt) findings fs in (ok, fs, out)))"

fun render_formats :: "'h lint_env \<Rightarrow> Finding list \<Rightarrow> FormatOption list \<Rightarrow> filesys \<times> string \<Rightarrow> lint_error option \<times> filesys \<times> string" where
  "render_formats e findings [] w = (None, w)"
| "render_formats e findings (opt # opts) w =
     (let (ok, w) = render_format e findings w opt in
      if \<not> ok then (Some (RenderFailed (fo_Name opt)), w) else render_formats e findings opts w)"

definition lint_verdict :: "Result \<Rightarrow> lint_error option" where
  "lint_verdict result =
     (if rs_LintedCount result = 0 then None
      else if rs_FailedCount result > 0 then Some (FilesFailed (rs_FailedCount result))
      else None)"

text \<open>The action for a discovered project; files and output are what it leaves.\<close>

definition lintCmd ::
  "'h lint_env \<Rightarrow> ContainerHiveProject \<Rightarrow> string \<Rightarrow> string list \<Rightarrow> filesys \<times> string \<Rightarrow> lint_error option \<times> filesys \<times> string" where
  "lintCmd e project threshold flags w =
     (let cfg = ResolveConfig (hc_Lint (pr_Config project)) threshold in
      case hadolint_NewLinter (le_lib e) (Some cfg) of
        Inl err \<Rightarrow> (Some (LinterFailed err), w)
      | Inr l \<Rightarrow>
          let projectRoot = (case le_symlinks e (pr_RootDir project) of Some resolved \<Rightarrow> resolved | None \<Rightarrow> pr_RootDir project) in
          (case ParseFormats flags of
             Inl err \<Rightarrow> (Some (InvalidFormat err), w)
           | Inr opts \<Rightarrow>
               let result = Lint \<lparr>ly_fs = fst w, ly_wd = le_wd e, ly_sha = le_sha e\<rparr> (LintSnippet (le_lib e) l) project projectRoot;
                   (err, w) = (if length (rs_Findings result) > 0 then render_formats e (rs_Findings result) opts w else (None, w)) in
               if err \<noteq> None then (err, w) else (lint_verdict result, w)))"

section \<open>Fingerprints\<close>

text \<open>Equal bytes are equal remainders, so equal numbers in the range of 64 bits.\<close>

lemma bytes_mod:
  assumes "\<forall>i < n. (a div 2 ^ (i * 8)) mod 256 = (b div 2 ^ (i * 8)) mod (256::int)"
  shows "a mod 2 ^ (n * 8) = b mod 2 ^ (n * 8)"
  using assms
proof (induction n)
  case (Suc n)
  have "x mod 2 ^ (Suc n * 8) = 2 ^ (n * 8) * ((x div 2 ^ (n * 8)) mod 256) + x mod 2 ^ (n * 8)" for x :: int
  proof -
    have "(2::int) ^ (Suc n * 8) = 2 ^ (n * 8) * 256" by (simp add: power_add)
    then show ?thesis using zmod_zmult2_eq[of 256 x "2 ^ (n * 8)"] by simp
  qed
  then show ?case using Suc by simp
qed simp

definition int64 :: "int \<Rightarrow> bool" where "int64 i \<longleftrightarrow> - (2 ^ 63) \<le> i \<and> i < 2 ^ 63"

lemma int64_mod: "int64 a \<Longrightarrow> int64 b \<Longrightarrow> a mod 2 ^ 64 = b mod 2 ^ 64 \<Longrightarrow> a = b"
proof -
  assume a: "int64 a" and b: "int64 b" and "a mod 2 ^ 64 = b mod 2 ^ 64"
  then have "(a + 2 ^ 63) mod 2 ^ 64 = (b + 2 ^ 63) mod 2 ^ 64" by (intro mod_add_cong refl)
  moreover have "(x + 2 ^ 63) mod 2 ^ 64 = x + 2 ^ 63" if "int64 x" for x
    using that by (intro mod_pos_pos_trivial) (simp_all add: int64_def)
  ultimately show "a = b" using a b by simp
qed

lemma line_bytes_inj:
  assumes "int64 a" and "int64 b" and "line_bytes a = line_bytes b"
  shows "a = b"
proof -
  have "(a div 2 ^ (i * 8)) mod 256 = (b div 2 ^ (i * 8)) mod 256" if "i < 8" for i
  proof -
    have "line_bytes a ! i = line_bytes b ! i" using assms(3) by simp
    then have "(char_of (nat ((a div 2 ^ (i * 8)) mod 256)) :: char) = char_of (nat ((b div 2 ^ (i * 8)) mod 256))"
      using that by (simp add: line_bytes_def)
    moreover have "of_char (char_of (nat (x mod 256)) :: char) = nat (x mod 256)" for x :: int
      by (simp only: of_char_of) (simp add: nat_less_iff)
    ultimately have "nat ((a div 2 ^ (i * 8)) mod 256) = nat ((b div 2 ^ (i * 8)) mod 256)" by metis
    then show ?thesis by (simp add: eq_nat_nat_iff)
  qed
  then have "a mod 2 ^ (8 * 8) = b mod 2 ^ (8 * 8)" by (intro bytes_mod) blast
  then show ?thesis using int64_mod[OF assms(1,2)] by simp
qed

lemma cut_at_byte:
  assumes "c \<notin> set a" and "c \<notin> set b" and "a @ c # x = b @ c # y"
  shows "a = b \<and> x = y"
  using assms
proof (induction a arbitrary: b)
  case Nil
  then show ?case by (cases b) auto
next
  case (Cons h a)
  then show ?case by (cases b) auto
qed

definition no_nul :: "string \<Rightarrow> bool" where "no_nul s \<longleftrightarrow> CHR 0x00 \<notin> set s"

text \<open>
  What is hashed for a finding identifies it by file, rule, message and line, and by nothing else: two findings have the same bytes exactly if they agree in
  these four.  The column is not among them, so findings of one rule on one line share their fingerprint.
\<close>

lemma fingerprint_identifies:
  assumes "no_nul path" and "no_nul path'" and "no_nul (hf_Code f)" and "no_nul (hf_Code f')"
    and "int64 (hf_Line f)" and "int64 (hf_Line f')"
  shows "fingerprint_input path f = fingerprint_input path' f' \<longleftrightarrow>
    path = path' \<and> hf_Code f = hf_Code f' \<and> hf_Message f = hf_Message f' \<and> hf_Line f = hf_Line f'"
proof
  assume "fingerprint_input path f = fingerprint_input path' f'"
  then have e: "path @ CHR 0x00 # (hf_Code f @ CHR 0x00 # (hf_Message f @ CHR 0x00 # line_bytes (hf_Line f)))
      = path' @ CHR 0x00 # (hf_Code f' @ CHR 0x00 # (hf_Message f' @ CHR 0x00 # line_bytes (hf_Line f')))"
    by (simp add: fingerprint_input_def)
  note p = cut_at_byte[OF assms(1)[unfolded no_nul_def] assms(2)[unfolded no_nul_def] e]
  note c = cut_at_byte[OF assms(3)[unfolded no_nul_def] assms(4)[unfolded no_nul_def] conjunct2[OF p]]
  have "length (line_bytes l) = 8" for l by (simp add: line_bytes_def)
  then have "hf_Message f = hf_Message f' \<and> line_bytes (hf_Line f) = line_bytes (hf_Line f')" using c by simp
  then show "path = path' \<and> hf_Code f = hf_Code f' \<and> hf_Message f = hf_Message f' \<and> hf_Line f = hf_Line f'"
    using p c line_bytes_inj[OF assms(5,6)] by blast
next
  assume "path = path' \<and> hf_Code f = hf_Code f' \<and> hf_Message f = hf_Message f' \<and> hf_Line f = hf_Line f'"
  then show "fingerprint_input path f = fingerprint_input path' f'" by (simp add: fingerprint_input_def)
qed

definition demo_finding :: hadolint_finding where
  "demo_finding = \<lparr>hf_File = ''-'', hf_Line = 3, hf_Column = 1, hf_Level = ''warning'', hf_Code = ''DL3008'', hf_Message = ''Pin versions''\<rparr>"

lemma fingerprint_identifies_witness:
  "fingerprint_input ''Dockerfile'' demo_finding \<noteq> fingerprint_input ''Dockerfile'' (demo_finding\<lparr>hf_Line := 259\<rparr>)
   \<and> fingerprint_input ''Dockerfile'' demo_finding = fingerprint_input ''Dockerfile'' (demo_finding\<lparr>hf_Column := 40\<rparr>)"
proof -
  have h: "no_nul ''Dockerfile''" "no_nul (hf_Code demo_finding)" "int64 (hf_Line demo_finding)"
      "no_nul (hf_Code (demo_finding\<lparr>hf_Line := 259\<rparr>))" "int64 (hf_Line (demo_finding\<lparr>hf_Line := 259\<rparr>))"
      "no_nul (hf_Code (demo_finding\<lparr>hf_Column := 40\<rparr>))" "int64 (hf_Line (demo_finding\<lparr>hf_Column := 40\<rparr>))"
    by (simp_all add: no_nul_def int64_def demo_finding_def)
  show ?thesis
    using fingerprint_identifies[OF h(1,1,2,4,3,5)] fingerprint_identifies[OF h(1,1,2,6,3,7)] by (simp add: demo_finding_def)
qed

section \<open>Annotations\<close>

lemma replaced_pair_absent:
  assumes "new \<noteq> []" and "c \<notin> set new"
  shows "\<not> go_contains (go_replace_all [c, c] new s) [c, c]
    \<and> (\<forall>t. go_replace_all [c, c] new s = c # t \<longrightarrow> (\<exists>u. s = c # u))"
proof (induction "length s" arbitrary: s rule: less_induct)
  case less
  have skip: "\<not> go_contains (u @ t) [c, c]" if "c \<notin> set u" "\<not> go_contains t [c, c]" for u t
    using that by (induction u) (auto simp: go_contains_def)
  show ?case
  proof (cases s)
    case (Cons x r)
    show ?thesis
    proof (cases "prefix [c, c] s")
      case True
      then obtain rest where s: "s = c # c # rest" by (auto simp: prefix_def)
      have "\<not> go_contains (go_replace_all [c, c] new rest) [c, c]" using less[of rest] s by simp
      then have "\<not> go_contains (new @ go_replace_all [c, c] new rest) [c, c]" by (rule skip[OF assms(2)])
      then show ?thesis using s by (simp add: go_replace_all_Cons)
    next
      case False
      then have r: "go_replace_all [c, c] new s = x # go_replace_all [c, c] new r" using Cons by (auto simp: go_replace_all_Cons)
      note ih = less[of r]
      have "\<not> prefix [c, c] (x # go_replace_all [c, c] new r)"
      proof
        assume "prefix [c, c] (x # go_replace_all [c, c] new r)"
        then obtain t where "x = c" "go_replace_all [c, c] new r = c # t" by (cases "go_replace_all [c, c] new r") auto
        moreover then obtain u where "r = c # u" using ih Cons by auto
        ultimately show False using False Cons by simp
      qed
      then show ?thesis unfolding r using ih Cons by (auto simp: go_contains_def)
    qed
  qed (simp add: go_contains_def)
qed

lemma set_replaced: "set (go_replace_all old new s) \<subseteq> set s \<union> set new"
proof (induction "length s" arbitrary: s rule: less_induct)
  case less
  show ?case
  proof (cases s)
    case (Cons x r)
    show ?thesis
    proof (cases "old \<noteq> [] \<and> prefix old s")
      case True
      have "set (go_replace_all old new (drop (length old) s)) \<subseteq> set (drop (length old) s) \<union> set new"
        using True Cons by (intro less) simp
      moreover have "set (drop (length old) s) \<subseteq> set s" by (rule set_drop_subset)
      ultimately show ?thesis using True Cons by (auto simp: go_replace_all_Cons)
    next
      case False
      then show ?thesis using Cons less[of r] by (auto simp: go_replace_all_Cons)
    qed
  qed simp
qed

lemma replaced_byte_absent: "c \<notin> set new \<Longrightarrow> c \<notin> set (go_replace_all [c] new s)"
  by (induction s) (auto simp: go_replace_all_Cons)

lemma sanitized:
  "newline \<notin> set (sanitizeMessage msg)" "carriage_return \<notin> set (sanitizeMessage msg)" "\<not> go_contains (sanitizeMessage msg) ''::''"
proof -
  let ?m = "go_replace_all [carriage_return] [] (go_replace_all [carriage_return, newline] [newline] msg)"
  let ?n = "go_replace_all [newline] ''%0A'' ?m"
  have s: "sanitizeMessage msg = go_replace_all ''::'' ''%3A%3A'' ?n" by (simp add: sanitizeMessage_def)
  have "newline \<notin> set ?n" by (rule replaced_byte_absent) (simp add: newline_def)
  moreover have "newline \<notin> set ''%3A%3A''" by (simp add: newline_def)
  ultimately show "newline \<notin> set (sanitizeMessage msg)" unfolding s using set_replaced by blast
  have "carriage_return \<notin> set ?m" by (rule replaced_byte_absent) simp
  moreover have "carriage_return \<notin> set ''%0A'' \<union> set ''%3A%3A''" by (simp add: carriage_return_def)
  ultimately show "carriage_return \<notin> set (sanitizeMessage msg)" unfolding s using set_replaced by blast
  show "\<not> go_contains (sanitizeMessage msg) ''::''"
    unfolding s using replaced_pair_absent[of "''%3A%3A''" "CHR '':''" ?n] by simp
qed

lemma format_int_chars: "newline \<notin> set (go_format_int i)"
  using set_go_itoa[of "nat i"] set_go_itoa[of "nat (- i)"] by (auto simp: go_format_int_def newline_def)

lemma annotation_line:
  assumes "newline \<notin> set (fi_Path r)" and "newline \<notin> set (hf_Code (fi_Finding r))"
  shows "\<exists>line. annotation r = line @ [newline] \<and> newline \<notin> set line \<and> line = butlast (annotation r)"
proof -
  let ?f = "fi_Finding r"
  let ?line = "''::'' @ mapSeverityToCommand (hf_Level ?f) @ '' file='' @ fi_Path r @ '',line='' @ go_format_int (hf_Line ?f)
     @ '',col='' @ go_format_int (hf_Column ?f) @ '',title='' @ hf_Code ?f @ ''::'' @ sanitizeMessage (hf_Message ?f)"
  have a: "annotation r = ?line @ [newline]" by (simp add: annotation_def)
  have "newline \<notin> set (mapSeverityToCommand (hf_Level ?f))" by (simp add: mapSeverityToCommand_def newline_def)
  moreover have "newline \<notin> set ''::''" "newline \<notin> set '' file=''" "newline \<notin> set '',line=''" "newline \<notin> set '',col=''" "newline \<notin> set '',title=''"
    by (simp_all add: newline_def)
  ultimately have "newline \<notin> set ?line"
    unfolding set_append using assms sanitized(1)[of "hf_Message ?f"] format_int_chars by (simp only: Un_iff) simp
  then show ?thesis using a by (intro exI[of _ ?line]) (simp only: butlast_snoc, simp)
qed

text \<open>
  The GitHub report has one annotation per finding, in order, each on a line of its own, whatever the messages contain; and a message can neither break
  the line nor hold the two colons that open a command.
\<close>

lemma annotations_one_per_finding:
  assumes "\<forall>r \<in> set rs. newline \<notin> set (fi_Path r) \<and> newline \<notin> set (hf_Code (fi_Finding r))"
  shows "Render_actions (\<lambda>_ _. True) rs [] = (True, concat (map annotation rs))
    \<and> go_split newline (concat (map annotation rs)) = map (butlast \<circ> annotation) rs @ [[]]
    \<and> (\<forall>r \<in> set rs. \<exists>cmd. butlast (annotation r) = cmd @ ''::'' @ sanitizeMessage (hf_Message (fi_Finding r))
        \<and> \<not> go_contains (sanitizeMessage (hf_Message (fi_Finding r))) ''::'')"
proof (intro conjI)
  have "Render_actions (\<lambda>_ _. True) rs out = (True, out @ concat (map annotation rs))" for out
    by (induction rs arbitrary: out) (simp_all add: write_out_def)
  then show "Render_actions (\<lambda>_ _. True) rs [] = (True, concat (map annotation rs))" by simp
  show "go_split newline (concat (map annotation rs)) = map (butlast \<circ> annotation) rs @ [[]]"
    using assms
  proof (induction rs)
    case (Cons r rs)
    then obtain line where line: "annotation r = line @ [newline]" "newline \<notin> set line" "line = butlast (annotation r)"
      using annotation_line[of r] by auto
    show ?case using Cons go_split_append[OF line(2)] by (simp add: line(1))
  qed (simp add: go_split.simps)
  show "\<forall>r \<in> set rs. \<exists>cmd. butlast (annotation r) = cmd @ ''::'' @ sanitizeMessage (hf_Message (fi_Finding r))
        \<and> \<not> go_contains (sanitizeMessage (hf_Message (fi_Finding r))) ''::''"
    using sanitized(3) by (intro ballI) (auto simp: annotation_def butlast_append)
qed

lemma annotations_one_per_finding_witness:
  "length (go_split newline (concat (map annotation
     [\<lparr>fi_Finding = demo_finding\<lparr>hf_Message := ''a'' @ [newline] @ ''::error::b''\<rparr>, fi_Path = ''x/Dockerfile'', fi_FullPath = ''/x/Dockerfile''\<rparr>]))) = 2"
proof -
  let ?rs = "[\<lparr>fi_Finding = demo_finding\<lparr>hf_Message := ''a'' @ [newline] @ ''::error::b''\<rparr>, fi_Path = ''x/Dockerfile'', fi_FullPath = ''/x/Dockerfile''\<rparr>]"
  have "\<forall>r \<in> set ?rs. newline \<notin> set (fi_Path r) \<and> newline \<notin> set (hf_Code (fi_Finding r))"
    by (simp add: newline_def demo_finding_def)
  note split = conjunct1[OF conjunct2[OF annotations_one_per_finding[OF this]]]
  show ?thesis unfolding split by simp
qed

text \<open>But the message cannot be told from the annotation: a percent sign is not escaped.\<close>

lemma percent_not_escaped: "sanitizeMessage ''100%0A'' = sanitizeMessage (''100'' @ [newline])"
  by code_simp

section \<open>Format options\<close>

text \<open>The name and the path of an option, and when a list of options is accepted.\<close>

definition format_name :: "string \<Rightarrow> string" where "format_name raw = fst (go_cut raw (CHR ''=''))"
definition format_path :: "string \<Rightarrow> string" where "format_path raw = fst (snd (go_cut raw (CHR ''='')))"

definition format_ok :: "string \<Rightarrow> bool" where
  "format_ok raw \<longleftrightarrow> format_name raw \<noteq> [] \<and> (\<exists>hasPath. mget formatPrototypes (format_name raw) = Some hasPath \<and> (hasPath \<longleftrightarrow> format_path raw \<noteq> []))"

lemma parse_format_step:
  "if format_ok raw \<and> format_name raw \<notin> set seen
   then parse_format (seen, out) raw = Inr (format_name raw # seen, out @ [\<lparr>fo_Name = format_name raw, fo_Path = format_path raw\<rparr>])
   else \<exists>e. parse_format (seen, out) raw = Inl e"
proof -
  obtain name path found where c: "go_cut raw (CHR ''='') = (name, path, found)" by (cases "go_cut raw (CHR ''='')")
  show ?thesis
    by (cases "mget formatPrototypes name")
      (auto simp: parse_format_def c format_ok_def format_name_def format_path_def Let_def)
qed

lemma parse_formats_fold:
  "if (\<forall>raw \<in> set flags. format_ok raw) \<and> distinct (map format_name flags) \<and> set (map format_name flags) \<inter> set seen = {}
   then res_fold parse_format (seen, out) flags =
     Inr (rev (map format_name flags) @ seen, out @ map (\<lambda>raw. \<lparr>fo_Name = format_name raw, fo_Path = format_path raw\<rparr>) flags)
   else \<exists>e. res_fold parse_format (seen, out) flags = Inl e"
proof (induction flags arbitrary: seen out)
  case (Cons raw flags)
  show ?case
  proof (cases "format_ok raw \<and> format_name raw \<notin> set seen")
    case True
    then have "parse_format (seen, out) raw = Inr (format_name raw # seen, out @ [\<lparr>fo_Name = format_name raw, fo_Path = format_path raw\<rparr>])"
      using parse_format_step[of raw seen out] by simp
    then show ?thesis using Cons[of "format_name raw # seen" "out @ [\<lparr>fo_Name = format_name raw, fo_Path = format_path raw\<rparr>]"] True by auto
  next
    case False
    then obtain e where "parse_format (seen, out) raw = Inl e" using parse_format_step[of raw seen out] by auto
    then show ?thesis using False by auto
  qed
qed simp

text \<open>
  Formats are accepted exactly if each is known and named once, and those that write a file, and no others, come with a path; the options are
  then those given, in order, and the terminal without any.
\<close>

lemma parse_formats_spec:
  "(case ParseFormats flags of
      Inr opts \<Rightarrow> (\<forall>raw \<in> set flags. format_ok raw) \<and> distinct (map format_name flags)
        \<and> opts = (if flags = [] then [\<lparr>fo_Name = ''terminal'', fo_Path = []\<rparr>]
            else map (\<lambda>raw. \<lparr>fo_Name = format_name raw, fo_Path = format_path raw\<rparr>) flags)
    | Inl _ \<Rightarrow> \<not> ((\<forall>raw \<in> set flags. format_ok raw) \<and> distinct (map format_name flags)))"
proof (cases "(\<forall>raw \<in> set flags. format_ok raw) \<and> distinct (map format_name flags)")
  case True
  then show ?thesis using parse_formats_fold[of flags "[]" "[]"] by (simp add: ParseFormats_def)
next
  case False
  then obtain e where "res_fold parse_format ([], []) flags = Inl e"
    using parse_formats_fold[of flags "[]" "[]"] by (auto split: if_splits)
  then show ?thesis using False by (auto simp: ParseFormats_def)
qed

section \<open>Results and the verdict\<close>

definition is_dockerfile :: "string \<Rightarrow> bool" where
  "is_dockerfile path \<longleftrightarrow> RemoveTemplateExt path = path \<and> go_base path = ''Dockerfile''"

text \<open>The plain Dockerfiles of a project, each with the parent it is linted with, and what linting one gives.\<close>

definition entry_points :: "ContainerHiveProject \<Rightarrow> (string \<times> string) list" where
  "entry_points project = concat (map (\<lambda>(_, img). (img_BuildEntryPointPath img, BuildHiveParentRef img)
     # map (\<lambda>(_, v). (var_BuildEntryPointPath v, BuildHiveParentRef img)) (img_Variants img)) (pr_ImagesByIdentifier project))"

definition dockerfiles :: "ContainerHiveProject \<Rightarrow> (string \<times> string) list" where
  "dockerfiles project = filter (is_dockerfile \<circ> fst) (entry_points project)"

definition analysis :: "lint_sys \<Rightarrow> (string \<Rightarrow> string + hadolint_result) \<Rightarrow> string \<times> string \<Rightarrow> hadolint_result option" where
  "analysis sys snippet ep =
     (case os_ReadFile (ly_fs sys) (fst ep) of
        Inl _ \<Rightarrow> None
      | Inr content \<Rightarrow> (case snippet (SubstituteHiveParent content (snd ep)) of Inl _ \<Rightarrow> None | Inr out \<Rightarrow> Some out))"

definition passes :: "lint_sys \<Rightarrow> (string \<Rightarrow> string + hadolint_result) \<Rightarrow> string \<times> string \<Rightarrow> bool" where
  "passes sys snippet ep \<longleftrightarrow> (\<exists>out. analysis sys snippet ep = Some out \<and> hr_ExitCode out = 0)"

definition findings_of :: "lint_sys \<Rightarrow> (string \<Rightarrow> string + hadolint_result) \<Rightarrow> string \<Rightarrow> string \<times> string \<Rightarrow> Finding list" where
  "findings_of sys snippet root ep =
     (case analysis sys snippet ep of
        None \<Rightarrow> []
      | Some out \<Rightarrow> map (\<lambda>f. \<lparr>fi_Finding = f, fi_Path = relativeReportPath sys root (fst ep),
          fi_FullPath = (case filepath_Abs (ly_wd sys) (fst ep) of Some p \<Rightarrow> p | None \<Rightarrow> fst ep)\<rparr>) (hr_Findings out))"

definition code_quality :: "lint_sys \<Rightarrow> Finding list \<Rightarrow> CodeQualityEntry list" where
  "code_quality sys fs = map (\<lambda>r. ToCodeQuality (ly_sha sys) (fi_Finding r) (fi_Path r)) fs"

lemma collect_findings:
  "fold (\<lambda>f res. res\<lparr>rs_CodeQuality := rs_CodeQuality res @ [q f], rs_Findings := rs_Findings res @ [g f]\<rparr>) fs res
    = res\<lparr>rs_CodeQuality := rs_CodeQuality res @ map q fs, rs_Findings := rs_Findings res @ map g fs\<rparr>"
  by (induction fs arbitrary: res) simp_all

lemma lintEntrypoint_step:
  "lintEntrypoint sys snippet path root ref res =
    (if \<not> is_dockerfile path then res
     else res\<lparr>rs_Findings := rs_Findings res @ findings_of sys snippet root (path, ref),
       rs_CodeQuality := rs_CodeQuality res @ code_quality sys (findings_of sys snippet root (path, ref)),
       rs_LintedCount := rs_LintedCount res + (if analysis sys snippet (path, ref) \<noteq> None then 1 else 0),
       rs_FailedCount := rs_FailedCount res + (if passes sys snippet (path, ref) then 0 else 1)\<rparr>)"
proof (cases "is_dockerfile path")
  case True
  then have d: "RemoveTemplateExt path = path" "go_base path = ''Dockerfile''" by (simp_all add: is_dockerfile_def)
  note un = lintEntrypoint_def findings_of_def analysis_def passes_def code_quality_def
  show ?thesis
  proof (cases "os_ReadFile (ly_fs sys) path")
    case (Inl e)
    then show ?thesis using True d by (simp add: un)
  next
    case (Inr content)
    then show ?thesis
      using True d by (cases "snippet (SubstituteHiveParent content ref)"; cases res) (simp_all add: un collect_findings Let_def o_def split: option.split)
  qed
next
  case False
  then show ?thesis by (auto simp: lintEntrypoint_def is_dockerfile_def)
qed

lemma Lint_entry_points:
  "Lint sys snippet project root = fold (\<lambda>(path, ref). lintEntrypoint sys snippet path root ref) (entry_points project) empty_result"
proof -
  have img: "lint_image sys snippet root img res = fold (\<lambda>(path, ref). lintEntrypoint sys snippet path root ref)
      ((img_BuildEntryPointPath img, BuildHiveParentRef img) # map (\<lambda>(_, v). (var_BuildEntryPointPath v, BuildHiveParentRef img)) (img_Variants img)) res" for img res
    by (simp add: lint_image_def Let_def fold_map comp_def split_def)
  have "fold (\<lambda>(_, img). lint_image sys snippet root img) imgs res
      = fold (\<lambda>(path, ref). lintEntrypoint sys snippet path root ref) (concat (map (\<lambda>(_, img). (img_BuildEntryPointPath img, BuildHiveParentRef img)
         # map (\<lambda>(_, v). (var_BuildEntryPointPath v, BuildHiveParentRef img)) (img_Variants img)) imgs)) res" for imgs res
    by (induction imgs arbitrary: res) (auto simp: img)
  then show ?thesis by (simp add: Lint_def entry_points_def)
qed

text \<open>Every plain Dockerfile counts once: analysed or not, passed or failed; findings and report entries go together.\<close>

lemma Lint_result:
  "Lint sys snippet project root =
    \<lparr>rs_Findings = concat (map (findings_of sys snippet root) (dockerfiles project)),
     rs_CodeQuality = code_quality sys (concat (map (findings_of sys snippet root) (dockerfiles project))),
     rs_LintedCount = length (filter (\<lambda>ep. analysis sys snippet ep \<noteq> None) (dockerfiles project)),
     rs_FailedCount = length (filter (\<lambda>ep. \<not> passes sys snippet ep) (dockerfiles project))\<rparr>"
proof -
  have "fold (\<lambda>(path, ref). lintEntrypoint sys snippet path root ref) eps res =
      res\<lparr>rs_Findings := rs_Findings res @ concat (map (findings_of sys snippet root) (filter (is_dockerfile \<circ> fst) eps)),
       rs_CodeQuality := rs_CodeQuality res @ code_quality sys (concat (map (findings_of sys snippet root) (filter (is_dockerfile \<circ> fst) eps))),
       rs_LintedCount := rs_LintedCount res + length (filter (\<lambda>ep. analysis sys snippet ep \<noteq> None) (filter (is_dockerfile \<circ> fst) eps)),
       rs_FailedCount := rs_FailedCount res + length (filter (\<lambda>ep. \<not> passes sys snippet ep) (filter (is_dockerfile \<circ> fst) eps))\<rparr>" for eps res
  proof (induction eps arbitrary: res)
    case (Cons ep eps)
    obtain path ref where ep: "ep = (path, ref)" by (cases ep)
    note ih = Cons.IH[of "lintEntrypoint sys snippet path root ref res"]
    show ?case
      unfolding ep fold_Cons comp_apply prod.case unfolding ih unfolding lintEntrypoint_step[of sys snippet path root ref res]
      by (cases "is_dockerfile path"; cases "analysis sys snippet (path, ref)"; cases res)
        (simp_all add: code_quality_def comp_def)
  qed (simp add: code_quality_def)
  then show ?thesis by (simp add: Lint_entry_points dockerfiles_def empty_result_def)
qed


text \<open>A project whose only Dockerfile hadolint cannot analyse.\<close>

definition broken_lib :: "unit hadolint_lib" where
  "broken_lib = \<lparr>hl_NewHadolinter = Inr (), hl_Version = (\<lambda>_. ''2''), hl_NewHadolinterFromPATH = Inl [], hl_AnalyzeSnippet = (\<lambda>_ _ _. Inl ''broken'')\<rparr>"

definition lint_demo_env :: "unit hadolint_lib \<Rightarrow> unit lint_env" where
  "lint_demo_env lib = \<lparr>le_lib = lib, le_sha = id, le_marshal = (\<lambda>_. None), le_tabbed = id, le_takes = (\<lambda>_ _. True), le_umask = id, le_wd = None,
     le_getenv = (\<lambda>_. []), le_isTerminal = False, le_symlinks = (\<lambda>_. None)\<rparr>"

definition lint_demo_project :: ContainerHiveProject where
  "lint_demo_project = \<lparr>pr_RootDir = ''/p'', pr_ConfigFilePath = [], pr_Config = zero_HiveProjectConfig, pr_ImagesByIdentifier = [(''a'', zero_Image\<lparr>img_Name := ''a'', img_BuildEntryPointPath := ''/p/Dockerfile''\<rparr>)],
     pr_ImagesByName = []\<rparr>"

definition lint_demo_fs :: filesys where
  "lint_demo_fs = [(path_key ''/p/Dockerfile'', RegularFile ''FROM a'' 420), (path_key ''/p'', Directory 493)]"

definition strict_lib :: "unit hadolint_lib" where
  "strict_lib = broken_lib\<lparr>hl_AnalyzeSnippet := (\<lambda>_ _ _. Inr \<lparr>hr_Findings = [demo_finding], hr_ExitCode = 1\<rparr>)\<rparr>"

lemma demo_dockerfiles: "dockerfiles lint_demo_project = [(''/p/Dockerfile'', ''__hive__/a:hive-parent'')]"
  by code_simp

lemma demo_readable:
  "os_ReadFile lint_demo_fs ''/p/Dockerfile'' = Inr ''FROM a''"
  by code_simp


text \<open>A linter that does not work at all passes every project.\<close>

lemma broken_linter_passes:
  "fst (lintCmd (lint_demo_env broken_lib) lint_demo_project [] [] (lint_demo_fs, [])) = None"
  by code_simp

end
