(* ===== verification/Tar_Extract.thy ===== *)
theory Tar_Extract
  imports Disk_Copy
begin

text \<open>
  Unpacking of image archives (\<open>internal/utils/tar.go\<close>) into a directory.  The reader of \<open>archive/tar\<close> is a parameter: it yields the entries of the file's
  content, the end of the archive or an error.  The archive is read as it was when opened, so it must not lie where it is unpacked.  Files are those of \<open>Go_Files\<close>; as these have no
  links, the calls of \<open>os.Root\<close> are those of \<open>os\<close> on the joined path, for local names.
\<close>

section \<open>Local names (\<open>filepath.IsLocal\<close>)\<close>

definition is_local :: "string \<Rightarrow> bool" where
  "is_local path =
     (if is_abs path \<or> path = [] then False
      else
        let hasDots = (\<exists>part \<in> set (go_split slash path). part = ''.'' \<or> part = ''..'');
            path = (if hasDots then go_clean path else path) in
        \<not> (path = ''..'' \<or> go_has_prefix path ''../''))"

section \<open>Archives\<close>

record tar_entry =
  te_Name :: string
  te_Typeflag :: char
  te_data :: string
  te_broken :: bool

text \<open>The entries up to the end; an error of the reader ends them, too.  A broken entry breaks off behind its data.\<close>

record archive =
  ar_entries :: "tar_entry list"
  ar_error :: "string option"

definition TypeReg :: char where "TypeReg = CHR ''0''"
definition TypeDir :: char where "TypeDir = CHR ''5''"

datatype tar_error = OpenFailed os_error | TarFailed string | Escapes string | ExtractFailed os_error | CopyFailed string

section \<open>Extraction (\<open>ExtractTar\<close>)\<close>

definition root_path :: "string \<Rightarrow> string \<Rightarrow> string" where
  "root_path destDir name = go_path_join [destDir, name]"

definition extract_dir :: "(nat \<Rightarrow> nat) \<Rightarrow> string \<Rightarrow> string \<Rightarrow> filesys \<Rightarrow> tar_error option \<times> filesys" where
  "extract_dir umask destDir name fs =
     (let (err, fs) = os_MkdirAll umask (root_path destDir name) 493 fs in (map_option ExtractFailed err, fs))"

definition extract_file :: "(nat \<Rightarrow> nat) \<Rightarrow> string \<Rightarrow> string \<Rightarrow> tar_entry \<Rightarrow> filesys \<Rightarrow> tar_error option \<times> filesys" where
  "extract_file umask destDir name hdr fs =
     (let (err, fs) = os_MkdirAll umask (root_path destDir (go_dir name)) 493 fs in
      case err of
        Some e \<Rightarrow> (Some (ExtractFailed e), fs)
      | None \<Rightarrow>
          let (err, fs) = os_Create umask (root_path destDir name) fs in
          (case err of
             Some e \<Rightarrow> (Some (ExtractFailed e), fs)
           | None \<Rightarrow>
               let (_, fs) = os_WriteFile umask (root_path destDir name) (te_data hdr) 438 fs in
               (if te_broken hdr then Some (CopyFailed (te_Name hdr)) else None, fs)))"

definition extract_entry :: "(nat \<Rightarrow> nat) \<Rightarrow> string \<Rightarrow> tar_entry \<Rightarrow> filesys \<Rightarrow> tar_error option \<times> filesys" where
  "extract_entry umask destDir hdr fs =
     (let name = go_clean (te_Name hdr) in
      if \<not> is_local name then (Some (Escapes (te_Name hdr)), fs)
      else if te_Typeflag hdr = TypeDir then extract_dir umask destDir name fs
      else if te_Typeflag hdr = TypeReg then extract_file umask destDir name hdr fs
      else (None, fs))"

fun extract_entries :: "(nat \<Rightarrow> nat) \<Rightarrow> string \<Rightarrow> tar_entry list \<Rightarrow> string option \<Rightarrow> filesys \<Rightarrow> tar_error option \<times> filesys" where
  "extract_entries umask destDir [] end_error fs = (map_option TarFailed end_error, fs)"
| "extract_entries umask destDir (hdr # hdrs) end_error fs =
     (let (err, fs) = extract_entry umask destDir hdr fs in
      if err \<noteq> None then (err, fs) else extract_entries umask destDir hdrs end_error fs)"

definition archive_of :: "(string \<Rightarrow> archive) \<Rightarrow> fnode \<Rightarrow> archive" where
  "archive_of read_tar node =
     (case node of RegularFile data _ \<Rightarrow> read_tar data | Directory _ \<Rightarrow> \<lparr>ar_entries = [], ar_error = Some ''is a directory''\<rparr>)"

definition ExtractTar :: "(string \<Rightarrow> archive) \<Rightarrow> (nat \<Rightarrow> nat) \<Rightarrow> string \<Rightarrow> string \<Rightarrow> filesys \<Rightarrow> tar_error option \<times> filesys" where
  "ExtractTar read_tar umask tarPath destDir fs =
     (case os_Stat fs tarPath of
        Inl e \<Rightarrow> (Some (OpenFailed e), fs)
      | Inr node \<Rightarrow>
          let ar = archive_of read_tar node;
              (err, fs) = os_MkdirAll umask destDir 493 fs in
          case err of
            Some e \<Rightarrow> (Some (ExtractFailed e), fs)
          | None \<Rightarrow> extract_entries umask destDir (ar_entries ar) (ar_error ar) fs)"

section \<open>Where local names lead\<close>

lemma go_join_snoc: "es \<noteq> [] \<Longrightarrow> go_join sep (es @ [c]) = go_join sep es @ sep @ c"
  by (induction sep es rule: go_join.induct) auto

lemma go_dir_app: "slash \<notin> set c \<Longrightarrow> go_dir (a @ slash # c) = go_clean (a @ [slash])"
  by (simp add: go_dir_def go_last_index_byte_append)

lemma go_dir_name: "slash \<notin> set c \<Longrightarrow> go_dir c = ''.''"
  by (simp add: go_dir_def go_last_index_byte_None_iff[THEN iffD2])

lemma join_plain_split: "list_all plain_name es \<Longrightarrow> es \<noteq> [] \<Longrightarrow> go_split slash (go_join ''/'' es) = es"
  using go_split_join[of es slash] by (simp add: list_all_iff plain_name_def slash_def)

lemma go_dir_plain:
  assumes "list_all plain_name (es @ [c])"
  shows "go_dir (path_of False (es @ [c])) = path_of False es"
proof (cases "es = []")
  case True
  then show ?thesis using assms by (simp add: path_of_def go_dir_name plain_name_def)
next
  case False
  have ns: "slash \<notin> set c" using assms by (simp add: plain_name_def)
  have j: "go_join ''/'' (es @ [c]) = go_join ''/'' es @ slash # c" using go_join_snoc[OF False, of "''/''"] by (simp add: slash_def)
  have n: "go_join ''/'' es \<noteq> [] \<and> \<not> is_abs (go_join ''/'' es)" using join_ne[OF False] assms by simp
  then have a: "\<not> is_abs (go_join ''/'' es @ [slash])" by (cases "go_join ''/'' es") (auto simp: is_abs_def go_has_prefix_def)
  have s: "go_split slash (go_join ''/'' es @ [slash]) = es @ [[]]"
    using go_split_app[of slash "go_join ''/'' es" "[]"] join_plain_split[of es] assms False by simp
  show ?thesis
    using False assms by (simp add: path_of_def j go_dir_app[OF ns] go_clean_def a clean_elems_def s clean_plain clean_step_def)
qed

lemma local_elems:
  assumes "is_local (go_clean n)"
  shows "\<not> is_abs n" and "list_all plain_name (clean_elems n)"
proof -
  have rel: "\<not> is_abs (go_clean n)" using assms by (auto simp: is_local_def split: if_splits)
  show "\<not> is_abs n" using rel by (auto simp: go_clean_def path_of_def is_abs_def go_has_prefix_def)
  then obtain k qs where es: "clean_elems n = replicate k ''..'' @ qs" "list_all plain_name qs"
    using canonical_clean[of n] by (auto simp: canonical_def)
  have "k = 0"
  proof (rule ccontr)
    assume "k \<noteq> 0"
    then obtain es' where e: "clean_elems n = ''..'' # es'" using es(1) by (cases k) auto
    have c: "go_clean n = go_join ''/'' (''..'' # es')" using \<open>\<not> is_abs n\<close> e by (simp add: go_clean_def path_of_def)
    have "go_clean (go_clean n) = go_clean n"
    proof -
      have "path_key (path_of False (clean_elems n)) = (False, clean_elems n)"
        using canonical_clean[of n] \<open>\<not> is_abs n\<close> by (intro path_key_path_of) simp
      then show ?thesis using \<open>\<not> is_abs n\<close> by (simp add: go_clean_def path_key_def)
    qed
    moreover have "go_clean n = ''..'' \<or> go_has_prefix (go_clean n) ''../''"
      unfolding c by (cases es') (simp_all add: go_has_prefix_def)
    ultimately show False using assms by (auto simp: is_local_def Let_def split: if_splits)
  qed
  then show "list_all plain_name (clean_elems n)" using es by simp
qed

lemma root_path_key:
  assumes "list_all plain_name es"
  shows "path_key (root_path d (path_of False es)) = (is_abs d, clean_elems d @ es)"
proof (cases "es = []")
  case True
  show ?thesis
  proof (cases "d = []")
    case True
    then show ?thesis using \<open>es = []\<close> by (simp add: root_path_def path_of_def) code_simp
  next
    case False
    have a: "is_abs (d @ slash # ''.'') = is_abs d" using False by (cases d) (simp_all add: is_abs_def go_has_prefix_def)
    have "go_clean (d @ slash # ''.'') = path_of (is_abs d) (clean_elems d)"
      unfolding go_clean_def clean_elems_def a go_split_app by (simp add: clean_step_def slash_def)
    then show ?thesis
      using True False path_key_path_of[OF canonical_clean[of d]] by (simp add: root_path_def path_of_def go_path_join_def slash_def)
  qed
next
  case False
  then have "go_path_join [d, go_join ''/'' es] = go_path_join (d # es)"
  proof -
    have ne: "filter (\<lambda>p. p \<noteq> []) es = es" using assms by (auto simp: list_all_iff plain_name_def intro: filter_True)
    have "go_join ''/'' es \<noteq> []" using join_ne[OF False assms] by simp
    then show ?thesis using ne False by (cases es) (simp_all add: go_path_join_def)
  qed
  then show ?thesis using path_key_join[OF False assms, of d] False by (simp add: root_path_def path_of_def)
qed

definition entry_key :: "string \<Rightarrow> tar_entry \<Rightarrow> fpath" where
  "entry_key destDir hdr = (is_abs destDir, clean_elems destDir @ clean_elems (te_Name hdr))"

lemma entry_path:
  assumes "is_local (go_clean (te_Name hdr))"
  shows "path_key (root_path d (go_clean (te_Name hdr))) = entry_key d hdr"
    and "under (path_key d) (path_key (root_path d (go_dir (go_clean (te_Name hdr)))))"
proof -
  note l = local_elems[OF assms]
  have c: "go_clean (te_Name hdr) = path_of False (clean_elems (te_Name hdr))" using l(1) by (simp add: go_clean_def)
  show "path_key (root_path d (go_clean (te_Name hdr))) = entry_key d hdr"
    unfolding c entry_key_def by (rule root_path_key[OF l(2)])
  show "under (path_key d) (path_key (root_path d (go_dir (go_clean (te_Name hdr)))))"
  proof (cases "clean_elems (te_Name hdr)" rule: rev_cases)
    case Nil
    then show ?thesis using root_path_key[of "[]" d] by (simp add: c path_of_def go_dir_name slash_def under_def path_key_def)
  next
    case (snoc es x)
    then show ?thesis using l(2) root_path_key[of es d] by (simp add: c go_dir_plain under_def path_key_def)
  qed
qed

section \<open>Confinement\<close>

lemma extract_file_steps:
  assumes "extract_file umask d name hdr fs = (err, fs')"
  shows "\<exists>e1 fs1. os_MkdirAll umask (root_path d (go_dir name)) 493 fs = (e1, fs1) \<and>
     (if e1 \<noteq> None then fs' = fs1 \<and> err \<noteq> None
      else \<exists>e2 fs2. os_Create umask (root_path d name) fs1 = (e2, fs2) \<and>
        (if e2 \<noteq> None then fs' = fs2 \<and> err \<noteq> None
         else fs' = snd (os_WriteFile umask (root_path d name) (te_data hdr) 438 fs2)))"
proof (cases "os_MkdirAll umask (root_path d (go_dir name)) 493 fs")
  case mk: (Pair e1 fs1)
  show ?thesis
  proof (cases e1)
    case None
    obtain e2 fs2 where "os_Create umask (root_path d name) fs1 = (e2, fs2)" by (rule prod.exhaust)
    then show ?thesis using assms mk None by (cases e2) (auto simp: extract_file_def split: prod.splits)
  qed (use assms mk in \<open>auto simp: extract_file_def\<close>)
qed

lemma extract_file_outside:
  assumes "extract_file umask d name hdr fs = (err, fs')"
    and "under (path_key d) (path_key (root_path d name))" "under (path_key d) (path_key (root_path d (go_dir name)))"
  shows "outside (path_key d) fs fs'"
proof -
  obtain e1 fs1 where mk: "os_MkdirAll umask (root_path d (go_dir name)) 493 fs = (e1, fs1)"
      and rest: "if e1 \<noteq> None then fs' = fs1 \<and> err \<noteq> None
        else \<exists>e2 fs2. os_Create umask (root_path d name) fs1 = (e2, fs2) \<and>
          (if e2 \<noteq> None then fs' = fs2 \<and> err \<noteq> None else fs' = snd (os_WriteFile umask (root_path d name) (te_data hdr) 438 fs2))"
    using extract_file_steps[OF assms(1)] by blast
  have first: "outside (path_key d) fs fs1" using elsewhere.MkdirAll_R[OF mk] assms(3) by blast
  show ?thesis
  proof (cases "e1 = None")
    case True
    obtain e2 fs2 where cr: "os_Create umask (root_path d name) fs1 = (e2, fs2)"
        and last: "fs' = fs2 \<or> fs' = snd (os_WriteFile umask (root_path d name) (te_data hdr) 438 fs2)"
      using rest True by (auto split: if_splits)
    have "outside (path_key d) fs1 fs2" using elsewhere.Create_R[OF cr] assms(2) by blast
    moreover have "outside (path_key d) fs2 fs'"
      using last elsewhere.WriteFile_R[OF prod.collapse[symmetric] assms(2)] elsewhere.R_refl by blast
    ultimately show ?thesis using first by (blast intro: outside_trans)
  next
    case False
    then show ?thesis using rest first by simp
  qed
qed

lemma extract_entry_outside:
  assumes "extract_entry umask d hdr fs = (err, fs')"
  shows "outside (path_key d) fs fs'"
proof (cases "is_local (go_clean (te_Name hdr)) \<and> te_Typeflag hdr \<in> {TypeDir, TypeReg}")
  case True
  note path = entry_path[OF conjunct1[OF True], of d]
  have in_d: "under (path_key d) (path_key (root_path d (go_clean (te_Name hdr))))"
    unfolding path(1) by (simp add: entry_key_def under_def path_key_def)
  show ?thesis
  proof (cases "te_Typeflag hdr = TypeDir")
    case dir: True
    then show ?thesis
      using assms True in_d elsewhere.MkdirAll_R[of umask "root_path d (go_clean (te_Name hdr))" 493 fs _ fs' "path_key d"]
      by (auto simp: extract_entry_def extract_dir_def split: prod.splits)
  next
    case False
    then have "extract_file umask d (go_clean (te_Name hdr)) hdr fs = (err, fs')"
      using assms True by (simp add: extract_entry_def)
    then show ?thesis using in_d path(2) by (rule extract_file_outside)
  qed
next
  case False
  then show ?thesis using assms by (auto simp: extract_entry_def Let_def elsewhere.R_refl split: if_splits)
qed

lemma extract_entries_outside: "extract_entries umask d hdrs e fs = (err, fs') \<Longrightarrow> outside (path_key d) fs fs'"
proof (induction hdrs arbitrary: fs)
  case (Cons hdr hdrs)
  obtain e1 fs1 where s: "extract_entry umask d hdr fs = (e1, fs1)" by (cases "extract_entry umask d hdr fs")
  show ?case
  proof (cases e1)
    case None
    then show ?thesis using Cons s extract_entry_outside[OF s] by (auto intro: outside_trans)
  qed (use Cons.prems s extract_entry_outside[OF s] in auto)
qed (simp add: elsewhere.R_refl)

section \<open>What is extracted\<close>

lemma extract_file_kept:
  assumes "extract_file umask d name hdr fs = (err, fs')" and "fs_node fs k = Some n" and "k \<noteq> path_key (root_path d name)"
  shows "fs_node fs' k = Some n"
proof -
  obtain e1 fs1 where mk: "os_MkdirAll umask (root_path d (go_dir name)) 493 fs = (e1, fs1)"
      and rest: "if e1 \<noteq> None then fs' = fs1 \<and> err \<noteq> None
        else \<exists>e2 fs2. os_Create umask (root_path d name) fs1 = (e2, fs2) \<and>
          (if e2 \<noteq> None then fs' = fs2 \<and> err \<noteq> None else fs' = snd (os_WriteFile umask (root_path d name) (te_data hdr) 438 fs2))"
    using extract_file_steps[OF assms(1)] by blast
  have one: "fs_node fs1 k = Some n" using MkdirAll_same[OF mk] assms(2) by blast
  show ?thesis
  proof (cases "e1 = None")
    case True
    obtain e2 fs2 where cr: "os_Create umask (root_path d name) fs1 = (e2, fs2)"
        and last: "fs' = fs2 \<or> fs' = snd (os_WriteFile umask (root_path d name) (te_data hdr) 438 fs2)"
      using rest True by (auto split: if_splits)
    have "fs_node fs2 k = Some n" using cr WriteFile_elsewhere assms(3) one by (simp add: os_Create_def)
    then show ?thesis using last WriteFile_elsewhere[OF prod.collapse[symmetric] assms(3)] by auto
  qed (use rest one in simp)
qed

lemma extract_entry_kept:
  assumes "extract_entry umask d hdr fs = (err, fs')" and "fs_node fs k = Some n"
    and "te_Typeflag hdr = TypeReg \<Longrightarrow> entry_key d hdr \<noteq> k"
  shows "fs_node fs' k = Some n"
proof (cases "is_local (go_clean (te_Name hdr)) \<and> te_Typeflag hdr = TypeReg")
  case True
  then have "extract_file umask d (go_clean (te_Name hdr)) hdr fs = (err, fs')"
    using assms(1) by (simp add: extract_entry_def TypeReg_def TypeDir_def)
  then show ?thesis using extract_file_kept assms(2,3) True entry_path(1) by metis
next
  case False
  then show ?thesis
    using assms(1,2) MkdirAll_same
    by (auto simp: extract_entry_def extract_dir_def Let_def split: if_splits prod.splits)
qed

lemma extract_entry_file:
  assumes "extract_entry umask d hdr fs = (None, fs')" and "te_Typeflag hdr = TypeReg"
  shows "\<exists>m. fs_node fs' (entry_key d hdr) = Some (RegularFile (te_data hdr) m)"
proof -
  have l: "is_local (go_clean (te_Name hdr))" using assms(1) by (auto simp: extract_entry_def Let_def split: if_splits)
  then have "extract_file umask d (go_clean (te_Name hdr)) hdr fs = (None, fs')"
    using assms by (simp add: extract_entry_def TypeReg_def TypeDir_def)
  then obtain fs1 fs2 where "os_Create umask (root_path d (go_clean (te_Name hdr))) fs1 = (None, fs2)"
      "fs' = snd (os_WriteFile umask (root_path d (go_clean (te_Name hdr))) (te_data hdr) 438 fs2)"
    using extract_file_steps by (fastforce split: if_splits)
  then have "\<exists>m. fs_node fs' (path_key (root_path d (go_clean (te_Name hdr)))) = Some (RegularFile (te_data hdr) m)"
    using write_created[OF _ prod.collapse[symmetric]] by blast
  then show ?thesis unfolding entry_path(1)[OF l] .
qed

lemma extract_entries_kept:
  assumes "extract_entries umask d hdrs e fs = (err, fs')" and "fs_node fs k = Some n"
    and "\<forall>h \<in> set hdrs. te_Typeflag h = TypeReg \<longrightarrow> entry_key d h \<noteq> k"
  shows "fs_node fs' k = Some n"
  using assms
proof (induction hdrs arbitrary: fs)
  case (Cons hdr hdrs)
  obtain e1 fs1 where s: "extract_entry umask d hdr fs = (e1, fs1)" by (rule prod.exhaust)
  then have "fs_node fs1 k = Some n" using extract_entry_kept Cons.prems(2,3) by simp
  then show ?case using Cons s by (cases e1) auto
qed simp

lemma extract_entries_done:
  assumes "extract_entries umask d hdrs e fs = (None, fs')"
  shows "e = None \<and> (\<forall>h \<in> set hdrs. is_local (go_clean (te_Name h))) \<and>
    (\<forall>pre hdr post. hdrs = pre @ hdr # post \<and> te_Typeflag hdr = TypeReg \<and> (\<forall>h \<in> set post. te_Typeflag h = TypeReg \<longrightarrow> entry_key d h \<noteq> entry_key d hdr)
      \<longrightarrow> (\<exists>m. fs_node fs' (entry_key d hdr) = Some (RegularFile (te_data hdr) m)))"
  using assms
proof (induction hdrs arbitrary: fs)
  case (Cons hdr hdrs)
  obtain e1 fs1 where s: "extract_entry umask d hdr fs = (e1, fs1)" by (rule prod.exhaust)
  then have e1: "e1 = None" and rest: "extract_entries umask d hdrs e fs1 = (None, fs')" using Cons.prems by (auto split: if_splits)
  have "is_local (go_clean (te_Name hdr))" using s e1 by (auto simp: extract_entry_def Let_def split: if_splits)
  moreover have first: "\<exists>m. fs_node fs' (entry_key d hdr) = Some (RegularFile (te_data hdr) m)"
    if "te_Typeflag hdr = TypeReg" "\<forall>h \<in> set hdrs. te_Typeflag h = TypeReg \<longrightarrow> entry_key d h \<noteq> entry_key d hdr"
    using extract_entry_file[of umask d hdr fs fs1] s e1 that extract_entries_kept[OF rest] by blast
  moreover have "\<exists>m. fs_node fs' (entry_key d h) = Some (RegularFile (te_data h) m)"
    if split: "hdr # hdrs = pre @ h # post" and reg: "te_Typeflag h = TypeReg"
      and later: "\<forall>g \<in> set post. te_Typeflag g = TypeReg \<longrightarrow> entry_key d g \<noteq> entry_key d h" for pre h post
  proof (cases pre)
    case Nil
    then show ?thesis using split reg later first by simp
  next
    case pre: (Cons x pre')
    then have "hdrs = pre' @ h # post" using split by simp
    then show ?thesis using Cons.IH[OF rest] reg later by blast
  qed
  ultimately show ?case using Cons.IH[OF rest] by (intro conjI allI impI) auto
qed (auto split: option.splits)

text \<open>
  C33. Unpacking an archive.  Whatever the archive holds, nothing outside the target directory changes, except that missing directories above it are made.  If it succeeds, the
  archive was read to its end, every name in it stays below the target, and every file of it is there with its data, the last one of a name that comes more than once.
\<close>

theorem extract_confined:
  "outside (path_key destDir) fs (snd (ExtractTar read_tar umask tarPath destDir fs))
   \<and> (fst (ExtractTar read_tar umask tarPath destDir fs) = None \<longrightarrow>
      (\<exists>node. os_Stat fs tarPath = Inr node \<and> ar_error (archive_of read_tar node) = None
        \<and> (\<forall>h \<in> set (ar_entries (archive_of read_tar node)). is_local (go_clean (te_Name h)))
        \<and> (\<forall>pre hdr post. ar_entries (archive_of read_tar node) = pre @ hdr # post \<and> te_Typeflag hdr = TypeReg
             \<and> (\<forall>h \<in> set post. te_Typeflag h = TypeReg \<longrightarrow> entry_key destDir h \<noteq> entry_key destDir hdr)
            \<longrightarrow> (\<exists>m. fs_node (snd (ExtractTar read_tar umask tarPath destDir fs)) (entry_key destDir hdr) = Some (RegularFile (te_data hdr) m)))))"
proof (cases "os_Stat fs tarPath")
  case (Inl e)
  then show ?thesis by (simp add: ExtractTar_def elsewhere.R_refl)
next
  case (Inr node)
  let ?ar = "archive_of read_tar node"
  obtain e1 fs1 where mk: "os_MkdirAll umask destDir 493 fs = (e1, fs1)" by (rule prod.exhaust)
  have one: "outside (path_key destDir) fs fs1" using elsewhere.MkdirAll_R[OF mk] by simp
  obtain err fs' where run: "extract_entries umask destDir (ar_entries ?ar) (ar_error ?ar) fs1 = (err, fs')" by (rule prod.exhaust)
  show ?thesis
  proof (cases e1)
    case None
    then have x: "ExtractTar read_tar umask tarPath destDir fs = (err, fs')" using Inr mk run by (simp add: ExtractTar_def)
    have "outside (path_key destDir) fs fs'" using one extract_entries_outside[OF run] by (rule outside_trans)
    moreover have "err = None \<Longrightarrow> extract_entries umask destDir (ar_entries ?ar) (ar_error ?ar) fs1 = (None, fs')" using run by simp
    ultimately show ?thesis unfolding x fst_conv snd_conv using Inr extract_entries_done by blast
  qed (use Inr mk one in \<open>simp add: ExtractTar_def\<close>)
qed

definition demo_archive :: archive where
  "demo_archive = \<lparr>ar_entries =
     [\<lparr>te_Name = ''./blobs/'', te_Typeflag = TypeDir, te_data = [], te_broken = False\<rparr>,
      \<lparr>te_Name = ''blobs/x/../a'', te_Typeflag = TypeReg, te_data = ''old'', te_broken = False\<rparr>,
      \<lparr>te_Name = ''blobs/a'', te_Typeflag = TypeReg, te_data = ''new'', te_broken = False\<rparr>], ar_error = None\<rparr>"

definition hostile_archive :: archive where
  "hostile_archive = \<lparr>ar_entries = [\<lparr>te_Name = ''a/../../passwd'', te_Typeflag = TypeReg, te_data = ''x'', te_broken = False\<rparr>], ar_error = None\<rparr>"

definition demo_tars :: filesys where
  "demo_tars = [((False, [''good.tar'']), RegularFile ''good'' 420), ((False, [''bad.tar'']), RegularFile ''bad'' 420)]"

definition demo_read :: "string \<Rightarrow> archive" where
  "demo_read data = (if data = ''good'' then demo_archive else hostile_archive)"

theorem extract_confined_witness:
  "fst (ExtractTar demo_read id ''bad.tar'' ''out'' demo_tars) = Some (Escapes ''a/../../passwd'')
   \<and> outside (path_key ''out'') demo_tars (snd (ExtractTar demo_read id ''bad.tar'' ''out'' demo_tars))
   \<and> (\<exists>m. fs_node (snd (ExtractTar demo_read id ''good.tar'' ''out'' demo_tars)) (False, [''out'', ''blobs'', ''a'']) = Some (RegularFile ''new'' m))"
proof (intro conjI)
  show "fst (ExtractTar demo_read id ''bad.tar'' ''out'' demo_tars) = Some (Escapes ''a/../../passwd'')" by code_simp
  show "outside (path_key ''out'') demo_tars (snd (ExtractTar demo_read id ''bad.tar'' ''out'' demo_tars))"
    using extract_confined by blast
  let ?hdr = "\<lparr>te_Name = ''blobs/a'', te_Typeflag = TypeReg, te_data = ''new'', te_broken = False\<rparr>"
  have ok: "fst (ExtractTar demo_read id ''good.tar'' ''out'' demo_tars) = None" by code_simp
  have stat: "os_Stat demo_tars ''good.tar'' = Inr (RegularFile ''good'' 420)" by code_simp
  have ar: "archive_of demo_read (RegularFile ''good'' 420) = demo_archive" by (simp add: archive_of_def demo_read_def)
  have key: "entry_key ''out'' ?hdr = (False, [''out'', ''blobs'', ''a''])" by code_simp
  have last: "ar_entries demo_archive = take 2 (ar_entries demo_archive) @ ?hdr # []" by (simp add: demo_archive_def)
  have reg: "te_Typeflag ?hdr = TypeReg" by simp
  have none: "\<forall>h \<in> set []. te_Typeflag h = TypeReg \<longrightarrow> entry_key ''out'' h \<noteq> entry_key ''out'' ?hdr" by simp
  have "\<forall>pre hdr post. ar_entries demo_archive = pre @ hdr # post \<and> te_Typeflag hdr = TypeReg
      \<and> (\<forall>h \<in> set post. te_Typeflag h = TypeReg \<longrightarrow> entry_key ''out'' h \<noteq> entry_key ''out'' hdr)
      \<longrightarrow> (\<exists>m. fs_node (snd (ExtractTar demo_read id ''good.tar'' ''out'' demo_tars)) (entry_key ''out'' hdr) = Some (RegularFile (te_data hdr) m))"
    using extract_confined[of "''out''" demo_tars demo_read id "''good.tar''"] ok stat ar by simp
  then have "\<exists>m. fs_node (snd (ExtractTar demo_read id ''good.tar'' ''out'' demo_tars)) (entry_key ''out'' ?hdr) = Some (RegularFile (te_data ?hdr) m)"
    using last reg none by blast
  then show "\<exists>m. fs_node (snd (ExtractTar demo_read id ''good.tar'' ''out'' demo_tars)) (False, [''out'', ''blobs'', ''a'']) = Some (RegularFile ''new'' m)"
    unfolding key by simp
qed

end
