(* ===== verification/Pipeline_Files.thy ===== *)
theory Pipeline_Files
  imports CI_Context Disk_Copy
begin

text \<open>
  Files made from templates, \<open>pkg/cli/template.go\<close>: the pipeline of a provider and custom templates, one file for the project or one per image.  The template engine is a
  parameter: parsing the output path to a tree, and rendering a text with the context, the current image and the options.  The world is the files and what was
  written to standard output.
\<close>

section \<open>References to the image (\<open>nodeReferencesImage\<close>)\<close>

text \<open>
  The nodes of \<open>text/template/parse\<close> the walk tells apart; \<open>Leaf\<close> is any other.  \<open>NilList\<close> and \<open>NilPipe\<close> are the nil pointers of the branches without else and of the template
  calls without argument.
\<close>

datatype node =
    Leaf string
  | ListNode "node list" | NilList
  | ActionNode node
  | PipeNode "node list" "node list" | NilPipe
  | CommandNode "node list"
  | IfNode node | RangeNode node | WithNode node
  | BranchNode node node node
  | TemplateNode string node
  | ChainNode node "string list"
  | FieldNode "string list"
  | VariableNode "string list"

definition matchesImageIdent :: "string list \<Rightarrow> bool" where
  "matchesImageIdent ident =
     (let ident = (if length ident > 0 \<and> hd ident = ''$'' then tl ident else ident) in length ident > 0 \<and> hd ident = ''Image'')"

text \<open>\<open>None\<close> is a panic: the declarations of a nil pipe are read.\<close>

definition or_else :: "bool option \<Rightarrow> bool option \<Rightarrow> bool option" where
  "or_else a b = (case a of None \<Rightarrow> None | Some True \<Rightarrow> Some True | Some False \<Rightarrow> b)"

fun nodeReferencesImage :: "node \<Rightarrow> bool option" and any_references :: "node list \<Rightarrow> bool option" where
  "nodeReferencesImage (ListNode children) = any_references children"
| "nodeReferencesImage NilList = Some False"
| "nodeReferencesImage (ActionNode pipe) = nodeReferencesImage pipe"
| "nodeReferencesImage (PipeNode decl cmds) = or_else (any_references decl) (any_references cmds)"
| "nodeReferencesImage NilPipe = None"
| "nodeReferencesImage (CommandNode args) = any_references args"
| "nodeReferencesImage (IfNode branch) = nodeReferencesImage branch"
| "nodeReferencesImage (RangeNode branch) = nodeReferencesImage branch"
| "nodeReferencesImage (WithNode branch) = nodeReferencesImage branch"
| "nodeReferencesImage (BranchNode pipe body elseList) =
     or_else (nodeReferencesImage pipe) (or_else (nodeReferencesImage body) (nodeReferencesImage elseList))"
| "nodeReferencesImage (TemplateNode _ pipe) = nodeReferencesImage pipe"
| "nodeReferencesImage (ChainNode n field) = (if matchesImageIdent field then Some True else nodeReferencesImage n)"
| "nodeReferencesImage (FieldNode ident) = Some (matchesImageIdent ident)"
| "nodeReferencesImage (VariableNode ident) = Some (matchesImageIdent ident)"
| "nodeReferencesImage (Leaf _) = Some False"
| "any_references [] = Some False"
| "any_references (n # ns) = or_else (nodeReferencesImage n) (any_references ns)"

section \<open>Rendering and writing\<close>

type_synonym output_data = "CIContext \<times> CIImage option"

record template_env =
  tp_parse :: "string \<Rightarrow> (string, string) gomap \<Rightarrow> string + node"
  tp_render :: "string \<Rightarrow> string \<Rightarrow> output_data \<Rightarrow> (string, string) gomap \<Rightarrow> string + string"
  tp_render_provider :: "string \<Rightarrow> string \<Rightarrow> CIContext \<Rightarrow> (string, string) gomap \<Rightarrow> string + string"
  tp_takes :: "string \<Rightarrow> string \<Rightarrow> bool"
  tp_umask :: "nat \<Rightarrow> nat"

datatype template_error =
    ContextFailed ci_error | ContextDiverges | BadOutputTemplate string | OutputPanic | OutputRenderFailed string | RenderTemplateFailed string string
  | ReadTemplateFailed os_error | GenerateFailedFor string | NoImages | StdoutFailed | OutputFailed os_error

type_synonym template_world = "filesys \<times> string"

definition writeOutput :: "template_env \<Rightarrow> string \<Rightarrow> string \<Rightarrow> template_world \<Rightarrow> template_error option \<times> template_world" where
  "writeOutput env outputPath data w =
     (let (fs, out) = w in
      if outputPath = [] then (if tp_takes env out data then (None, (fs, out @ data)) else (Some StdoutFailed, (fs, out)))
      else
        let dir = go_dir outputPath;
            (err, fs) = (if dir \<noteq> ''.'' then os_MkdirAll (tp_umask env) dir 493 fs else (None, fs)) in
        (case err of
           Some e \<Rightarrow> (Some (OutputFailed e), (fs, out))
         | None \<Rightarrow> let (err, fs) = os_WriteFile (tp_umask env) outputPath data 420 fs in (map_option OutputFailed err, (fs, out))))"

definition outputPathIsPerImage :: "template_env \<Rightarrow> string \<Rightarrow> (string, string) gomap \<Rightarrow> template_error + bool" where
  "outputPathIsPerImage env output options =
     (case tp_parse env output options of
        Inl err \<Rightarrow> Inl (BadOutputTemplate err)
      | Inr root \<Rightarrow> (case nodeReferencesImage root of None \<Rightarrow> Inl OutputPanic | Some b \<Rightarrow> Inr b))"

definition renderOutputPath :: "template_env \<Rightarrow> string \<Rightarrow> output_data \<Rightarrow> (string, string) gomap \<Rightarrow> template_error + string" where
  "renderOutputPath env output data options =
     (case tp_render env ''output'' output data options of Inl err \<Rightarrow> Inl (OutputRenderFailed err) | Inr rendered \<Rightarrow> Inr rendered)"

definition render_for :: "template_env \<Rightarrow> string \<Rightarrow> string \<Rightarrow> string \<Rightarrow> CIContext \<Rightarrow> CIImage \<Rightarrow> template_error + string \<times> string" where
  "render_for env output templatePath content ctx img =
     (let data = (ctx, Some img) in
      res_bind (renderOutputPath env output data (cx_TemplateOptions ctx)) (\<lambda>outPath.
        case tp_render env templatePath content data (cx_TemplateOptions ctx) of
          Inl err \<Rightarrow> Inl (RenderTemplateFailed (ci_Name img) err)
        | Inr rendered \<Rightarrow> Inr (outPath, rendered)))"

fun write_images :: "template_env \<Rightarrow> string \<Rightarrow> string \<Rightarrow> string \<Rightarrow> CIContext \<Rightarrow> CIImage list \<Rightarrow> template_world \<Rightarrow> template_error option \<times> template_world" where
  "write_images env output templatePath content ctx [] w = (None, w)"
| "write_images env output templatePath content ctx (img # imgs) w =
     (case render_for env output templatePath content ctx img of
        Inl err \<Rightarrow> (Some err, w)
      | Inr (outPath, rendered) \<Rightarrow>
          let (err, w) = writeOutput env outPath rendered w in
          if err \<noteq> None then (err, w) else write_images env output templatePath content ctx imgs w)"

definition writePerImageOutputs :: "template_env \<Rightarrow> string \<Rightarrow> string \<Rightarrow> string \<Rightarrow> CIContext \<Rightarrow> template_world \<Rightarrow> template_error option \<times> template_world" where
  "writePerImageOutputs env output templatePath content ctx w =
     (if length (cx_Images ctx) = 0 then (Some NoImages, w) else write_images env output templatePath content ctx (cx_Images ctx) w)"

section \<open>The commands\<close>

text \<open>\<open>ch template custom\<close> for a discovered project and the context built of it; the template is read before that.\<close>

definition custom_output :: "template_env \<Rightarrow> string \<Rightarrow> string \<Rightarrow> string \<Rightarrow> CIContext \<Rightarrow> template_world \<Rightarrow> template_error option \<times> template_world" where
  "custom_output env output templatePath content ctx w =
     (case outputPathIsPerImage env output (cx_TemplateOptions ctx) of
        Inl err \<Rightarrow> (Some err, w)
      | Inr True \<Rightarrow> writePerImageOutputs env output templatePath content ctx w
      | Inr False \<Rightarrow>
          (case tp_render env templatePath content (ctx, None) (cx_TemplateOptions ctx) of
             Inl err \<Rightarrow> (Some (RenderTemplateFailed [] err), w)
           | Inr rendered \<Rightarrow>
               (case renderOutputPath env output (ctx, None) (cx_TemplateOptions ctx) of
                  Inl err \<Rightarrow> (Some err, w)
                | Inr path \<Rightarrow> writeOutput env path rendered w)))"

definition templateCustomCmd ::
  "template_env \<Rightarrow> string \<Rightarrow> os \<Rightarrow> ContainerHiveProject \<Rightarrow> string \<Rightarrow> string \<Rightarrow> template_world \<Rightarrow> template_error option \<times> template_world" where
  "templateCustomCmd env version os project templatePath output w =
     (case os_ReadFile (fst w) templatePath of
        Inl e \<Rightarrow> (Some (ReadTemplateFailed e), w)
      | Inr content \<Rightarrow>
          (case BuildCIContext version os project False of
             None \<Rightarrow> (Some ContextDiverges, w)
           | Some (Inl e) \<Rightarrow> (Some (ContextFailed e), w)
           | Some (Inr ctx) \<Rightarrow> custom_output env output templatePath content ctx w))"

text \<open>The flags of \<open>ch template ci\<close>.\<close>

record ci_flags =
  cf_project :: string
  cf_provider :: string
  cf_output :: string
  cf_template_dir :: string
  cf_artifacts :: bool
  cf_version :: string
  cf_image_name :: string

definition flag_words :: "string \<Rightarrow> string \<Rightarrow> string list" where
  "flag_words name value = (if value \<noteq> [] then [name, value] else [])"

definition command_words :: "ci_flags \<Rightarrow> string list" where
  "command_words f =
     [''ch''] @ (if cf_project f \<noteq> [] \<and> cf_project f \<noteq> ''.'' then [''--project'', cf_project f] else [])
     @ [''template'', ''ci'', ''--provider'', cf_provider f]
     @ (if cf_artifacts f then [''--artifacts''] else [])
     @ flag_words ''--template-dir'' (cf_template_dir f)
     @ flag_words ''--output'' (cf_output f)
     @ flag_words ''--image-name'' (cf_image_name f)"

definition buildCICommand :: "ci_flags \<Rightarrow> string" where
  "buildCICommand f = go_join '' '' (command_words f)"

definition with_flags :: "(string, Provider) gomap \<Rightarrow> string \<Rightarrow> ci_flags \<Rightarrow> CIContext \<Rightarrow> CIContext" where
  "with_flags providers current f ctx =
     (let ctx = (if cf_project f \<noteq> [] \<and> cf_project f \<noteq> ''.'' then ctx\<lparr>cx_ProjectPath := cf_project f\<rparr> else ctx);
          ctx = ctx\<lparr>cx_Command := buildCICommand f\<rparr>;
          ctx = ctx\<lparr>cx_Version := (if cf_version f \<noteq> [] then cf_version f else current)\<rparr> in
      ctx\<lparr>cx_ImageName := (if cf_image_name f \<noteq> [] then cf_image_name f else ResolveDefaultImageName providers (cf_provider f))\<rparr>)"

text \<open>\<open>ci.Generate\<close>: the engine gets the directory of the templates, empty for those built in.\<close>

definition Generate_ci :: "template_env \<Rightarrow> (string, Provider) gomap \<Rightarrow> string \<Rightarrow> CIContext \<Rightarrow> string \<Rightarrow> template_error + string" where
  "Generate_ci env providers providerName ctx customTemplateDir =
     (case GetProvider providers providerName of
        Inl e \<Rightarrow> Inl (ContextFailed e)
      | Inr provider \<Rightarrow>
          (case tp_render_provider env (if customTemplateDir \<noteq> [] then customTemplateDir else pv_Name provider) (pv_Entrypoint provider) ctx (generate_options provider ctx) of
             Inl e \<Rightarrow> Inl (GenerateFailedFor e) | Inr r \<Rightarrow> Inr r))"

definition templateCICmd ::
  "template_env \<Rightarrow> (string, Provider) gomap \<Rightarrow> string \<Rightarrow> string \<Rightarrow> os \<Rightarrow> ContainerHiveProject \<Rightarrow> ci_flags \<Rightarrow> template_world \<Rightarrow> template_error option \<times> template_world" where
  "templateCICmd env providers current bkVersion os project f w =
     (case BuildCIContext bkVersion os project (cf_artifacts f) of
        None \<Rightarrow> (Some ContextDiverges, w)
      | Some (Inl e) \<Rightarrow> (Some (ContextFailed e), w)
      | Some (Inr ctx) \<Rightarrow>
          (case Generate_ci env providers (cf_provider f) (with_flags providers current f ctx) (cf_template_dir f) of
             Inl e \<Rightarrow> (Some e, w)
           | Inr result \<Rightarrow> writeOutput env (cf_output f) result w))"

section \<open>What the walk finds\<close>

text \<open>The identifier chains of a tree in the order of the walk, and whether it holds a nil pipe.\<close>

fun idents :: "node \<Rightarrow> string list list" where
  "idents (ListNode children) = concat (map idents children)"
| "idents (ActionNode pipe) = idents pipe"
| "idents (PipeNode decl cmds) = concat (map idents decl) @ concat (map idents cmds)"
| "idents (CommandNode args) = concat (map idents args)"
| "idents (IfNode branch) = idents branch"
| "idents (RangeNode branch) = idents branch"
| "idents (WithNode branch) = idents branch"
| "idents (BranchNode pipe body elseList) = idents pipe @ idents body @ idents elseList"
| "idents (TemplateNode _ pipe) = idents pipe"
| "idents (ChainNode n field) = field # idents n"
| "idents (FieldNode ident) = [ident]"
| "idents (VariableNode ident) = [ident]"
| "idents _ = []"

fun nil_pipe :: "node \<Rightarrow> bool" where
  "nil_pipe (ListNode children) = list_ex nil_pipe children"
| "nil_pipe (ActionNode pipe) = nil_pipe pipe"
| "nil_pipe (PipeNode decl cmds) = (list_ex nil_pipe decl \<or> list_ex nil_pipe cmds)"
| "nil_pipe NilPipe = True"
| "nil_pipe (CommandNode args) = list_ex nil_pipe args"
| "nil_pipe (IfNode branch) = nil_pipe branch"
| "nil_pipe (RangeNode branch) = nil_pipe branch"
| "nil_pipe (WithNode branch) = nil_pipe branch"
| "nil_pipe (BranchNode pipe body elseList) = (nil_pipe pipe \<or> nil_pipe body \<or> nil_pipe elseList)"
| "nil_pipe (TemplateNode _ pipe) = nil_pipe pipe"
| "nil_pipe (ChainNode n field) = nil_pipe n"
| "nil_pipe _ = False"

lemma or_else_simps [simp]:
  "or_else a b = Some True \<longleftrightarrow> a = Some True \<or> a = Some False \<and> b = Some True"
  "or_else a b = Some False \<longleftrightarrow> a = Some False \<and> b = Some False"
  "or_else a b = None \<longleftrightarrow> a = None \<or> a = Some False \<and> b = None"
  by (auto simp: or_else_def split: option.splits bool.splits)

lemma references_False:
  "nodeReferencesImage n = Some False \<longleftrightarrow> \<not> nil_pipe n \<and> \<not> (\<exists>i \<in> set (idents n). matchesImageIdent i)"
  "any_references ns = Some False \<longleftrightarrow> \<not> list_ex nil_pipe ns \<and> \<not> (\<exists>i \<in> set (concat (map idents ns)). matchesImageIdent i)"
  by (induction n and ns rule: nodeReferencesImage_any_references.induct) auto

lemma references_True:
  "nodeReferencesImage n = Some True \<Longrightarrow> \<exists>i \<in> set (idents n). matchesImageIdent i"
  "any_references ns = Some True \<Longrightarrow> \<exists>i \<in> set (concat (map idents ns)). matchesImageIdent i"
  by (induction n and ns rule: nodeReferencesImage_any_references.induct) (auto split: if_splits)

lemma references_None:
  "nodeReferencesImage n = None \<Longrightarrow> nil_pipe n"
  "any_references ns = None \<Longrightarrow> list_ex nil_pipe ns"
  by (induction n and ns rule: nodeReferencesImage_any_references.induct) (auto split: if_splits)

text \<open>Without template calls that pass nothing, the walk finds exactly the references in the tree; with one, it may panic.\<close>

lemma references_found: "\<not> nil_pipe n \<Longrightarrow> nodeReferencesImage n = Some (\<exists>i \<in> set (idents n). matchesImageIdent i)"
  using references_True(1)[of n] references_False(1)[of n] references_None(1)[of n]
  by (cases "nodeReferencesImage n") auto

lemma argumentless_call_panics:
  "nodeReferencesImage (ListNode [TemplateNode ''name'' NilPipe, ActionNode (PipeNode [] [CommandNode [FieldNode [''Image'', ''Name'']]])]) = None"
  by simp

section \<open>One file per image\<close>

lemma writeOutput_file:
  assumes "writeOutput env path data w = (None, w')" and "path \<noteq> []"
  shows "\<exists>m. fs_node (fst w') (path_key path) = Some (RegularFile data m)" and "snd w' = snd w"
proof -
  obtain fs out where w: "w = (fs, out)" by (cases w)
  obtain fs1 fs2 where "os_WriteFile (tp_umask env) path data 420 fs1 = (None, fs2)" "w' = (fs2, out)"
    using assms w by (auto simp: writeOutput_def Let_def split: prod.splits option.splits if_splits)
  then show "\<exists>m. fs_node (fst w') (path_key path) = Some (RegularFile data m)" "snd w' = snd w"
    using WriteFile_ok(2) w by auto
qed

lemma writeOutput_stdout: "writeOutput env [] data w = (None, w') \<Longrightarrow> fst w' = fst w \<and> snd w' = snd w @ data"
  by (cases w) (auto simp: writeOutput_def split: if_splits)

lemma writeOutput_kept:
  assumes "writeOutput env path data w = (err, w')" and "fs_node (fst w) k = Some n" and "path = [] \<or> k \<noteq> path_key path"
  shows "fs_node (fst w') k = Some n"
proof (cases "path = []")
  case True
  then show ?thesis using assms by (cases w) (auto simp: writeOutput_def split: if_splits)
next
  case False
  obtain fs out where w: "w = (fs, out)" by (cases w)
  obtain e1 fs1 where mk: "(if go_dir path \<noteq> ''.'' then os_MkdirAll (tp_umask env) (go_dir path) 493 fs else (None, fs)) = (e1, fs1)"
    by (rule prod.exhaust)
  have one: "fs_node fs1 k = Some n" using mk assms(2) w by (auto split: if_splits dest: MkdirAll_same)
  show ?thesis
  proof (cases e1)
    case None
    obtain e2 fs2 where wr: "os_WriteFile (tp_umask env) path data 420 fs1 = (e2, fs2)" by (rule prod.exhaust)
    then have "fst w' = fs2" using assms(1) w mk None False by (auto simp: writeOutput_def)
    then show ?thesis using WriteFile_elsewhere[OF wr, of k] assms(3) one False by simp
  qed (use assms(1) w mk one False in \<open>auto simp: writeOutput_def\<close>)
qed

definition printed :: "(string \<times> string) list \<Rightarrow> string" where
  "printed outs = concat (map snd (filter (\<lambda>(p, _). p = []) outs))"

definition written_keys :: "(string \<times> string) list \<Rightarrow> fpath set" where
  "written_keys outs = {path_key p |p t. (p, t) \<in> set outs \<and> p \<noteq> []}"

lemma write_images_kept:
  assumes "write_images env output tp content ctx imgs w = (None, w')" and "res_map (render_for env output tp content ctx) imgs = Inr outs"
    and "fs_node (fst w) k = Some n" and "k \<notin> written_keys outs"
  shows "fs_node (fst w') k = Some n"
  using assms
proof (induction imgs arbitrary: w outs)
  case (Cons img imgs)
  from Cons.prems(2) obtain p t outs' where r: "render_for env output tp content ctx img = Inr (p, t)"
      and rest: "res_map (render_for env output tp content ctx) imgs = Inr outs'" and outs: "outs = (p, t) # outs'"
    by (auto simp: res_bind_Inr_iff)
  obtain e1 w1 where o: "writeOutput env p t w = (e1, w1)" by (rule prod.exhaust)
  then have "write_images env output tp content ctx imgs w1 = (None, w')" using Cons.prems(1) r by (auto split: if_splits)
  moreover have "fs_node (fst w1) k = Some n" using writeOutput_kept[OF o Cons.prems(3)] Cons.prems(4) outs by (auto simp: written_keys_def)
  moreover have "k \<notin> written_keys outs'" using Cons.prems(4) outs by (auto simp: written_keys_def)
  ultimately show ?case using Cons.IH rest by blast
qed simp

lemma write_images_done:
  assumes "write_images env output tp content ctx imgs w = (None, w')"
  shows "\<exists>outs. res_map (render_for env output tp content ctx) imgs = Inr outs \<and> snd w' = snd w @ printed outs
    \<and> (\<forall>pre p t post. outs = pre @ (p, t) # post \<and> p \<noteq> [] \<and> path_key p \<notin> written_keys post
        \<longrightarrow> (\<exists>m. fs_node (fst w') (path_key p) = Some (RegularFile t m)))"
  using assms
proof (induction imgs arbitrary: w)
  case Nil
  then show ?case by (simp add: printed_def)
next
  case (Cons img imgs)
  from Cons.prems obtain p t where r: "render_for env output tp content ctx img = Inr (p, t)" by (auto split: sum.splits)
  obtain e1 w1 where o: "writeOutput env p t w = (e1, w1)" by (rule prod.exhaust)
  then have e1: "e1 = None" and run: "write_images env output tp content ctx imgs w1 = (None, w')" using Cons.prems r by (auto split: if_splits)
  then obtain outs where outs: "res_map (render_for env output tp content ctx) imgs = Inr outs" and out: "snd w' = snd w1 @ printed outs"
      and files: "\<And>pre q u post. outs = pre @ (q, u) # post \<Longrightarrow> q \<noteq> [] \<Longrightarrow> path_key q \<notin> written_keys post
        \<Longrightarrow> \<exists>m. fs_node (fst w') (path_key q) = Some (RegularFile u m)" using Cons.IH[OF run] by blast
  have printed: "snd w1 @ printed outs = snd w @ printed ((p, t) # outs)"
    using o e1 writeOutput_stdout[of env t w w1] writeOutput_file(2)[of env p t w w1] by (cases "p = []") (simp_all add: printed_def)
  have "\<exists>m. fs_node (fst w') (path_key q) = Some (RegularFile u m)"
    if split: "(p, t) # outs = pre @ (q, u) # post" and q: "q \<noteq> []" "path_key q \<notin> written_keys post" for pre q u post
  proof (cases pre)
    case Nil
    then have "\<exists>m. fs_node (fst w1) (path_key q) = Some (RegularFile u m)" using split q o e1 writeOutput_file(1) by simp
    then obtain m where "fs_node (fst w1) (path_key q) = Some (RegularFile u m)" by blast
    then have "fs_node (fst w') (path_key q) = Some (RegularFile u m)" using write_images_kept[OF run outs] split Nil q(2) by simp
    then show ?thesis by blast
  next
    case pre: (Cons x pre')
    then show ?thesis using files[of pre' q u post] split q by simp
  qed
  then show ?case using r outs out printed by (intro exI[of _ "(p, t) # outs"]) simp
qed

text \<open>
  C34. Files per image.  If the output path mentions the image and the command succeeds, the path and the template were rendered for every image of the project, in order; each
  path holds the text of the last image it was rendered for, texts without a path went to standard output, and every other file is as before.
\<close>

theorem images_written:
  assumes "outputPathIsPerImage env output (cx_TemplateOptions ctx) = Inr True" and "custom_output env output tp content ctx w = (None, w')"
  shows "\<exists>outs. res_map (render_for env output tp content ctx) (cx_Images ctx) = Inr outs \<and> outs \<noteq> [] \<and> snd w' = snd w @ printed outs
    \<and> (\<forall>pre p t post. outs = pre @ (p, t) # post \<and> p \<noteq> [] \<and> path_key p \<notin> written_keys post
        \<longrightarrow> (\<exists>m. fs_node (fst w') (path_key p) = Some (RegularFile t m)))
    \<and> (\<forall>k n. fs_node (fst w) k = Some n \<and> k \<notin> written_keys outs \<longrightarrow> fs_node (fst w') k = Some n)"
proof -
  have ne: "cx_Images ctx \<noteq> []" and run: "write_images env output tp content ctx (cx_Images ctx) w = (None, w')"
    using assms by (auto simp: custom_output_def writePerImageOutputs_def split: if_splits)
  from write_images_done[OF run] obtain outs where o: "res_map (render_for env output tp content ctx) (cx_Images ctx) = Inr outs"
      "snd w' = snd w @ printed outs"
      "\<forall>pre p t post. outs = pre @ (p, t) # post \<and> p \<noteq> [] \<and> path_key p \<notin> written_keys post
        \<longrightarrow> (\<exists>m. fs_node (fst w') (path_key p) = Some (RegularFile t m))" by blast
  moreover have "outs \<noteq> []" using ne o(1) by (auto simp: res_map_Inr_iff)
  moreover have "\<forall>k n. fs_node (fst w) k = Some n \<and> k \<notin> written_keys outs \<longrightarrow> fs_node (fst w') k = Some n"
    using write_images_kept[OF run o(1)] by blast
  ultimately show ?thesis by blast
qed

definition demo_ci_image :: "string \<Rightarrow> CIImage" where
  "demo_ci_image name = \<lparr>ci_Name = name, ci_Tags = [], ci_Aliases = [], ci_Dependencies = [], ci_Depth = 0, ci_Platforms = [], ci_ReadmePath = [],
     ci_ShardUnits = 1, ci_BuildShards = 1, ci_TestShards = 1, ci_ChangePaths = []\<rparr>"

definition demo_ctx :: CIContext where
  "demo_ctx = \<lparr>cx_Images = [demo_ci_image ''a'', demo_ci_image ''b''], cx_Platforms = [], cx_Stages = [], cx_Config = \<lparr>cg_Registry = None, cg_Cache = None\<rparr>,
     cx_Artifacts = False, cx_Command = [], cx_Version = [], cx_ImageName = [], cx_ProjectPath = [], cx_TemplateOptions = [], cx_HasTagRanges = False,
     cx_TagRangeUnits = 0, cx_ChangeDetection = False\<rparr>"

definition demo_engine :: template_env where
  "demo_engine = \<lparr>tp_parse = \<lambda>_ _. Inr (ListNode [Leaf ''out/'', ActionNode (PipeNode [] [CommandNode [FieldNode [''Image'', ''Name'']]])]),
     tp_render = \<lambda>name _ data _. Inr ((if name = ''output'' then ''out/'' else ''Image '') @ (case snd data of None \<Rightarrow> [] | Some img \<Rightarrow> ci_Name img)),
     tp_render_provider = \<lambda>_ _ _ _. Inl [], tp_takes = \<lambda>_ _. True, tp_umask = id\<rparr>"

theorem images_written_witness:
  "\<exists>m. fs_node (fst (snd (custom_output demo_engine ''out/{{.Image.Name}}'' ''t'' ''Image'' demo_ctx ([], [])))) (False, [''out'', ''a'']) = Some (RegularFile ''Image a'' m)"
proof -
  let ?run = "custom_output demo_engine ''out/{{.Image.Name}}'' ''t'' ''Image'' demo_ctx ([], [])"
  have one: "outputPathIsPerImage demo_engine ''out/{{.Image.Name}}'' (cx_TemplateOptions demo_ctx) = Inr True" by code_simp
  have "fst ?run = None" by code_simp
  then have run: "?run = (None, snd ?run)" by (metis prod.collapse)
  have outs: "res_map (render_for demo_engine ''out/{{.Image.Name}}'' ''t'' ''Image'' demo_ctx) (cx_Images demo_ctx) = Inr ([] @ (''out/a'', ''Image a'') # [(''out/b'', ''Image b'')])"
    by code_simp
  have key: "path_key ''out/a'' = (False, [''out'', ''a''])" "path_key ''out/b'' = (False, [''out'', ''b''])" by code_simp+
  have later: "path_key ''out/a'' \<notin> written_keys [(''out/b'', ''Image b'')]" by (simp add: written_keys_def key)
  have "\<exists>m. fs_node (fst (snd ?run)) (path_key ''out/a'') = Some (RegularFile ''Image a'' m)"
  proof -
    obtain os where os: "res_map (render_for demo_engine ''out/{{.Image.Name}}'' ''t'' ''Image'' demo_ctx) (cx_Images demo_ctx) = Inr os"
        and files: "\<And>pre p t post. os = pre @ (p, t) # post \<Longrightarrow> p \<noteq> [] \<Longrightarrow> path_key p \<notin> written_keys post
          \<Longrightarrow> \<exists>m. fs_node (fst (snd ?run)) (path_key p) = Some (RegularFile t m)"
      using images_written[OF one run] by blast
    have "os = [] @ (''out/a'', ''Image a'') # [(''out/b'', ''Image b'')]" using os outs by simp
    from files[OF this _ later] show ?thesis by simp
  qed
  then show ?thesis unfolding key .
qed

section \<open>The command in a generated pipeline\<close>

text \<open>
  Pipelines are made with the comment to regenerate them with \<open>Command\<close>.  Read at its spaces, it has the words it was made of, where no value has a space; the version, however,
  is not among them.
\<close>

lemma command_reads_back:
  assumes "CHR '' '' \<notin> set (cf_project f) \<union> set (cf_provider f) \<union> set (cf_template_dir f) \<union> set (cf_output f) \<union> set (cf_image_name f)"
  shows "go_split CHR '' '' (buildCICommand f) = command_words f"
  unfolding buildCICommand_def using assms
  by (intro go_split_join) (auto simp: command_words_def flag_words_def split: if_splits)

lemma command_forgets_version: "buildCICommand (f\<lparr>cf_version := v\<rparr>) = buildCICommand f"
  by (simp add: buildCICommand_def command_words_def)

lemma command_not_quoted:
  "buildCICommand \<lparr>cf_project = [], cf_provider = ''gitlab'', cf_output = ''a b'', cf_template_dir = [], cf_artifacts = False, cf_version = [], cf_image_name = []\<rparr>
   = ''ch template ci --provider gitlab --output a b''"
  by (simp add: buildCICommand_def command_words_def flag_words_def)

end
