(* ===== verification/Selected_Builds.thy ===== *)
theory Selected_Builds
  imports Build_Run
begin

text \<open>
  What a run of builds may add to its log, finished or not: only builds of tags that are selected.  The lemmas follow the loops of \<open>pkg/build/project.go\<close>; the results they
  speak of include those of a run that failed half way.
\<close>

section \<open>Logs that grow by allowed builds\<close>

definition only :: "(built \<Rightarrow> bool) \<Rightarrow> run_state \<Rightarrow> run_state \<Rightarrow> bool" where
  "only P st st' \<longleftrightarrow> (\<exists>chunk. rs_log st' = rs_log st @ chunk \<and> list_all P chunk)"

definition ends_only :: "(built \<Rightarrow> bool) \<Rightarrow> run_state \<Rightarrow> run_stop + run_state \<Rightarrow> bool" where
  "ends_only P st r \<longleftrightarrow> (case r of Inr st' \<Rightarrow> only P st st' | Inl (Failed _ st') \<Rightarrow> only P st st' | Inl Panicked \<Rightarrow> True)"

lemma only_same: "rs_log st' = rs_log st \<Longrightarrow> only P st st'"
  by (simp add: only_def)

lemma only_trans: "only P a b \<Longrightarrow> only P b c \<Longrightarrow> only P a c"
  by (fastforce simp: only_def)

lemma only_mono: "only P a b \<Longrightarrow> (\<And>x. P x \<Longrightarrow> Q x) \<Longrightarrow> only Q a b"
  by (auto simp: only_def list_all_iff)

lemma only_log: "rs_log a = rs_log a' \<Longrightarrow> only P a b \<longleftrightarrow> only P a' b"
  by (simp add: only_def)

lemma ends_only_Inr [simp]: "ends_only P st (Inr st') = only P st st'"
  by (simp add: ends_only_def)

lemma ends_only_Panicked [simp]: "ends_only P st (Inl Panicked)"
  by (simp add: ends_only_def)

lemma ends_only_Failed [simp]: "ends_only P st (Inl (Failed es st')) = only P st st'"
  by (simp add: ends_only_def)

lemma ends_only_mono: "ends_only P st r \<Longrightarrow> (\<And>x. P x \<Longrightarrow> Q x) \<Longrightarrow> ends_only Q st r"
  by (auto simp: ends_only_def intro: only_mono split: sum.splits run_stop.splits)

lemma ends_only_after: "only P a b \<Longrightarrow> ends_only P b r \<Longrightarrow> ends_only P a r"
  by (auto simp: ends_only_def intro: only_trans split: sum.splits run_stop.splits)

lemma ends_only_bind:
  assumes "ends_only P st r" and "\<And>st'. r = Inr st' \<Longrightarrow> ends_only P st' (f st')"
  shows "ends_only P st (res_bind r f)"
  using assms by (cases r) (auto simp: ends_only_def[of P st "Inl _"] intro: ends_only_after)

lemma ends_only_fold:
  "(\<And>x st. x \<in> set xs \<Longrightarrow> ends_only P st (f st x)) \<Longrightarrow> ends_only P st (res_fold f st xs)"
  by (induction xs arbitrary: st) (auto intro!: ends_only_bind simp: only_same)

section \<open>One build\<close>

definition builds_for :: "build_unit \<Rightarrow> string \<Rightarrow> built \<Rightarrow> bool" where
  "builds_for u p b \<longleftrightarrow> bt_Image b = img_Name (bu_Image u) \<and> bt_Tag b = bu_TagName u \<and> bt_Platform b = p"

lemma run_solve_only: "only (builds_for u p) st (snd (run_solve env opts u p hds pds bo st))"
  by (auto simp: run_solve_def only_def builds_for_def split: prod.split option.split)

lemma build_unit_steps_only: "only (builds_for u p) st (snd (build_unit_steps env opts u p st))"
proof -
  have "only (builds_for u p) st (snd (run_solve env opts u p hds pds bo (st\<lparr>rs_disk := d\<rparr>)))" for hds pds bo d
    using run_solve_only[of u p "st\<lparr>rs_disk := d\<rparr>"] by (simp add: only_def)
  then show ?thesis
    by (simp add: build_unit_steps_def Let_def only_same split: prod.split sum.split)
qed

lemma buildTag_only: "only (builds_for (unit_of_tag env img tag) p) st (snd (buildTag env opts img tag p st))"
  by (simp add: buildTag_def Let_def only_same build_unit_steps_only)

lemma buildVariant_only: "only (builds_for (unit_of_variant env img tag v) p) st (snd (buildVariant env opts img tag v p st))"
  by (simp add: buildVariant_def Let_def only_same build_unit_steps_only)

lemma buildPlatforms_only:
  assumes "\<And>p st. p \<in> set ps \<Longrightarrow> only P st (snd (build p st))"
  shows "only P st (snd (buildPlatforms build ps st))"
  using assms
proof (induction ps arbitrary: st)
  case (Cons p ps)
  obtain err s where b: "build p st = (err, s)" by (rule prod.exhaust)
  have "only P st s" using Cons.prems[of p st] b by simp
  moreover have "only P s (snd (buildPlatforms build ps s))" using Cons by simp
  ultimately have "only P st (snd (buildPlatforms build ps s))" by (rule only_trans)
  then show ?case using b by (simp add: case_prod_beta)
qed (simp add: only_same)

lemma all_platforms_only:
  assumes "\<And>p st. p \<in> set (platforms_of opts img vp) \<Longrightarrow> only P st (snd (build p st))"
  shows "ends_only P st (all_platforms build (platformsFor opts img vp st))"
proof -
  obtain errs s where b: "buildPlatforms build (platforms_of opts img vp) (snd (platformsFor opts img vp st)) = (errs, s)"
    by (rule prod.exhaust)
  have "only P (snd (platformsFor opts img vp st)) s" using buildPlatforms_only[where P = P and build = build, OF assms, of "platforms_of opts img vp" "snd (platformsFor opts img vp st)"] b by simp
  then have "only P st s" by (simp add: only_log[OF platformsFor_simps(2)])
  then show ?thesis by (simp add: all_platforms_def platformsFor_simps b)
qed

section \<open>The project\<close>

text \<open>A build the options select: of a base tag or a variant's tag, matched by the filters, owned by the shard, on a platform resolved for it.\<close>

definition selected_base :: "ProjectBuildOpts \<Rightarrow> Image \<Rightarrow> built \<Rightarrow> bool" where
  "selected_base opts img b \<longleftrightarrow> bt_Tag b \<in> set (mkeys (img_Tags img)) \<and> ownsBase opts (img_Identifier img) (bt_Tag b) = Some True
     \<and> bt_Platform b \<in> set (platforms_of opts img [])"

definition selected_variant :: "ProjectBuildOpts \<Rightarrow> Image \<Rightarrow> built \<Rightarrow> bool" where
  "selected_variant opts img b \<longleftrightarrow> (\<exists>tag v. tag \<in> set (mkeys (img_Tags img)) \<and> v \<in> snd ` set (img_Variants img) \<and> bt_Tag b = tag @ var_TagSuffix v
     \<and> ownsVariant opts (img_Identifier img) (bt_Tag b) = Some True \<and> bt_Platform b \<in> set (platforms_of opts img (var_Platforms v)))"

definition selected_of :: "ProjectBuildOpts \<Rightarrow> Image \<Rightarrow> built \<Rightarrow> bool" where
  "selected_of opts img b \<longleftrightarrow> bt_Image b = img_Name img \<and> matchesFilters (po_Filters opts) (bt_Image b) (bt_Tag b)
     \<and> (selected_base opts img b \<or> selected_variant opts img b)"

lemma build_base_only:
  assumes "tag \<in> set (mkeys (img_Tags img))"
  shows "ends_only (selected_of opts img) st (build_base env opts (img_Name img) img tag st)"
proof (cases "matchesFilters (po_Filters opts) (img_Name img) tag \<and> ownsBase opts (img_Identifier img) tag = Some True")
  case True
  have "ends_only (selected_of opts img) st (all_platforms (buildTag env opts img tag) (platformsFor opts img [] st))"
    by (rule all_platforms_only, rule only_mono[OF buildTag_only])
      (use True assms in \<open>auto simp: selected_of_def selected_base_def builds_for_def unit_of_tag_def\<close>)
  then show ?thesis using True by (simp add: build_base_def)
next
  case False
  then show ?thesis by (auto simp: build_base_def only_same split: option.split)
qed

lemma build_one_variant_only:
  assumes "tag \<in> set (mkeys (img_Tags img))" and "nv \<in> set (img_Variants img)"
  shows "ends_only (selected_of opts img) st (build_one_variant env opts (img_Name img) img tag st nv)"
proof (cases "matchesFilters (po_Filters opts) (img_Name img) (tag @ var_TagSuffix (snd nv))
    \<and> ownsVariant opts (img_Identifier img) (tag @ var_TagSuffix (snd nv)) = Some True")
  case True
  have "ends_only (selected_of opts img) st
      (all_platforms (buildVariant env opts img tag (snd nv)) (platformsFor opts img (var_Platforms (snd nv)) st))"
    by (rule all_platforms_only, rule only_mono[OF buildVariant_only])
      (use True assms in \<open>auto simp: selected_of_def selected_variant_def builds_for_def unit_of_variant_def\<close>)
  then show ?thesis using True by (simp add: build_one_variant_def Let_def)
next
  case False
  then show ?thesis by (auto simp: build_one_variant_def Let_def only_same split: option.split)
qed

lemma build_image_only: "ends_only (selected_of opts img) st (build_image env opts (img_Name img) st img)"
  unfolding build_image_def build_tags_def
  by (intro ends_only_fold ends_only_bind build_base_only build_one_variant_only) simp_all

definition selected_build :: "ProjectBuildOpts \<Rightarrow> built \<Rightarrow> bool" where
  "selected_build opts b \<longleftrightarrow> (\<exists>(name, images) \<in> set (pr_ImagesByName (po_Project opts)). \<exists>img \<in> set images. selected_of opts img b)"

lemma buildWithDeps_only:
  assumes "names_ok (po_Project opts)"
  shows "ends_only (selected_build opts) st (buildWithDeps env opts st)"
  unfolding buildWithDeps_def build_name_def
proof (intro ends_only_fold)
  fix name img s
  assume img: "img \<in> set (mget_or [] (pr_ImagesByName (po_Project opts)) name)"
  then have n: "img_Name img = name" using assms by (auto simp: names_ok_def)
  obtain images where "(name, images) \<in> set (pr_ImagesByName (po_Project opts))" "img \<in> set images"
    using img by (cases "mget (pr_ImagesByName (po_Project opts)) name") (auto simp: mget_or_def dest: map_of_SomeD)
  then show "ends_only (selected_build opts) s (build_image env opts name s img)"
    unfolding n[symmetric] by (intro ends_only_mono[OF build_image_only]) (auto simp: selected_build_def n)
qed

lemma buildWithoutDeps_only: "ends_only (selected_build opts) st (buildWithoutDeps env opts st)"
  unfolding buildWithoutDeps_def
proof (intro ends_only_fold, clarify)
  fix name images s
  assume "(name, images) \<in> set (pr_ImagesByName (po_Project opts))"
  then show "ends_only (selected_build opts) s (res_fold (\<lambda>st imageDef. build_image env opts (img_Name imageDef) st imageDef) s images)"
    by (intro ends_only_fold ends_only_mono[OF build_image_only]) (auto simp: selected_build_def)
qed

definition with_owners :: "ProjectBuildOpts \<Rightarrow> ProjectBuildOpts" where
  "with_owners opts = opts\<lparr>po_baseOwns := Some (NewBaseTagSharder (po_Project opts) (po_Shard opts)),
     po_variantOwns := Some (NewTagSharder (po_Project opts) (po_Shard opts))\<rparr>"

lemma BuildProject_only:
  assumes "names_ok (po_Project opts)"
  shows "ends_only (selected_build (with_owners opts)) st (map_sum id fst (BuildProject env opts st))"
proof -
  have n: "names_ok (po_Project (with_owners opts))" using assms by (simp add: with_owners_def)
  let ?run = "if HasDependencies (bo_graph (po_BuildOrder opts)) then buildWithDeps env (with_owners opts) st else buildWithoutDeps env (with_owners opts) st"
  have "ends_only (selected_build (with_owners opts)) st ?run"
    by (simp add: buildWithDeps_only[OF n] buildWithoutDeps_only)
  moreover have "BuildProject env opts st = Inl Panicked \<or> BuildProject env opts st = Inr (st, False)
      \<or> BuildProject env opts st = res_bind ?run (\<lambda>st. Inr (st, warnIfNothingSelected st))"
    by (auto simp: BuildProject_def with_owners_def split: option.split)
  ultimately show ?thesis
    by (cases ?run) (auto simp: only_same ends_only_def split: sum.splits run_stop.splits)
qed

text \<open>
  C32. Builds are selected.  Whether a run succeeds or fails half way, every build it finishes is of a tag of the project, or of a variant of one, that the filters match and the shard
  owns, on one of the platforms resolved for it.
\<close>

theorem builds_are_selected:
  assumes "names_ok (po_Project opts)"
  shows "case BuildProject env opts st of
      Inr (st', _) \<Rightarrow> only (selected_build (with_owners opts)) st st'
    | Inl (Failed _ st') \<Rightarrow> only (selected_build (with_owners opts)) st st'
    | Inl Panicked \<Rightarrow> True"
  using BuildProject_only[OF assms, of st env] by (auto simp: ends_only_def split: sum.splits)

theorem builds_are_selected_witness:
  "\<exists>st'. buildWithDeps app_env app_opts app_start = Inr st' \<and> rs_log st' = app_log
     \<and> (case BuildProject app_env app_opts app_start of Inr (st, _) \<Rightarrow> list_all (\<lambda>b. matchesFilters [] (bt_Image b) (bt_Tag b)) (rs_log st) | _ \<Rightarrow> True)"
proof -
  have n: "names_ok (po_Project app_opts)"
    by (auto simp: names_ok_def app_opts_def app_project_def project_of_def wf_map_def mget_or_def plain_image_def split: if_splits)
  have f: "po_Filters (with_owners app_opts) = []" "rs_log app_start = []" by (simp_all add: with_owners_def app_opts_def app_start_def)
  have "case BuildProject app_env app_opts app_start of Inr (st, _) \<Rightarrow> list_all (\<lambda>b. matchesFilters [] (bt_Image b) (bt_Tag b)) (rs_log st) | _ \<Rightarrow> True"
    using builds_are_selected[OF n, of app_start app_env] f
    by (auto simp: only_def list_all_iff selected_build_def selected_of_def split: sum.splits run_stop.splits)
  then show ?thesis using app_run by (auto simp: log_of_def split: sum.splits)
qed

end
