(* ===== verification/Selected_Tags.thy ===== *)
theory Selected_Tags
  imports Build_Run Go_Files
begin

text \<open>
  The commands that work on selected tags of built images: filters and their limitation to affected images (\<open>pkg/utils\<close>,
  \<open>pkg/cli/changes.go\<close>), the checks of flags (\<open>pkg/cli/app.go\<close>, \<open>pkg/cli/shard.go\<close>), image tests (\<open>pkg/test\<close>) and the collection of
  inventories (\<open>pkg/cli/sbom.go\<close>) with its pool of workers, which take steps in any order.  The test driver, the inventory generator, the registry,
  the context and the JSON codec are parameters; files are those of \<open>Go_Files\<close>.
\<close>

section \<open>Filters (\<open>pkg/utils/filter.go\<close>)\<close>

definition ParseFilter :: "string \<Rightarrow> Filter" where
  "ParseFilter arg =
     (case go_index_byte arg (CHR '':'') of
        Some idx \<Rightarrow> \<lparr>fi_ImageName = take idx arg, fi_TagName = drop (idx + 1) arg\<rparr>
      | None \<Rightarrow> \<lparr>fi_ImageName = arg, fi_TagName = []\<rparr>)"

definition ParseFilters :: "string list \<Rightarrow> Filter list" where
  "ParseFilters args = map ParseFilter args"

fun match_filter :: "Filter list \<Rightarrow> string \<Rightarrow> string \<Rightarrow> bool" where
  "match_filter [] imageName tagName = False"
| "match_filter (f # fs) imageName tagName =
     (if fi_ImageName f \<noteq> [] \<and> fi_ImageName f \<noteq> imageName then match_filter fs imageName tagName
      else if fi_TagName f \<noteq> [] \<and> fi_TagName f \<noteq> tagName then match_filter fs imageName tagName
      else True)"

definition MatchesFilter :: "Filter list \<Rightarrow> string \<Rightarrow> string \<Rightarrow> bool" where
  "MatchesFilter filters imageName tagName = (if length filters = 0 then True else match_filter filters imageName tagName)"

section \<open>The file of changes (\<open>pkg/changes\<close>)\<close>

record change_codec =
  cc_encode :: "ChangeSet \<Rightarrow> string option"
  cc_decode :: "string \<Rightarrow> ChangeSet option"

datatype changes_file_error = EncodeFailed | DecodeFailedIn string | FileFailed os_error

definition changes_FileName :: string where "changes_FileName = ''changes.json''"

definition Write_changes :: "change_codec \<Rightarrow> (nat \<Rightarrow> nat) \<Rightarrow> string \<Rightarrow> ChangeSet \<Rightarrow> filesys \<Rightarrow> changes_file_error option \<times> filesys" where
  "Write_changes codec umask distPath cs fs =
     (case cc_encode codec cs of
        None \<Rightarrow> (Some EncodeFailed, fs)
      | Some data \<Rightarrow>
          let (err, fs) = os_MkdirAll umask distPath 493 fs in
          (case err of
             Some e \<Rightarrow> (Some (FileFailed e), fs)
           | None \<Rightarrow>
               let (err, fs) = os_WriteFile umask (go_path_join [distPath, changes_FileName]) (data @ [newline]) 420 fs in
               (map_option FileFailed err, fs)))"

definition Load_changes :: "change_codec \<Rightarrow> string \<Rightarrow> filesys \<Rightarrow> changes_file_error + ChangeSet option" where
  "Load_changes codec distPath fs =
     (case os_ReadFile fs (go_path_join [distPath, changes_FileName]) of
        Inl (ENOENT _) \<Rightarrow> Inr None
      | Inl err \<Rightarrow> Inl (FileFailed err)
      | Inr data \<Rightarrow> (case cc_decode codec data of None \<Rightarrow> Inl (DecodeFailedIn changes_FileName) | Some cs \<Rightarrow> Inr (Some cs)))"

section \<open>Limitation to affected images (\<open>limitToChanges\<close>)\<close>

definition limit_filter :: "ChangeSet \<Rightarrow> Filter \<Rightarrow> Filter list" where
  "limit_filter cs flt =
     (if fi_ImageName flt \<noteq> [] then (if IsAffected (Some cs) (fi_ImageName flt) then [flt] else [])
      else map (\<lambda>name. \<lparr>fi_ImageName = name, fi_TagName = fi_TagName flt\<rparr>) (cs_Affected cs))"

text \<open>The limited filters, the set and whether there is nothing to do.\<close>

definition limitToChanges :: "change_codec \<Rightarrow> filesys \<Rightarrow> string \<Rightarrow> Filter list \<Rightarrow> changes_file_error + Filter list \<times> ChangeSet option \<times> bool" where
  "limitToChanges codec fs distPath filters =
     res_bind (Load_changes codec distPath fs) (\<lambda>cs.
       case cs of
         None \<Rightarrow> Inr (filters, None, False)
       | Some cs \<Rightarrow>
           let filters = (if length filters = 0 then [\<lparr>fi_ImageName = [], fi_TagName = []\<rparr>] else filters);
               limited = concat (map (limit_filter cs) filters) in
           if length limited = 0 then Inr ([], Some cs, True) else Inr (limited, Some cs, False))"

section \<open>Checks of flags\<close>

definition validatePlatforms :: "ContainerHiveProject \<Rightarrow> string list \<Rightarrow> string list" where
  "validatePlatforms project requested =
     (let configured = hc_Platforms (pr_Config project) # concat (map (\<lambda>(_, img).
            img_Platforms img # map (\<lambda>(_, v). var_Platforms v) (img_Variants img)) (pr_ImagesByIdentifier project)) in
      Unsupported requested configured)"

definition resolveShard :: "int \<Rightarrow> int \<Rightarrow> shard_error + Shard" where
  "resolveShard current maxShards =
     (let s = \<lparr>Current = current, MaxShards = maxShards\<rparr> in res_bind (ValidateShard s) (\<lambda>_. Inr s))"

section \<open>Image tests (\<open>pkg/test\<close>)\<close>

text \<open>
  The parameters: the \<open>n\<close>-th look at the context, a runner for a platform or its error, a run of the tests of an image, which may write files, and the
  references of a registry, if there is one.
\<close>

record test_env =
  tv_cancelled :: "nat \<Rightarrow> bool"
  tv_NewRunner :: "string \<Rightarrow> string option"
  tv_RunTests :: "string \<Rightarrow> string \<Rightarrow> string list \<Rightarrow> string \<Rightarrow> filesys \<Rightarrow> string option \<times> filesys"
  tv_ImageRef :: "(string \<Rightarrow> string \<Rightarrow> string \<Rightarrow> string \<Rightarrow> string) option"
  tv_umask :: "nat \<Rightarrow> nat"

record TestOpts =
  to_DistPath :: string
  to_Project :: ContainerHiveProject
  to_Filters :: "Filter list"
  to_BuildID :: string
  to_Shard :: Shard
  to_Platforms :: "string list"

datatype test_error =
    ShardPanic | ContextDone | TarMissing string string string | MkdirFailedFor string string string | RunnerFailed string

text \<open>A run of tests and whether they passed.\<close>

record test_run =
  tr_Image :: string
  tr_Tag :: string
  tr_Platform :: string
  tr_Source :: string
  tr_Passed :: bool

record test_state =
  ts_fs :: filesys
  ts_looks :: nat
  ts_runs :: "test_run list"
  ts_matched :: nat
  ts_skipped :: nat

definition look :: "test_env \<Rightarrow> test_state \<Rightarrow> bool \<times> test_state" where
  "look e st = (tv_cancelled e (ts_looks st), st\<lparr>ts_looks := ts_looks st + 1\<rparr>)"

definition CollectTestDefinitions :: "filesys \<Rightarrow> string \<Rightarrow> string list" where
  "CollectTestDefinitions fs distDir =
     (let testsDir = go_path_join [distDir, ''tests''] in
      case os_ReadDir fs testsDir of
        Inl _ \<Rightarrow> []
      | Inr entries \<Rightarrow> map (\<lambda>(name, _). go_path_join [testsDir, name]) (filter (\<lambda>(_, isDir). \<not> isDir) entries))"

definition ReportFileName :: "string \<Rightarrow> string \<Rightarrow> string" where
  "ReportFileName reportDir imageTag = go_path_join [reportDir, go_replace_all '':'' ''-'' imageTag @ ''-cst-report.xml'']"

definition sel_resolve :: "string list \<Rightarrow> string list \<Rightarrow> string list \<Rightarrow> string list \<Rightarrow> test_state \<Rightarrow> string list \<times> test_state" where
  "sel_resolve requested global image' variant st =
     (let platforms = ResolvePlatforms requested global image' variant in
      (platforms,
       if length platforms > 0 then st\<lparr>ts_matched := ts_matched st + 1\<rparr>
       else if length requested > 0 then st\<lparr>ts_skipped := ts_skipped st + 1\<rparr>
       else st))"

definition warn_nothing_tested :: "test_state \<Rightarrow> bool" where
  "warn_nothing_tested st \<longleftrightarrow> \<not> (ts_matched st > 0 \<or> ts_skipped st = 0)"

text \<open>Where the image of a platform is taken from: its tar, the registry, or nowhere, which is an error if the platform was asked for.\<close>

definition image_source :: "test_env \<Rightarrow> TestOpts \<Rightarrow> string \<Rightarrow> string \<Rightarrow> string \<Rightarrow> filesys \<Rightarrow> test_error + string option" where
  "image_source e opts imageName tagName platformStr fs =
     (let imageSource = go_path_join [go_path_join [go_path_join [to_DistPath opts, imageName, tagName], Sanitize platformStr], ''image.tar''] in
      case os_Stat fs imageSource of
        Inr _ \<Rightarrow> Inr (Some imageSource)
      | Inl _ \<Rightarrow>
          (case tv_ImageRef e of
             None \<Rightarrow> if length (to_Platforms opts) > 0 then Inl (TarMissing platformStr imageName tagName) else Inr None
           | Some ref \<Rightarrow> Inr (Some (ref imageName tagName platformStr (to_BuildID opts)))))"

fun test_platforms ::
  "test_env \<Rightarrow> TestOpts \<Rightarrow> string \<Rightarrow> string \<Rightarrow> string list \<Rightarrow> string list \<Rightarrow> nat \<times> nat \<Rightarrow> test_state \<Rightarrow> (nat \<times> nat \<times> test_error option) \<times> test_state" where
  "test_platforms e opts imageName tagName testDefs [] (tested, failed) st = ((tested, failed, None), st)"
| "test_platforms e opts imageName tagName testDefs (platformStr # rest) (tested, failed) st =
     (let (stop, st) = look e st in
      if stop then ((tested, failed, Some ContextDone), st)
      else
        let platDir = go_path_join [go_path_join [to_DistPath opts, imageName, tagName], Sanitize platformStr] in
        case image_source e opts imageName tagName platformStr (ts_fs st) of
          Inl err \<Rightarrow> ((tested, failed, Some err), st)
        | Inr None \<Rightarrow> test_platforms e opts imageName tagName testDefs rest (tested, failed) st
        | Inr (Some imageSource) \<Rightarrow>
            let (err, fs) = os_MkdirAll (tv_umask e) platDir 493 (ts_fs st); st = st\<lparr>ts_fs := fs\<rparr> in
            if err \<noteq> None then ((tested, failed, Some (MkdirFailedFor imageName tagName platformStr)), st)
            else (case tv_NewRunner e platformStr of
                Some msg \<Rightarrow> ((tested, failed, Some (RunnerFailed platformStr)), st)
              | None \<Rightarrow>
                  let reportFile = ReportFileName platDir (imageName @ '':'' @ tagName);
                      tested = tested + 1;
                      (err, fs) = tv_RunTests e platformStr imageSource testDefs reportFile (ts_fs st);
                      st = st\<lparr>ts_fs := fs, ts_runs := ts_runs st @ [\<lparr>tr_Image = imageName, tr_Tag = tagName, tr_Platform = platformStr,
                        tr_Source = imageSource, tr_Passed = (err = None)\<rparr>]\<rparr> in
                  if err \<noteq> None then
                    (let failed = failed + 1; (stop, st) = look e st in
                     if stop then ((tested, failed, Some ContextDone), st)
                     else test_platforms e opts imageName tagName testDefs rest (tested, failed) st)
                  else test_platforms e opts imageName tagName testDefs rest (tested, failed) st))"

definition runTestsForTag ::
  "test_env \<Rightarrow> TestOpts \<Rightarrow> string \<Rightarrow> string \<Rightarrow> string list \<Rightarrow> test_state \<Rightarrow> (nat \<times> nat \<times> test_error option) \<times> test_state" where
  "runTestsForTag e opts imageName tagName platforms st =
     (if length platforms = 0 \<and> length (to_Platforms opts) > 0 then ((0, 0, None), st)
      else
        let tagDir = go_path_join [to_DistPath opts, imageName, tagName];
            testDefs = CollectTestDefinitions (ts_fs st) tagDir in
        if length testDefs = 0 then ((0, 0, None), st)
        else test_platforms e opts imageName tagName testDefs platforms (0, 0) st)"

text \<open>
  A tag to test: its image, its full name and the platforms of its variant.  The loops over images, tags and variants visit them in this order, the base
  tag before its variants.
\<close>

definition tag_units :: "ContainerHiveProject \<Rightarrow> (Image \<times> string \<times> string list) list" where
  "tag_units project = concat (map (\<lambda>(_, img). concat (map (\<lambda>tagName.
       (img, tagName, []) # map (\<lambda>(_, v). (img, tagName @ var_TagSuffix v, var_Platforms v)) (img_Variants img))
     (mkeys (img_Tags img)))) (pr_ImagesByIdentifier project))"

fun test_units ::
  "test_env \<Rightarrow> TestOpts \<Rightarrow> (string \<Rightarrow> string \<Rightarrow> bool option) \<Rightarrow> (Image \<times> string \<times> string list) list \<Rightarrow> nat \<times> nat \<Rightarrow> test_state
   \<Rightarrow> (nat \<times> nat \<times> test_error option) \<times> test_state" where
  "test_units e opts owns [] (tested, failed) st = ((tested, failed, None), st)"
| "test_units e opts owns ((img, tagName, variant) # us) (tested, failed) st =
     (if \<not> MatchesFilter (to_Filters opts) (img_Name img) tagName then test_units e opts owns us (tested, failed) st
      else case owns (img_Identifier img) tagName of
          None \<Rightarrow> ((tested, failed, Some ShardPanic), st)
        | Some False \<Rightarrow> test_units e opts owns us (tested, failed) st
        | Some True \<Rightarrow>
            let (platforms, st) = sel_resolve (to_Platforms opts) (hc_Platforms (pr_Config (to_Project opts))) (img_Platforms img) variant st;
                ((t, f, err), st) = runTestsForTag e opts (img_Name img) tagName platforms st in
            if err \<noteq> None then ((tested, failed, err), st)
            else test_units e opts owns us (tested + t, failed + f) st)"

definition RunProjectTests :: "test_env \<Rightarrow> TestOpts \<Rightarrow> test_state \<Rightarrow> (nat \<times> nat \<times> test_error option) \<times> test_state" where
  "RunProjectTests e opts st =
     (let start = test_units e opts (NewTagSharder (to_Project opts) (to_Shard opts)) (tag_units (to_Project opts)) (0, 0) st in
      if Enabled (to_Shard opts) then
        (case OwnedUnits (to_Project opts) (to_Shard opts) of
           None \<Rightarrow> ((0, 0, Some ShardPanic), st)
         | Some [] \<Rightarrow> ((0, 0, None), st)
         | Some _ \<Rightarrow> start)
      else start)"

section \<open>Limited filters select the affected images\<close>

definition selects :: "Filter \<Rightarrow> string \<Rightarrow> string \<Rightarrow> bool" where
  "selects f imageName tagName \<longleftrightarrow> (fi_ImageName f = [] \<or> fi_ImageName f = imageName) \<and> (fi_TagName f = [] \<or> fi_TagName f = tagName)"

lemma match_filter_iff: "match_filter fs i t \<longleftrightarrow> (\<exists>f \<in> set fs. selects f i t)"
  by (induction fs) (auto simp: selects_def)

lemma MatchesFilter_iff: "MatchesFilter fs i t \<longleftrightarrow> fs = [] \<or> (\<exists>f \<in> set fs. selects f i t)"
  by (simp add: MatchesFilter_def match_filter_iff)

text \<open>The build has a copy of this function; they agree.\<close>

lemma MatchesFilter_build: "MatchesFilter fs i t = matchesFilters fs i t"
  by (auto simp: MatchesFilter_iff matchesFilters_def list_ex_iff selects_def)

lemma ParseFilters_selects:
  assumes "CHR '':'' \<notin> set name"
  shows "ParseFilters [name] = [\<lparr>fi_ImageName = name, fi_TagName = []\<rparr>]"
    and "ParseFilters [name @ '':'' @ tag] = [\<lparr>fi_ImageName = name, fi_TagName = tag\<rparr>]"
  using assms by (simp_all add: ParseFilters_def ParseFilter_def go_index_byte_append flip: go_index_byte_None_iff)

lemma limit_filter_selects:
  assumes "[] \<notin> set (cs_Affected cs)"
  shows "(\<exists>g \<in> set (limit_filter cs f). selects g i t) \<longleftrightarrow> i \<in> set (cs_Affected cs) \<and> selects f i t"
  using assms by (auto simp: limit_filter_def selects_def IsAffected_def)

lemma limitToChanges_selects:
  assumes "Load_changes codec distPath fs = Inr (Some cs)" and "[] \<notin> set (cs_Affected cs)"
  shows "\<exists>limited skip. limitToChanges codec fs distPath filters = Inr (limited, Some cs, skip)
    \<and> (\<not> skip \<longrightarrow> (\<forall>i t. MatchesFilter limited i t \<longleftrightarrow> MatchesFilter filters i t \<and> i \<in> set (cs_Affected cs)))
    \<and> (skip \<longrightarrow> (\<forall>i t. \<not> (MatchesFilter filters i t \<and> i \<in> set (cs_Affected cs))))"
proof -
  define given where "given = (if length filters = 0 then [\<lparr>fi_ImageName = [], fi_TagName = []\<rparr>] else filters)"
  define limited where "limited = concat (map (limit_filter cs) given)"
  have g: "(\<exists>f \<in> set given. selects f i t) \<longleftrightarrow> MatchesFilter filters i t" for i t
    by (auto simp: given_def MatchesFilter_iff selects_def)
  have l: "(\<exists>f \<in> set limited. selects f i t) \<longleftrightarrow> MatchesFilter filters i t \<and> i \<in> set (cs_Affected cs)" for i t
    using limit_filter_selects assms(2) g unfolding limited_def by fastforce
  have run: "limitToChanges codec fs distPath filters = (if limited = [] then Inr ([], Some cs, True) else Inr (limited, Some cs, False))"
    using assms(1) by (simp add: limitToChanges_def limited_def given_def Let_def)
  show ?thesis
  proof (cases "limited = []")
    case True
    then show ?thesis using run l by auto
  next
    case False
    then show ?thesis using run l by (auto simp: MatchesFilter_iff)
  qed
qed

text \<open>
  C35. Limitation to changes.  With a change set beside the rendered project, a command goes on with filters that select a tag exactly if the given ones do and its image is
  affected, and it stops only if they select no tag of any affected image; without one the filters stay as they are.
\<close>

theorem limited_to_affected:
  assumes "Load_changes codec distPath fs = Inr found" and "\<forall>cs. found = Some cs \<longrightarrow> [] \<notin> set (cs_Affected cs)"
  shows "\<exists>limited skip. limitToChanges codec fs distPath filters = Inr (limited, found, skip)
    \<and> (\<not> skip \<longrightarrow> (\<forall>i t. MatchesFilter limited i t \<longleftrightarrow> MatchesFilter filters i t \<and> IsAffected found i))
    \<and> (skip \<longrightarrow> (\<forall>i t. \<not> (MatchesFilter filters i t \<and> IsAffected found i)))"
proof (cases found)
  case None
  then show ?thesis
    using assms(1) by (intro exI[of _ filters] exI[of _ False]) (simp add: limitToChanges_def IsAffected_def)
next
  case (Some cs)
  then show ?thesis using limitToChanges_selects[of codec distPath fs cs filters] assms by (simp add: IsAffected_def)
qed

definition demo_changes :: ChangeSet where
  "demo_changes = \<lparr>cs_Base = [], cs_Global = False, cs_Reason = [], cs_Changed = [''a''], cs_Affected = [''a'', ''b'']\<rparr>"

definition demo_codec_changes :: change_codec where
  "demo_codec_changes = \<lparr>cc_encode = (\<lambda>_. Some ''{}''), cc_decode = (\<lambda>_. Some demo_changes)\<rparr>"

definition demo_dist :: filesys where
  "demo_dist = [(path_key ''d/changes.json'', RegularFile ''{}'' 420), (path_key ''d'', Directory 493)]"

lemma demo_loaded: "Load_changes demo_codec_changes ''d'' demo_dist = Inr (Some demo_changes)"
  by code_simp

theorem limited_to_affected_witness:
  "limitToChanges demo_codec_changes demo_dist ''d'' (ParseFilters [''b:1'', ''c'']) = Inr ([\<lparr>fi_ImageName = ''b'', fi_TagName = ''1''\<rparr>], Some demo_changes, False)
   \<and> \<not> MatchesFilter [\<lparr>fi_ImageName = ''b'', fi_TagName = ''1''\<rparr>] ''c'' ''1''"
proof -
  have run: "limitToChanges demo_codec_changes demo_dist ''d'' (ParseFilters [''b:1'', ''c'']) = Inr ([\<lparr>fi_ImageName = ''b'', fi_TagName = ''1''\<rparr>], Some demo_changes, False)"
    by code_simp
  have "\<forall>cs. Some demo_changes = Some cs \<longrightarrow> [] \<notin> set (cs_Affected cs)" by (simp add: demo_changes_def)
  from limited_to_affected[OF demo_loaded this, of "ParseFilters [''b:1'', ''c'']"] run
  have "MatchesFilter [\<lparr>fi_ImageName = ''b'', fi_TagName = ''1''\<rparr>] ''c'' ''1'' \<longrightarrow> IsAffected (Some demo_changes) ''c''" by auto
  moreover have "\<not> IsAffected (Some demo_changes) ''c''" by (simp add: IsAffected_def demo_changes_def)
  ultimately show ?thesis using run by blast
qed

section \<open>What is tested\<close>

text \<open>The runs of a call: they are appended, and the counts count them.\<close>

definition counted :: "nat \<Rightarrow> nat \<Rightarrow> test_run list \<Rightarrow> nat \<Rightarrow> nat \<Rightarrow> bool" where
  "counted tested failed rs tested' failed' \<longleftrightarrow>
     tested' = tested + length rs \<and> failed' = failed + length (filter (\<lambda>r. \<not> tr_Passed r) rs)"

lemma look_keeps [simp]: "ts_runs (snd (look e st)) = ts_runs st" "ts_fs (snd (look e st)) = ts_fs st"
  by (simp_all add: look_def)

lemma test_platforms_runs:
  "\<exists>rs. ts_runs (snd (test_platforms e opts i t defs ps (tested, failed) st)) = ts_runs st @ rs
    \<and> (case fst (test_platforms e opts i t defs ps (tested, failed) st) of (tested', failed', err) \<Rightarrow> counted tested failed rs tested' failed')
    \<and> (\<forall>r \<in> set rs. tr_Image r = i \<and> tr_Tag r = t \<and> tr_Platform r \<in> set ps)"
proof (induction ps arbitrary: tested failed st)
  case Nil
  show ?case by (simp add: counted_def)
next
  case (Cons p ps)
  let ?all = "test_platforms e opts i t defs (p # ps) (tested, failed) st"
  obtain stop st1 where lk: "look e st = (stop, st1)" by (cases "look e st")
  have keep: "ts_runs st1 = ts_runs st" "ts_fs st1 = ts_fs st" using look_keeps[of e st] lk by simp_all
  let ?dir = "go_path_join [go_path_join [to_DistPath opts, i, t], Sanitize p]"
  obtain merr fs1 where mk: "os_MkdirAll (tv_umask e) ?dir 493 (ts_fs st1) = (merr, fs1)" by (cases "os_MkdirAll (tv_umask e) ?dir 493 (ts_fs st1)")
  have none: ?case if "fst ?all = (tested, failed, err)" "ts_runs (snd ?all) = ts_runs st" for err
    using that by (intro exI[of _ "[]"]) (simp add: counted_def)
  show ?case
  proof (cases "\<exists>src. \<not> stop \<and> image_source e opts i t p (ts_fs st1) = Inr (Some src) \<and> merr = None \<and> tv_NewRunner e p = None")
    case False
    consider "stop" | x where "\<not> stop" "image_source e opts i t p (ts_fs st1) = Inl x" | "\<not> stop" "image_source e opts i t p (ts_fs st1) = Inr None"
      | src where "\<not> stop" "image_source e opts i t p (ts_fs st1) = Inr (Some src)" "merr \<noteq> None \<or> tv_NewRunner e p \<noteq> None"
      using False by (cases "image_source e opts i t p (ts_fs st1)"; cases "projr (image_source e opts i t p (ts_fs st1))") auto
    then show ?thesis
    proof cases
      case 1
      then show ?thesis using lk keep by (intro none[of "Some ContextDone"]) simp_all
    next
      case 2
      then show ?thesis using lk keep by (intro none[of "Some x"]) simp_all
    next
      case 3
      then show ?thesis using lk keep Cons.IH[of tested failed st1] by (auto simp: Let_def)
    next
      case 4
      then show ?thesis using lk keep mk none by (cases merr; cases "tv_NewRunner e p") auto
    qed
  next
    case True
    then obtain src where ok: "\<not> stop" "image_source e opts i t p (ts_fs st1) = Inr (Some src)" "merr = None" "tv_NewRunner e p = None" by blast
    obtain rerr fs2 where run: "tv_RunTests e p src defs (ReportFileName ?dir (i @ '':'' @ t)) fs1 = (rerr, fs2)"
      by (cases "tv_RunTests e p src defs (ReportFileName ?dir (i @ '':'' @ t)) fs1")
    let ?r = "\<lparr>tr_Image = i, tr_Tag = t, tr_Platform = p, tr_Source = src, tr_Passed = (rerr = None)\<rparr>"
    let ?st2 = "st1\<lparr>ts_fs := fs2, ts_runs := ts_runs st1 @ [?r]\<rparr>"
    obtain stop' st3 where lk': "look e ?st2 = (stop', st3)" by (cases "look e ?st2")
    have keep': "ts_runs st3 = ts_runs st @ [?r]" using look_keeps(1)[of e ?st2] unfolding lk' by (simp add: keep)
    show ?thesis
    proof (cases rerr)
      case None
      then have all: "?all = test_platforms e opts i t defs ps (tested + 1, failed) ?st2" using lk ok mk run by (simp add: Let_def)
      obtain rs where "ts_runs (snd ?all) = ts_runs ?st2 @ rs"
          "case fst ?all of (tested', failed', err) \<Rightarrow> counted (tested + 1) failed rs tested' failed'"
          "\<forall>r \<in> set rs. tr_Image r = i \<and> tr_Tag r = t \<and> tr_Platform r \<in> set ps"
        using Cons.IH[of "tested + 1" failed ?st2, folded all] by (elim exE conjE) (rule that, assumption+)
      then show ?thesis using keep None by (intro exI[of _ "?r # rs"]) (auto simp: counted_def)
    next
      case (Some x)
      then have all: "?all = (if stop' then ((tested + 1, failed + 1, Some ContextDone), st3) else test_platforms e opts i t defs ps (tested + 1, failed + 1) st3)"
        using lk ok mk run lk' by (simp add: Let_def)
      show ?thesis
      proof (cases stop')
        case True
        then show ?thesis unfolding all using keep' Some by (intro exI[of _ "[?r]"]) (auto simp: counted_def)
      next
        case False
        obtain rs where "ts_runs (snd ?all) = ts_runs st3 @ rs"
            "case fst ?all of (tested', failed', err) \<Rightarrow> counted (tested + 1) (failed + 1) rs tested' failed'"
            "\<forall>r \<in> set rs. tr_Image r = i \<and> tr_Tag r = t \<and> tr_Platform r \<in> set ps"
          using Cons.IH[of "tested + 1" "failed + 1" st3] False all by auto
        then show ?thesis using keep' Some by (intro exI[of _ "?r # rs"]) (auto simp: counted_def)
      qed
    qed
  qed
qed

lemma sel_resolve_props:
  "fst (sel_resolve q g i v st) = ResolvePlatforms q g i v" "ts_runs (snd (sel_resolve q g i v st)) = ts_runs st"
  by (auto simp: sel_resolve_def Let_def)

text \<open>The runs a project's tests may make: of tags the filters select and the shard owns, for their platforms.\<close>

definition selected_run :: "TestOpts \<Rightarrow> (string \<Rightarrow> string \<Rightarrow> bool option) \<Rightarrow> (Image \<times> string \<times> string list) list \<Rightarrow> test_run \<Rightarrow> bool" where
  "selected_run opts owns us r \<longleftrightarrow> (\<exists>(img, tagName, variant) \<in> set us.
     tr_Image r = img_Name img \<and> tr_Tag r = tagName \<and> MatchesFilter (to_Filters opts) (img_Name img) tagName
     \<and> owns (img_Identifier img) tagName = Some True
     \<and> tr_Platform r \<in> set (ResolvePlatforms (to_Platforms opts) (hc_Platforms (pr_Config (to_Project opts))) (img_Platforms img) variant))"

lemma test_units_runs:
  "\<exists>rs. ts_runs (snd (test_units e opts owns us (tested, failed) st)) = ts_runs st @ rs
    \<and> (case fst (test_units e opts owns us (tested, failed) st) of (tested', failed', err) \<Rightarrow>
         (err = None \<longrightarrow> counted tested failed rs tested' failed') \<and> tested' \<le> tested + length rs)
    \<and> (\<forall>r \<in> set rs. selected_run opts owns us r)"
proof (induction us arbitrary: tested failed st)
  case Nil
  show ?case by (simp add: counted_def)
next
  case (Cons u us)
  obtain img t v where u: "u = (img, t, v)" by (cases u)
  let ?all = "test_units e opts owns (u # us) (tested, failed) st"
  have more: "selected_run opts owns us r \<Longrightarrow> selected_run opts owns (u # us) r" for r by (auto simp: selected_run_def)
  show ?case
  proof (cases "MatchesFilter (to_Filters opts) (img_Name img) t \<and> owns (img_Identifier img) t = Some True")
    case False
    then consider "\<not> MatchesFilter (to_Filters opts) (img_Name img) t \<or> owns (img_Identifier img) t = Some False"
      | "MatchesFilter (to_Filters opts) (img_Name img) t" "owns (img_Identifier img) t = None"
      by (cases "owns (img_Identifier img) t") auto
    then show ?thesis
    proof cases
      case 1
      then have all: "?all = test_units e opts owns us (tested, failed) st" by (auto simp: u)
      obtain rs where "ts_runs (snd ?all) = ts_runs st @ rs" "\<forall>r \<in> set rs. selected_run opts owns us r"
          "case fst ?all of (tested', failed', err) \<Rightarrow> (err = None \<longrightarrow> counted tested failed rs tested' failed') \<and> tested' \<le> tested + length rs"
        using Cons.IH[of tested failed st, folded all] by (elim exE conjE) (rule that, assumption+)
      then show ?thesis using more by (intro exI[of _ rs]) simp
    next
      case 2
      then have all: "?all = ((tested, failed, Some ShardPanic), st)" by (simp add: u)
      show ?thesis unfolding all by (intro exI[of _ "[]"]) simp
    qed
  next
    case True
    let ?ps = "ResolvePlatforms (to_Platforms opts) (hc_Platforms (pr_Config (to_Project opts))) (img_Platforms img) v"
    let ?sel = "sel_resolve (to_Platforms opts) (hc_Platforms (pr_Config (to_Project opts))) (img_Platforms img) v st"
    obtain st1 where sel: "?sel = (?ps, st1)" by (cases ?sel) (metis fst_conv sel_resolve_props(1))
    have keep: "ts_runs st1 = ts_runs st" using sel_resolve_props(2) sel by (metis snd_conv)
    obtain t' f' err st2 where run: "runTestsForTag e opts (img_Name img) t ?ps st1 = ((t', f', err), st2)"
      by (cases "runTestsForTag e opts (img_Name img) t ?ps st1") auto
    have "\<exists>rs. ts_runs st2 = ts_runs st1 @ rs \<and> counted 0 0 rs t' f'
        \<and> (\<forall>r \<in> set rs. tr_Image r = img_Name img \<and> tr_Tag r = t \<and> tr_Platform r \<in> set ?ps)"
    proof (cases "snd (runTestsForTag e opts (img_Name img) t ?ps st1) = st1 \<and> fst (runTestsForTag e opts (img_Name img) t ?ps st1) = (0, 0, None)")
      case True
      then show ?thesis using run by (intro exI[of _ "[]"]) (simp add: counted_def)
    next
      case False
      let ?defs = "CollectTestDefinitions (ts_fs st1) (go_path_join [to_DistPath opts, img_Name img, t])"
      have eq: "runTestsForTag e opts (img_Name img) t ?ps st1 = test_platforms e opts (img_Name img) t ?defs ?ps (0, 0) st1"
        using False by (auto simp: runTestsForTag_def Let_def)
      show ?thesis using test_platforms_runs[of e opts "img_Name img" t ?defs ?ps 0 0 st1] run unfolding eq by auto
    qed
    then obtain rs where rs: "ts_runs st2 = ts_runs st @ rs" "counted 0 0 rs t' f'"
        "\<forall>r \<in> set rs. tr_Image r = img_Name img \<and> tr_Tag r = t \<and> tr_Platform r \<in> set ?ps"
      unfolding keep by blast
    have here: "selected_run opts owns (u # us) r" if "r \<in> set rs" for r
      using rs(3) that True u by (auto simp: selected_run_def)
    have all: "?all = (if err \<noteq> None then ((tested, failed, err), st2) else test_units e opts owns us (tested + t', failed + f') st2)"
      using True sel run by (simp add: u)
    show ?thesis
    proof (cases err)
      case (Some x)
      then show ?thesis unfolding all using rs here by (intro exI[of _ rs]) simp
    next
      case None
      then have all: "?all = test_units e opts owns us (tested + t', failed + f') st2" using all by simp
      obtain more_rs where m: "ts_runs (snd ?all) = ts_runs st2 @ more_rs" "\<forall>r \<in> set more_rs. selected_run opts owns us r"
          "case fst ?all of (tested', failed', err) \<Rightarrow>
             (err = None \<longrightarrow> counted (tested + t') (failed + f') more_rs tested' failed') \<and> tested' \<le> tested + t' + length more_rs"
        using Cons.IH[of "tested + t'" "failed + f'" st2, folded all] by (elim exE conjE) (rule that, assumption+)
      then show ?thesis
        using rs here more by (intro exI[of _ "rs @ more_rs"]) (auto simp: counted_def)
    qed
  qed
qed

text \<open>
  C37. The tests of a project.  Tests are run only for tags of the project that the filters select and the shard owns, on platforms configured for them; without
  an error the numbers reported are those of the runs made and of those that failed.
\<close>

theorem tests_are_selected:
  assumes "RunProjectTests e opts st = ((tested, failed, err), st')"
  shows "\<exists>rs. ts_runs st' = ts_runs st @ rs
    \<and> (\<forall>r \<in> set rs. selected_run opts (NewTagSharder (to_Project opts) (to_Shard opts)) (tag_units (to_Project opts)) r)
    \<and> (err = None \<longrightarrow> tested = length rs \<and> failed = length (filter (\<lambda>r. \<not> tr_Passed r) rs)) \<and> tested \<le> length rs"
proof -
  let ?start = "test_units e opts (NewTagSharder (to_Project opts) (to_Shard opts)) (tag_units (to_Project opts)) (0, 0) st"
  have "((tested, failed, err), st') = ?start \<or> st' = st \<and> tested = 0 \<and> failed = 0"
    using assms unfolding RunProjectTests_def Let_def by (auto split: if_splits option.splits list.splits)
  then show ?thesis
  proof
    assume "((tested, failed, err), st') = ?start"
    then show ?thesis
      using test_units_runs[of e opts "NewTagSharder (to_Project opts) (to_Shard opts)" "tag_units (to_Project opts)" 0 0 st]
      by (metis (mono_tags, lifting) add_0 case_prod_conv counted_def fst_conv snd_conv)
  next
    assume "st' = st \<and> tested = 0 \<and> failed = 0"
    then show ?thesis by (intro exI[of _ "[]"]) simp
  qed
qed

definition tested_project :: ContainerHiveProject where
  "tested_project = \<lparr>pr_RootDir = ''/p'', pr_ConfigFilePath = [], pr_Config = zero_HiveProjectConfig,
     pr_ImagesByIdentifier = [(''a'', zero_Image\<lparr>img_Identifier := ''a'', img_Name := ''a'', img_Tags := [(''1'', zero_Tag), (''2'', zero_Tag)],
       img_Platforms := [''linux/amd64'']\<rparr>)],
     pr_ImagesByName = []\<rparr>"

definition tested_dist :: filesys where
  "tested_dist = [(path_key ''d/a/1/tests/t.yml'', RegularFile [] 420), (path_key ''d/a/1/linux-amd64/image.tar'', RegularFile [] 420),
     (path_key ''d/a/1/tests'', Directory 493), (path_key ''d/a/1/linux-amd64'', Directory 493), (path_key ''d/a/1'', Directory 493),
     (path_key ''d/a'', Directory 493), (path_key ''d'', Directory 493)]"

definition test_demo_env :: test_env where
  "test_demo_env = \<lparr>tv_cancelled = (\<lambda>_. False), tv_NewRunner = (\<lambda>_. None), tv_RunTests = (\<lambda>_ _ _ _ fs. (Some ''no shell'', fs)),
     tv_ImageRef = None, tv_umask = id\<rparr>"

definition test_demo_opts :: TestOpts where
  "test_demo_opts = \<lparr>to_DistPath = ''d'', to_Project = tested_project, to_Filters = [], to_BuildID = [],
     to_Shard = \<lparr>Current = 1, MaxShards = 1\<rparr>, to_Platforms = []\<rparr>"

definition test_start :: test_state where
  "test_start = \<lparr>ts_fs = tested_dist, ts_looks = 0, ts_runs = [], ts_matched = 0, ts_skipped = 0\<rparr>"

theorem tests_are_selected_witness:
  "fst (RunProjectTests test_demo_env test_demo_opts test_start) = (1, 1, None)
   \<and> (\<exists>r. ts_runs (snd (RunProjectTests test_demo_env test_demo_opts test_start)) = [r] \<and> tr_Tag r = ''1'' \<and> \<not> tr_Passed r)"
proof -
  let ?run = "RunProjectTests test_demo_env test_demo_opts test_start"
  have counts: "fst ?run = (1, 1, None)" by code_simp
  then have "?run = ((1, 1, None), snd ?run)" by (metis prod.collapse)
  from tests_are_selected[OF this] obtain rs where rs: "ts_runs (snd ?run) = ts_runs test_start @ rs"
      "1 = length rs" "1 = length (filter (\<lambda>r. \<not> tr_Passed r) rs)" by blast
  then obtain r where r: "rs = [r]" by (metis One_nat_def length_0_conv length_Suc_conv)
  have "map tr_Tag (ts_runs (snd ?run)) = [''1'']" by code_simp
  then show ?thesis using counts rs r by (auto simp: test_start_def split: if_splits)
qed

section \<open>One shard tests a tag\<close>

text \<open>Every tag of a project is owned by exactly one of the shards, so with the same filters it is tested, and its inventory collected, exactly once.\<close>

lemma unit_in_index:
  assumes "(img, tagName, variant) \<in> set (tag_units project)"
  shows "TagRef (img_Identifier img) tagName \<in> set (TagIndex project)"
proof -
  obtain i tag where i: "(i, img) \<in> set (pr_ImagesByIdentifier project)" "tag \<in> set (mkeys (img_Tags img))"
      and t: "tagName = tag \<or> (\<exists>v \<in> set (img_Variants img). tagName = tag @ var_TagSuffix (snd v))"
    using assms by (fastforce simp: tag_units_def)
  then have "TagRef (img_Identifier img) tagName \<in> set (image_refs img)"
    using image_refs_base image_refs_variant by (metis prod.collapse)
  then show ?thesis using in_TagIndex i(1) by blast
qed

lemma one_shard_tests_a_tag:
  assumes "(img, tagName, variant) \<in> set (tag_units project)" and "1 < n" and "n < 2 ^ 32"
  shows "\<exists>!k. k < n \<and> NewTagSharder project \<lparr>Current = int k + 1, MaxShards = int n\<rparr> (img_Identifier img) tagName = Some True"
proof -
  have "NewTagSharder project \<lparr>Current = int k + 1, MaxShards = int n\<rparr> (img_Identifier img) tagName
      = Some (hash_slot n (TagRef (img_Identifier img) tagName) = k)" for k
    using assms(2) unit_in_index[OF assms(1)] Owns_slot[OF assms(2,3)] by (simp add: NewTagSharder_def Enabled_def owns_valid_def tagSet_def Let_def)
  moreover have "hash_slot n (TagRef (img_Identifier img) tagName) < n"
  proof -
    have "unat (word_of_nat n :: 32 word) = n" using assms(3) by (simp add: unat_of_nat)
    then show ?thesis using assms(2) by (simp add: hash_slot_def unat_mod)
  qed
  ultimately show ?thesis by auto
qed

end
