(* ===== verification/Inventories.thy ===== *)
theory Inventories
  imports Selected_Tags Version_Sources
begin

text \<open>
  Software inventories of built images: the work items of \<open>ch sbom\<close>, its pool of workers and what is stripped from an inventory
  (\<open>pkg/cli/sbom.go\<close>, \<open>pkg/sbom\<close>).  The pool is a step relation: in each step one worker takes an item, finishes one or stops, in any order.  The inventory tool and
  the JSON codec are parameters.
\<close>

section \<open>Work items (\<open>collectSBOMWorkItems\<close>)\<close>

record sbomWorkItem =
  sw_img :: Image
  sw_tagName :: string
  sw_platformStr :: string
  sw_tarFile :: string
  sw_platDir :: string

datatype sbom_error = SbomShardPanic | NoImagesFound

record collected =
  co_items :: "sbomWorkItem list"
  co_matchedUnits :: bool
  co_matchedPlatforms :: bool

definition work_item :: "string \<Rightarrow> Image \<Rightarrow> string \<Rightarrow> string \<Rightarrow> sbomWorkItem" where
  "work_item distPath img tagName platformStr =
     (let platDir = go_path_join [distPath, img_Name img, tagName, Sanitize platformStr] in
      \<lparr>sw_img = img, sw_tagName = tagName, sw_platformStr = platformStr, sw_tarFile = go_path_join [platDir, ''image.tar''], sw_platDir = platDir\<rparr>)"

definition enqueue ::
  "filesys \<Rightarrow> string \<Rightarrow> Filter list \<Rightarrow> (string \<Rightarrow> string \<Rightarrow> bool option) \<Rightarrow> Image \<Rightarrow> string \<Rightarrow> string list \<Rightarrow> collected \<Rightarrow> sbom_error + collected" where
  "enqueue fs distPath filters owns img tagName platforms c =
     (if \<not> MatchesFilter filters (img_Name img) tagName then Inr c
      else case owns (img_Identifier img) tagName of
          None \<Rightarrow> Inl SbomShardPanic
        | Some False \<Rightarrow> Inr c
        | Some True \<Rightarrow>
            let c = c\<lparr>co_matchedUnits := True\<rparr> in
            if length platforms = 0 then Inr c
            else
              let c = c\<lparr>co_matchedPlatforms := True\<rparr> in
              Inr (fold (\<lambda>platformStr c.
                  let item = work_item distPath img tagName platformStr in
                  case os_Stat fs (sw_tarFile item) of
                    Inl _ \<Rightarrow> c
                  | Inr _ \<Rightarrow> c\<lparr>co_items := co_items c @ [item]\<rparr>) platforms c))"

definition collectSBOMWorkItems ::
  "filesys \<Rightarrow> ContainerHiveProject \<Rightarrow> string \<Rightarrow> Filter list \<Rightarrow> (string \<Rightarrow> string \<Rightarrow> bool option) \<Rightarrow> string list \<Rightarrow> Shard
   \<Rightarrow> sbom_error + sbomWorkItem list" where
  "collectSBOMWorkItems fs project distPath filters owns cliPlatforms s =
     res_bind (res_fold (\<lambda>c (img, tagName, variant).
         enqueue fs distPath filters owns img tagName
           (ResolvePlatforms cliPlatforms (hc_Platforms (pr_Config project)) (img_Platforms img) variant) c)
       \<lparr>co_items = [], co_matchedUnits = False, co_matchedPlatforms = False\<rparr> (tag_units project))
     (\<lambda>c. if length (co_items c) > 0 then Inr (co_items c)
          else if Enabled s \<and> \<not> co_matchedUnits c then Inr []
          else if co_matchedUnits c \<and> \<not> co_matchedPlatforms c then Inr []
          else Inl NoImagesFound)"

section \<open>The pool of workers\<close>

definition pool_size :: "int \<Rightarrow> nat" where
  "pool_size workers = (let workers = (if workers < 1 then 1 else workers); workers = (if workers > 4 then 4 else workers) in nat workers)"

datatype worker = Idle | Busy sbomWorkItem | Stopped

datatype sbom_failure = GenerateFailed string string string | WriteFailed string string string

text \<open>\<open>pl_log\<close> holds the items whose inventory is written, as the log reports them.\<close>

record pool =
  pl_queue :: "sbomWorkItem list"
  pl_workers :: "worker list"
  pl_fs :: filesys
  pl_generated :: nat
  pl_firstErr :: "sbom_failure option"
  pl_log :: "sbomWorkItem list"

definition sbom_path :: "sbomWorkItem \<Rightarrow> string" where
  "sbom_path item = go_path_join [sw_platDir item, ''cyclonedx.json'']"

definition keep_first :: "sbom_failure \<Rightarrow> sbom_failure option \<Rightarrow> sbom_failure option" where
  "keep_first e firstErr = (case firstErr of None \<Rightarrow> Some e | Some f \<Rightarrow> Some f)"

definition failure_of :: "(string \<Rightarrow> string \<Rightarrow> string \<Rightarrow> sbom_failure) \<Rightarrow> sbomWorkItem \<Rightarrow> sbom_failure" where
  "failure_of f item = f (img_Name (sw_img item)) (sw_tagName item) (sw_platformStr item)"

inductive pool_step :: "(string \<Rightarrow> string + string) \<Rightarrow> (nat \<Rightarrow> nat) \<Rightarrow> pool \<Rightarrow> pool \<Rightarrow> bool" for generate umask where
  taken: "i < length (pl_workers s) \<Longrightarrow> pl_workers s ! i = Idle \<Longrightarrow> pl_queue s = x # q
    \<Longrightarrow> pool_step generate umask s (s\<lparr>pl_queue := q, pl_workers := (pl_workers s)[i := Busy x]\<rparr>)"
| drained: "i < length (pl_workers s) \<Longrightarrow> pl_workers s ! i = Idle \<Longrightarrow> pl_queue s = []
    \<Longrightarrow> pool_step generate umask s (s\<lparr>pl_workers := (pl_workers s)[i := Stopped]\<rparr>)"
| failed: "i < length (pl_workers s) \<Longrightarrow> pl_workers s ! i = Busy x \<Longrightarrow> generate (sw_tarFile x) = Inl e
    \<Longrightarrow> pool_step generate umask s (s\<lparr>pl_workers := (pl_workers s)[i := Stopped],
          pl_firstErr := keep_first (failure_of GenerateFailed x) (pl_firstErr s)\<rparr>)"
| unwritten: "i < length (pl_workers s) \<Longrightarrow> pl_workers s ! i = Busy x \<Longrightarrow> generate (sw_tarFile x) = Inr data
    \<Longrightarrow> os_WriteFile umask (sbom_path x) data 420 (pl_fs s) = (Some e, fs)
    \<Longrightarrow> pool_step generate umask s (s\<lparr>pl_workers := (pl_workers s)[i := Stopped], pl_fs := fs,
          pl_firstErr := keep_first (failure_of WriteFailed x) (pl_firstErr s)\<rparr>)"
| written: "i < length (pl_workers s) \<Longrightarrow> pl_workers s ! i = Busy x \<Longrightarrow> generate (sw_tarFile x) = Inr data
    \<Longrightarrow> os_WriteFile umask (sbom_path x) data 420 (pl_fs s) = (None, fs)
    \<Longrightarrow> pool_step generate umask s (s\<lparr>pl_workers := (pl_workers s)[i := Idle], pl_fs := fs,
          pl_generated := pl_generated s + 1, pl_log := pl_log s @ [x]\<rparr>)"

inductive_cases pool_stepE: "pool_step generate umask s s'"

definition pool_start :: "sbomWorkItem list \<Rightarrow> nat \<Rightarrow> filesys \<Rightarrow> pool" where
  "pool_start items n fs = \<lparr>pl_queue = items, pl_workers = replicate n Idle, pl_fs = fs, pl_generated = 0, pl_firstErr = None, pl_log = []\<rparr>"

text \<open>
  The action of the command up to the start of the pool, for what discovery returns and after the optional rendering: an error, nothing to do, or the items and
  the number of workers.
\<close>

datatype sbom_cmd_error =
    SbomShard shard_error | DistMissing os_error | SbomChanges changes_file_error | SbomDiscovery string | PlatformsNotConfigured "string list"
  | SbomPanic | SbomItems sbom_error

definition sbom_plan ::
  "change_codec \<Rightarrow> filesys \<Rightarrow> (string + ContainerHiveProject) \<Rightarrow> string \<Rightarrow> string list \<Rightarrow> int \<Rightarrow> int \<Rightarrow> string list \<Rightarrow> int
   \<Rightarrow> sbom_cmd_error + (sbomWorkItem list \<times> nat) option" where
  "sbom_plan codec fs discovered distPath args current maxShards cliPlatforms workers =
     (case resolveShard current maxShards of
        Inl e \<Rightarrow> Inl (SbomShard e)
      | Inr s \<Rightarrow>
      (case os_Stat fs distPath of
        Inl e \<Rightarrow> Inl (DistMissing e)
      | Inr _ \<Rightarrow>
      (case limitToChanges codec fs distPath (ParseFilters args) of
        Inl e \<Rightarrow> Inl (SbomChanges e)
      | Inr (filters, _, skip) \<Rightarrow>
          if skip then Inr None
          else case discovered of
            Inl e \<Rightarrow> Inl (SbomDiscovery e)
          | Inr project \<Rightarrow>
              if validatePlatforms project cliPlatforms \<noteq> [] then Inl (PlatformsNotConfigured (validatePlatforms project cliPlatforms))
              else if Enabled s \<and> OwnedUnits project s = None then Inl SbomPanic
              else if Enabled s \<and> OwnedUnits project s = Some [] then Inr None
              else case collectSBOMWorkItems fs project distPath filters (NewTagSharder project s) cliPlatforms s of
                  Inl e \<Rightarrow> Inl (SbomItems e)
                | Inr items \<Rightarrow> if length items = 0 then Inr None else Inr (Some (items, pool_size workers)))))"

section \<open>Stripped inventories (\<open>pkg/sbom\<close>)\<close>

definition without :: "string \<Rightarrow> (string, 'f json) gomap \<Rightarrow> (string, 'f json) gomap" where
  "without k m = filter (\<lambda>(j, _). j \<noteq> k) m"

definition strip_component :: "'f json \<Rightarrow> 'f json" where
  "strip_component c = (case c of Obj component \<Rightarrow> Obj (without ''properties'' component) | _ \<Rightarrow> c)"

definition replace_at :: "string \<Rightarrow> ('f json \<Rightarrow> 'f json) \<Rightarrow> (string, 'f json) gomap \<Rightarrow> (string, 'f json) gomap" where
  "replace_at k f m = map (\<lambda>(j, v). if j = k then (j, f v) else (j, v)) m"

text \<open>The maps of the decoded document are changed in place.\<close>

definition strip_document :: "(string, 'f json) gomap \<Rightarrow> (string, 'f json) gomap" where
  "strip_document doc =
     replace_at ''metadata'' (\<lambda>metadata. case metadata of
         Obj metadata \<Rightarrow> Obj (replace_at ''component'' strip_component metadata) | _ \<Rightarrow> metadata)
       (replace_at ''components'' (\<lambda>components. case components of
           Arr cs \<Rightarrow> Arr (map strip_component cs) | _ \<Rightarrow> components) doc)"

definition stripCycloneDXProperties ::
  "(string \<Rightarrow> 'f json option) \<Rightarrow> ('f json \<Rightarrow> string option) \<Rightarrow> string \<Rightarrow> string + string" where
  "stripCycloneDXProperties decode encode data =
     (case decode data of
        Some (Obj doc) \<Rightarrow> (case encode (Obj (strip_document doc)) of None \<Rightarrow> Inl ''marshal'' | Some out \<Rightarrow> Inr out)
      | Some Null \<Rightarrow> (case encode Null of None \<Rightarrow> Inl ''marshal'' | Some out \<Rightarrow> Inr out)
      | _ \<Rightarrow> Inl ''failed to parse cyclonedx json'')"

definition isCycloneDXFormat :: "string \<Rightarrow> bool" where
  "isCycloneDXFormat outputFormat \<longleftrightarrow> go_has_prefix outputFormat ''cyclonedx''"

definition Generate_sbom ::
  "(string \<Rightarrow> string \<Rightarrow> string + string) \<Rightarrow> (string \<Rightarrow> 'f json option) \<Rightarrow> ('f json \<Rightarrow> string option) \<Rightarrow> string \<Rightarrow> string \<Rightarrow> string + string" where
  "Generate_sbom tool decode encode tarFile outputFormat =
     res_bind (tool tarFile outputFormat) (\<lambda>data.
       if isCycloneDXFormat outputFormat then stripCycloneDXProperties decode encode data else Inr data)"

section \<open>The pool ends and loses nothing\<close>

definition busy_items :: "worker list \<Rightarrow> sbomWorkItem multiset" where
  "busy_items ws = image_mset (\<lambda>w. case w of Busy x \<Rightarrow> x | _ \<Rightarrow> undefined) (filter_mset (\<lambda>w. \<exists>x. w = Busy x) (mset ws))"

lemma busy_items_update:
  assumes "i < length ws"
  shows "busy_items ws = (case ws ! i of Busy x \<Rightarrow> {#x#} | _ \<Rightarrow> {#}) + busy_items (ws[i := Stopped])"
    and "busy_items (ws[i := w]) = (case w of Busy x \<Rightarrow> {#x#} | _ \<Rightarrow> {#}) + busy_items (ws[i := Stopped])"
proof -
  define r where "r = mset ws - {#ws ! i#}"
  have v: "mset (ws[i := v]) = add_mset v r" for v using assms by (simp add: mset_update r_def)
  have m: "mset ws = add_mset (ws ! i) r" using assms by (simp add: r_def)
  show "busy_items ws = (case ws ! i of Busy x \<Rightarrow> {#x#} | _ \<Rightarrow> {#}) + busy_items (ws[i := Stopped])"
    unfolding busy_items_def v by (subst m) (cases "ws ! i"; simp)
  show "busy_items (ws[i := w]) = (case w of Busy x \<Rightarrow> {#x#} | _ \<Rightarrow> {#}) + busy_items (ws[i := Stopped])"
    unfolding busy_items_def v by (cases w) simp_all
qed

text \<open>Where the items are: in the queue, with a worker, in the log, or lost to an error that is then reported.\<close>

definition pool_inv :: "sbomWorkItem list \<Rightarrow> nat \<Rightarrow> pool \<Rightarrow> bool" where
  "pool_inv items n s \<longleftrightarrow> length (pl_workers s) = n \<and> pl_generated s = length (pl_log s)
     \<and> (\<exists>lost. mset items = mset (pl_queue s) + busy_items (pl_workers s) + mset (pl_log s) + lost \<and> (pl_firstErr s = None \<longleftrightarrow> lost = {#}))
     \<and> (pl_firstErr s = None \<longrightarrow> Stopped \<in> set (pl_workers s) \<longrightarrow> pl_queue s = [])"

lemma pool_inv_start: "pool_inv items n (pool_start items n fs)"
  by (auto simp: pool_inv_def pool_start_def busy_items_def)

lemma set_update_Stopped: "Stopped \<in> set (ws[i := w]) \<Longrightarrow> w \<noteq> Stopped \<Longrightarrow> Stopped \<in> set ws"
  using set_update_subset_insert by fastforce

lemma pool_inv_step:
  assumes "pool_step generate umask s s'" and "pool_inv items n s"
  shows "pool_inv items n s'"
proof -
  obtain lost where inv: "length (pl_workers s) = n" "pl_generated s = length (pl_log s)"
      "mset items = mset (pl_queue s) + busy_items (pl_workers s) + mset (pl_log s) + lost" "pl_firstErr s = None \<longleftrightarrow> lost = {#}"
      "pl_firstErr s = None \<longrightarrow> Stopped \<in> set (pl_workers s) \<longrightarrow> pl_queue s = []"
    using assms(2) unfolding pool_inv_def by (elim conjE exE) (rule that, assumption+)
  show ?thesis
    using assms(1)
  proof (cases rule: pool_step.cases)
    case (taken i x q)
    note b = busy_items_update(1)[OF taken(2)] busy_items_update(2)[OF taken(2), of "Busy x"]
    have "Stopped \<notin> set (pl_workers s)" if "pl_firstErr s = None" using inv(5) that taken(4) by auto
    then have "Stopped \<notin> set ((pl_workers s)[i := Busy x])" if "pl_firstErr s = None" using that set_update_Stopped by blast
    then show ?thesis
      unfolding pool_inv_def taken(1) using inv taken b by (intro conjI exI[of _ lost]) auto
  next
    case (drained i)
    note b = busy_items_update(1)[OF drained(2)]
    show ?thesis
      unfolding pool_inv_def drained(1) using inv drained b by (intro conjI exI[of _ lost]) auto
  next
    case (failed i x e)
    note b = busy_items_update(1)[OF failed(2)]
    show ?thesis
      unfolding pool_inv_def failed(1) using inv failed b
      by (intro conjI exI[of _ "add_mset x lost"]) (auto simp: keep_first_def split: option.splits)
  next
    case (unwritten i x data e fs)
    note b = busy_items_update(1)[OF unwritten(2)]
    show ?thesis
      unfolding pool_inv_def unwritten(1) using inv unwritten b
      by (intro conjI exI[of _ "add_mset x lost"]) (auto simp: keep_first_def split: option.splits)
  next
    case (written i x data fs)
    note b = busy_items_update(1)[OF written(2)] busy_items_update(2)[OF written(2), of Idle]
    have "pl_queue s = []" if "Stopped \<in> set ((pl_workers s)[i := Idle])" "pl_firstErr s = None"
      using set_update_Stopped[OF that(1)] inv(5) that(2) by simp
    then show ?thesis
      unfolding pool_inv_def written(1) using inv written b by (intro conjI exI[of _ lost]) auto
  qed
qed

lemma pool_inv_reachable:
  assumes "(pool_step generate umask)\<^sup>*\<^sup>* (pool_start items n fs) s"
  shows "pool_inv items n s"
  using assms by (induction rule: rtranclp_induct) (auto intro: pool_inv_start pool_inv_step)

text \<open>Every step takes the pool closer to its end.\<close>

definition worker_weight :: "worker \<Rightarrow> nat" where
  "worker_weight w = (case w of Idle \<Rightarrow> 1 | Busy _ \<Rightarrow> 2 | Stopped \<Rightarrow> 0)"

definition pool_measure :: "pool \<Rightarrow> nat" where
  "pool_measure s = 2 * length (pl_queue s) + sum_list (map worker_weight (pl_workers s))"

lemma weight_update:
  assumes "i < length ws"
  shows "sum_list (map worker_weight (ws[i := w])) + worker_weight (ws ! i) = sum_list (map worker_weight ws) + worker_weight w"
proof -
  have "worker_weight (ws ! i) \<le> sum_list (map worker_weight ws)" using assms by (intro member_le_sum_list) simp_all
  then show ?thesis using assms sum_list_update[of i "map worker_weight ws" "worker_weight w"] by (simp add: map_update)
qed

lemma pool_step_measure: "pool_step generate umask s s' \<Longrightarrow> pool_measure s' < pool_measure s"
proof (induction rule: pool_step.induct)
  case (taken i s x q)
  then show ?case using weight_update[OF taken(1), of "Busy x"] by (simp add: pool_measure_def worker_weight_def)
next
  case (drained i s)
  then show ?case using weight_update[OF drained(1), of Stopped] by (simp add: pool_measure_def worker_weight_def)
next
  case (failed i s x e)
  then show ?case using weight_update[OF failed(1), of Stopped] by (simp add: pool_measure_def worker_weight_def)
next
  case (unwritten i s x data e fs)
  then show ?case using weight_update[OF unwritten(1), of Stopped] by (simp add: pool_measure_def worker_weight_def)
next
  case (written i s x data fs)
  then show ?case using weight_update[OF written(1), of Idle] by (simp add: pool_measure_def worker_weight_def)
qed

text \<open>A pool in which no step is possible has stopped.\<close>

lemma pool_stuck:
  assumes "\<nexists>s'. pool_step generate umask s s'"
  shows "\<forall>w \<in> set (pl_workers s). w = Stopped"
proof
  fix w assume "w \<in> set (pl_workers s)"
  then obtain i where i: "i < length (pl_workers s)" "pl_workers s ! i = w" by (auto simp: in_set_conv_nth)
  show "w = Stopped"
  proof (cases w)
    case Idle
    then show ?thesis using assms i pool_step.taken[of i s] pool_step.drained[of i s] by (cases "pl_queue s") metis+
  next
    case (Busy x)
    obtain err fs' where wr: "os_WriteFile umask (sbom_path x) data 420 (pl_fs s) = (err data, fs' data)" for data
      using that[of "\<lambda>data. fst (os_WriteFile umask (sbom_path x) data 420 (pl_fs s))" "\<lambda>data. snd (os_WriteFile umask (sbom_path x) data 420 (pl_fs s))"] by simp
    show ?thesis
    proof (cases "generate (sw_tarFile x)")
      case (Inl e)
      then show ?thesis using assms i Busy pool_step.failed by metis
    next
      case (Inr data)
      then show ?thesis
        using assms i Busy wr[of data] pool_step.written[of i s x generate data umask] pool_step.unwritten[of i s x generate data umask]
        by (cases "err data") metis+
    qed
  qed simp
qed


definition demo_item :: sbomWorkItem where
  "demo_item = work_item ''d'' (zero_Image\<lparr>img_Name := ''a''\<rparr>) ''1'' ''linux/amd64''"


text \<open>Every inventory in the log is in its file, or that of an item with the same file is.\<close>

lemma WriteFile_read:
  assumes "os_WriteFile umask p data perm fs = (None, fs')"
  shows "os_ReadFile fs' p = Inr data"
    and "path_key q \<noteq> path_key p \<Longrightarrow> os_ReadFile fs q = Inr d \<Longrightarrow> os_ReadFile fs' q = Inr d"
proof -
  have pe: "parent_error fs p = None" and nd: "\<not> is_dir (fs_node fs (path_key p))"
    using assms by (auto simp: os_WriteFile_def is_dir_iff split: option.splits fnode.splits)
  then have ne: "snd (path_key p) \<noteq> []" using fs_node_root by blast
  obtain m where fs': "fs' = mput (path_key p) (RegularFile data m) fs"
    using assms pe by (auto simp: os_WriteFile_def split: option.splits fnode.splits)
  have node: "fs_node fs' k = (if k = path_key p then Some (RegularFile data m) else fs_node fs k)" for k
    unfolding fs' by (rule fs_node_mput[OF ne])
  have parents_kept: "parent_error fs' r = None" if "parent_error fs r = None" for r
  proof -
    have r: "r \<noteq> []" "\<forall>k \<in> set (parents (path_key r)). is_dir (fs_node fs k)"
      using that by (auto simp: parent_error_def find_None_iff split: if_splits option.splits)
    then have "\<forall>k \<in> set (parents (path_key r)). is_dir (fs_node fs' k)" using nd unfolding node by auto
    then have "find (\<lambda>k. \<not> is_dir (fs_node fs' k)) (parents (path_key r)) = None" by (simp add: find_None_iff)
    then show ?thesis using r(1) by (simp add: parent_error_def)
  qed
  show "os_ReadFile fs' p = Inr data" using parents_kept[OF pe] by (simp add: os_ReadFile_def os_Stat_def node)
  assume q: "path_key q \<noteq> path_key p" "os_ReadFile fs q = Inr d"
  then have "parent_error fs q = None" by (auto simp: os_ReadFile_def os_Stat_def split: option.splits)
  then show "os_ReadFile fs' q = Inr d" using parents_kept q by (simp add: os_ReadFile_def os_Stat_def node)
qed

lemma logged_inventories:
  assumes "(pool_step generate umask)\<^sup>*\<^sup>* (pool_start items n fs) s" and "x \<in> set (pl_log s)"
  shows "\<exists>y \<in> set (pl_log s). path_key (sbom_path y) = path_key (sbom_path x)
    \<and> (\<exists>data. generate (sw_tarFile y) = Inr data \<and> os_ReadFile (pl_fs s) (sbom_path y) = Inr data)"
  using assms
proof (induction arbitrary: x rule: rtranclp_induct)
  case base
  then show ?case by (simp add: pool_start_def)
next
  case (step s s')
  from step(2) show ?case
  proof (cases rule: pool_step.cases)
    case (unwritten i z data e fs)
    have "os_ReadFile fs p = os_ReadFile (pl_fs s) p" for p
      using unwritten(5) by (auto simp: os_WriteFile_def split: option.splits fnode.splits)
    then show ?thesis using step unwritten by simp
  next
    case (written i z data fs)
    note w = WriteFile_read[OF written(5)]
    show ?thesis
    proof (cases "path_key (sbom_path x) = path_key (sbom_path z)")
      case True
      then show ?thesis using w(1) written by (intro bexI[of _ z]) auto
    next
      case False
      then have "x \<in> set (pl_log s)" using step(4) written(1) by auto
      from step(3)[OF this] obtain y where y: "y \<in> set (pl_log s)" "path_key (sbom_path y) = path_key (sbom_path x)"
          "\<exists>data. generate (sw_tarFile y) = Inr data \<and> os_ReadFile (pl_fs s) (sbom_path y) = Inr data" by blast
      then show ?thesis using w(2)[of "sbom_path y"] False written(1) by (intro bexI[of _ y]) auto
    qed
  qed (use step in simp_all)
qed

end
