(* ===== verification/Reports.thy ===== *)
theory Reports
  imports Inventories Image_Aliases Rendering
begin

text \<open>
  The report of a project (\<open>pkg/report\<close>): its images with their tags, variants, aliases, readmes and the packages of their inventories, and the
  page it is injected into.  Files are those of \<open>Go_Files\<close>; the template engine, the secrets, the JSON codec with its matching of field names, the clock and the embedded page are
  parameters.
\<close>

section \<open>The model of a report (\<open>model.go\<close>)\<close>

record SBOMPackage =
  sp_Name :: string
  sp_Version :: string

record PlatformReport =
  pf_Platform :: string
  pf_SBOM :: "SBOMPackage list"

record TagReport =
  tg_Name :: string
  tg_ParentTags :: "string list"
  tg_BuildArgs :: "(string, string) gomap"
  tg_Versions :: "(string, string) gomap"
  tg_Platforms :: "PlatformReport list"

record LatestAliasReport =
  lr_Name :: string
  lr_Target :: string

record VariantReport =
  vr_Name :: string
  vr_Readme :: string
  vr_Icon :: string
  vr_TagSuffix :: string
  vr_Platforms :: "string list"
  vr_Tags :: "TagReport list"
  vr_LatestAlias :: "LatestAliasReport option"

record ImageReport =
  ir_Name :: string
  ir_Description :: string
  ir_Readme :: string
  ir_Icon :: string
  ir_Platforms :: "string list"
  ir_Tags :: "TagReport list"
  ir_Variants :: "VariantReport list"
  ir_SBOM :: "SBOMPackage list"
  ir_LatestAlias :: "LatestAliasReport option"

record ProjectReport =
  pj_GeneratedAt :: string
  pj_Registry :: "string option"
  pj_Images :: "ImageReport list"
  pj_StyleSheet :: string

section \<open>Packages of an inventory (\<open>parseSBOMFile\<close>)\<close>

text \<open>
  Decoding into the struct: \<open>matches\<close> tells whether a key of the document stands for a field.  A null leaves a string as it is and empties the list; any
  other type is an error.  A document with two keys for the list is outside the model: the decoder then reuses the structs of the first list.
\<close>

definition string_field :: "(string \<Rightarrow> string \<Rightarrow> bool) \<Rightarrow> string \<Rightarrow> (string, 'f json) gomap \<Rightarrow> string option" where
  "string_field matches name obj =
     fold (\<lambda>(k, v) acc. if matches name k then (case v of Null \<Rightarrow> acc | String s \<Rightarrow> map_option (\<lambda>_. s) acc | _ \<Rightarrow> None) else acc) obj (Some [])"

definition component_of :: "(string \<Rightarrow> string \<Rightarrow> bool) \<Rightarrow> 'f json \<Rightarrow> SBOMPackage option" where
  "component_of matches c =
     (case c of
        Null \<Rightarrow> Some \<lparr>sp_Name = [], sp_Version = []\<rparr>
      | Obj m \<Rightarrow> (case (string_field matches ''name'' m, string_field matches ''version'' m) of
            (Some n, Some v) \<Rightarrow> Some \<lparr>sp_Name = n, sp_Version = v\<rparr> | _ \<Rightarrow> None)
      | _ \<Rightarrow> None)"

fun components_of :: "(string \<Rightarrow> string \<Rightarrow> bool) \<Rightarrow> 'f json list \<Rightarrow> SBOMPackage list option" where
  "components_of matches [] = Some []"
| "components_of matches (c # cs) =
     (case (component_of matches c, components_of matches cs) of (Some p, Some ps) \<Rightarrow> Some (p # ps) | _ \<Rightarrow> None)"

definition unmarshal_sbom :: "(string \<Rightarrow> string \<Rightarrow> bool) \<Rightarrow> 'f json \<Rightarrow> SBOMPackage list option" where
  "unmarshal_sbom matches doc =
     (case doc of
        Null \<Rightarrow> Some []
      | Obj m \<Rightarrow> fold (\<lambda>(k, v) acc. if matches ''components'' k then
            (case v of Null \<Rightarrow> map_option (\<lambda>_. []) acc | Arr cs \<Rightarrow> (case acc of None \<Rightarrow> None | Some _ \<Rightarrow> components_of matches cs) | _ \<Rightarrow> None)
          else acc) m (Some [])
      | _ \<Rightarrow> None)"

definition listed :: "SBOMPackage \<Rightarrow> bool" where
  "listed p \<longleftrightarrow> \<not> sp_Name p = [] \<and> \<not> (sp_Version p = [] \<or> sp_Version p = ''-'' \<or> sp_Version p = ''UNKNOWN'')"

definition package_key :: "SBOMPackage \<Rightarrow> string \<times> string" where
  "package_key p = (sp_Name p, sp_Version p)"

definition packages_of :: "SBOMPackage list \<Rightarrow> SBOMPackage list" where
  "packages_of comps = remdups_adj (sort_key package_key (filter listed comps))"

definition parse_sbom :: "(string \<Rightarrow> 'f json option) \<Rightarrow> (string \<Rightarrow> string \<Rightarrow> bool) \<Rightarrow> string \<Rightarrow> SBOMPackage list option" where
  "parse_sbom decode matches data =
     (case decode data of None \<Rightarrow> None | Some doc \<Rightarrow> map_option packages_of (unmarshal_sbom matches doc))"

record 'f report_env =
  re_fs :: filesys
  re_secrets :: secret_env
  re_process :: "TemplateContext \<Rightarrow> string \<Rightarrow> string \<Rightarrow> string option"
  re_decode_json :: "string \<Rightarrow> 'f json option"
  re_matches :: "string \<Rightarrow> string \<Rightarrow> bool"
  re_now :: string

definition parseSBOMFile :: "'f report_env \<Rightarrow> string \<Rightarrow> SBOMPackage list option" where
  "parseSBOMFile e path =
     (case os_ReadFile (re_fs e) path of Inl _ \<Rightarrow> None | Inr data \<Rightarrow> parse_sbom (re_decode_json e) (re_matches e) data)"

section \<open>Images (\<open>scanImage\<close>)\<close>

definition renderReadmeContent :: "'f report_env \<Rightarrow> string \<Rightarrow> string \<Rightarrow> Versions \<Rightarrow> BuildArgs \<Rightarrow> string" where
  "renderReadmeContent e readmePath imageName versions buildArgs =
     (if readmePath = [] then []
      else
        let tplCtx = \<lparr>tc_Versions = versions, tc_BuildArgs = buildArgs, tc_ImageName = imageName\<rparr> in
        case ReadAndRenderFile (read_file_of (re_fs e)) (re_process e tplCtx) readmePath of Inl _ \<Rightarrow> [] | Inr rendered \<Rightarrow> rendered)"

definition resolveLatestAliasReport :: "string list \<Rightarrow> string \<Rightarrow> LatestAliasReport option" where
  "resolveLatestAliasReport tags aliasName =
     (if aliasName = [] then None
      else case ResolveLatestAlias tags aliasName of Inl _ \<Rightarrow> None | Inr target \<Rightarrow> Some \<lparr>lr_Name = aliasName, lr_Target = target\<rparr>)"

definition collectVariantTagNames :: "(string, Tag) gomap \<Rightarrow> string \<Rightarrow> string list" where
  "collectVariantTagNames tags tagSuffix = map (\<lambda>tag. tag @ tagSuffix) (mkeys tags)"

definition parentTagsOf :: "string \<Rightarrow> (string, string) gomap \<Rightarrow> string set \<Rightarrow> string list" where
  "parentTagsOf tagName aliases concreteTags =
     (case NewSemanticVersion tagName of
        Inl _ \<Rightarrow> []
      | Inr parsed \<Rightarrow>
          filter (\<lambda>candidate. candidate \<notin> concreteTags \<and> mget aliases candidate = Some tagName) (GetLowerVariants parsed))"

definition platform_reports :: "'f report_env \<Rightarrow> string \<Rightarrow> string \<Rightarrow> string \<Rightarrow> string list \<Rightarrow> PlatformReport list" where
  "platform_reports e distPath imageName tagName platforms =
     map (\<lambda>plat.
       let sbomPath = go_path_join [distPath, imageName, tagName, Sanitize plat, ''cyclonedx.json''] in
       \<lparr>pf_Platform = plat, pf_SBOM = (case parseSBOMFile e sbomPath of Some sbom \<Rightarrow> sbom | None \<Rightarrow> [])\<rparr>) platforms"

text \<open>The values resolved for a tag are nil when resolving its secrets fails; reading them then panics.\<close>

datatype report_panic = NilDereference

definition deref :: "'e + 'a \<Rightarrow> report_panic + 'a" where
  "deref r = (case r of Inl _ \<Rightarrow> Inl NilDereference | Inr v \<Rightarrow> Inr v)"

definition tag_report :: "'f report_env \<Rightarrow> string \<Rightarrow> string \<Rightarrow> Image \<Rightarrow> (string, string) gomap \<Rightarrow> string set \<Rightarrow> Tag \<Rightarrow> report_panic + TagReport" where
  "tag_report e distPath imageName img aliases baseTagSet tagDef =
     (let platforms = platform_reports e distPath imageName (tag_Name tagDef) (img_Platforms img) in
      res_bind (deref (ForTag (re_secrets e) img tagDef)) (\<lambda>resolvedTagArgs.
        Inr \<lparr>tg_Name = tag_Name tagDef, tg_ParentTags = parentTagsOf (tag_Name tagDef) aliases baseTagSet,
          tg_BuildArgs = rb_BuildArgs resolvedTagArgs, tg_Versions = rb_Versions resolvedTagArgs, tg_Platforms = platforms\<rparr>))"

definition variant_tag_report ::
  "'f report_env \<Rightarrow> string \<Rightarrow> string \<Rightarrow> Image \<Rightarrow> ImageVariant \<Rightarrow> (string, string) gomap \<Rightarrow> string set \<Rightarrow> Tag \<Rightarrow> report_panic + TagReport" where
  "variant_tag_report e distPath imageName img variantDef aliases variantTagSet baseTag =
     (let variantPlatforms = (if length (var_Platforms variantDef) = 0 then img_Platforms img else var_Platforms variantDef);
          name = tag_Name baseTag @ var_TagSuffix variantDef;
          platforms = platform_reports e distPath imageName name variantPlatforms in
      res_bind (deref (ForTagVariant (re_secrets e) img variantDef baseTag)) (\<lambda>resolved.
        Inr \<lparr>tg_Name = name, tg_ParentTags = parentTagsOf name aliases variantTagSet,
          tg_BuildArgs = rb_BuildArgs resolved, tg_Versions = rb_Versions resolved, tg_Platforms = platforms\<rparr>))"

definition variant_report ::
  "'f report_env \<Rightarrow> string \<Rightarrow> string \<Rightarrow> Image \<Rightarrow> (string, string) gomap \<Rightarrow> ImageVariant \<Rightarrow> report_panic + VariantReport" where
  "variant_report e distPath imageName img aliases variantDef =
     (let variantTagSet = set (collectVariantTagNames (img_Tags img) (var_TagSuffix variantDef)) in
      res_bind (res_map (\<lambda>(_, baseTag). variant_tag_report e distPath imageName img variantDef aliases variantTagSet baseTag) (img_Tags img)) (\<lambda>tags.
        Inr \<lparr>vr_Name = var_Name variantDef,
          vr_Readme = renderReadmeContent e (var_ReadmePath variantDef) imageName (var_Versions variantDef) (var_BuildArgs variantDef),
          vr_Icon = var_ReportIcon variantDef, vr_TagSuffix = var_TagSuffix variantDef, vr_Platforms = var_Platforms variantDef, vr_Tags = tags,
          vr_LatestAlias = (case img_LatestAlias img of
             None \<Rightarrow> None
           | Some cfg \<Rightarrow> resolveLatestAliasReport (collectVariantTagNames (img_Tags img) (var_TagSuffix variantDef)) (la_Tag cfg @ var_TagSuffix variantDef))\<rparr>))"

definition scanImage :: "'f report_env \<Rightarrow> string \<Rightarrow> string \<Rightarrow> Image \<Rightarrow> report_panic + ImageReport" where
  "scanImage e projectRoot imageName img =
     (let distPath = go_path_join [projectRoot, DistDirName];
          aliases = ResolveImageAliases img;
          baseTagSet = set (mkeys (img_Tags img)) in
      res_bind (res_map (\<lambda>(_, tagDef). tag_report e distPath imageName img aliases baseTagSet tagDef) (img_Tags img)) (\<lambda>tagReports.
      res_bind (res_map (\<lambda>(_, variantDef). variant_report e distPath imageName img aliases variantDef) (img_Variants img)) (\<lambda>variantReports.
        Inr \<lparr>ir_Name = imageName, ir_Description = img_Description img,
          ir_Readme = renderReadmeContent e (img_ReadmePath img) imageName (img_Versions img) (img_BuildArgs img), ir_Icon = img_ReportIcon img,
          ir_Platforms = img_Platforms img, ir_Tags = tagReports, ir_Variants = variantReports, ir_SBOM = [],
          ir_LatestAlias = (case img_LatestAlias img of None \<Rightarrow> None | Some cfg \<Rightarrow> resolveLatestAliasReport (mkeys (img_Tags img)) (la_Tag cfg))\<rparr>)))"

section \<open>Projects (\<open>scanProject\<close>, \<open>Generate\<close>)\<close>

definition merge_report :: "string \<Rightarrow> ImageReport \<Rightarrow> (string, ImageReport) gomap \<Rightarrow> (string, ImageReport) gomap" where
  "merge_report imageName imgReport merged =
     (case mget merged imageName of
        None \<Rightarrow> mput imageName imgReport merged
      | Some existing \<Rightarrow>
          let existing = existing\<lparr>ir_Tags := ir_Tags existing @ ir_Tags imgReport, ir_Variants := ir_Variants existing @ ir_Variants imgReport\<rparr>;
              existing = (if ir_LatestAlias existing = None then existing\<lparr>ir_LatestAlias := ir_LatestAlias imgReport\<rparr> else existing) in
          mput imageName existing merged)"

definition scanProject :: "'f report_env \<Rightarrow> ContainerHiveProject \<Rightarrow> report_panic + ImageReport list" where
  "scanProject e project =
     res_bind (res_fold (\<lambda>merged (imageName, img). res_bind (scanImage e (pr_RootDir project) imageName img) (\<lambda>r. Inr (merge_report imageName r merged)))
        [] (concat (map (\<lambda>(imageName, modelImages). map (\<lambda>img. (imageName, img)) modelImages) (pr_ImagesByName project))))
      (\<lambda>merged. Inr (sort_key ir_Name (map snd merged)))"

definition Generate_report :: "'f report_env \<Rightarrow> ContainerHiveProject \<Rightarrow> report_panic + ProjectReport" where
  "Generate_report e project =
     res_bind (scanProject e project) (\<lambda>images.
       Inr \<lparr>pj_GeneratedAt = re_now e,
         pj_Registry = (case hc_Registry (pr_Config project) of
            Some cfg \<Rightarrow> if rg_Address cfg \<noteq> [] then Some (rg_Address cfg) else None | None \<Rightarrow> None),
         pj_Images = images, pj_StyleSheet = hc_StyleSheet (pr_Config project)\<rparr>)"

section \<open>The page (\<open>GenerateHTMLFromAssets\<close>)\<close>

definition ReadStyleSheet :: "filesys \<Rightarrow> ProjectReport \<Rightarrow> os_error + string" where
  "ReadStyleSheet fs report = (if pj_StyleSheet report = [] then Inr [] else os_ReadFile fs (pj_StyleSheet report))"

definition replaceFirstPlaceholder :: "string \<Rightarrow> string \<Rightarrow> string \<Rightarrow> string" where
  "replaceFirstPlaceholder html placeholder data =
     (case go_index html placeholder of
        Some i \<Rightarrow> take i html @ data @ drop (i + length placeholder) html
      | None \<Rightarrow> html)"

definition json_mark :: string where "json_mark = ''/*INJECT_JSON_DATA*/''"
definition time_mark :: string where "time_mark = ''/*INJECT_GENERATED_AT*/''"
definition style_mark :: string where "style_mark = ''/*INJECT_STYLE*/''"

definition GenerateHTMLFromAssets :: "(ProjectReport \<Rightarrow> string option) \<Rightarrow> string \<Rightarrow> filesys \<Rightarrow> ProjectReport \<Rightarrow> os_error option + string" where
  "GenerateHTMLFromAssets marshal embeddedHTML fs report =
     (case marshal report of
        None \<Rightarrow> Inl None
      | Some reportJSON \<Rightarrow>
          (case ReadStyleSheet fs report of
             Inl err \<Rightarrow> Inl (Some err)
           | Inr stylesheet \<Rightarrow>
               let html = replaceFirstPlaceholder embeddedHTML json_mark reportJSON;
                   html = go_replace_all time_mark (pj_GeneratedAt report) html in
               Inr (go_replace_all style_mark stylesheet html)))"

section \<open>The packages of a report\<close>

text \<open>What the matching of field names must not confuse.\<close>

definition field_laws :: "(string \<Rightarrow> string \<Rightarrow> bool) \<Rightarrow> bool" where
  "field_laws matches \<longleftrightarrow> \<not> matches ''name'' ''properties'' \<and> \<not> matches ''version'' ''properties'' \<and> \<not> matches ''components'' ''metadata''"

lemma string_field_without: "\<not> matches name k \<Longrightarrow> string_field matches name (without k m) = string_field matches name m"
proof -
  assume no: "\<not> matches name k"
  let ?f = "\<lambda>(j, v) acc. if matches name j then (case v of Null \<Rightarrow> acc | String s \<Rightarrow> map_option (\<lambda>_. s) acc | _ \<Rightarrow> None) else acc"
  have "fold ?f (without k m) acc = fold ?f m acc" for acc
    by (induction m arbitrary: acc) (auto simp: without_def no)
  then show ?thesis unfolding string_field_def .
qed

lemma component_of_stripped: "field_laws matches \<Longrightarrow> component_of matches (strip_component c) = component_of matches c"
  by (cases c) (simp_all add: component_of_def strip_component_def string_field_without field_laws_def)

lemma components_of_stripped: "field_laws matches \<Longrightarrow> components_of matches (map strip_component cs) = components_of matches cs"
  by (induction cs) (simp_all add: component_of_stripped)

lemma unmarshal_stripped:
  assumes "field_laws matches"
  shows "unmarshal_sbom matches (Obj (strip_document doc)) = unmarshal_sbom matches (Obj doc)"
proof -
  let ?f = "\<lambda>(k, v) acc. if matches ''components'' k then
            (case v of Null \<Rightarrow> map_option (\<lambda>_. []) acc | Arr cs \<Rightarrow> (case acc of None \<Rightarrow> None | Some _ \<Rightarrow> components_of matches cs) | _ \<Rightarrow> None)
          else acc"
  let ?g = "\<lambda>components. case components of Arr cs \<Rightarrow> Arr (map strip_component cs) | _ \<Rightarrow> components"
  have comps: "fold ?f (replace_at ''components'' ?g m) acc = fold ?f m acc" for m acc
  proof (induction m arbitrary: acc)
    case (Cons e m)
    obtain k v where e: "e = (k, v)" by (cases e)
    have "?f (k, if k = ''components'' then ?g v else v) acc = ?f (k, v) acc"
      by (cases v; cases acc) (simp_all add: components_of_stripped[OF assms])
    then show ?case using Cons by (auto simp: replace_at_def e)
  qed (simp add: replace_at_def)
  have meta: "fold ?f (replace_at ''metadata'' h m) acc = fold ?f m acc" for h m acc
    using assms by (induction m arbitrary: acc) (auto simp: replace_at_def field_laws_def)
  show ?thesis unfolding unmarshal_sbom_def strip_document_def json.case meta comps ..
qed

lemma sorted_distinct_adj: "sorted xs \<Longrightarrow> distinct_adj xs \<Longrightarrow> distinct (xs :: 'a :: linorder list)"
proof (induction xs)
  case (Cons x xs)
  show ?case
  proof (cases xs)
    case (Cons y ys)
    then have "x < y" "\<forall>z \<in> set xs. y \<le> z" using Cons.prems by auto
    then have "x \<notin> set xs" by auto
    then show ?thesis using Cons.IH Cons.prems Cons by simp
  qed simp
qed simp

lemma packages_of_props:
  "sorted_wrt (\<lambda>p q. package_key p < package_key q) (packages_of cs)" "set (packages_of cs) = {p \<in> set cs. listed p}"
proof -
  let ?s = "sort_key package_key (filter listed cs)"
  have inj: "inj package_key" by (intro injI) (auto simp: package_key_def intro: SBOMPackage.equality)
  have "sorted (map package_key ?s)" by simp
  then have "sorted (map package_key (remdups_adj ?s))" by (simp add: remdups_adj_map_injective[OF inj, symmetric] sorted_remdups_adj)
  moreover have "distinct (map package_key (remdups_adj ?s))"
    by (simp add: remdups_adj_map_injective[OF inj, symmetric] sorted_distinct_adj)
  ultimately have "sorted_wrt (<) (map package_key (remdups_adj ?s))" by (simp add: strict_sorted_iff)
  then show "sorted_wrt (\<lambda>p q. package_key p < package_key q) (packages_of cs)"
    by (simp add: packages_of_def sorted_wrt_map)
  show "set (packages_of cs) = {p \<in> set cs. listed p}" by (auto simp: packages_of_def)
qed


definition demo_sbom :: "(string, unit json) gomap" where
  "demo_sbom = [(''components'', Arr [Obj [(''name'', String ''zlib''), (''version'', String ''1''), (''properties'', Arr [])],
      Obj [(''name'', String ''bash''), (''version'', String ''5'')], Obj [(''name'', String ''zlib''), (''version'', String ''1'')],
      Obj [(''name'', String ''x''), (''version'', String ''UNKNOWN'')]])]"

definition demo_decode :: "string \<Rightarrow> unit json option" where
  "demo_decode s = (if s = ''raw'' then Some (Obj demo_sbom) else if s = ''out'' then Some (Obj (strip_document demo_sbom)) else None)"


section \<open>The aliases of a report are those of the registry\<close>

lemma set_parentTagsOf:
  assumes "aliases = ResolveImageAliases img"
  shows "set (parentTagsOf tagName aliases concrete) = {a. mget aliases a = Some tagName \<and> a \<notin> concrete}"
proof
  show "set (parentTagsOf tagName aliases concrete) \<subseteq> {a. mget aliases a = Some tagName \<and> a \<notin> concrete}"
    by (auto simp: parentTagsOf_def split: sum.splits)
  show "{a. mget aliases a = Some tagName \<and> a \<notin> concrete} \<subseteq> set (parentTagsOf tagName aliases concrete)"
  proof
    fix a assume a: "a \<in> {a. mget aliases a = Some tagName \<and> a \<notin> concrete}"
    then obtain v where "NewSemanticVersion tagName = Inr v" "a \<in> set (GetLowerVariants v)"
      using series_alias_claimed[of "AliasCandidatesFor img" a tagName] assms by (auto simp: ResolveImageAliases_def)
    then show "a \<in> set (parentTagsOf tagName aliases concrete)" using a by (simp add: parentTagsOf_def)
  qed
qed

lemma deref_Inr: "deref r = Inr v \<longleftrightarrow> r = Inr v"
  by (cases r) (simp_all add: deref_def)

lemma variant_report_aliases:
  assumes "variant_report e dist name img (ResolveImageAliases img) v = Inr vr"
  shows "list_all2 (\<lambda>(_, tagDef) t. tg_Name t = tag_Name tagDef @ var_TagSuffix v
      \<and> set (tg_ParentTags t) = {a. mget (ResolveImageAliases img) a = Some (tag_Name tagDef @ var_TagSuffix v)
          \<and> a \<notin> set (collectVariantTagNames (img_Tags img) (var_TagSuffix v))}) (img_Tags img) (vr_Tags vr)"
proof -
  obtain tags where t: "res_map (\<lambda>(_, baseTag). variant_tag_report e dist name img v (ResolveImageAliases img)
      (set (collectVariantTagNames (img_Tags img) (var_TagSuffix v))) baseTag) (img_Tags img) = Inr tags"
      and vr: "vr_Tags vr = tags" using assms by (auto simp: variant_report_def Let_def res_bind_Inr_iff)
  show ?thesis
    unfolding vr using t unfolding res_map_Inr_iff
    by (rule list_all2_mono) (auto simp: variant_tag_report_def Let_def res_bind_Inr_iff set_parentTagsOf[OF refl])
qed


definition demo_report_image :: Image where
  "demo_report_image = zero_Image\<lparr>img_Name := ''app'',
     img_Tags := [(''1.2.3'', zero_Tag\<lparr>tag_Name := ''1.2.3''\<rparr>), (''1.10'', zero_Tag\<lparr>tag_Name := ''1.10''\<rparr>)]\<rparr>"

definition demo_report_env :: "unit report_env" where
  "demo_report_env = \<lparr>re_fs = [], re_secrets = \<lparr>lookup_env = \<lambda>_. None, vault_get = \<lambda>_ _. Inl []\<rparr>, re_process = \<lambda>_ _ _. None,
     re_decode_json = \<lambda>_. None, re_matches = (=), re_now = ''now''\<rparr>"

lemma demo_report: "map_sum id (\<lambda>r. map tg_ParentTags (ir_Tags r)) (scanImage demo_report_env ''p'' ''app'' demo_report_image) = Inr [[''1.2''], [''1'']]"
  by code_simp


section \<open>What a report misses\<close>

text \<open>
  Building and \<open>ch sbom\<close> normalise the name of a platform, the report does not: where a platform is configured by its short name, the report looks for the inventory at a
  path where none is written.
\<close>

definition report_sbom_path :: "string \<Rightarrow> string \<Rightarrow> string \<Rightarrow> string \<Rightarrow> string" where
  "report_sbom_path distPath imageName tagName plat = go_path_join [distPath, imageName, tagName, Sanitize plat, ''cyclonedx.json'']"

lemma length_Sanitize: "length (Sanitize p) = length p"
  by (induction p) (simp_all add: Sanitize_def go_replace_byte_def)

lemma report_path_agrees:
  assumes "list_all plain_name [img_Name img, tagName, Sanitize plat, Sanitize (Normalize plat)]"
  shows "path_key (report_sbom_path dist (img_Name img) tagName plat) = path_key (sbom_path (work_item dist img tagName (Normalize plat)))
    \<longleftrightarrow> CHR ''/'' \<in> set plat"
proof -
  have "plain_name ''cyclonedx.json''" by (simp add: plain_name_def slash_def)
  then have written: "sbom_path (work_item dist img tagName (Normalize plat)) = report_sbom_path dist (img_Name img) tagName (Normalize plat)"
    using assms join_join[of "[img_Name img, tagName, Sanitize (Normalize plat)]" "[''cyclonedx.json'']" dist]
    by (simp add: sbom_path_def work_item_def Let_def report_sbom_path_def)
  have key: "path_key (report_sbom_path dist (img_Name img) tagName p) = (is_abs dist, clean_elems dist @ [img_Name img, tagName, Sanitize p, ''cyclonedx.json''])"
    if "plain_name (Sanitize p)" for p
    using assms that \<open>plain_name ''cyclonedx.json''\<close> by (simp add: report_sbom_path_def path_key_join)
  have "Sanitize plat = Sanitize (Normalize plat) \<longleftrightarrow> CHR ''/'' \<in> set plat"
    using length_Sanitize[of plat] length_Sanitize[of "''linux/'' @ plat"] by (auto simp: Normalize_def contains_slash dest: arg_cong[of _ _ length])
  then show ?thesis using assms by (simp add: written key)
qed

text \<open>A secret that does not resolve where the report is made ends it with a panic, since the error of the resolution is dropped and its nil result read.\<close>

lemma unresolved_secret_panics:
  assumes "ForTag (re_secrets e) img tagDef = Inl err" and "img_Tags img = (k, tagDef) # rest"
  shows "scanImage e root name img = Inl NilDereference"
  using assms by (simp add: scanImage_def Let_def tag_report_def deref_def)

text \<open>
  The time and the style are put in after the data: a readme that names the marker of the style has the sheet put into it, inside the JSON string.
\<close>

definition json_readme :: "string \<Rightarrow> string" where
  "json_readme readme = [CHR 0x7B, CHR 0x22] @ ''readme'' @ [CHR 0x22, CHR '':'', CHR 0x22] @ readme @ [CHR 0x22, CHR 0x7D]"

lemma marker_in_data_replaced:
  "GenerateHTMLFromAssets (\<lambda>_. Some (json_readme style_mark)) (''<script>'' @ json_mark @ ''</script>'')
     [] \<lparr>pj_GeneratedAt = ''now'', pj_Registry = None, pj_Images = [], pj_StyleSheet = []\<rparr>
   = Inr (''<script>'' @ json_readme [] @ ''</script>'')"
  by code_simp

end
