(* ===== verification/Commands.thy ===== *)
theory Commands
  imports Selected_Builds Reports Publish
begin

text \<open>
  The actions of the commands, \<open>pkg/cli\<close>, on a discovered project: \<open>ch changes\<close>, \<open>ch build\<close>, \<open>ch test\<close>, \<open>ch finalize\<close>, \<open>ch report\<close> and \<open>ch graph\<close>,
  composed of the components as the code composes them.  Parsing of the command line, discovery and the optional rendering come before; logging is left out.
  The connection to BuildKit, the embedded registry, the codecs and what the components leave open are parameters.
\<close>

section \<open>Changes (\<open>pkg/cli/changes.go\<close>)\<close>

datatype command_error =
    UnknownChangesFormat string | BadUnmatched change_error | BaseOrFiles | ChangedFilesOpen os_error | ChangedFilesRead | DetectFailed change_error
  | ChangesFile changes_file_error | OutputRefused | NoPlatformsConfigured | UnknownPlatforms "string list" | DistNotFound os_error
  | OrderFailed order_error | ConnectFailed string | CacheTypeUnknown string | RegistryNotCreated | RegistryNotStarted | BuildStopped run_stop
  | TestsStopped test_error | TestsFailed nat | ManifestsFailed publish_error | RetagFailed publish_error | ShardInvalid shard_error
  | ReportPanicked report_panic | ReportNotMade "os_error option" | ReportNotWritten os_error | UnknownGraphFormat string

definition validateChangesFormat :: "string \<Rightarrow> command_error option" where
  "validateChangesFormat format = (if format = ''text'' \<or> format = ''json'' then None else Some (UnknownChangesFormat format))"

text \<open>A scanner of lines gives up at a line that does not fit into its buffer.\<close>

definition max_token :: int where "max_token = 64 * 1024"

definition scan_lines :: "string \<Rightarrow> command_error + string list" where
  "scan_lines data =
     (let lns = go_split newline data in
      if \<exists>l \<in> set lns. int (length l) \<ge> max_token then Inl ChangedFilesRead
      else Inr (filter (\<lambda>l. l \<noteq> []) (map go_trim_space lns)))"

definition readChangedFiles :: "filesys \<Rightarrow> string \<Rightarrow> string \<Rightarrow> command_error + string list" where
  "readChangedFiles fs stdin path =
     (if path = ''-'' then scan_lines stdin
      else case os_Stat fs path of
          Inl e \<Rightarrow> Inl (ChangedFilesOpen e)
        | Inr (Directory _) \<Rightarrow> Inl ChangedFilesRead
        | Inr (RegularFile data _) \<Rightarrow> scan_lines data)"

definition emit :: "(string \<Rightarrow> string \<Rightarrow> bool) \<Rightarrow> string \<Rightarrow> string \<Rightarrow> bool \<times> string" where
  "emit takes txt out = (if takes out txt then (True, out @ txt) else (False, out))"

fun print_lines :: "(string \<Rightarrow> string \<Rightarrow> bool) \<Rightarrow> string list \<Rightarrow> string \<Rightarrow> command_error option \<times> string" where
  "print_lines takes [] out = (None, out)"
| "print_lines takes (l # ls) out =
     (let (ok, out) = emit takes (l @ [newline]) out in if ok then print_lines takes ls out else (Some OutputRefused, out))"

definition writeChanges :: "change_codec \<Rightarrow> (string \<Rightarrow> string \<Rightarrow> bool) \<Rightarrow> ChangeSet \<Rightarrow> string \<Rightarrow> string \<Rightarrow> command_error option \<times> string" where
  "writeChanges codec takes cs format out =
     (case validateChangesFormat format of
        Some err \<Rightarrow> (Some err, out)
      | None \<Rightarrow>
          if format = ''json'' then
            (case cc_encode codec cs of
               None \<Rightarrow> (Some (ChangesFile EncodeFailed), out)
             | Some data \<Rightarrow> let (ok, out) = emit takes (data @ [newline]) out in (if ok then None else Some OutputRefused, out))
          else print_lines takes (cs_Affected cs) out)"

record changes_flags =
  cf_format :: string
  cf_unmatched :: string
  cf_base :: string
  cf_files_from :: string
  cf_strict :: bool
  cf_write :: bool

record changes_env =
  cv_codec :: change_codec
  cv_glob :: glob
  cv_os :: os
  cv_git :: git
  cv_stdin :: string
  cv_takes :: "string \<Rightarrow> string \<Rightarrow> bool"
  cv_umask :: "nat \<Rightarrow> nat"

text \<open>The checks of the flags, and the set they ask for; \<open>None\<close> only if detection does not end.\<close>

definition changes_checked :: "changes_flags \<Rightarrow> command_error option" where
  "changes_checked f =
     (case validateChangesFormat (cf_format f) of
        Some err \<Rightarrow> Some err
      | None \<Rightarrow>
          (case ParseUnmatched (cf_unmatched f) of
             Inl err \<Rightarrow> Some (BadUnmatched err)
           | Inr _ \<Rightarrow> if (cf_base f = []) = (cf_files_from f = []) then Some BaseOrFiles else None))"

definition detect_set :: "changes_env \<Rightarrow> changes_flags \<Rightarrow> ContainerHiveProject \<Rightarrow> filesys \<Rightarrow> (command_error + ChangeSet) option" where
  "detect_set e f project fs =
     (let opts = \<lparr>co_Unmatched = cf_unmatched f, co_Strict = cf_strict f\<rparr> in
      if cf_files_from f \<noteq> [] then
        (case readChangedFiles fs (cv_stdin e) (cf_files_from f) of
           Inl err \<Rightarrow> Some (Inl err)
         | Inr files \<Rightarrow> map_option (map_sum DetectFailed id) (Detect (cv_glob e) (cv_os e) project files opts))
      else map_option (map_sum DetectFailed id) (DetectFromGit (cv_glob e) (cv_os e) (cv_git e) project (cf_base f) opts))"

definition changesCmd ::
  "changes_env \<Rightarrow> changes_flags \<Rightarrow> ContainerHiveProject \<Rightarrow> string \<Rightarrow> filesys \<times> string \<Rightarrow> (command_error option \<times> filesys \<times> string) option" where
  "changesCmd e f project distPath w =
     (case changes_checked f of
        Some err \<Rightarrow> Some (Some err, w)
      | None \<Rightarrow>
          map_option (\<lambda>r. case r of
              Inl err \<Rightarrow> (Some err, w)
            | Inr cs \<Rightarrow>
                let (fs, out) = w;
                    (err, fs) = (if cf_write f then Write_changes (cv_codec e) (cv_umask e) distPath cs fs else (None, fs)) in
                (case err of
                   Some e' \<Rightarrow> (Some (ChangesFile e'), (fs, out))
                 | None \<Rightarrow> let (err, out) = writeChanges (cv_codec e) (cv_takes e) cs (cf_format f) out in (err, (fs, out))))
            (detect_set e f project (fst w)))"

section \<open>Builds (\<open>pkg/cli/app.go\<close>, \<open>pkg/cli/build.go\<close>)\<close>

text \<open>The files of the other components, read from a file system.\<close>

definition files_of :: "filesys \<Rightarrow> files" where
  "files_of fs = \<lparr>read_file = read_file_of fs, stat_ok = (\<lambda>p. case os_Stat fs p of Inl _ \<Rightarrow> False | Inr _ \<Rightarrow> True),
     read_dir = (\<lambda>p. case os_ReadDir fs p of Inl _ \<Rightarrow> None | Inr entries \<Rightarrow> Some entries)\<rparr>"

text \<open>\<open>cd_connect\<close> is the dialling of an endpoint, \<open>cd_zot\<close> the start of the embedded registry on a directory, with its address.\<close>

record ('n, 's, 'i) command_env =
  cd_codec :: change_codec
  cd_getenv :: "string \<Rightarrow> string"
  cd_connect :: "string \<Rightarrow> string option"
  cd_zot :: "string \<Rightarrow> string option"
  cd_build :: "('n, 's) build_env"
  cd_tests :: test_env
  cd_gcr :: "'i gcr_env"

definition connect_client :: "('n, 's, 'i) command_env \<Rightarrow> string \<Rightarrow> command_error option" where
  "connect_client e endpoint =
     (case client_endpoint (cd_getenv e) endpoint of
        None \<Rightarrow> Some (ConnectFailed ''no BuildKit endpoint provided and BUILDKIT_HOST not set'')
      | Some endpoint \<Rightarrow> map_option ConnectFailed (cd_connect e endpoint))"

definition setupRegistry :: "('n, 's, 'i) command_env \<Rightarrow> string \<Rightarrow> RegistryConfig option \<Rightarrow> command_error + Build_Run.Registry" where
  "setupRegistry e distPath config =
     (case NewRegistryFor (cd_getenv e) (go_path_join [distPath, ''.registry'']) config of
        None \<Rightarrow> Inl RegistryNotCreated
      | Some (Remote address override) \<Rightarrow> Inr (remote_registry address override)
      | Some (Zot dataDir) \<Rightarrow>
          (case cd_zot e dataDir of
             None \<Rightarrow> Inl RegistryNotStarted
           | Some address \<Rightarrow> Inr \<lparr>reg_Address = address, reg_IsLocal = True, reg_UseDockerMediaTypes = False\<rparr>))"

record build_request =
  br_filters :: "Filter list"
  br_buildID :: string
  br_platforms :: "string list"
  br_registry :: bool
  br_shard :: Shard

text \<open>Everything in front of the build; nothing is left to do when no image is affected.\<close>

definition build_opts ::
  "('n, 's, 'i) command_env \<Rightarrow> filesys \<Rightarrow> ContainerHiveProject \<Rightarrow> string \<Rightarrow> build_request \<Rightarrow> command_error + ProjectBuildOpts option" where
  "build_opts e fs project distPath r =
     (let config = pr_Config project in
      if br_platforms r = [] \<and> hc_Platforms config = [] then Inl NoPlatformsConfigured
      else if validatePlatforms project (br_platforms r) \<noteq> [] then Inl (UnknownPlatforms (validatePlatforms project (br_platforms r)))
      else case os_Stat fs distPath of Inl err \<Rightarrow> Inl (DistNotFound err) | Inr _ \<Rightarrow>
     (case limitToChanges (cd_codec e) fs distPath (br_filters r) of Inl err \<Rightarrow> Inl (ChangesFile err) | Inr (filters, changeSet, skip) \<Rightarrow>
      if skip then Inr None
      else case ResolveOrder (files_of fs) distPath project of Inl err \<Rightarrow> Inl (OrderFailed err) | Inr buildOrder \<Rightarrow>
     (let address = (case hc_BuildKitAddress config of Some a \<Rightarrow> a | None \<Rightarrow> []) in
      case connect_client e address of Some err \<Rightarrow> Inl err | None \<Rightarrow>
     (case BuildCacheFromConfig (hc_Cache config) ''ch-build'' of Inl err \<Rightarrow> Inl (CacheTypeUnknown err) | Inr cache \<Rightarrow>
     (let useRegistry = (cd_getenv e ''CI'' \<noteq> [] \<or> br_registry r);
          opts = \<lparr>po_Project = project, po_BuildOrder = buildOrder, po_DistPath = distPath, po_Cache = cache, po_Registry = None,
            po_Filters = filters, po_BuildID = br_buildID r, po_Changes = changeSet, po_Shard = br_shard r, po_CLIPlatforms = br_platforms r,
            po_baseOwns = None, po_variantOwns = None\<rparr> in
      if useRegistry then
        (case setupRegistry e distPath (hc_Registry config) of Inl err \<Rightarrow> Inl err | Inr reg \<Rightarrow> Inr (Some (opts\<lparr>po_Registry := Some reg\<rparr>)))
      else Inr (Some opts))))))"

definition start_state :: "filesys \<Rightarrow> run_state" where
  "start_state fs = \<lparr>rs_disk = read_file_of fs, rs_log = [], rs_matched = 0, rs_skipped = 0\<rparr>"

definition buildProject ::
  "('n, 's, 'i) command_env \<Rightarrow> filesys \<Rightarrow> ContainerHiveProject \<Rightarrow> string \<Rightarrow> build_request \<Rightarrow> command_error + run_state" where
  "buildProject e fs project distPath r =
     (case build_opts e fs project distPath r of
        Inl err \<Rightarrow> Inl err
      | Inr None \<Rightarrow> Inr (start_state fs)
      | Inr (Some opts) \<Rightarrow>
          (case BuildProject (cd_build e) opts (start_state fs) of Inl stop \<Rightarrow> Inl (BuildStopped stop) | Inr (st, _) \<Rightarrow> Inr st))"

definition buildCmd ::
  "('n, 's, 'i) command_env \<Rightarrow> filesys \<Rightarrow> ContainerHiveProject \<Rightarrow> string \<Rightarrow> string list \<Rightarrow> int \<Rightarrow> int \<Rightarrow> string \<Rightarrow> string list \<Rightarrow> bool
   \<Rightarrow> command_error + run_state" where
  "buildCmd e fs project distPath args current maxShards buildID platforms useRegistry =
     (case resolveShard current maxShards of
        Inl err \<Rightarrow> Inl (ShardInvalid err)
      | Inr s \<Rightarrow> buildProject e fs project distPath
          \<lparr>br_filters = ParseFilters args, br_buildID = buildID, br_platforms = platforms, br_registry = useRegistry, br_shard = s\<rparr>)"

section \<open>Finalizing, testing, reporting and the graph\<close>

definition finalizeCmd ::
  "('n, 's, 'i) command_env \<Rightarrow> filesys \<Rightarrow> ContainerHiveProject \<Rightarrow> string \<Rightarrow> string list \<Rightarrow> string \<Rightarrow> 'i remote \<Rightarrow> command_error + 'i remote" where
  "finalizeCmd e fs project distPath args buildID remote =
     (case os_Stat fs distPath of Inl err \<Rightarrow> Inl (DistNotFound err) | Inr _ \<Rightarrow>
     (case limitToChanges (cd_codec e) fs distPath (ParseFilters args) of Inl err \<Rightarrow> Inl (ChangesFile err) | Inr (filters, _, skip) \<Rightarrow>
      if skip then Inr remote
      else case setupRegistry e distPath (hc_Registry (pr_Config project)) of Inl err \<Rightarrow> Inl err | Inr reg \<Rightarrow>
     (let po = \<lparr>pub_Registry = reg, pub_Project = project, pub_Filters = filters, pub_BuildID = buildID, pub_DistPath = distPath\<rparr> in
      case CreateAllManifests (cd_gcr e) po remote of Inl err \<Rightarrow> Inl (ManifestsFailed err) | Inr remote \<Rightarrow>
     (case RetagAllAliases (cd_gcr e) po remote of Inl err \<Rightarrow> Inl (RetagFailed err) | Inr remote \<Rightarrow> Inr remote))))"

record test_request =
  tq_build :: bool
  tq_request :: build_request

text \<open>
  The tests after an optional build.  \<open>after_build\<close> stands for the files the build leaves, which its own model keeps on the disk of the run; in a pipeline the registry gives the
  references of images without a tar.
\<close>

definition test_opts :: "ContainerHiveProject \<Rightarrow> string \<Rightarrow> build_request \<Rightarrow> Filter list \<Rightarrow> TestOpts" where
  "test_opts project distPath r filters =
     \<lparr>to_DistPath = distPath, to_Project = project, to_Filters = filters, to_BuildID = br_buildID r, to_Shard = br_shard r, to_Platforms = br_platforms r\<rparr>"

definition run_tests ::
  "('n, 's, 'i) command_env \<Rightarrow> Build_Run.Registry option \<Rightarrow> TestOpts \<Rightarrow> test_state \<Rightarrow> command_error option \<times> test_state" where
  "run_tests e reg opts st =
     (let env = (cd_tests e)\<lparr>tv_ImageRef := map_option (\<lambda>r imageName tag platformStr buildID. registry_ImageRef r imageName tag platformStr buildID) reg\<rparr>;
          ((tested, failed, err), st) = RunProjectTests env opts st in
      (case err of
         Some x \<Rightarrow> (Some (TestsStopped x), st)
       | None \<Rightarrow> (if failed > 0 then Some (TestsFailed failed) else None, st)))"

definition testCmd ::
  "('n, 's, 'i) command_env \<Rightarrow> (filesys \<Rightarrow> run_state \<Rightarrow> filesys) \<Rightarrow> ContainerHiveProject \<Rightarrow> string \<Rightarrow> test_request \<Rightarrow> test_state \<Rightarrow> command_error option \<times> test_state" where
  "testCmd e after_build project distPath t st =
     (let r = tq_request t; fs = ts_fs st in
      if validatePlatforms project (br_platforms r) \<noteq> [] then (Some (UnknownPlatforms (validatePlatforms project (br_platforms r))), st)
      else case (if tq_build t then map_sum id (after_build fs) (buildProject e fs project distPath (r\<lparr>br_registry := False\<rparr>)) else Inr fs) of
        Inl err \<Rightarrow> (Some err, st)
      | Inr fs \<Rightarrow>
     (let st = st\<lparr>ts_fs := fs\<rparr> in
      case os_Stat fs distPath of Inl err \<Rightarrow> (Some (DistNotFound err), st) | Inr _ \<Rightarrow>
     (case limitToChanges (cd_codec e) fs distPath (br_filters r) of Inl err \<Rightarrow> (Some (ChangesFile err), st) | Inr (filters, _, skip) \<Rightarrow>
      if skip then (None, st)
      else if cd_getenv e ''CI'' \<noteq> [] then
        (case setupRegistry e distPath (hc_Registry (pr_Config project)) of
           Inl err \<Rightarrow> (Some err, st) | Inr reg \<Rightarrow> run_tests e (Some reg) (test_opts project distPath r filters) st)
      else run_tests e None (test_opts project distPath r filters) st)))"

text \<open>\<open>ch report\<close>: \<open>as_json\<close> and \<open>as_page\<close> are the codec's two forms of a report.\<close>

definition reportCmd ::
  "'f report_env \<Rightarrow> (ProjectReport \<Rightarrow> string option) \<Rightarrow> (ProjectReport \<Rightarrow> string option) \<Rightarrow> string \<Rightarrow> (nat \<Rightarrow> nat) \<Rightarrow> ContainerHiveProject \<Rightarrow> string \<Rightarrow> string \<Rightarrow> bool \<Rightarrow> filesys
   \<Rightarrow> command_error option \<times> filesys" where
  "reportCmd e as_json as_page embeddedHTML umask project projectRoot outputPath jsonOnly fs =
     (let outputPath = (if outputPath = [] then go_path_join [projectRoot, ''dist'', if jsonOnly then ''report.json'' else ''report.html''] else outputPath) in
      case Generate_report (e\<lparr>re_fs := fs\<rparr>) project of
        Inl p \<Rightarrow> (Some (ReportPanicked p), fs)
      | Inr reportData \<Rightarrow>
          (case (if jsonOnly then (case as_json reportData of None \<Rightarrow> Inl None | Some data \<Rightarrow> Inr data)
                 else GenerateHTMLFromAssets as_page embeddedHTML fs reportData) of
             Inl err \<Rightarrow> (Some (ReportNotMade err), fs)
           | Inr data \<Rightarrow> let (err, fs) = os_WriteFile umask outputPath data 420 fs in (map_option ReportNotWritten err, fs)))"

definition validateGraphFormat :: "string \<Rightarrow> command_error option" where
  "validateGraphFormat format = (if format = ''mermaid'' \<or> format = ''dot'' then None else Some (UnknownGraphFormat format))"

definition writeGraph :: "(string \<Rightarrow> string \<Rightarrow> bool) \<Rightarrow> DepsGraph \<Rightarrow> string \<Rightarrow> string \<Rightarrow> command_error option \<times> string" where
  "writeGraph takes graph format out =
     (case validateGraphFormat format of
        Some err \<Rightarrow> (Some err, out)
      | None \<Rightarrow> let (ok, out) = emit takes (if format = ''dot'' then Dot graph else Mermaid graph) out in (if ok then None else Some OutputRefused, out))"

definition graphCmd :: "(string \<Rightarrow> string \<Rightarrow> bool) \<Rightarrow> files \<Rightarrow> ContainerHiveProject \<Rightarrow> string \<Rightarrow> string \<Rightarrow> command_error option \<times> string" where
  "graphCmd takes fs project format out =
     (case validateGraphFormat format of Some err \<Rightarrow> (Some err, out) | None \<Rightarrow> writeGraph takes (ProjectGraph fs project) format out)"

section \<open>A written change set limits later builds\<close>

lemma Write_then_Load:
  assumes "Write_changes codec umask distPath cs fs = (None, fs')"
    and "\<And>data. cc_encode codec cs = Some data \<Longrightarrow> cc_decode codec (data @ [newline]) = Some cs"
  shows "Load_changes codec distPath fs' = Inr (Some cs)"
proof -
  obtain data fs1 where "cc_encode codec cs = Some data"
      and "os_WriteFile umask (go_path_join [distPath, changes_FileName]) (data @ [newline]) 420 fs1 = (None, fs')"
    using assms(1) by (auto simp: Write_changes_def Let_def split: option.splits prod.splits)
  then show ?thesis using WriteFile_read(1) assms(2) by (simp add: Load_changes_def)
qed

lemma changesCmd_writes:
  assumes "changesCmd e f project distPath (fs, out) = Some (None, fs', out')" and "cf_write f" and "detect_set e f project fs = Some (Inr cs)"
  shows "Write_changes (cv_codec e) (cv_umask e) distPath cs fs = (None, fs')"
proof -
  obtain err fs1 where w: "Write_changes (cv_codec e) (cv_umask e) distPath cs fs = (err, fs1)" by (rule prod.exhaust)
  then show ?thesis
    using assms by (cases err) (auto simp: changesCmd_def split: option.splits prod.splits)
qed

definition built_of :: "command_error + run_state \<Rightarrow> built list" where
  "built_of r = (case r of Inr st \<Rightarrow> rs_log st | Inl (BuildStopped (run_stop.Failed _ st)) \<Rightarrow> rs_log st | _ \<Rightarrow> [])"

lemma build_opts_request:
  assumes "build_opts e fs project distPath r = Inr (Some opts)" and "limitToChanges (cd_codec e) fs distPath (br_filters r) = Inr (limited, found, skip)"
  shows "\<not> skip \<and> po_Project opts = project \<and> po_Filters opts = limited \<and> po_Changes opts = found \<and> po_DistPath opts = distPath"
  using assms by (auto simp: build_opts_def Let_def split: if_splits sum.splits option.splits)

lemma build_opts_stops_before: "build_opts e fs project distPath r \<noteq> Inl (BuildStopped x)"
  by (auto simp: build_opts_def setupRegistry_def connect_client_def Let_def split: if_splits sum.splits option.splits registry_choice.splits)

lemma buildProject_built:
  assumes "names_ok project" and "limitToChanges (cd_codec e) fs distPath (br_filters r) = Inr (limited, found, skip)"
    and "b \<in> set (built_of (buildProject e fs project distPath r))"
  shows "\<not> skip \<and> MatchesFilter limited (bt_Image b) (bt_Tag b)"
proof -
  have "rs_log (start_state fs) = []" by (simp add: start_state_def)
  then obtain opts where o: "build_opts e fs project distPath r = Inr (Some opts)"
      and run: "case BuildProject (cd_build e) opts (start_state fs) of Inr (st, _) \<Rightarrow> b \<in> set (rs_log st) | Inl (run_stop.Failed _ st) \<Rightarrow> b \<in> set (rs_log st) | Inl Panicked \<Rightarrow> False"
    using assms(3) by (auto simp: buildProject_def built_of_def build_opts_stops_before split: sum.splits option.splits run_stop.splits)
  note opts = build_opts_request[OF o assms(2)]
  have "ends_only (selected_build (with_owners opts)) (start_state fs) (map_sum id fst (BuildProject (cd_build e) opts (start_state fs)))"
    using assms(1) opts by (intro BuildProject_only) simp
  then have "selected_build (with_owners opts) b"
    using run by (auto simp: ends_only_def only_def start_state_def list_all_iff split: sum.splits run_stop.splits)
  then have "matchesFilters (po_Filters opts) (bt_Image b) (bt_Tag b)"
    by (auto simp: selected_build_def selected_of_def with_owners_def)
  then show ?thesis using opts by (simp add: MatchesFilter_build)
qed

text \<open>
  C31. Changes limit builds.  After \<open>ch changes --write\<close> succeeded, a build in the same project, whether it succeeds or fails half way, only finishes builds of tags that its
  own filters select and whose image is in the set the command detected.
\<close>

theorem changes_limit_builds:
  assumes "changesCmd xe f project0 distPath (fs, out) = Some (None, fs', out')" and "cf_write f" and "detect_set xe f project0 fs = Some (Inr cs)"
    and "cd_codec e = cv_codec xe" and "\<And>data. cc_encode (cv_codec xe) cs = Some data \<Longrightarrow> cc_decode (cv_codec xe) (data @ [newline]) = Some cs"
    and "[] \<notin> set (cs_Affected cs)" and "names_ok project"
  shows "\<forall>b \<in> set (built_of (buildProject e fs' project distPath r)).
    bt_Image b \<in> set (cs_Affected cs) \<and> MatchesFilter (br_filters r) (bt_Image b) (bt_Tag b)"
proof
  fix b assume b: "b \<in> set (built_of (buildProject e fs' project distPath r))"
  have "Load_changes (cv_codec xe) distPath fs' = Inr (Some cs)"
    by (rule Write_then_Load[OF changesCmd_writes[OF assms(1,2,3)] assms(5)])
  then obtain limited skip where l: "limitToChanges (cd_codec e) fs' distPath (br_filters r) = Inr (limited, Some cs, skip)"
      and sel: "\<not> skip \<longrightarrow> (\<forall>i t. MatchesFilter limited i t \<longleftrightarrow> MatchesFilter (br_filters r) i t \<and> i \<in> set (cs_Affected cs))"
    using limitToChanges_selects assms(4,6) by metis
  show "bt_Image b \<in> set (cs_Affected cs) \<and> MatchesFilter (br_filters r) (bt_Image b) (bt_Tag b)"
    using buildProject_built[OF assms(7) l b] sel by blast
qed

definition app_fs :: filesys where
  "app_fs =
     [((False, [''dist'']), Directory 493), ((False, [''dist'', ''app'']), Directory 493), ((False, [''dist'', ''app'', ''1.0'']), Directory 493),
      ((False, [''dist'', ''app'', ''1.0'', ''Dockerfile'']), RegularFile ''FROM __hive__/base:1.0'' 420),
      ((False, [''dist'', ''base'']), Directory 493), ((False, [''dist'', ''base'', ''1.0'']), Directory 493),
      ((False, [''dist'', ''base'', ''1.0'', ''Dockerfile'']), RegularFile ''FROM alpine'' 420),
      ((False, [''dist'', ''base'', ''1.0'', ''linux-amd64'']), Directory 493),
      ((False, [''dist'', ''base'', ''1.0'', ''linux-amd64'', ''image.tar'']), RegularFile ''tar'' 420)]"

definition whole_project :: ContainerHiveProject where
  "whole_project = app_project\<lparr>pr_ImagesByIdentifier := [(''app'', plain_image ''app'' [''base'']), (''base'', plain_image ''base'' [])]\<rparr>"

definition app_changes :: ChangeSet where
  "app_changes = \<lparr>cs_Base = [], cs_Global = False, cs_Reason = [], cs_Changed = [''app''], cs_Affected = [''app'']\<rparr>"

definition app_changes_env :: changes_env where
  "app_changes_env = \<lparr>cv_codec = \<lparr>cc_encode = \<lambda>_. Some ''{}'', cc_decode = \<lambda>_. Some app_changes\<rparr>, cv_glob = any_glob, cv_os = plain_os,
     cv_git = \<lambda>_ _. Inl ''no repository'', cv_stdin = ''images/app/Dockerfile'' @ [newline], cv_takes = \<lambda>_ _. True, cv_umask = id\<rparr>"

definition app_flags :: changes_flags where
  "app_flags = \<lparr>cf_format = ''text'', cf_unmatched = ''all'', cf_base = [], cf_files_from = ''-'', cf_strict = False, cf_write = True\<rparr>"

definition app_command_env :: "(string, string, string) command_env" where
  "app_command_env = \<lparr>cd_codec = cv_codec app_changes_env, cd_getenv = \<lambda>n. if n = ''BUILDKIT_HOST'' then ''tcp://b'' else [], cd_connect = \<lambda>_. None,
     cd_zot = \<lambda>_. None, cd_build = app_env,
     cd_tests = \<lparr>tv_cancelled = \<lambda>_. False, tv_NewRunner = \<lambda>_. None, tv_RunTests = \<lambda>_ _ _ _ fs. (None, fs), tv_ImageRef = None, tv_umask = id\<rparr>,
     cd_gcr = \<lparr>gcr_tag_ok = \<lambda>_. True, gcr_ref_ok = \<lambda>_. True, gcr_platform_ok = \<lambda>_. True, gcr_load_tar = \<lambda>_. None, gcr_write_ok = \<lambda>_. True,
       gcr_retag_ok = \<lambda>_ _. True, gcr_pick = \<lambda>_. None\<rparr>\<rparr>"

definition app_request :: build_request where
  "app_request = \<lparr>br_filters = [], br_buildID = [], br_platforms = [''amd64''], br_registry = False, br_shard = \<lparr>Current = 1, MaxShards = 1\<rparr>\<rparr>"

definition app_limited_fs :: filesys where
  "app_limited_fs = mput (path_key ''dist/changes.json'') (RegularFile (''{}'' @ [newline]) 420) app_fs"

lemma detected_exactly: "(case r of Some (Inr cs) \<Rightarrow> cs = c | _ \<Rightarrow> False) \<Longrightarrow> r = Some (Inr c)"
  by (simp split: option.splits sum.splits)

lemma succeeded_exactly: "(case r of Some (None, w) \<Rightarrow> w = w' | _ \<Rightarrow> False) \<Longrightarrow> r = Some (None, w')"
  by (auto split: option.splits prod.splits)

lemma app_detected: "detect_set app_changes_env app_flags whole_project app_fs = Some (Inr app_changes)"
  by (rule detected_exactly) code_simp

lemma app_changes_written: "changesCmd app_changes_env app_flags whole_project ''dist'' (app_fs, []) = Some (None, app_limited_fs, ''app'' @ [newline])"
  by (rule succeeded_exactly) code_simp

lemma app_built: "map job (built_of (buildProject app_command_env app_limited_fs whole_project ''dist'' app_request)) = [(''app'', ''1.0'', ''linux/amd64'')]"
  by code_simp

theorem changes_limit_builds_witness:
  "map job (built_of (buildProject app_command_env app_limited_fs whole_project ''dist'' app_request)) = [(''app'', ''1.0'', ''linux/amd64'')]
   \<and> bt_Image ` set (built_of (buildProject app_command_env app_limited_fs whole_project ''dist'' app_request)) \<subseteq> {''app''}"
proof -
  have "names_ok whole_project"
    by (auto simp: names_ok_def whole_project_def app_project_def project_of_def wf_map_def mget_or_def plain_image_def split: if_splits)
  moreover have "[] \<notin> set (cs_Affected app_changes)" and "cf_write app_flags" by (simp_all add: app_changes_def app_flags_def)
  moreover have "cd_codec app_command_env = cv_codec app_changes_env" by (simp add: app_command_env_def)
  moreover have "\<And>data. cc_encode (cv_codec app_changes_env) app_changes = Some data \<Longrightarrow> cc_decode (cv_codec app_changes_env) (data @ [newline]) = Some app_changes"
    by (simp add: app_changes_env_def)
  ultimately have "\<forall>b \<in> set (built_of (buildProject app_command_env app_limited_fs whole_project ''dist'' app_request)).
      bt_Image b \<in> set (cs_Affected app_changes) \<and> MatchesFilter (br_filters app_request) (bt_Image b) (bt_Tag b)"
    using changes_limit_builds[OF app_changes_written _ app_detected] by blast
  then show ?thesis using app_built by (simp add: app_changes_def image_subset_iff)
qed

section \<open>What the lines of a list of files are\<close>

lemma scanned_lines:
  "scan_lines data = Inr files \<Longrightarrow> files = filter (\<lambda>l. l \<noteq> []) (map go_trim_space (go_split newline data)) \<and> (\<forall>l \<in> set (go_split newline data). int (length l) < max_token)"
  by (auto simp: scan_lines_def Let_def not_le split: if_splits)

text \<open>Without an endpoint in the project and in the environment no client is made.\<close>

lemma no_default_endpoint: "cd_getenv e ''BUILDKIT_HOST'' = [] \<Longrightarrow> connect_client e [] \<noteq> None"
  by (simp add: connect_client_def client_endpoint_def)

end
