(* ===== verification/Spec2Isabelle.thy ===== *)
theory Spec2Isabelle
  imports Semantic_Tags Image_Aliases Variant_Graph Shard Changes Tag_Ranges CI_Context Publish Rendered_Builds Mcp_Docs Mcp_Images Version_Sources Build_Display Linting Tar_Extract Pipeline_Files Commands
begin

text \<open>
  \<^bold>\<open>Verification of ContainerHive\<close>

  ContainerHive builds families of container images from a project directory.  A run goes through
  these steps, each a component of its own:

  \<^item> \<^emph>\<open>Discovery\<close> (\<open>pkg/discovery\<close>) walks the directory, decodes the definitions and returns a project: images,
    their tags, variants and platforms.  A definition may ask for a \<^emph>\<open>tag range\<close> (\<open>internal/tagrange\<close>): versions
    reported by a source, cached on disk, filtered, selected and rendered to tags.
  \<^item> The \<^emph>\<open>dependency graph\<close> (\<open>internal/dependency\<close>, \<open>pkg/deps\<close>) is scanned from the rendered Dockerfiles,
    merged with declared dependencies and backend parents, and sorted topologically to the build order.
  \<^item> \<^emph>\<open>Change detection\<close> (\<open>internal/changes\<close>, \<open>pkg/changes\<close>), \<^emph>\<open>shards\<close> (\<open>pkg/shard\<close>), filters and
    \<^emph>\<open>platforms\<close> (\<open>pkg/platform\<close>) cut down what is built; \<open>pkg/ci\<close> computes the same for a generated pipeline.
  \<^item> A \<^emph>\<open>build\<close> (\<open>pkg/build\<close>, \<open>internal/buildkit\<close>, \<open>pkg/cache\<close>) resolves the inputs of a tag over the levels
    of the configuration (\<open>internal/buildconfig_resolver\<close>, \<open>internal/secrets\<close>), binds the references to other images to
    the tars of earlier builds or to a registry, and hands one solve request to BuildKit, retrying broken connections.
  \<^item> \<^emph>\<open>Publishing\<close> (\<open>pkg/registry\<close>, \<open>internal/gcr\<close>) joins the images of the platforms to a manifest list per tag
    and points the aliases (\<open>pkg/rendering\<close>, \<open>internal/semantic_tags\<close>) at their tags.
  \<^item> Around a run: the \<^emph>\<open>commands\<close> (\<open>pkg/cli\<close>) order these steps and write generated pipelines; \<^emph>\<open>linting\<close>
    (\<open>pkg/lint\<close>), \<^emph>\<open>tests\<close> (\<open>pkg/test\<close>), \<^emph>\<open>inventories\<close> (\<open>pkg/sbom\<close>) and \<^emph>\<open>reports\<close> (\<open>pkg/report\<close>) examine what is
    rendered and built; the \<^emph>\<open>displays\<close> (\<open>pkg/progress\<close>) show a solve; an \<^emph>\<open>information server\<close> (\<open>pkg/mcp\<close>)
    answers questions about the project and its documentation.

  \<^bold>\<open>Theories and sources\<close>

  Definitions keep the names of the functions they translate; loops, struct updates and early returns
  have helpers beside them.  Structs are records, enumerations datatypes, errors the left of a sum
  (\<open>nil\<close> errors of a procedure an option), Go maps association lists with distinct keys
  (so that a map's iteration order can be written down and quantified over), strings byte lists.

  \<^item> \<open>Go_Prelude\<close>, \<open>Go_Strings\<close>, \<open>Go_Text\<close>, \<open>Go_Numbers\<close>, \<open>Go_Regexp\<close>, \<open>Go_Paths\<close>: what the sources use of Go's standard
    library: maps, results, \<open>strings\<close>, \<open>strconv\<close>, leftmost-first regular expressions with submatches, \<open>path\<close>.
    \<open>Go_Files\<close>: the calls of \<open>os\<close> on an explicit file system, and the interface \<open>disk_change\<close> of what a
    call leaves alone, with its interpretations \<open>kept\<close>, \<open>elsewhere\<close> and \<open>apart\<close>.
  \<^item> \<open>Model\<close>: \<open>pkg/model\<close>, the structs, their decoders and validation.
  \<^item> \<open>Semantic_Tags\<close>: \<open>internal/semantic_tags/main.go\<close>; \<open>Version_Order\<close>: the interface of a three-way comparison, with
    an interpretation on \<open>Compare\<close>; \<open>Image_Aliases\<close>: the alias functions of \<open>pkg/rendering/main.go\<close> and \<open>image_aliases.go\<close>.
  \<^item> \<open>Dep_Graph\<close>: \<open>internal/dependency/graph.go\<close>; \<open>Dep_Scan\<close>: \<open>scanner.go\<close>, \<open>parent.go\<close>, \<open>resolve.go\<close>;
    \<open>Variant_Graph\<close>: \<open>variant_graph.go\<close> and \<open>pkg/deps\<close>.
  \<^item> \<open>Shard\<close>: \<open>pkg/shard/shard.go\<close>, over the interface \<open>slots\<close> of a hash; \<open>Changes\<close>: \<open>internal/changes\<close>
    and \<open>pkg/changes\<close>; \<open>Platforms\<close>: \<open>pkg/platform/platform.go\<close>; \<open>CI_Context\<close>: \<open>pkg/ci/context.go\<close>, \<open>provider.go\<close>;
    \<open>Selected_Tags\<close>: the filters of \<open>pkg/utils\<close>, the file of changes, the options of a selection in \<open>pkg/cli\<close>,
    and the tests of \<open>pkg/test\<close>.
  \<^item> \<open>Tag_Ranges\<close>: candidates, the condition language, filter, generator, template and version matrix of
    \<open>internal/tagrange\<close>; \<open>Version_Sources\<close>: the sources of versions in \<open>internal/tagrange/source\<close>; \<open>Query_Cache\<close>: the
    interface \<open>query_cache\<close> of a cache, interpreted in \<open>Version_Cache\<close> (\<open>cache.go\<close>, \<open>source/source.go\<close>, the resolver)
    and in \<open>Mcp_Docs\<close>; \<open>File_Resolver\<close>: \<open>internal/file_resolver\<close>; \<open>Discovery\<close>: \<open>pkg/discovery\<close>.
  \<^item> \<open>Disk_Copy\<close>: \<open>pkg/rendering/rootfs.go\<close>; \<open>Rendering\<close>: the rest of \<open>pkg/rendering\<close>, as tasks that take turns;
    \<open>Rendered_Builds\<close>: a build on the directory that rendering wrote.
  \<^item> \<open>Build_Config\<close>: secrets, build inputs, labels; \<open>Retry\<close>: \<open>internal/buildkit/retry.go\<close>; \<open>Build_Scripts\<close>:
    the shell scripts and build steps of the Nix and Chisel backends (\<open>internal/buildkit/build_context\<close>);
    \<open>Build_Client\<close>: the solve request and cache backends; \<open>Hive_Deps\<close>: \<open>pkg/build/hive_deps.go\<close>, \<open>backend.go\<close>;
    \<open>Build_Run\<close>: \<open>pkg/build/project.go\<close>; \<open>Selected_Builds\<close>: the log of the tags such a run builds;
    \<open>Publish\<close>: \<open>pkg/registry\<close>, \<open>internal/gcr\<close>, \<open>internal/registry\<close>; \<open>Tar_Extract\<close>: \<open>internal/utils/tar.go\<close>.
  \<^item> \<open>Line_Output\<close>: the line buffers of \<open>pkg/progress\<close> and logging; \<open>Build_Display\<close>: the linear and interactive
    displays, interpretations of the interface \<open>display\<close>.
  \<^item> \<open>Linting\<close>: \<open>pkg/lint\<close>, \<open>internal/hadolint\<close>, \<open>pkg/cli/lint.go\<close>; \<open>Inventories\<close>: \<open>pkg/cli/sbom.go\<close>, \<open>pkg/sbom\<close>;
    \<open>Reports\<close>: \<open>pkg/report\<close>; \<open>Mcp_Docs\<close>, \<open>Mcp_Images\<close>: \<open>pkg/mcp\<close>.
  \<^item> \<open>Pipeline_Files\<close>: \<open>pkg/cli/template.go\<close> and the generator of \<open>pkg/ci\<close>; \<open>Commands\<close>: the actions of the commands
    changes, build, test, finalize, report and graph of \<open>pkg/cli\<close>.

  \<^bold>\<open>What is shown\<close>

  \<^item> \<^emph>\<open>Versions and aliases.\<close>  The version expression equals a scan; parsing and printing are inverse;
    comparison is a total preorder; an alias points at the highest candidate that claims it.
  \<^item> \<^emph>\<open>Order.\<close>  The sort returns an order exactly for acyclic registered graphs, the order lists dependencies
    first and does not depend on map iteration; every image follows what its Dockerfiles, declarations and parents
    name, in the build order and in a pipeline; and in a successful run along the order every
    selected dependency is built before it is used.
  \<^item> \<^emph>\<open>Selection.\<close>  Detection equals reachability from the changed images; shards partition the units and
    build the bases of their variants; platforms come from the most specific level; filters limited to a file of
    changes keep the affected images; only selected tags are built and tested; and what the command for changes
    writes limits what a later build command builds.
  \<^item> \<^emph>\<open>Tag ranges.\<close>  Generated tags are distinct, valid and bounded in number, the highest version wins a name; the
    cache refines a per-query contract and answers only what a source reported; a request is sent at most three
    times, and at most three pages of a hundred releases are read.
  \<^item> \<^emph>\<open>Rendering.\<close>  A copied directory has the files of its source; in whatever order the tasks
    of a rendering take turns, the directory has the files a build reads, and a build finds its entry points.
  \<^item> \<^emph>\<open>Builds.\<close>  Inputs and labels over the levels, the words a shell reads from generated
    scripts, references bound to the right image, retries that end; manifest lists of exactly the images pushed;
    archives that extract inside their target or not at all.
  \<^item> \<^emph>\<open>Examination.\<close>  Lines of a log do not depend on how the output was cut; the displays write for a vertex the lines of its log; the
    verdict of a lint is that of its files; the workers of an inventory run end with a result for every
    job; a report lists the packages and aliases of its images; an answer of the information server is that of
    the page asked for.

  \<^bold>\<open>Loops and termination\<close>

  No definition uses fuel.  Structural loops are \<open>fun\<close> or \<open>primrec\<close>; the loops of the sort, the depth calculation,
  the retries (at most four attempts), string replacement and shell words are functions with a
  measure.  The closure of changed images (\<open>expand_loop\<close> of \<open>Changes\<close>) and the copy of a directory (\<open>copy_work\<close> of
  \<open>Disk_Copy\<close>) are partial functions, with the proofs that they return: the first always, the second
  unless the target lies inside the source or above it.  Concurrency is a step relation: tasks of a rendering, the locks of the documentation
  cache, the workers of an inventory run.  Counters the sources keep at machine width and that can wrap
  (the hash of a shard, the count of shards) are words; others are bounded by lengths of lists in memory.

  \<^bold>\<open>Parameters and what is not modelled\<close>

  Code outside the repository is an argument: YAML, JSON and JSONata, the expression evaluator and template engine, git,
  the glob matcher, the copy of the container library, the digest and codec of the cache, clocks, HTTP, BuildKit's
  solve, the image reference and registry libraries, the linter of Dockerfiles, the scanner of packages, the
  runner of structure tests, the reader of archives.  Laws assumed of them are named hypotheses of the
  properties that need them and stated with a witness.  The goroutines of platform builds and discovery share
  no state but their results and are modelled one after the other.
  Not modelled: the wiring of flags, the commands for logins, waiting and development, the embedded registry,
  the clients of containers, credentials and vaults, build information and code generators: they
  call external programs or wait for processes, and keep no state the modelled parts rely on.
\<close>

end
